(* ===== verification/Prelude.thy ===== *)
theory Prelude
  imports Main "HOL-Library.Word" "HOL-Library.AList" "HOL-Library.List_Lexorder"
begin

text \<open>
  The prelude: names of the machine integers, the result type of the library
  (\<open>std::expected<T, error_code>\<close> is a sum, \<open>Inl\<close> the error), the collections of
  rewrite rules the component theories fill, and generic facts on lists, association
  lists and words that several components share.
\<close>

section \<open>Machine integers\<close>

type_synonym u8 = "8 word"
type_synonym u16 = "16 word"
type_synonym u32 = "32 word"
type_synonym u64 = "64 word"
type_synonym bytes = "u8 list"

text \<open>\<open>size_t\<close> is 64 bits wide on every target the formats are certified for (LP64).\<close>

abbreviation u64_max :: u64 where
  "u64_max \<equiv> - 1"

abbreviation u32_max :: u32 where
  "u32_max \<equiv> - 1"

section \<open>Collections of facts\<close>

named_theorems codec_simps \<open>readers applied to what the writers produce\<close>
named_theorems frame_simps \<open>fields and files an operation leaves alone\<close>
named_theorems wf_intros \<open>preservation of the well-formedness predicates\<close>

section \<open>Words\<close>

lemma unat_u64_less: "unat (x :: u64) < 2 ^ 64"
  using unsigned_less[of x] by simp

lemma unat_small: "n < 2 ^ 64 \<Longrightarrow> unat (word_of_nat n :: u64) = n"
  by (simp add: unat_of_nat)

lemma of_nat_unat_id: "word_of_nat (unat (w :: 'a::len word)) = w"
  by simp

lemma word_less_Suc:
  fixes x :: u64
  assumes "x \<noteq> u64_max"
  shows "x < x + 1"
proof -
  have "unat x \<noteq> 2 ^ 64 - 1"
  proof
    assume "unat x = 2 ^ 64 - 1"
    then have "x = word_of_nat (2 ^ 64 - 1)" by (metis of_nat_unat_id)
    with assms show False by simp
  qed
  with unat_u64_less[of x] have "unat x + 1 < 2 ^ 64" by simp
  then have "unat (x + 1) = unat x + 1"
    by (simp add: unat_word_ariths)
  then show ?thesis by (simp add: word_less_nat_alt)
qed

lemma word_le_less_Suc:
  fixes x y :: u64
  assumes "x \<le> y" "y \<noteq> u64_max"
  shows "x < y + 1"
  using assms word_less_Suc[of y] by (meson le_less_trans)

lemma unat_u64_max: "unat u64_max = 2 ^ 64 - 1"
proof -
  have "u64_max = word_of_nat (2 ^ 64 - 1)" by simp
  then show ?thesis by (simp only: unat_of_nat) simp
qed

section \<open>Association lists as directories and dictionaries\<close>

lemma map_of_update_fun:
  "map_of (AList.update k v al) = (map_of al)(k \<mapsto> v)"
  by (rule update_conv')

lemma map_of_delete_fun:
  "map_of (AList.delete k al) = (map_of al)(k := None)"
  by (rule delete_conv')

lemma distinct_fst_update:
  "distinct (map fst al) \<Longrightarrow> distinct (map fst (AList.update k v al))"
  by (rule distinct_update)

lemma distinct_fst_delete:
  "distinct (map fst al) \<Longrightarrow> distinct (map fst (AList.delete k al))"
  by (rule distinct_delete)

lemma map_of_eq_None_iff_fst: "map_of al k = None \<longleftrightarrow> k \<notin> fst ` set al"
  by (rule map_of_eq_None_iff)

lemmas alist_simps = map_of_update_fun map_of_delete_fun distinct_fst_update distinct_fst_delete

end
