(* ===== verification/Record_Bytes.thy ===== *)
theory Record_Bytes
  imports Prelude
begin

text \<open>
  Models \<open>src/detail/record_bytes.hpp\<close>: the byte encoding shared by the metadata file,
  the merge record, the segment stamp and the configuration file. Scalars are written
  little-endian (\<open>put\<close>, a \<open>memcpy\<close> on a little-endian target, which the header asserts)
  and read back through a cursor that advances (\<open>get\<close>). A cursor is the rest of the
  buffer. \<open>checksum\<close> is 32-bit FNV-1a with the multiplication wrapping.
\<close>

unbundle bit_operations_syntax

section \<open>Little-endian scalars\<close>

fun le_bytes :: "nat \<Rightarrow> nat \<Rightarrow> bytes" where
  "le_bytes 0 x = []"
| "le_bytes (Suc n) x = word_of_nat (x mod 256) # le_bytes n (x div 256)"

fun le_nat :: "bytes \<Rightarrow> nat" where
  "le_nat [] = 0"
| "le_nat (b # bs) = unat b + 256 * le_nat bs"

definition put8 :: "u8 \<Rightarrow> bytes" where
  "put8 w = le_bytes 1 (unat w)"

definition put16 :: "u16 \<Rightarrow> bytes" where
  "put16 w = le_bytes 2 (unat w)"

definition put32 :: "u32 \<Rightarrow> bytes" where
  "put32 w = le_bytes 4 (unat w)"

definition put64 :: "u64 \<Rightarrow> bytes" where
  "put64 w = le_bytes 8 (unat w)"

definition get8 :: "bytes \<Rightarrow> u8 \<times> bytes" where
  "get8 cursor = (word_of_nat (le_nat (take 1 cursor)), drop 1 cursor)"

definition get16 :: "bytes \<Rightarrow> u16 \<times> bytes" where
  "get16 cursor = (word_of_nat (le_nat (take 2 cursor)), drop 2 cursor)"

definition get32 :: "bytes \<Rightarrow> u32 \<times> bytes" where
  "get32 cursor = (word_of_nat (le_nat (take 4 cursor)), drop 4 cursor)"

definition get64 :: "bytes \<Rightarrow> u64 \<times> bytes" where
  "get64 cursor = (word_of_nat (le_nat (take 8 cursor)), drop 8 cursor)"

text \<open>\<open>memcpy\<close> of a fixed-size array from the cursor.\<close>

definition get_array :: "nat \<Rightarrow> bytes \<Rightarrow> bytes \<times> bytes" where
  "get_array n cursor = (take n cursor, drop n cursor)"

section \<open>FNV-1a\<close>

definition checksum_step :: "u8 \<Rightarrow> u32 \<Rightarrow> u32" where
  "checksum_step b hash = (hash XOR ucast b) * 16777619"

definition checksum :: "bytes \<Rightarrow> u32" where
  "checksum bs = fold checksum_step bs 2166136261"

section \<open>Round trips\<close>

lemma length_le_bytes [simp]: "length (le_bytes n x) = n"
  by (induction n arbitrary: x) auto

lemma le_nat_le_bytes: "le_nat (le_bytes n x) = x mod 256 ^ n"
proof (induction n arbitrary: x)
  case 0
  then show ?case by simp
next
  case (Suc n)
  have "unat (word_of_nat (x mod 256) :: u8) = x mod 256"
    by (simp add: unat_of_nat)
  then show ?case
    using Suc mod_mult2_eq[of x 256 "256 ^ n"] by simp
qed

lemma le_nat_bound: "le_nat bs < 256 ^ length bs"
proof (induction bs)
  case Nil
  then show ?case by simp
next
  case (Cons b bs)
  have "unat b < 256" using unsigned_less[of b] by simp
  then have "unat b + 256 * le_nat bs < 256 * (1 + le_nat bs)" by simp
  also have "\<dots> \<le> 256 * 256 ^ length bs" using Cons by simp
  finally show ?case by simp
qed

lemma le_bytes_le_nat: "le_bytes (length bs) (le_nat bs) = bs"
proof (induction bs)
  case Nil
  then show ?case by simp
next
  case (Cons b bs)
  have "unat b < 256" using unsigned_less[of b] by simp
  then have "(unat b + 256 * le_nat bs) mod 256 = unat b"
    and "(unat b + 256 * le_nat bs) div 256 = le_nat bs" by simp_all
  with Cons show ?case by (simp add: of_nat_unat_id del: of_nat_unat)
qed

lemma length_put [simp]:
  "length (put8 a) = 1" "length (put16 b) = 2" "length (put32 c) = 4" "length (put64 d) = 8"
  by (simp_all add: put8_def put16_def put32_def put64_def)

lemma get_put_exact:
  fixes w :: "'a::len word"
  assumes "256 ^ n = (2 :: nat) ^ LENGTH('a)"
  shows "(word_of_nat (le_nat (le_bytes n (unat w))) :: 'a word) = w"
proof -
  have "le_nat (le_bytes n (unat w)) = unat w"
    using unsigned_less[of w] assms by (simp add: le_nat_le_bytes)
  then show ?thesis by simp
qed

lemma get_put [codec_simps]:
  "get8 (put8 a @ r) = (a, r)"
  "get16 (put16 b @ r) = (b, r)"
  "get32 (put32 c @ r) = (c, r)"
  "get64 (put64 d @ r) = (d, r)"
  by (simp_all add: get8_def put8_def get16_def put16_def get32_def put32_def get64_def put64_def
      get_put_exact del: le_bytes.simps)

lemma get_put_end [codec_simps]:
  "get8 (put8 a) = (a, [])"
  "get16 (put16 b) = (b, [])"
  "get32 (put32 c) = (c, [])"
  "get64 (put64 d) = (d, [])"
  using get_put[where r = "[]"] by simp_all

lemma get_array_append [codec_simps]:
  "length a = n \<Longrightarrow> get_array n (a @ r) = (a, r)"
  by (simp add: get_array_def)

text \<open>The readers are also injective: what was read, written again, is what was there.\<close>

lemma put_get_exact:
  fixes bs :: bytes
  assumes "n \<le> length bs" "256 ^ n = (2 :: nat) ^ LENGTH('a::len)"
  shows "le_bytes n (unat (word_of_nat (le_nat (take n bs)) :: 'a word)) = take n bs"
proof -
  have "le_nat (take n bs) < 2 ^ LENGTH('a)"
    using le_nat_bound[of "take n bs"] assms by simp
  then have "unat (word_of_nat (le_nat (take n bs)) :: 'a word) = le_nat (take n bs)"
    by (simp add: unat_of_nat)
  then show ?thesis
    using le_bytes_le_nat[of "take n bs"] assms(1) by simp
qed

lemma put_get:
  "1 \<le> length c \<Longrightarrow> get8 c = (a8, r) \<Longrightarrow> c = put8 a8 @ r"
  "2 \<le> length c \<Longrightarrow> get16 c = (a16, r) \<Longrightarrow> c = put16 a16 @ r"
  "4 \<le> length c \<Longrightarrow> get32 c = (a32, r) \<Longrightarrow> c = put32 a32 @ r"
  "8 \<le> length c \<Longrightarrow> get64 c = (a64, r) \<Longrightarrow> c = put64 a64 @ r"
  by (auto simp: get8_def put8_def get16_def put16_def get32_def put32_def get64_def put64_def
      put_get_exact simp del: le_bytes.simps)

lemma put_get_array:
  "get_array n c = (a, r) \<Longrightarrow> c = a @ r"
  by (auto simp: get_array_def)

lemma get_lengths:
  "get8 c = (a8, r) \<Longrightarrow> length r = length c - 1"
  "get16 c = (a16, r) \<Longrightarrow> length r = length c - 2"
  "get32 c = (a32, r) \<Longrightarrow> length r = length c - 4"
  "get64 c = (a64, r) \<Longrightarrow> length r = length c - 8"
  "get_array n c = (a, r) \<Longrightarrow> length r = length c - n"
  by (auto simp: get8_def get16_def get32_def get64_def get_array_def)

end
