(* ===== verification/Names.thy ===== *)
theory Names
  imports Prelude
begin

text \<open>
  The file names of a database directory and the parser that reads a version back out of
  one: the \<open>fmt\<close> formats of \<open>src/detail/file_cache.hpp\<close>, the path functions of
  \<open>database_impl\<close> and \<open>parse_canonical_version\<close> of \<open>src/detail/version_catalog.hpp\<close>.
  A path is its file name, because every file lives directly in the database directory.
\<close>

section \<open>Decimal numerals\<close>

definition digit_char :: "nat \<Rightarrow> char" where
  "digit_char n = char_of (48 + n)"

definition digit_value :: "char \<Rightarrow> nat" where
  "digit_value c = of_char c - 48"

definition is_digit :: "char \<Rightarrow> bool" where
  "is_digit c \<longleftrightarrow> 48 \<le> (of_char c :: nat) \<and> (of_char c :: nat) \<le> 57"

fun dec :: "nat \<Rightarrow> string" where
  "dec n = (if n < 10 then [digit_char n] else dec (n div 10) @ [digit_char (n mod 10)])"

declare dec.simps [simp del]

definition undec :: "string \<Rightarrow> nat" where
  "undec s = foldl (\<lambda>acc c. 10 * acc + digit_value c) 0 s"

text \<open>\<open>fmt::format("{:05}", v)\<close>: at least five digits, zero padded.\<close>

definition fmt05 :: "u64 \<Rightarrow> string" where
  "fmt05 v = (let d = dec (unat v) in replicate (5 - length d) CHR ''0'' @ d)"

definition fmt_dec :: "u64 \<Rightarrow> string" where
  "fmt_dec v = dec (unat v)"

section \<open>Paths\<close>

text \<open>
  \<open>reference_sentinel_index\<close> is \<open>SIZE_MAX\<close>: the container index under which the single
  container of a reference-mode database is known.
\<close>

definition reference_sentinel_index :: u64 where
  "reference_sentinel_index = u64_max"

definition name_prefix :: "u64 \<Rightarrow> string" where
  "name_prefix index =
     (if index = reference_sentinel_index then ''compact_v''
      else ''cont_'' @ fmt_dec index @ ''_v'')"

definition data_path :: "u64 \<Rightarrow> u64 \<Rightarrow> string" where
  "data_path index version =
     (if index = reference_sentinel_index then ''compact_v'' @ fmt05 version @ ''.dat''
      else ''cont_'' @ fmt_dec index @ ''_v'' @ fmt05 version @ ''.dat'')"

definition building_path :: "u64 \<Rightarrow> u64 \<Rightarrow> string" where
  "building_path index version = data_path index version @ ''.building''"

definition sidecar_path :: "u64 \<Rightarrow> u64 \<Rightarrow> string" where
  "sidecar_path index version =
     (if index = reference_sentinel_index then ''compact_v'' @ fmt05 version @ ''.merge''
      else ''cont_'' @ fmt_dec index @ ''_v'' @ fmt05 version @ ''.merge'')"

definition metadata_path :: "u64 \<Rightarrow> u64 \<Rightarrow> string" where
  "metadata_path index version =
     (if index = reference_sentinel_index then ''meta_compact_v'' @ fmt05 version @ ''.dat''
      else ''meta_'' @ fmt_dec index @ ''_v'' @ fmt05 version @ ''.dat'')"

definition tmp_path :: "string \<Rightarrow> string" where
  "tmp_path path = path @ ''.tmp''"

definition config_path :: string where
  "config_path = ''utxoz_config.dat''"

definition lock_file_name :: string where
  "lock_file_name = ''.utxoz.lock''"

section \<open>The canonical version parser\<close>

definition parse_canonical_version :: "string \<Rightarrow> string \<Rightarrow> string \<Rightarrow> u64 option" where
  "parse_canonical_version name prefix suffix =
    (if length name \<le> length prefix + length suffix then None
     else if take (length prefix) name \<noteq> prefix then None
     else if drop (length name - length suffix) name \<noteq> suffix then None
     else
       let digits = take (length name - length prefix - length suffix) (drop (length prefix) name)
       in if digits = [] \<or> 20 < length digits then None
          else if \<not> list_all is_digit digits then None
          else if 2 ^ 64 \<le> undec digits then None
          else
            let value = word_of_nat (undec digits)
            in if fmt05 value \<noteq> digits then None else Some value)"

section \<open>Facts about numerals\<close>

lemma digit_value_char [simp]: "d < 10 \<Longrightarrow> digit_value (digit_char d) = d"
  by (simp add: digit_value_def digit_char_def)

lemma is_digit_char: "d < 10 \<Longrightarrow> is_digit (digit_char d)"
  by (simp add: is_digit_def digit_char_def)

lemma undec_append: "undec (a @ [c]) = 10 * undec a + digit_value c"
  by (simp add: undec_def)

lemma undec_dec [simp]: "undec (dec n) = n"
proof (induction n rule: dec.induct)
  case (1 n)
  show ?case
  proof (cases "n < 10")
    case True
    then show ?thesis by (simp add: dec.simps undec_def)
  next
    case False
    with 1 show ?thesis by (subst dec.simps) (simp add: undec_append)
  qed
qed

lemma dec_digits: "list_all is_digit (dec n)"
proof (induction n rule: dec.induct)
  case (1 n)
  then show ?case by (subst dec.simps) (auto simp: is_digit_char)
qed

lemma dec_not_Nil [simp]: "dec n \<noteq> []"
  by (subst dec.simps) simp

lemma length_dec_le: "0 < k \<Longrightarrow> n < 10 ^ k \<Longrightarrow> length (dec n) \<le> k"
proof (induction k arbitrary: n)
  case 0
  then show ?case by simp
next
  case (Suc k)
  show ?case
  proof (cases "n < 10")
    case True
    then show ?thesis by (subst dec.simps) simp
  next
    case False
    with Suc.prems have "k \<noteq> 0" by (cases k) auto
    moreover have "n div 10 < 10 ^ k"
      using Suc.prems by (simp add: div_less_iff_less_mult mult.commute)
    ultimately have "length (dec (n div 10)) \<le> k" by (intro Suc.IH) auto
    with False show ?thesis by (subst dec.simps) simp
  qed
qed

lemma undec_zeros: "undec (replicate k CHR ''0'' @ s) = undec s"
  by (induction k) (simp_all add: undec_def digit_value_def)

lemma undec_fmt05 [simp]: "undec (fmt05 v) = unat v"
  by (simp add: fmt05_def Let_def undec_zeros)

lemma fmt05_inject [simp]: "fmt05 v = fmt05 w \<longleftrightarrow> v = w"
  by (metis undec_fmt05 word_unat_eq_iff)

lemma fmt_dec_inject [simp]: "fmt_dec v = fmt_dec w \<longleftrightarrow> v = w"
  by (metis fmt_dec_def undec_dec word_unat_eq_iff)

lemma fmt05_digits: "list_all is_digit (fmt05 v)"
proof -
  have "is_digit CHR ''0''" by (simp add: is_digit_def)
  then show ?thesis using dec_digits[of "unat v"]
    by (auto simp: fmt05_def Let_def list_all_iff)
qed

lemma fmt_dec_digits: "list_all is_digit (fmt_dec v)"
  by (simp add: fmt_dec_def dec_digits)

lemma fmt05_not_Nil [simp]: "fmt05 v \<noteq> []"
  by (simp add: fmt05_def Let_def)

lemma length_fmt05: "length (fmt05 v) \<le> 20"
proof -
  have "unat v < 10 ^ 20" using unat_u64_less[of v] by simp
  then have "length (dec (unat v)) \<le> 20" by (intro length_dec_le) auto
  then show ?thesis by (simp add: fmt05_def Let_def)
qed

section \<open>The parser accepts exactly the names the code writes\<close>

lemma parse_canonical_version_iff:
  "parse_canonical_version name prefix suffix = Some v \<longleftrightarrow> name = prefix @ fmt05 v @ suffix"
proof
  assume parsed: "parse_canonical_version name prefix suffix = Some v"
  let ?digits = "take (length name - length prefix - length suffix) (drop (length prefix) name)"
  from parsed have len: "length prefix + length suffix < length name"
    and pre: "take (length prefix) name = prefix"
    and suf: "drop (length name - length suffix) name = suffix"
    and dig: "fmt05 v = ?digits"
    by (auto simp: parse_canonical_version_def Let_def not_le split: if_splits)
  obtain rest where rest: "name = prefix @ rest"
    using pre by (metis append_take_drop_id)
  with len have "length suffix < length rest" by simp
  moreover have "drop (length name - length suffix) name = drop (length rest - length suffix) rest"
    using rest \<open>length suffix < length rest\<close> by simp
  ultimately have "rest = take (length rest - length suffix) rest @ suffix"
    using suf append_take_drop_id[of "length rest - length suffix" rest] by metis
  moreover have "take (length rest - length suffix) rest = fmt05 v"
    using dig rest by simp
  ultimately show "name = prefix @ fmt05 v @ suffix" using rest by metis
next
  assume "name = prefix @ fmt05 v @ suffix"
  moreover have "unat v < 18446744073709551616" using unat_u64_less[of v] by simp
  ultimately show "parse_canonical_version name prefix suffix = Some v"
    using fmt05_digits[of v] length_fmt05[of v]
    by (simp add: parse_canonical_version_def Let_def not_le)
qed

section \<open>Distinct files have distinct names\<close>

lemma data_path_eq: "data_path i v = name_prefix i @ fmt05 v @ ''.dat''"
  by (simp add: data_path_def name_prefix_def)

lemma building_path_eq: "building_path i v = name_prefix i @ fmt05 v @ ''.dat.building''"
  by (simp add: building_path_def data_path_eq)

lemma sidecar_path_eq: "sidecar_path i v = name_prefix i @ fmt05 v @ ''.merge''"
  by (simp add: sidecar_path_def name_prefix_def)

text \<open>A numeral followed by a character that is not a digit ends where it seems to end.\<close>

lemma digits_split_unique:
  assumes "list_all is_digit a" "list_all is_digit b"
    and "\<not> is_digit x" "\<not> is_digit y"
    and "a @ x # r = b @ y # s"
  shows "a = b \<and> x = y \<and> r = s"
  using assms
proof (induction a arbitrary: b)
  case Nil
  then show ?case by (cases b) auto
next
  case (Cons c a)
  then show ?case by (cases b) auto
qed

lemma not_digit [simp]:
  "\<not> is_digit CHR ''_''" "\<not> is_digit CHR ''.''" "\<not> is_digit CHR ''c''"
  by (simp_all add: is_digit_def)

lemma prefix_version_suffix_inject:
  assumes "name_prefix i @ fmt05 v @ CHR ''.'' # s = name_prefix j @ fmt05 w @ CHR ''.'' # t"
  shows "i = j \<and> v = w \<and> s = t"
proof -
  note d = digits_split_unique[OF fmt05_digits fmt05_digits not_digit(2) not_digit(2)]
  note e = digits_split_unique[OF fmt_dec_digits fmt_dec_digits not_digit(1) not_digit(1)]
  consider (both) "i = reference_sentinel_index" "j = reference_sentinel_index"
    | (none) "i \<noteq> reference_sentinel_index" "j \<noteq> reference_sentinel_index"
    | (mixed) "(i = reference_sentinel_index) \<noteq> (j = reference_sentinel_index)" by blast
  then show ?thesis
  proof cases
    case both
    with assms show ?thesis by (auto simp: name_prefix_def dest: d)
  next
    case none
    with assms have "fmt_dec i @ CHR ''_'' # CHR ''v'' # fmt05 v @ CHR ''.'' # s
        = fmt_dec j @ CHR ''_'' # CHR ''v'' # fmt05 w @ CHR ''.'' # t"
      by (simp add: name_prefix_def)
    from e[OF this] show ?thesis by (auto dest: d)
  next
    case mixed
    with assms show ?thesis by (auto simp: name_prefix_def split: if_splits)
  qed
qed

lemma prefix_version_inject:
  assumes "name_prefix i @ fmt05 v = name_prefix j @ fmt05 w"
  shows "i = j" "v = w"
  using prefix_version_suffix_inject[of i v "[]" j w "[]"] assms by (metis append_assoc)+

lemma path_inject [simp]:
  "data_path i v = data_path j w \<longleftrightarrow> i = j \<and> v = w"
  "building_path i v = building_path j w \<longleftrightarrow> i = j \<and> v = w"
  "sidecar_path i v = sidecar_path j w \<longleftrightarrow> i = j \<and> v = w"
  by (auto simp: data_path_eq building_path_eq sidecar_path_eq
      dest: prefix_version_inject)

lemma path_disjoint [simp]:
  "data_path i v \<noteq> building_path j w" "building_path j w \<noteq> data_path i v"
  "data_path i v \<noteq> sidecar_path j w" "sidecar_path j w \<noteq> data_path i v"
  "building_path i v \<noteq> sidecar_path j w" "sidecar_path j w \<noteq> building_path i v"
  by (auto simp: data_path_eq building_path_eq sidecar_path_eq
      dest: prefix_version_suffix_inject)

lemma name_prefix_starts_c: "\<exists>r. name_prefix i = CHR ''c'' # CHR ''o'' # r"
  by (simp add: name_prefix_def)

lemma metadata_path_starts_m: "\<exists>r. metadata_path i v = CHR ''m'' # r"
  by (simp add: metadata_path_def)

lemma metadata_path_inject [simp]: "metadata_path i v = metadata_path j w \<longleftrightarrow> i = j \<and> v = w"
proof
  assume eq: "metadata_path i v = metadata_path j w"
  have mixed: "fmt_dec k @ s \<noteq> CHR ''c'' # t" for k s t
    using fmt_dec_digits[of k] not_digit(3) dec_not_Nil[of "unat k"]
    by (cases "fmt_dec k") (auto simp: fmt_dec_def)
  show "i = j \<and> v = w"
  proof (cases "i = reference_sentinel_index \<longleftrightarrow> j = reference_sentinel_index")
    case True
    with eq have "data_path i v = data_path j w"
      by (auto simp: metadata_path_def data_path_def split: if_splits)
    then show ?thesis by simp
  next
    case False
    with eq mixed mixed[symmetric] show ?thesis
      by (auto simp: metadata_path_def split: if_splits)
  qed
qed simp

lemma metadata_path_disjoint [simp]:
  "metadata_path i v \<noteq> data_path j w" "data_path j w \<noteq> metadata_path i v"
  "metadata_path i v \<noteq> building_path j w" "building_path j w \<noteq> metadata_path i v"
  "metadata_path i v \<noteq> sidecar_path j w" "sidecar_path j w \<noteq> metadata_path i v"
  using metadata_path_starts_m[of i v] name_prefix_starts_c[of j]
  by (auto simp: data_path_eq building_path_eq sidecar_path_eq)

lemma tmp_path_inject [simp]: "tmp_path p = tmp_path q \<longleftrightarrow> p = q"
  by (simp add: tmp_path_def)

lemma tmp_path_neq [simp]: "tmp_path p \<noteq> p" "p \<noteq> tmp_path p"
  by (simp_all add: tmp_path_def)

lemma ends_tmp: "\<exists>r. tmp_path p = r @ ''.tmp''"
  by (simp add: tmp_path_def)

lemma last_not_p: "last (data_path i v) \<noteq> CHR ''p''" "last (building_path i v) \<noteq> CHR ''p''"
  "last (sidecar_path i v) \<noteq> CHR ''p''" "last (metadata_path i v) \<noteq> CHR ''p''"
  "last config_path \<noteq> CHR ''p''"
  by (simp_all add: data_path_def building_path_def sidecar_path_def metadata_path_def config_path_def)

lemma last_tmp: "last (tmp_path p) = CHR ''p''"
  by (simp add: tmp_path_def)

lemma tmp_path_disjoint [simp]:
  "tmp_path p \<noteq> data_path i v" "data_path i v \<noteq> tmp_path p"
  "tmp_path p \<noteq> building_path i v" "building_path i v \<noteq> tmp_path p"
  "tmp_path p \<noteq> sidecar_path i v" "sidecar_path i v \<noteq> tmp_path p"
  "tmp_path p \<noteq> metadata_path i v" "metadata_path i v \<noteq> tmp_path p"
  "tmp_path p \<noteq> config_path" "config_path \<noteq> tmp_path p"
  using last_not_p last_tmp by metis+

lemma config_path_disjoint [simp]:
  "config_path \<noteq> data_path i v" "data_path i v \<noteq> config_path"
  "config_path \<noteq> building_path i v" "building_path i v \<noteq> config_path"
  "config_path \<noteq> sidecar_path i v" "sidecar_path i v \<noteq> config_path"
  "config_path \<noteq> metadata_path i v" "metadata_path i v \<noteq> config_path"
  using name_prefix_starts_c[of i] metadata_path_starts_m[of i v]
  by (auto simp: data_path_eq building_path_eq sidecar_path_eq config_path_def)

lemma lock_file_disjoint [simp]:
  "lock_file_name \<noteq> data_path i v" "data_path i v \<noteq> lock_file_name"
  "lock_file_name \<noteq> building_path i v" "building_path i v \<noteq> lock_file_name"
  "lock_file_name \<noteq> sidecar_path i v" "sidecar_path i v \<noteq> lock_file_name"
  "lock_file_name \<noteq> metadata_path i v" "metadata_path i v \<noteq> lock_file_name"
  "lock_file_name \<noteq> config_path" "config_path \<noteq> lock_file_name"
  using name_prefix_starts_c[of i] metadata_path_starts_m[of i v]
  by (auto simp: data_path_eq building_path_eq sidecar_path_eq config_path_def lock_file_name_def)

lemma lock_file_tmp [simp]: "lock_file_name \<noteq> tmp_path p" "tmp_path p \<noteq> lock_file_name"
proof -
  have "last lock_file_name \<noteq> CHR ''p''" by (simp add: lock_file_name_def)
  then show "lock_file_name \<noteq> tmp_path p" "tmp_path p \<noteq> lock_file_name" using last_tmp by metis+
qed

end
