(* ===== verification/Types.thy ===== *)
theory Types
  imports Record_Bytes Names
begin

text \<open>
  Models \<open>include/utxoz/types.hpp\<close>, \<open>src/utils.cpp\<close> and the stored value types of
  \<open>src/detail/utxo_value.hpp\<close>: error codes, storage modes, outpoints and their hash, the
  size classes of full mode, and the value a class stores inline.
\<close>

unbundle bit_operations_syntax

section \<open>Modes and errors\<close>

datatype storage_mode = Full_mode | Reference_mode

datatype error_code =
    Not_found | Not_resolved | Closed | Storage_mode_mismatch | Config_file_corrupt
  | Value_too_large | Duplicate_key | Catalog_unreadable | Version_unreadable | Removal_failed
  | Sync_unsupported | Sync_failed | Rename_failed | Database_in_use | Database_lock_unavailable
  | Entropy_unavailable | File_open_failed | Identity_collision | Insufficient_space
  | Recovery_required | Recovery_failed | Metadata_write_failed | Format_unsupported
  | Migration_required | Geometry_mismatch | Layout_mismatch | Hash_mismatch | Abi_mismatch
  | Database_identity_mismatch | Segment_stamp_missing | Segment_stamp_corrupt
  | Segment_misplaced | Inspection_only | Database_not_found | Entry_corrupt

text \<open>\<open>result<T>\<close>, an \<open>std::expected<T, error_code>\<close>.\<close>

type_synonym 'a result = "error_code + 'a"

section \<open>Outpoints\<close>

type_synonym raw_outpoint = bytes

definition outpoint_size :: nat where
  "outpoint_size = 36"

definition wf_outpoint :: "raw_outpoint \<Rightarrow> bool" where
  "wf_outpoint k \<longleftrightarrow> length k = outpoint_size"

definition hash_outpoint :: "raw_outpoint \<Rightarrow> u64" where
  "hash_outpoint k =
     (let seed = fst (get64 k);
          idx = fst (get32 (drop 32 k))
      in seed XOR (ucast idx * 0x9e3779b97f4a7c15))"

definition make_outpoint :: "bytes \<Rightarrow> u32 \<Rightarrow> raw_outpoint" where
  "make_outpoint txid output_index = txid @ put32 output_index"

definition get_txid :: "raw_outpoint \<Rightarrow> bytes" where
  "get_txid k = take 32 k"

definition get_output_index :: "raw_outpoint \<Rightarrow> u32" where
  "get_output_index k = fst (get32 (drop 32 k))"

text \<open>\<open>{:02x}\<close> of one byte, then the display form: txid bytes reversed, colon, index.\<close>

definition hex_digit :: "nat \<Rightarrow> char" where
  "hex_digit n = (if n < 10 then char_of (48 + n) else char_of (87 + n))"

definition hex2 :: "u8 \<Rightarrow> string" where
  "hex2 b = [hex_digit (unat b div 16), hex_digit (unat b mod 16)]"

definition outpoint_to_string :: "raw_outpoint \<Rightarrow> string" where
  "outpoint_to_string k =
     concat (map (\<lambda>i. hex2 (k ! (31 - i))) [0..<32]) @ '':'' @ dec (unat (get_output_index k))"

section \<open>Size classes\<close>

definition container_sizes :: "nat list" where
  "container_sizes = [48, 96, 128, 256, 10240]"

definition container_count :: nat where
  "container_count = length container_sizes"

definition data_capacity :: "nat \<Rightarrow> nat" where
  "data_capacity container_size =
     (let size_field = if container_size \<le> 255 then 1 else 2
      in container_size - 4 - size_field)"

definition container_capacities :: "nat list" where
  "container_capacities = map data_capacity container_sizes"

text \<open>The first class whose capacity holds the value; \<open>container_count\<close> when none does.\<close>

fun first_index_from :: "nat \<Rightarrow> nat list \<Rightarrow> nat \<Rightarrow> nat" where
  "first_index_from i [] sz = i"
| "first_index_from i (c # cs) sz = (if sz \<le> c then i else first_index_from (Suc i) cs sz)"

definition get_index_from_size :: "nat \<Rightarrow> nat" where
  "get_index_from_size sz = first_index_from 0 container_capacities sz"

section \<open>Requests\<close>

text \<open>\<open>lookup_request\<close> and \<open>deferred_deletion_entry\<close>: equal when their keys are equal.\<close>

record lookup_request =
  lr_key :: raw_outpoint
  lr_height :: u32

record deferred_deletion_entry =
  dd_key :: raw_outpoint
  dd_height :: u32

definition deferred_deletion_entry_eq ::
  "deferred_deletion_entry \<Rightarrow> deferred_deletion_entry \<Rightarrow> bool" where
  "deferred_deletion_entry_eq a b \<longleftrightarrow> dd_key a = dd_key b"

definition lookup_request_eq :: "lookup_request \<Rightarrow> lookup_request \<Rightarrow> bool" where
  "lookup_request_eq a b \<longleftrightarrow> lr_key a = lr_key b"

section \<open>Stored values\<close>

text \<open>
  \<open>utxo_value<Size>\<close>: \<open>actual_size\<close> is one byte wide for \<open>Size \<le> 255\<close> and two otherwise;
  \<open>uv_data\<close> has the class's fixed length, so the bytes past the payload are stored too.
\<close>

record utxo_value =
  uv_block_height :: u32
  uv_actual_size :: nat
  uv_data :: bytes

definition size_type_bits :: "nat \<Rightarrow> nat" where
  "size_type_bits container_size = (if container_size \<le> 255 then 8 else 16)"

definition set_data :: "nat \<Rightarrow> bytes \<Rightarrow> utxo_value \<Rightarrow> utxo_value" where
  "set_data container_size output_data v =
     (let capacity = data_capacity container_size;
          actual = min (length output_data) capacity mod 2 ^ size_type_bits container_size
      in v\<lparr>uv_actual_size := actual,
           uv_data := take actual output_data @ replicate (capacity - actual) 0\<rparr>)"

definition get_data :: "utxo_value \<Rightarrow> bytes" where
  "get_data v = take (uv_actual_size v) (uv_data v)"

record reference_value =
  rv_height :: u32
  rv_file_number :: u32
  rv_offset :: u32

record full_find_result =
  ff_data :: bytes
  ff_block_height :: u32

record reference_find_result =
  rf_block_height :: u32
  rf_file_number :: u32
  rf_offset :: u32

section \<open>Bucket counts for a caller's own table (utils.cpp)\<close>

text \<open>
  \<open>calculate_optimal_buckets\<close> divides by a float load factor first; that quotient, rounded
  up (\<open>required_buckets\<close>), is the parameter \<open>required\<close> here. The integer part is the code's.
\<close>

fun bit_ceil_from :: "nat \<Rightarrow> nat \<Rightarrow> nat \<Rightarrow> nat" where
  "bit_ceil_from 0 p k = p"
| "bit_ceil_from (Suc fuel) p k = (if k \<le> p then p else bit_ceil_from fuel (2 * p) k)"

definition bit_ceil :: "nat \<Rightarrow> nat" where
  "bit_ceil k = bit_ceil_from 64 1 k"

definition calculate_optimal_buckets :: "(nat \<Rightarrow> nat) \<Rightarrow> nat \<Rightarrow> nat" where
  "calculate_optimal_buckets required element_count =
    (if element_count = 0 then 0
     else if element_count < 15 then 29
     else
       let required_buckets = required element_count;
           k = (required_buckets + 1) div 15;
           ceil_pow2 = bit_ceil k
       in ceil_pow2 * 15 - 1)"

section \<open>Outpoint facts\<close>

lemma wf_make_outpoint: "length txid = 32 \<Longrightarrow> wf_outpoint (make_outpoint txid i)"
  by (simp add: wf_outpoint_def make_outpoint_def outpoint_size_def)

text \<open>
   an outpoint built from a 32-byte txid and an index gives both back, and every
  well-formed outpoint is built that way, so the two views determine each other.
\<close>

theorem outpoint_roundtrip:
  "(length txid = 32 \<longrightarrow> get_txid (make_outpoint txid i) = txid
      \<and> get_output_index (make_outpoint txid i) = i)
   \<and> (wf_outpoint k \<longrightarrow> make_outpoint (get_txid k) (get_output_index k) = k)"
proof (intro conjI impI)
  assume "length txid = 32"
  then show "get_txid (make_outpoint txid i) = txid"
    and "get_output_index (make_outpoint txid i) = i"
    by (simp_all add: get_txid_def get_output_index_def make_outpoint_def codec_simps)
next
  assume "wf_outpoint k"
  then have len: "length (drop 32 k) = 4" by (simp add: wf_outpoint_def outpoint_size_def)
  obtain idx r where got: "get32 (drop 32 k) = (idx, r)" by fastforce
  with len have "drop 32 k = put32 idx @ r" by (intro put_get(3)) auto
  moreover have "r = []" using get_lengths(3)[OF got] len by simp
  ultimately have "drop 32 k = put32 idx" by simp
  with got show "make_outpoint (get_txid k) (get_output_index k) = k"
    by (metis append_take_drop_id fst_conv get_output_index_def get_txid_def make_outpoint_def)
qed

theorem outpoint_roundtrip_witness:
  "get_output_index (make_outpoint (replicate 32 7) 5) = 5
   \<and> make_outpoint (get_txid (replicate 36 1)) (get_output_index (replicate 36 1)) = replicate 36 1"
  using outpoint_roundtrip[of "replicate 32 7" 5 "replicate 36 1"]
  by (simp add: wf_outpoint_def outpoint_size_def)

section \<open>Size-class facts\<close>

lemma container_capacities_eq [simp]: "container_capacities = [43, 91, 123, 250, 10234]"
  by (simp add: container_capacities_def container_sizes_def data_capacity_def)

lemma container_count_eq [simp]: "container_count = 5"
  by (simp add: container_count_def container_sizes_def)

lemma first_index_from_spec:
  "first_index_from i cs sz = i + length (takeWhile (\<lambda>c. c < sz) cs)"
  by (induction cs arbitrary: i) auto

lemma get_index_from_size_cases:
  "get_index_from_size sz =
    (if sz \<le> 43 then 0 else if sz \<le> 91 then 1 else if sz \<le> 123 then 2
     else if sz \<le> 250 then 3 else if sz \<le> 10234 then 4 else 5)"
  by (simp add: get_index_from_size_def)

text \<open>
  the class chosen for a value is the smallest whose capacity holds it, and the
  sentinel \<open>container_count\<close> is returned exactly when the largest class cannot.
\<close>

theorem get_index_from_size_least:
  "(get_index_from_size sz < container_count
      \<longleftrightarrow> sz \<le> container_capacities ! (container_count - 1))
   \<and> (get_index_from_size sz < container_count \<longrightarrow>
        sz \<le> container_capacities ! get_index_from_size sz
        \<and> (\<forall>j < get_index_from_size sz. container_capacities ! j < sz))"
proof -
  let ?i = "get_index_from_size sz"
  have i: "?i = length (takeWhile (\<lambda>c. c < sz) container_capacities)"
    by (simp only: get_index_from_size_def first_index_from_spec add_0)
  have below: "container_capacities ! j < sz" if "j < ?i" for j
    using that unfolding i by (metis (no_types, lifting) nth_mem set_takeWhileD takeWhile_nth)
  have fits: "sz \<le> container_capacities ! ?i" if "?i < container_count"
  proof -
    have "?i < length container_capacities" using that by simp
    with i have "\<not> container_capacities ! ?i < sz" by (metis nth_length_takeWhile)
    then show ?thesis by simp
  qed
  have "?i < container_count \<longleftrightarrow> sz \<le> container_capacities ! (container_count - 1)"
    by (auto simp: get_index_from_size_cases)
  with below fits show ?thesis by blast
qed

theorem get_index_from_size_least_witness:
  "get_index_from_size 92 = 2 \<and> 92 \<le> container_capacities ! 2 \<and> container_capacities ! 1 < 92"
  using get_index_from_size_least[of 92] by (auto simp: get_index_from_size_cases)

section \<open>Value facts\<close>

lemma get_data_set_data:
  assumes "sz \<in> set container_sizes"
  shows "get_data (set_data sz payload v) = take (data_capacity sz) payload"
proof -
  have "data_capacity sz < 2 ^ size_type_bits sz"
    using assms by (auto simp: container_sizes_def data_capacity_def size_type_bits_def)
  then show ?thesis
    by (auto simp: set_data_def get_data_def Let_def min_def)
qed

text \<open>
   a payload that fits its class is read back byte for byte, the object always fills the
  class exactly, and every byte past the payload is zero rather than whatever was there before.
\<close>

theorem set_data_roundtrip:
  assumes "sz \<in> set container_sizes"
  shows "get_data (set_data sz payload v) = take (data_capacity sz) payload
    \<and> length (uv_data (set_data sz payload v)) = data_capacity sz
    \<and> drop (uv_actual_size (set_data sz payload v)) (uv_data (set_data sz payload v))
         = replicate (data_capacity sz - uv_actual_size (set_data sz payload v)) 0"
proof -
  have "data_capacity sz < 2 ^ size_type_bits sz"
    using assms by (auto simp: container_sizes_def data_capacity_def size_type_bits_def)
  then have "min (length payload) (data_capacity sz) mod 2 ^ size_type_bits sz
      = min (length payload) (data_capacity sz)" by simp
  then show ?thesis
    by (auto simp: set_data_def get_data_def Let_def min_def)
qed

theorem set_data_roundtrip_witness:
  "get_data (set_data 48 [1, 2, 3] \<lparr>uv_block_height = 9, uv_actual_size = 0, uv_data = []\<rparr>)
   = [1, 2, 3]"
  using set_data_roundtrip[of 48 "[1, 2, 3]"]
  by (simp add: container_sizes_def data_capacity_def)

lemma get_data_in_class:
  "length payload \<le> container_capacities ! get_index_from_size (length payload) \<Longrightarrow>
   get_index_from_size (length payload) < container_count \<Longrightarrow>
   get_data (set_data (container_sizes ! get_index_from_size (length payload)) payload v) = payload"
proof -
  assume fits: "length payload \<le> container_capacities ! get_index_from_size (length payload)"
    and idx: "get_index_from_size (length payload) < container_count"
  let ?i = "get_index_from_size (length payload)"
  have "?i < length container_sizes" using idx by (simp add: container_sizes_def)
  then have "container_capacities ! ?i = data_capacity (container_sizes ! ?i)"
    by (simp only: container_capacities_def nth_map)
  with fits \<open>?i < length container_sizes\<close> show ?thesis
    by (simp add: get_data_set_data)
qed

section \<open>Bucket-count facts\<close>

lemma bit_ceil_from_ge: "k \<le> 2 ^ fuel * p \<Longrightarrow> k \<le> bit_ceil_from fuel p k"
proof (induction fuel arbitrary: p)
  case 0
  then show ?case by simp
next
  case (Suc fuel)
  from Suc.prems have "k \<le> 2 ^ fuel * (2 * p)" by (simp add: algebra_simps)
  then have "k \<le> bit_ceil_from fuel (2 * p) k" by (rule Suc.IH)
  then show ?case by simp
qed

text \<open>
  the table size is at most fourteen buckets short of what the load factor asks for, and
  it can really be short: 32 required buckets give a table of 29.
\<close>

theorem calculate_optimal_buckets_bound:
  assumes "required n + 1 \<le> 15 * 2 ^ 64" "15 \<le> n"
  shows "required n \<le> calculate_optimal_buckets required n + 14"
proof -
  let ?k = "(required n + 1) div 15"
  have "?k \<le> 2 ^ 64 * 1" using assms(1) by simp
  then have "?k \<le> bit_ceil ?k" unfolding bit_ceil_def by (rule bit_ceil_from_ge)
  then have "15 * ?k - 1 \<le> bit_ceil ?k * 15 - 1" by simp
  moreover have "required n \<le> 15 * ?k - 1 + 14" by simp
  moreover have "calculate_optimal_buckets required n = bit_ceil ?k * 15 - 1"
    using assms(2) by (simp add: calculate_optimal_buckets_def Let_def)
  ultimately show ?thesis by simp
qed

lemma bit_ceil_2: "bit_ceil 2 = 2"
  by (simp add: bit_ceil_def numeral_eq_Suc)

lemma calculate_optimal_buckets_short:
  "required 26 = 32 \<Longrightarrow> calculate_optimal_buckets required 26 = 29"
  by (simp add: calculate_optimal_buckets_def bit_ceil_2)

theorem calculate_optimal_buckets_bound_witness:
  "(32 :: nat) \<le> calculate_optimal_buckets (\<lambda>_. 32) 26 + 14"
  using calculate_optimal_buckets_bound[of "\<lambda>_. 32" 26] by simp

end
