(* ===== verification/Capacity.thy ===== *)
theory Capacity
  imports Types
begin

text \<open>
  Models \<open>src/detail/capacity_policy.hpp\<close>, the pure part of
  \<open>src/detail/insert_transition.hpp\<close> and the rehash watch of \<open>src/utils.cpp\<close>: how large a
  new segment is, how many entries a map may hold before the store makes a new generation,
  and what a failed allocation is taken to have left behind. All quantities are
  \<open>uint64_t\<close> in the source and 64-bit words here.
\<close>

section \<open>The tables\<close>

record capacity_entry =
  ce_file_size :: u64
  ce_capacity :: u64
  ce_bucket_count :: u64
  ce_certified :: bool

definition mib :: "u64 \<Rightarrow> u64" where
  "mib n = n * 1024 * 1024"

definition gib :: "u64 \<Rightarrow> u64" where
  "gib n = n * 1024 * 1024 * 1024"

definition file_sizes :: "u64 list" where
  "file_sizes = [mib 1340, mib 500, gib 1, mib 50, mib 10]"

definition test_file_sizes :: "u64 list" where
  "test_file_sizes = [mib 10, mib 10, mib 10, mib 10, mib 10]"

definition reference_file_size :: u64 where
  "reference_file_size = gib 4"

definition reference_test_file_size :: u64 where
  "reference_test_file_size = mib 10"

definition bucket_step :: "nat \<Rightarrow> u64" where
  "bucket_step k = push_bit k 15 - 1"

definition next_bucket_step :: "u64 \<Rightarrow> u64" where
  "next_bucket_step n = n * 2 + 1"

definition production_capacity :: "capacity_entry list" where
  "production_capacity =
    [\<lparr>ce_file_size = file_sizes ! 0, ce_capacity = 15728639, ce_bucket_count = 15728639,
       ce_certified = True\<rparr>,
     \<lparr>ce_file_size = file_sizes ! 1, ce_capacity = 3932159, ce_bucket_count = 3932159,
       ce_certified = False\<rparr>,
     \<lparr>ce_file_size = file_sizes ! 2, ce_capacity = 3932159, ce_bucket_count = 3932159,
       ce_certified = False\<rparr>,
     \<lparr>ce_file_size = file_sizes ! 3, ce_capacity = 122879, ce_bucket_count = 122879,
       ce_certified = False\<rparr>,
     \<lparr>ce_file_size = file_sizes ! 4, ce_capacity = 959, ce_bucket_count = 959,
       ce_certified = False\<rparr>]"

definition production_reference :: capacity_entry where
  "production_reference =
    \<lparr>ce_file_size = reference_file_size, ce_capacity = 7864319, ce_bucket_count = 7864319,
      ce_certified = False\<rparr>"

definition testing_capacity :: "capacity_entry list" where
  "testing_capacity =
    [\<lparr>ce_file_size = test_file_sizes ! 0, ce_capacity = 122879, ce_bucket_count = 122879,
       ce_certified = True\<rparr>,
     \<lparr>ce_file_size = test_file_sizes ! 1, ce_capacity = 61439, ce_bucket_count = 61439,
       ce_certified = True\<rparr>,
     \<lparr>ce_file_size = test_file_sizes ! 2, ce_capacity = 61439, ce_bucket_count = 61439,
       ce_certified = True\<rparr>,
     \<lparr>ce_file_size = test_file_sizes ! 3, ce_capacity = 30719, ce_bucket_count = 30719,
       ce_certified = True\<rparr>,
     \<lparr>ce_file_size = test_file_sizes ! 4, ce_capacity = 959, ce_bucket_count = 959,
       ce_certified = True\<rparr>]"

definition testing_reference :: capacity_entry where
  "testing_reference =
    \<lparr>ce_file_size = reference_test_file_size, ce_capacity = 122879, ce_bucket_count = 122879,
      ce_certified = True\<rparr>"

section \<open>Thresholds\<close>

definition rotation_numerator :: u64 where
  "rotation_numerator = 133"

definition rotation_denominator :: u64 where
  "rotation_denominator = 160"

definition max_size_without_rehash :: "u64 \<Rightarrow> u64" where
  "max_size_without_rehash bucket_count =
     bucket_count div 8 * 7 + (bucket_count mod 8) * 7 div 8"

definition max_entries_for :: "u64 \<Rightarrow> u64" where
  "max_entries_for bucket_count = bucket_count * rotation_numerator div rotation_denominator"

definition effective_insert_limit :: "u64 \<Rightarrow> u64 \<Rightarrow> u64" where
  "effective_insert_limit bucket_count live_max_load =
     (let operating = max_entries_for bucket_count
      in if live_max_load < operating then live_max_load else operating)"

section \<open>What a failed allocation left behind\<close>

record map_snapshot =
  ms_size :: u64
  ms_bucket_count :: u64
  ms_live_max_load :: u64

datatype post_exception_state = Map_intact | Map_mutated

definition classify_post_exception ::
  "map_snapshot \<Rightarrow> map_snapshot \<Rightarrow> bool \<Rightarrow> post_exception_state" where
  "classify_post_exception before after key_present_after =
    (if before \<noteq> after then Map_mutated
     else if key_present_after then Map_mutated
     else Map_intact)"

datatype rotation_cause = Preventive | Capacity_exception

record rotation_causes =
  rc_preventive :: u64
  rc_capacity_exception :: u64
  rc_failed :: u64
  rc_unexpected_post_exception :: u64

definition no_rotations :: rotation_causes where
  "no_rotations = \<lparr>rc_preventive = 0, rc_capacity_exception = 0, rc_failed = 0,
     rc_unexpected_post_exception = 0\<rparr>"

section \<open>The rehash watch\<close>

record rehash_watch =
  rw_at_open :: u64
  rw_last_reported :: u64

definition rehash_watch_reset :: "u64 \<Rightarrow> rehash_watch" where
  "rehash_watch_reset buckets = \<lparr>rw_at_open = buckets, rw_last_reported = buckets\<rparr>"

text \<open>
  \<open>detect_rehash\<close> returns whether a growth was seen, and the watch with what it reported.
  The process-wide counter it bumps (\<open>rehashes_observed\<close>) is the third component.
\<close>

definition detect_rehash :: "rehash_watch \<Rightarrow> u64 \<Rightarrow> u64 \<Rightarrow> bool \<times> rehash_watch \<times> u64" where
  "detect_rehash watch now observed =
    (if rw_at_open watch = 0 \<or> now = rw_last_reported watch then (False, watch, observed)
     else (True, watch\<lparr>rw_last_reported := now\<rparr>, observed + 1))"

section \<open>Facts about the thresholds\<close>

lemma unat_max_size_without_rehash:
  "unat (max_size_without_rehash n) = 7 * unat n div 8"
proof -
  let ?n = "unat n"
  have n: "?n < 2 ^ 64" by (rule unat_u64_less)
  have m: "unat ((n mod 8) * 7) = (?n mod 8) * 7"
    by (simp add: unat_word_ariths)
  have q: "unat (n div 8 * 7) = ?n div 8 * 7"
    using n by (simp add: unat_word_ariths)
  have "8 * (?n div 8) + ?n mod 8 = ?n" by simp
  then have "7 * ?n = 8 * (?n div 8 * 7) + (?n mod 8) * 7" by linarith
  then have sum: "7 * ?n div 8 = ?n div 8 * 7 + (?n mod 8) * 7 div 8" by simp
  have "7 * ?n div 8 < 2 ^ 64" using n by simp
  then show ?thesis
    unfolding max_size_without_rehash_def
    by (simp add: unat_word_ariths(1) q m sum unat_div_distrib)
qed

lemma unat_max_entries_for:
  assumes "unat n < 2 ^ 64 div 133"
  shows "unat (max_entries_for n) = 133 * unat n div 160"
proof -
  have "unat (n * 133) = unat n * 133"
    using assms by (simp add: unat_word_ariths)
  then show ?thesis
    unfolding max_entries_for_def rotation_numerator_def rotation_denominator_def
    by (simp add: unat_div_distrib mult.commute)
qed

text \<open>
  The growth point is exactly \<open>floor(7n/8)\<close> for every bucket count, with no wrap-around,
  because the division comes before the multiplication.
\<close>

theorem max_size_without_rehash_exact:
  "unat (max_size_without_rehash n) = (7 * unat n) div 8"
  by (simp add: unat_max_size_without_rehash)

text \<open>
  The insert limit never exceeds the live growth point of the map, and for any bucket
  count that can exist (below 2^64/133) the operating threshold itself is at most the growth
  point, strictly below it from 23 buckets on: the store rotates before Boost grows.
\<close>

theorem insert_limit_below_growth:
  assumes "unat n < 2 ^ 64 div 133"
  shows "effective_insert_limit n live \<le> live
    \<and> effective_insert_limit n live \<le> max_entries_for n
    \<and> max_entries_for n \<le> max_size_without_rehash n
    \<and> (23 \<le> unat n \<longrightarrow> max_entries_for n < max_size_without_rehash n)"
proof -
  have scale: "7 * unat n div 8 = 140 * unat n div 160"
    using div_mult_mult1[of 20 "7 * unat n" 8] by simp
  note e = unat_max_entries_for[OF assms] and g = unat_max_size_without_rehash[of n]
  have "133 * unat n div 160 \<le> 140 * unat n div 160"
    by (rule div_le_mono) simp
  then have le: "max_entries_for n \<le> max_size_without_rehash n"
    unfolding word_le_nat_alt e g scale .
  have less: "max_entries_for n < max_size_without_rehash n" if "23 \<le> unat n"
  proof -
    have "(133 * unat n + 160) div 160 \<le> 140 * unat n div 160"
      using that by (intro div_le_mono) simp
    then have "133 * unat n div 160 < 140 * unat n div 160"
      by (simp only: div_add_self2)
    then show ?thesis
      unfolding word_less_nat_alt e g scale .
  qed
  from le less show ?thesis
    by (auto simp: effective_insert_limit_def Let_def)
qed

theorem insert_limit_below_growth_witness:
  "max_entries_for 959 < max_size_without_rehash 959
   \<and> effective_insert_limit 15728639 12000000 \<le> 12000000"
  using insert_limit_below_growth[of 959 839] insert_limit_below_growth[of 15728639 12000000]
  by simp

text \<open>Outside that range the product wraps, and the threshold is no longer 133/160 of anything.\<close>

lemma max_entries_for_wraps: "max_entries_for 138697323862477832 < max_entries_for 1000"
  by (simp add: max_entries_for_def rotation_numerator_def rotation_denominator_def)

definition all_capacities :: "capacity_entry list" where
  "all_capacities = production_reference # testing_reference # production_capacity @ testing_capacity"

text \<open>
   every production and testing class asks for one of Boost's own bucket counts
  (\<open>15 * 2^k - 1\<close>), so the map has exactly the capacity the table says, and rotates strictly
  before the growth point of that bucket count.
\<close>

theorem capacity_tables_sound:
  "\<forall>e \<in> set all_capacities.
     (\<exists>k \<in> {6, 11, 12, 13, 18, 19, 20}. ce_capacity e = bucket_step k)
     \<and> ce_bucket_count e = ce_capacity e
     \<and> max_entries_for (ce_bucket_count e) < max_size_without_rehash (ce_bucket_count e)
     \<and> ce_file_size e \<ge> mib 10"
  by (simp add: all_capacities_def production_capacity_def testing_capacity_def
      production_reference_def testing_reference_def bucket_step_def max_entries_for_def
      rotation_numerator_def rotation_denominator_def max_size_without_rehash_def
      file_sizes_def test_file_sizes_def reference_file_size_def reference_test_file_size_def
      mib_def gib_def)

theorem capacity_tables_sound_witness:
  "production_reference \<in> set all_capacities
   \<and> max_entries_for 7864319 < max_size_without_rehash 7864319"
proof -
  have mem: "production_reference \<in> set all_capacities" by (simp add: all_capacities_def)
  with capacity_tables_sound show ?thesis
    by (metis capacity_entry.select_convs(3) production_reference_def)
qed

section \<open>Facts about the classification and the watch\<close>

lemma classify_intact_iff:
  "classify_post_exception before after present = Map_intact \<longleftrightarrow> before = after \<and> \<not> present"
  by (simp add: classify_post_exception_def)

lemma detect_rehash_quiet:
  "detect_rehash (rehash_watch_reset n) n observed = (False, rehash_watch_reset n, observed)"
  by (simp add: detect_rehash_def rehash_watch_reset_def)

lemma detect_rehash_once:
  assumes "detect_rehash watch now observed = (grown, watch', observed')"
  shows "detect_rehash watch' now observed' = (False, watch', observed')"
  using assms by (auto simp: detect_rehash_def split: if_splits)

end
