(* ===== verification/Arithmetic.thy ===== *)
theory Arithmetic
  imports Types
begin

text \<open>
  Models \<open>src/detail/census_arithmetic.hpp\<close>, \<open>src/detail/budget_meter.hpp\<close> and the pure
  functions of \<open>src/detail/distinct_keys.hpp\<close> / \<open>src/uniqueness.cpp\<close>: 64-bit sums and
  products that refuse instead of wrapping, the memory meter of a walk, the hash that
  assigns a key to a partition, and the test whether a partition fits the budget.
\<close>

unbundle bit_operations_syntax

section \<open>Checked arithmetic\<close>

text \<open>
  \<open>checked_mul\<close> writes its out parameter only when it succeeds; \<open>checked_add\<close> updates the
  accumulator only when it succeeds. Both return whether they did: \<open>None\<close> is false.
\<close>

definition checked_mul :: "u64 \<Rightarrow> u64 \<Rightarrow> u64 option" where
  "checked_mul a b = (if a \<noteq> 0 \<and> b > u64_max div a then None else Some (a * b))"

definition checked_add :: "u64 \<Rightarrow> u64 \<Rightarrow> u64 option" where
  "checked_add accumulator value =
     (if value > u64_max - accumulator then None else Some (accumulator + value))"

text \<open>\<open>summing\<close>: adds into an accumulator and remembers whether any addition failed.\<close>

definition summing :: "bool \<times> u64 \<Rightarrow> u64 \<Rightarrow> bool \<times> u64" where
  "summing st value =
     (case checked_add (snd st) value of
        None \<Rightarrow> (False, snd st)
      | Some tot \<Rightarrow> (fst st, tot))"

definition group_metadata_model :: "u64 \<Rightarrow> u64 option" where
  "group_metadata_model bucket_count =
     (case checked_add (bucket_count div 15) 1 of
        None \<Rightarrow> None
      | Some groups \<Rightarrow> checked_mul groups 16)"

definition validate_generation_counts :: "u64 \<Rightarrow> u64 \<Rightarrow> unit result" where
  "validate_generation_counts entries bucket_count =
     (if entries > bucket_count then Inl Entry_corrupt else Inr ())"

definition validate_payload_length :: "u64 \<Rightarrow> u64 \<Rightarrow> unit result" where
  "validate_payload_length recorded capacity =
     (if recorded > capacity then Inl Entry_corrupt else Inr ())"

section \<open>The budget meter\<close>

record budget_meter =
  bm_ceiling :: u64
  bm_outstanding :: u64
  bm_peak :: u64
  bm_refusals :: u64
  bm_unbalanced :: bool

definition new_budget_meter :: "u64 \<Rightarrow> budget_meter" where
  "new_budget_meter ceiling =
     \<lparr>bm_ceiling = ceiling, bm_outstanding = 0, bm_peak = 0, bm_refusals = 0,
      bm_unbalanced = False\<rparr>"

definition acquire :: "u64 \<Rightarrow> budget_meter \<Rightarrow> bool \<times> budget_meter" where
  "acquire n m =
    (if bm_unbalanced m then (False, m\<lparr>bm_refusals := bm_refusals m + 1\<rparr>)
     else if n > bm_ceiling m - bm_outstanding m then (False, m\<lparr>bm_refusals := bm_refusals m + 1\<rparr>)
     else
       let m' = m\<lparr>bm_outstanding := bm_outstanding m + n\<rparr>
       in (True, if bm_outstanding m' > bm_peak m'
                 then m'\<lparr>bm_peak := bm_outstanding m'\<rparr> else m'))"

definition release :: "u64 \<Rightarrow> budget_meter \<Rightarrow> budget_meter" where
  "release n m =
    (if n > bm_outstanding m then m\<lparr>bm_unbalanced := True, bm_outstanding := 0\<rparr>
     else m\<lparr>bm_outstanding := bm_outstanding m - n\<rparr>)"

text \<open>
  \<open>counted_allocator::allocate\<close> on a meter: \<open>Some\<close> the bytes held, or \<open>None\<close> where it throws
  \<open>budget_exceeded\<close> (\<open>heap_ok\<close> is whether \<open>::operator new\<close> returned; where it throws, what
  was acquired is released again).
\<close>

definition allocate :: "bool \<Rightarrow> u64 \<Rightarrow> u64 \<Rightarrow> budget_meter \<Rightarrow> u64 option \<times> budget_meter" where
  "allocate heap_ok n element_size m =
    (case checked_mul n element_size of
       None \<Rightarrow> (None, m)
     | Some tot \<Rightarrow>
         (case acquire tot m of
            (False, m') \<Rightarrow> (None, m')
          | (True, m') \<Rightarrow> if heap_ok then (Some tot, m') else (None, release tot m')))"

definition deallocate :: "u64 \<Rightarrow> u64 \<Rightarrow> budget_meter \<Rightarrow> budget_meter" where
  "deallocate n element_size m = release (n * element_size) m"

section \<open>Partitions\<close>

definition headroom_of :: "u64 \<Rightarrow> u64" where
  "headroom_of budget = budget div 10"

definition sort_allowance :: u64 where
  "sort_allowance = 1048576"

definition planning_prefix_bits :: nat where
  "planning_prefix_bits = 12"

definition planning_prefixes :: nat where
  "planning_prefixes = push_bit planning_prefix_bits 1"

definition partition_hash :: "raw_outpoint \<Rightarrow> u64" where
  "partition_hash key =
    (let h = fold (\<lambda>byte h. (h XOR ucast byte) * 1099511628211) key 1469598103934665603;
         h = (h XOR drop_bit 30 h) * 0xbf58476d1ce4e5b9;
         h = (h XOR drop_bit 27 h) * 0x94d049bb133111eb
     in h XOR drop_bit 31 h)"

definition prefix_of :: "u64 \<Rightarrow> nat \<Rightarrow> u64" where
  "prefix_of hash bits = (if bits = 0 then 0 else drop_bit (64 - bits) hash)"

definition count_fits_addressable :: "u64 \<Rightarrow> u64 \<Rightarrow> bool" where
  "count_fits_addressable count addressable \<longleftrightarrow> count \<le> addressable"

definition sample_fits_addressable :: "u64 \<Rightarrow> u64 \<Rightarrow> u64 \<Rightarrow> bool" where
  "sample_fits_addressable findings locations addressable \<longleftrightarrow>
     count_fits_addressable findings addressable \<and> count_fits_addressable locations addressable"

definition count_fits_platform :: "u64 \<Rightarrow> bool" where
  "count_fits_platform count = count_fits_addressable count u64_max"

definition sample_fits_platform :: "u64 \<Rightarrow> u64 \<Rightarrow> bool" where
  "sample_fits_platform findings locations = sample_fits_addressable findings locations u64_max"

text \<open>\<open>fits_in_budget\<close> returns the verdict and, through \<open>peak\<close>, what it would take.\<close>

definition fits_in_budget :: "u64 \<Rightarrow> u64 \<Rightarrow> u64 \<Rightarrow> u64 \<Rightarrow> u64 \<Rightarrow> bool \<times> u64" where
  "fits_in_budget capacity record_bytes fixed_overhead headroom budget =
    (case checked_mul capacity record_bytes of
       None \<Rightarrow> (False, u64_max)
     | Some peak \<Rightarrow>
         (case checked_add peak fixed_overhead of
            None \<Rightarrow> (False, u64_max)
          | Some peak \<Rightarrow>
              (case checked_add peak headroom of
                 None \<Rightarrow> (False, u64_max)
               | Some peak \<Rightarrow> (peak \<le> budget, peak))))"

section \<open>Checked arithmetic is exact\<close>

lemma unat_max_minus: "unat (u64_max - (x :: u64)) = 2 ^ 64 - 1 - unat x"
proof -
  have "x \<le> u64_max" by simp
  then show ?thesis by (simp only: unat_sub unat_u64_max)
qed

lemma checked_add_Some_iff:
  "checked_add a b = Some c \<longleftrightarrow> unat a + unat b < 2 ^ 64 \<and> unat c = unat a + unat b"
proof -
  have iff: "b > u64_max - a \<longleftrightarrow> 2 ^ 64 \<le> unat a + unat b"
    unfolding word_less_nat_alt unat_max_minus
    using unat_u64_less[of a] unat_u64_less[of b] by simp arith
  show ?thesis
  proof (cases "unat a + unat b < 2 ^ 64")
    case True
    then have "unat (a + b) = unat a + unat b" by (simp add: unat_word_ariths)
    with True iff show ?thesis by (auto simp: checked_add_def word_unat_eq_iff)
  next
    case False
    with iff show ?thesis by (simp add: checked_add_def)
  qed
qed

lemma checked_mul_Some_iff:
  "checked_mul a b = Some c \<longleftrightarrow> unat a * unat b < 2 ^ 64 \<and> unat c = unat a * unat b"
proof -
  have iff: "a \<noteq> 0 \<and> b > u64_max div a \<longleftrightarrow> 2 ^ 64 \<le> unat a * unat b"
  proof (cases "a = 0")
    case True
    then show ?thesis by simp
  next
    case False
    then have pos: "0 < unat a" by (simp add: unat_gt_0)
    have "unat b \<le> (2 ^ 64 - 1) div unat a \<longleftrightarrow> unat b * unat a \<le> 2 ^ 64 - 1"
      using pos by (rule less_eq_div_iff_mult_less_eq)
    then have "(2 ^ 64 - 1) div unat a < unat b \<longleftrightarrow> 2 ^ 64 \<le> unat a * unat b"
      by (auto simp: mult.commute)
    with False show ?thesis
      unfolding word_less_nat_alt by (simp only: unat_div_distrib unat_u64_max)
        blast
  qed
  show ?thesis
  proof (cases "unat a * unat b < 2 ^ 64")
    case True
    then have "unat (a * b) = unat a * unat b" by (simp add: unat_word_ariths)
    with True iff show ?thesis by (auto simp: checked_mul_def word_unat_eq_iff)
  next
    case False
    with iff show ?thesis by (simp add: checked_mul_def)
  qed
qed

lemma checked_add_None_iff: "checked_add a b = None \<longleftrightarrow> 2 ^ 64 \<le> unat a + unat b"
proof (cases "unat a + unat b < 2 ^ 64")
  case True
  then have "checked_add a b = Some (a + b)"
    by (simp add: checked_add_Some_iff unat_word_ariths)
  with True show ?thesis by simp
next
  case False
  then show ?thesis
    using checked_add_Some_iff[of a b] by (cases "checked_add a b") auto
qed

lemma checked_mul_None_iff: "checked_mul a b = None \<longleftrightarrow> 2 ^ 64 \<le> unat a * unat b"
proof (cases "unat a * unat b < 2 ^ 64")
  case True
  then have "checked_mul a b = Some (a * b)"
    by (simp add: checked_mul_Some_iff unat_word_ariths)
  with True show ?thesis by simp
next
  case False
  then show ?thesis
    using checked_mul_Some_iff[of a b] by (cases "checked_mul a b") auto
qed

text \<open>
  C39: the budget test never wraps. It says yes exactly when the mathematical sum
  \<open>capacity * record_bytes + overhead + headroom\<close> is within the budget, and the peak it
  reports is that sum, or the largest 64-bit number when the sum is not one.
\<close>

theorem fits_in_budget_exact:
  "fits_in_budget capacity record_bytes overhead headroom budget = (verdict, peak) \<Longrightarrow>
   (verdict \<longleftrightarrow> unat capacity * unat record_bytes + unat overhead + unat headroom \<le> unat budget)
   \<and> unat peak = min (unat capacity * unat record_bytes + unat overhead + unat headroom)
                      (2 ^ 64 - 1)"
proof -
  assume res: "fits_in_budget capacity record_bytes overhead headroom budget = (verdict, peak)"
  have b: "unat budget < 2 ^ 64" by (rule unat_u64_less)
  consider (mul) "checked_mul capacity record_bytes = None"
    | (add1) p where "checked_mul capacity record_bytes = Some p" "checked_add p overhead = None"
    | (add2) p q where "checked_mul capacity record_bytes = Some p" "checked_add p overhead = Some q"
        "checked_add q headroom = None"
    | (ok) p q r where "checked_mul capacity record_bytes = Some p" "checked_add p overhead = Some q"
        "checked_add q headroom = Some r"
    by (metis option.exhaust)
  then show ?thesis
  proof cases
    case mul
    then have "2 ^ 64 \<le> unat capacity * unat record_bytes"
      by (simp only: checked_mul_None_iff)
    with mul res b show ?thesis by (auto simp: fits_in_budget_def unat_u64_max)
  next
    case add1
    from add1(2) have "2 ^ 64 \<le> unat p + unat overhead"
      by (simp only: checked_add_None_iff)
    moreover have "unat p = unat capacity * unat record_bytes"
      using add1(1) by (simp only: checked_mul_Some_iff)
    moreover have "\<not> verdict" "peak = u64_max"
      using add1 res by (simp_all add: fits_in_budget_def)
    ultimately show ?thesis using b by (simp add: unat_u64_max)
  next
    case add2
    from add2(3) have "2 ^ 64 \<le> unat q + unat headroom"
      by (simp only: checked_add_None_iff)
    moreover have "unat p = unat capacity * unat record_bytes" "unat q = unat p + unat overhead"
      using add2(1,2) by (simp_all only: checked_mul_Some_iff checked_add_Some_iff)
    moreover have "\<not> verdict" "peak = u64_max"
      using add2 res by (simp_all add: fits_in_budget_def)
    ultimately show ?thesis using b by (simp add: unat_u64_max)
  next
    case ok
    then have "unat p = unat capacity * unat record_bytes" "unat q = unat p + unat overhead"
      "unat r = unat q + unat headroom"
      by (simp_all only: checked_mul_Some_iff checked_add_Some_iff)
    moreover have "verdict = (r \<le> budget)" "peak = r"
      using ok res by (auto simp: fits_in_budget_def)
    ultimately show ?thesis
      using unat_u64_less[of r] by (auto simp: word_le_nat_alt)
  qed
qed

theorem fits_in_budget_exact_witness:
  "unat (snd (fits_in_budget (2 ^ 63) 56 0 0 100)) = 2 ^ 64 - 1"
  using fits_in_budget_exact[of "2 ^ 63" 56 0 0 100
      "fst (fits_in_budget (2 ^ 63) 56 0 0 100)" "snd (fits_in_budget (2 ^ 63) 56 0 0 100)"]
  by simp

section \<open>The meter\<close>

text \<open>What holds of a meter between calls, whatever the calls were.\<close>

definition meter_inv :: "budget_meter \<Rightarrow> bool" where
  "meter_inv m \<longleftrightarrow> bm_outstanding m \<le> bm_peak m \<and> bm_peak m \<le> bm_ceiling m"

datatype meter_op = Acquire u64 | Release u64

fun meter_step :: "budget_meter \<Rightarrow> meter_op \<Rightarrow> budget_meter" where
  "meter_step m (Acquire n) = snd (acquire n m)"
| "meter_step m (Release n) = release n m"

definition meter_run :: "budget_meter \<Rightarrow> meter_op list \<Rightarrow> budget_meter" where
  "meter_run = foldl meter_step"

lemma acquire_room:
  assumes "\<not> n > bm_ceiling m - bm_outstanding m" "bm_outstanding m \<le> bm_ceiling m"
  shows "bm_outstanding m \<le> bm_outstanding m + n" "bm_outstanding m + n \<le> bm_ceiling m"
    "n \<le> bm_outstanding m + n"
proof -
  have "unat n \<le> unat (bm_ceiling m) - unat (bm_outstanding m)"
    using assms by (simp add: not_less word_le_nat_alt unat_sub)
  moreover have "unat (bm_outstanding m) \<le> unat (bm_ceiling m)"
    using assms(2) by (simp add: word_le_nat_alt)
  moreover have "unat (bm_ceiling m) < 2 ^ 64" by (rule unat_u64_less)
  ultimately have "unat (bm_outstanding m + n) = unat (bm_outstanding m) + unat n"
    and "unat (bm_outstanding m) + unat n \<le> unat (bm_ceiling m)"
    by (simp_all add: unat_word_ariths)
  then show "bm_outstanding m \<le> bm_outstanding m + n" "bm_outstanding m + n \<le> bm_ceiling m"
    "n \<le> bm_outstanding m + n"
    by (simp_all add: word_le_nat_alt)
qed

lemma acquire_inv: "meter_inv m \<Longrightarrow> meter_inv (snd (acquire n m))"
  using acquire_room[of m n]
  by (auto simp: acquire_def meter_inv_def Let_def not_less)

lemma release_inv: "meter_inv m \<Longrightarrow> meter_inv (release n m)"
proof -
  assume inv: "meter_inv m"
  have "bm_outstanding m - n \<le> bm_outstanding m" if "n \<le> bm_outstanding m"
    using that by (simp add: word_le_nat_alt unat_sub)
  with inv show ?thesis
    by (auto simp: release_def meter_inv_def not_less intro: order_trans)
qed

lemma meter_step_inv: "meter_inv m \<Longrightarrow> meter_inv (meter_step m e)"
  by (cases e) (simp_all add: acquire_inv release_inv)

lemma meter_step_ceiling: "bm_ceiling (meter_step m e) = bm_ceiling m"
  by (cases e) (auto simp: acquire_def release_def Let_def)

lemma meter_run_inv: "meter_inv m \<Longrightarrow> meter_inv (meter_run m es) \<and> bm_ceiling (meter_run m es) = bm_ceiling m"
  unfolding meter_run_def
  by (induction es arbitrary: m) (auto simp: meter_step_inv meter_step_ceiling)

text \<open>
  Whatever sequence of acquisitions and releases a walk makes, balanced or not, the bytes
  held and the high-water mark never pass the ceiling the meter was made with.
\<close>

theorem meter_never_exceeds_ceiling:
  "bm_outstanding (meter_run (new_budget_meter c) ops) \<le> bm_peak (meter_run (new_budget_meter c) ops)
   \<and> bm_peak (meter_run (new_budget_meter c) ops) \<le> c"
proof -
  have "meter_inv (new_budget_meter c)" and "bm_ceiling (new_budget_meter c) = c"
    by (simp_all add: meter_inv_def new_budget_meter_def)
  then show ?thesis
    using meter_run_inv[of "new_budget_meter c" ops] unfolding meter_inv_def by metis
qed

text \<open>
  once a release has not matched an acquisition the meter refuses every later
  acquisition, so an unbalanced account is never mistaken for room; and while the account is
  balanced, releasing what was just acquired restores the bytes held.
\<close>

theorem meter_unbalanced_refuses:
  "(bm_unbalanced m \<longrightarrow> \<not> fst (acquire n m) \<and> bm_unbalanced (meter_run m ops))
   \<and> (meter_inv m \<longrightarrow> fst (acquire n m) \<longrightarrow>
        bm_outstanding (release n (snd (acquire n m))) = bm_outstanding m
        \<and> \<not> bm_unbalanced (release n (snd (acquire n m))))"
proof (intro conjI impI)
  assume "bm_unbalanced m"
  then show "\<not> fst (acquire n m)" by (simp add: acquire_def)
  have step: "bm_unbalanced m' \<Longrightarrow> bm_unbalanced (meter_step m' e)" for m' e
    by (cases e) (auto simp: acquire_def release_def Let_def)
  from \<open>bm_unbalanced m\<close> show "bm_unbalanced (meter_run m ops)"
    unfolding meter_run_def by (induction ops arbitrary: m) (auto simp: step)
next
  assume inv: "meter_inv m" and ok: "fst (acquire n m)"
  from ok have balanced: "\<not> bm_unbalanced m" and room: "\<not> n > bm_ceiling m - bm_outstanding m"
    by (auto simp: acquire_def split: if_splits)
  from inv have "bm_outstanding m \<le> bm_ceiling m" by (auto simp: meter_inv_def)
  note grown = acquire_room[OF room this]
  have "n \<le> bm_outstanding m + n"
    by (rule grown(3))
  with balanced room show "bm_outstanding (release n (snd (acquire n m))) = bm_outstanding m"
    and "\<not> bm_unbalanced (release n (snd (acquire n m)))"
    by (auto simp: acquire_def release_def Let_def not_less)
qed

theorem meter_unbalanced_refuses_witness:
  "\<not> fst (acquire 1 (release 5 (new_budget_meter 10)))
   \<and> bm_outstanding (release 4 (snd (acquire 4 (new_budget_meter 10)))) = 0"
  using meter_unbalanced_refuses[of "release 5 (new_budget_meter 10)" 1 "[]"]
    meter_unbalanced_refuses[of "new_budget_meter 10" 4 "[]"]
  by (simp add: release_def new_budget_meter_def acquire_def meter_inv_def)

section \<open>Partition prefixes\<close>

lemma planning_prefixes_eq [simp]: "planning_prefixes = 4096"
  by (simp add: planning_prefixes_def planning_prefix_bits_def)

text \<open>A prefix always indexes the planning counters.\<close>

lemma prefix_in_range: "unat (prefix_of h planning_prefix_bits) < planning_prefixes"
proof -
  have "unat (drop_bit 52 h) = unat h div 2 ^ 52"
    unfolding unat_drop_bit_eq by (rule drop_bit_eq_div)
  also have "\<dots> < 2 ^ 12" using unat_u64_less[of h] by (simp add: div_less_iff_less_mult)
  finally show ?thesis by (simp add: prefix_of_def planning_prefix_bits_def)
qed

end
