(* ===== verification/File_Metadata.thy ===== *)
theory File_Metadata
  imports Types
begin

text \<open>
  Models \<open>src/detail/file_metadata.hpp\<close> and the codec of \<open>src/detail/file_metadata_io.hpp\<close>:
  the summary kept beside each version file, its updates, and its 100-byte record. Keys are
  compared as \<open>std::array<uint8_t, 36>\<close> compares, lexicographically, which is the order of
  \<open>HOL-Library.List_Lexorder\<close>. Reading and writing the record on disk is in theory Disk.
\<close>

section \<open>The summary\<close>

record file_metadata =
  fm_min_block_height :: u32
  fm_max_block_height :: u32
  fm_min_key :: raw_outpoint
  fm_max_key :: raw_outpoint
  fm_entry_count :: u64
  fm_container_index :: u64
  fm_version :: u64

definition empty_file_metadata :: file_metadata where
  "empty_file_metadata =
    \<lparr>fm_min_block_height = u32_max, fm_max_block_height = 0,
     fm_min_key = replicate 36 255, fm_max_key = replicate 36 0,
     fm_entry_count = 0, fm_container_index = 0, fm_version = 0\<rparr>"

definition key_in_range :: "file_metadata \<Rightarrow> raw_outpoint \<Rightarrow> bool" where
  "key_in_range meta key \<longleftrightarrow>
     fm_entry_count meta > 0 \<and> key \<ge> fm_min_key meta \<and> key \<le> fm_max_key meta"

definition block_in_range :: "file_metadata \<Rightarrow> u32 \<Rightarrow> bool" where
  "block_in_range meta height \<longleftrightarrow>
     fm_entry_count meta > 0 \<and> height \<ge> fm_min_block_height meta
       \<and> height \<le> fm_max_block_height meta"

definition update_on_insert :: "raw_outpoint \<Rightarrow> u32 \<Rightarrow> file_metadata \<Rightarrow> file_metadata" where
  "update_on_insert key height meta =
    (let meta' =
       (if fm_entry_count meta = 0 then
          meta\<lparr>fm_min_key := key, fm_max_key := key,
               fm_min_block_height := height, fm_max_block_height := height\<rparr>
        else
          meta\<lparr>fm_min_key := (if key < fm_min_key meta then key else fm_min_key meta),
               fm_max_key := (if key > fm_max_key meta then key else fm_max_key meta),
               fm_min_block_height := min (fm_min_block_height meta) height,
               fm_max_block_height := max (fm_max_block_height meta) height\<rparr>)
     in meta'\<lparr>fm_entry_count := fm_entry_count meta + 1\<rparr>)"

definition update_on_delete :: "file_metadata \<Rightarrow> file_metadata" where
  "update_on_delete meta =
    (if fm_entry_count meta > 0 then meta\<lparr>fm_entry_count := fm_entry_count meta - 1\<rparr> else meta)"

section \<open>The record\<close>

datatype metadata_read_error = Absent | Unreadable | Foreign | Malformed

definition metadata_magic :: bytes where
  "metadata_magic = [0x55, 0x5A, 0x4D, 0x44]" \<comment> \<open>UZMD\<close>

definition metadata_format :: u16 where
  "metadata_format = 1"

definition metadata_encoded_size :: nat where
  "metadata_encoded_size = 100"

definition metadata_body :: "file_metadata \<Rightarrow> bytes" where
  "metadata_body meta =
     metadata_magic @ put16 metadata_format @ put16 0
     @ put32 (fm_min_block_height meta) @ put32 (fm_max_block_height meta)
     @ fm_min_key meta @ fm_max_key meta @ put64 (fm_entry_count meta)"

definition encode_metadata :: "file_metadata \<Rightarrow> bytes" where
  "encode_metadata meta = metadata_body meta @ put32 (checksum (metadata_body meta))"

definition decode_metadata :: "bytes \<Rightarrow> metadata_read_error + file_metadata" where
  "decode_metadata bs =
    (if length bs < length metadata_magic then Inl Malformed
     else if take 4 bs \<noteq> metadata_magic then Inl Foreign
     else if length bs \<noteq> metadata_encoded_size then Inl Malformed
     else
      (let cursor = drop 4 bs;
           (format, cursor) = get16 cursor;
           (reserved, cursor) = get16 cursor
       in if format \<noteq> metadata_format then Inl Foreign
          else if reserved \<noteq> 0 then Inl Malformed
          else
           (let (min_height, cursor) = get32 cursor;
                (max_height, cursor) = get32 cursor;
                (min_key, cursor) = get_array 36 cursor;
                (max_key, cursor) = get_array 36 cursor;
                (entry_count, cursor) = get64 cursor;
                (stored_checksum, cursor) = get32 cursor;
                covered = take (metadata_encoded_size - 4) bs
            in if checksum covered \<noteq> stored_checksum then Inl Malformed
               else if entry_count > 0 \<and> min_height > max_height then Inl Malformed
               else if entry_count > 0 \<and> min_key > max_key then Inl Malformed
               else Inr (empty_file_metadata\<lparr>fm_min_block_height := min_height,
                      fm_max_block_height := max_height, fm_min_key := min_key,
                      fm_max_key := max_key, fm_entry_count := entry_count\<rparr>))))"

section \<open>What the summary promises\<close>

text \<open>
  Well-formed: the keys are outpoints and, once something was inserted, the ranges are
  ordered. This is what \<open>decode_metadata\<close> insists on.
\<close>

definition wf_metadata :: "file_metadata \<Rightarrow> bool" where
  "wf_metadata meta \<longleftrightarrow> wf_outpoint (fm_min_key meta) \<and> wf_outpoint (fm_max_key meta)
     \<and> (fm_entry_count meta > 0 \<longrightarrow>
          fm_min_block_height meta \<le> fm_max_block_height meta \<and> fm_min_key meta \<le> fm_max_key meta)"

text \<open>The summary covers a set of entries: every one is inside both ranges.\<close>

definition covers :: "file_metadata \<Rightarrow> (raw_outpoint \<times> u32) set \<Rightarrow> bool" where
  "covers meta es \<longleftrightarrow> (es \<noteq> {} \<longrightarrow> fm_entry_count meta > 0)
     \<and> (\<forall>(k, h) \<in> es. fm_min_key meta \<le> k \<and> k \<le> fm_max_key meta
          \<and> fm_min_block_height meta \<le> h \<and> h \<le> fm_max_block_height meta)"

lemma wf_empty_file_metadata [wf_intros]: "wf_metadata empty_file_metadata"
  by (simp add: wf_metadata_def empty_file_metadata_def wf_outpoint_def outpoint_size_def)

lemma wf_update_on_insert [wf_intros]:
  "wf_metadata meta \<Longrightarrow> wf_outpoint key \<Longrightarrow> wf_metadata (update_on_insert key height meta)"
  by (auto simp: wf_metadata_def update_on_insert_def Let_def word_gt_0 min_def max_def not_less
      intro: order_trans)

lemma wf_update_on_delete [wf_intros]:
  "wf_metadata meta \<Longrightarrow> wf_metadata (update_on_delete meta)"
  by (auto simp: wf_metadata_def update_on_delete_def word_gt_0)

lemma covers_empty [simp]: "covers meta {}"
  by (simp add: covers_def)

lemma update_on_insert_count:
  "fm_entry_count (update_on_insert key height meta) = fm_entry_count meta + 1"
  by (simp add: update_on_insert_def Let_def)

lemma covers_update_on_insert:
  assumes "covers meta es" "fm_entry_count meta \<noteq> u64_max"
    and "fm_entry_count meta = 0 \<Longrightarrow> es = {}"
  shows "covers (update_on_insert key height meta) (insert (key, height) es)"
proof -
  have "0 < fm_entry_count meta + 1"
    using assms(2) word_less_Suc[of "fm_entry_count meta"]
    by (metis le_less_trans word_zero_le)
  then show ?thesis
    using assms by (fastforce simp: covers_def update_on_insert_def Let_def min_def max_def)
qed

fun insert_all :: "(raw_outpoint \<times> u32) list \<Rightarrow> file_metadata \<Rightarrow> file_metadata" where
  "insert_all [] meta = meta"
| "insert_all ((k, h) # es) meta = insert_all es (update_on_insert k h meta)"

lemma insert_all_covers:
  assumes "covers meta es" "unat (fm_entry_count meta) + length xs < 2 ^ 64"
    and "fm_entry_count meta = 0 \<Longrightarrow> es = {}"
  shows "covers (insert_all xs meta) (es \<union> set xs)
    \<and> unat (fm_entry_count (insert_all xs meta)) = unat (fm_entry_count meta) + length xs"
  using assms
proof (induction xs arbitrary: meta es)
  case Nil
  then show ?case by simp
next
  case (Cons x xs)
  obtain k h where x: "x = (k, h)" by (cases x)
  let ?m = "update_on_insert k h meta"
  have cnt: "unat (fm_entry_count ?m) = Suc (unat (fm_entry_count meta))"
    using Cons.prems(2) by (simp add: update_on_insert_count unat_word_ariths)
  have "fm_entry_count meta \<noteq> u64_max"
    using Cons.prems(2) unat_u64_max by auto
  then have "covers ?m (insert x es)"
    using Cons.prems(1,3) x by (auto intro: covers_update_on_insert)
  moreover have "fm_entry_count ?m \<noteq> 0" using cnt by auto
  ultimately have "covers (insert_all xs ?m) (insert x es \<union> set xs)
      \<and> unat (fm_entry_count (insert_all xs ?m)) = unat (fm_entry_count ?m) + length xs"
    using Cons.prems(2) cnt by (intro Cons.IH) auto
  then show ?case using cnt x by simp
qed

text \<open>
  The summary built by inserting entries one after another covers every one of them (its
  key and height ranges never exclude a stored entry) and counts them exactly, so a range
  test may be used to skip a file without missing a key.
\<close>

theorem metadata_covers_inserts:
  assumes "length xs < 2 ^ 64" "(k, h) \<in> set xs"
  shows "key_in_range (insert_all xs empty_file_metadata) k
    \<and> block_in_range (insert_all xs empty_file_metadata) h
    \<and> unat (fm_entry_count (insert_all xs empty_file_metadata)) = length xs"
proof -
  have zero: "fm_entry_count empty_file_metadata = 0" by (simp add: empty_file_metadata_def)
  have "covers (insert_all xs empty_file_metadata) ({} \<union> set xs)
      \<and> unat (fm_entry_count (insert_all xs empty_file_metadata))
        = unat (fm_entry_count empty_file_metadata) + length xs"
    using assms(1) zero by (intro insert_all_covers) auto
  with assms(2) zero show ?thesis
    by (auto simp: covers_def key_in_range_def block_in_range_def)
qed

theorem metadata_covers_inserts_witness:
  "key_in_range (insert_all [(replicate 36 2, 7), (replicate 36 1, 9)] empty_file_metadata)
     (replicate 36 1)"
  using metadata_covers_inserts[of "[(replicate 36 2, 7), (replicate 36 1, 9)]" "replicate 36 1" 9]
  by simp

section \<open>The record round-trips\<close>

lemma length_metadata_body:
  "wf_metadata meta \<Longrightarrow> length (metadata_body meta) = 96"
  by (simp add: metadata_body_def metadata_magic_def wf_metadata_def wf_outpoint_def
      outpoint_size_def)

lemma decode_encode_metadata:
  assumes wf: "wf_metadata meta"
  shows "decode_metadata (encode_metadata meta)
    = Inr (meta\<lparr>fm_container_index := 0, fm_version := 0\<rparr>)"
proof -
  have keys: "length (fm_min_key meta) = 36" "length (fm_max_key meta) = 36"
    using wf by (simp_all add: wf_metadata_def wf_outpoint_def outpoint_size_def)
  have len: "length (encode_metadata meta) = 100"
    using length_metadata_body[OF wf] by (simp add: encode_metadata_def)
  have cov: "take 96 (encode_metadata meta) = metadata_body meta"
    using length_metadata_body[OF wf] by (simp add: encode_metadata_def)
  have magic: "take 4 (encode_metadata meta) = metadata_magic" "length metadata_magic = 4"
    by (simp_all add: encode_metadata_def metadata_body_def metadata_magic_def)
  have rest: "drop 4 (encode_metadata meta)
      = put16 metadata_format @ put16 0 @ put32 (fm_min_block_height meta)
        @ put32 (fm_max_block_height meta) @ fm_min_key meta @ fm_max_key meta
        @ put64 (fm_entry_count meta) @ put32 (checksum (metadata_body meta))"
    by (simp add: encode_metadata_def metadata_body_def metadata_magic_def)
  have ordered: "fm_entry_count meta \<noteq> 0 \<Longrightarrow>
      fm_min_block_height meta \<le> fm_max_block_height meta \<and> fm_min_key meta \<le> fm_max_key meta"
    using wf by (simp add: wf_metadata_def word_gt_0)
  show ?thesis
    unfolding decode_metadata_def rest
    using ordered
    by (auto simp: magic len cov codec_simps keys Let_def metadata_encoded_size_def
        empty_file_metadata_def not_less word_gt_0)
qed

text \<open>
  What the metadata writer encodes, the reader decodes to the same summary (the two
  fields that are not stored, container and version, come back as the reader's defaults).
\<close>

theorem metadata_roundtrip:
  assumes "wf_metadata meta" "fm_container_index meta = 0" "fm_version meta = 0"
  shows "decode_metadata (encode_metadata meta) = Inr meta"
  using decode_encode_metadata[OF assms(1)] assms(2,3) by simp

theorem metadata_roundtrip_witness:
  "decode_metadata (encode_metadata empty_file_metadata) = Inr empty_file_metadata"
  by (rule metadata_roundtrip[OF wf_empty_file_metadata])
    (simp_all add: empty_file_metadata_def)

text \<open>
   the reader accepts nothing else. Whatever buffer decodes is byte for byte the encoding
  of the summary it yields, and that summary is well formed: truncation, a flipped byte that
  the checksum sees, a foreign magic or unordered ranges are all errors.
\<close>

theorem decode_metadata_sound:
  assumes dec: "decode_metadata bs = Inr meta"
  shows "encode_metadata meta = bs \<and> wf_metadata meta"
proof -
  have len: "length bs = 100" and magic: "take 4 bs = metadata_magic"
    using dec by (auto simp: decode_metadata_def metadata_encoded_size_def split: if_splits)
  obtain fm c1 where g1: "get16 (drop 4 bs) = (fm, c1)" by fastforce
  obtain rs c2 where g2: "get16 c1 = (rs, c2)" by fastforce
  obtain mh c3 where g3: "get32 c2 = (mh, c3)" by fastforce
  obtain xh c4 where g4: "get32 c3 = (xh, c4)" by fastforce
  obtain mk c5 where g5: "get_array 36 c4 = (mk, c5)" by fastforce
  obtain xk c6 where g6: "get_array 36 c5 = (xk, c6)" by fastforce
  obtain ec c7 where g7: "get64 c6 = (ec, c7)" by fastforce
  obtain cs c8 where g8: "get32 c7 = (cs, c8)" by fastforce
  note gs = g1 g2 g3 g4 g5 g6 g7 g8
  have lens: "length c1 = 94" "length c2 = 92" "length c3 = 88" "length c4 = 84" "length c5 = 48"
    "length c6 = 12" "length c7 = 4" "length c8 = 0"
    using get_lengths(2)[OF g1] get_lengths(2)[OF g2] get_lengths(3)[OF g3] get_lengths(3)[OF g4]
      get_lengths(5)[OF g5] get_lengths(5)[OF g6] get_lengths(4)[OF g7] get_lengths(3)[OF g8] len
    by simp_all
  have body: "drop 4 bs = put16 fm @ put16 rs @ put32 mh @ put32 xh @ mk @ xk @ put64 ec @ put32 cs"
    using put_get(2)[OF _ g1] put_get(2)[OF _ g2] put_get(3)[OF _ g3] put_get(3)[OF _ g4]
      put_get_array[OF g5] put_get_array[OF g6] put_get(4)[OF _ g7] put_get(3)[OF _ g8] lens len
    by simp
  have keys: "length mk = 36" "length xk = 36"
    using g5 g6 lens by (auto simp: get_array_def)
  have facts: "fm = metadata_format" "rs = 0" "checksum (take 96 bs) = cs"
    "ec > 0 \<longrightarrow> mh \<le> xh \<and> mk \<le> xk"
    "meta = empty_file_metadata\<lparr>fm_min_block_height := mh, fm_max_block_height := xh,
       fm_min_key := mk, fm_max_key := xk, fm_entry_count := ec\<rparr>"
    using dec by (auto simp: decode_metadata_def gs metadata_encoded_size_def Let_def
        split: if_splits)
  have "bs = metadata_magic @ drop 4 bs" using magic by (metis append_take_drop_id)
  then have whole: "bs = metadata_body meta @ put32 cs"
    using body facts by (simp add: metadata_body_def)
  have wf: "wf_metadata meta"
    using keys facts by (simp add: wf_metadata_def wf_outpoint_def outpoint_size_def)
  have "take 96 bs = metadata_body meta"
    using whole length_metadata_body[OF wf] by simp
  with whole facts wf show ?thesis by (simp add: encode_metadata_def)
qed

theorem decode_metadata_sound_witness:
  "wf_metadata (projr (decode_metadata (encode_metadata empty_file_metadata)))"
proof -
  have "decode_metadata (encode_metadata empty_file_metadata)
      = Inr (empty_file_metadata\<lparr>fm_container_index := 0, fm_version := 0\<rparr>)"
    by (rule decode_encode_metadata[OF wf_empty_file_metadata])
  with decode_metadata_sound[OF this] show ?thesis by simp
qed

end
