(* ===== verification/Version_Catalog.thy ===== *)
theory Version_Catalog
  imports File_Metadata
begin

text \<open>
  Models the class \<open>version_catalog\<close> of \<open>src/detail/version_catalog.hpp\<close>: the versions
  present for one container, ascending, their metadata keyed by version, and the highest
  number ever issued. Versions are \<open>size_t\<close>, so the successor wraps.
\<close>

record version_catalog =
  vc_versions :: "u64 list"
  vc_metadata :: "(u64 \<times> file_metadata) list"
  vc_highest_issued :: u64

definition empty_catalog :: version_catalog where
  "empty_catalog = \<lparr>vc_versions = [], vc_metadata = [], vc_highest_issued = 0\<rparr>"

definition catalog_active :: "version_catalog \<Rightarrow> u64" where
  "catalog_active c = (if vc_versions c = [] then 0 else last (vc_versions c))"

text \<open>\<open>std::ranges::binary_search\<close> and \<open>lower_bound\<close> on the ascending list.\<close>

definition lower_part :: "u64 \<Rightarrow> u64 list \<Rightarrow> u64 list" where
  "lower_part v vs = takeWhile (\<lambda>w. w < v) vs"

definition upper_part :: "u64 \<Rightarrow> u64 list \<Rightarrow> u64 list" where
  "upper_part v vs = dropWhile (\<lambda>w. w < v) vs"

definition catalog_contains :: "version_catalog \<Rightarrow> u64 \<Rightarrow> bool" where
  "catalog_contains c v =
     (case upper_part v (vc_versions c) of [] \<Rightarrow> False | w # _ \<Rightarrow> w = v)"

definition catalog_add :: "u64 \<Rightarrow> version_catalog \<Rightarrow> version_catalog" where
  "catalog_add v c =
    (let c' = c\<lparr>vc_highest_issued := max (vc_highest_issued c) v\<rparr>
     in if catalog_contains c v then c'
        else c'\<lparr>vc_versions := lower_part v (vc_versions c) @ v # upper_part v (vc_versions c)\<rparr>)"

definition next_version :: "version_catalog \<Rightarrow> u64" where
  "next_version c =
     (if vc_versions c = [] \<and> vc_highest_issued c = 0 then 0 else vc_highest_issued c + 1)"

definition catalog_remove :: "u64 \<Rightarrow> version_catalog \<Rightarrow> version_catalog" where
  "catalog_remove v c =
    c\<lparr>vc_versions := (if catalog_contains c v
                       then lower_part v (vc_versions c) @ tl (upper_part v (vc_versions c))
                       else vc_versions c),
      vc_metadata := AList.delete v (vc_metadata c)\<rparr>"

definition catalog_clear :: "version_catalog \<Rightarrow> version_catalog" where
  "catalog_clear c = empty_catalog"

definition catalog_below :: "version_catalog \<Rightarrow> u64 \<Rightarrow> u64 list" where
  "catalog_below c v = rev (lower_part v (vc_versions c))"

definition catalog_find_metadata :: "version_catalog \<Rightarrow> u64 \<Rightarrow> file_metadata option" where
  "catalog_find_metadata c v = map_of (vc_metadata c) v"

text \<open>\<open>metadata(version)\<close> is a reference that creates the record: read and write of it.\<close>

definition catalog_metadata :: "version_catalog \<Rightarrow> u64 \<Rightarrow> file_metadata" where
  "catalog_metadata c v =
     (case map_of (vc_metadata c) v of None \<Rightarrow> empty_file_metadata | Some m \<Rightarrow> m)"

definition catalog_set_metadata :: "u64 \<Rightarrow> file_metadata \<Rightarrow> version_catalog \<Rightarrow> version_catalog" where
  "catalog_set_metadata v m c = c\<lparr>vc_metadata := AList.update v m (vc_metadata c)\<rparr>"

definition catalog_erase_metadata :: "u64 \<Rightarrow> version_catalog \<Rightarrow> version_catalog" where
  "catalog_erase_metadata v c = c\<lparr>vc_metadata := AList.delete v (vc_metadata c)\<rparr>"

definition catalog_clear_metadata :: "version_catalog \<Rightarrow> version_catalog" where
  "catalog_clear_metadata c = c\<lparr>vc_metadata := []\<rparr>"

section \<open>The invariant\<close>

definition catalog_inv :: "version_catalog \<Rightarrow> bool" where
  "catalog_inv c \<longleftrightarrow> sorted (vc_versions c) \<and> distinct (vc_versions c)
     \<and> (\<forall>v \<in> set (vc_versions c). v \<le> vc_highest_issued c)"

lemma split_at: "lower_part v vs @ upper_part v vs = vs"
  by (simp add: lower_part_def upper_part_def)

lemma set_lower_part: "sorted vs \<Longrightarrow> set (lower_part v vs) = {w \<in> set vs. w < v}"
proof (induction vs)
  case Nil
  then show ?case by (simp add: lower_part_def)
next
  case (Cons a vs)
  then show ?case by (auto simp: lower_part_def)
qed

lemma set_upper_part: "sorted vs \<Longrightarrow> set (upper_part v vs) = {w \<in> set vs. v \<le> w}"
proof (induction vs)
  case Nil
  then show ?case by (simp add: upper_part_def)
next
  case (Cons a vs)
  then show ?case by (auto simp: upper_part_def not_less)
qed

lemma sorted_parts: "sorted vs \<Longrightarrow> sorted (lower_part v vs)" "sorted vs \<Longrightarrow> sorted (upper_part v vs)"
  by (metis split_at sorted_append)+

lemma distinct_parts:
  "distinct vs \<Longrightarrow> distinct (lower_part v vs)" "distinct vs \<Longrightarrow> distinct (upper_part v vs)"
  by (metis split_at distinct_append)+

lemma catalog_contains_iff:
  assumes "catalog_inv c"
  shows "catalog_contains c v \<longleftrightarrow> v \<in> set (vc_versions c)"
proof -
  have srt: "sorted (vc_versions c)" using assms by (simp add: catalog_inv_def)
  note up = set_upper_part[OF srt, of v] and so = sorted_parts(2)[OF srt, of v]
  show ?thesis
  proof (cases "upper_part v (vc_versions c)")
    case Nil
    with up show ?thesis by (auto simp: catalog_contains_def)
  next
    case (Cons w ws)
    with so have le: "\<forall>x \<in> set ws. w \<le> x" by simp
    from up Cons have mem: "insert w (set ws) = {x \<in> set (vc_versions c). v \<le> x}" by simp
    have "v \<in> set (vc_versions c) \<longleftrightarrow> v \<in> insert w (set ws)" by (simp add: mem)
    also have "\<dots> \<longleftrightarrow> w = v"
    proof
      assume "v \<in> insert w (set ws)"
      then have "w \<le> v" using le by auto
      moreover have "w \<in> insert w (set ws)" by simp
      then have "v \<le> w" unfolding mem by simp
      ultimately show "w = v" by simp
    qed simp
    finally show ?thesis using Cons by (simp add: catalog_contains_def)
  qed
qed

lemma upper_part_hd:
  assumes "catalog_inv c" "v \<in> set (vc_versions c)"
  shows "\<exists>ws. upper_part v (vc_versions c) = v # ws"
  using catalog_contains_iff[OF assms(1), of v] assms(2)
  by (auto simp: catalog_contains_def split: list.splits)

lemma set_catalog_add:
  "catalog_inv c \<Longrightarrow> set (vc_versions (catalog_add v c)) = insert v (set (vc_versions c))"
  using split_at[of v "vc_versions c"]
  by (auto simp: catalog_add_def Let_def catalog_contains_iff set_lower_part set_upper_part
      catalog_inv_def)

lemma catalog_add_inv [wf_intros]: "catalog_inv c \<Longrightarrow> catalog_inv (catalog_add v c)"
proof -
  assume inv: "catalog_inv c"
  then have srt: "sorted (vc_versions c)" and dst: "distinct (vc_versions c)"
    by (simp_all add: catalog_inv_def)
  show ?thesis
  proof (cases "v \<in> set (vc_versions c)")
    case True
    with inv show ?thesis
      by (auto simp: catalog_add_def Let_def catalog_contains_iff catalog_inv_def max_def
          intro: order_trans)
  next
    case False
    with inv have vs: "vc_versions (catalog_add v c)
        = lower_part v (vc_versions c) @ v # upper_part v (vc_versions c)"
      by (simp add: catalog_add_def Let_def catalog_contains_iff)
    have "vc_highest_issued (catalog_add v c) = max (vc_highest_issued c) v"
      by (simp add: catalog_add_def Let_def)
    with inv have "\<forall>w \<in> set (vc_versions (catalog_add v c)). w \<le> vc_highest_issued (catalog_add v c)"
      by (auto simp: set_catalog_add catalog_inv_def le_max_iff_disj)
    moreover have "sorted (vc_versions (catalog_add v c))"
      unfolding vs
      using sorted_parts[OF srt, of v] set_lower_part[OF srt, of v] set_upper_part[OF srt, of v]
      by (auto simp: sorted_append)
    moreover have "distinct (vc_versions (catalog_add v c))"
      unfolding vs
      using distinct_parts[OF dst, of v] set_lower_part[OF srt, of v] set_upper_part[OF srt, of v]
        False by auto
    ultimately show ?thesis by (simp add: catalog_inv_def)
  qed
qed

lemma catalog_remove_versions:
  assumes inv: "catalog_inv c"
  shows "vc_versions (catalog_remove v c) = filter (\<lambda>w. w \<noteq> v) (vc_versions c)"
proof (cases "v \<in> set (vc_versions c)")
  case True
  then obtain ws where ws: "upper_part v (vc_versions c) = v # ws"
    using upper_part_hd[OF inv] by blast
  have srt: "sorted (vc_versions c)" and dst: "distinct (vc_versions c)"
    using inv by (simp_all add: catalog_inv_def)
  have whole: "vc_versions c = lower_part v (vc_versions c) @ v # ws"
    using split_at[of v "vc_versions c"] ws by simp
  have keep: "filter (\<lambda>w. w \<noteq> v) us = us" if "v \<notin> set us" for us
    using that by (induction us) auto
  have "v \<notin> set (lower_part v (vc_versions c))" using set_lower_part[OF srt] by simp
  moreover have "v \<notin> set ws" using distinct_parts(2)[OF dst, of v] ws by simp
  ultimately have "filter (\<lambda>w. w \<noteq> v) (lower_part v (vc_versions c) @ v # ws)
      = lower_part v (vc_versions c) @ ws"
    by (simp add: keep)
  then have "filter (\<lambda>w. w \<noteq> v) (vc_versions c) = lower_part v (vc_versions c) @ ws"
    by (subst whole)
  with True ws inv show ?thesis by (simp add: catalog_remove_def catalog_contains_iff)
next
  case False
  then have "filter (\<lambda>w. w \<noteq> v) (vc_versions c) = vc_versions c"
    by (auto simp: filter_id_conv)
  with False inv show ?thesis by (simp add: catalog_remove_def catalog_contains_iff)
qed

lemma set_catalog_remove:
  "catalog_inv c \<Longrightarrow> set (vc_versions (catalog_remove v c)) = set (vc_versions c) - {v}"
  by (auto simp: catalog_remove_versions)

lemma catalog_remove_highest [simp]:
  "vc_highest_issued (catalog_remove v c) = vc_highest_issued c"
  by (simp add: catalog_remove_def)

lemma catalog_remove_inv [wf_intros]: "catalog_inv c \<Longrightarrow> catalog_inv (catalog_remove v c)"
  by (auto simp: catalog_inv_def catalog_remove_versions sorted_wrt_filter)

lemma catalog_set_metadata_versions [simp, frame_simps]:
  "vc_versions (catalog_set_metadata v m c) = vc_versions c"
  "vc_highest_issued (catalog_set_metadata v m c) = vc_highest_issued c"
  by (simp_all add: catalog_set_metadata_def)

lemma catalog_set_metadata_inv [wf_intros]:
  "catalog_inv c \<Longrightarrow> catalog_inv (catalog_set_metadata v m c)"
  by (simp add: catalog_inv_def)

lemma catalog_empty_inv [wf_intros]: "catalog_inv empty_catalog"
  by (simp add: catalog_inv_def empty_catalog_def)

lemma catalog_active_max:
  assumes "catalog_inv c" "v \<in> set (vc_versions c)"
  shows "catalog_active c \<in> set (vc_versions c) \<and> v \<le> catalog_active c"
proof -
  have ne: "vc_versions c \<noteq> []" using assms(2) by auto
  then have "vc_versions c = butlast (vc_versions c) @ [last (vc_versions c)]" by simp
  moreover have "sorted (vc_versions c)" using assms(1) by (simp add: catalog_inv_def)
  ultimately have "\<forall>w \<in> set (vc_versions c). w \<le> last (vc_versions c)"
    by (metis append_Nil2 in_set_conv_nth last_conv_nth le_less_linear ne
        One_nat_def Suc_leI Suc_pred leD length_greater_0_conv less_Suc_eq_le sorted_nth_mono
        diff_less zero_less_one)
  with ne assms(2) show ?thesis by (simp add: catalog_active_def)
qed

lemma catalog_below_set:
  "catalog_inv c \<Longrightarrow> set (catalog_below c v) = {w \<in> set (vc_versions c). w < v}"
  by (simp add: catalog_below_def set_lower_part catalog_inv_def)

lemma catalog_below_distinct: "catalog_inv c \<Longrightarrow> distinct (catalog_below c v)"
  by (simp add: catalog_below_def distinct_parts catalog_inv_def)

lemma catalog_below_descending: "catalog_inv c \<Longrightarrow> sorted (rev (catalog_below c v))"
  by (simp add: catalog_below_def sorted_parts catalog_inv_def)

text \<open>The active version and the versions below it are all there is.\<close>

lemma catalog_partition:
  assumes inv: "catalog_inv c" and ne: "vc_versions c \<noteq> []"
  shows "set (vc_versions c) = insert (catalog_active c) (set (catalog_below c (catalog_active c)))"
proof -
  obtain v where v: "v \<in> set (vc_versions c)" using ne by (cases "vc_versions c") auto
  show ?thesis
    using catalog_active_max[OF inv] v by (force simp: catalog_below_set[OF inv])
qed

section \<open>Issuing numbers\<close>

text \<open>
  The life of a catalogue since it was cleared: versions are recorded (those found on disk, and
  those issued) and retired. \<open>recorded\<close> is everything ever recorded.
\<close>

datatype catalog_op = Add u64 | Remove u64

fun catalog_step :: "version_catalog \<Rightarrow> catalog_op \<Rightarrow> version_catalog" where
  "catalog_step c (Add v) = catalog_add v c"
| "catalog_step c (Remove v) = catalog_remove v c"

definition catalog_run :: "version_catalog \<Rightarrow> catalog_op list \<Rightarrow> version_catalog" where
  "catalog_run = foldl catalog_step"

definition recorded :: "catalog_op list \<Rightarrow> u64 set" where
  "recorded ops = {v. Add v \<in> set ops}"

lemma catalog_step_inv: "catalog_inv c \<Longrightarrow> catalog_inv (catalog_step c e)"
  by (cases e) (simp_all add: wf_intros)

lemma catalog_step_highest:
  "vc_highest_issued (catalog_step c e)
    = (case e of Add v \<Rightarrow> max (vc_highest_issued c) v | Remove v \<Rightarrow> vc_highest_issued c)"
  by (cases e) (simp_all add: catalog_add_def Let_def)

lemma catalog_run_inv: "catalog_inv c \<Longrightarrow> catalog_inv (catalog_run c ops)"
  unfolding catalog_run_def by (induction ops arbitrary: c) (auto simp: catalog_step_inv)

lemma catalog_run_highest:
  "vc_highest_issued c \<le> vc_highest_issued (catalog_run c ops)
   \<and> (\<forall>v \<in> recorded ops. v \<le> vc_highest_issued (catalog_run c ops))"
  unfolding catalog_run_def recorded_def
proof (induction ops arbitrary: c)
  case Nil
  then show ?case by simp
next
  case (Cons e ops)
  note IH = Cons[of "catalog_step c e"]
  have here: "vc_highest_issued c \<le> vc_highest_issued (catalog_step c e)"
    by (cases e) (simp_all add: catalog_add_def Let_def)
  have added: "v \<le> vc_highest_issued (catalog_step c e)" if "e = Add v" for v
    using that by (simp add: catalog_add_def Let_def)
  show ?case using IH order_trans[OF here] order_trans[OF added] by fastforce
qed



text \<open>
  The two corners the hypotheses exclude are real: a catalogue whose only version ever was 0
  issues 0 again after retiring it, and one that has recorded the largest \<open>size_t\<close> wraps to 0.
\<close>

lemma next_version_reissues_zero:
  "next_version (catalog_run empty_catalog [Add 0, Remove 0]) \<in> recorded [Add 0, Remove 0]"
  by (simp add: catalog_run_def catalog_add_def catalog_remove_def empty_catalog_def
      catalog_contains_def lower_part_def upper_part_def recorded_def next_version_def)

lemma next_version_wraps:
  "next_version (catalog_run empty_catalog [Add 0, Add u64_max]) = 0"
  by (simp add: catalog_run_def catalog_add_def empty_catalog_def
      catalog_contains_def lower_part_def upper_part_def next_version_def max_def)

section \<open>The order of a historical walk\<close>

text \<open>
   a walk over the versions below the active one visits every other version exactly once,
  nearest generation first.
\<close>

theorem catalog_walk_complete:
  assumes "catalog_inv c" "vc_versions c \<noteq> []"
  shows "set (vc_versions c) = insert (catalog_active c) (set (catalog_below c (catalog_active c)))
    \<and> catalog_active c \<notin> set (catalog_below c (catalog_active c))
    \<and> distinct (catalog_below c (catalog_active c))
    \<and> sorted (rev (catalog_below c (catalog_active c)))"
  using catalog_partition[OF assms] catalog_below_distinct[OF assms(1)]
    catalog_below_descending[OF assms(1)] catalog_below_set[OF assms(1), of "catalog_active c"]
  by auto

theorem catalog_walk_complete_witness:
  "distinct (catalog_below \<lparr>vc_versions = [0, 2, 5], vc_metadata = [], vc_highest_issued = 7\<rparr> 5)"
  using catalog_walk_complete[of "\<lparr>vc_versions = [0, 2, 5], vc_metadata = [], vc_highest_issued = 7\<rparr>"]
  by (simp add: catalog_inv_def catalog_active_def)

end
