(* ===== verification/Formats.thy ===== *)
theory Formats
  imports Types
begin

text \<open>
  Models the records that make a directory openable only by a build that agrees with the one
  that wrote it: \<open>src/detail/format_identity.hpp\<close>, the codec and checks of
  \<open>src/detail/segment_stamp.hpp\<close>, and the codec and checks of
  \<open>src/detail/store_config_io.hpp\<close>. The sizes of Boost's mutex and segment manager and the
  Boost version are not under \<open>src/\<close>: they are fields of the parameter \<open>build\<close>.
\<close>

unbundle bit_operations_syntax

section \<open>Format identity\<close>

definition geometry_id :: u32 where
  "geometry_id = 3"

definition map_layout_epoch :: u32 where
  "map_layout_epoch = 1"

definition hash_epoch :: u32 where
  "hash_epoch = 1"

definition platform_abi_encoding :: u32 where
  "platform_abi_encoding = 1"

definition reference_container_kind :: u32 where
  "reference_container_kind = 0xFFFFFFFF"

definition data_abi_id :: "u32 \<Rightarrow> u32 \<Rightarrow> u32 \<Rightarrow> u32 \<Rightarrow> u32" where
  "data_abi_id endian size_t_bytes pointer_bytes offset_ptr_bytes =
     push_bit 24 endian OR push_bit 16 size_t_bytes OR push_bit 8 pointer_bytes OR offset_ptr_bytes"

definition mix_byte :: "u32 \<Rightarrow> nat \<Rightarrow> u32 \<Rightarrow> u32" where
  "mix_byte part byte h = (h XOR (drop_bit (byte * 8) part AND 0xFF)) * 0x01000193"

definition mix_identity :: "u32 list \<Rightarrow> u32" where
  "mix_identity parts = fold (\<lambda>part h. fold (mix_byte part) [0..<4] h) parts 0x811c9dc5"

record build =
  bd_data_abi_id :: u32
  bd_mutex_size :: u32
  bd_mutex_align :: u32
  bd_manager_size :: u32
  bd_manager_align :: u32
  bd_sync_abi_family :: u32
  bd_platform_tag :: u32
  bd_boost_version :: u32

definition compute_platform_abi_id :: "build \<Rightarrow> u32 \<Rightarrow> u32 \<Rightarrow> u32" where
  "compute_platform_abi_id b family tag =
     mix_identity [platform_abi_encoding, bd_data_abi_id b, family, bd_mutex_size b,
       bd_mutex_align b, bd_manager_size b, bd_manager_align b, tag]"

definition platform_abi_id :: "build \<Rightarrow> u32" where
  "platform_abi_id b = compute_platform_abi_id b (bd_sync_abi_family b) (bd_platform_tag b)"

type_synonym database_id = bytes

section \<open>The segment stamp\<close>

record segment_identity =
  si_geometry_id :: u32
  si_map_layout_epoch :: u32
  si_hash_epoch :: u32
  si_platform_abi_id :: u32
  si_database_id :: database_id
  si_container_kind :: u32
  si_version :: u64

definition stamp_magic :: bytes where
  "stamp_magic = [0x55, 0x5A, 0x53, 0x54]" \<comment> \<open>UZST\<close>

definition stamp_format :: u16 where
  "stamp_format = 1"

definition stamp_encoded_size :: nat where
  "stamp_encoded_size = 56"

definition local_identity :: "build \<Rightarrow> database_id \<Rightarrow> u32 \<Rightarrow> u64 \<Rightarrow> segment_identity" where
  "local_identity b did container_kind version =
     \<lparr>si_geometry_id = geometry_id, si_map_layout_epoch = map_layout_epoch,
      si_hash_epoch = hash_epoch, si_platform_abi_id = platform_abi_id b,
      si_database_id = did, si_container_kind = container_kind, si_version = version\<rparr>"

definition stamp_body :: "segment_identity \<Rightarrow> bytes" where
  "stamp_body i =
     stamp_magic @ put16 stamp_format @ put16 0
     @ put32 (si_geometry_id i) @ put32 (si_map_layout_epoch i) @ put32 (si_hash_epoch i)
     @ put32 (si_platform_abi_id i) @ si_database_id i @ put32 (si_container_kind i)
     @ put64 (si_version i)"

definition encode_stamp :: "segment_identity \<Rightarrow> bytes" where
  "encode_stamp i = stamp_body i @ put32 (checksum (stamp_body i))"

text \<open>The one decoding error is \<open>stamp_error::corrupt\<close>, here \<open>None\<close>.\<close>

definition decode_stamp :: "bytes \<Rightarrow> segment_identity option" where
  "decode_stamp raw =
    (if take 4 raw \<noteq> stamp_magic then None
     else
      (let cursor = drop 4 raw;
           (format, cursor) = get16 cursor;
           (reserved, cursor) = get16 cursor
       in if format \<noteq> stamp_format \<or> reserved \<noteq> 0 then None
          else
           (let (geometry, cursor) = get32 cursor;
                (layout, cursor) = get32 cursor;
                (hash, cursor) = get32 cursor;
                (abi, cursor) = get32 cursor;
                (did, cursor) = get_array 16 cursor;
                (kind, cursor) = get32 cursor;
                (version, cursor) = get64 cursor;
                (stored, cursor) = get32 cursor;
                covered = take (stamp_encoded_size - 4) raw
            in if stored \<noteq> checksum covered then None
               else Some \<lparr>si_geometry_id = geometry, si_map_layout_epoch = layout,
                 si_hash_epoch = hash, si_platform_abi_id = abi, si_database_id = did,
                 si_container_kind = kind, si_version = version\<rparr>)))"

text \<open>
  \<open>validate_stamp\<close>, on what \<open>segment.find<segment_stamp>\<close> returned: no object, or an object
  with its number of instances.
\<close>

definition validate_stamp :: "(u64 \<times> bytes) option \<Rightarrow> segment_identity \<Rightarrow> unit result" where
  "validate_stamp found expected =
    (case found of
       None \<Rightarrow> Inl Segment_stamp_missing
     | Some (instances, raw) \<Rightarrow>
        if instances \<noteq> 1 then Inl Segment_stamp_corrupt
        else
         (case decode_stamp raw of
            None \<Rightarrow> Inl Segment_stamp_corrupt
          | Some identity \<Rightarrow>
             if si_geometry_id identity \<noteq> si_geometry_id expected then Inl Geometry_mismatch
             else if si_map_layout_epoch identity \<noteq> si_map_layout_epoch expected
             then Inl Layout_mismatch
             else if si_hash_epoch identity \<noteq> si_hash_epoch expected then Inl Hash_mismatch
             else if si_platform_abi_id identity \<noteq> si_platform_abi_id expected
             then Inl Abi_mismatch
             else if si_database_id identity \<noteq> si_database_id expected
             then Inl Database_identity_mismatch
             else if si_container_kind identity \<noteq> si_container_kind expected
                  \<or> si_version identity \<noteq> si_version expected
             then Inl Segment_misplaced
             else Inr ()))"

section \<open>The configuration file\<close>

record store_config =
  sc_mode :: storage_mode
  sc_geometry_id :: u32
  sc_map_layout_epoch :: u32
  sc_hash_epoch :: u32
  sc_platform_abi_id :: u32
  sc_database_id :: database_id
  sc_boost_version :: u32

definition config_magic :: bytes where
  "config_magic = [0x55, 0x54, 0x58, 0x4F]" \<comment> \<open>UTXO\<close>

definition config_legacy_format :: u32 where
  "config_legacy_format = 1"

definition config_current_format :: u32 where
  "config_current_format = 2"

definition config_encoded_size :: nat where
  "config_encoded_size = 52"

definition mode_byte :: "storage_mode \<Rightarrow> u8" where
  "mode_byte m = (case m of Full_mode \<Rightarrow> 0 | Reference_mode \<Rightarrow> 1)"

definition local_config :: "build \<Rightarrow> storage_mode \<Rightarrow> database_id \<Rightarrow> store_config" where
  "local_config b mode did =
     \<lparr>sc_mode = mode, sc_geometry_id = geometry_id, sc_map_layout_epoch = map_layout_epoch,
      sc_hash_epoch = hash_epoch, sc_platform_abi_id = platform_abi_id b,
      sc_database_id = did, sc_boost_version = bd_boost_version b\<rparr>"

definition config_body :: "store_config \<Rightarrow> bytes" where
  "config_body c =
     config_magic @ put32 config_current_format @ put8 (mode_byte (sc_mode c)) @ put8 0 @ put16 0
     @ put32 (sc_geometry_id c) @ put32 (sc_map_layout_epoch c) @ put32 (sc_hash_epoch c)
     @ put32 (sc_platform_abi_id c) @ sc_database_id c @ put32 (sc_boost_version c)"

definition encode_config :: "store_config \<Rightarrow> bytes" where
  "encode_config c = config_body c @ put32 (checksum (config_body c))"

text \<open>The part of \<open>read_config_file\<close> that follows the read of the whole file into \<open>bytes\<close>.\<close>

definition decode_config :: "bytes \<Rightarrow> store_config result" where
  "decode_config bs =
    (if length bs < length config_magic + 4 then Inl Config_file_corrupt
     else if take 4 bs \<noteq> config_magic then Inl Config_file_corrupt
     else
      (let cursor = drop 4 bs;
           (format, cursor) = get32 cursor
       in if format = config_legacy_format then Inl Migration_required
          else if format \<noteq> config_current_format then Inl Format_unsupported
          else if length bs \<noteq> config_encoded_size then Inl Config_file_corrupt
          else
           (let (mode_b, cursor) = get8 cursor;
                (pad8, cursor) = get8 cursor;
                (pad16, cursor) = get16 cursor
            in if pad8 \<noteq> 0 \<or> pad16 \<noteq> 0 then Inl Config_file_corrupt
               else if mode_b \<noteq> mode_byte Full_mode \<and> mode_b \<noteq> mode_byte Reference_mode
               then Inl Config_file_corrupt
               else
                (let mode = if mode_b = mode_byte Full_mode then Full_mode else Reference_mode;
                     (geometry, cursor) = get32 cursor;
                     (layout, cursor) = get32 cursor;
                     (hash, cursor) = get32 cursor;
                     (abi, cursor) = get32 cursor;
                     (did, cursor) = get_array 16 cursor;
                     (boost, cursor) = get32 cursor;
                     (stored, cursor) = get32 cursor;
                     covered = take (config_encoded_size - 4) bs
                 in if stored \<noteq> checksum covered then Inl Config_file_corrupt
                    else Inr \<lparr>sc_mode = mode, sc_geometry_id = geometry,
                      sc_map_layout_epoch = layout, sc_hash_epoch = hash,
                      sc_platform_abi_id = abi, sc_database_id = did,
                      sc_boost_version = boost\<rparr>))))"

definition check_config_compatible :: "build \<Rightarrow> store_config \<Rightarrow> unit result" where
  "check_config_compatible b config =
    (if sc_geometry_id config \<noteq> geometry_id then Inl Geometry_mismatch
     else if sc_map_layout_epoch config \<noteq> map_layout_epoch then Inl Layout_mismatch
     else if sc_hash_epoch config \<noteq> hash_epoch then Inl Hash_mismatch
     else if sc_platform_abi_id config \<noteq> platform_abi_id b then Inl Abi_mismatch
     else Inr ())"

section \<open>Stamp facts\<close>

definition wf_identity :: "segment_identity \<Rightarrow> bool" where
  "wf_identity i \<longleftrightarrow> length (si_database_id i) = 16"

lemma wf_local_identity [wf_intros]: "length did = 16 \<Longrightarrow> wf_identity (local_identity b did k v)"
  by (simp add: wf_identity_def local_identity_def)

lemma length_stamp_body: "wf_identity i \<Longrightarrow> length (stamp_body i) = 52"
  by (simp add: stamp_body_def stamp_magic_def wf_identity_def)

lemma length_encode_stamp: "wf_identity i \<Longrightarrow> length (encode_stamp i) = stamp_encoded_size"
  by (simp add: encode_stamp_def length_stamp_body stamp_encoded_size_def)

lemma decode_encode_stamp [codec_simps]:
  assumes wf: "wf_identity i"
  shows "decode_stamp (encode_stamp i) = Some i"
proof -
  have did: "length (si_database_id i) = 16" using wf by (simp add: wf_identity_def)
  have magic: "take 4 (encode_stamp i) = stamp_magic"
    by (simp add: encode_stamp_def stamp_body_def stamp_magic_def)
  have cov: "take 52 (encode_stamp i) = stamp_body i"
    using length_stamp_body[OF wf] by (simp add: encode_stamp_def)
  have rest: "drop 4 (encode_stamp i) = put16 stamp_format @ put16 0
     @ put32 (si_geometry_id i) @ put32 (si_map_layout_epoch i) @ put32 (si_hash_epoch i)
     @ put32 (si_platform_abi_id i) @ si_database_id i @ put32 (si_container_kind i)
     @ put64 (si_version i) @ put32 (checksum (stamp_body i))"
    by (simp add: encode_stamp_def stamp_body_def stamp_magic_def)
  show ?thesis
    unfolding decode_stamp_def rest
    by (simp add: magic cov codec_simps did Let_def stamp_encoded_size_def)
qed

lemma decode_stamp_sound:
  assumes dec: "decode_stamp raw = Some i" and len: "length raw = stamp_encoded_size"
  shows "encode_stamp i = raw \<and> wf_identity i"
proof -
  have len: "length raw = 56" using len by (simp add: stamp_encoded_size_def)
  have magic: "take 4 raw = stamp_magic"
    using dec by (auto simp: decode_stamp_def split: if_splits)
  obtain fm c1 where g1: "get16 (drop 4 raw) = (fm, c1)" by fastforce
  obtain rs c2 where g2: "get16 c1 = (rs, c2)" by fastforce
  obtain a c3 where g3: "get32 c2 = (a, c3)" by fastforce
  obtain b c4 where g4: "get32 c3 = (b, c4)" by fastforce
  obtain c c5 where g5: "get32 c4 = (c, c5)" by fastforce
  obtain d c6 where g6: "get32 c5 = (d, c6)" by fastforce
  obtain e c7 where g7: "get_array 16 c6 = (e, c7)" by fastforce
  obtain f c8 where g8: "get32 c7 = (f, c8)" by fastforce
  obtain g c9 where g9: "get64 c8 = (g, c9)" by fastforce
  obtain h c10 where g10: "get32 c9 = (h, c10)" by fastforce
  have lens: "length c1 = 50" "length c2 = 48" "length c3 = 44" "length c4 = 40" "length c5 = 36"
    "length c6 = 32" "length c7 = 16" "length c8 = 12" "length c9 = 4" "length c10 = 0"
    using get_lengths(2)[OF g1] get_lengths(2)[OF g2] get_lengths(3)[OF g3] get_lengths(3)[OF g4]
      get_lengths(3)[OF g5] get_lengths(3)[OF g6] get_lengths(5)[OF g7] get_lengths(3)[OF g8]
      get_lengths(4)[OF g9] get_lengths(3)[OF g10] len by simp_all
  have body: "drop 4 raw = put16 fm @ put16 rs @ put32 a @ put32 b @ put32 c @ put32 d @ e
      @ put32 f @ put64 g @ put32 h"
    using put_get(2)[OF _ g1] put_get(2)[OF _ g2] put_get(3)[OF _ g3] put_get(3)[OF _ g4]
      put_get(3)[OF _ g5] put_get(3)[OF _ g6] put_get_array[OF g7] put_get(3)[OF _ g8]
      put_get(4)[OF _ g9] put_get(3)[OF _ g10] lens len by simp
  have did: "length e = 16" using g7 lens by (auto simp: get_array_def)
  have facts: "fm = stamp_format" "rs = 0" "h = checksum (take 52 raw)"
    "i = \<lparr>si_geometry_id = a, si_map_layout_epoch = b, si_hash_epoch = c, si_platform_abi_id = d,
       si_database_id = e, si_container_kind = f, si_version = g\<rparr>"
    using dec by (auto simp: decode_stamp_def g1 g2 g3 g4 g5 g6 g7 g8 g9 g10 stamp_encoded_size_def
        Let_def split: if_splits)
  have wf: "wf_identity i" using did facts by (simp add: wf_identity_def)
  have "raw = stamp_magic @ drop 4 raw" using magic by (metis append_take_drop_id)
  then have whole: "raw = stamp_body i @ put32 h"
    using body facts by (simp add: stamp_body_def)
  then have "take 52 raw = stamp_body i" using length_stamp_body[OF wf] by simp
  with whole facts wf show ?thesis by (simp add: encode_stamp_def)
qed

text \<open>
  C37: a segment is accepted exactly when it carries one stamp whose bytes are the encoding of
  the very identity expected: same format, database, container and version. Anything else is
  refused, so a file copied from another database or renamed to another version never opens.
\<close>

theorem validate_stamp_iff:
  assumes "wf_identity expected" "length raw = stamp_encoded_size"
  shows "validate_stamp (Some (instances, raw)) expected = Inr ()
    \<longleftrightarrow> instances = 1 \<and> raw = encode_stamp expected"
proof
  assume ok: "validate_stamp (Some (instances, raw)) expected = Inr ()"
  then obtain i where i: "decode_stamp raw = Some i" and one: "instances = 1"
    by (auto simp: validate_stamp_def split: if_splits option.splits)
  with ok have "i = expected"
    by (auto simp: validate_stamp_def split: if_splits)
  with decode_stamp_sound[OF i assms(2)] one show "instances = 1 \<and> raw = encode_stamp expected"
    by simp
next
  assume "instances = 1 \<and> raw = encode_stamp expected"
  then show "validate_stamp (Some (instances, raw)) expected = Inr ()"
    using decode_encode_stamp[OF assms(1)] by (simp add: validate_stamp_def)
qed

definition example_build :: build where
  "example_build = \<lparr>bd_data_abi_id = 0x01080808, bd_mutex_size = 40, bd_mutex_align = 8,
     bd_manager_size = 256, bd_manager_align = 8, bd_sync_abi_family = 1, bd_platform_tag = 4,
     bd_boost_version = 108800\<rparr>"

theorem validate_stamp_iff_witness:
  "validate_stamp (Some (2, encode_stamp (local_identity example_build (replicate 16 7) 0 3)))
     (local_identity example_build (replicate 16 7) 0 3) \<noteq> Inr ()"
proof -
  have wf: "wf_identity (local_identity example_build (replicate 16 7) 0 3)"
    by (rule wf_local_identity) simp
  show ?thesis
    using validate_stamp_iff[OF wf length_encode_stamp[OF wf], of 2] by simp
qed

section \<open>Configuration facts\<close>

definition wf_config :: "store_config \<Rightarrow> bool" where
  "wf_config c \<longleftrightarrow> length (sc_database_id c) = 16"

lemma length_config_body: "wf_config c \<Longrightarrow> length (config_body c) = 48"
  by (simp add: config_body_def config_magic_def wf_config_def)

lemma decode_encode_config:
  assumes wf: "wf_config c"
  shows "decode_config (encode_config c) = Inr c \<and> length (encode_config c) = config_encoded_size"
proof -
  have did: "length (sc_database_id c) = 16" using wf by (simp add: wf_config_def)
  have len: "length (encode_config c) = 52"
    using length_config_body[OF wf] by (simp add: encode_config_def)
  have magic: "take 4 (encode_config c) = config_magic" "length config_magic = 4"
    by (simp_all add: encode_config_def config_body_def config_magic_def)
  have cov: "take 48 (encode_config c) = config_body c"
    using length_config_body[OF wf] by (simp add: encode_config_def)
  have rest: "drop 4 (encode_config c) = put32 config_current_format
     @ put8 (mode_byte (sc_mode c)) @ put8 0 @ put16 0
     @ put32 (sc_geometry_id c) @ put32 (sc_map_layout_epoch c) @ put32 (sc_hash_epoch c)
     @ put32 (sc_platform_abi_id c) @ sc_database_id c @ put32 (sc_boost_version c)
     @ put32 (checksum (config_body c))"
    by (simp add: encode_config_def config_body_def config_magic_def)
  have fmt: "config_current_format \<noteq> config_legacy_format"
    by (simp add: config_current_format_def config_legacy_format_def)
  show ?thesis
    unfolding decode_config_def rest
    by (cases "sc_mode c")
      (simp_all add: magic cov codec_simps did Let_def config_encoded_size_def len fmt mode_byte_def)
qed

text \<open>
   the configuration record round-trips, so the identity a database was created under is
  the identity every later open checks its files against.
\<close>

theorem config_roundtrip:
  assumes wf: "wf_config c"
  shows "decode_config (encode_config c) = Inr c \<and> length (encode_config c) = config_encoded_size"
  by (rule decode_encode_config[OF wf])

theorem config_roundtrip_witness:
  "decode_config (encode_config (local_config example_build Reference_mode (replicate 16 1)))
   = Inr (local_config example_build Reference_mode (replicate 16 1))"
  using config_roundtrip[of "local_config example_build Reference_mode (replicate 16 1)"]
  by (simp add: wf_config_def local_config_def)

lemma local_config_compatible:
  "check_config_compatible b (local_config b mode did) = Inr ()"
  by (simp add: check_config_compatible_def local_config_def)

text \<open>
   a configuration is compatible with this build only if the four format fields agree, and
  a file of the legacy format is never read as anything but a request to migrate.
\<close>

theorem config_gate:
  "(check_config_compatible b c = Inr () \<longleftrightarrow>
      sc_geometry_id c = geometry_id \<and> sc_map_layout_epoch c = map_layout_epoch
      \<and> sc_hash_epoch c = hash_epoch \<and> sc_platform_abi_id c = platform_abi_id b)
   \<and> decode_config (config_magic @ put32 config_legacy_format @ rest) = Inl Migration_required"
  by (auto simp: check_config_compatible_def decode_config_def codec_simps Let_def config_magic_def)

end
