(* ===== verification/Merge_Plan.thy ===== *)
theory Merge_Plan
  imports Types
begin

text \<open>
  Models the merge record of \<open>src/detail/merge_sidecar.hpp\<close>: the marker a merge writes into
  its target, the plan that says which versions the target supersedes, its encoding and the
  validating decoder recovery relies on. Reading and writing the file is in theory Disk.
\<close>

datatype sidecar_read_error = Sidecar_absent | Sidecar_unreadable | Sidecar_invalid

record merge_marker =
  mm_high :: u64
  mm_low :: u64

definition marker_empty :: "merge_marker \<Rightarrow> bool" where
  "marker_empty m \<longleftrightarrow> mm_high m = 0 \<and> mm_low m = 0"

record merge_plan =
  mp_container :: u64
  mp_target :: u64
  mp_id :: merge_marker
  mp_sources :: "u64 list"

definition plan_magic :: bytes where
  "plan_magic = [0x55, 0x5A, 0x4D, 0x47]" \<comment> \<open>UZMG\<close>

definition plan_format :: u16 where
  "plan_format = 2"

definition max_sources :: u64 where
  "max_sources = 64"

definition supersedes :: "merge_plan \<Rightarrow> u64 \<Rightarrow> bool" where
  "supersedes plan version \<longleftrightarrow> version \<in> set (mp_sources plan)"

definition plan_header_size :: nat where
  "plan_header_size = 4 + 2 + 2 + 8 + 8 + 16 + 8"

definition encoded_size_for :: "nat \<Rightarrow> nat" where
  "encoded_size_for source_count = plan_header_size + source_count * 8 + 4"

text \<open>\<open>generate_merge_id\<close> on the two draws of \<open>system_entropy\<close> (\<open>None\<close> where a draw fails).\<close>

definition generate_merge_id :: "u64 option \<Rightarrow> u64 option \<Rightarrow> merge_marker result" where
  "generate_merge_id first second =
    (case first of
       None \<Rightarrow> Inl Entropy_unavailable
     | Some high \<Rightarrow>
        (case second of
           None \<Rightarrow> Inl Entropy_unavailable
         | Some low \<Rightarrow>
            let m = \<lparr>mm_high = high, mm_low = low\<rparr>
            in if marker_empty m then Inl Entropy_unavailable else Inr m))"

section \<open>Encoding\<close>

definition plan_body :: "merge_plan \<Rightarrow> bytes" where
  "plan_body plan =
     plan_magic @ put16 plan_format @ put16 0
     @ put64 (mp_container plan) @ put64 (mp_target plan)
     @ put64 (mm_high (mp_id plan)) @ put64 (mm_low (mp_id plan))
     @ put64 (word_of_nat (length (mp_sources plan)))
     @ concat (map put64 (mp_sources plan))"

definition encode_merge_plan :: "merge_plan \<Rightarrow> bytes" where
  "encode_merge_plan plan = plan_body plan @ put32 (checksum (plan_body plan))"

section \<open>Decoding\<close>

fun get_sources :: "nat \<Rightarrow> bytes \<Rightarrow> u64 list \<times> bytes" where
  "get_sources 0 cursor = ([], cursor)"
| "get_sources (Suc n) cursor =
     (let (s, cursor) = get64 cursor;
          (ss, cursor) = get_sources n cursor
      in (s # ss, cursor))"

text \<open>\<open>std::ranges::adjacent_find\<close> finds a neighbouring equal pair.\<close>

fun adjacent_equal :: "u64 list \<Rightarrow> bool" where
  "adjacent_equal (a # b # r) = (a = b \<or> adjacent_equal (b # r))"
| "adjacent_equal _ = False"

definition decode_merge_plan :: "bytes \<Rightarrow> sidecar_read_error + merge_plan" where
  "decode_merge_plan bs =
    (if length bs < plan_header_size + 4 then Inl Sidecar_invalid
     else if take 4 bs \<noteq> plan_magic then Inl Sidecar_invalid
     else
      (let cursor = drop 4 bs;
           (format, cursor) = get16 cursor;
           (reserved, cursor) = get16 cursor
       in if format \<noteq> plan_format then Inl Sidecar_invalid
          else if reserved \<noteq> 0 then Inl Sidecar_invalid
          else
           (let (container, cursor) = get64 cursor;
                (target, cursor) = get64 cursor;
                (high, cursor) = get64 cursor;
                (low, cursor) = get64 cursor;
                (count, cursor) = get64 cursor
            in if count = 0 \<or> count > max_sources then Inl Sidecar_invalid
               else if length bs \<noteq> encoded_size_for (unat count) then Inl Sidecar_invalid
               else
                (let (sources, cursor) = get_sources (unat count) cursor;
                     plan = \<lparr>mp_container = container, mp_target = target,
                       mp_id = \<lparr>mm_high = high, mm_low = low\<rparr>, mp_sources = sources\<rparr>;
                     (stored, cursor) = get32 cursor
                 in if checksum (take (length bs - 4) bs) \<noteq> stored then Inl Sidecar_invalid
                    else if marker_empty (mp_id plan) then Inl Sidecar_invalid
                    else if supersedes plan (mp_target plan) then Inl Sidecar_invalid
                    else if adjacent_equal (mp_sources plan) then Inl Sidecar_invalid
                    else if \<not> sorted (mp_sources plan) then Inl Sidecar_invalid
                    else Inr plan))))"

section \<open>Round trips\<close>

text \<open>What a plan has to satisfy to be acted on.\<close>

definition wf_plan :: "merge_plan \<Rightarrow> bool" where
  "wf_plan plan \<longleftrightarrow>
     mp_sources plan \<noteq> [] \<and> length (mp_sources plan) \<le> 64
     \<and> sorted (mp_sources plan) \<and> distinct (mp_sources plan)
     \<and> mp_target plan \<notin> set (mp_sources plan) \<and> \<not> marker_empty (mp_id plan)"

lemma adjacent_equal_distinct: "sorted xs \<Longrightarrow> \<not> adjacent_equal xs \<longleftrightarrow> distinct xs"
proof (induction xs rule: adjacent_equal.induct)
  case (1 a b r)
  then show ?case by (auto dest: order_antisym)
qed auto

lemma length_concat_put64 [simp]: "length (concat (map put64 xs)) = 8 * length xs"
  by (induction xs) auto

lemma get_sources_put [codec_simps]:
  "get_sources (length xs) (concat (map put64 xs) @ r) = (xs, r)"
  by (induction xs) (simp_all add: codec_simps)

lemma get_sources_length:
  "get_sources n c = (ss, r) \<Longrightarrow> length ss = n \<and> length r = length c - 8 * n"
proof (induction n arbitrary: c ss r)
  case 0
  then show ?case by simp
next
  case (Suc n)
  obtain s c1 where s: "get64 c = (s, c1)" by fastforce
  obtain ss' c2 where ss: "get_sources n c1 = (ss', c2)" by fastforce
  from Suc.IH[OF ss] get_lengths(4)[OF s] Suc.prems s ss show ?case by auto
qed

lemma get_sources_sound:
  "get_sources n c = (ss, r) \<Longrightarrow> 8 * n \<le> length c \<Longrightarrow> c = concat (map put64 ss) @ r"
proof (induction n arbitrary: c ss r)
  case 0
  then show ?case by simp
next
  case (Suc n)
  obtain s c1 where s: "get64 c = (s, c1)" by fastforce
  obtain ss' c2 where ss: "get_sources n c1 = (ss', c2)" by fastforce
  have "c = put64 s @ c1" using Suc.prems(2) s by (intro put_get(4)) auto
  moreover have "c1 = concat (map put64 ss') @ c2"
    using Suc.IH[OF ss] get_lengths(4)[OF s] Suc.prems(2) by simp
  ultimately show ?case using Suc.prems(1) s ss by auto
qed

lemma length_plan_body: "length (plan_body plan) = plan_header_size + 8 * length (mp_sources plan)"
  by (simp add: plan_body_def plan_magic_def plan_header_size_def)

lemma decode_encode_merge_plan:
  assumes wf: "wf_plan plan"
  shows "decode_merge_plan (encode_merge_plan plan) = Inr plan"
proof -
  let ?n = "length (mp_sources plan)"
  have n: "0 < ?n" "?n \<le> 64" using wf by (auto simp: wf_plan_def)
  have count: "unat (word_of_nat ?n :: u64) = ?n"
    using n by (simp add: unat_of_nat)
  have nz: "(word_of_nat ?n :: u64) \<noteq> 0" using count n by (metis unat_0 less_numeral_extra(3))
  have small: "\<not> (word_of_nat ?n :: u64) > max_sources"
    using count n by (simp add: word_less_nat_alt max_sources_def)
  have len: "length (encode_merge_plan plan) = encoded_size_for ?n"
    by (simp add: encode_merge_plan_def length_plan_body encoded_size_for_def)
  have magic: "take 4 (encode_merge_plan plan) = plan_magic"
    by (simp add: encode_merge_plan_def plan_body_def plan_magic_def)
  have cov: "take (encoded_size_for ?n - 4) (encode_merge_plan plan) = plan_body plan"
    by (simp add: encode_merge_plan_def encoded_size_for_def length_plan_body)
  have rest: "drop 4 (encode_merge_plan plan) = put16 plan_format @ put16 0
     @ put64 (mp_container plan) @ put64 (mp_target plan)
     @ put64 (mm_high (mp_id plan)) @ put64 (mm_low (mp_id plan))
     @ put64 (word_of_nat ?n) @ concat (map put64 (mp_sources plan))
     @ put32 (checksum (plan_body plan))"
    by (simp add: encode_merge_plan_def plan_body_def plan_magic_def)
  have checks: "\<not> adjacent_equal (mp_sources plan)" "sorted (mp_sources plan)"
    "\<not> marker_empty (mp_id plan)" "mp_target plan \<notin> set (mp_sources plan)"
    using wf adjacent_equal_distinct by (auto simp: wf_plan_def)
  have id: "\<lparr>mm_high = mm_high (mp_id plan), mm_low = mm_low (mp_id plan)\<rparr> = mp_id plan"
    by simp
  have long: "\<not> encoded_size_for ?n < plan_header_size + 4"
    by (simp add: encoded_size_for_def)
  show ?thesis
    unfolding decode_merge_plan_def rest
    using checks
    by (simp add: magic len long cov codec_simps count nz small Let_def supersedes_def id)
qed


definition example_plan :: merge_plan where
  "example_plan = \<lparr>mp_container = 0, mp_target = 3, mp_id = \<lparr>mm_high = 1, mm_low = 2\<rparr>,
     mp_sources = [0, 1]\<rparr>"

lemma wf_example_plan: "wf_plan example_plan"
  by (simp add: wf_plan_def example_plan_def marker_empty_def)


lemma decoded_plan:
  assumes dec: "decode_merge_plan bs = Inr plan"
  shows "wf_plan plan \<and> encode_merge_plan plan = bs"
proof -
  have long: "plan_header_size + 4 \<le> length bs" and magic: "take 4 bs = plan_magic"
    using dec by (auto simp: decode_merge_plan_def not_less split: if_splits)
  obtain fm c1 where g1: "get16 (drop 4 bs) = (fm, c1)" by fastforce
  obtain rs c2 where g2: "get16 c1 = (rs, c2)" by fastforce
  obtain a c3 where g3: "get64 c2 = (a, c3)" by fastforce
  obtain b c4 where g4: "get64 c3 = (b, c4)" by fastforce
  obtain h c5 where g5: "get64 c4 = (h, c5)" by fastforce
  obtain l c6 where g6: "get64 c5 = (l, c6)" by fastforce
  obtain n c7 where g7: "get64 c6 = (n, c7)" by fastforce
  obtain ss c8 where g8: "get_sources (unat n) c7 = (ss, c8)" by fastforce
  obtain ck c9 where g9: "get32 c8 = (ck, c9)" by fastforce
  let ?plan = "\<lparr>mp_container = a, mp_target = b, mp_id = \<lparr>mm_high = h, mm_low = l\<rparr>,
    mp_sources = ss\<rparr>"
  have facts: "fm = plan_format" "rs = 0" "n \<noteq> 0" "\<not> n > max_sources"
    "length bs = encoded_size_for (unat n)" "checksum (take (length bs - 4) bs) = ck"
    "\<not> marker_empty \<lparr>mm_high = h, mm_low = l\<rparr>" "b \<notin> set ss" "\<not> adjacent_equal ss" "sorted ss"
    "plan = ?plan"
    using dec by (auto simp: decode_merge_plan_def g1 g2 g3 g4 g5 g6 g7 g8 g9 Let_def supersedes_def
        split: if_splits)
  have len: "length bs = 52 + 8 * unat n"
    using facts(5) by (simp add: encoded_size_for_def plan_header_size_def)
  have lens: "length c1 = 46 + 8 * unat n" "length c2 = 44 + 8 * unat n"
    "length c3 = 36 + 8 * unat n" "length c4 = 28 + 8 * unat n" "length c5 = 20 + 8 * unat n"
    "length c6 = 12 + 8 * unat n" "length c7 = 4 + 8 * unat n" "length c8 = 4" "length c9 = 0"
    using get_lengths(2)[OF g1] get_lengths(2)[OF g2] get_lengths(4)[OF g3] get_lengths(4)[OF g4]
      get_lengths(4)[OF g5] get_lengths(4)[OF g6] get_lengths(4)[OF g7] get_sources_length[OF g8]
      get_lengths(3)[OF g9] len by simp_all
  have body: "drop 4 bs = put16 fm @ put16 rs @ put64 a @ put64 b @ put64 h @ put64 l @ put64 n
      @ concat (map put64 ss) @ put32 ck"
    using put_get(2)[OF _ g1] put_get(2)[OF _ g2] put_get(4)[OF _ g3] put_get(4)[OF _ g4]
      put_get(4)[OF _ g5] put_get(4)[OF _ g6] put_get(4)[OF _ g7] get_sources_sound[OF g8]
      put_get(3)[OF _ g9] lens len by simp
  have ns: "length ss = unat n" using get_sources_length[OF g8] by simp
  then have nw: "word_of_nat (length ss) = n" by simp
  have "bs = plan_magic @ drop 4 bs" using magic by (metis append_take_drop_id)
  then have whole: "bs = plan_body plan @ put32 ck"
    using body facts nw by (simp add: plan_body_def)
  then have "take (length bs - 4) bs = plan_body plan" by simp
  with whole facts have enc: "encode_merge_plan plan = bs" by (simp add: encode_merge_plan_def)
  have "0 < unat n" using facts(3) by (simp add: unat_gt_0)
  moreover have "unat n \<le> 64" using facts(4) by (simp add: not_less word_le_nat_alt max_sources_def)
  ultimately have "wf_plan plan"
    using facts ns adjacent_equal_distinct[OF facts(10)] by (auto simp: wf_plan_def)
  with enc show ?thesis by simp
qed

text \<open>\<open>sidecar_invalid\<close> is all a decoding reports.\<close>

lemma decode_merge_plan_cases: "decode_merge_plan bs = Inl Sidecar_invalid \<or> (\<exists>plan. decode_merge_plan bs = Inr plan)"
  by (simp add: decode_merge_plan_def Let_def case_prod_beta)

lemma encode_merge_plan_length:
  "length (encode_merge_plan plan) = encoded_size_for (length (mp_sources plan))"
  by (simp add: encode_merge_plan_def length_plan_body encoded_size_for_def)

lemma oversized_plan_undecodable:
  assumes "64 < length (mp_sources plan)"
  shows "decode_merge_plan (encode_merge_plan plan) = Inl Sidecar_invalid"
proof (cases "decode_merge_plan (encode_merge_plan plan)")
  case (Inr p)
  from decoded_plan[OF Inr] have "wf_plan p" "length (encode_merge_plan p) = length (encode_merge_plan plan)" by simp_all
  then show ?thesis using assms by (simp add: encode_merge_plan_length encoded_size_for_def wf_plan_def)
qed (use decode_merge_plan_cases[of "encode_merge_plan plan"] in auto)

text \<open>
  C36: a record that decodes is the encoding of a well-formed plan: between one and 64
  distinct sources in order, none of them the target, under a non-empty marker. So recovery
  never retires a target on the strength of a damaged or self-contradictory record.
\<close>

theorem decode_merge_plan_sound:
  assumes "decode_merge_plan bs = Inr plan"
  shows "wf_plan plan \<and> encode_merge_plan plan = bs"
  by (rule decoded_plan[OF assms])

theorem decode_merge_plan_sound_witness:
  "wf_plan (projr (decode_merge_plan (encode_merge_plan example_plan)))"
  using decode_merge_plan_sound[OF decode_encode_merge_plan[OF wf_example_plan]]
    decode_encode_merge_plan[OF wf_example_plan] by simp

end
