(* ===== verification/Disk.thy ===== *)
theory Disk
  imports Capacity Formats Merge_Plan Version_Catalog Names
begin

text \<open>
  The database directory and the file operations of \<open>src/detail/durability.hpp\<close>,
  \<open>src/detail/segment_open.hpp\<close> and \<open>src/detail/version_catalog.hpp\<close>.

  A directory is an association list from file names to files. A file is a mapped segment (a
  \<open>managed_mapped_file\<close> with its named objects), a file of bytes, or something that is not a
  regular file. The objects of Boost are seen through what the code asks of them: a flat map is
  its entries, its bucket count and its growth point; the segment knows its size and how many
  instances of each named object it holds.

  What the operating system, Boost and the entropy source answer is not in the source: it is an
  environment, a record of functions of the number of calls made so far. Every theorem holds
  for all environments unless it says otherwise. \<open>trail\<close> is a history variable, read by no
  operation: the directories there have been, newest first, which are what a process that stops
  at an arbitrary moment can leave behind. The failpoints of the test suite are disarmed.
\<close>

section \<open>Segments and files\<close>

record 'v flat_map =
  tbl_entries :: "(raw_outpoint \<times> 'v) list"
  tbl_buckets :: u64
  tbl_max_load :: u64

record 'v segment =
  seg_size :: u64
  seg_stamp :: "(u64 \<times> bytes) option"
  seg_map :: "(u64 \<times> 'v flat_map) option"
  seg_marker :: "(u64 \<times> merge_marker) option"

datatype 'v disk_file = Segment "'v segment" | Plain bytes | Special

type_synonym 'v directory = "(string \<times> 'v disk_file) list"

datatype directory_state = Directory_absent | Directory_present | Not_a_directory

record 'v disk =
  files :: "'v directory"
  place :: directory_state
  ticks :: nat
  trail :: "'v directory list"

section \<open>The environment\<close>

datatype sync_support = Sync_full | Sync_file_only | Sync_none

datatype 'v emplacing = Placed u64 u64 | Bad_alloc "'v flat_map"

datatype constructing = Constructed u64 u64 | Null_pointer | Throws

datatype locking = Granted | Contended | Refused

record 'v env =
  platform :: sync_support
  local_build :: build
  fails :: "nat \<Rightarrow> bool"
  torn :: "nat \<Rightarrow> bytes"
  entropy :: "nat \<Rightarrow> bytes option"
  space_available :: "nat \<Rightarrow> u64 option"
  free_memory :: "nat \<Rightarrow> u64 option"
  clock :: "nat \<Rightarrow> nat"
  flock_answer :: "nat \<Rightarrow> locking"
  holder_note :: "nat \<Rightarrow> bytes"
  segment_bytes :: "'v segment \<Rightarrow> bytes"
  on_construct :: "nat \<Rightarrow> u64 \<Rightarrow> constructing"
  on_emplace :: "nat \<Rightarrow> 'v flat_map \<Rightarrow> raw_outpoint \<Rightarrow> 'v \<Rightarrow> 'v emplacing"
  on_erase :: "nat \<Rightarrow> 'v flat_map \<Rightarrow> u64"

section \<open>Steps on the directory\<close>

definition tick :: "'v disk \<Rightarrow> 'v disk" where
  "tick d = d\<lparr>ticks := ticks d + 1\<rparr>"

definition lookup_file :: "'v disk \<Rightarrow> string \<Rightarrow> 'v disk_file option" where
  "lookup_file d path = map_of (files d) path"

definition set_files :: "'v directory \<Rightarrow> 'v disk \<Rightarrow> 'v disk" where
  "set_files fs d = d\<lparr>files := fs, trail := fs # trail d\<rparr>"

definition put_file :: "string \<Rightarrow> 'v disk_file \<Rightarrow> 'v disk \<Rightarrow> 'v disk" where
  "put_file path f d = set_files (AList.update path f (files d)) d"

definition drop_file :: "string \<Rightarrow> 'v disk \<Rightarrow> 'v disk" where
  "drop_file path d = (if lookup_file d path = None then d
                       else set_files (AList.delete path (files d)) d)"

definition is_regular :: "'v disk_file \<Rightarrow> bool" where
  "is_regular f = (case f of Special \<Rightarrow> False | _ \<Rightarrow> True)"

definition file_bytes :: "'v env \<Rightarrow> 'v disk_file \<Rightarrow> bytes" where
  "file_bytes E f = (case f of Plain bs \<Rightarrow> bs | Segment s \<Rightarrow> segment_bytes E s | Special \<Rightarrow> [])"

section \<open>Barriers\<close>

definition sync_mapped_region :: "'v env \<Rightarrow> u64 \<Rightarrow> 'v disk \<Rightarrow> unit result \<times> 'v disk" where
  "sync_mapped_region E len d =
    (if len = 0 then (Inr (), d)
     else if platform E = Sync_none then (Inl Sync_unsupported, d)
     else if fails E (ticks d) then (Inl Sync_failed, tick d) else (Inr (), tick d))"

definition sync_file :: "'v env \<Rightarrow> string \<Rightarrow> 'v disk \<Rightarrow> unit result \<times> 'v disk" where
  "sync_file E path d =
    (if platform E = Sync_none then (Inl Sync_unsupported, d)
     else if lookup_file d path = None \<or> fails E (ticks d) then (Inl Sync_failed, tick d)
     else (Inr (), tick d))"

definition sync_directory :: "'v env \<Rightarrow> 'v disk \<Rightarrow> unit result \<times> 'v disk" where
  "sync_directory E d =
    (if platform E \<noteq> Sync_full then (Inl Sync_unsupported, d)
     else if fails E (ticks d) then (Inl Sync_failed, tick d) else (Inr (), tick d))"

text \<open>
  What callers act on, \<open>! synced && synced.error() != sync_unsupported\<close>: the error, if it is one
  that counts.
\<close>

definition refusal :: "unit result \<Rightarrow> error_code option" where
  "refusal r = (case r of Inr _ \<Rightarrow> None
                | Inl e \<Rightarrow> if e = Sync_unsupported then None else Some e)"

section \<open>Names\<close>

definition path_exists :: "'v env \<Rightarrow> string \<Rightarrow> 'v disk \<Rightarrow> bool result \<times> 'v disk" where
  "path_exists E path d =
    (if fails E (ticks d) then (Inl Catalog_unreadable, tick d)
     else (Inr (lookup_file d path \<noteq> None), tick d))"

definition remove_file :: "'v env \<Rightarrow> string \<Rightarrow> 'v disk \<Rightarrow> unit result \<times> 'v disk" where
  "remove_file E path d =
    (if fails E (ticks d) then (Inl Removal_failed, tick d)
     else (Inr (), drop_file path (tick d)))"

text \<open>\<open>fs::remove\<close> with its error ignored, as \<open>discard_temp\<close> and \<open>abandon\<close> call it.\<close>

definition try_remove :: "'v env \<Rightarrow> string \<Rightarrow> 'v disk \<Rightarrow> 'v disk" where
  "try_remove E path d = snd (remove_file E path d)"

definition replace_file_atomically ::
  "'v env \<Rightarrow> string \<Rightarrow> string \<Rightarrow> 'v disk \<Rightarrow> unit result \<times> 'v disk" where
  "replace_file_atomically E src dst d =
    (case lookup_file d src of
       None \<Rightarrow> (Inl Rename_failed, tick d)
     | Some f \<Rightarrow>
         if fails E (ticks d) \<or> lookup_file d dst = Some Special then (Inl Rename_failed, tick d)
         else (Inr (), set_files (AList.update dst f (AList.delete src (files d))) (tick d)))"

definition publish_new_file ::
  "'v env \<Rightarrow> string \<Rightarrow> string \<Rightarrow> 'v disk \<Rightarrow> unit result \<times> 'v disk" where
  "publish_new_file E src dst d =
    (case lookup_file d src of
       None \<Rightarrow> (Inl Rename_failed, tick d)
     | Some f \<Rightarrow>
         if lookup_file d dst \<noteq> None then (Inl Identity_collision, tick d)
         else if fails E (ticks d) then (Inl Rename_failed, tick d)
         else (let linked = put_file dst f (tick d)
               in (Inr (), try_remove E src linked)))"

section \<open>Listing versions\<close>

text \<open>
  One pass of \<open>directory_iterator\<close>: the status of an entry may fail, and so may the step to
  the next. Only regular files with a canonical name are versions.
\<close>

fun scan_entries ::
  "'v env \<Rightarrow> string \<Rightarrow> string \<Rightarrow> 'v directory \<Rightarrow> 'v disk \<Rightarrow> u64 list result \<times> 'v disk" where
  "scan_entries E prefix suffix [] d = (Inr [], d)"
| "scan_entries E prefix suffix ((name, f) # rest) d =
    (if fails E (ticks d) then (Inl Catalog_unreadable, tick d)
     else if fails E (ticks d + 1) then (Inl Catalog_unreadable, tick (tick d))
     else case scan_entries E prefix suffix rest (tick (tick d)) of
            (Inl e, d') \<Rightarrow> (Inl e, d')
          | (Inr vs, d') \<Rightarrow>
              (Inr (if is_regular f
                    then (case parse_canonical_version name prefix suffix of
                            None \<Rightarrow> vs | Some v \<Rightarrow> v # vs)
                    else vs), d'))"

definition enumerate_versions ::
  "'v env \<Rightarrow> string \<Rightarrow> string \<Rightarrow> 'v disk \<Rightarrow> u64 list result \<times> 'v disk" where
  "enumerate_versions E prefix suffix d =
    (if place d = Directory_absent then (Inr [], d)
     else if fails E (ticks d) then (Inl Catalog_unreadable, tick d)
     else if place d \<noteq> Directory_present then (Inl Catalog_unreadable, tick d)
     else if fails E (ticks d + 1) then (Inl Catalog_unreadable, tick (tick d))
     else case scan_entries E prefix suffix (files d) (tick (tick d)) of
            (Inl e, d') \<Rightarrow> (Inl e, d')
          | (Inr vs, d') \<Rightarrow> (Inr (remdups_adj (sort vs)), d'))"

section \<open>Opening a segment\<close>

definition smallest_configured_file :: u64 where
  "smallest_configured_file =
     Min (set (file_sizes @ test_file_sizes @ [reference_file_size, reference_test_file_size]))"

text \<open>
  A file that is not a segment is refused whatever its size: by the size check when it is
  small, and by Boost, which throws, when it is not.
\<close>

definition open_existing_segment ::
  "'v env \<Rightarrow> string \<Rightarrow> 'v disk \<Rightarrow> 'v segment result \<times> 'v disk" where
  "open_existing_segment E path d =
    (case lookup_file d path of
       Some (Segment s) \<Rightarrow>
         if fails E (ticks d) then (Inl File_open_failed, tick d)
         else if seg_size s < smallest_configured_file then (Inl File_open_failed, tick d)
         else if fails E (ticks d + 1) then (Inl File_open_failed, tick (tick d))
         else (Inr s, tick (tick d))
     | _ \<Rightarrow> (Inl File_open_failed, tick d))"

definition find_single_named :: "(u64 \<times> 'b) option \<Rightarrow> 'b result" where
  "find_single_named found =
    (case found of
       None \<Rightarrow> Inl Version_unreadable
     | Some (instances, x) \<Rightarrow> if instances \<noteq> 1 then Inl Version_unreadable else Inr x)"

text \<open>The sequence every opener runs: the segment, then its stamp, then its map.\<close>

definition open_checked ::
  "'v env \<Rightarrow> database_id \<Rightarrow> u32 \<Rightarrow> string \<Rightarrow> u64 \<Rightarrow> 'v disk \<Rightarrow> 'v flat_map result \<times> 'v disk" where
  "open_checked E dbid kind path version d =
    (case open_existing_segment E path d of
       (Inl e, d) \<Rightarrow> (Inl e, d)
     | (Inr s, d) \<Rightarrow>
         (case validate_stamp (seg_stamp s) (local_identity (local_build E) dbid kind version) of
            Inl e \<Rightarrow> (Inl e, d)
          | Inr _ \<Rightarrow> (find_single_named (seg_map s), d)))"

section \<open>What a step leaves alone\<close>

named_theorems touch_intros \<open>which names an operation may change\<close>

definition agrees :: "string set \<Rightarrow> 'v directory \<Rightarrow> 'v directory \<Rightarrow> bool" where
  "agrees P s s' \<longleftrightarrow> (\<forall>n. n \<notin> P \<longrightarrow> map_of s' n = map_of s n)
     \<and> (distinct (map fst s) \<longrightarrow> distinct (map fst s'))"

text \<open>
  \<open>visits Q d d'\<close>: going from \<open>d\<close> to \<open>d'\<close> every directory there was on the way, the last one
  included, satisfies \<open>Q\<close>. \<open>touches P\<close>: none of them differs from the first outside \<open>P\<close>.
\<close>

definition visits :: "('v directory \<Rightarrow> bool) \<Rightarrow> 'v disk \<Rightarrow> 'v disk \<Rightarrow> bool" where
  "visits Q d d' \<longleftrightarrow> place d' = place d
     \<and> (\<exists>new. trail d' = new @ trail d \<and> (\<forall>s \<in> set new. Q s) \<and> files d' = hd (new @ [files d]))"

definition touches :: "string set \<Rightarrow> 'v disk \<Rightarrow> 'v disk \<Rightarrow> bool" where
  "touches P d d' \<longleftrightarrow> visits (agrees P (files d)) d d'"

lemma agrees_refl [simp]: "agrees P s s"
  by (simp add: agrees_def)

lemma agrees_trans: "agrees P s t \<Longrightarrow> agrees P t u \<Longrightarrow> agrees P s u"
  by (simp add: agrees_def)

lemma agrees_mono: "agrees P s t \<Longrightarrow> P \<subseteq> R \<Longrightarrow> agrees R s t"
  by (auto simp: agrees_def)

lemma agrees_map_of: "agrees P s t \<Longrightarrow> n \<notin> P \<Longrightarrow> map_of t n = map_of s n"
  by (simp add: agrees_def)

lemma visits_refl [simp]: "visits Q d d"
  by (simp add: visits_def)

lemma visits_same: "files d' = files d \<Longrightarrow> place d' = place d \<Longrightarrow> trail d' = trail d \<Longrightarrow> visits Q d d'"
  by (simp add: visits_def)

lemma visits_trans:
  assumes "visits Q d d'" "visits Q d' d''"
  shows "visits Q d d''"
proof -
  obtain n1 where n1: "trail d' = n1 @ trail d" "\<forall>s \<in> set n1. Q s" "files d' = hd (n1 @ [files d])"
    using assms(1) by (auto simp: visits_def)
  obtain n2 where n2: "trail d'' = n2 @ trail d'" "\<forall>s \<in> set n2. Q s" "files d'' = hd (n2 @ [files d'])"
    using assms(2) by (auto simp: visits_def)
  have "files d'' = hd ((n2 @ n1) @ [files d])" using n1(3) n2(3) by (cases n2) simp_all
  with n1 n2 assms show ?thesis
    unfolding visits_def by (intro conjI exI[of _ "n2 @ n1"]) auto
qed

lemma visits_mono: "visits Q d d' \<Longrightarrow> (\<And>s. Q s \<Longrightarrow> R s) \<Longrightarrow> visits R d d'"
  by (auto simp: visits_def)

lemma visits_final: "visits Q d d' \<Longrightarrow> Q (files d) \<Longrightarrow> Q (files d')"
proof -
  assume "visits Q d d'" "Q (files d)"
  then obtain new where "\<forall>s \<in> set new. Q s" "files d' = hd (new @ [files d])"
    by (auto simp: visits_def)
  with \<open>Q (files d)\<close> show ?thesis by (cases new) auto
qed

lemma visits_set_files: "Q fs \<Longrightarrow> visits Q d (set_files fs d)"
  by (auto simp: visits_def set_files_def intro: exI[of _ "[fs]"])

lemma touches_refl [touch_intros]: "touches P d d"
  by (simp add: touches_def)

lemma touches_files: "touches P d d' \<Longrightarrow> agrees P (files d) (files d')"
  unfolding touches_def by (drule visits_final) simp_all

lemma touches_trans:
  assumes "touches P d d'" "touches P d' d''"
  shows "touches P d d''"
proof -
  have "visits (agrees P (files d)) d' d''"
    using assms(2)[unfolded touches_def] agrees_trans[OF touches_files[OF assms(1)]]
    by (rule visits_mono)
  with assms(1) show ?thesis unfolding touches_def by (rule visits_trans)
qed

lemma touches_mono: "touches P d d' \<Longrightarrow> P \<subseteq> R \<Longrightarrow> touches R d d'"
  unfolding touches_def by (erule visits_mono) (rule agrees_mono)

lemma touches_visits: "touches P d d' \<Longrightarrow> (\<And>s. agrees P (files d) s \<Longrightarrow> Q s) \<Longrightarrow> visits Q d d'"
  unfolding touches_def by (rule visits_mono)

lemma touches_lookup: "touches P d d' \<Longrightarrow> n \<notin> P \<Longrightarrow> lookup_file d' n = lookup_file d n"
  by (auto dest!: touches_files simp: lookup_file_def agrees_map_of)

lemma touches_distinct:
  "touches P d d' \<Longrightarrow> distinct (map fst (files d)) \<Longrightarrow> distinct (map fst (files d'))"
  by (auto dest!: touches_files simp: agrees_def)

lemma touches_place: "touches P d d' \<Longrightarrow> place d' = place d"
  by (simp add: touches_def visits_def)

subsection \<open>Operations that change no file\<close>

definition same_disk :: "'v disk \<Rightarrow> 'v disk \<Rightarrow> bool" where
  "same_disk d d' \<longleftrightarrow> files d' = files d \<and> place d' = place d \<and> trail d' = trail d"

lemma same_disk_refl [simp]: "same_disk d d"
  by (simp add: same_disk_def)

lemma same_disk_tick [simp]: "same_disk d (tick d') \<longleftrightarrow> same_disk d d'"
  by (simp add: same_disk_def tick_def)

lemma same_disk_trans: "same_disk d d' \<Longrightarrow> same_disk d' d'' \<Longrightarrow> same_disk d d''"
  by (simp add: same_disk_def)

lemma same_disk_touches [touch_intros]: "same_disk d d' \<Longrightarrow> touches P d d'"
  unfolding touches_def by (rule visits_same) (simp_all add: same_disk_def)

lemma same_disk_lookup: "same_disk d d' \<Longrightarrow> lookup_file d' n = lookup_file d n"
  by (simp add: same_disk_def lookup_file_def)

lemma tick_fields [simp, frame_simps]:
  "files (tick d) = files d" "place (tick d) = place d" "trail (tick d) = trail d"
  "ticks (tick d) = ticks d + 1" "lookup_file (tick d) n = lookup_file d n"
  by (simp_all add: tick_def lookup_file_def)

lemma sync_mapped_region_same: "sync_mapped_region E len d = (r, d') \<Longrightarrow> same_disk d d'"
  by (auto simp: sync_mapped_region_def split: if_splits)

lemma sync_file_same: "sync_file E path d = (r, d') \<Longrightarrow> same_disk d d'"
  by (auto simp: sync_file_def split: if_splits)

lemma sync_directory_same: "sync_directory E d = (r, d') \<Longrightarrow> same_disk d d'"
  by (auto simp: sync_directory_def split: if_splits)

lemma path_exists_same: "path_exists E path d = (r, d') \<Longrightarrow> same_disk d d'"
  by (auto simp: path_exists_def split: if_splits)

lemma open_existing_segment_same: "open_existing_segment E path d = (r, d') \<Longrightarrow> same_disk d d'"
  by (auto simp: open_existing_segment_def split: if_splits option.splits disk_file.splits)

lemma open_checked_same: "open_checked E dbid kind path v d = (r, d') \<Longrightarrow> same_disk d d'"
  by (auto simp: open_checked_def split: prod.splits sum.splits dest: open_existing_segment_same)

lemma scan_entries_same: "scan_entries E pre suf es d = (r, d') \<Longrightarrow> same_disk d d'"
proof (induction es arbitrary: d r)
  case (Cons e es)
  obtain n f where "e = (n, f)" by (cases e)
  with Cons show ?case
    by (auto split: if_splits prod.splits sum.splits simp: same_disk_def)
qed simp

lemma enumerate_versions_same: "enumerate_versions E pre suf d = (r, d') \<Longrightarrow> same_disk d d'"
  by (auto simp: enumerate_versions_def same_disk_def split: if_splits prod.splits sum.splits
      dest!: scan_entries_same)

lemmas same_disk_ops = sync_mapped_region_same sync_file_same sync_directory_same path_exists_same
  open_existing_segment_same open_checked_same enumerate_versions_same

subsection \<open>Operations that change the directory\<close>

lemma set_files_fields [simp, frame_simps]:
  "files (set_files fs d) = fs" "place (set_files fs d) = place d" "ticks (set_files fs d) = ticks d"
  "lookup_file (set_files fs d) n = map_of fs n"
  by (simp_all add: set_files_def lookup_file_def)

lemma lookup_put_file [simp, frame_simps]:
  "lookup_file (put_file path f d) n = (if n = path then Some f else lookup_file d n)"
  by (simp add: put_file_def lookup_file_def alist_simps)

lemma lookup_drop_file [simp, frame_simps]:
  "lookup_file (drop_file path d) n = (if n = path then None else lookup_file d n)"
  by (auto simp: drop_file_def lookup_file_def alist_simps)

lemma touches_set_files: "agrees P (files d) fs \<Longrightarrow> touches P d (set_files fs d)"
  unfolding touches_def by (rule visits_set_files)

lemma touches_put_file [touch_intros]: "path \<in> P \<Longrightarrow> touches P d (put_file path f d)"
  unfolding put_file_def
  by (intro touches_set_files) (auto simp: agrees_def alist_simps)

lemma touches_drop_file [touch_intros]: "path \<in> P \<Longrightarrow> touches P d (drop_file path d)"
  unfolding drop_file_def
  by (auto intro!: touches_set_files touches_refl simp: agrees_def alist_simps)

lemma touches_tick [simp]: "touches P (tick d) d' \<longleftrightarrow> touches P d d'" "touches P d (tick d') \<longleftrightarrow> touches P d d'"
  by (simp_all add: touches_def visits_def)

lemma remove_file_touches [touch_intros]:
  "remove_file E path d = (r, d') \<Longrightarrow> path \<in> P \<Longrightarrow> touches P d d'"
  using touches_drop_file[of path P "tick d"]
  by (auto simp: remove_file_def touches_refl split: if_splits)

lemma try_remove_touches [touch_intros]: "path \<in> P \<Longrightarrow> touches P d (try_remove E path d)"
  unfolding try_remove_def by (cases "remove_file E path d") (auto intro: remove_file_touches)

lemma replace_file_touches [touch_intros]:
  "replace_file_atomically E src dst d = (r, d') \<Longrightarrow> src \<in> P \<Longrightarrow> dst \<in> P \<Longrightarrow> touches P d d'"
proof -
  assume op: "replace_file_atomically E src dst d = (r, d')" and P: "src \<in> P" "dst \<in> P"
  have "touches P (tick d) (set_files (AList.update dst f (AList.delete src (files d))) (tick d))" for f
    using P by (intro touches_set_files) (auto simp: agrees_def alist_simps)
  with op show ?thesis
    by (auto simp: replace_file_atomically_def touches_refl split: option.splits if_splits)
qed

lemma publish_new_file_touches [touch_intros]:
  assumes "publish_new_file E src dst d = (r, d')" "src \<in> P" "dst \<in> P"
  shows "touches P d d'"
proof -
  have "touches P d (try_remove E src (put_file dst f (tick d)))" for f
  proof -
    have "touches P d (put_file dst f (tick d))"
      using touches_put_file[of dst P "tick d" f] assms(3) by simp
    then show ?thesis using try_remove_touches[OF assms(2)] by (rule touches_trans)
  qed
  with assms show ?thesis
    by (auto simp: publish_new_file_def Let_def touches_refl split: option.splits if_splits)
qed

lemma remove_file_ok: "remove_file E path d = (Inr u, d') \<Longrightarrow> lookup_file d' path = None"
  by (auto simp: remove_file_def split: if_splits)

lemma remove_file_err: "remove_file E path d = (Inl e, d') \<Longrightarrow> same_disk d d' \<and> e = Removal_failed"
  by (auto simp: remove_file_def split: if_splits)

text \<open>What opening a version file through all three checks establishes about it.\<close>

definition good_segment :: "build \<Rightarrow> database_id \<Rightarrow> u32 \<Rightarrow> u64 \<Rightarrow> 'v segment \<Rightarrow> 'v flat_map \<Rightarrow> bool" where
  "good_segment b dbid kind version s t \<longleftrightarrow> smallest_configured_file \<le> seg_size s
     \<and> validate_stamp (seg_stamp s) (local_identity b dbid kind version) = Inr ()
     \<and> seg_map s = Some (1, t)"

lemma find_single_named_Inr [simp]: "find_single_named found = Inr x \<longleftrightarrow> found = Some (1, x)"
  by (auto simp: find_single_named_def split: option.splits)

lemma open_checked_Inr:
  assumes "open_checked E dbid kind path version d = (Inr t, d')"
  obtains s where "lookup_file d path = Some (Segment s)"
    and "good_segment (local_build E) dbid kind version s t"
  using assms
  by (auto simp: open_checked_def open_existing_segment_def good_segment_def not_less
      split: option.splits disk_file.splits if_splits prod.splits sum.splits)

lemma open_checked_good:
  assumes "lookup_file d path = Some (Segment s)" "good_segment (local_build E) dbid kind version s t"
    and "\<forall>n. \<not> fails E n"
  shows "\<exists>d'. open_checked E dbid kind path version d = (Inr t, d')"
  using assms by (auto simp: open_checked_def open_existing_segment_def good_segment_def not_less)

section \<open>What a listing says\<close>

lemma scan_entries_set:
  "scan_entries E pre suf es d = (Inr vs, d') \<Longrightarrow>
     set vs = {v. \<exists>f. (pre @ fmt05 v @ suf, f) \<in> set es \<and> is_regular f}"
proof (induction es arbitrary: d vs d')
  case (Cons e es)
  obtain n f where e: "e = (n, f)" by (cases e)
  from Cons.prems obtain ws d'' where
    rest: "scan_entries E pre suf es (tick (tick d)) = (Inr ws, d'')"
    and vs: "vs = (if is_regular f then (case parse_canonical_version n pre suf of
                     None \<Rightarrow> ws | Some v \<Rightarrow> v # ws) else ws)"
    by (auto simp: e split: if_splits prod.splits sum.splits)
  note IH = Cons.IH[OF rest]
  show ?case
  proof (cases "parse_canonical_version n pre suf")
    case None
    then have "n \<noteq> pre @ fmt05 v @ suf" for v
      using parse_canonical_version_iff[of n pre suf v] by simp
    with None IH show ?thesis by (auto simp: vs e)
  next
    case (Some v)
    then have "n = pre @ fmt05 v @ suf" by (simp add: parse_canonical_version_iff)
    with Some IH show ?thesis by (auto simp: vs e)
  qed
qed simp

lemma distinct_sorted_remdups_adj: "sorted xs \<Longrightarrow> distinct (remdups_adj xs)"
  by (induction xs rule: remdups_adj.induct) (auto simp: less_le)

lemma enumerated:
  assumes "enumerate_versions E pre suf d = (Inr vs, d')"
    and "place d = Directory_present" and "distinct (map fst (files d))"
  shows "sorted vs \<and> distinct vs
    \<and> set vs = {v. \<exists>f. lookup_file d (pre @ fmt05 v @ suf) = Some f \<and> is_regular f}
    \<and> same_disk d d'"
proof -
  obtain ws d'' where ws: "scan_entries E pre suf (files d) (tick (tick d)) = (Inr ws, d'')"
    and vs: "vs = remdups_adj (sort ws)"
    using assms(1,2) by (auto simp: enumerate_versions_def split: if_splits prod.splits sum.splits)
  have "set ws = {v. \<exists>f. lookup_file d (pre @ fmt05 v @ suf) = Some f \<and> is_regular f}"
    using scan_entries_set[OF ws] assms(3) by (simp add: lookup_file_def)
  then show ?thesis
    using enumerate_versions_same[OF assms(1)]
    by (simp add: vs sorted_remdups_adj distinct_sorted_remdups_adj)
qed

text \<open>
  C32: a listing that succeeds holds, ascending and without repetition, exactly the versions whose
  canonical name is a regular file of the directory: nothing that only looks like one, and
  nothing left out.
\<close>

theorem enumerate_versions_exact:
  assumes "enumerate_versions E pre suf d = (Inr vs, d')"
    and "place d = Directory_present" and "distinct (map fst (files d))"
  shows "sorted vs \<and> distinct vs
    \<and> set vs = {v. \<exists>f. lookup_file d (pre @ fmt05 v @ suf) = Some f \<and> is_regular f}
    \<and> same_disk d d'"
  by (rule enumerated[OF assms])

text \<open>An environment in which nothing fails, for concrete runs.\<close>

definition calm_env :: "'v env" where
  "calm_env = \<lparr>platform = Sync_full, local_build = example_build, fails = \<lambda>_. False,
     torn = \<lambda>_. [], entropy = \<lambda>_. Some (replicate 16 1), space_available = \<lambda>_. Some u64_max,
     free_memory = \<lambda>_. Some u64_max, clock = \<lambda>n. n, flock_answer = \<lambda>_. Granted,
     holder_note = \<lambda>_. [], segment_bytes = \<lambda>_. [],
     on_construct = \<lambda>_ n. Constructed n (max_size_without_rehash n),
     on_emplace = \<lambda>_ t _ _. Placed (tbl_buckets t) (tbl_max_load t),
     on_erase = \<lambda>_ t. tbl_max_load t\<rparr>"

lemma calm_env_simps [simp]:
  "platform calm_env = Sync_full" "local_build calm_env = example_build"
  "fails calm_env n = False" "torn calm_env n = []" "entropy calm_env n = Some (replicate 16 1)"
  "space_available calm_env n = Some u64_max" "free_memory calm_env n = Some u64_max"
  "clock calm_env n = n" "flock_answer calm_env n = Granted" "holder_note calm_env n = []"
  "on_construct calm_env n b = Constructed b (max_size_without_rehash b)"
  "on_emplace calm_env n t k v = Placed (tbl_buckets t) (tbl_max_load t)"
  "on_erase calm_env n t = tbl_max_load t"
  by (simp_all add: calm_env_def)

definition disk_of :: "'v directory \<Rightarrow> 'v disk" where
  "disk_of fs = \<lparr>files = fs, place = Directory_present, ticks = 0, trail = []\<rparr>"

lemma disk_of_fields [simp]:
  "files (disk_of fs) = fs" "place (disk_of fs) = Directory_present" "ticks (disk_of fs) = 0"
  "trail (disk_of fs) = []" "lookup_file (disk_of fs) n = map_of fs n"
  by (simp_all add: disk_of_def lookup_file_def)

theorem enumerate_versions_exact_witness:
  "\<exists>d'. enumerate_versions calm_env (name_prefix 0) ''.dat''
          (disk_of [(data_path 0 3, Plain []), (sidecar_path 0 4, Plain [] :: utxo_value disk_file)])
        = (Inr [3], d') \<and> sorted [3 :: u64]"
proof -
  let ?d = "disk_of [(data_path 0 3, Plain []), (sidecar_path 0 4, Plain [] :: utxo_value disk_file)]"
  have "parse_canonical_version (data_path 0 3) (name_prefix 0) ''.dat'' = Some 3"
    by (simp add: parse_canonical_version_iff data_path_eq)
  moreover have "parse_canonical_version (sidecar_path 0 4) (name_prefix 0) ''.dat'' \<noteq> Some v" for v
    by (auto simp: parse_canonical_version_iff simp flip: data_path_eq)
  then have "parse_canonical_version (sidecar_path 0 4) (name_prefix 0) ''.dat'' = None"
    by (metis not_None_eq)
  ultimately obtain d' where run: "enumerate_versions calm_env (name_prefix 0) ''.dat'' ?d = (Inr [3], d')"
    by (simp add: enumerate_versions_def is_regular_def)
  moreover have "sorted [3 :: u64]"
    using enumerate_versions_exact[OF run] by simp
  ultimately show ?thesis by blast
qed

end
