(* ===== verification/Flat_Map.thy ===== *)
theory Flat_Map
  imports Disk "HOL-Library.Multiset"
begin

text \<open>
  What the store asks of \<open>boost::unordered_flat_map\<close> in a segment: \<open>find\<close>, \<open>emplace\<close>, \<open>erase\<close>,
  \<open>size\<close>, \<open>bucket_count\<close> and \<open>max_load\<close>, as \<open>database_impl\<close> calls them, and
  \<open>snapshot_of\<close> of \<open>src/detail/insert_transition.hpp\<close>. Whether an emplacement finds memory, and
  how bucket count and growth point move, is the environment's; that a key already there is found
  before anything is allocated, and that an insertion adds one entry, is what Boost documents.
  The contract the rest of the development uses is the locale \<open>keyed_bag\<close>.
\<close>

section \<open>Operations\<close>

definition tbl_find :: "'v flat_map \<Rightarrow> raw_outpoint \<Rightarrow> 'v option" where
  "tbl_find t k = map_of (tbl_entries t) k"

definition tbl_size :: "'v flat_map \<Rightarrow> u64" where
  "tbl_size t = word_of_nat (length (tbl_entries t))"

definition tbl_empty :: "u64 \<Rightarrow> u64 \<Rightarrow> 'v flat_map" where
  "tbl_empty buckets max_load = \<lparr>tbl_entries = [], tbl_buckets = buckets, tbl_max_load = max_load\<rparr>"

definition tbl_add :: "u64 \<Rightarrow> u64 \<Rightarrow> raw_outpoint \<Rightarrow> 'v \<Rightarrow> 'v flat_map \<Rightarrow> 'v flat_map" where
  "tbl_add buckets max_load k v t =
     \<lparr>tbl_entries = (k, v) # tbl_entries t, tbl_buckets = buckets, tbl_max_load = max_load\<rparr>"

definition tbl_drop :: "u64 \<Rightarrow> raw_outpoint \<Rightarrow> 'v flat_map \<Rightarrow> 'v flat_map" where
  "tbl_drop max_load k t =
     t\<lparr>tbl_entries := AList.delete k (tbl_entries t), tbl_max_load := max_load\<rparr>"

datatype 'v emplaced = Already_there | Inserted "'v flat_map" | Allocation_failed "'v flat_map"

definition tbl_emplace ::
  "'v env \<Rightarrow> nat \<Rightarrow> raw_outpoint \<Rightarrow> 'v \<Rightarrow> 'v flat_map \<Rightarrow> 'v emplaced" where
  "tbl_emplace E n k v t =
    (if tbl_find t k \<noteq> None then Already_there
     else case on_emplace E n t k v of
            Placed buckets max_load \<Rightarrow> Inserted (tbl_add buckets max_load k v t)
          | Bad_alloc t' \<Rightarrow> Allocation_failed t')"

definition tbl_erase :: "'v env \<Rightarrow> nat \<Rightarrow> raw_outpoint \<Rightarrow> 'v flat_map \<Rightarrow> nat \<times> 'v flat_map" where
  "tbl_erase E n k t =
    (if tbl_find t k = None then (0, t) else (1, tbl_drop (on_erase E n t) k t))"

definition snapshot_of :: "'v flat_map \<Rightarrow> map_snapshot" where
  "snapshot_of t =
     \<lparr>ms_size = tbl_size t, ms_bucket_count = tbl_buckets t, ms_live_max_load = tbl_max_load t\<rparr>"

section \<open>The contract\<close>

text \<open>
  A store of entries under distinct keys, seen as the multiset of its entries: what the clients
  (insertion, deletion, resolution and merging) use of a map.
\<close>

locale keyed_bag =
  fixes ok :: "'s \<Rightarrow> bool"
    and find :: "'s \<Rightarrow> 'k \<Rightarrow> 'v option"
    and add :: "'k \<Rightarrow> 'v \<Rightarrow> 's \<Rightarrow> 's"
    and del :: "'k \<Rightarrow> 's \<Rightarrow> 's"
    and bag :: "'s \<Rightarrow> ('k \<times> 'v) multiset"
  assumes find_bag: "\<And>s k v. ok s \<Longrightarrow> find s k = Some v \<longleftrightarrow> (k, v) \<in># bag s"
    and add_bag: "\<And>s k v. find s k = None \<Longrightarrow> bag (add k v s) = add_mset (k, v) (bag s)"
    and add_ok: "\<And>s k v. ok s \<Longrightarrow> find s k = None \<Longrightarrow> ok (add k v s)"
    and del_bag: "\<And>s k v. ok s \<Longrightarrow> find s k = Some v \<Longrightarrow> bag s = add_mset (k, v) (bag (del k s))"
    and del_ok: "\<And>s k. ok s \<Longrightarrow> ok (del k s)"
    and del_find: "\<And>s k k'. ok s \<Longrightarrow> find (del k s) k' = (if k' = k then None else find s k')"
begin

lemma find_none_bag: "ok s \<Longrightarrow> find s k = None \<longleftrightarrow> k \<notin> fst ` set_mset (bag s)"
  using find_bag[of s k] by (cases "find s k") force+

lemma find_add: "ok s \<Longrightarrow> find s k = None \<Longrightarrow> find (add k v s) k' = (if k' = k then Some v else find s k')"
proof -
  assume ok: "ok s" and new: "find s k = None"
  have absent: "(k, w) \<notin># bag s" for w using find_bag[OF ok, of k w] new by simp
  have "find (add k v s) k' = Some w \<longleftrightarrow> (if k' = k then Some v else find s k') = Some w" for w
    using absent[of w]
    by (auto simp: find_bag[OF add_ok[OF ok new]] find_bag[OF ok] add_bag[OF new])
  then show ?thesis by (metis not_None_eq)
qed

lemma bag_size_del: "ok s \<Longrightarrow> find s k \<noteq> None \<Longrightarrow> size (bag s) = Suc (size (bag (del k s)))"
  using del_bag[of s k] by fastforce

text \<open>Adding entries one after the other, as the target of a merge is filled.\<close>

lemma add_all_bag:
  assumes "ok s" "distinct (map fst es)" "\<forall>k \<in> fst ` set es. find s k = None"
  shows "ok (fold (\<lambda>(k, v). add k v) es s)
    \<and> bag (fold (\<lambda>(k, v). add k v) es s) = bag s + mset es"
  using assms
proof (induction es arbitrary: s)
  case (Cons e es)
  obtain k v where e: "e = (k, v)" by (cases e)
  have new: "find s k = None" using Cons.prems(3) by (simp add: e)
  have "\<forall>k' \<in> fst ` set es. find (add k v s) k' = None"
    using Cons.prems find_add[OF Cons.prems(1) new] by (auto simp: e)
  with Cons.IH[OF add_ok[OF Cons.prems(1) new]] Cons.prems(2) show ?case
    by (simp add: e add_bag[OF new])
qed simp

end

definition tbl_ok :: "'v flat_map \<Rightarrow> bool" where
  "tbl_ok t \<longleftrightarrow> distinct (map fst (tbl_entries t))"

definition tbl_bag :: "'v flat_map \<Rightarrow> (raw_outpoint \<times> 'v) multiset" where
  "tbl_bag t = mset (tbl_entries t)"

lemma mset_delete:
  "distinct (map fst al) \<Longrightarrow> map_of al k = Some v \<Longrightarrow> mset al = add_mset (k, v) (mset (AList.delete k al))"
proof (induction al)
  case (Cons e al)
  show ?case
  proof (cases "fst e = k")
    case True
    with Cons.prems have "AList.delete k al = al" by (auto simp: delete_id image_iff)
    with True Cons.prems show ?thesis by (cases e) auto
  next
    case False
    with Cons show ?thesis by (cases e) auto
  qed
qed simp

interpretation table: keyed_bag tbl_ok tbl_find "tbl_add buckets max_load" "tbl_drop max_load" tbl_bag
  for buckets max_load
proof
  show "tbl_find t k = Some v \<longleftrightarrow> (k, v) \<in># tbl_bag t" if "tbl_ok t" for t :: "'v flat_map" and k v
    using that by (simp add: tbl_find_def tbl_bag_def tbl_ok_def)
  show "tbl_ok (tbl_add buckets max_load k v t)" if "tbl_ok t" "tbl_find t k = None"
    for t :: "'v flat_map" and k v
    using that by (simp add: tbl_ok_def tbl_add_def tbl_find_def map_of_eq_None_iff_fst)
  show "tbl_bag t = add_mset (k, v) (tbl_bag (tbl_drop max_load k t))"
    if "tbl_ok t" "tbl_find t k = Some v" for t :: "'v flat_map" and k v
    using that by (simp add: tbl_ok_def tbl_bag_def tbl_drop_def tbl_find_def mset_delete)
qed (simp_all add: tbl_add_def tbl_drop_def tbl_bag_def tbl_ok_def tbl_find_def alist_simps)

lemma tbl_ok_empty [simp]: "tbl_ok (tbl_empty b m)"
  by (simp add: tbl_ok_def tbl_empty_def)

lemma tbl_empty_simps [simp]: "tbl_bag (tbl_empty b m) = {#}" "tbl_find (tbl_empty b m) k = None"
  "tbl_entries (tbl_empty b m) = []"
  by (simp_all add: tbl_bag_def tbl_empty_def tbl_find_def)

lemma tbl_size_bag: "tbl_size t = word_of_nat (size (tbl_bag t))"
  by (simp add: tbl_size_def tbl_bag_def)

text \<open>Boost's strong guarantee, the hypothesis of the properties that need it.\<close>

definition strong_guarantee :: "'v env \<Rightarrow> bool" where
  "strong_guarantee E \<longleftrightarrow> (\<forall>n t k v t'. on_emplace E n t k v = Bad_alloc t' \<longrightarrow> t' = t)"

lemma tbl_emplace_cases:
  assumes "tbl_ok t"
  shows "tbl_emplace E n k v t = Already_there \<longleftrightarrow> tbl_find t k \<noteq> None"
    and "tbl_emplace E n k v t = Inserted t' \<Longrightarrow>
      tbl_ok t' \<and> tbl_bag t' = add_mset (k, v) (tbl_bag t) \<and> tbl_find t k = None"
    and "tbl_emplace E n k v t = Allocation_failed t' \<Longrightarrow> strong_guarantee E \<Longrightarrow>
      t' = t \<and> tbl_find t k = None"
  using assms table.add_ok[OF assms] table.add_bag[of t k]
  by (auto simp: tbl_emplace_def strong_guarantee_def split: emplacing.splits if_splits)

end
