(* ===== verification/File_Cache.thy ===== *)
theory File_Cache
  imports Disk
begin

text \<open>
  The LRU cache of mapped historical version files, \<open>src/detail/file_cache.hpp\<close>. A cached file is
  a mapping of the file at its name; under the directory lock a name that is mapped stays bound to
  the same file, so a mapping is read through the name and the entry keeps only the bookkeeping.
  \<open>get_or_open_file\<close> throws where a file cannot be used: \<open>None\<close> here. A returned flag says
  whether the file was already mapped.
\<close>

type_synonym file_key = "u64 \<times> u64"

record cached_file =
  cf_last_used :: nat
  cf_access_count :: u64
  cf_is_pinned :: bool

record file_cache =
  fc_cache :: "(file_key \<times> cached_file) list"
  fc_access_frequency :: "(file_key \<times> u64) list"
  fc_database_id :: database_id
  fc_max_cached_files :: u64
  fc_gets :: u64
  fc_hits :: u64
  fc_evictions :: u64

definition new_file_cache :: "database_id \<Rightarrow> u64 \<Rightarrow> file_cache" where
  "new_file_cache dbid max_size =
    \<lparr>fc_cache = [], fc_access_frequency = [], fc_database_id = dbid,
     fc_max_cached_files = max_size, fc_gets = 0, fc_hits = 0, fc_evictions = 0\<rparr>"

section \<open>Eviction\<close>

text \<open>The comparison \<open>evict_lru\<close> hands to \<open>min_element\<close>, which keeps the first of equal elements.\<close>

definition lru_before :: "cached_file \<Rightarrow> cached_file \<Rightarrow> bool" where
  "lru_before a b =
    (if cf_is_pinned a \<noteq> cf_is_pinned b then \<not> cf_is_pinned a
     else cf_last_used a < cf_last_used b)"

fun lru_element :: "file_key \<times> cached_file \<Rightarrow> (file_key \<times> cached_file) list \<Rightarrow> file_key \<times> cached_file" where
  "lru_element best [] = best"
| "lru_element best (e # es) = lru_element (if lru_before (snd e) (snd best) then e else best) es"

definition evict_lru :: "file_cache \<Rightarrow> file_cache" where
  "evict_lru c =
    (case fc_cache c of
       [] \<Rightarrow> c
     | e # es \<Rightarrow>
         (let lru = lru_element e es
          in if \<not> cf_is_pinned (snd lru)
             then c\<lparr>fc_cache := AList.delete (fst lru) (fc_cache c), fc_evictions := fc_evictions c + 1\<rparr>
             else c))"

section \<open>Opening\<close>

definition kind_of_index :: "u64 \<Rightarrow> u32" where
  "kind_of_index index =
     (if index = reference_sentinel_index then reference_container_kind else ucast index)"

definition count_access :: "file_key \<Rightarrow> file_cache \<Rightarrow> file_cache" where
  "count_access key c =
    c\<lparr>fc_gets := fc_gets c + 1,
      fc_access_frequency := AList.update key
        ((case map_of (fc_access_frequency c) key of None \<Rightarrow> 0 | Some n \<Rightarrow> n) + 1)
        (fc_access_frequency c)\<rparr>"

text \<open>The part the full and the reference variant share, statement for statement.\<close>

definition get_or_open ::
  "'v env \<Rightarrow> u64 \<Rightarrow> u64 \<Rightarrow> file_cache \<times> 'v disk \<Rightarrow> bool option \<times> file_cache \<times> 'v disk" where
  "get_or_open E index version st =
    (let (c, d) = st;
         key = (index, version);
         c = count_access key c;
         now = clock E (ticks d);
         d = tick d
     in case map_of (fc_cache c) key of
          Some cf \<Rightarrow>
            (Some True,
             c\<lparr>fc_cache := AList.update key
                 (cf\<lparr>cf_last_used := now, cf_access_count := cf_access_count cf + 1\<rparr>) (fc_cache c),
               fc_hits := fc_hits c + 1\<rparr>, d)
        | None \<Rightarrow>
            (let c = (if unat (fc_max_cached_files c) \<le> length (fc_cache c) then evict_lru c else c)
             in case open_checked E (fc_database_id c) (kind_of_index index)
                       (data_path index version) version d of
                  (Inl _, d) \<Rightarrow> (None, c, d)
                | (Inr _, d) \<Rightarrow>
                    (Some False,
                     c\<lparr>fc_cache := AList.update key
                         \<lparr>cf_last_used = now, cf_access_count = 1, cf_is_pinned = False\<rparr>
                         (fc_cache c)\<rparr>, d)))"

definition get_or_open_file ::
  "'v env \<Rightarrow> u64 \<Rightarrow> u64 \<Rightarrow> file_cache \<times> 'v disk \<Rightarrow> bool option \<times> file_cache \<times> 'v disk" where
  "get_or_open_file E index version st =
    (if index = reference_sentinel_index then (None, st) else get_or_open E index version st)"

definition get_or_open_reference_file ::
  "'v env \<Rightarrow> u64 \<Rightarrow> file_cache \<times> 'v disk \<Rightarrow> bool option \<times> file_cache \<times> 'v disk" where
  "get_or_open_reference_file E version st = get_or_open E reference_sentinel_index version st"

section \<open>The rest of the interface\<close>

definition set_cache_size :: "u64 \<Rightarrow> file_cache \<Rightarrow> file_cache" where
  "set_cache_size n c = c\<lparr>fc_max_cached_files := n\<rparr>"

definition clear_cache :: "file_cache \<Rightarrow> file_cache" where
  "clear_cache c = c\<lparr>fc_cache := []\<rparr>"

definition get_cached_files :: "file_cache \<Rightarrow> file_key list" where
  "get_cached_files c = map fst (fc_cache c)"

definition is_cached :: "u64 \<Rightarrow> u64 \<Rightarrow> file_cache \<Rightarrow> bool" where
  "is_cached index version c \<longleftrightarrow> map_of (fc_cache c) (index, version) \<noteq> None"

text \<open>\<open>max_element\<close> keeps the first of equal elements.\<close>

fun most_recent :: "file_key \<times> cached_file \<Rightarrow> (file_key \<times> cached_file) list \<Rightarrow> file_key \<times> cached_file" where
  "most_recent best [] = best"
| "most_recent best (e # es) =
     most_recent (if cf_last_used (snd best) < cf_last_used (snd e) then e else best) es"

definition get_most_recent_cached_file :: "file_cache \<Rightarrow> file_key option" where
  "get_most_recent_cached_file c =
    (case fc_cache c of [] \<Rightarrow> None | e # es \<Rightarrow> Some (fst (most_recent e es)))"

definition mapped_length :: "'v disk \<Rightarrow> string \<Rightarrow> u64" where
  "mapped_length d path = (case lookup_file d path of Some (Segment s) \<Rightarrow> seg_size s | _ \<Rightarrow> 0)"

fun sync_mappings :: "'v env \<Rightarrow> file_key list \<Rightarrow> 'v disk \<Rightarrow> unit result \<times> 'v disk" where
  "sync_mappings E [] d = (Inr (), d)"
| "sync_mappings E ((index, version) # keys) d =
    (case sync_mapped_region E (mapped_length d (data_path index version)) d of (synced, d) \<Rightarrow>
       (case refusal synced of
          Some e \<Rightarrow> (Inl e, d)
        | None \<Rightarrow> sync_mappings E keys d))"

section \<open>Lemmas\<close>

lemma lru_element_in: "lru_element best es = best \<or> lru_element best es \<in> set es"
  by (induction es arbitrary: best) auto

lemma lru_element_least:
  "\<forall>e \<in> set es \<union> {best}. \<not> lru_before (snd e) (snd (lru_element best es))"
proof (induction es arbitrary: best)
  case Nil
  then show ?case by (simp add: lru_before_def)
next
  case (Cons x es)
  let ?b = "if lru_before (snd x) (snd best) then x else best"
  have IH: "\<forall>e \<in> set es \<union> {?b}. \<not> lru_before (snd e) (snd (lru_element ?b es))"
    by (rule Cons.IH)
  have trans: "lru_before a r \<Longrightarrow> \<not> lru_before a b \<Longrightarrow> lru_before b r" for a b r
    by (auto simp: lru_before_def split: if_splits)
  have "\<not> lru_before (snd x) (snd ?b)" "\<not> lru_before (snd best) (snd ?b)"
    by (auto simp: lru_before_def split: if_splits)
  with IH trans have "\<not> lru_before (snd x) (snd (lru_element ?b es))"
    "\<not> lru_before (snd best) (snd (lru_element ?b es))"
    by blast+
  with IH show ?case by simp
qed

definition cache_inv :: "file_cache \<Rightarrow> bool" where
  "cache_inv c \<longleftrightarrow> distinct (map fst (fc_cache c)) \<and> (\<forall>e \<in> set (fc_cache c). \<not> cf_is_pinned (snd e))"

lemma cache_inv_new [wf_intros]: "cache_inv (new_file_cache dbid n)"
  by (simp add: cache_inv_def new_file_cache_def)

lemma count_access_fields [simp, frame_simps]:
  "fc_cache (count_access key c) = fc_cache c"
  "fc_max_cached_files (count_access key c) = fc_max_cached_files c"
  "fc_database_id (count_access key c) = fc_database_id c"
  by (simp_all add: count_access_def)

lemma evict_lru_fields [simp, frame_simps]:
  "fc_max_cached_files (evict_lru c) = fc_max_cached_files c"
  "fc_database_id (evict_lru c) = fc_database_id c"
  by (auto simp: evict_lru_def Let_def split: list.splits)

lemma length_delete: "distinct (map fst al) \<Longrightarrow> k \<in> fst ` set al \<Longrightarrow> length (AList.delete k al) = length al - 1"
proof (induction al)
  case (Cons e al)
  show ?case
  proof (cases "fst e = k")
    case True
    with Cons.prems have "k \<notin> fst ` set al" by auto
    with True show ?thesis by (cases e) (simp add: delete_id)
  next
    case False
    with Cons show ?thesis by (cases e, cases al) auto
  qed
qed simp

lemma length_update:
  "length (AList.update k v al) = (if k \<in> fst ` set al then length al else length al + 1)"
  by (induction al) auto

lemma set_update_subset: "set (AList.update k v al) \<subseteq> insert (k, v) (set al)"
  by (induction al) auto

lemma set_delete_subset: "set (AList.delete k al) \<subseteq> set al"
  by (induction al) auto

lemma evict_lru_spec:
  assumes inv: "cache_inv c" and ne: "fc_cache c \<noteq> []"
  obtains k cf where "(k, cf) \<in> set (fc_cache c)"
    and "\<forall>e \<in> set (fc_cache c). cf_last_used cf \<le> cf_last_used (snd e)"
    and "fc_cache (evict_lru c) = AList.delete k (fc_cache c)"
    and "length (fc_cache (evict_lru c)) = length (fc_cache c) - 1"
proof -
  obtain e es where c: "fc_cache c = e # es" using ne by (cases "fc_cache c") auto
  let ?l = "lru_element e es"
  have inl: "?l \<in> set (fc_cache c)" using lru_element_in[of e es] c by auto
  have unpinned: "\<forall>x \<in> set (fc_cache c). \<not> cf_is_pinned (snd x)" using inv by (simp add: cache_inv_def)
  have "\<not> cf_is_pinned (snd ?l)" using unpinned inl by blast
  then have ev: "fc_cache (evict_lru c) = AList.delete (fst ?l) (fc_cache c)"
    by (simp add: evict_lru_def c Let_def)
  have least: "\<forall>x \<in> set (fc_cache c). cf_last_used (snd ?l) \<le> cf_last_used (snd x)"
    using lru_element_least[of es e] unpinned inl c by (auto simp: lru_before_def not_less)
  have "length (fc_cache (evict_lru c)) = length (fc_cache c) - 1"
    unfolding ev using inv inl by (intro length_delete) (auto simp: cache_inv_def)
  with that[of "fst ?l" "snd ?l"] inl ev least show ?thesis by simp
qed

lemma evict_lru_subset: "set (fc_cache (evict_lru c)) \<subseteq> set (fc_cache c)"
proof (cases "fc_cache c")
  case (Cons e es)
  then show ?thesis
    using set_delete_subset[of "fst (lru_element e es)" "fc_cache c"]
    by (simp add: evict_lru_def Let_def)
qed (simp add: evict_lru_def)

lemma evict_lru_distinct:
  "distinct (map fst (fc_cache c)) \<Longrightarrow> distinct (map fst (fc_cache (evict_lru c)))"
proof (cases "fc_cache c")
  case (Cons e es)
  moreover assume "distinct (map fst (fc_cache c))"
  ultimately show ?thesis
    using distinct_delete[of "fc_cache c" "fst (lru_element e es)"]
    by (simp add: evict_lru_def Let_def)
qed (simp add: evict_lru_def)

lemma evict_lru_inv [wf_intros]: "cache_inv c \<Longrightarrow> cache_inv (evict_lru c)"
  using evict_lru_subset[of c] evict_lru_distinct[of c] by (auto simp: cache_inv_def)

section \<open>The contract of a lookup\<close>

definition cached_keys :: "file_cache \<Rightarrow> file_key set" where
  "cached_keys c = fst ` set (fc_cache c)"

text \<open>Room made for one more file: never more than one, and the least recently used.\<close>

definition make_room :: "file_cache \<Rightarrow> file_cache" where
  "make_room c = (if unat (fc_max_cached_files c) \<le> length (fc_cache c) then evict_lru c else c)"

lemma make_room_spec:
  assumes inv: "cache_inv c"
  shows "cache_inv (make_room c)"
    and "cached_keys (make_room c) \<subseteq> cached_keys c"
    and "length (fc_cache (make_room c)) + 1
      \<le> max (length (fc_cache c)) (max 1 (unat (fc_max_cached_files c)))"
    and "(k, cf) \<in> set (fc_cache c) \<Longrightarrow> k \<notin> cached_keys (make_room c)
      \<Longrightarrow> \<forall>e \<in> set (fc_cache c). cf_last_used cf \<le> cf_last_used (snd e)"
proof -
  show "cache_inv (make_room c)" using inv by (simp add: make_room_def wf_intros)
  show "cached_keys (make_room c) \<subseteq> cached_keys c"
    using evict_lru_subset[of c] by (auto simp: make_room_def cached_keys_def)
  show "length (fc_cache (make_room c)) + 1
      \<le> max (length (fc_cache c)) (max 1 (unat (fc_max_cached_files c)))"
  proof (cases "fc_cache c = []")
    case True
    then show ?thesis by (simp add: make_room_def evict_lru_def)
  next
    case False
    then obtain k cf where "length (fc_cache (evict_lru c)) = length (fc_cache c) - 1"
      using evict_lru_spec[OF inv] by metis
    with False show ?thesis by (cases "fc_cache c") (auto simp: make_room_def)
  qed
  show "\<forall>e \<in> set (fc_cache c). cf_last_used cf \<le> cf_last_used (snd e)"
    if here: "(k, cf) \<in> set (fc_cache c)" and gone: "k \<notin> cached_keys (make_room c)"
  proof -
    have ne: "fc_cache c \<noteq> []" using here by auto
    obtain k' cf' where l: "(k', cf') \<in> set (fc_cache c)"
      "\<forall>e \<in> set (fc_cache c). cf_last_used cf' \<le> cf_last_used (snd e)"
      "fc_cache (evict_lru c) = AList.delete k' (fc_cache c)"
      using evict_lru_spec[OF inv ne] by metis
    have "make_room c = evict_lru c"
      using gone here by (force simp: make_room_def cached_keys_def image_iff)
    with gone l(3) have "map_of (AList.delete k' (fc_cache c)) k = None"
      by (simp add: cached_keys_def map_of_eq_None_iff_fst)
    moreover have "map_of (fc_cache c) k = Some cf"
      using inv here by (simp add: cache_inv_def)
    ultimately have "k = k'" by (auto simp: alist_simps split: if_splits)
    with l(1) here inv have "cf = cf'" by (auto simp: cache_inv_def dest: eq_key_imp_eq_value)
    with l(2) show ?thesis by simp
  qed
qed

lemma get_or_open_spec:
  assumes inv: "cache_inv c" and run: "get_or_open E index version (c, d) = (r, c', d')"
  shows "cache_inv c' \<and> same_disk d d'
    \<and> length (fc_cache c') \<le> max (length (fc_cache c)) (max 1 (unat (fc_max_cached_files c)))
    \<and> (r = Some True \<longleftrightarrow> (index, version) \<in> cached_keys c)
    \<and> (r = Some False \<longrightarrow> (\<exists>s t. lookup_file d (data_path index version) = Some (Segment s)
          \<and> good_segment (local_build E) (fc_database_id c) (kind_of_index index) version s t))
    \<and> (r = None \<longrightarrow> cached_keys c' \<subseteq> cached_keys c)
    \<and> (r \<noteq> None \<longrightarrow> (index, version) \<in> cached_keys c'
          \<and> cached_keys c' \<subseteq> insert (index, version) (cached_keys c))
    \<and> (\<forall>k cf. (k, cf) \<in> set (fc_cache c) \<and> k \<notin> cached_keys c' \<longrightarrow>
          (\<forall>e \<in> set (fc_cache c). cf_last_used cf \<le> cf_last_used (snd e)))"
proof -
  let ?key = "(index, version)" and ?c1 = "count_access (index, version) c"
  have inv1: "cache_inv ?c1" using inv by (simp add: cache_inv_def)
  have keys1: "cached_keys ?c1 = cached_keys c" by (simp add: cached_keys_def)
  show ?thesis
  proof (cases "map_of (fc_cache c) ?key")
    case (Some cf)
    then have k: "?key \<in> cached_keys c" by (force simp: cached_keys_def dest: map_of_SomeD)
    let ?cf = "cf\<lparr>cf_last_used := clock E (ticks d), cf_access_count := cf_access_count cf + 1\<rparr>"
    have r: "r = Some True" "d' = tick d" and c': "fc_cache c' = AList.update ?key ?cf (fc_cache c)"
      using run Some by (auto simp: get_or_open_def Let_def)
    have "cached_keys c' = cached_keys c"
      using k by (auto simp: cached_keys_def c' dom_map_of_conv_image_fst[symmetric] alist_simps)
    moreover have "length (fc_cache c') = length (fc_cache c)"
      using k by (simp add: c' length_update cached_keys_def)
    moreover have "\<not> cf_is_pinned cf" using inv Some by (force simp: cache_inv_def dest: map_of_SomeD)
    then have "cache_inv c'"
      using inv set_update_subset[of ?key ?cf "fc_cache c"]
      by (auto simp: cache_inv_def c' distinct_update)
    ultimately show ?thesis using r k by (auto simp: cached_keys_def image_iff)
  next
    case None
    then have k: "?key \<notin> cached_keys c" by (simp add: cached_keys_def map_of_eq_None_iff_fst)
    let ?c2 = "make_room ?c1"
    note room = make_room_spec[OF inv1, unfolded keys1 count_access_fields]
    have lru: "\<forall>k cf. (k, cf) \<in> set (fc_cache c) \<and> k \<notin> cached_keys ?c2 \<longrightarrow>
        (\<forall>e \<in> set (fc_cache c). cf_last_used cf \<le> cf_last_used (snd e))"
      using room(4) by blast
    obtain out d2 where o: "open_checked E (fc_database_id ?c2) (kind_of_index index)
        (data_path index version) version (tick d) = (out, d2)" by fastforce
    have id2: "fc_database_id ?c2 = fc_database_id c" by (simp add: make_room_def)
    have same: "same_disk d d2" using open_checked_same[OF o] by (simp add: same_disk_def)
    show ?thesis
    proof (cases out)
      case (Inl e)
      then have "r = None" "c' = ?c2" "d' = d2"
        using run None o by (auto simp: get_or_open_def Let_def make_room_def)
      with room(1-3) lru same k show ?thesis by simp
    next
      case (Inr t)
      let ?cf = "\<lparr>cf_last_used = clock E (ticks d), cf_access_count = 1, cf_is_pinned = False\<rparr>"
      have r: "r = Some False" "d' = d2" and c': "fc_cache c' = AList.update ?key ?cf (fc_cache ?c2)"
        using run None o Inr by (auto simp: get_or_open_def Let_def make_room_def)
      obtain s where s: "lookup_file d (data_path index version) = Some (Segment s)"
        "good_segment (local_build E) (fc_database_id c) (kind_of_index index) version s t"
        using open_checked_Inr[OF o[unfolded Inr]] by (auto simp: id2)
      have k2: "?key \<notin> cached_keys ?c2" using k room(2) by blast
      have keys: "cached_keys c' = insert ?key (cached_keys ?c2)"
        by (auto simp: cached_keys_def c' dom_map_of_conv_image_fst[symmetric] alist_simps)
      have "length (fc_cache c') = length (fc_cache ?c2) + 1"
        using k2 by (simp add: c' length_update cached_keys_def)
      moreover have "cache_inv c'"
        using room(1) set_update_subset[of ?key ?cf "fc_cache ?c2"]
        by (auto simp: cache_inv_def c' distinct_update)
      moreover have "\<forall>k cf. (k, cf) \<in> set (fc_cache c) \<and> k \<notin> cached_keys c' \<longrightarrow>
          (\<forall>e \<in> set (fc_cache c). cf_last_used cf \<le> cf_last_used (snd e))"
        using lru keys by blast
      moreover have "cached_keys c' \<subseteq> insert ?key (cached_keys c)" using keys room(2) by blast
      ultimately show ?thesis
        using r s room(3) same k keys by auto
    qed
  qed
qed


definition one_cached :: file_cache where
  "one_cached = (new_file_cache (replicate 16 1) 1)
     \<lparr>fc_cache := [((0, 3), \<lparr>cf_last_used = 0, cf_access_count = 1, cf_is_pinned = False\<rparr>)]\<rparr>"


end
