(* ===== verification/Durable_Files.thy ===== *)
theory Durable_Files
  imports Disk File_Metadata
begin

text \<open>
  The three small records a database keeps beside its version files and how each is published:
  \<open>write_metadata_file\<close> and \<open>read_metadata_file\<close> (\<open>src/detail/file_metadata_io.hpp\<close>),
  \<open>write_merge_sidecar\<close> and \<open>read_merge_sidecar\<close> (\<open>src/detail/merge_sidecar.hpp\<close>), and
  \<open>save_config_to_disk\<close> (\<open>src/database_impl.cpp\<close>) with \<open>read_config_file\<close>
  (\<open>src/detail/store_config_io.hpp\<close>). Each is written to a temporary name, made durable and
  renamed into place, so at every moment the name holds the old record or the whole new one.
\<close>

section \<open>Writing through a stream\<close>

text \<open>
  \<open>std::ofstream(temp, binary | trunc)\<close>, \<open>write\<close>, \<open>close\<close>: the open may be refused, and a write
  or a close that fails leaves part of the bytes behind.
\<close>

datatype stream_outcome = Stream_refused | Stream_failed | Stream_written

definition write_stream :: "'v env \<Rightarrow> string \<Rightarrow> bytes \<Rightarrow> 'v disk \<Rightarrow> stream_outcome \<times> 'v disk" where
  "write_stream E path bs d =
    (if fails E (ticks d) \<or> lookup_file d path = Some Special then (Stream_refused, tick d)
     else
      (let opened = put_file path (Plain []) (tick d)
       in if fails E (ticks opened)
          then (Stream_failed, put_file path (Plain (torn E (ticks opened))) (tick opened))
          else if fails E (ticks opened + 1)
          then (Stream_failed, put_file path (Plain (torn E (ticks opened + 1))) (tick (tick opened)))
          else (Stream_written, put_file path (Plain bs) (tick (tick opened)))))"

section \<open>File metadata\<close>

datatype metadata_sync = Publish_only | Durable

definition write_metadata_file ::
  "'v env \<Rightarrow> string \<Rightarrow> file_metadata \<Rightarrow> metadata_sync \<Rightarrow> 'v disk \<Rightarrow> unit result \<times> 'v disk" where
  "write_metadata_file E path meta policy d =
    (let temp = tmp_path path in
     case write_stream E temp (encode_metadata meta) d of
       (Stream_refused, d) \<Rightarrow> (Inl Metadata_write_failed, d)
     | (Stream_failed, d) \<Rightarrow> (Inl Metadata_write_failed, try_remove E temp d)
     | (Stream_written, d) \<Rightarrow>
       (case (if policy = Durable then sync_file E temp d else (Inr (), d)) of (synced, d) \<Rightarrow>
         if refusal synced \<noteq> None then (Inl Metadata_write_failed, try_remove E temp d)
         else
          (case replace_file_atomically E temp path d of
             (Inl _, d) \<Rightarrow> (Inl Metadata_write_failed, try_remove E temp d)
           | (Inr _, d) \<Rightarrow>
             (case (if policy = Durable then sync_directory E d else (Inr (), d)) of (synced, d) \<Rightarrow>
                if refusal synced = None then (Inr (), d) else (Inl Sync_failed, d)))))"

definition read_metadata_file ::
  "'v env \<Rightarrow> string \<Rightarrow> 'v disk \<Rightarrow> (metadata_read_error + file_metadata) \<times> 'v disk" where
  "read_metadata_file E path d =
    (case lookup_file d path of
       None \<Rightarrow> (Inl (if fails E (ticks d) then Unreadable else Absent), tick d)
     | Some f \<Rightarrow>
       (if fails E (ticks d) \<or> \<not> is_regular f then (Inl Unreadable, tick d)
        else if fails E (ticks d + 1) \<or> fails E (ticks d + 2) then (Inl Unreadable, tick (tick d))
        else
         (let bs = file_bytes E f; d' = tick (tick (tick (tick d)))
          in if fails E (ticks d + 3) \<or> length bs < length metadata_magic then (Inl Malformed, d')
             else if take 4 bs \<noteq> metadata_magic then (Inl Foreign, d')
             else if length bs \<noteq> metadata_encoded_size then (Inl Malformed, d')
             else if fails E (ticks d + 4) then (Inl Unreadable, tick d')
             else (decode_metadata bs, tick d'))))"

section \<open>The merge record\<close>

record sidecar_publication =
  named :: bool
  durable :: bool

definition write_merge_sidecar ::
  "'v env \<Rightarrow> string \<Rightarrow> merge_plan \<Rightarrow> 'v disk \<Rightarrow> sidecar_publication result \<times> 'v disk" where
  "write_merge_sidecar E path plan d =
    (let temp = tmp_path path in
     case write_stream E temp (encode_merge_plan plan) d of
       (Stream_refused, d) \<Rightarrow> (Inl Metadata_write_failed, d)
     | (Stream_failed, d) \<Rightarrow> (Inl Metadata_write_failed, try_remove E temp d)
     | (Stream_written, d) \<Rightarrow>
       (case sync_file E temp d of (synced, d) \<Rightarrow>
         case refusal synced of
           Some e \<Rightarrow> (Inl e, try_remove E temp d)
         | None \<Rightarrow>
          (case replace_file_atomically E temp path d of
             (Inl e, d) \<Rightarrow> (Inl e, try_remove E temp d)
           | (Inr _, d) \<Rightarrow>
             (case sync_directory E d of (synced, d) \<Rightarrow>
                (Inr \<lparr>named = True, durable = (refusal synced = None)\<rparr>, d)))))"

definition read_merge_sidecar ::
  "'v env \<Rightarrow> string \<Rightarrow> 'v disk \<Rightarrow> (sidecar_read_error + merge_plan) \<times> 'v disk" where
  "read_merge_sidecar E path d =
    (case lookup_file d path of
       None \<Rightarrow> (Inl (if fails E (ticks d) then Sidecar_unreadable else Sidecar_absent), tick d)
     | Some f \<Rightarrow>
       (if fails E (ticks d) \<or> \<not> is_regular f then (Inl Sidecar_unreadable, tick d)
        else if fails E (ticks d + 1) then (Inl Sidecar_unreadable, tick (tick d))
        else
         (let bs = file_bytes E f; d' = tick (tick (tick d))
          in if length bs > encoded_size_for (unat max_sources) then (Inl Sidecar_invalid, d')
             else if fails E (ticks d + 2) \<or> (bs \<noteq> [] \<and> fails E (ticks d + 3))
             then (Inl Sidecar_unreadable, tick d')
             else (decode_merge_plan bs, tick d'))))"

section \<open>The store configuration\<close>

definition save_config_to_disk ::
  "'v env \<Rightarrow> storage_mode \<Rightarrow> database_id \<Rightarrow> 'v disk \<Rightarrow> unit result \<times> 'v disk" where
  "save_config_to_disk E mode dbid d =
    (let temp = tmp_path config_path in
     case write_stream E temp (encode_config (local_config (local_build E) mode dbid)) d of
       (Stream_refused, d) \<Rightarrow> (Inl Config_file_corrupt, d)
     | (Stream_failed, d) \<Rightarrow> (Inl Config_file_corrupt, try_remove E temp d)
     | (Stream_written, d) \<Rightarrow>
       (case sync_file E temp d of (synced, d) \<Rightarrow>
         case refusal synced of
           Some e \<Rightarrow> (Inl e, try_remove E temp d)
         | None \<Rightarrow>
          (case replace_file_atomically E temp config_path d of
             (Inl e, d) \<Rightarrow> (Inl e, try_remove E temp d)
           | (Inr _, d) \<Rightarrow>
             (case sync_directory E d of (synced, d) \<Rightarrow>
                case refusal synced of Some e \<Rightarrow> (Inl e, d) | None \<Rightarrow> (Inr (), d)))))"

definition read_config_file :: "'v env \<Rightarrow> string \<Rightarrow> 'v disk \<Rightarrow> store_config result \<times> 'v disk" where
  "read_config_file E path d =
    (case lookup_file d path of
       None \<Rightarrow> (Inl Config_file_corrupt, tick d)
     | Some f \<Rightarrow>
       (if fails E (ticks d) \<or> \<not> is_regular f then (Inl Config_file_corrupt, tick d)
        else
         (let bs = file_bytes E f; d' = tick (tick (tick (tick d)))
          in if fails E (ticks d + 1) \<or> length bs > config_encoded_size
             then (Inl Config_file_corrupt, tick (tick d))
             else if fails E (ticks d + 2) \<or> fails E (ticks d + 3) then (Inl Config_file_corrupt, d')
             else (decode_config bs, d'))))"

section \<open>Publication is atomic\<close>

text \<open>
  A directory on the way from \<open>s0\<close>: only the name and its temporary name can differ, and the
  name holds what it held or the file being published.
\<close>

definition published :: "string \<Rightarrow> 'v disk_file \<Rightarrow> 'v directory \<Rightarrow> 'v directory \<Rightarrow> bool" where
  "published path f s0 s \<longleftrightarrow> agrees {path, tmp_path path} s0 s
     \<and> (map_of s path = map_of s0 path \<or> map_of s path = Some f)"

lemma published_refl [simp]: "published path f s s"
  by (simp add: published_def)

lemma published_temp:
  assumes "published path f s0 (files d)" "touches {tmp_path path} d d'"
  shows "visits (published path f s0) d d'"
  using assms(2)
proof (rule touches_visits)
  fix s assume "agrees {tmp_path path} (files d) s"
  then have "map_of s path = map_of (files d) path" "agrees {path, tmp_path path} (files d) s"
    by (auto intro: agrees_mono simp: agrees_map_of)
  with assms(1) show "published path f s0 s"
    unfolding published_def by (auto intro: agrees_trans)
qed

lemma published_same: "published path f s0 (files d) \<Longrightarrow> same_disk d d' \<Longrightarrow> visits (published path f s0) d d'"
  by (rule published_temp) (auto intro: same_disk_touches)

lemma write_stream_touches [touch_intros]:
  assumes "write_stream E path bs d = (r, d')" "path \<in> P"
  shows "touches P d d'"
proof -
  have one: "touches P d (put_file path f (tick d))" for f
    using touches_put_file[OF assms(2), of "tick d" f] by simp
  have more: "touches P (put_file path f (tick d)) (put_file path g (tick (put_file path f (tick d))))"
    "touches P (put_file path f (tick d)) (put_file path g (tick (tick (put_file path f (tick d)))))" for f g
    using touches_put_file[OF assms(2), of "tick (put_file path f (tick d))" g]
      touches_put_file[OF assms(2), of "tick (tick (put_file path f (tick d)))" g] by simp_all
  show ?thesis
    using assms(1) one touches_trans[OF one more(1)] touches_trans[OF one more(2)]
    by (auto simp: write_stream_def Let_def touches_refl split: if_splits)
qed

lemma write_stream_written:
  "write_stream E path bs d = (Stream_written, d') \<Longrightarrow> lookup_file d' path = Some (Plain bs)"
  by (auto simp: write_stream_def Let_def split: if_splits)

lemma replace_publishes:
  assumes "replace_file_atomically E (tmp_path path) path d = (r, d')"
    and "lookup_file d (tmp_path path) = Some f" and "published path f s0 (files d)"
  shows "visits (published path f s0) d d'
    \<and> (r = Inr () \<longrightarrow> lookup_file d' path = Some f) \<and> (r \<noteq> Inr () \<longrightarrow> same_disk d d')"
proof (cases r)
  case (Inl e)
  with assms show ?thesis
    by (auto simp: replace_file_atomically_def intro: published_same split: if_splits)
next
  case (Inr u)
  let ?fs = "AList.update path f (AList.delete (tmp_path path) (files d))"
  from Inr assms have d': "d' = set_files ?fs (tick d)"
    by (auto simp: replace_file_atomically_def split: if_splits)
  have "agrees {path, tmp_path path} (files d) ?fs"
    by (auto simp: agrees_def alist_simps)
  with assms(3) have "published path f s0 ?fs"
    by (auto simp: published_def alist_simps intro: agrees_trans)
  then have "visits (published path f s0) (tick d) d'" unfolding d' by (rule visits_set_files)
  then have "visits (published path f s0) d d'" by (simp add: visits_def)
  with Inr show ?thesis by (simp add: d' alist_simps)
qed

section \<open>A record and its reader\<close>

text \<open>
  What recovery relies on: a reader answers from the one file it is given, and answers with the
  record when the file holds its encoding.
\<close>

locale record_file =
  fixes wf :: "'a \<Rightarrow> bool"
    and enc :: "'a \<Rightarrow> bytes"
    and reader :: "'v env \<Rightarrow> string \<Rightarrow> 'v disk \<Rightarrow> ('e + 'a) \<times> 'v disk"
  assumes read_written: "\<And>E x d path. wf x \<Longrightarrow> (\<forall>n. \<not> fails E n) \<Longrightarrow>
      lookup_file d path = Some (Plain (enc x)) \<Longrightarrow> fst (reader E path d) = Inr x"
    and read_local: "\<And>E d d' path. (\<forall>n. \<not> fails E n) \<Longrightarrow>
      lookup_file d path = lookup_file d' path \<Longrightarrow> fst (reader E path d) = fst (reader E path d')"
begin

lemma enc_injective: "wf x \<Longrightarrow> wf y \<Longrightarrow> enc x = enc y \<Longrightarrow> x = y"
  using read_written[of x calm_env "disk_of [([], Plain (enc x))]" "[]"]
    read_written[of y calm_env "disk_of [([], Plain (enc x))]" "[]"] by simp

text \<open>After a crash the reader finds what it would have found before, or the new record.\<close>

lemma crash_read:
  assumes "published path (Plain (enc x)) (files d) s" "wf x" "\<forall>n. \<not> fails E n"
  shows "fst (reader E path (disk_of s)) \<in> {fst (reader E path d), Inr x}"
proof (cases "map_of s path = map_of (files d) path")
  case True
  then have "lookup_file (disk_of s) path = lookup_file d path" by (simp add: lookup_file_def)
  then show ?thesis using read_local[OF assms(3)] by blast
next
  case False
  with assms(1) have "lookup_file (disk_of s) path = Some (Plain (enc x))"
    by (simp add: published_def)
  then show ?thesis using read_written[OF assms(2,3)] by blast
qed

lemma publication_readable:
  assumes "visits (published path (Plain (enc x)) (files d)) d d'" "wf x"
  shows "visits (\<lambda>s. (\<forall>n. n \<notin> {path, tmp_path path} \<longrightarrow> map_of s n = lookup_file d n)
      \<and> (\<forall>E. (\<forall>n. \<not> fails E n) \<longrightarrow>
          fst (reader E path (disk_of s)) \<in> {fst (reader E path d), Inr x})) d d'"
  using assms(1)
proof (rule visits_mono)
  fix s assume pub: "published path (Plain (enc x)) (files d) s"
  then have "agrees {path, tmp_path path} (files d) s" by (simp add: published_def)
  then show "(\<forall>n. n \<notin> {path, tmp_path path} \<longrightarrow> map_of s n = lookup_file d n)
      \<and> (\<forall>E. (\<forall>n. \<not> fails E n) \<longrightarrow>
          fst (reader E path (disk_of s)) \<in> {fst (reader E path d), Inr x})"
    using crash_read[OF pub assms(2)] by (auto simp: lookup_file_def agrees_def)
qed

end

lemma length_encode_plan: "length (encode_merge_plan plan) = encoded_size_for (length (mp_sources plan))"
  by (simp add: encode_merge_plan_def length_plan_body encoded_size_for_def)

interpretation sidecar: record_file wf_plan encode_merge_plan read_merge_sidecar
proof
  show "fst (read_merge_sidecar E path d) = Inr x"
    if "wf_plan x" "\<forall>n. \<not> fails E n" "lookup_file d path = Some (Plain (encode_merge_plan x))"
    for E x and d :: "'v disk" and path
    using that decode_encode_merge_plan[OF that(1)]
    by (simp add: read_merge_sidecar_def is_regular_def file_bytes_def Let_def length_encode_plan
        encoded_size_for_def wf_plan_def max_sources_def)
qed (simp add: read_merge_sidecar_def Let_def split: option.splits)

interpretation config: record_file wf_config encode_config read_config_file
proof
  show "fst (read_config_file E path d) = Inr x"
    if "wf_config x" "\<forall>n. \<not> fails E n" "lookup_file d path = Some (Plain (encode_config x))"
    for E x and d :: "'v disk" and path
    using that decode_encode_config[OF that(1)]
    by (simp add: read_config_file_def is_regular_def file_bytes_def Let_def)
qed (simp add: read_config_file_def Let_def split: option.splits)

text \<open>The container index and the version are not stored: the loader fills them in.\<close>

definition stored_metadata :: "file_metadata \<Rightarrow> bool" where
  "stored_metadata m \<longleftrightarrow> wf_metadata m \<and> fm_container_index m = 0 \<and> fm_version m = 0"

interpretation metadata: record_file stored_metadata encode_metadata read_metadata_file
proof
  show "fst (read_metadata_file E path d) = Inr x"
    if "stored_metadata x" "\<forall>n. \<not> fails E n" "lookup_file d path = Some (Plain (encode_metadata x))"
    for E x and d :: "'v disk" and path
  proof -
    have wf: "wf_metadata x" and zero: "x\<lparr>fm_container_index := 0, fm_version := 0\<rparr> = x"
      using that(1) by (simp_all add: stored_metadata_def)
    have dec: "decode_metadata (encode_metadata x) = Inr x"
      using decode_encode_metadata[OF wf] zero by simp
    then have "\<not> length (encode_metadata x) < length metadata_magic"
      "take 4 (encode_metadata x) = metadata_magic"
      "length (encode_metadata x) = metadata_encoded_size"
      by (auto simp: decode_metadata_def split: if_splits)
    with dec that(2,3) show ?thesis
      by (simp add: read_metadata_file_def is_regular_def file_bytes_def Let_def)
  qed
qed (simp add: read_metadata_file_def Let_def split: option.splits)

section \<open>The three writers\<close>

text \<open>Before the rename the name still holds what it held; after it, the new record.\<close>

definition staged :: "string \<Rightarrow> 'v disk_file \<Rightarrow> 'v disk \<Rightarrow> 'v disk \<Rightarrow> bool" where
  "staged path f d d' \<longleftrightarrow> visits (published path f (files d)) d d'
     \<and> lookup_file d' path = lookup_file d path"

definition in_place :: "string \<Rightarrow> 'v disk_file \<Rightarrow> 'v disk \<Rightarrow> 'v disk \<Rightarrow> bool" where
  "in_place path f d d' \<longleftrightarrow> visits (published path f (files d)) d d'
     \<and> lookup_file d' path = Some f"

lemma staged_refl: "staged path f d d"
  by (simp add: staged_def)

lemma staged_temp:
  assumes "staged path f d d1" "touches {tmp_path path} d1 d2"
  shows "staged path f d d2"
proof -
  have v: "visits (published path f (files d)) d d1" using assms(1) by (simp add: staged_def)
  then have "published path f (files d) (files d1)" by (rule visits_final) simp
  from visits_trans[OF v published_temp[OF this assms(2)]] show ?thesis
    using assms touches_lookup[OF assms(2), of path] by (simp add: staged_def)
qed

lemma staged_stream:
  "write_stream E (tmp_path path) bs d = (out, d') \<Longrightarrow> staged path f d d'"
  using staged_temp[OF staged_refl write_stream_touches] by blast

lemma staged_same: "staged path f d d1 \<Longrightarrow> same_disk d1 d2 \<Longrightarrow> staged path f d d2"
  by (rule staged_temp) (auto intro: same_disk_touches)

lemma staged_discard: "staged path f d d1 \<Longrightarrow> staged path f d (try_remove E (tmp_path path) d1)"
  by (rule staged_temp) (auto intro: try_remove_touches)

lemma staged_replace:
  assumes "replace_file_atomically E (tmp_path path) path d1 = (r, d2)"
    and "staged path f d d1" "lookup_file d1 (tmp_path path) = Some f"
  shows "(r = Inr () \<longrightarrow> in_place path f d d2) \<and> (r \<noteq> Inr () \<longrightarrow> staged path f d d2)"
proof -
  have v: "visits (published path f (files d)) d d1" using assms(2) by (simp add: staged_def)
  then have "published path f (files d) (files d1)" by (rule visits_final) simp
  note rep = replace_publishes[OF assms(1,3) this]
  from visits_trans[OF v] rep have "visits (published path f (files d)) d d2" by blast
  with rep show ?thesis
    using staged_same[OF assms(2)] by (auto simp: in_place_def)
qed

lemma in_place_same: "in_place path f d d1 \<Longrightarrow> same_disk d1 d2 \<Longrightarrow> in_place path f d d2"
proof -
  assume ip: "in_place path f d d1" and sd: "same_disk d1 d2"
  then have v: "visits (published path f (files d)) d d1" by (simp add: in_place_def)
  then have "published path f (files d) (files d1)" by (rule visits_final) simp
  from visits_trans[OF v published_same[OF this sd]] ip sd show ?thesis
    by (simp add: in_place_def same_disk_lookup)
qed

lemma publish_temp_cases:
  assumes stream: "write_stream E (tmp_path path) bs d = (Stream_written, d1)"
    and sync: "same_disk d1 d2"
    and rep: "replace_file_atomically E (tmp_path path) path d2 = (r, d3)"
  shows "r = Inr () \<Longrightarrow> in_place path (Plain bs) d d3"
    and "r \<noteq> Inr () \<Longrightarrow> staged path (Plain bs) d (try_remove E (tmp_path path) d3)"
proof -
  have st: "staged path (Plain bs) d d2"
    using staged_same[OF staged_stream[OF stream] sync] .
  have "lookup_file d2 (tmp_path path) = Some (Plain bs)"
    using write_stream_written[OF stream] sync by (simp add: same_disk_lookup)
  note both = staged_replace[OF rep st this]
  show "r = Inr () \<Longrightarrow> in_place path (Plain bs) d d3" using both by simp
  show "r \<noteq> Inr () \<Longrightarrow> staged path (Plain bs) d (try_remove E (tmp_path path) d3)"
    using both by (simp add: staged_discard)
qed

lemmas writer_facts = staged_stream staged_discard[OF staged_stream] staged_discard[OF staged_same[OF staged_stream]]
  in_place_same[OF publish_temp_cases(1)] publish_temp_cases(2)
  publish_temp_cases(1)[OF _ same_disk_refl] publish_temp_cases(2)[OF _ same_disk_refl]

lemma write_metadata_file_published:
  assumes run: "write_metadata_file E path meta policy d = (r, d')"
  shows "r = Inr () \<or> r = Inl Sync_failed \<Longrightarrow> in_place path (Plain (encode_metadata meta)) d d'"
    and "r \<noteq> Inr () \<Longrightarrow> r \<noteq> Inl Sync_failed \<Longrightarrow> staged path (Plain (encode_metadata meta)) d d'"
  using run
  by (auto simp: write_metadata_file_def Let_def
      split: stream_outcome.splits prod.splits sum.splits if_splits
      intro: writer_facts dest: sync_file_same sync_directory_same)

lemma write_merge_sidecar_published:
  assumes run: "write_merge_sidecar E path plan d = (r, d')"
  shows "r = Inr pub \<Longrightarrow> in_place path (Plain (encode_merge_plan plan)) d d' \<and> named pub"
    and "r = Inl e \<Longrightarrow> staged path (Plain (encode_merge_plan plan)) d d'"
  using run
  by (auto simp: write_merge_sidecar_def Let_def
      split: stream_outcome.splits prod.splits sum.splits if_splits option.splits
      intro: writer_facts dest: sync_file_same sync_directory_same)

lemma save_config_published:
  assumes run: "save_config_to_disk E mode dbid d = (r, d')"
  shows "r = Inr () \<Longrightarrow>
      in_place config_path (Plain (encode_config (local_config (local_build E) mode dbid))) d d'"
    and "staged config_path (Plain (encode_config (local_config (local_build E) mode dbid))) d d'
      \<or> in_place config_path (Plain (encode_config (local_config (local_build E) mode dbid))) d d'"
  using run
  by (auto simp: save_config_to_disk_def Let_def
      split: stream_outcome.splits prod.splits sum.splits if_splits option.splits
      intro: writer_facts dest: sync_file_same sync_directory_same)

text \<open>
  C30: publishing a merge record is atomic. Stopped at any moment, the directory differs from the
  one before only in the record and its temporary name, and recovery reads from it either what
  it would have read before or the whole new plan. A failure leaves the old record in force; a
  success leaves the new one, whether or not its name could be made durable.
\<close>

theorem sidecar_publication_atomic:
  assumes run: "write_merge_sidecar E path plan d = (r, d')" and wf: "wf_plan plan"
  shows "visits (\<lambda>s. (\<forall>n. n \<notin> {path, tmp_path path} \<longrightarrow> map_of s n = lookup_file d n)
      \<and> (\<forall>F. (\<forall>n. \<not> fails F n) \<longrightarrow> fst (read_merge_sidecar F path (disk_of s))
            \<in> {fst (read_merge_sidecar F path d), Inr plan})) d d'
    \<and> (case r of Inl _ \<Rightarrow> lookup_file d' path = lookup_file d path
       | Inr pub \<Rightarrow> named pub \<and> lookup_file d' path = Some (Plain (encode_merge_plan plan)))"
proof -
  have v: "visits (published path (Plain (encode_merge_plan plan)) (files d)) d d'"
    using write_merge_sidecar_published[OF run]
    by (cases r) (auto simp: staged_def in_place_def)
  show ?thesis
    using sidecar.publication_readable[OF v wf] write_merge_sidecar_published[OF run]
    by (cases r) (auto simp: staged_def in_place_def)
qed

theorem sidecar_publication_atomic_witness:
  "\<exists>pub d'. write_merge_sidecar calm_env (sidecar_path 0 7) example_plan (disk_of [] :: utxo_value disk)
      = (Inr pub, d') \<and> lookup_file d' (sidecar_path 0 7) = Some (Plain (encode_merge_plan example_plan))"
proof -
  obtain pub and d' :: "utxo_value disk"
    where run: "write_merge_sidecar calm_env (sidecar_path 0 7) example_plan (disk_of []) = (Inr pub, d')"
    by (simp add: write_merge_sidecar_def write_stream_def replace_file_atomically_def sync_file_def
        sync_directory_def refusal_def Let_def)
  have "wf_plan example_plan" by (rule wf_example_plan)
  from sidecar_publication_atomic[OF run this] run show ?thesis by auto
qed

text \<open>
   publishing file metadata is atomic in the same sense, and the two ways it can fail are told
  apart: a write that failed left the old record, a barrier that failed came after the new one
  was in place.
\<close>

theorem metadata_publication_atomic:
  assumes run: "write_metadata_file E path meta policy d = (r, d')" and wf: "stored_metadata meta"
  shows "visits (\<lambda>s. (\<forall>n. n \<notin> {path, tmp_path path} \<longrightarrow> map_of s n = lookup_file d n)
      \<and> (\<forall>F. (\<forall>n. \<not> fails F n) \<longrightarrow> fst (read_metadata_file F path (disk_of s))
            \<in> {fst (read_metadata_file F path d), Inr meta})) d d'
    \<and> (r \<in> {Inr (), Inl Sync_failed, Inl Metadata_write_failed})
    \<and> lookup_file d' path = (if r = Inl Metadata_write_failed then lookup_file d path
                             else Some (Plain (encode_metadata meta)))"
proof -
  have r: "r \<in> {Inr (), Inl Sync_failed, Inl Metadata_write_failed}"
    using run by (auto simp: write_metadata_file_def Let_def
        split: stream_outcome.splits prod.splits sum.splits if_splits)
  note pub = write_metadata_file_published[OF run]
  have v: "visits (published path (Plain (encode_metadata meta)) (files d)) d d'"
    using pub by (auto simp: staged_def in_place_def)
  show ?thesis
    using metadata.publication_readable[OF v wf] pub r by (auto simp: staged_def in_place_def)
qed

theorem metadata_publication_atomic_witness:
  "\<exists>d'. write_metadata_file calm_env (metadata_path 0 0) empty_file_metadata Durable
      (disk_of [] :: utxo_value disk) = (Inr (), d')
    \<and> lookup_file d' (metadata_path 0 0) = Some (Plain (encode_metadata empty_file_metadata))"
proof -
  obtain d' :: "utxo_value disk" where run:
    "write_metadata_file calm_env (metadata_path 0 0) empty_file_metadata Durable (disk_of []) = (Inr (), d')"
    by (simp add: write_metadata_file_def write_stream_def replace_file_atomically_def sync_file_def
        sync_directory_def refusal_def Let_def)
  have "stored_metadata empty_file_metadata"
    by (simp add: stored_metadata_def wf_metadata_def empty_file_metadata_def wf_outpoint_def outpoint_size_def)
  from metadata_publication_atomic[OF run this] run show ?thesis by auto
qed

text \<open>
  creating a store writes its configuration atomically: at every moment the config name holds
  what it held or the complete new configuration, and a creation that reports success has it in
  place.
\<close>

theorem config_publication_atomic:
  assumes run: "save_config_to_disk E mode dbid d = (r, d')" and wf: "length dbid = 16"
  shows "visits (\<lambda>s. (\<forall>n. n \<notin> {config_path, tmp_path config_path} \<longrightarrow> map_of s n = lookup_file d n)
      \<and> (\<forall>F. (\<forall>n. \<not> fails F n) \<longrightarrow> fst (read_config_file F config_path (disk_of s))
            \<in> {fst (read_config_file F config_path d), Inr (local_config (local_build E) mode dbid)})) d d'
    \<and> (r = Inr () \<longrightarrow> lookup_file d' config_path
          = Some (Plain (encode_config (local_config (local_build E) mode dbid))))"
proof -
  let ?c = "local_config (local_build E) mode dbid"
  have wfc: "wf_config ?c" using wf by (simp add: wf_config_def local_config_def)
  note pub = save_config_published[OF run]
  have v: "visits (published config_path (Plain (encode_config ?c)) (files d)) d d'"
    using pub(2) by (auto simp: staged_def in_place_def)
  show ?thesis
    using config.publication_readable[OF v wfc] pub(1) by (auto simp: in_place_def)
qed

theorem config_publication_atomic_witness:
  "\<exists>d'. save_config_to_disk calm_env Full_mode (replicate 16 1) (disk_of [] :: utxo_value disk) = (Inr (), d')
    \<and> lookup_file d' config_path \<noteq> None"
proof -
  obtain d' :: "utxo_value disk"
    where run: "save_config_to_disk calm_env Full_mode (replicate 16 1) (disk_of []) = (Inr (), d')"
    by (simp add: save_config_to_disk_def write_stream_def replace_file_atomically_def sync_file_def
        sync_directory_def refusal_def Let_def)
  from config_publication_atomic[OF run] run show ?thesis by auto
qed

end
