(* ===== verification/Containers.thy ===== *)
theory Containers
  imports Flat_Map File_Cache Durable_Files
begin

text \<open>
  The state of \<open>database_impl\<close> (\<open>src/detail/database_impl.hpp\<close>) and the operations on one
  container in \<open>src/database_impl.cpp\<close>: opening, creating and closing the active version, metadata
  on disk, rotation. The five size classes of full mode are the indices 0 to 4; the single
  container of reference mode is \<open>reference_sentinel_index\<close>. The source writes the reference
  variants out a second time (\<open>reference_open_existing\<close>, \<open>reference_create\<close>, ...) over members of
  their own; statement for statement they are the full variants at the sentinel index, so one
  definition at an index models both. \<open>'v\<close> is the stored value of the mode.

  Statistics are compiled out (\<open>UTXOZ_STATISTICS_LEVEL\<close> 0) and logging writes no state.
\<close>

section \<open>State\<close>

record 'v database =
  db_mode :: storage_mode
  db_inspection_only :: bool
  db_capacity :: "u64 \<Rightarrow> capacity_entry"
  db_mapped :: "u64 \<Rightarrow> bool"
  db_current_versions :: "u64 \<Rightarrow> u64"
  db_rehash_watch :: "u64 \<Rightarrow> rehash_watch"
  db_catalogs :: "u64 \<Rightarrow> version_catalog"
  db_rotation_causes :: "u64 \<Rightarrow> rotation_causes"
  db_rehashes_observed :: u64
  db_entries_count :: u64
  db_database_id :: database_id
  db_file_cache :: file_cache
  db_dirty_versions :: "(u64 \<times> u64) list"
  db_cleanup_pending :: bool
  db_integrity_latched :: "error_code option"
  db_lock_held :: bool
  db_disk :: "'v disk"

definition full_indices :: "u64 list" where
  "full_indices = [0, 1, 2, 3, 4]"

text \<open>The containers \<open>for_each_index\<close> visits, in its order; the one of reference mode.\<close>

definition indices_of :: "storage_mode \<Rightarrow> u64 list" where
  "indices_of mode =
     (case mode of Full_mode \<Rightarrow> full_indices | Reference_mode \<Rightarrow> [reference_sentinel_index])"

datatype 'a call = Returned "'a result" | Raised

definition expected_identity :: "'v env \<Rightarrow> 'v database \<Rightarrow> u64 \<Rightarrow> u64 \<Rightarrow> segment_identity" where
  "expected_identity E db i version =
     local_identity (local_build E) (db_database_id db) (kind_of_index i) version"

definition capacity_for :: "'v database \<Rightarrow> u64 \<Rightarrow> u64" where
  "capacity_for db i = ce_capacity (db_capacity db i)"

section \<open>Generations\<close>

text \<open>The map of a version file, read and written through its name.\<close>

definition generation :: "'v disk \<Rightarrow> u64 \<Rightarrow> u64 \<Rightarrow> 'v flat_map option" where
  "generation d i version =
    (case lookup_file d (data_path i version) of
       Some (Segment s) \<Rightarrow> map_option snd (seg_map s)
     | _ \<Rightarrow> None)"

definition set_generation :: "u64 \<Rightarrow> u64 \<Rightarrow> 'v flat_map \<Rightarrow> 'v disk \<Rightarrow> 'v disk" where
  "set_generation i version t d =
    (case lookup_file d (data_path i version) of
       Some (Segment s) \<Rightarrow>
         put_file (data_path i version)
           (Segment (s\<lparr>seg_map := map_option (\<lambda>(n, _). (n, t)) (seg_map s)\<rparr>)) d
     | _ \<Rightarrow> d)"

text \<open>
  \<open>container<Index>()\<close>: the map of the mapped active version. The source dereferences a null
  pointer where nothing is mapped; here that reads as an empty map without buckets, and every
  property assumes a mapped container.
\<close>

definition container :: "'v database \<Rightarrow> u64 \<Rightarrow> 'v flat_map" where
  "container db i =
    (if db_mapped db i
     then (case generation (db_disk db) i (db_current_versions db i) of
             Some t \<Rightarrow> t | None \<Rightarrow> tbl_empty 0 0)
     else tbl_empty 0 0)"

definition set_container :: "u64 \<Rightarrow> 'v flat_map \<Rightarrow> 'v database \<Rightarrow> 'v database" where
  "set_container i t db =
     db\<lparr>db_disk := set_generation i (db_current_versions db i) t (db_disk db)\<rparr>"

section \<open>Metadata on disk\<close>

definition save_metadata_to_disk :: "'v env \<Rightarrow> u64 \<Rightarrow> u64 \<Rightarrow> 'v database \<Rightarrow> 'v database" where
  "save_metadata_to_disk E i version db =
    (case catalog_find_metadata (db_catalogs db i) version of
       None \<Rightarrow> db
     | Some m \<Rightarrow> db\<lparr>db_disk :=
         snd (write_metadata_file E (metadata_path i version) m Publish_only (db_disk db))\<rparr>)"

definition load_metadata_from_disk :: "'v env \<Rightarrow> u64 \<Rightarrow> u64 \<Rightarrow> 'v database \<Rightarrow> 'v database" where
  "load_metadata_from_disk E i version db =
    (case read_metadata_file E (metadata_path i version) (db_disk db) of
       (Inl _, d) \<Rightarrow> db\<lparr>db_disk := d\<rparr>
     | (Inr m, d) \<Rightarrow>
         db\<lparr>db_disk := d,
            db_catalogs := (db_catalogs db)(i := catalog_set_metadata version
              (m\<lparr>fm_container_index := i, fm_version := version\<rparr>) (db_catalogs db i))\<rparr>)"

definition update_metadata_on_insert ::
  "u64 \<Rightarrow> u64 \<Rightarrow> raw_outpoint \<Rightarrow> u32 \<Rightarrow> 'v database \<Rightarrow> 'v database" where
  "update_metadata_on_insert i version key height db =
    db\<lparr>db_catalogs := (db_catalogs db)(i := catalog_set_metadata version
         (update_on_insert key height (catalog_metadata (db_catalogs db i) version))
         (db_catalogs db i))\<rparr>"

definition update_metadata_on_delete :: "u64 \<Rightarrow> u64 \<Rightarrow> 'v database \<Rightarrow> 'v database" where
  "update_metadata_on_delete i version db =
    (case catalog_find_metadata (db_catalogs db i) version of
       None \<Rightarrow> db
     | Some m \<Rightarrow> db\<lparr>db_catalogs :=
         (db_catalogs db)(i := catalog_set_metadata version (update_on_delete m) (db_catalogs db i))\<rparr>)"

section \<open>Opening, creating and closing the active version\<close>

definition open_existing_container ::
  "'v env \<Rightarrow> u64 \<Rightarrow> u64 \<Rightarrow> 'v database \<Rightarrow> unit result \<times> 'v database" where
  "open_existing_container E i version db =
    (case open_checked E (db_database_id db) (kind_of_index i) (data_path i version) version
            (db_disk db) of
       (Inl e, d) \<Rightarrow> (Inl e, db\<lparr>db_disk := d\<rparr>)
     | (Inr t, d) \<Rightarrow>
         (Inr (), db\<lparr>db_disk := d, db_mapped := (db_mapped db)(i := True),
            db_rehash_watch := (db_rehash_watch db)(i := rehash_watch_reset (tbl_buckets t)),
            db_current_versions := (db_current_versions db)(i := version)\<rparr>))"

definition place_stamp ::
  "'v env \<Rightarrow> string \<Rightarrow> segment_identity \<Rightarrow> 'v disk \<Rightarrow> unit result \<times> 'v disk" where
  "place_stamp E path identity d =
    (case lookup_file d path of
       Some (Segment s) \<Rightarrow>
         if seg_stamp s \<noteq> None then (Inl Identity_collision, tick d)
         else (case on_construct E (ticks d) 0 of
                 Null_pointer \<Rightarrow> (Inl Identity_collision, tick d)
               | Throws \<Rightarrow> (Inl File_open_failed, tick d)
               | Constructed _ _ \<Rightarrow>
                   (Inr (), put_file path
                      (Segment (s\<lparr>seg_stamp := Some (1, encode_stamp identity)\<rparr>)) (tick d)))
     | _ \<Rightarrow> (Inl File_open_failed, tick d))"

definition new_segment :: "u64 \<Rightarrow> 'v segment" where
  "new_segment sz = \<lparr>seg_size = sz, seg_stamp = None, seg_map = None, seg_marker = None\<rparr>"

text \<open>
  \<open>managed_mapped_file(create_only, ...)\<close>: it throws if the name is taken, and may throw
  otherwise; a failed creation leaves no file of its own.
\<close>

definition create_segment :: "'v env \<Rightarrow> string \<Rightarrow> u64 \<Rightarrow> 'v disk \<Rightarrow> bool \<times> 'v disk" where
  "create_segment E path sz d =
    (if lookup_file d path \<noteq> None \<or> fails E (ticks d) then (False, tick d)
     else (True, put_file path (Segment (new_segment sz)) (tick d)))"

text \<open>\<open>construct<map>(map_object_name)\<close> in a segment that holds none.\<close>

definition construct_map ::
  "'v env \<Rightarrow> string \<Rightarrow> u64 \<Rightarrow> 'v disk \<Rightarrow> constructing \<times> 'v disk" where
  "construct_map E path buckets d =
    (case lookup_file d path of
       Some (Segment s) \<Rightarrow>
         if seg_map s \<noteq> None then (Null_pointer, tick d)
         else (case on_construct E (ticks d) buckets of
                 Constructed b m \<Rightarrow>
                   (Constructed b m, put_file path
                      (Segment (s\<lparr>seg_map := Some (1, tbl_empty b m)\<rparr>)) (tick d))
               | failed \<Rightarrow> (failed, tick d))
     | _ \<Rightarrow> (Throws, tick d))"

definition create_container ::
  "'v env \<Rightarrow> u64 \<Rightarrow> u64 \<Rightarrow> 'v database \<Rightarrow> unit call \<times> 'v database" where
  "create_container E i version db =
    (let path = data_path i version in
     case create_segment E path (ce_file_size (db_capacity db i)) (db_disk db) of
       (False, d) \<Rightarrow> (Returned (Inl Identity_collision), db\<lparr>db_disk := d\<rparr>)
     | (True, d) \<Rightarrow>
       (case place_stamp E path (expected_identity E db i version) d of
          (Inl e, d) \<Rightarrow> (Returned (Inl e), db\<lparr>db_disk := try_remove E path d\<rparr>)
        | (Inr _, d) \<Rightarrow>
          (case construct_map E path (capacity_for db i) d of
             (Throws, d) \<Rightarrow> (Raised, db\<lparr>db_disk := try_remove E path d\<rparr>)
           | (Null_pointer, d) \<Rightarrow>
               (Returned (Inl Identity_collision), db\<lparr>db_disk := try_remove E path d\<rparr>)
           | (Constructed b m, d) \<Rightarrow>
               (Returned (Inr ()), db\<lparr>db_disk := d, db_mapped := (db_mapped db)(i := True),
                  db_rehash_watch := (db_rehash_watch db)(i := rehash_watch_reset b),
                  db_current_versions := (db_current_versions db)(i := version)\<rparr>))))"

definition close_container :: "'v env \<Rightarrow> u64 \<Rightarrow> 'v database \<Rightarrow> 'v database" where
  "close_container E i db =
    (if db_mapped db i
     then (save_metadata_to_disk E i (db_current_versions db i) db)
            \<lparr>db_mapped := (db_mapped db)(i := False)\<rparr>
     else db)"

section \<open>Rotation\<close>

definition note_dirty :: "u64 \<Rightarrow> u64 \<Rightarrow> 'v database \<Rightarrow> 'v database" where
  "note_dirty i version db =
    (if (i, version) \<in> set (db_dirty_versions db) then db
     else db\<lparr>db_dirty_versions := (i, version) # db_dirty_versions db\<rparr>)"

text \<open>\<open>new_version\<close>: \<open>False\<close> where it throws.\<close>

definition new_version :: "'v env \<Rightarrow> u64 \<Rightarrow> 'v database \<Rightarrow> bool \<times> 'v database" where
  "new_version E i db =
    (let db = close_container E i (note_dirty i (db_current_versions db i) db);
         next = next_version (db_catalogs db i)
     in case create_container E i next db of
          (Returned (Inr _), db) \<Rightarrow>
            (True, db\<lparr>db_catalogs := (db_catalogs db)(i :=
               catalog_set_metadata next empty_file_metadata (catalog_add next (db_catalogs db i)))\<rparr>)
        | (_, db) \<Rightarrow> (False, db))"

definition entry_size :: "u64 \<Rightarrow> u64" where
  "entry_size i =
     (if i = reference_sentinel_index then 48 else 36 + word_of_nat (container_sizes ! unat i))"

definition can_insert_safely :: "'v env \<Rightarrow> u64 \<Rightarrow> 'v database \<Rightarrow> bool \<times> 'v database" where
  "can_insert_safely E i db =
    (let map = container db i in
     if tbl_buckets map > 0
        \<and> tbl_size map \<ge> effective_insert_limit (tbl_buckets map) (tbl_max_load map)
     then (False, db)
     else if db_mapped db i
     then ((case free_memory E (ticks (db_disk db)) of
              None \<Rightarrow> False
            | Some free \<Rightarrow> free > entry_size i * 10),
           db\<lparr>db_disk := tick (db_disk db)\<rparr>)
     else (True, db))"

definition count_rotation :: "rotation_cause \<Rightarrow> rotation_causes \<Rightarrow> rotation_causes" where
  "count_rotation cause rc =
    (case cause of
       Preventive \<Rightarrow> rc\<lparr>rc_preventive := rc_preventive rc + 1\<rparr>
     | Capacity_exception \<Rightarrow> rc\<lparr>rc_capacity_exception := rc_capacity_exception rc + 1\<rparr>)"

definition rotate_for ::
  "'v env \<Rightarrow> u64 \<Rightarrow> rotation_cause \<Rightarrow> 'v database \<Rightarrow> unit result \<times> 'v database" where
  "rotate_for E i cause db =
    (case new_version E i db of
       (False, db) \<Rightarrow>
         (let rc = db_rotation_causes db i in
          (Inl File_open_failed,
           db\<lparr>db_rotation_causes := (db_rotation_causes db)(i := rc\<lparr>rc_failed := rc_failed rc + 1\<rparr>),
              db_integrity_latched := Some File_open_failed\<rparr>))
     | (True, db) \<Rightarrow>
         (Inr (), db\<lparr>db_rotation_causes := (db_rotation_causes db)
             (i := count_rotation cause (db_rotation_causes db i))\<rparr>))"

section \<open>Invariants\<close>

definition generation_ok :: "'v env \<Rightarrow> database_id \<Rightarrow> 'v disk \<Rightarrow> u64 \<Rightarrow> u64 \<Rightarrow> bool" where
  "generation_ok E dbid d i v \<longleftrightarrow> (\<exists>s t. lookup_file d (data_path i v) = Some (Segment s)
     \<and> good_segment (local_build E) dbid (kind_of_index i) v s t \<and> tbl_ok t)"

text \<open>Every version of the catalogue is a usable version file.\<close>

definition container_inv :: "'v env \<Rightarrow> 'v database \<Rightarrow> u64 \<Rightarrow> bool" where
  "container_inv E db i \<longleftrightarrow> catalog_inv (db_catalogs db i)
     \<and> (\<forall>v \<in> set (vc_versions (db_catalogs db i)).
          generation_ok E (db_database_id db) (db_disk db) i v)"

text \<open>The newest version is mapped and is the one the container works on.\<close>

definition serving :: "'v env \<Rightarrow> 'v database \<Rightarrow> u64 \<Rightarrow> bool" where
  "serving E db i \<longleftrightarrow> container_inv E db i \<and> db_mapped db i
     \<and> vc_versions (db_catalogs db i) \<noteq> []
     \<and> db_current_versions db i = catalog_active (db_catalogs db i)"

definition generation_bag :: "'v disk \<Rightarrow> u64 \<Rightarrow> u64 \<Rightarrow> (raw_outpoint \<times> 'v) multiset" where
  "generation_bag d i v = (case generation d i v of None \<Rightarrow> {#} | Some t \<Rightarrow> tbl_bag t)"

definition contents :: "'v database \<Rightarrow> u64 \<Rightarrow> (raw_outpoint \<times> 'v) multiset" where
  "contents db i = (\<Sum>v \<in> set (vc_versions (db_catalogs db i)). generation_bag (db_disk db) i v)"

text \<open>What creating a version file needs: an identity of the right length and a file that is not too small.\<close>

definition creatable :: "'v database \<Rightarrow> u64 \<Rightarrow> bool" where
  "creatable db i \<longleftrightarrow> length (db_database_id db) = 16
     \<and> smallest_configured_file \<le> ce_file_size (db_capacity db i)"

text \<open>An operation on container \<open>i\<close> leaves the state and the version files of every other alone.\<close>

definition isolates :: "u64 \<Rightarrow> 'v database \<Rightarrow> 'v database \<Rightarrow> bool" where
  "isolates i db db' \<longleftrightarrow>
     (\<forall>j. j \<noteq> i \<longrightarrow> db_mapped db' j = db_mapped db j
        \<and> db_current_versions db' j = db_current_versions db j \<and> db_catalogs db' j = db_catalogs db j)
     \<and> (\<forall>j v. j \<noteq> i \<longrightarrow> lookup_file (db_disk db') (data_path j v) = lookup_file (db_disk db) (data_path j v))
     \<and> db_mode db' = db_mode db \<and> db_capacity db' = db_capacity db
     \<and> db_database_id db' = db_database_id db \<and> db_inspection_only db' = db_inspection_only db"

lemma isolates_refl [simp]: "isolates i db db"
  by (simp add: isolates_def)

lemma isolates_trans: "isolates i db db' \<Longrightarrow> isolates i db' db'' \<Longrightarrow> isolates i db db''"
  by (simp add: isolates_def)

lemma generation_cong:
  "lookup_file d' (data_path i v) = lookup_file d (data_path i v) \<Longrightarrow> generation d' i v = generation d i v"
  by (simp add: generation_def)

lemma generation_ok_cong:
  "lookup_file d' (data_path i v) = lookup_file d (data_path i v)
   \<Longrightarrow> generation_ok E dbid d' i v \<longleftrightarrow> generation_ok E dbid d i v"
  by (simp add: generation_ok_def)

lemma generation_ok_generation:
  "generation_ok E dbid d i v \<Longrightarrow> \<exists>t. generation d i v = Some t \<and> tbl_ok t"
  by (auto simp: generation_ok_def generation_def good_segment_def)

lemma isolates_serving:
  assumes "isolates i db db'" "j \<noteq> i"
  shows "serving E db' j \<longleftrightarrow> serving E db j" and "container_inv E db' j \<longleftrightarrow> container_inv E db j"
    and "contents db' j = contents db j" and "container db' j = container db j"
proof -
  have l: "lookup_file (db_disk db') (data_path j v) = lookup_file (db_disk db) (data_path j v)" for v
    using assms by (simp add: isolates_def)
  note g = generation_cong[OF l] generation_ok_cong[OF l]
  show "container_inv E db' j \<longleftrightarrow> container_inv E db j"
    using assms by (simp add: container_inv_def g isolates_def)
  then show "serving E db' j \<longleftrightarrow> serving E db j"
    using assms by (simp add: serving_def isolates_def)
  show "contents db' j = contents db j"
    using assms by (simp add: contents_def generation_bag_def g isolates_def)
  show "container db' j = container db j"
    using assms by (simp add: container_def g isolates_def)
qed

lemma serving_container:
  assumes "serving E db i"
  shows "generation (db_disk db) i (db_current_versions db i) = Some (container db i)"
    and "tbl_ok (container db i)"
    and "db_current_versions db i \<in> set (vc_versions (db_catalogs db i))"
proof -
  obtain v where "v \<in> set (vc_versions (db_catalogs db i))"
    using assms by (cases "vc_versions (db_catalogs db i)") (auto simp: serving_def)
  then show cur: "db_current_versions db i \<in> set (vc_versions (db_catalogs db i))"
    using assms catalog_active_max[of "db_catalogs db i" v]
    by (auto simp: serving_def container_inv_def)
  then obtain t where "generation (db_disk db) i (db_current_versions db i) = Some t" "tbl_ok t"
    using assms generation_ok_generation
    by (metis serving_def container_inv_def)
  then show "generation (db_disk db) i (db_current_versions db i) = Some (container db i)"
    "tbl_ok (container db i)"
    using assms by (simp_all add: container_def serving_def)
qed

lemma generation_bag_subset:
  "v \<in> set (vc_versions (db_catalogs db i)) \<Longrightarrow> generation_bag (db_disk db) i v \<subseteq># contents db i"
  unfolding contents_def by (simp add: sum.remove)

subsection \<open>Writing one generation\<close>

lemma lookup_set_generation:
  "n \<noteq> data_path i v \<Longrightarrow> lookup_file (set_generation i v t d) n = lookup_file d n"
  by (simp add: set_generation_def split: option.splits disk_file.splits)

lemma generation_set_generation:
  "generation (set_generation i v t d) j w
     = (if j = i \<and> w = v then map_option (\<lambda>_. t) (generation d i v) else generation d j w)"
  by (auto simp: set_generation_def generation_def option.map_comp o_def split_def
      split: option.splits disk_file.splits)

lemma generation_ok_set_generation:
  "generation_ok E dbid d j w \<Longrightarrow> tbl_ok t \<Longrightarrow> generation_ok E dbid (set_generation i v t d) j w"
  by (auto simp: generation_ok_def set_generation_def good_segment_def
      split: option.splits disk_file.splits)

lemma set_container_fields [simp, frame_simps]:
  "db_mode (set_container i t db) = db_mode db" "db_mapped (set_container i t db) = db_mapped db"
  "db_current_versions (set_container i t db) = db_current_versions db"
  "db_catalogs (set_container i t db) = db_catalogs db"
  "db_capacity (set_container i t db) = db_capacity db"
  "db_database_id (set_container i t db) = db_database_id db"
  "db_entries_count (set_container i t db) = db_entries_count db"
  "db_integrity_latched (set_container i t db) = db_integrity_latched db"
  "db_cleanup_pending (set_container i t db) = db_cleanup_pending db"
  "db_inspection_only (set_container i t db) = db_inspection_only db"
  "db_file_cache (set_container i t db) = db_file_cache db"
  by (simp_all add: set_container_def)

lemma set_container_isolates: "isolates i db (set_container i t db)"
  by (simp add: isolates_def lookup_set_generation) (simp add: set_container_def lookup_set_generation)

lemma set_container_spec:
  assumes srv: "serving E db i" and ok: "tbl_ok t"
  shows "serving E (set_container i t db) i" and "container (set_container i t db) i = t"
    and "contents (set_container i t db) i + tbl_bag (container db i) = contents db i + tbl_bag t"
proof -
  let ?db = "set_container i t db" and ?v = "db_current_versions db i"
  note cur = serving_container[OF srv]
  show "serving E ?db i"
    using srv ok generation_ok_set_generation[of E _ "db_disk db" i _ t i ?v]
    by (simp add: serving_def container_inv_def) (simp add: set_container_def)
  have "generation (db_disk ?db) i ?v = Some t"
    by (simp add: set_container_def generation_set_generation cur(1))
  then show "container ?db i = t"
    using srv by (simp add: container_def serving_def)
  have bag: "generation_bag (db_disk ?db) i w = (if w = ?v then tbl_bag t else generation_bag (db_disk db) i w)" for w
    using cur(1) by (simp add: generation_bag_def set_container_def generation_set_generation)
  let ?V = "set (vc_versions (db_catalogs db i))"
  have "contents ?db i = tbl_bag t + (\<Sum>w \<in> ?V - {?v}. generation_bag (db_disk db) i w)"
    using cur(3) by (simp add: contents_def bag sum.remove[of ?V ?v])
  moreover have "contents db i
      = tbl_bag (container db i) + (\<Sum>w \<in> ?V - {?v}. generation_bag (db_disk db) i w)"
    using cur(3) sum.remove[of ?V ?v "generation_bag (db_disk db) i"]
    by (simp add: contents_def generation_bag_def cur(1))
  ultimately show "contents ?db i + tbl_bag (container db i) = contents db i + tbl_bag t"
    by simp
qed

section \<open>Creating a version file\<close>

lemma validate_own_stamp:
  "wf_identity idt \<Longrightarrow> validate_stamp (Some (1, encode_stamp idt)) idt = Inr ()"
  by (simp add: validate_stamp_def decode_encode_stamp)

lemma create_segment_touches [touch_intros]:
  "create_segment E path sz d = (ok, d') \<Longrightarrow> path \<in> P \<Longrightarrow> touches P d d'"
  using touches_put_file[of path P "tick d"]
  by (auto simp: create_segment_def touches_refl split: if_splits)

lemma place_stamp_touches [touch_intros]:
  "place_stamp E path idt d = (r, d') \<Longrightarrow> path \<in> P \<Longrightarrow> touches P d d'"
  using touches_put_file[of path P "tick d"]
  by (auto simp: place_stamp_def touches_refl
      split: if_splits option.splits disk_file.splits constructing.splits)

lemma construct_map_touches [touch_intros]:
  "construct_map E path buckets d = (r, d') \<Longrightarrow> path \<in> P \<Longrightarrow> touches P d d'"
  using touches_put_file[of path P "tick d"]
  by (auto simp: construct_map_def touches_refl
      split: if_splits option.splits disk_file.splits constructing.splits)

lemma create_segment_ok:
  "create_segment E path sz d = (True, d') \<Longrightarrow>
     lookup_file d path = None \<and> lookup_file d' path = Some (Segment (new_segment sz))"
  by (auto simp: create_segment_def split: if_splits)

lemma place_stamp_ok:
  "place_stamp E path idt d = (Inr u, d') \<Longrightarrow> \<exists>s. lookup_file d path = Some (Segment s)
     \<and> lookup_file d' path = Some (Segment (s\<lparr>seg_stamp := Some (1, encode_stamp idt)\<rparr>))"
  by (auto simp: place_stamp_def split: if_splits option.splits disk_file.splits constructing.splits)

lemma construct_map_ok:
  "construct_map E path buckets d = (Constructed b m, d') \<Longrightarrow> \<exists>s. lookup_file d path = Some (Segment s)
     \<and> lookup_file d' path = Some (Segment (s\<lparr>seg_map := Some (1, tbl_empty b m)\<rparr>))"
  by (auto simp: construct_map_def split: if_splits option.splits disk_file.splits constructing.splits)

text \<open>The segment every creation ends with: stamped for its place, holding one empty map.\<close>

lemma created_segment:
  assumes "create_segment E path sz d = (True, d1)"
    and "place_stamp E path idt d1 = (Inr u, d2)"
    and "construct_map E path buckets d2 = (Constructed b m, d3)"
  shows "lookup_file d3 path = Some (Segment \<lparr>seg_size = sz, seg_stamp = Some (1, encode_stamp idt),
      seg_map = Some (1, tbl_empty b m), seg_marker = None\<rparr>)"
  using create_segment_ok[OF assms(1)] place_stamp_ok[OF assms(2)] construct_map_ok[OF assms(3)]
  by (auto simp: new_segment_def)

lemma expected_identity_wf: "creatable db i \<Longrightarrow> wf_identity (expected_identity E db i v)"
  by (simp add: creatable_def wf_identity_def expected_identity_def local_identity_def)

definition same_but_disk :: "'v database \<Rightarrow> 'v database \<Rightarrow> bool" where
  "same_but_disk db db' \<longleftrightarrow> db'\<lparr>db_disk := db_disk db\<rparr> = db"

lemma same_but_disk_fields:
  assumes "same_but_disk db db'"
  shows "db_mode db' = db_mode db" "db_mapped db' = db_mapped db" "db_capacity db' = db_capacity db"
    "db_current_versions db' = db_current_versions db" "db_catalogs db' = db_catalogs db"
    "db_database_id db' = db_database_id db" "db_entries_count db' = db_entries_count db"
    "db_inspection_only db' = db_inspection_only db" "db_file_cache db' = db_file_cache db"
    "db_integrity_latched db' = db_integrity_latched db" "db_cleanup_pending db' = db_cleanup_pending db"
    "db_dirty_versions db' = db_dirty_versions db"
  using arg_cong[OF assms[unfolded same_but_disk_def], of db_mode]
    arg_cong[OF assms[unfolded same_but_disk_def], of db_mapped]
    arg_cong[OF assms[unfolded same_but_disk_def], of db_capacity]
    arg_cong[OF assms[unfolded same_but_disk_def], of db_current_versions]
    arg_cong[OF assms[unfolded same_but_disk_def], of db_catalogs]
    arg_cong[OF assms[unfolded same_but_disk_def], of db_database_id]
    arg_cong[OF assms[unfolded same_but_disk_def], of db_entries_count]
    arg_cong[OF assms[unfolded same_but_disk_def], of db_inspection_only]
    arg_cong[OF assms[unfolded same_but_disk_def], of db_file_cache]
    arg_cong[OF assms[unfolded same_but_disk_def], of db_integrity_latched]
    arg_cong[OF assms[unfolded same_but_disk_def], of db_cleanup_pending]
    arg_cong[OF assms[unfolded same_but_disk_def], of db_dirty_versions]
  by simp_all

lemma same_but_disk_update [simp]: "same_but_disk db (db\<lparr>db_disk := d\<rparr>)" "same_but_disk db db"
  by (simp_all add: same_but_disk_def)

lemma creation_touches:
  assumes "create_segment E path sz d = (ok, d1)"
  shows "touches {path} d d1"
    and "place_stamp E path idt d1 = (r, d2) \<Longrightarrow> touches {path} d d2"
    and "place_stamp E path idt d1 = (r, d2) \<Longrightarrow> construct_map E path buckets d2 = (k, d3)
      \<Longrightarrow> touches {path} d d3"
  using create_segment_touches[OF assms singletonI] place_stamp_touches[of E path idt d1 r d2 "{path}"]
    construct_map_touches[of E path buckets d2 k d3 "{path}"]
  by (blast intro: touches_trans)+

lemmas creation_withdrawn =
  creation_touches(2)[THEN touches_trans, OF _ _ try_remove_touches[OF singletonI]]
  creation_touches(3)[THEN touches_trans, OF _ _ _ try_remove_touches[OF singletonI]]

lemma create_container_touches:
  assumes "create_container E i v db = (r, db')"
  shows "touches {data_path i v} (db_disk db) (db_disk db')"
  using assms
  by (auto simp: create_container_def Let_def
      split: prod.splits bool.splits sum.splits constructing.splits
      intro: creation_touches creation_withdrawn)

lemma create_container_failed:
  assumes "create_container E i v db = (r, db')" "r \<noteq> Returned (Inr ())"
  shows "same_but_disk db db'" and "touches {data_path i v} (db_disk db) (db_disk db')"
  using assms create_container_touches[OF assms(1)]
  by (auto simp: create_container_def Let_def
      split: prod.splits bool.splits sum.splits constructing.splits)

lemma create_container_ok:
  assumes run: "create_container E i v db = (Returned (Inr ()), db')" and cr: "creatable db i"
  obtains d b m where "db' = db\<lparr>db_disk := d, db_mapped := (db_mapped db)(i := True),
      db_rehash_watch := (db_rehash_watch db)(i := rehash_watch_reset b),
      db_current_versions := (db_current_versions db)(i := v)\<rparr>"
    and "touches {data_path i v} (db_disk db) d" and "lookup_file (db_disk db) (data_path i v) = None"
    and "generation_ok E (db_database_id db) d i v" and "generation d i v = Some (tbl_empty b m)"
proof -
  let ?p = "data_path i v"
  obtain d1 d2 d3 b m where
    c: "create_segment E ?p (ce_file_size (db_capacity db i)) (db_disk db) = (True, d1)"
    and p: "place_stamp E ?p (expected_identity E db i v) d1 = (Inr (), d2)"
    and k: "construct_map E ?p (capacity_for db i) d2 = (Constructed b m, d3)"
    and db': "db' = db\<lparr>db_disk := d3, db_mapped := (db_mapped db)(i := True),
      db_rehash_watch := (db_rehash_watch db)(i := rehash_watch_reset b),
      db_current_versions := (db_current_versions db)(i := v)\<rparr>"
    using run by (auto simp: create_container_def Let_def
        split: prod.splits bool.splits sum.splits constructing.splits)
  have t: "touches {?p} (db_disk db) d3"
    using create_segment_touches[OF c singletonI] place_stamp_touches[OF p singletonI]
      construct_map_touches[OF k singletonI] by (blast intro: touches_trans)
  note seg = created_segment[OF c p k]
  have "generation_ok E (db_database_id db) d3 i v"
    using seg cr validate_own_stamp[OF expected_identity_wf[OF cr, of E v]]
    by (auto simp: generation_ok_def good_segment_def creatable_def expected_identity_def)
  moreover have "generation d3 i v = Some (tbl_empty b m)" using seg by (simp add: generation_def)
  ultimately show ?thesis using that[OF db' t] create_segment_ok[OF c] by blast
qed

section \<open>Rotation keeps every entry\<close>

lemma published_touches:
  "visits (published path f (files d)) d d' \<Longrightarrow> touches {path, tmp_path path} d d'"
  unfolding touches_def by (erule visits_mono) (simp add: published_def)

lemma write_metadata_file_touches [touch_intros]:
  assumes "write_metadata_file E path m policy d = (r, d')"
  shows "touches {path, tmp_path path} d d'"
  using write_metadata_file_published[OF assms]
  by (auto simp: staged_def in_place_def intro!: published_touches)

lemma save_metadata_spec:
  shows "same_but_disk db (save_metadata_to_disk E i v db)"
    and "touches {metadata_path i v, tmp_path (metadata_path i v)} (db_disk db)
           (db_disk (save_metadata_to_disk E i v db))"
proof -
  show "same_but_disk db (save_metadata_to_disk E i v db)"
    by (simp add: save_metadata_to_disk_def split: option.splits)
  show "touches {metadata_path i v, tmp_path (metadata_path i v)} (db_disk db)
           (db_disk (save_metadata_to_disk E i v db))"
    by (auto simp: save_metadata_to_disk_def touches_refl split: option.splits)
      (metis prod.collapse write_metadata_file_touches)
qed

text \<open>The versions on disk are untouched, and only container \<open>i\<close> is no longer mapped.\<close>

lemma close_container_spec:
  obtains d where "close_container E i db = db\<lparr>db_disk := d, db_mapped := (db_mapped db)(i := False)\<rparr>"
    and "touches {metadata_path i (db_current_versions db i),
                  tmp_path (metadata_path i (db_current_versions db i))} (db_disk db) d"
proof -
  let ?sv = "save_metadata_to_disk E i (db_current_versions db i) db"
  show ?thesis
  proof (cases "db_mapped db i")
    case True
    then have "close_container E i db
        = db\<lparr>db_disk := db_disk ?sv, db_mapped := (db_mapped db)(i := False)\<rparr>"
      by (cases "catalog_find_metadata (db_catalogs db i) (db_current_versions db i)")
        (simp_all add: close_container_def save_metadata_to_disk_def)
    then show ?thesis using that save_metadata_spec(2) by blast
  next
    case False
    then have "(db_mapped db)(i := False) = db_mapped db" by (simp add: fun_upd_idem)
    with False have "close_container E i db
        = db\<lparr>db_disk := db_disk db, db_mapped := (db_mapped db)(i := False)\<rparr>"
      by (simp add: close_container_def)
    then show ?thesis using that touches_refl by blast
  qed
qed

definition rotation_room :: "'v database \<Rightarrow> u64 \<Rightarrow> bool" where
  "rotation_room db i \<longleftrightarrow> creatable db i \<and> vc_highest_issued (db_catalogs db i) \<noteq> u64_max"

lemma next_version_fresh:
  assumes "catalog_inv c" "vc_versions c \<noteq> []" "vc_highest_issued c \<noteq> u64_max"
  shows "next_version c = vc_highest_issued c + 1" and "\<forall>v \<in> set (vc_versions c). v < next_version c"
  using assms by (auto simp: next_version_def catalog_inv_def word_le_less_Suc)

lemma catalog_add_next:
  assumes "catalog_inv c" "vc_versions c \<noteq> []" "vc_highest_issued c \<noteq> u64_max"
  shows "catalog_active (catalog_add (next_version c) c) = next_version c"
    and "vc_highest_issued (catalog_add (next_version c) c) = next_version c"
    and "set (vc_versions (catalog_add (next_version c) c)) = insert (next_version c) (set (vc_versions c))"
proof -
  let ?n = "next_version c" and ?c = "catalog_add (next_version c) c"
  show set: "set (vc_versions ?c) = insert ?n (set (vc_versions c))"
    by (rule set_catalog_add[OF assms(1)])
  have inv: "catalog_inv ?c" using assms(1) by (rule catalog_add_inv)
  have "catalog_active ?c \<in> set (vc_versions ?c)" "?n \<le> catalog_active ?c"
    using catalog_active_max[OF inv, of ?n] set by simp_all
  then show "catalog_active ?c = ?n"
    using set next_version_fresh(2)[OF assms] by auto
  have "vc_highest_issued c < ?n"
    using next_version_fresh(1)[OF assms] word_less_Suc[OF assms(3)] by simp
  then show "vc_highest_issued ?c = ?n" by (simp add: catalog_add_def Let_def max_def less_le)
qed

lemma catalog_active_set_metadata [simp]:
  "catalog_active (catalog_set_metadata v m c) = catalog_active c"
  by (simp add: catalog_active_def)

text \<open>The steps of a rotation that succeeded and of one that did not.\<close>

lemma new_version_True:
  assumes run: "new_version E i db = (True, db')" and cr: "creatable db i"
  obtains d b m w where
    "db' = db\<lparr>db_disk := d, db_mapped := (db_mapped db)(i := True), db_rehash_watch := w,
       db_current_versions := (db_current_versions db)(i := next_version (db_catalogs db i)),
       db_dirty_versions := db_dirty_versions (note_dirty i (db_current_versions db i) db),
       db_catalogs := (db_catalogs db)(i := catalog_set_metadata (next_version (db_catalogs db i))
         empty_file_metadata (catalog_add (next_version (db_catalogs db i)) (db_catalogs db i)))\<rparr>"
    and "\<forall>j v. data_path j v \<noteq> data_path i (next_version (db_catalogs db i))
       \<longrightarrow> lookup_file d (data_path j v) = lookup_file (db_disk db) (data_path j v)"
    and "generation_ok E (db_database_id db) d i (next_version (db_catalogs db i))"
    and "generation d i (next_version (db_catalogs db i)) = Some (tbl_empty b m)"
proof -
  let ?n = "next_version (db_catalogs db i)" and ?dirty = "note_dirty i (db_current_versions db i) db"
  have dirty: "?dirty = db\<lparr>db_dirty_versions := db_dirty_versions ?dirty\<rparr>"
    by (simp add: note_dirty_def)
  obtain d1 where cl: "close_container E i ?dirty
      = ?dirty\<lparr>db_disk := d1, db_mapped := (db_mapped ?dirty)(i := False)\<rparr>"
    and t1: "touches {metadata_path i (db_current_versions ?dirty i),
        tmp_path (metadata_path i (db_current_versions ?dirty i))} (db_disk ?dirty) d1"
    by (rule close_container_spec)
  let ?db1 = "close_container E i ?dirty"
  have db1: "?db1 = db\<lparr>db_disk := d1, db_mapped := (db_mapped db)(i := False),
      db_dirty_versions := db_dirty_versions ?dirty\<rparr>"
    unfolding cl by (subst (1 2) dirty) simp
  obtain db2 where mk: "create_container E i ?n ?db1 = (Returned (Inr ()), db2)"
    and db': "db' = db2\<lparr>db_catalogs := (db_catalogs db2)(i :=
               catalog_set_metadata ?n empty_file_metadata (catalog_add ?n (db_catalogs db2 i)))\<rparr>"
    using run by (auto simp: new_version_def Let_def db1 split: prod.splits call.splits sum.splits)
  have cr1: "creatable ?db1 i" using cr by (simp add: db1 creatable_def)
  obtain d b m where db2: "db2 = ?db1\<lparr>db_disk := d, db_mapped := (db_mapped ?db1)(i := True),
      db_rehash_watch := (db_rehash_watch ?db1)(i := rehash_watch_reset b),
      db_current_versions := (db_current_versions ?db1)(i := ?n)\<rparr>"
    and t2: "touches {data_path i ?n} (db_disk ?db1) d"
    and g: "generation_ok E (db_database_id ?db1) d i ?n" "generation d i ?n = Some (tbl_empty b m)"
    by (rule create_container_ok[OF mk cr1])
  have keep: "lookup_file d (data_path j v) = lookup_file (db_disk db) (data_path j v)"
    if "data_path j v \<noteq> data_path i ?n" for j v
  proof -
    have "lookup_file d (data_path j v) = lookup_file d1 (data_path j v)"
      using touches_lookup[OF t2, of "data_path j v"] that by (simp add: db1)
    also have "\<dots> = lookup_file (db_disk ?dirty) (data_path j v)"
      using touches_lookup[OF t1, of "data_path j v"] by simp
    finally show ?thesis by (subst (asm) dirty) simp
  qed
  show ?thesis
    using that[where d = d and b = b and m = m
        and w = "(db_rehash_watch db)(i := rehash_watch_reset b)"] keep g
    by (simp add: db' db2 db1)
qed

lemma new_version_serving:
  assumes run: "new_version E i db = (True, db')" and srv: "serving E db i" and room: "rotation_room db i"
  shows "serving E db' i" and "contents db' i = contents db i" and "tbl_bag (container db' i) = {#}"
    and "isolates i db db'" and "creatable db' i"
    and "vc_highest_issued (db_catalogs db' i) = vc_highest_issued (db_catalogs db i) + 1"
    and "db_entries_count db' = db_entries_count db"
    and "db_integrity_latched db' = db_integrity_latched db"
    and "db_cleanup_pending db' = db_cleanup_pending db"
    and "db_file_cache db' = db_file_cache db"
proof -
  let ?c = "db_catalogs db i" and ?n = "next_version (db_catalogs db i)"
  have inv: "catalog_inv ?c" and ne: "vc_versions ?c \<noteq> []" and cr: "creatable db i"
    and nm: "vc_highest_issued ?c \<noteq> u64_max"
    using srv room by (simp_all add: serving_def container_inv_def rotation_room_def)
  note fresh = next_version_fresh[OF inv ne nm] and added = catalog_add_next[OF inv ne nm]
  obtain d b m w where db': "db' = db\<lparr>db_disk := d, db_mapped := (db_mapped db)(i := True), db_rehash_watch := w,
       db_current_versions := (db_current_versions db)(i := ?n),
       db_dirty_versions := db_dirty_versions (note_dirty i (db_current_versions db i) db),
       db_catalogs := (db_catalogs db)(i := catalog_set_metadata ?n
         empty_file_metadata (catalog_add ?n ?c))\<rparr>"
    and keep: "\<forall>j v. data_path j v \<noteq> data_path i ?n
       \<longrightarrow> lookup_file d (data_path j v) = lookup_file (db_disk db) (data_path j v)"
    and ok: "generation_ok E (db_database_id db) d i ?n" "generation d i ?n = Some (tbl_empty b m)"
    by (rule new_version_True[OF run cr])
  have old: "generation d i v = generation (db_disk db) i v"
    "generation_ok E (db_database_id db) d i v = generation_ok E (db_database_id db) (db_disk db) i v"
    if "v \<in> set (vc_versions ?c)" for v
    using keep that fresh(2) generation_cong generation_ok_cong by (metis less_irrefl path_inject(1))+
  have "\<forall>v \<in> set (vc_versions (catalog_add ?n ?c)). generation_ok E (db_database_id db) d i v"
    using old(2) ok(1) srv by (auto simp: added(3) serving_def container_inv_def)
  then show "serving E db' i"
    using added catalog_add_inv[OF inv]
    by (auto simp: serving_def container_inv_def db' wf_intros)
  have "?n \<notin> set (vc_versions ?c)" using fresh(2) by auto
  then have "contents db' i = generation_bag d i ?n + (\<Sum>v \<in> set (vc_versions ?c). generation_bag d i v)"
    by (simp add: contents_def db' added(3))
  also have "\<dots> = contents db i"
    using old(1) ok(2) by (simp add: contents_def generation_bag_def)
  finally show "contents db' i = contents db i" .
  show "tbl_bag (container db' i) = {#}" by (simp add: container_def db' ok(2))
  show "isolates i db db'" using keep by (simp add: isolates_def db')
  show "creatable db' i" using cr by (simp add: creatable_def db')
  show "vc_highest_issued (db_catalogs db' i) = vc_highest_issued ?c + 1"
    unfolding db' using added(2) fresh(1) by simp
  show "db_entries_count db' = db_entries_count db" "db_integrity_latched db' = db_integrity_latched db"
    "db_cleanup_pending db' = db_cleanup_pending db" "db_file_cache db' = db_file_cache db"
    by (simp_all add: db')
qed

lemma new_version_False:
  assumes run: "new_version E i db = (False, db')" and inv: "container_inv E db i"
    and ne: "vc_versions (db_catalogs db i) \<noteq> []" and nm: "vc_highest_issued (db_catalogs db i) \<noteq> u64_max"
  shows "container_inv E db' i" and "contents db' i = contents db i" and "isolates i db db'"
    and "\<not> db_mapped db' i" and "db_entries_count db' = db_entries_count db"
    and "db_cleanup_pending db' = db_cleanup_pending db" and "db_file_cache db' = db_file_cache db"
    and "db_catalogs db' = db_catalogs db" and "db_current_versions db' = db_current_versions db"
proof -
  let ?c = "db_catalogs db i" and ?n = "next_version (db_catalogs db i)"
  let ?dirty = "note_dirty i (db_current_versions db i) db"
  have dirty: "?dirty = db\<lparr>db_dirty_versions := db_dirty_versions ?dirty\<rparr>"
    by (simp add: note_dirty_def)
  obtain d1 where cl: "close_container E i ?dirty
      = ?dirty\<lparr>db_disk := d1, db_mapped := (db_mapped ?dirty)(i := False)\<rparr>"
    and t1: "touches {metadata_path i (db_current_versions ?dirty i),
        tmp_path (metadata_path i (db_current_versions ?dirty i))} (db_disk ?dirty) d1"
    by (rule close_container_spec)
  let ?db1 = "close_container E i ?dirty"
  have db1: "?db1 = db\<lparr>db_disk := d1, db_mapped := (db_mapped db)(i := False),
      db_dirty_versions := db_dirty_versions ?dirty\<rparr>"
    unfolding cl by (subst (1 2) dirty) simp
  obtain r where mk: "create_container E i ?n ?db1 = (r, db')" and r: "r \<noteq> Returned (Inr ())"
    using run by (auto simp: new_version_def Let_def db1 split: prod.splits call.splits sum.splits)
  note failed = create_container_failed[OF mk r] and fields = same_but_disk_fields[OF create_container_failed(1)[OF mk r]]
  have keep: "lookup_file (db_disk db') (data_path j v) = lookup_file (db_disk db) (data_path j v)"
    if "data_path j v \<noteq> data_path i ?n" for j v
  proof -
    have "lookup_file (db_disk db') (data_path j v) = lookup_file d1 (data_path j v)"
      using touches_lookup[OF failed(2), of "data_path j v"] that by (simp add: db1)
    also have "\<dots> = lookup_file (db_disk ?dirty) (data_path j v)"
      using touches_lookup[OF t1, of "data_path j v"] by simp
    finally show ?thesis by (subst (asm) dirty) simp
  qed
  have cinv: "catalog_inv ?c" using inv by (simp add: container_inv_def)
  have neq: "data_path i v \<noteq> data_path i ?n" if "v \<in> set (vc_versions ?c)" for v
    using next_version_fresh(2)[OF cinv ne nm] that by auto
  have cat: "db_catalogs db' = db_catalogs db" and did: "db_database_id db' = db_database_id db"
    using fields by (simp_all add: db1)
  then show "db_catalogs db' = db_catalogs db" by simp
  show "container_inv E db' i"
    using inv generation_ok_cong[OF keep[OF neq]] by (simp add: container_inv_def cat did)
  show "contents db' i = contents db i"
    using generation_cong[OF keep[OF neq]] by (simp add: contents_def generation_bag_def cat)
  show "isolates i db db'" using keep fields by (simp add: isolates_def db1)
  show "\<not> db_mapped db' i" "db_entries_count db' = db_entries_count db"
    "db_cleanup_pending db' = db_cleanup_pending db" "db_file_cache db' = db_file_cache db"
    "db_current_versions db' = db_current_versions db"
    using fields by (simp_all add: db1)
qed

text \<open>What the callers of \<open>rotate_for\<close> rely on.\<close>

definition same_container :: "u64 \<Rightarrow> 'v database \<Rightarrow> 'v database \<Rightarrow> bool" where
  "same_container i db db' \<longleftrightarrow> isolates i db db' \<and> contents db' i = contents db i
     \<and> db_entries_count db' = db_entries_count db \<and> db_cleanup_pending db' = db_cleanup_pending db
     \<and> db_file_cache db' = db_file_cache db"

lemma rotate_for_ok:
  assumes run: "rotate_for E i cause db = (Inr u, db')" and srv: "serving E db i"
    and room: "rotation_room db i"
  shows "serving E db' i" and "same_container i db db'" and "tbl_bag (container db' i) = {#}"
    and "creatable db' i"
    and "vc_highest_issued (db_catalogs db' i) = vc_highest_issued (db_catalogs db i) + 1"
    and "db_integrity_latched db' = db_integrity_latched db"
proof -
  obtain db1 where nv: "new_version E i db = (True, db1)"
    and db': "db' = db1\<lparr>db_rotation_causes := (db_rotation_causes db1)
        (i := count_rotation cause (db_rotation_causes db1 i))\<rparr>"
    using run by (auto simp: rotate_for_def Let_def split: prod.splits bool.splits)
  note facts = new_version_serving[OF nv srv room]
  show "serving E db' i" using facts(1) by (simp add: serving_def container_inv_def db')
  show "same_container i db db'"
    using facts by (simp add: same_container_def isolates_def contents_def db')
  have "container db' i = container db1 i" by (simp add: container_def db')
  then show "tbl_bag (container db' i) = {#}" using facts(3) by simp
  show "creatable db' i" "vc_highest_issued (db_catalogs db' i) = vc_highest_issued (db_catalogs db i) + 1"
    "db_integrity_latched db' = db_integrity_latched db"
    using facts by (simp_all add: creatable_def db')
qed

lemma rotate_for_failed:
  assumes run: "rotate_for E i cause db = (Inl e, db')" and srv: "serving E db i"
    and room: "rotation_room db i"
  shows "container_inv E db' i" and "same_container i db db'" and "e = File_open_failed"
    and "db_integrity_latched db' = Some File_open_failed" and "\<not> db_mapped db' i"
proof -
  obtain db1 rc where nv: "new_version E i db = (False, db1)" and e: "e = File_open_failed"
    and db': "db' = db1\<lparr>db_rotation_causes := (db_rotation_causes db1)(i := rc),
        db_integrity_latched := Some File_open_failed\<rparr>"
    using run by (auto simp: rotate_for_def Let_def split: prod.splits bool.splits)
  have "container_inv E db i" "vc_versions (db_catalogs db i) \<noteq> []"
    "vc_highest_issued (db_catalogs db i) \<noteq> u64_max"
    using srv room by (simp_all add: serving_def rotation_room_def)
  note facts = new_version_False[OF nv this]
  show "container_inv E db' i" using facts(1) by (simp add: container_inv_def db')
  show "same_container i db db'"
    using facts by (simp add: same_container_def isolates_def contents_def db')
  show "e = File_open_failed" by (rule e)
  show "db_integrity_latched db' = Some File_open_failed" "\<not> db_mapped db' i"
    using facts by (simp_all add: db')
qed

section \<open>A concrete database\<close>

text \<open>A reference-mode store with one empty generation, for concrete runs.\<close>

definition example_identity :: "u32 \<Rightarrow> u64 \<Rightarrow> segment_identity" where
  "example_identity kind v = local_identity example_build (replicate 16 1) kind v"

definition example_segment :: "u32 \<Rightarrow> u64 \<Rightarrow> 'v flat_map \<Rightarrow> 'v segment" where
  "example_segment kind v t = \<lparr>seg_size = mib 10, seg_stamp = Some (1, encode_stamp (example_identity kind v)),
     seg_map = Some (1, t), seg_marker = None\<rparr>"

definition example_db :: "'v directory \<Rightarrow> u64 list \<Rightarrow> 'v database" where
  "example_db fs versions = \<lparr>db_mode = Reference_mode, db_inspection_only = False,
     db_capacity = \<lambda>_. testing_reference, db_mapped = \<lambda>i. i = reference_sentinel_index,
     db_current_versions = \<lambda>_. last versions, db_rehash_watch = \<lambda>_. rehash_watch_reset 959,
     db_catalogs = \<lambda>i. if i = reference_sentinel_index
       then \<lparr>vc_versions = versions, vc_metadata = [], vc_highest_issued = last versions\<rparr>
       else empty_catalog,
     db_rotation_causes = \<lambda>_. no_rotations, db_rehashes_observed = 0, db_entries_count = 0,
     db_database_id = replicate 16 1, db_file_cache = new_file_cache (replicate 16 1) 1,
     db_dirty_versions = [], db_cleanup_pending = False, db_integrity_latched = None,
     db_lock_held = True, db_disk = disk_of fs\<rparr>"

lemma example_segment_good:
  "good_segment example_build (replicate 16 1) kind v (example_segment kind v t) t"
proof -
  have "wf_identity (example_identity kind v)" by (simp add: wf_identity_def example_identity_def local_identity_def)
  then show ?thesis
    using validate_own_stamp
    by (simp add: good_segment_def example_segment_def example_identity_def
        smallest_configured_file_def file_sizes_def test_file_sizes_def mib_def gib_def
        reference_file_size_def reference_test_file_size_def)
qed

definition empty_store :: "'v database" where
  "empty_store = example_db
     [(data_path reference_sentinel_index 0, Segment (example_segment reference_container_kind 0 (tbl_empty 959 839)))] [0]"

lemma empty_store_serving: "serving calm_env (empty_store :: 'v database) reference_sentinel_index"
proof -
  have "generation_ok calm_env (replicate 16 1) (db_disk (empty_store :: 'v database)) reference_sentinel_index 0"
    using example_segment_good[of reference_container_kind 0 "tbl_empty 959 839 :: 'v flat_map"]
    by (auto simp: generation_ok_def empty_store_def example_db_def kind_of_index_def)
  then show ?thesis
    by (simp add: serving_def container_inv_def catalog_inv_def catalog_active_def empty_store_def example_db_def)
qed

lemma empty_store_creatable: "creatable empty_store reference_sentinel_index"
  by (simp add: creatable_def empty_store_def example_db_def testing_reference_def
      smallest_configured_file_def file_sizes_def test_file_sizes_def mib_def gib_def
      reference_file_size_def reference_test_file_size_def)

lemma empty_store_container: "container empty_store reference_sentinel_index = tbl_empty 959 839"
  by (simp add: container_def generation_def empty_store_def example_db_def example_segment_def)

lemma empty_store_fields [simp]:
  "db_mapped empty_store reference_sentinel_index" "db_cleanup_pending empty_store = False"
  "db_integrity_latched empty_store = None" "db_mode empty_store = Reference_mode"
  "db_inspection_only empty_store = False" "db_database_id empty_store = replicate 16 1"
  "db_current_versions empty_store i = 0"
  "db_catalogs empty_store reference_sentinel_index
     = \<lparr>vc_versions = [0], vc_metadata = [], vc_highest_issued = 0\<rparr>"
  "db_file_cache empty_store = new_file_cache (replicate 16 1) 1"
  by (simp_all add: empty_store_def example_db_def)

text \<open>A full-mode store with one empty generation in each class.\<close>

definition full_store :: "utxo_value database" where
  "full_store = (empty_store :: utxo_value database)\<lparr>db_mode := Full_mode, db_mapped := \<lambda>i. i < 5,
     db_capacity := \<lambda>_. testing_reference, db_current_versions := \<lambda>_. 0,
     db_catalogs := \<lambda>_. \<lparr>vc_versions = [0], vc_metadata = [], vc_highest_issued = 0\<rparr>,
     db_disk := disk_of (map (\<lambda>i. (data_path i 0,
       Segment (example_segment (ucast i) 0 (tbl_empty 959 839)))) full_indices)\<rparr>"

lemma full_store_lookup:
  "i \<in> set full_indices \<Longrightarrow> lookup_file (db_disk full_store) (data_path i 0)
     = Some (Segment (example_segment (ucast i) 0 (tbl_empty 959 839)))"
  by (auto simp: full_store_def full_indices_def)

lemma full_index_kind: "i \<in> set full_indices \<Longrightarrow> kind_of_index i = ucast i"
  by (auto simp: kind_of_index_def full_indices_def reference_sentinel_index_def)

lemma full_store_serving:
  assumes "i \<in> set full_indices"
  shows "serving calm_env full_store i" and "creatable full_store i"
proof -
  have "generation_ok calm_env (replicate 16 1) (db_disk full_store) i 0"
    unfolding generation_ok_def
    using full_store_lookup[OF assms] full_index_kind[OF assms]
      example_segment_good[of "ucast i" 0 "tbl_empty 959 839 :: utxo_value flat_map"] by auto
  moreover have "db_mapped full_store i" using assms by (auto simp: full_store_def full_indices_def)
  ultimately show "serving calm_env full_store i"
    by (simp add: serving_def container_inv_def catalog_inv_def catalog_active_def full_store_def)
  show "creatable full_store i"
    using empty_store_creatable
    by (simp add: creatable_def full_store_def empty_store_def example_db_def)
qed

end
