(* ===== verification/Inserting.thy ===== *)
theory Inserting
  imports Containers
begin

text \<open>
  Insertion: \<open>insert\<close>, \<open>insert_in_index\<close>, \<open>reference_insert\<close> and \<open>reference_insert_typed\<close> of
  \<open>src/database_impl.cpp\<close>, with the rotation before an insertion that would make the map grow and
  the single retry after a failed allocation. Figures that only the log reads (free bytes before
  and after, segment sizes) are left out.
\<close>

section \<open>Definitions\<close>

definition note_rehash_if_grown :: "u64 \<Rightarrow> u64 \<Rightarrow> 'v database \<Rightarrow> 'v database" where
  "note_rehash_if_grown i buckets db =
    (case detect_rehash (db_rehash_watch db i) buckets (db_rehashes_observed db) of
       (_, watch, observed) \<Rightarrow>
         db\<lparr>db_rehash_watch := (db_rehash_watch db)(i := watch), db_rehashes_observed := observed\<rparr>)"

definition record_inserted ::
  "u64 \<Rightarrow> raw_outpoint \<Rightarrow> u32 \<Rightarrow> 'v flat_map \<Rightarrow> 'v database \<Rightarrow> 'v database" where
  "record_inserted i key height tbl db =
    (let db = set_container i tbl db;
         db = db\<lparr>db_entries_count := db_entries_count db + 1\<rparr>;
         db = note_rehash_if_grown i (tbl_buckets tbl) db
     in update_metadata_on_insert i (db_current_versions db i) key height db)"

text \<open>
  The body of the loop over \<open>attempt = 1, 2\<close>, on the attempts still to make; past the last one
  the loop falls through to \<open>insufficient_space\<close>.
\<close>

fun insert_attempts ::
  "'v env \<Rightarrow> u64 \<Rightarrow> raw_outpoint \<Rightarrow> 'v \<Rightarrow> u32 \<Rightarrow> nat list \<Rightarrow> 'v database \<Rightarrow> bool result \<times> 'v database" where
  "insert_attempts E i key val height [] db = (Inl Insufficient_space, db)"
| "insert_attempts E i key val height (attempt # rest) db =
    (let tbl = container db i;
         before = snapshot_of tbl;
         n = ticks (db_disk db);
         db = db\<lparr>db_disk := tick (db_disk db)\<rparr>
     in case tbl_emplace E n key val tbl of
          Already_there \<Rightarrow> (Inr False, db)
        | Inserted tbl' \<Rightarrow> (Inr True, record_inserted i key height tbl' db)
        | Allocation_failed tbl' \<Rightarrow>
            (let db = set_container i tbl' db;
                 key_present_after = (tbl_find tbl' key \<noteq> None)
             in case classify_post_exception before (snapshot_of tbl') key_present_after of
                  Map_mutated \<Rightarrow>
                    (let rc = db_rotation_causes db i in
                     (Inl Entry_corrupt,
                      db\<lparr>db_rotation_causes := (db_rotation_causes db)(i :=
                           rc\<lparr>rc_unexpected_post_exception := rc_unexpected_post_exception rc + 1\<rparr>),
                         db_integrity_latched := Some Entry_corrupt\<rparr>))
                | Map_intact \<Rightarrow>
                    if attempt = 2 then (Inl Insufficient_space, db)
                    else (case rotate_for E i Capacity_exception db of
                            (Inl e, db) \<Rightarrow> (Inl e, db)
                          | (Inr _, db) \<Rightarrow> insert_attempts E i key val height rest db)))"

definition insert_in_index ::
  "'v env \<Rightarrow> u64 \<Rightarrow> raw_outpoint \<Rightarrow> 'v \<Rightarrow> u32 \<Rightarrow> 'v database \<Rightarrow> bool result \<times> 'v database" where
  "insert_in_index E i key val height db =
    (case can_insert_safely E i db of
       (True, db) \<Rightarrow> insert_attempts E i key val height [1, 2] db
     | (False, db) \<Rightarrow>
         if tbl_find (container db i) key \<noteq> None then (Inr False, db)
         else (case rotate_for E i Preventive db of
                 (Inl e, db) \<Rightarrow> (Inl e, db)
               | (Inr _, db) \<Rightarrow> insert_attempts E i key val height [1, 2] db))"

definition fresh_value :: "nat \<Rightarrow> u32 \<Rightarrow> utxo_value" where
  "fresh_value container_size height =
    \<lparr>uv_block_height = height, uv_actual_size = 0,
     uv_data = replicate (data_capacity container_size) 0\<rparr>"

definition full_insert ::
  "utxo_value env \<Rightarrow> raw_outpoint \<Rightarrow> bytes \<Rightarrow> u32 \<Rightarrow> utxo_value database
   \<Rightarrow> bool result \<times> utxo_value database" where
  "full_insert E key value height db =
    (let index = get_index_from_size (length value) in
     if index \<ge> container_count then (Inl Value_too_large, db)
     else (let sz = container_sizes ! index in
           insert_in_index E (word_of_nat index) key (set_data sz value (fresh_value sz height))
             height db))"

definition reference_insert_typed ::
  "reference_value env \<Rightarrow> raw_outpoint \<Rightarrow> u32 \<Rightarrow> u32 \<Rightarrow> u32 \<Rightarrow> reference_value database
   \<Rightarrow> bool result \<times> reference_value database" where
  "reference_insert_typed E key height file_number offset db =
     insert_in_index E reference_sentinel_index key
       \<lparr>rv_height = height, rv_file_number = file_number, rv_offset = offset\<rparr> height db"

definition reference_insert ::
  "reference_value env \<Rightarrow> raw_outpoint \<Rightarrow> bytes \<Rightarrow> u32 \<Rightarrow> reference_value database
   \<Rightarrow> bool result \<times> reference_value database" where
  "reference_insert E key value height db =
    (if length value \<noteq> 8 then (Inl Value_too_large, db)
     else (let (file_number, rest) = get32 value in
           reference_insert_typed E key height file_number (fst (get32 rest)) db))"

section \<open>What one insertion promises\<close>

text \<open>
  The contract of an insertion into container \<open>i\<close>: it adds exactly the entry, or finds the key in
  the active generation and does nothing, or fails without changing what is stored.
\<close>

definition insert_spec ::
  "'v env \<Rightarrow> u64 \<Rightarrow> raw_outpoint \<Rightarrow> 'v \<Rightarrow> 'v database \<Rightarrow> bool result \<Rightarrow> 'v database \<Rightarrow> bool" where
  "insert_spec E i key val db r db' \<longleftrightarrow> isolates i db db'
     \<and> db_cleanup_pending db' = db_cleanup_pending db \<and> db_file_cache db' = db_file_cache db
     \<and> (case r of
          Inr True \<Rightarrow> serving E db' i \<and> contents db' i = add_mset (key, val) (contents db i)
            \<and> tbl_find (container db' i) key = Some val
            \<and> db_entries_count db' = db_entries_count db + 1
        | Inr False \<Rightarrow> serving E db' i \<and> contents db' i = contents db i
            \<and> tbl_find (container db i) key \<noteq> None
            \<and> db_current_versions db' i = db_current_versions db i
            \<and> db_entries_count db' = db_entries_count db
        | Inl e \<Rightarrow> container_inv E db' i \<and> contents db' i = contents db i
            \<and> db_entries_count db' = db_entries_count db
            \<and> (e = Insufficient_space \<and> serving E db' i
               \<or> e = File_open_failed \<and> db_integrity_latched db' = Some File_open_failed))"

lemma insert_spec_after:
  assumes "same_container i db db1" "insert_spec E i key val db1 r db'" "r \<noteq> Inr False"
  shows "insert_spec E i key val db r db'"
  using assms
  by (auto simp: insert_spec_def same_container_def split: sum.splits bool.splits intro: isolates_trans)

lemma tick_database [simp]:
  "container (db\<lparr>db_disk := tick d\<rparr>) i = container (db\<lparr>db_disk := d\<rparr>) i"
  "serving E (db\<lparr>db_disk := tick d\<rparr>) i = serving E (db\<lparr>db_disk := d\<rparr>) i"
  "contents (db\<lparr>db_disk := tick d\<rparr>) i = contents (db\<lparr>db_disk := d\<rparr>) i"
  by (simp_all add: container_def generation_def serving_def container_inv_def generation_ok_def
      contents_def generation_bag_def)

lemma disk_self [simp]: "db\<lparr>db_disk := db_disk db\<rparr> = db"
  by simp

lemma record_inserted_fields:
  obtains w n m where "record_inserted i key height tbl db
    = (set_container i tbl db)\<lparr>db_entries_count := db_entries_count db + 1,
         db_rehash_watch := w, db_rehashes_observed := n,
         db_catalogs := (db_catalogs db)(i := catalog_set_metadata (db_current_versions db i) m
           (db_catalogs db i))\<rparr>"
  by (cases "detect_rehash (db_rehash_watch (set_container i tbl db) i) (tbl_buckets tbl)
      (db_rehashes_observed (set_container i tbl db))")
    (simp add: record_inserted_def Let_def note_rehash_if_grown_def update_metadata_on_insert_def)

lemma record_inserted_spec:
  assumes srv: "serving E db i" and ins: "tbl_emplace E n key val (container db i) = Inserted tbl"
  shows "insert_spec E i key val db (Inr True) (record_inserted i key height tbl db)"
proof -
  let ?db = "set_container i tbl db"
  have tbl: "tbl_ok tbl" "tbl_bag tbl = add_mset (key, val) (tbl_bag (container db i))"
    using tbl_emplace_cases(2)[OF serving_container(2)[OF srv] ins] by simp_all
  note st = set_container_spec[OF srv tbl(1)]
  have bag: "contents ?db i = add_mset (key, val) (contents db i)"
    using st(3) tbl(2) by simp
  have found: "tbl_find tbl key = Some val"
    using table.find_bag[OF tbl(1)] tbl(2) by simp
  obtain w n m where rec: "record_inserted i key height tbl db
    = ?db\<lparr>db_entries_count := db_entries_count db + 1,
         db_rehash_watch := w, db_rehashes_observed := n,
         db_catalogs := (db_catalogs db)(i := catalog_set_metadata (db_current_versions db i) m
           (db_catalogs db i))\<rparr>" (is "_ = ?rec")
    by (rule record_inserted_fields)
  have "isolates i db ?rec"
    using set_container_isolates[of i db tbl] by (simp add: isolates_def)
  moreover have "serving E ?rec i"
    using st(1) by (simp add: serving_def container_inv_def wf_intros)
  moreover have "contents ?rec i = contents ?db i" by (simp add: contents_def)
  moreover have "container ?rec i = container ?db i" by (simp add: container_def)
  ultimately show ?thesis
    using bag found st(2) by (simp add: insert_spec_def rec)
qed

lemma insert_spec_duplicate:
  "serving E db i \<Longrightarrow> tbl_find (container db i) key \<noteq> None \<Longrightarrow> insert_spec E i key val db (Inr False) db"
  by (simp add: insert_spec_def)

lemma insert_spec_ticked:
  "insert_spec E i key val (db\<lparr>db_disk := tick (db_disk db)\<rparr>) r db' \<Longrightarrow> insert_spec E i key val db r db'"
  by (auto simp: insert_spec_def isolates_def split: sum.splits bool.splits)

text \<open>Writing back the map that is there changes no entry.\<close>

lemma set_container_same:
  assumes "serving E db i"
  shows "serving E (set_container i (container db i) db) i"
    and "same_container i db (set_container i (container db i) db)"
    and "container (set_container i (container db i) db) i = container db i"
proof -
  note st = set_container_spec[OF assms serving_container(2)[OF assms]]
  show "serving E (set_container i (container db i) db) i" by (rule st(1))
  show "container (set_container i (container db i) db) i = container db i" by (rule st(2))
  show "same_container i db (set_container i (container db i) db)"
    using st(3) set_container_isolates by (simp add: same_container_def)
qed

lemma same_container_trans:
  "same_container i db db1 \<Longrightarrow> same_container i db1 db2 \<Longrightarrow> same_container i db db2"
  by (auto simp: same_container_def intro: isolates_trans)

lemma same_container_tick: "same_container i db (db\<lparr>db_disk := tick (db_disk db)\<rparr>)"
  by (simp add: same_container_def isolates_def)

lemma rotation_room_cong:
  "db_database_id db' = db_database_id db \<Longrightarrow> db_capacity db' = db_capacity db
   \<Longrightarrow> db_catalogs db' i = db_catalogs db i \<Longrightarrow> rotation_room db' i \<longleftrightarrow> rotation_room db i"
  by (simp add: rotation_room_def creatable_def)

lemma insert_attempt_step:
  assumes sg: "strong_guarantee E" and srv: "serving E db i"
    and run: "insert_attempts E i key val height (attempt # rest) db = (r, db')"
  shows "(insert_spec E i key val db r db' \<and> (r = Inr False \<longrightarrow> tbl_bag (container db i) \<noteq> {#}))
    \<or> (attempt \<noteq> 2 \<and> (\<exists>db1. serving E db1 i \<and> same_container i db db1
          \<and> db_catalogs db1 = db_catalogs db
          \<and> (case rotate_for E i Capacity_exception db1 of
               (Inl e, db2) \<Rightarrow> (r, db') = (Inl e, db2)
             | (Inr _, db2) \<Rightarrow> insert_attempts E i key val height rest db2 = (r, db'))))"
proof -
  let ?t = "container db i" and ?db0 = "db\<lparr>db_disk := tick (db_disk db)\<rparr>"
  have srv0: "serving E ?db0 i" and t0: "container ?db0 i = ?t" using srv by simp_all
  have ok: "tbl_ok ?t" by (rule serving_container(2)[OF srv])
  show ?thesis
  proof (cases "tbl_emplace E (ticks (db_disk db)) key val ?t")
    case Already_there
    then have "tbl_find ?t key \<noteq> None" using tbl_emplace_cases(1)[OF ok] by metis
    moreover have "tbl_bag ?t \<noteq> {#}" if "tbl_find ?t key \<noteq> None"
      using that table.find_none_bag[OF ok] by auto
    moreover have "r = Inr False" "db' = ?db0" using run Already_there by (simp_all add: Let_def)
    ultimately show ?thesis
      using insert_spec_ticked[OF insert_spec_duplicate[OF srv0]] by (simp add: t0)
  next
    case (Inserted tbl)
    then have "r = Inr True" "db' = record_inserted i key height tbl ?db0"
      using run by (simp_all add: Let_def)
    then show ?thesis
      using insert_spec_ticked[OF record_inserted_spec[OF srv0 Inserted[folded t0]]] by simp
  next
    case (Allocation_failed tbl)
    then have same: "tbl = ?t" and absent: "tbl_find ?t key = None"
      using tbl_emplace_cases(3)[OF ok Allocation_failed sg] by auto
    let ?db1 = "set_container i ?t ?db0"
    note st = set_container_same[OF srv0, unfolded t0]
    have sc: "same_container i db ?db1" using same_container_trans[OF same_container_tick st(2)] .
    show ?thesis
    proof (cases "attempt = 2")
      case True
      then have "r = Inl Insufficient_space" "db' = ?db1"
        using run Allocation_failed same absent by (simp_all add: Let_def classify_post_exception_def)
      then show ?thesis using st(1) sc
        by (simp add: insert_spec_def same_container_def serving_def)
    next
      case False
      then have "(case rotate_for E i Capacity_exception ?db1 of
               (Inl e, db2) \<Rightarrow> (r, db') = (Inl e, db2)
             | (Inr _, db2) \<Rightarrow> insert_attempts E i key val height rest db2 = (r, db'))"
        using run Allocation_failed same absent
        by (simp add: Let_def classify_post_exception_def split: prod.splits sum.splits)
      then show ?thesis using False st(1) sc by auto
    qed
  qed
qed

lemma insert_last_attempt:
  assumes "strong_guarantee E" "serving E db i" "insert_attempts E i key val height [2] db = (r, db')"
  shows "insert_spec E i key val db r db' \<and> (r = Inr False \<longrightarrow> tbl_bag (container db i) \<noteq> {#})"
  using insert_attempt_step[OF assms] by simp

lemma insert_both_attempts:
  assumes sg: "strong_guarantee E" and srv: "serving E db i" and room: "rotation_room db i"
    and run: "insert_attempts E i key val height [1, 2] db = (r, db')"
  shows "insert_spec E i key val db r db' \<and> (r = Inr False \<longrightarrow> tbl_bag (container db i) \<noteq> {#})"
  using insert_attempt_step[OF sg srv run]
proof (elim disjE conjE exE)
  fix db1 assume srv1: "serving E db1 i" and same1: "same_container i db db1"
    and cat1: "db_catalogs db1 = db_catalogs db"
    and cont: "case rotate_for E i Capacity_exception db1 of
        (Inl e, db2) \<Rightarrow> (r, db') = (Inl e, db2)
      | (Inr _, db2) \<Rightarrow> insert_attempts E i key val height [2] db2 = (r, db')"
  have room1: "rotation_room db1 i"
    using room same1 cat1 by (simp add: rotation_room_def creatable_def same_container_def isolates_def)
  show ?thesis
  proof (cases "rotate_for E i Capacity_exception db1")
    case (Pair o2 db2)
    show ?thesis
    proof (cases o2)
      case (Inl e)
      with Pair have rot: "rotate_for E i Capacity_exception db1 = (Inl e, db2)" by simp
      have "r = Inl e" "db' = db2" using cont rot by simp_all
      with rotate_for_failed[OF rot srv1 room1] same1 show ?thesis
        by (auto simp: insert_spec_def same_container_def intro: isolates_trans)
    next
      case (Inr u)
      with Pair have rot: "rotate_for E i Capacity_exception db1 = (Inr u, db2)" by simp
      note ok = rotate_for_ok[OF rot srv1 room1]
      have "insert_attempts E i key val height [2] db2 = (r, db')" using cont rot by simp
      from insert_last_attempt[OF sg ok(1) this] ok(3)
      have "insert_spec E i key val db2 r db'" "r \<noteq> Inr False" by auto
      with insert_spec_after[OF same_container_trans[OF same1 ok(2)]] show ?thesis by blast
    qed
  qed
qed simp_all

text \<open>An insertion rotates at most twice: before it, and once after a failed allocation.\<close>

definition insert_room :: "'v database \<Rightarrow> u64 \<Rightarrow> bool" where
  "insert_room db i \<longleftrightarrow> creatable db i
     \<and> unat (vc_highest_issued (db_catalogs db i)) + 2 < 2 ^ 64"

lemma insert_room_first: "insert_room db i \<Longrightarrow> rotation_room db i"
  by (auto simp: insert_room_def rotation_room_def unat_u64_max)

lemma insert_room_second:
  assumes "insert_room db i" "creatable db' i"
    and "vc_highest_issued (db_catalogs db' i) = vc_highest_issued (db_catalogs db i) + 1"
  shows "rotation_room db' i"
proof -
  have "unat (vc_highest_issued (db_catalogs db i) + 1) = unat (vc_highest_issued (db_catalogs db i)) + 1"
    using assms(1) by (simp add: insert_room_def unat_word_ariths)
  then have "unat (vc_highest_issued (db_catalogs db' i)) < 2 ^ 64 - 1"
    using assms(1,3) by (simp add: insert_room_def)
  then have "vc_highest_issued (db_catalogs db' i) \<noteq> u64_max" by (auto simp: unat_u64_max)
  with assms(2) show ?thesis by (simp add: rotation_room_def)
qed

lemma can_insert_safely_same:
  "can_insert_safely E i db = (safe, db') \<Longrightarrow> db' = db \<or> db' = db\<lparr>db_disk := tick (db_disk db)\<rparr>"
  by (auto simp: can_insert_safely_def Let_def split: if_splits)

lemma insert_spec_shift:
  assumes "db1 = db \<or> db1 = db\<lparr>db_disk := tick (db_disk db)\<rparr>" "insert_spec E i key val db1 r db'"
  shows "insert_spec E i key val db r db'"
  using assms by (auto intro: insert_spec_ticked)

lemma insert_in_index_spec:
  assumes sg: "strong_guarantee E" and srv: "serving E db i" and room: "insert_room db i"
    and run: "insert_in_index E i key val height db = (r, db')"
  shows "insert_spec E i key val db r db'"
proof -
  obtain safe db1 where safe: "can_insert_safely E i db = (safe, db1)" by fastforce
  note ticked = can_insert_safely_same[OF safe]
  have srv1: "serving E db1 i" using srv ticked by auto
  have room1: "insert_room db1 i" using room ticked by (auto simp: insert_room_def creatable_def)
  have "insert_spec E i key val db1 r db'"
  proof (cases safe)
    case True
    with run safe have "insert_attempts E i key val height [1, 2] db1 = (r, db')"
      by (simp add: insert_in_index_def)
    with insert_both_attempts[OF sg srv1 insert_room_first[OF room1]] show ?thesis by blast
  next
    case False
    show ?thesis
    proof (cases "tbl_find (container db1 i) key")
      case (Some w)
      with run safe False have "r = Inr False" "db' = db1" by (simp_all add: insert_in_index_def)
      with Some insert_spec_duplicate[OF srv1] show ?thesis by simp
    next
      case None
      obtain o2 db2 where rot: "rotate_for E i Preventive db1 = (o2, db2)" by fastforce
      show ?thesis
      proof (cases o2)
        case (Inl e)
        with run safe False None rot have "r = Inl e" "db' = db2"
          by (simp_all add: insert_in_index_def)
        with rotate_for_failed[OF rot[unfolded Inl] srv1 insert_room_first[OF room1]] show ?thesis
          by (auto simp: insert_spec_def same_container_def)
      next
        case (Inr u)
        note ok = rotate_for_ok[OF rot[unfolded Inr] srv1 insert_room_first[OF room1]]
        have "insert_attempts E i key val height [1, 2] db2 = (r, db')"
          using run safe False None rot Inr by (simp add: insert_in_index_def)
        from insert_both_attempts[OF sg ok(1) insert_room_second[OF room1 ok(4,5)] this] ok(3)
        have "insert_spec E i key val db2 r db'" "r \<noteq> Inr False" by auto
        with insert_spec_after[OF ok(2)] show ?thesis by blast
      qed
    qed
  qed
  with ticked show ?thesis by (rule insert_spec_shift)
qed



lemma full_insert_spec:
  assumes sg: "strong_guarantee E" and srv: "\<forall>i \<in> set full_indices. serving E db i \<and> insert_room db i"
    and run: "full_insert E key value height db = (r, db')"
  shows "(container_capacities ! 4 < length value \<longrightarrow> r = Inl Value_too_large \<and> db' = db)
    \<and> (length value \<le> container_capacities ! 4 \<longrightarrow>
        (\<exists>val. get_data val = value \<and> uv_block_height val = height
          \<and> insert_spec E (word_of_nat (get_index_from_size (length value))) key val db r db'))"
proof -
  let ?i = "get_index_from_size (length value)"
  have idx: "?i < container_count \<longleftrightarrow> length value \<le> 10234" and cap: "container_capacities ! 4 = 10234"
    by (auto simp: get_index_from_size_cases container_count_def container_sizes_def
        container_capacities_def data_capacity_def)
  show ?thesis
  proof (cases "?i < container_count")
    case False
    with idx cap run show ?thesis by (simp add: full_insert_def)
  next
    case True
    then have le: "length value \<le> 10234" using idx by simp
    have fits: "length value \<le> container_capacities ! ?i"
      using le by (simp add: get_index_from_size_cases container_capacities_def container_sizes_def
          data_capacity_def)
    let ?sz = "container_sizes ! ?i" and ?v = "set_data (container_sizes ! ?i) value
        (fresh_value (container_sizes ! ?i) height)"
    have run': "insert_in_index E (word_of_nat ?i) key ?v height db = (r, db')"
      using run True by (simp add: full_insert_def Let_def)
    have "?i \<in> {0, 1, 2, 3, 4}" using True by (auto simp: container_count_def container_sizes_def)
    then have "word_of_nat ?i \<in> set full_indices" by (auto simp: full_indices_def)
    then have "insert_spec E (word_of_nat ?i) key ?v db r db'"
      using insert_in_index_spec[OF sg _ _ run'] srv by blast
    moreover have "get_data ?v = value" by (rule get_data_in_class[OF fits True])
    moreover have "uv_block_height ?v = height" by (simp add: set_data_def fresh_value_def Let_def)
    ultimately show ?thesis using le cap by auto
  qed
qed

text \<open>
  C18: the public insertion of full mode. A payload larger than the largest class is refused and
  nothing changes; any other goes into the smallest class that holds it, as a value that reads back
  as exactly the payload and the height given.
\<close>

theorem full_insert_correct:
  assumes sg: "strong_guarantee E" and srv: "\<forall>i \<in> set full_indices. serving E db i \<and> insert_room db i"
    and run: "full_insert E key value height db = (r, db')"
  shows "(container_capacities ! 4 < length value \<longrightarrow> r = Inl Value_too_large \<and> db' = db)
    \<and> (length value \<le> container_capacities ! 4 \<longrightarrow>
        (\<exists>val. get_data val = value \<and> uv_block_height val = height
          \<and> insert_spec E (word_of_nat (get_index_from_size (length value))) key val db r db'))"
  by (rule full_insert_spec[OF assms])

theorem full_insert_correct_witness:
  "\<exists>r db' val. full_insert calm_env (replicate 36 7) [1, 2, 3] 9 full_store = (r, db')
     \<and> get_data val = [1, 2, 3] \<and> insert_spec calm_env 0 (replicate 36 7) val full_store r db'"
proof -
  obtain r db' where run: "full_insert calm_env (replicate 36 7) [1, 2, 3] 9 full_store = (r, db')"
    by fastforce
  have sg: "strong_guarantee (calm_env :: utxo_value env)" by (simp add: strong_guarantee_def)
  have "\<forall>i \<in> set full_indices. serving calm_env full_store i \<and> insert_room full_store i"
    using full_store_serving by (simp add: insert_room_def full_store_def)
  from full_insert_correct[OF sg this run] run show ?thesis
    by (auto simp: get_index_from_size_cases container_capacities_def container_sizes_def
        data_capacity_def)
qed

end
