(* ===== verification/Walking.thy ===== *)
theory Walking
  imports Containers
begin

text \<open>
  Lookups and batched walks of \<open>src/database_impl.cpp\<close>: \<open>working_set_of\<close>, \<open>full_find\<close>,
  \<open>reference_find_typed\<close>, \<open>full_resolve\<close>, \<open>reference_resolve\<close> and \<open>apply_deletes\<close>. Both batch
  operations walk the same files in the same order: the cached ones first, ordered by container and
  then newest first, then every version below the active one that was not cached; they stop as soon
  as nothing is pending. A file that cannot be opened makes the batch incomplete and the walk goes
  on. The source keeps indices into the caller's span; here the pending requests themselves.
\<close>

section \<open>The working set\<close>

fun first_of_each :: "('r \<Rightarrow> raw_outpoint) \<Rightarrow> raw_outpoint list \<Rightarrow> 'r list \<Rightarrow> 'r list" where
  "first_of_each key seen [] = []"
| "first_of_each key seen (r # rs) =
    (if key r \<in> set seen then first_of_each key seen rs
     else r # first_of_each key (key r # seen) rs)"

definition working_set_of :: "('r \<Rightarrow> raw_outpoint) \<Rightarrow> 'r list \<Rightarrow> 'r list" where
  "working_set_of key requests = first_of_each key [] requests"

section \<open>Looking in the active versions\<close>

text \<open>\<open>for_each_index\<close> with \<open>if (!result)\<close>: the first container that holds the key answers.\<close>

fun find_in_latest_version :: "'v database \<Rightarrow> u64 list \<Rightarrow> raw_outpoint \<Rightarrow> 'v option" where
  "find_in_latest_version db [] key = None"
| "find_in_latest_version db (i # is) key =
    (case tbl_find (container db i) key of
       Some v \<Rightarrow> Some v
     | None \<Rightarrow> find_in_latest_version db is key)"

definition full_result_of :: "utxo_value \<Rightarrow> full_find_result" where
  "full_result_of v = \<lparr>ff_data = get_data v, ff_block_height = uv_block_height v\<rparr>"

definition reference_result_of :: "reference_value \<Rightarrow> reference_find_result" where
  "reference_result_of v =
     \<lparr>rf_block_height = rv_height v, rf_file_number = rv_file_number v, rf_offset = rv_offset v\<rparr>"

definition full_find :: "utxo_value database \<Rightarrow> raw_outpoint \<Rightarrow> full_find_result option" where
  "full_find db key = map_option full_result_of (find_in_latest_version db full_indices key)"

definition reference_find_typed ::
  "reference_value database \<Rightarrow> raw_outpoint \<Rightarrow> reference_find_result option" where
  "reference_find_typed db key =
     map_option reference_result_of (find_in_latest_version db [reference_sentinel_index] key)"

text \<open>\<open>erase_in_latest_version\<close> and \<open>reference_erase_in_latest\<close>.\<close>

fun erase_in_latest_version ::
  "'v env \<Rightarrow> u64 list \<Rightarrow> raw_outpoint \<Rightarrow> 'v database \<Rightarrow> nat \<times> 'v database" where
  "erase_in_latest_version E [] key db = (0, db)"
| "erase_in_latest_version E (i # is) key db =
    (case tbl_erase E (ticks (db_disk db)) key (container db i) of
       (n, tbl) \<Rightarrow>
         if n = 0 then erase_in_latest_version E is key db
         else (1, set_container i tbl (db\<lparr>db_disk := tick (db_disk db)\<rparr>)))"

section \<open>The order of a walk\<close>

text \<open>Ascending container, then descending version.\<close>

definition file_order :: "file_key \<Rightarrow> nat" where
  "file_order f = unat (fst f) * 2 ^ 64 + (2 ^ 64 - 1 - unat (snd f))"

definition cached_walk :: "'v database \<Rightarrow> file_key list" where
  "cached_walk db =
     filter (\<lambda>(i, v). (i = reference_sentinel_index) = (db_mode db = Reference_mode))
       (sort_key file_order (get_cached_files (db_file_cache db)))"

definition historical_walk :: "file_key list \<Rightarrow> 'v database \<Rightarrow> file_key list" where
  "historical_walk seen db =
     concat (map (\<lambda>i. map (Pair i)
         (filter (\<lambda>v. (i, v) \<notin> set seen)
           (catalog_below (db_catalogs db i) (db_current_versions db i))))
       (indices_of (db_mode db)))"

record ('r, 'x, 'v) walk =
  wk_pending :: "'r list"
  wk_done :: "'x list"
  wk_complete :: bool
  wk_db :: "'v database"

text \<open>One file: opened through the cache, or the batch is incomplete; then \<open>act\<close> on its map.\<close>

definition visit_file ::
  "'v env \<Rightarrow> (u64 \<Rightarrow> u64 \<Rightarrow> ('r, 'x, 'v) walk \<Rightarrow> ('r, 'x, 'v) walk) \<Rightarrow> file_key
   \<Rightarrow> ('r, 'x, 'v) walk \<Rightarrow> ('r, 'x, 'v) walk" where
  "visit_file E act f w =
    (let (i, v) = f; db = wk_db w in
     case get_or_open E i v (db_file_cache db, db_disk db) of
       (None, c, d) \<Rightarrow>
         w\<lparr>wk_db := db\<lparr>db_file_cache := c, db_disk := d\<rparr>, wk_complete := False\<rparr>
     | (Some _, c, d) \<Rightarrow> act i v (w\<lparr>wk_db := db\<lparr>db_file_cache := c, db_disk := d\<rparr>\<rparr>))"

definition known_container :: "u64 \<Rightarrow> bool" where
  "known_container i \<longleftrightarrow> i = reference_sentinel_index \<or> i \<in> set full_indices"

fun walk_files ::
  "(file_key \<Rightarrow> ('r, 'x, 'v) walk \<Rightarrow> ('r, 'x, 'v) walk) \<Rightarrow> file_key list
   \<Rightarrow> ('r, 'x, 'v) walk \<Rightarrow> ('r, 'x, 'v) walk" where
  "walk_files step [] w = w"
| "walk_files step (f # fs) w =
    (if wk_pending w = [] then w else walk_files step fs (step f w))"

text \<open>The cached files as they were before the walk are those the second phase skips.\<close>

definition walk_all ::
  "(file_key \<Rightarrow> ('r, 'x, 'v) walk \<Rightarrow> ('r, 'x, 'v) walk) \<Rightarrow> ('r, 'x, 'v) walk \<Rightarrow> ('r, 'x, 'v) walk" where
  "walk_all step w =
    (let seen = get_cached_files (db_file_cache (wk_db w));
         w = walk_files step (cached_walk (wk_db w)) w
     in walk_files step (historical_walk seen (wk_db w)) w)"

section \<open>Resolution\<close>

definition file_map :: "'v database \<Rightarrow> u64 \<Rightarrow> u64 \<Rightarrow> 'v flat_map" where
  "file_map db i v =
     (case generation (db_disk db) i v of Some t \<Rightarrow> t | None \<Rightarrow> tbl_empty 0 0)"

text \<open>\<open>probe_full_file\<close> and \<open>probe_reference_file\<close>: \<open>found.emplace\<close> keeps a key's first answer.\<close>

definition probe_file ::
  "u64 \<Rightarrow> u64 \<Rightarrow> (lookup_request, raw_outpoint \<times> 'v, 'v) walk
   \<Rightarrow> (lookup_request, raw_outpoint \<times> 'v, 'v) walk" where
  "probe_file i v w =
    (let tbl = file_map (wk_db w) i v;
         hits = filter (\<lambda>r. tbl_find tbl (lr_key r) \<noteq> None) (wk_pending w)
     in w\<lparr>wk_pending := filter (\<lambda>r. tbl_find tbl (lr_key r) = None) (wk_pending w),
          wk_done := wk_done w @ map (\<lambda>r. (lr_key r, the (tbl_find tbl (lr_key r)))) hits\<rparr>)"

text \<open>The \<open>switch\<close> over the container index, which has no default here.\<close>

definition resolve_step ::
  "'v env \<Rightarrow> file_key \<Rightarrow> (lookup_request, raw_outpoint \<times> 'v, 'v) walk
   \<Rightarrow> (lookup_request, raw_outpoint \<times> 'v, 'v) walk" where
  "resolve_step E f w = (if known_container (fst f) then visit_file E probe_file f w else w)"

record 'a resolution =
  rs_found :: "(raw_outpoint \<times> 'a) list"
  rs_absent :: "lookup_request list"

definition resolve_with ::
  "'v env \<Rightarrow> ('v \<Rightarrow> 'a) \<Rightarrow> lookup_request list \<Rightarrow> 'v database \<Rightarrow> 'a resolution result \<times> 'v database" where
  "resolve_with E answer requests db =
    (if requests = [] then (Inr \<lparr>rs_found = [], rs_absent = []\<rparr>, db)
     else
      (let w = walk_all (resolve_step E)
             \<lparr>wk_pending = working_set_of lr_key requests, wk_done = [], wk_complete = True, wk_db = db\<rparr>
       in if \<not> wk_complete w then (Inl Version_unreadable, wk_db w)
          else (Inr \<lparr>rs_found = map (map_prod id answer) (wk_done w), rs_absent = wk_pending w\<rparr>,
                wk_db w)))"

definition full_resolve ::
  "utxo_value env \<Rightarrow> lookup_request list \<Rightarrow> utxo_value database
   \<Rightarrow> full_find_result resolution result \<times> utxo_value database" where
  "full_resolve E requests db = resolve_with E full_result_of requests db"

definition reference_resolve ::
  "reference_value env \<Rightarrow> lookup_request list \<Rightarrow> reference_value database
   \<Rightarrow> reference_find_result resolution result \<times> reference_value database" where
  "reference_resolve E requests db = resolve_with E reference_result_of requests db"

section \<open>Deletion\<close>

record deletion_progress =
  dp_erased :: "deferred_deletion_entry list"
  dp_absent :: "deferred_deletion_entry list"
  dp_unresolved :: "deferred_deletion_entry list"
  dp_error :: "error_code option"

definition refuse_deletions :: "deferred_deletion_entry list \<Rightarrow> error_code \<Rightarrow> deletion_progress" where
  "refuse_deletions requests why =
     \<lparr>dp_erased = [], dp_absent = [], dp_unresolved = working_set_of dd_key requests, dp_error = Some why\<rparr>"

text \<open>The first phase, over the active versions.\<close>

fun erase_active ::
  "'v env \<Rightarrow> deferred_deletion_entry list
   \<Rightarrow> (deferred_deletion_entry, deferred_deletion_entry, 'v) walk
   \<Rightarrow> (deferred_deletion_entry, deferred_deletion_entry, 'v) walk" where
  "erase_active E [] w = w"
| "erase_active E (r # rs) w =
    (case erase_in_latest_version E (indices_of (db_mode (wk_db w))) (dd_key r) (wk_db w) of
       (applied, db) \<Rightarrow>
         if applied > 0
         then erase_active E rs
           (w\<lparr>wk_db := db\<lparr>db_entries_count := db_entries_count db - 1\<rparr>, wk_done := wk_done w @ [r]\<rparr>)
         else erase_active E rs (w\<lparr>wk_db := db, wk_pending := wk_pending w @ [r]\<rparr>))"

text \<open>\<open>step_over_file\<close> with the two statements of \<open>record_deletion\<close>.\<close>

fun step_over_file ::
  "'v env \<Rightarrow> u64 \<Rightarrow> u64 \<Rightarrow> deferred_deletion_entry list
   \<Rightarrow> (deferred_deletion_entry, deferred_deletion_entry, 'v) walk
   \<Rightarrow> (deferred_deletion_entry, deferred_deletion_entry, 'v) walk" where
  "step_over_file E i v [] w = w"
| "step_over_file E i v (r # rs) w =
    (let db = wk_db w in
     case tbl_erase E (ticks (db_disk db)) (dd_key r) (file_map db i v) of
       (n, tbl) \<Rightarrow>
         if n = 0 then step_over_file E i v rs (w\<lparr>wk_pending := wk_pending w @ [r]\<rparr>)
         else
          (let db = db\<lparr>db_disk := set_generation i v tbl (tick (db_disk db)),
                       db_entries_count := db_entries_count db - 1\<rparr>;
               db = update_metadata_on_delete i v (note_dirty i v db)
           in step_over_file E i v rs (w\<lparr>wk_done := wk_done w @ [r], wk_db := db\<rparr>)))"

definition erase_in_file ::
  "'v env \<Rightarrow> u64 \<Rightarrow> u64 \<Rightarrow> (deferred_deletion_entry, deferred_deletion_entry, 'v) walk
   \<Rightarrow> (deferred_deletion_entry, deferred_deletion_entry, 'v) walk" where
  "erase_in_file E i v w = step_over_file E i v (wk_pending w) (w\<lparr>wk_pending := []\<rparr>)"

text \<open>\<open>walk\<close>: a container index that does not exist makes the batch incomplete.\<close>

definition delete_step ::
  "'v env \<Rightarrow> file_key \<Rightarrow> (deferred_deletion_entry, deferred_deletion_entry, 'v) walk
   \<Rightarrow> (deferred_deletion_entry, deferred_deletion_entry, 'v) walk" where
  "delete_step E f w =
    (if known_container (fst f) then visit_file E (erase_in_file E) f w
     else w\<lparr>wk_complete := False\<rparr>)"

definition apply_deletes ::
  "'v env \<Rightarrow> deferred_deletion_entry list \<Rightarrow> 'v database \<Rightarrow> deletion_progress \<times> 'v database" where
  "apply_deletes E requests db =
    (if requests = []
     then (\<lparr>dp_erased = [], dp_absent = [], dp_unresolved = [], dp_error = None\<rparr>, db)
     else
      (let w = erase_active E (working_set_of dd_key requests)
             \<lparr>wk_pending = [], wk_done = [], wk_complete = True, wk_db = db\<rparr>;
           w = walk_all (delete_step E) w
       in (if \<not> wk_complete w
           then \<lparr>dp_erased = wk_done w, dp_absent = [], dp_unresolved = wk_pending w,
                 dp_error = Some Version_unreadable\<rparr>
           else \<lparr>dp_erased = wk_done w, dp_absent = wk_pending w, dp_unresolved = [], dp_error = None\<rparr>,
           wk_db w)))"

end
