(* ===== verification/Walk_Facts.thy ===== *)
theory Walk_Facts
  imports Walking
begin

text \<open>
  What the batched walks rely on and promise: the invariant of a serving store, the effect of
  erasing one entry from one generation, and the coverage argument of a walk, stated once as the
  locale \<open>covering_walk\<close> over the step of a walk and used for deletion and for resolution.
\<close>

section \<open>The invariant of a serving store\<close>

definition store_files :: "'v database \<Rightarrow> file_key set" where
  "store_files db = {(i, v). i \<in> set (indices_of (db_mode db)) \<and> v \<in> set (vc_versions (db_catalogs db i))}"

definition store_inv :: "'v env \<Rightarrow> 'v database \<Rightarrow> bool" where
  "store_inv E db \<longleftrightarrow> (\<forall>i \<in> set (indices_of (db_mode db)). serving E db i)
     \<and> cache_inv (db_file_cache db) \<and> fc_database_id (db_file_cache db) = db_database_id db
     \<and> cached_keys (db_file_cache db) \<subseteq> store_files db"

definition stored :: "'v database \<Rightarrow> (raw_outpoint \<times> 'v) multiset" where
  "stored db = (\<Sum>i \<in> set (indices_of (db_mode db)). contents db i)"

definition same_shape :: "'v database \<Rightarrow> 'v database \<Rightarrow> bool" where
  "same_shape db db' \<longleftrightarrow> db_mode db' = db_mode db \<and> db_mapped db' = db_mapped db
     \<and> db_current_versions db' = db_current_versions db \<and> db_capacity db' = db_capacity db
     \<and> db_database_id db' = db_database_id db \<and> db_inspection_only db' = db_inspection_only db
     \<and> db_integrity_latched db' = db_integrity_latched db
     \<and> db_cleanup_pending db' = db_cleanup_pending db
     \<and> (\<forall>i. vc_versions (db_catalogs db' i) = vc_versions (db_catalogs db i)
          \<and> vc_highest_issued (db_catalogs db' i) = vc_highest_issued (db_catalogs db i))"

lemma same_shape_refl [simp]: "same_shape db db"
  by (simp add: same_shape_def)

lemma same_shape_trans: "same_shape a b \<Longrightarrow> same_shape b c \<Longrightarrow> same_shape a c"
  by (simp add: same_shape_def)

lemma same_shape_disk [simp]: "same_shape db (db\<lparr>db_disk := d\<rparr>)"
  "same_shape db (db\<lparr>db_file_cache := c, db_disk := d\<rparr>)"
  "same_shape db (db\<lparr>db_entries_count := n\<rparr>)"
  by (simp_all add: same_shape_def)

lemma same_shape_files: "same_shape db db' \<Longrightarrow> store_files db' = store_files db"
  by (simp add: same_shape_def store_files_def)

lemma catalog_active_cong: "vc_versions c' = vc_versions c \<Longrightarrow> catalog_active c' = catalog_active c"
  by (simp add: catalog_active_def)

lemma serving_shape:
  assumes "serving E db i" "same_shape db db'"
    and "\<forall>v \<in> set (vc_versions (db_catalogs db i)). generation_ok E (db_database_id db) (db_disk db') i v"
  shows "serving E db' i"
  using assms catalog_active_cong[of "db_catalogs db' i" "db_catalogs db i"]
  by (simp add: serving_def container_inv_def same_shape_def catalog_inv_def)

lemma serving_generation_ok:
  "serving E db i \<Longrightarrow> v \<in> set (vc_versions (db_catalogs db i))
   \<Longrightarrow> generation_ok E (db_database_id db) (db_disk db) i v"
  by (simp add: serving_def container_inv_def)

lemma contents_shape:
  "same_shape db db' \<Longrightarrow> contents db' i
     = (\<Sum>v \<in> set (vc_versions (db_catalogs db i)). generation_bag (db_disk db') i v)"
  by (simp add: contents_def same_shape_def)

lemma same_files_generation:
  "files d' = files d \<Longrightarrow> generation d' i v = generation d i v"
  "files d' = files d \<Longrightarrow> generation_ok E dbid d' i v = generation_ok E dbid d i v"
  by (simp_all add: generation_def generation_ok_def lookup_file_def)

lemma store_inv_same_files:
  assumes "store_inv E db" "same_shape db db'" "files (db_disk db') = files (db_disk db)"
    and "cache_inv (db_file_cache db')" "fc_database_id (db_file_cache db') = fc_database_id (db_file_cache db)"
    and "cached_keys (db_file_cache db') \<subseteq> store_files db"
  shows "store_inv E db'" and "stored db' = stored db"
proof -
  have mode: "db_mode db' = db_mode db" "db_database_id db' = db_database_id db"
    using assms(2) by (simp_all add: same_shape_def)
  have "serving E db' i" if "i \<in> set (indices_of (db_mode db))" for i
  proof -
    have srv: "serving E db i" using assms(1) that by (simp add: store_inv_def)
    show ?thesis
      using serving_shape[OF srv assms(2)] serving_generation_ok[OF srv]
      by (simp add: same_files_generation(2)[OF assms(3)])
  qed
  then show "store_inv E db'"
    using assms mode same_shape_files[OF assms(2)] by (simp add: store_inv_def)
  show "stored db' = stored db"
    using contents_shape[OF assms(2)] contents_shape[OF same_shape_refl[of db]]
    by (simp add: stored_def mode generation_bag_def same_files_generation(1)[OF assms(3)])
qed

lemma store_file_ok:
  assumes "store_inv E db" "(i, v) \<in> store_files db"
  shows "\<exists>t. generation (db_disk db) i v = Some t \<and> tbl_ok t \<and> file_map db i v = t"
    and "tbl_bag (file_map db i v) \<subseteq># stored db"
proof -
  have i: "i \<in> set (indices_of (db_mode db))" and v: "v \<in> set (vc_versions (db_catalogs db i))"
    using assms(2) by (simp_all add: store_files_def)
  then have "generation_ok E (db_database_id db) (db_disk db) i v"
    using assms(1) by (simp add: store_inv_def serving_def container_inv_def)
  then obtain t where t: "generation (db_disk db) i v = Some t" "tbl_ok t"
    using generation_ok_generation by blast
  then show "\<exists>t. generation (db_disk db) i v = Some t \<and> tbl_ok t \<and> file_map db i v = t"
    by (simp add: file_map_def)
  have "tbl_bag (file_map db i v) \<subseteq># contents db i"
    using generation_bag_subset[OF v] t by (simp add: generation_bag_def file_map_def)
  also have "\<dots> \<subseteq># stored db"
    unfolding stored_def using i by (simp add: sum.remove)
  finally show "tbl_bag (file_map db i v) \<subseteq># stored db" .
qed

subsection \<open>Erasing one entry\<close>

lemma write_generation:
  assumes inv: "store_inv E db" and f: "(i, v) \<in> store_files db" and t: "tbl_ok t"
    and shape: "same_shape db db'" and cache: "db_file_cache db' = db_file_cache db"
    and disk: "db_disk db' = set_generation i v t d" "files d = files (db_disk db)"
  shows "store_inv E db'" and "stored db' + tbl_bag (file_map db i v) = stored db + tbl_bag t"
    and "generation (db_disk db') j w = (if j = i \<and> w = v then Some t else generation (db_disk db) j w)"
proof -
  let ?I = "set (indices_of (db_mode db))"
  have mode: "db_mode db' = db_mode db" "db_database_id db' = db_database_id db"
    using shape by (simp_all add: same_shape_def)
  have i: "i \<in> ?I" and v: "v \<in> set (vc_versions (db_catalogs db i))"
    using f by (simp_all add: store_files_def)
  obtain t0 where t0: "generation (db_disk db) i v = Some t0" "file_map db i v = t0"
    using store_file_ok(1)[OF inv f] by blast
  have gen: "generation (db_disk db') j w
      = (if j = i \<and> w = v then Some t else generation (db_disk db) j w)" for j w
    using t0 by (simp add: disk(1) generation_set_generation same_files_generation(1)[OF disk(2)])
  then show "generation (db_disk db') j w
      = (if j = i \<and> w = v then Some t else generation (db_disk db) j w)" .
  have "serving E db' j" if "j \<in> ?I" for j
  proof -
    have srv: "serving E db j" using inv that by (simp add: store_inv_def)
    have "generation_ok E (db_database_id db) d j w" if "w \<in> set (vc_versions (db_catalogs db j))" for w
      using serving_generation_ok[OF srv that] by (simp add: same_files_generation(2)[OF disk(2)])
    then show ?thesis
      using serving_shape[OF srv shape] generation_ok_set_generation[OF _ t] by (simp add: disk(1))
  qed
  then show "store_inv E db'"
    using inv same_shape_files[OF shape] by (simp add: store_inv_def mode cache)
  have bag: "generation_bag (db_disk db') j w
      = (if j = i \<and> w = v then tbl_bag t else generation_bag (db_disk db) j w)" for j w
    by (simp add: generation_bag_def gen)
  have same: "contents db' j = contents db j" if "j \<noteq> i" for j
    using that by (simp add: contents_shape[OF shape] contents_shape[OF same_shape_refl[of db]] bag)
  let ?V = "set (vc_versions (db_catalogs db i))"
  have "contents db' i = tbl_bag t + (\<Sum>w \<in> ?V - {v}. generation_bag (db_disk db) i w)"
    using v by (simp add: contents_shape[OF shape] bag sum.remove[of ?V v])
  moreover have "contents db i = tbl_bag t0 + (\<Sum>w \<in> ?V - {v}. generation_bag (db_disk db) i w)"
    using v sum.remove[of ?V v "generation_bag (db_disk db) i"]
    by (simp add: contents_def generation_bag_def t0(1))
  ultimately have one: "contents db' i + tbl_bag t0 = contents db i + tbl_bag t" by simp
  have "stored db' = contents db' i + (\<Sum>j \<in> ?I - {i}. contents db j)"
    using i same by (simp add: stored_def mode sum.remove[of ?I i])
  moreover have "stored db = contents db i + (\<Sum>j \<in> ?I - {i}. contents db j)"
    using i by (simp add: stored_def sum.remove[of ?I i])
  ultimately show "stored db' + tbl_bag (file_map db i v) = stored db + tbl_bag t"
    using one by (simp add: t0(2) union_assoc union_commute)
qed

section \<open>Coverage of a walk\<close>

text \<open>
  The contract of one step of a walk and what it gives for the whole: if the walk ends complete,
  nothing still pending is in any version below the active ones. \<open>holds db f k\<close> says that file \<open>f\<close>
  has the key; \<open>rel\<close> is whatever the client accounts for from step to step.
\<close>

locale covering_walk =
  fixes key :: "'r \<Rightarrow> raw_outpoint"
    and step :: "file_key \<Rightarrow> ('r, 'x, 'v) walk \<Rightarrow> ('r, 'x, 'v) walk"
    and inv :: "'v database \<Rightarrow> bool"
    and rel :: "('r, 'x, 'v) walk \<Rightarrow> ('r, 'x, 'v) walk \<Rightarrow> bool"
    and holds :: "'v database \<Rightarrow> file_key \<Rightarrow> raw_outpoint \<Rightarrow> bool"
  assumes rel_refl: "\<And>w. rel w w"
    and rel_trans: "\<And>a b c. rel a b \<Longrightarrow> rel b c \<Longrightarrow> rel a c"
    and inv_cached: "\<And>db. inv db \<Longrightarrow> cached_keys (db_file_cache db) \<subseteq> store_files db"
    and inv_catalog: "\<And>db i. inv db \<Longrightarrow> i \<in> set (indices_of (db_mode db)) \<Longrightarrow> catalog_inv (db_catalogs db i)"
    and step_inv: "\<And>f w. inv (wk_db w) \<Longrightarrow> f \<in> store_files (wk_db w) \<Longrightarrow>
        inv (wk_db (step f w)) \<and> same_shape (wk_db w) (wk_db (step f w)) \<and> rel w (step f w)"
    and step_covers: "\<And>f w. inv (wk_db w) \<Longrightarrow> f \<in> store_files (wk_db w) \<Longrightarrow> wk_complete (step f w) \<Longrightarrow>
        wk_complete w \<and> (\<forall>r \<in> set (wk_pending (step f w)). \<not> holds (wk_db (step f w)) f (key r))"
    and step_shrinks: "\<And>f w. inv (wk_db w) \<Longrightarrow> f \<in> store_files (wk_db w) \<Longrightarrow>
        set (wk_pending (step f w)) \<subseteq> set (wk_pending w)"
    and step_holds: "\<And>f w g k. inv (wk_db w) \<Longrightarrow> f \<in> store_files (wk_db w) \<Longrightarrow>
        holds (wk_db (step f w)) g k \<Longrightarrow> holds (wk_db w) g k"
begin

lemma walk_files_spec:
  assumes "inv (wk_db w)" "set fs \<subseteq> store_files (wk_db w)"
  shows "inv (wk_db (walk_files step fs w)) \<and> same_shape (wk_db w) (wk_db (walk_files step fs w))
    \<and> rel w (walk_files step fs w)
    \<and> set (wk_pending (walk_files step fs w)) \<subseteq> set (wk_pending w)
    \<and> (\<forall>g k. holds (wk_db (walk_files step fs w)) g k \<longrightarrow> holds (wk_db w) g k)
    \<and> (wk_complete (walk_files step fs w) \<longrightarrow> wk_complete w
        \<and> (\<forall>f \<in> set fs. \<forall>r \<in> set (wk_pending (walk_files step fs w)).
              \<not> holds (wk_db (walk_files step fs w)) f (key r)))"
  using assms
proof (induction fs arbitrary: w)
  case Nil
  then show ?case by (simp add: rel_refl)
next
  case (Cons f fs)
  show ?case
  proof (cases "wk_pending w = []")
    case True
    with Cons.prems show ?thesis by (simp add: rel_refl)
  next
    case False
    let ?w = "step f w"
    have f: "f \<in> store_files (wk_db w)" using Cons.prems(2) by simp
    note st = step_inv[OF Cons.prems(1) f] step_covers[OF Cons.prems(1) f]
      step_shrinks[OF Cons.prems(1) f] step_holds[OF Cons.prems(1) f]
    have "set fs \<subseteq> store_files (wk_db ?w)"
      using Cons.prems(2) st(1) same_shape_files[of "wk_db w" "wk_db ?w"] by simp
    note IH = Cons.IH[OF conjunct1[OF st(1)] this]
    have "walk_files step (f # fs) w = walk_files step fs ?w" using False by simp
    moreover have "same_shape (wk_db w) (wk_db (walk_files step fs ?w))" "rel w (walk_files step fs ?w)"
      using IH st(1) same_shape_trans rel_trans by blast+
    moreover have "\<forall>r \<in> set (wk_pending (walk_files step fs ?w)).
        \<not> holds (wk_db (walk_files step fs ?w)) f (key r)" if "wk_complete (walk_files step fs ?w)"
      using IH st(2) that by blast
    moreover have "\<forall>g k. holds (wk_db (walk_files step fs ?w)) g k \<longrightarrow> holds (wk_db w) g k"
      using IH st(4) by blast
    ultimately show ?thesis using IH st(2,3) by simp blast
  qed
qed

lemma cached_walk_files:
  "inv db \<Longrightarrow> set (cached_walk db) = cached_keys (db_file_cache db)"
  using inv_cached[of db]
  by (auto simp: cached_walk_def get_cached_files_def cached_keys_def store_files_def indices_of_def
      full_indices_def reference_sentinel_index_def split: storage_mode.splits)

lemma historical_walk_files: "inv db \<Longrightarrow> set (historical_walk seen db) \<subseteq> store_files db"
  using inv_catalog[of db]
  by (auto simp: historical_walk_def store_files_def catalog_below_set)

lemma walk_all_spec:
  assumes inv: "inv (wk_db w)"
  shows "inv (wk_db (walk_all step w)) \<and> same_shape (wk_db w) (wk_db (walk_all step w))
    \<and> rel w (walk_all step w)
    \<and> set (wk_pending (walk_all step w)) \<subseteq> set (wk_pending w)
    \<and> (\<forall>g k. holds (wk_db (walk_all step w)) g k \<longrightarrow> holds (wk_db w) g k)
    \<and> (wk_complete (walk_all step w) \<longrightarrow> wk_complete w
        \<and> (\<forall>i \<in> set (indices_of (db_mode (wk_db w))).
             \<forall>v \<in> set (catalog_below (db_catalogs (wk_db w) i) (db_current_versions (wk_db w) i)).
             \<forall>r \<in> set (wk_pending (walk_all step w)). \<not> holds (wk_db (walk_all step w)) (i, v) (key r)))"
proof -
  let ?seen = "get_cached_files (db_file_cache (wk_db w))"
  let ?w1 = "walk_files step (cached_walk (wk_db w)) w"
  have "set (cached_walk (wk_db w)) \<subseteq> store_files (wk_db w)"
    using cached_walk_files[OF inv] inv_cached[OF inv] by simp
  note one = walk_files_spec[OF inv this]
  have inv1: "inv (wk_db ?w1)" using one by blast
  let ?w2 = "walk_files step (historical_walk ?seen (wk_db ?w1)) ?w1"
  note two = walk_files_spec[OF inv1 historical_walk_files[OF inv1, of ?seen]]
  have w2: "walk_all step w = ?w2" by (simp add: walk_all_def Let_def)
  have cover: "(i, v) \<in> set (cached_walk (wk_db w)) \<union> set (historical_walk ?seen (wk_db ?w1))"
    if "i \<in> set (indices_of (db_mode (wk_db w)))"
      "v \<in> set (catalog_below (db_catalogs (wk_db w) i) (db_current_versions (wk_db w) i))" for i v
  proof -
    have "same_shape (wk_db w) (wk_db ?w1)" using one by blast
    then have eqs: "db_mode (wk_db ?w1) = db_mode (wk_db w)"
      "db_current_versions (wk_db ?w1) = db_current_versions (wk_db w)"
      "catalog_below (db_catalogs (wk_db ?w1) j) u = catalog_below (db_catalogs (wk_db w) j) u" for j u
      by (simp_all add: same_shape_def catalog_below_def)
    have "(i, v) \<in> set (historical_walk ?seen (wk_db ?w1))" if "(i, v) \<notin> set ?seen"
      using that \<open>i \<in> _\<close> \<open>v \<in> _\<close> by (auto simp: historical_walk_def eqs)
    then show ?thesis
      using cached_walk_files[OF inv] by (auto simp: get_cached_files_def cached_keys_def)
  qed
  have "\<not> holds (wk_db ?w2) (i, v) (key r)"
    if "wk_complete ?w2" "i \<in> set (indices_of (db_mode (wk_db w)))"
      "v \<in> set (catalog_below (db_catalogs (wk_db w) i) (db_current_versions (wk_db w) i))"
      "r \<in> set (wk_pending ?w2)" for i v r
    using cover[OF that(2,3)] one two that(1,4) by blast
  then show ?thesis
    unfolding w2 using one two same_shape_trans rel_trans by blast
qed

end

section \<open>Opening a file of the store\<close>

definition file_holds :: "'v database \<Rightarrow> file_key \<Rightarrow> raw_outpoint \<Rightarrow> bool" where
  "file_holds db f k \<longleftrightarrow> tbl_find (file_map db (fst f) (snd f)) k \<noteq> None"

lemma opened_file:
  assumes inv: "store_inv E db" and f: "(i, v) \<in> store_files db"
    and run: "get_or_open E i v (db_file_cache db, db_disk db) = (r, c, d)"
  shows "store_inv E (db\<lparr>db_file_cache := c, db_disk := d\<rparr>)"
    and "stored (db\<lparr>db_file_cache := c, db_disk := d\<rparr>) = stored db"
    and "file_map (db\<lparr>db_file_cache := c, db_disk := d\<rparr>) j w = file_map db j w"
    and "files d = files (db_disk db)"
proof -
  let ?db = "db\<lparr>db_file_cache := c, db_disk := d\<rparr>"
  have cinv: "cache_inv (db_file_cache db)" and keys: "cached_keys (db_file_cache db) \<subseteq> store_files db"
    using inv by (simp_all add: store_inv_def)
  note spec = get_or_open_spec[OF cinv run]
  have same: "files d = files (db_disk db)" using spec by (simp add: same_disk_def)
  then show "files d = files (db_disk db)" .
  show "file_map ?db j w = file_map db j w"
    using same_files_generation(1)[OF same] by (simp add: file_map_def)
  have sub: "cached_keys c \<subseteq> store_files db" using spec keys f by (cases r) auto
  have id: "fc_database_id c = fc_database_id (db_file_cache db)"
    using run by (auto simp: get_or_open_def Let_def split: option.splits prod.splits sum.splits if_splits)
  show "store_inv E ?db" "stored ?db = stored db"
    using store_inv_same_files[OF inv, of ?db] same spec sub id by simp_all
qed

lemma opened_file_present:
  assumes inv: "store_inv E db" and f: "(i, v) \<in> store_files db" and calm: "\<forall>n. \<not> fails E n"
    and run: "get_or_open E i v (db_file_cache db, db_disk db) = (r, c, d)"
  shows "r \<noteq> None"
proof -
  have i: "i \<in> set (indices_of (db_mode db))" and v: "v \<in> set (vc_versions (db_catalogs db i))"
    using f by (simp_all add: store_files_def)
  then have "serving E db i" using inv by (simp add: store_inv_def)
  from serving_generation_ok[OF this v] obtain s t where "lookup_file (db_disk db) (data_path i v) = Some (Segment s)"
    "good_segment (local_build E) (db_database_id db) (kind_of_index i) v s t"
    by (auto simp: generation_ok_def)
  then have "\<exists>d'. open_checked E (db_database_id db) (kind_of_index i) (data_path i v) v (tick (db_disk db)) = (Inr t, d')"
    using open_checked_good[of "tick (db_disk db)"] calm by simp
  moreover have "fc_database_id (db_file_cache db) = db_database_id db" using inv by (simp add: store_inv_def)
  ultimately show ?thesis
    using run by (auto simp: get_or_open_def Let_def split: option.splits prod.splits sum.splits if_splits)
qed

lemma store_file_known: "f \<in> store_files db \<Longrightarrow> known_container (fst f)"
  by (auto simp: store_files_def known_container_def indices_of_def split: storage_mode.splits)

section \<open>The working set\<close>

lemma first_of_each_spec:
  "distinct (map key (first_of_each key seen rs))
   \<and> key ` set (first_of_each key seen rs) = key ` set rs - set seen
   \<and> set (first_of_each key seen rs) \<subseteq> set rs"
  by (induction rs arbitrary: seen) auto

lemma working_set_spec:
  "distinct (map key (working_set_of key rs))" "key ` set (working_set_of key rs) = key ` set rs"
  "set (working_set_of key rs) \<subseteq> set rs"
  using first_of_each_spec[of key "[]" rs] by (simp_all add: working_set_of_def)

lemma mset_map_split:
  "mset (map f xs) = mset (map f (filter (\<lambda>x. \<not> P x) xs)) + mset (map f (filter P xs))"
  by (induction xs) auto

lemma covering_complete:
  assumes step: "\<And>f w. I (wk_db w) \<Longrightarrow> f \<in> store_files (wk_db w) \<Longrightarrow> wk_complete w \<Longrightarrow>
      I (wk_db (step f w)) \<and> store_files (wk_db (step f w)) = store_files (wk_db w) \<and> wk_complete (step f w)"
  shows "I (wk_db w) \<Longrightarrow> set fs \<subseteq> store_files (wk_db w) \<Longrightarrow> wk_complete w
    \<Longrightarrow> wk_complete (walk_files step fs w)"
proof (induction fs arbitrary: w)
  case (Cons f fs)
  then show ?case using step[of w f] by auto
qed simp

section \<open>A store with two generations\<close>

text \<open>
  For concrete runs: every container has the versions 0 and 1; in the first container version 0
  holds the key \<open>old_key\<close> and the active version 1 holds \<open>new_key\<close>.
\<close>

definition old_key :: raw_outpoint where "old_key = replicate 36 7"
definition new_key :: raw_outpoint where "new_key = replicate 36 8"
definition other_key :: raw_outpoint where "other_key = replicate 36 9"

definition example_value :: utxo_value where
  "example_value = \<lparr>uv_block_height = 5, uv_actual_size = 2, uv_data = replicate 42 1\<rparr>"

definition example_entry :: reference_value where
  "example_entry = \<lparr>rv_height = 5, rv_file_number = 1, rv_offset = 80\<rparr>"

lemma example_keys [simp]: "old_key \<noteq> new_key" "new_key \<noteq> old_key" "old_key \<noteq> other_key"
  "other_key \<noteq> old_key" "new_key \<noteq> other_key" "other_key \<noteq> new_key"
  by (simp_all add: old_key_def new_key_def other_key_def)

definition layered_table :: "storage_mode \<Rightarrow> 'v \<Rightarrow> u64 \<Rightarrow> u64 \<Rightarrow> 'v flat_map" where
  "layered_table m a i v =
     (if i = hd (indices_of m) then tbl_add 959 839 (if v = 0 then old_key else new_key) a (tbl_empty 959 839)
      else tbl_empty 959 839)"

definition layered_files :: "storage_mode \<Rightarrow> 'v \<Rightarrow> 'v directory" where
  "layered_files m a = (config_path, Plain (encode_config (local_config example_build m (replicate 16 1)))) #
     concat (map (\<lambda>i. map (\<lambda>v. (data_path i v,
       Segment (example_segment (kind_of_index i) v (layered_table m a i v)))) [0, 1]) (indices_of m))"

definition layered_store :: "storage_mode \<Rightarrow> 'v \<Rightarrow> 'v database" where
  "layered_store m a = (example_db (layered_files m a) [0, 1])\<lparr>db_mode := m,
     db_mapped := \<lambda>i. i \<in> set (indices_of m), db_entries_count := 2,
     db_catalogs := \<lambda>_. \<lparr>vc_versions = [0, 1], vc_metadata = [], vc_highest_issued = 1\<rparr>\<rparr>"

lemma layered_fields [simp]:
  "db_mode (layered_store m a) = m" "db_mapped (layered_store m a) i \<longleftrightarrow> i \<in> set (indices_of m)"
  "db_entries_count (layered_store m a) = 2" "db_current_versions (layered_store m a) i = 1"
  "db_catalogs (layered_store m a) i = \<lparr>vc_versions = [0, 1], vc_metadata = [], vc_highest_issued = 1\<rparr>"
  "db_file_cache (layered_store m a) = new_file_cache (replicate 16 1) 1"
  "db_database_id (layered_store m a) = replicate 16 1"
  by (simp_all add: layered_store_def example_db_def)

lemma map_of_layered:
  "distinct is \<Longrightarrow> i \<in> set is \<Longrightarrow> v = 0 \<or> v = 1
   \<Longrightarrow> map_of (concat (map (\<lambda>i. map (\<lambda>v. (data_path i v, h i v)) [0, 1]) is)) (data_path i v) = Some (h i v)"
  by (induction "is") auto

lemma distinct_indices: "distinct (indices_of m)"
  by (cases m) (simp_all add: indices_of_def full_indices_def)

lemma layered_generation:
  assumes "i \<in> set (indices_of m)" "v = 0 \<or> v = 1"
  shows "lookup_file (db_disk (layered_store m a)) (data_path i v)
      = Some (Segment (example_segment (kind_of_index i) v (layered_table m a i v)))"
    and "generation (db_disk (layered_store m a)) i v = Some (layered_table m a i v)"
proof -
  show "lookup_file (db_disk (layered_store m a)) (data_path i v)
      = Some (Segment (example_segment (kind_of_index i) v (layered_table m a i v)))"
    using map_of_layered[OF distinct_indices assms]
    by (simp add: layered_store_def example_db_def layered_files_def)
  then show "generation (db_disk (layered_store m a)) i v = Some (layered_table m a i v)"
    by (simp add: generation_def example_segment_def)
qed

lemma layered_table_ok: "tbl_ok (layered_table m a i v)"
  by (simp add: layered_table_def table.add_ok)

lemma layered_store_inv: "store_inv calm_env (layered_store m a)"
proof -
  have "generation_ok calm_env (replicate 16 1) (db_disk (layered_store m a)) i v"
    if "i \<in> set (indices_of m)" "v = 0 \<or> v = 1" for i v
    unfolding generation_ok_def
    using layered_generation(1)[OF that, of a] layered_table_ok[of m a i v]
      example_segment_good[of "kind_of_index i" v "layered_table m a i v"] by simp blast
  then show ?thesis
    by (auto simp: store_inv_def serving_def container_inv_def catalog_inv_def catalog_active_def
        cache_inv_def cached_keys_def new_file_cache_def)
qed

lemma layered_store_files: "(i, v) \<in> store_files (layered_store m a)
    \<longleftrightarrow> i \<in> set (indices_of m) \<and> (v = 0 \<or> v = 1)"
  by (auto simp: store_files_def)

lemma layered_file_map:
  "i \<in> set (indices_of m) \<Longrightarrow> v = 0 \<or> v = 1
   \<Longrightarrow> file_map (layered_store m a) i v = layered_table m a i v"
  using layered_generation(2)[of i m v a] by (simp add: file_map_def)

end
