(* ===== verification/Resolving.thy ===== *)
theory Resolving
  imports Walk_Facts
begin

text \<open>
  Resolution answers a batch from the versions below the active ones: the contract of
  \<open>full_resolve\<close> and \<open>reference_resolve\<close>, and of the lookups in the active versions.
\<close>

section \<open>One step of a resolution\<close>

type_synonym 'v resolve_walk = "(lookup_request, raw_outpoint \<times> 'v, 'v) walk"

definition resolve_rel :: "'v resolve_walk \<Rightarrow> 'v resolve_walk \<Rightarrow> bool" where
  "resolve_rel w w' \<longleftrightarrow> stored (wk_db w') = stored (wk_db w)
     \<and> (\<forall>i v. file_map (wk_db w') i v = file_map (wk_db w) i v)
     \<and> (\<exists>hits. wk_done w' = wk_done w @ hits \<and> set hits \<subseteq> set_mset (stored (wk_db w))
          \<and> mset (map lr_key (wk_pending w))
            = mset (map lr_key (wk_pending w')) + mset (map fst hits))"

lemma resolve_rel_refl: "resolve_rel w w"
  by (simp add: resolve_rel_def)

lemma resolve_rel_trans: "resolve_rel a b \<Longrightarrow> resolve_rel b c \<Longrightarrow> resolve_rel a c"
  unfolding resolve_rel_def
  by (elim conjE exE, intro conjI)
    (auto simp: ac_simps intro!: exI[where x = "_ @ _"])

lemma probe_file_spec:
  assumes inv: "store_inv E (wk_db w)" and f: "(i, v) \<in> store_files (wk_db w)"
  shows "resolve_rel w (probe_file i v w)" and "wk_db (probe_file i v w) = wk_db w"
    and "wk_complete (probe_file i v w) = wk_complete w"
    and "set (wk_pending (probe_file i v w)) \<subseteq> set (wk_pending w)"
    and "\<forall>r \<in> set (wk_pending (probe_file i v w)). \<not> file_holds (wk_db w) (i, v) (lr_key r)"
proof -
  let ?t = "file_map (wk_db w) i v"
  let ?hit = "\<lambda>r. tbl_find ?t (lr_key r) \<noteq> None"
  let ?hits = "map (\<lambda>r. (lr_key r, the (tbl_find ?t (lr_key r)))) (filter ?hit (wk_pending w))"
  have ok: "tbl_ok ?t" using store_file_ok(1)[OF inv f] by auto
  have "x \<in># stored (wk_db w)" if "x \<in> set ?hits" for x
  proof -
    obtain k y where x: "x = (k, y)" "tbl_find ?t k = Some y" using \<open>x \<in> set ?hits\<close> by auto
    then have "x \<in># tbl_bag ?t" using table.find_bag[OF ok] by simp
    then show ?thesis using store_file_ok(2)[OF inv f] by (rule mset_subset_eqD[rotated])
  qed
  then have hits: "set ?hits \<subseteq> set_mset (stored (wk_db w))" by blast
  have fields: "wk_done (probe_file i v w) = wk_done w @ ?hits" "wk_db (probe_file i v w) = wk_db w"
    "wk_pending (probe_file i v w) = filter (\<lambda>r. \<not> ?hit r) (wk_pending w)"
    by (simp_all add: probe_file_def Let_def)
  have "map fst ?hits = map lr_key (filter ?hit (wk_pending w))" by (simp add: comp_def)
  then have split: "mset (map lr_key (wk_pending w))
      = mset (map lr_key (wk_pending (probe_file i v w))) + mset (map fst ?hits)"
    unfolding fields(3) by (simp only: mset_map_split[of lr_key "wk_pending w" ?hit])
  show "resolve_rel w (probe_file i v w)"
    unfolding resolve_rel_def
  proof (intro conjI exI[of _ ?hits])
    show "wk_done (probe_file i v w) = wk_done w @ ?hits" by (rule fields(1))
    show "set ?hits \<subseteq> set_mset (stored (wk_db w))" by (rule hits)
    show "mset (map lr_key (wk_pending w))
        = mset (map lr_key (wk_pending (probe_file i v w))) + mset (map fst ?hits)" by (rule split)
  qed (simp_all add: fields(2))
qed (auto simp: probe_file_def Let_def file_holds_def)

lemma resolve_step_spec:
  assumes inv: "store_inv E (wk_db w)" and f: "f \<in> store_files (wk_db w)"
  shows "store_inv E (wk_db (resolve_step E f w)) \<and> same_shape (wk_db w) (wk_db (resolve_step E f w))
      \<and> resolve_rel w (resolve_step E f w)"
    and "wk_complete (resolve_step E f w) \<Longrightarrow> wk_complete w
      \<and> (\<forall>r \<in> set (wk_pending (resolve_step E f w)).
            \<not> file_holds (wk_db (resolve_step E f w)) f (lr_key r))"
    and "set (wk_pending (resolve_step E f w)) \<subseteq> set (wk_pending w)"
    and "file_holds (wk_db (resolve_step E f w)) g k \<Longrightarrow> file_holds (wk_db w) g k"
    and "\<forall>n. \<not> fails E n \<Longrightarrow> wk_complete w \<Longrightarrow> wk_complete (resolve_step E f w)"
proof -
  obtain i v where iv: "f = (i, v)" by (cases f)
  have f': "(i, v) \<in> store_files (wk_db w)" using f iv by simp
  obtain r c d where run: "get_or_open E i v (db_file_cache (wk_db w), db_disk (wk_db w)) = (r, c, d)"
    by (metis prod_cases3)
  note op = opened_file[OF inv f' run]
  let ?db = "(wk_db w)\<lparr>db_file_cache := c, db_disk := d\<rparr>"
  let ?w = "w\<lparr>wk_db := ?db\<rparr>"
  have files: "(i, v) \<in> store_files (wk_db ?w)" using f' by (simp add: same_shape_files[OF same_shape_disk(2)])
  have inv': "store_inv E (wk_db ?w)" using op(1) by simp
  note probe = probe_file_spec[OF inv' files]
  have rel: "resolve_rel w ?w" "resolve_rel w (?w\<lparr>wk_complete := False\<rparr>)"
    using op(2,3) by (simp_all add: resolve_rel_def)
  have holds: "file_holds ?db g k = file_holds (wk_db w) g k" for g k
    using op(3) by (simp add: file_holds_def)
  have step: "resolve_step E f w = (case r of None \<Rightarrow> ?w\<lparr>wk_complete := False\<rparr>
      | Some _ \<Rightarrow> probe_file i v ?w)"
    using run store_file_known[OF f] by (simp add: resolve_step_def visit_file_def iv split: option.splits)
  show "store_inv E (wk_db (resolve_step E f w)) \<and> same_shape (wk_db w) (wk_db (resolve_step E f w))
      \<and> resolve_rel w (resolve_step E f w)"
    using inv' rel probe(1,2) resolve_rel_trans[OF rel(1)] by (cases r) (simp_all add: step)
  show "wk_complete w \<and> (\<forall>r \<in> set (wk_pending (resolve_step E f w)).
        \<not> file_holds (wk_db (resolve_step E f w)) f (lr_key r))" if "wk_complete (resolve_step E f w)"
    using that probe(2,3,5) unfolding step by (cases r) (simp_all add: iv)
  show "set (wk_pending (resolve_step E f w)) \<subseteq> set (wk_pending w)"
    using probe(4) by (cases r) (simp_all add: step)
  show "file_holds (wk_db w) g k" if "file_holds (wk_db (resolve_step E f w)) g k"
    using that probe(2) holds by (cases r) (simp_all add: step)
  show "wk_complete (resolve_step E f w)" if "\<forall>n. \<not> fails E n" "wk_complete w"
    using that opened_file_present[OF inv f' _ run] probe(3) by (cases r) (simp_all add: step)
qed

interpretation resolving: covering_walk lr_key "resolve_step E" "store_inv E" resolve_rel file_holds
  for E :: "'v env"
proof
  show "cached_keys (db_file_cache db) \<subseteq> store_files db" if "store_inv E db" for db :: "'v database"
    using that by (simp add: store_inv_def)
  show "catalog_inv (db_catalogs db i)" if "store_inv E db" "i \<in> set (indices_of (db_mode db))"
    for db :: "'v database" and i
    using that by (simp add: store_inv_def serving_def container_inv_def)
qed (fact resolve_rel_refl resolve_rel_trans resolve_step_spec)+

section \<open>The contract of a resolution\<close>

text \<open>A walk over a store whose every open succeeds ends complete.\<close>

lemma resolve_walk_complete:
  fixes E :: "'v env" and w :: "'v resolve_walk"
  assumes inv: "store_inv E (wk_db w)" and calm: "\<forall>n. \<not> fails E n" and ok: "wk_complete w"
  shows "wk_complete (walk_all (resolve_step E) w)"
proof -
  have step: "store_inv E (wk_db (resolve_step E f w)) \<and> store_files (wk_db (resolve_step E f w)) = store_files (wk_db w)
      \<and> wk_complete (resolve_step E f w)"
    if "store_inv E (wk_db w)" "f \<in> store_files (wk_db w)" "wk_complete w" for f and w :: "'v resolve_walk"
    using resolve_step_spec[OF that(1,2)] same_shape_files calm that(3) by blast
  have each: "wk_complete (walk_files (resolve_step E) fs w)"
    if "store_inv E (wk_db w)" "set fs \<subseteq> store_files (wk_db w)" "wk_complete w"
    for fs and w :: "'v resolve_walk"
    by (rule covering_complete[of "store_inv E", OF _ that]) (use step in blast)
  let ?w1 = "walk_files (resolve_step E) (cached_walk (wk_db w)) w"
  have sub: "set (cached_walk (wk_db w)) \<subseteq> store_files (wk_db w)"
    using resolving.cached_walk_files[OF inv] inv by (simp add: store_inv_def)
  have "wk_complete ?w1" by (rule each[OF inv sub ok])
  moreover have inv1: "store_inv E (wk_db ?w1)" using resolving.walk_files_spec[OF inv sub] by blast
  ultimately show ?thesis
    using each[OF inv1 resolving.historical_walk_files[OF inv1]] by (simp add: walk_all_def Let_def)
qed

definition below_active :: "'v database \<Rightarrow> file_key set" where
  "below_active db = {(i, v). i \<in> set (indices_of (db_mode db))
     \<and> v \<in> set (catalog_below (db_catalogs db i) (db_current_versions db i))}"

lemma resolve_with_spec:
  fixes E :: "'v env" and db :: "'v database"
  assumes inv: "store_inv E db" and run: "resolve_with E answer requests db = (r, db')"
  shows "store_inv E db'" and "stored db' = stored db"
    and "r = Inl e \<Longrightarrow> e = Version_unreadable"
    and "r = Inr res \<Longrightarrow> mset (map fst (rs_found res)) + mset (map lr_key (rs_absent res))
           = mset (map lr_key (working_set_of lr_key requests))"
    and "r = Inr res \<Longrightarrow> (k, a) \<in> set (rs_found res) \<Longrightarrow> \<exists>v. (k, v) \<in># stored db \<and> a = answer v"
    and "r = Inr res \<Longrightarrow> q \<in> set (rs_absent res) \<Longrightarrow> f \<in> below_active db \<Longrightarrow> \<not> file_holds db f (lr_key q)"
    and "\<forall>n. \<not> fails E n \<Longrightarrow> \<exists>res. r = Inr res"
proof -
  let ?start = "\<lparr>wk_pending = working_set_of lr_key requests, wk_done = [], wk_complete = True, wk_db = db\<rparr>"
  let ?w = "walk_all (resolve_step E) ?start"
  have inv0: "store_inv E (wk_db ?start)" using inv by simp
  note walk = resolving.walk_all_spec[OF inv0]
  have rel: "resolve_rel ?start ?w" using walk by blast
  obtain hits where hits: "wk_done ?w = hits" "set hits \<subseteq> set_mset (stored db)"
    "mset (map lr_key (working_set_of lr_key requests)) = mset (map lr_key (wk_pending ?w)) + mset (map fst hits)"
    using rel by (auto simp: resolve_rel_def)
  have held: "file_holds (wk_db ?w) f k = file_holds db f k" for f k
    using rel by (simp add: resolve_rel_def file_holds_def)
  show "store_inv E db'" "stored db' = stored db"
    using run walk inv rel by (auto simp: resolve_with_def Let_def resolve_rel_def split: if_splits)
  show "e = Version_unreadable" if "r = Inl e"
    using run that by (auto simp: resolve_with_def Let_def split: if_splits)
  show "\<exists>res. r = Inr res" if calm: "\<forall>n. \<not> fails E n"
    using run resolve_walk_complete[OF inv0 calm] by (auto simp: resolve_with_def Let_def split: if_splits)
  assume r: "r = Inr res"
  show "mset (map fst (rs_found res)) + mset (map lr_key (rs_absent res))
      = mset (map lr_key (working_set_of lr_key requests))"
  proof (cases "requests = []")
    case True
    with run r show ?thesis by (auto simp: resolve_with_def working_set_of_def)
  next
    case False
    with run r have "rs_found res = map (map_prod id answer) hits" "rs_absent res = wk_pending ?w"
      using hits(1) by (auto simp: resolve_with_def Let_def split: if_splits)
    with hits(3) show ?thesis by (simp add: comp_def add.commute)
  qed
  show "\<exists>v. (k, v) \<in># stored db \<and> a = answer v" if ka: "(k, a) \<in> set (rs_found res)"
  proof -
    have "rs_found res = [] \<or> rs_found res = map (map_prod id answer) hits"
      using run r hits(1) by (auto simp: resolve_with_def Let_def split: if_splits)
    then obtain v where "(k, v) \<in> set hits" "a = answer v" using ka by auto
    then show ?thesis using hits(2) by auto
  qed
  show "\<not> file_holds db f (lr_key q)" if "q \<in> set (rs_absent res)" "f \<in> below_active db"
  proof -
    have "wk_complete ?w" "q \<in> set (wk_pending ?w)"
      using run r that(1) by (auto simp: resolve_with_def Let_def split: if_splits)
    then have "\<not> file_holds (wk_db ?w) f (lr_key q)"
      using walk that(2) by (auto simp: below_active_def)
    then show ?thesis by (simp add: held)
  qed
qed

lemma full_resolve_spec:
  assumes inv: "store_inv E db" and run: "full_resolve E requests db = (r, db')"
  shows "store_inv E db' \<and> stored db' = stored db
    \<and> (case r of
         Inl e \<Rightarrow> e = Version_unreadable
       | Inr res \<Rightarrow>
           mset (map fst (rs_found res)) + mset (map lr_key (rs_absent res))
             = mset (map lr_key (working_set_of lr_key requests))
           \<and> distinct (map fst (rs_found res) @ map lr_key (rs_absent res))
           \<and> (\<forall>(k, a) \<in> set (rs_found res). \<exists>v. (k, v) \<in># stored db \<and> a = full_result_of v)
           \<and> (\<forall>q \<in> set (rs_absent res). \<forall>f \<in> below_active db. \<not> file_holds db f (lr_key q)))
    \<and> ((\<forall>n. \<not> fails E n) \<longrightarrow> (\<exists>res. r = Inr res))"
proof -
  note spec = resolve_with_spec[OF inv run[unfolded full_resolve_def]]
  have "distinct (map fst (rs_found res) @ map lr_key (rs_absent res))" if "r = Inr res" for res
    using spec(4)[OF that] working_set_spec(1)[of lr_key requests]
    by (metis mset_append mset_eq_imp_distinct_iff)
  with spec show ?thesis by (cases r) auto
qed

text \<open>
  C19: resolving a batch in full mode. Either it fails and gives no lists, or every distinct key
  asked for is in exactly one of \<open>found\<close> and \<open>absent\<close>: found with the value of an entry that is
  stored, absent only if no version below the active ones holds it. Nothing stored changes, and if
  no call of the system fails the batch is answered.
\<close>

theorem full_resolve_correct:
  assumes inv: "store_inv E db" and run: "full_resolve E requests db = (r, db')"
  shows "store_inv E db' \<and> stored db' = stored db
    \<and> (case r of
         Inl e \<Rightarrow> e = Version_unreadable
       | Inr res \<Rightarrow>
           mset (map fst (rs_found res)) + mset (map lr_key (rs_absent res))
             = mset (map lr_key (working_set_of lr_key requests))
           \<and> distinct (map fst (rs_found res) @ map lr_key (rs_absent res))
           \<and> (\<forall>(k, a) \<in> set (rs_found res). \<exists>v. (k, v) \<in># stored db \<and> a = full_result_of v)
           \<and> (\<forall>q \<in> set (rs_absent res). \<forall>f \<in> below_active db. \<not> file_holds db f (lr_key q)))
    \<and> ((\<forall>n. \<not> fails E n) \<longrightarrow> (\<exists>res. r = Inr res))"
  by (rule full_resolve_spec[OF assms])

theorem full_resolve_correct_witness:
  "\<exists>res db'. full_resolve calm_env [\<lparr>lr_key = old_key, lr_height = 5\<rparr>, \<lparr>lr_key = other_key, lr_height = 5\<rparr>]
        (layered_store Full_mode example_value) = (Inr res, db')
     \<and> mset (map fst (rs_found res)) + mset (map lr_key (rs_absent res)) = {#old_key, other_key#}"
proof -
  let ?rs = "[\<lparr>lr_key = old_key, lr_height = 5\<rparr>, \<lparr>lr_key = other_key, lr_height = 5\<rparr>]"
  obtain r db' where run: "full_resolve calm_env ?rs (layered_store Full_mode example_value) = (r, db')" by fastforce
  note spec = full_resolve_correct[OF layered_store_inv run]
  obtain res where "r = Inr res" using spec by auto
  with spec run show ?thesis by (simp add: working_set_of_def)
qed

text \<open>
   the same contract for the typed resolution of reference mode.
\<close>

theorem reference_resolve_correct:
  assumes inv: "store_inv E db" and run: "reference_resolve E requests db = (r, db')"
  shows "store_inv E db' \<and> stored db' = stored db
    \<and> (case r of
         Inl e \<Rightarrow> e = Version_unreadable
       | Inr res \<Rightarrow>
           mset (map fst (rs_found res)) + mset (map lr_key (rs_absent res))
             = mset (map lr_key (working_set_of lr_key requests))
           \<and> (\<forall>(k, a) \<in> set (rs_found res). \<exists>v. (k, v) \<in># stored db \<and> a = reference_result_of v)
           \<and> (\<forall>q \<in> set (rs_absent res). \<forall>f \<in> below_active db. \<not> file_holds db f (lr_key q)))
    \<and> ((\<forall>n. \<not> fails E n) \<longrightarrow> (\<exists>res. r = Inr res))"
  using resolve_with_spec[OF inv run[unfolded reference_resolve_def]] by (cases r) auto

theorem reference_resolve_correct_witness:
  "\<exists>res db'. reference_resolve calm_env [\<lparr>lr_key = old_key, lr_height = 5\<rparr>, \<lparr>lr_key = other_key, lr_height = 5\<rparr>]
        (layered_store Reference_mode example_entry) = (Inr res, db')
     \<and> mset (map fst (rs_found res)) + mset (map lr_key (rs_absent res)) = {#old_key, other_key#}"
proof -
  let ?rs = "[\<lparr>lr_key = old_key, lr_height = 5\<rparr>, \<lparr>lr_key = other_key, lr_height = 5\<rparr>]"
  obtain r db' where run: "reference_resolve calm_env ?rs (layered_store Reference_mode example_entry) = (r, db')"
    by fastforce
  note spec = reference_resolve_correct[OF layered_store_inv run]
  obtain res where "r = Inr res" using spec by auto
  with spec run show ?thesis by (simp add: working_set_of_def)
qed

section \<open>Lookups in the active versions\<close>

lemma find_in_latest_spec:
  "find_in_latest_version db is k = None \<longleftrightarrow> (\<forall>i \<in> set is. tbl_find (container db i) k = None)"
  "find_in_latest_version db is k = Some v \<Longrightarrow> \<exists>i \<in> set is. tbl_find (container db i) k = Some v"
  by (induction "is") (auto split: option.splits)

lemma full_find_spec:
  assumes "store_inv E db" "db_mode db = Full_mode"
  shows "(full_find db k = None \<longleftrightarrow> (\<forall>i \<in> set full_indices. k \<notin> fst ` set_mset (tbl_bag (container db i))))
    \<and> (\<forall>r. full_find db k = Some r \<longrightarrow> (\<exists>i \<in> set full_indices. \<exists>v.
          (k, v) \<in># tbl_bag (container db i) \<and> r = full_result_of v
        \<and> (\<forall>j \<in> set full_indices. j < i \<longrightarrow> k \<notin> fst ` set_mset (tbl_bag (container db j)))))"
proof -
  have ok: "tbl_ok (container db i)" if "i \<in> set full_indices" for i
    using assms that serving_container(2)[of E db i] by (auto simp: store_inv_def indices_of_def)
  have none: "tbl_find (container db i) k = None \<longleftrightarrow> k \<notin> fst ` set_mset (tbl_bag (container db i))"
    if "i \<in> set full_indices" for i
    using table.find_none_bag[OF ok[OF that]] .
  have "\<exists>i \<in> set full_indices. \<exists>v. tbl_find (container db i) k = Some v \<and> r = full_result_of v
      \<and> (\<forall>j \<in> set full_indices. j < i \<longrightarrow> tbl_find (container db j) k = None)"
    if "full_find db k = Some r" for r
    using that by (auto simp: full_find_def full_indices_def split: option.splits)
  then show ?thesis
    using none table.find_bag[OF ok] by (simp add: full_find_def find_in_latest_spec(1))
qed

text \<open>
  C33: \<open>full_find\<close> looks in the active version of the five classes and nowhere else: it answers with
  the value one of them holds for the key, the lowest class first, and with nothing exactly if no
  active version holds the key.
\<close>

theorem full_find_correct:
  assumes "store_inv E db" "db_mode db = Full_mode"
  shows "(full_find db k = None \<longleftrightarrow> (\<forall>i \<in> set full_indices. k \<notin> fst ` set_mset (tbl_bag (container db i))))
    \<and> (\<forall>r. full_find db k = Some r \<longrightarrow> (\<exists>i \<in> set full_indices. \<exists>v.
          (k, v) \<in># tbl_bag (container db i) \<and> r = full_result_of v
        \<and> (\<forall>j \<in> set full_indices. j < i \<longrightarrow> k \<notin> fst ` set_mset (tbl_bag (container db j)))))"
  by (rule full_find_spec[OF assms])

theorem full_find_correct_witness:
  "full_find (layered_store Full_mode example_value) other_key = None"
proof -
  have "container (layered_store Full_mode example_value) i = layered_table Full_mode example_value i 1" if "i \<in> set full_indices" for i
    using layered_generation(2)[of i Full_mode 1 example_value] that by (simp add: container_def indices_of_def)
  then show ?thesis
    using full_find_correct[OF layered_store_inv[of Full_mode example_value], of other_key]
    by (simp add: layered_table_def tbl_add_def tbl_bag_def)
qed

end
