(* ===== verification/Deleting.thy ===== *)
theory Deleting
  imports Walk_Facts
begin

text \<open>
  Batched deletion: the contract of \<open>apply_deletes\<close>. Every distinct request ends in exactly one of
  \<open>erased\<close>, \<open>absent\<close> and \<open>unresolved\<close>; exactly one entry leaves the store per erased request; and a
  request is reported absent only if no version holds its key any more.
\<close>

section \<open>The effect of some deletions\<close>

definition removes :: "deferred_deletion_entry list \<Rightarrow> 'v database \<Rightarrow> 'v database \<Rightarrow> bool" where
  "removes ds db db' \<longleftrightarrow> same_shape db db'
     \<and> (\<exists>es. map fst es = map dd_key ds \<and> stored db = stored db' + mset es)
     \<and> db_entries_count db' = db_entries_count db - word_of_nat (length ds)
     \<and> (\<forall>g k. file_holds db' g k \<longrightarrow> file_holds db g k)"

lemma removes_none: "removes [] db db"
  by (simp add: removes_def)

lemma removes_trans: "removes as a b \<Longrightarrow> removes bs b c \<Longrightarrow> removes (as @ bs) a c"
  unfolding removes_def
  by (elim conjE exE, intro conjI)
    (blast intro: same_shape_trans, rule exI[where x = "_ @ _"], auto simp: ac_simps)

lemma erase_one:
  assumes inv: "store_inv E db" and f: "(i, v) \<in> store_files db"
    and erase: "tbl_erase E n (dd_key r) (file_map db i v) = (m, t)" "m \<noteq> 0"
    and shape: "same_shape db db'" and cache: "db_file_cache db' = db_file_cache db"
    and disk: "db_disk db' = set_generation i v t d" "files d = files (db_disk db)"
    and count: "db_entries_count db' = db_entries_count db - 1"
  shows "store_inv E db'" and "removes [r] db db'" and "file_map db' i v = t"
proof -
  let ?old = "file_map db i v" and ?k = "dd_key r"
  have ok: "tbl_ok ?old" using store_file_ok(1)[OF inv f] by auto
  obtain x where x: "tbl_find ?old ?k = Some x" and t: "t = tbl_drop (on_erase E n ?old) ?k ?old"
    using erase by (auto simp: tbl_erase_def split: if_splits)
  have t_ok: "tbl_ok t" using table.del_ok[OF ok] by (simp add: t)
  note eff = write_generation[OF inv f t_ok shape cache disk]
  show "store_inv E db'" by (rule eff(1))
  show "file_map db' i v = t" by (simp add: file_map_def eff(3))
  have maps: "file_map db' j w = (if j = i \<and> w = v then t else file_map db j w)" for j w
    by (simp add: file_map_def eff(3))
  have "tbl_bag ?old = add_mset (?k, x) (tbl_bag t)"
    unfolding t by (rule table.del_bag[OF ok x])
  with eff(2) have "stored db = stored db' + mset [(?k, x)]" by simp
  moreover have "file_holds db g k" if "file_holds db' g k" for g k
    using that table.del_find[OF ok] by (auto simp: file_holds_def maps t split: if_splits)
  ultimately show "removes [r] db db'"
    using shape count unfolding removes_def
    by (intro conjI exI[of _ "[(?k, x)]"]) simp_all
qed

section \<open>The active versions\<close>

lemma container_file_map:
  assumes "store_inv E db" "i \<in> set (indices_of (db_mode db))"
  shows "container db i = file_map db i (db_current_versions db i)"
    and "(i, db_current_versions db i) \<in> store_files db"
  using assms serving_container[of E db i] by (simp_all add: store_inv_def file_map_def store_files_def)

lemma erase_in_latest_spec:
  assumes "store_inv E db" "set is \<subseteq> set (indices_of (db_mode db))"
    and "erase_in_latest_version E is (dd_key r) db = (n, db')"
  shows "(n = 0 \<longrightarrow> db' = db \<and> (\<forall>i \<in> set is. \<not> file_holds db (i, db_current_versions db i) (dd_key r)))
    \<and> (n \<noteq> 0 \<longrightarrow> store_inv E (db'\<lparr>db_entries_count := db_entries_count db' - 1\<rparr>)
       \<and> removes [r] db (db'\<lparr>db_entries_count := db_entries_count db' - 1\<rparr>))"
  using assms(2,3)
proof (induction "is")
  case (Cons i "is")
  obtain m t where erase: "tbl_erase E (ticks (db_disk db)) (dd_key r) (container db i) = (m, t)"
    by fastforce
  have i: "i \<in> set (indices_of (db_mode db))" using Cons.prems(1) by simp
  note here = container_file_map[OF assms(1) i]
  show ?case
  proof (cases "m = 0")
    case True
    then have "\<not> file_holds db (i, db_current_versions db i) (dd_key r)"
      using erase by (auto simp: file_holds_def here(1) tbl_erase_def split: if_splits)
    then show ?thesis using Cons True erase by simp
  next
    case False
    let ?db = "set_container i t (db\<lparr>db_disk := tick (db_disk db)\<rparr>)"
    have run: "db' = ?db" "n \<noteq> 0" using Cons.prems(2) erase False by simp_all
    have e: "tbl_erase E (ticks (db_disk db)) (dd_key r) (file_map db i (db_current_versions db i)) = (m, t)"
      using erase by (simp add: here(1))
    show ?thesis
      using erase_one(1,2)[OF assms(1) here(2) e False, of "?db\<lparr>db_entries_count := db_entries_count ?db - 1\<rparr>" "tick (db_disk db)"]
      by (simp add: run same_shape_def set_container_def)
  qed
qed simp

text \<open>The active phase, request by request.\<close>

lemma erase_active_spec:
  assumes "store_inv E (wk_db w)"
  shows "\<exists>ks ds. wk_pending (erase_active E rs w) = wk_pending w @ ks
    \<and> wk_done (erase_active E rs w) = wk_done w @ ds \<and> mset rs = mset ks + mset ds
    \<and> wk_complete (erase_active E rs w) = wk_complete w
    \<and> store_inv E (wk_db (erase_active E rs w)) \<and> removes ds (wk_db w) (wk_db (erase_active E rs w))
    \<and> (\<forall>r \<in> set ks. \<forall>i \<in> set (indices_of (db_mode (wk_db w))).
         \<not> file_holds (wk_db (erase_active E rs w)) (i, db_current_versions (wk_db w) i) (dd_key r))"
  using assms
proof (induction rs arbitrary: w)
  case Nil
  then show ?case by (simp add: removes_none)
next
  case (Cons r rs)
  let ?is = "indices_of (db_mode (wk_db w))"
  obtain n db where run: "erase_in_latest_version E ?is (dd_key r) (wk_db w) = (n, db)" by fastforce
  note one = erase_in_latest_spec[OF Cons.prems subset_refl run]
  show ?case
  proof (cases "n = 0")
    case True
    let ?w = "w\<lparr>wk_db := db, wk_pending := wk_pending w @ [r]\<rparr>"
    have db: "db = wk_db w" using one True by simp
    obtain ks ds where rest: "wk_pending (erase_active E rs ?w) = wk_pending w @ r # ks"
      "wk_done (erase_active E rs ?w) = wk_done w @ ds" "mset rs = mset ks + mset ds"
      "wk_complete (erase_active E rs ?w) = wk_complete w"
      "store_inv E (wk_db (erase_active E rs ?w))" "removes ds (wk_db w) (wk_db (erase_active E rs ?w))"
      "\<forall>r \<in> set ks. \<forall>i \<in> set ?is.
         \<not> file_holds (wk_db (erase_active E rs ?w)) (i, db_current_versions (wk_db w) i) (dd_key r)"
      using Cons.IH[of ?w] Cons.prems by (auto simp: db)
    have "\<forall>i \<in> set ?is. \<not> file_holds (wk_db (erase_active E rs ?w)) (i, db_current_versions (wk_db w) i) (dd_key r)"
      using rest(6) one True by (auto simp: removes_def)
    with rest show ?thesis
      by (intro exI[of _ "r # ks"] exI[of _ ds]) (simp add: run True)
  next
    case False
    let ?db = "db\<lparr>db_entries_count := db_entries_count db - 1\<rparr>"
    let ?w = "w\<lparr>wk_db := ?db, wk_done := wk_done w @ [r]\<rparr>"
    have first: "store_inv E ?db" "removes [r] (wk_db w) ?db" using one False by simp_all
    have shape: "db_mode ?db = db_mode (wk_db w)" "db_current_versions ?db = db_current_versions (wk_db w)"
      using first(2) by (simp_all add: removes_def same_shape_def)
    obtain ks ds where rest: "wk_pending (erase_active E rs ?w) = wk_pending w @ ks"
      "wk_done (erase_active E rs ?w) = wk_done w @ r # ds" "mset rs = mset ks + mset ds"
      "wk_complete (erase_active E rs ?w) = wk_complete w"
      "store_inv E (wk_db (erase_active E rs ?w))" "removes ds ?db (wk_db (erase_active E rs ?w))"
      "\<forall>r \<in> set ks. \<forall>i \<in> set ?is.
         \<not> file_holds (wk_db (erase_active E rs ?w)) (i, db_current_versions (wk_db w) i) (dd_key r)"
      using Cons.IH[of ?w] first(1) shape by auto
    have "removes (r # ds) (wk_db w) (wk_db (erase_active E rs ?w))"
      using removes_trans[OF first(2) rest(6)] by simp
    with rest False show ?thesis
      by (intro exI[of _ ks] exI[of _ "r # ds"]) (simp add: run)
  qed
qed

section \<open>One historical file\<close>

lemma step_over_file_spec:
  assumes "store_inv E (wk_db w)" "(i, v) \<in> store_files (wk_db w)"
  shows "\<exists>ks ds. wk_pending (step_over_file E i v rs w) = wk_pending w @ ks
    \<and> wk_done (step_over_file E i v rs w) = wk_done w @ ds \<and> mset rs = mset ks + mset ds
    \<and> wk_complete (step_over_file E i v rs w) = wk_complete w
    \<and> store_inv E (wk_db (step_over_file E i v rs w))
    \<and> removes ds (wk_db w) (wk_db (step_over_file E i v rs w))
    \<and> (\<forall>r \<in> set ks. \<not> file_holds (wk_db (step_over_file E i v rs w)) (i, v) (dd_key r))"
  using assms
proof (induction rs arbitrary: w)
  case Nil
  then show ?case by (simp add: removes_none)
next
  case (Cons r rs)
  let ?db = "wk_db w"
  obtain n t where erase: "tbl_erase E (ticks (db_disk ?db)) (dd_key r) (file_map ?db i v) = (n, t)"
    by fastforce
  show ?case
  proof (cases "n = 0")
    case True
    let ?w = "w\<lparr>wk_pending := wk_pending w @ [r]\<rparr>"
    obtain ks ds where rest: "wk_pending (step_over_file E i v rs ?w) = wk_pending w @ r # ks"
      "wk_done (step_over_file E i v rs ?w) = wk_done w @ ds" "mset rs = mset ks + mset ds"
      "wk_complete (step_over_file E i v rs ?w) = wk_complete w"
      "store_inv E (wk_db (step_over_file E i v rs ?w))"
      "removes ds ?db (wk_db (step_over_file E i v rs ?w))"
      "\<forall>r \<in> set ks. \<not> file_holds (wk_db (step_over_file E i v rs ?w)) (i, v) (dd_key r)"
      using Cons.IH[of ?w] Cons.prems by auto
    have "\<not> file_holds ?db (i, v) (dd_key r)"
      using erase True by (auto simp: file_holds_def tbl_erase_def split: if_splits)
    then have "\<not> file_holds (wk_db (step_over_file E i v rs ?w)) (i, v) (dd_key r)"
      using rest(6) by (auto simp: removes_def)
    with rest show ?thesis
      by (intro exI[of _ "r # ks"] exI[of _ ds]) (simp add: erase True)
  next
    case False
    let ?d = "?db\<lparr>db_disk := set_generation i v t (tick (db_disk ?db)),
        db_entries_count := db_entries_count ?db - 1\<rparr>"
    let ?db' = "update_metadata_on_delete i v (note_dirty i v ?d)"
    let ?w = "w\<lparr>wk_done := wk_done w @ [r], wk_db := ?db'\<rparr>"
    have fields: "same_shape ?db ?db'" "db_file_cache ?db' = db_file_cache ?db"
      "db_disk ?db' = set_generation i v t (tick (db_disk ?db))"
      "db_entries_count ?db' = db_entries_count ?db - 1"
      by (simp_all add: update_metadata_on_delete_def note_dirty_def same_shape_def split: option.splits)
    note first = erase_one[OF Cons.prems erase False fields(1,2,3) _ fields(4)]
    have first: "store_inv E ?db'" "removes [r] ?db ?db'" using first by simp_all
    have "(i, v) \<in> store_files ?db'" using Cons.prems(2) same_shape_files[OF fields(1)] by simp
    then obtain ks ds where rest: "wk_pending (step_over_file E i v rs ?w) = wk_pending w @ ks"
      "wk_done (step_over_file E i v rs ?w) = wk_done w @ r # ds" "mset rs = mset ks + mset ds"
      "wk_complete (step_over_file E i v rs ?w) = wk_complete w"
      "store_inv E (wk_db (step_over_file E i v rs ?w))"
      "removes ds ?db' (wk_db (step_over_file E i v rs ?w))"
      "\<forall>r \<in> set ks. \<not> file_holds (wk_db (step_over_file E i v rs ?w)) (i, v) (dd_key r)"
      using Cons.IH[of ?w] first(1) by auto
    have "removes (r # ds) ?db (wk_db (step_over_file E i v rs ?w))"
      using removes_trans[OF first(2) rest(6)] by simp
    moreover have "step_over_file E i v (r # rs) w = step_over_file E i v rs ?w"
      using False by (simp add: erase Let_def)
    ultimately show ?thesis using rest
      by (intro exI[of _ ks] exI[of _ "r # ds"]) simp
  qed
qed

section \<open>One step of the walk\<close>

type_synonym 'v delete_walk = "(deferred_deletion_entry, deferred_deletion_entry, 'v) walk"

definition delete_rel :: "'v delete_walk \<Rightarrow> 'v delete_walk \<Rightarrow> bool" where
  "delete_rel w w' \<longleftrightarrow> (\<exists>ds. wk_done w' = wk_done w @ ds
     \<and> mset (wk_pending w) = mset (wk_pending w') + mset ds \<and> removes ds (wk_db w) (wk_db w'))"

lemma delete_rel_refl: "delete_rel w w"
  by (simp add: delete_rel_def removes_none)

lemma delete_rel_trans: "delete_rel a b \<Longrightarrow> delete_rel b c \<Longrightarrow> delete_rel a c"
  unfolding delete_rel_def
  by (elim exE conjE) (rule exI[where x = "_ @ _"], auto simp: ac_simps intro: removes_trans)

lemma erase_in_file_spec:
  assumes inv: "store_inv E (wk_db w)" and f: "(i, v) \<in> store_files (wk_db w)"
  shows "store_inv E (wk_db (erase_in_file E i v w))" and "delete_rel w (erase_in_file E i v w)"
    and "wk_complete (erase_in_file E i v w) = wk_complete w"
    and "\<forall>r \<in> set (wk_pending (erase_in_file E i v w)).
           \<not> file_holds (wk_db (erase_in_file E i v w)) (i, v) (dd_key r)"
  using step_over_file_spec[of E "w\<lparr>wk_pending := []\<rparr>" i v "wk_pending w"] inv f
  by (auto simp: erase_in_file_def delete_rel_def)

lemma delete_rel_facts:
  assumes "delete_rel w w'"
  shows "same_shape (wk_db w) (wk_db w')" "set (wk_pending w') \<subseteq> set (wk_pending w)"
    and "file_holds (wk_db w') g k \<Longrightarrow> file_holds (wk_db w) g k"
proof -
  obtain ds where "mset (wk_pending w) = mset (wk_pending w') + mset ds"
    using assms by (auto simp: delete_rel_def)
  then have "set_mset (mset (wk_pending w)) = set_mset (mset (wk_pending w')) \<union> set_mset (mset ds)"
    by simp
  then show "set (wk_pending w') \<subseteq> set (wk_pending w)" by auto
  show "same_shape (wk_db w) (wk_db w')" "file_holds (wk_db w') g k \<Longrightarrow> file_holds (wk_db w) g k"
    using assms unfolding delete_rel_def removes_def by blast+
qed

lemma delete_step_spec:
  assumes inv: "store_inv E (wk_db w)" and f: "f \<in> store_files (wk_db w)"
  shows "store_inv E (wk_db (delete_step E f w)) \<and> delete_rel w (delete_step E f w)"
    and "wk_complete (delete_step E f w) \<Longrightarrow> wk_complete w
      \<and> (\<forall>r \<in> set (wk_pending (delete_step E f w)).
            \<not> file_holds (wk_db (delete_step E f w)) f (dd_key r))"
    and "\<forall>n. \<not> fails E n \<Longrightarrow> wk_complete w \<Longrightarrow> wk_complete (delete_step E f w)"
proof -
  obtain i v where iv: "f = (i, v)" by (cases f)
  have f': "(i, v) \<in> store_files (wk_db w)" using f iv by simp
  obtain r c d where run: "get_or_open E i v (db_file_cache (wk_db w), db_disk (wk_db w)) = (r, c, d)"
    by (metis prod_cases3)
  note op = opened_file[OF inv f' run]
  let ?db = "(wk_db w)\<lparr>db_file_cache := c, db_disk := d\<rparr>"
  let ?w = "w\<lparr>wk_db := ?db\<rparr>"
  have files: "(i, v) \<in> store_files (wk_db ?w)" using f' by (simp add: same_shape_files[OF same_shape_disk(2)])
  have inv': "store_inv E (wk_db ?w)" using op(1) by simp
  note file_spec = erase_in_file_spec[OF inv' files]
  have "removes [] (wk_db w) ?db"
    using op(2,3) by (simp add: removes_def file_holds_def)
  then have rel: "delete_rel w ?w" "delete_rel w (?w\<lparr>wk_complete := False\<rparr>)"
    by (simp_all add: delete_rel_def)
  have step: "delete_step E f w = (case r of None \<Rightarrow> ?w\<lparr>wk_complete := False\<rparr>
      | Some _ \<Rightarrow> erase_in_file E i v ?w)"
    using run store_file_known[OF f] by (simp add: delete_step_def visit_file_def iv split: option.splits)
  show "store_inv E (wk_db (delete_step E f w)) \<and> delete_rel w (delete_step E f w)"
    using inv' rel file_spec(1,2) delete_rel_trans[OF rel(1)] by (cases r) (simp_all add: step)
  show "wk_complete w \<and> (\<forall>r \<in> set (wk_pending (delete_step E f w)).
        \<not> file_holds (wk_db (delete_step E f w)) f (dd_key r))" if "wk_complete (delete_step E f w)"
    using that file_spec(3,4) unfolding step by (cases r) (simp_all add: iv)
  show "wk_complete (delete_step E f w)" if "\<forall>n. \<not> fails E n" "wk_complete w"
    using that opened_file_present[OF inv f' _ run] file_spec(3) by (cases r) (simp_all add: step)
qed

interpretation deleting: covering_walk dd_key "delete_step E" "store_inv E" delete_rel file_holds
  for E :: "'v env"
proof
  show "cached_keys (db_file_cache db) \<subseteq> store_files db" if "store_inv E db" for db :: "'v database"
    using that by (simp add: store_inv_def)
  show "catalog_inv (db_catalogs db i)" if "store_inv E db" "i \<in> set (indices_of (db_mode db))"
    for db :: "'v database" and i
    using that by (simp add: store_inv_def serving_def container_inv_def)
  show "store_inv E (wk_db (delete_step E f w)) \<and> same_shape (wk_db w) (wk_db (delete_step E f w))
      \<and> delete_rel w (delete_step E f w)" if "store_inv E (wk_db w)" "f \<in> store_files (wk_db w)" for f w
    using delete_step_spec(1)[OF that] delete_rel_facts(1) by blast
  show "set (wk_pending (delete_step E f w)) \<subseteq> set (wk_pending w)"
    if "store_inv E (wk_db w)" "f \<in> store_files (wk_db w)" for f w
    using delete_step_spec(1)[OF that] delete_rel_facts(2) by blast
  show "file_holds (wk_db w) g k"
    if "store_inv E (wk_db w)" "f \<in> store_files (wk_db w)" "file_holds (wk_db (delete_step E f w)) g k"
    for f w g k
    using delete_step_spec(1)[OF that(1,2)] delete_rel_facts(3) that(3) by blast
qed (fact delete_rel_refl delete_rel_trans delete_step_spec)+

lemma delete_walk_complete:
  fixes E :: "'v env" and w :: "'v delete_walk"
  assumes inv: "store_inv E (wk_db w)" and calm: "\<forall>n. \<not> fails E n" and ok: "wk_complete w"
  shows "wk_complete (walk_all (delete_step E) w)"
proof -
  have step: "store_inv E (wk_db (delete_step E f w)) \<and> store_files (wk_db (delete_step E f w)) = store_files (wk_db w)
      \<and> wk_complete (delete_step E f w)"
    if "store_inv E (wk_db w)" "f \<in> store_files (wk_db w)" "wk_complete w" for f and w :: "'v delete_walk"
    using delete_step_spec[OF that(1,2)] delete_rel_facts(1) same_shape_files calm that(3) by blast
  have each: "wk_complete (walk_files (delete_step E) fs w)"
    if "store_inv E (wk_db w)" "set fs \<subseteq> store_files (wk_db w)" "wk_complete w"
    for fs and w :: "'v delete_walk"
    by (rule covering_complete[of "store_inv E", OF _ that]) (use step in blast)
  let ?w1 = "walk_files (delete_step E) (cached_walk (wk_db w)) w"
  have sub: "set (cached_walk (wk_db w)) \<subseteq> store_files (wk_db w)"
    using deleting.cached_walk_files[OF inv] inv by (simp add: store_inv_def)
  have "wk_complete ?w1" by (rule each[OF inv sub ok])
  moreover have inv1: "store_inv E (wk_db ?w1)" using deleting.walk_files_spec[OF inv sub] by blast
  ultimately show ?thesis
    using each[OF inv1 deleting.historical_walk_files[OF inv1]] by (simp add: walk_all_def Let_def)
qed

section \<open>The contract of a deletion batch\<close>

lemma store_files_split:
  assumes "store_inv E db" "(i, v) \<in> store_files db"
  shows "v = db_current_versions db i \<or> v \<in> set (catalog_below (db_catalogs db i) (db_current_versions db i))"
proof -
  have "serving E db i" and v: "v \<in> set (vc_versions (db_catalogs db i))"
    using assms by (simp_all add: store_inv_def store_files_def)
  then have inv: "catalog_inv (db_catalogs db i)" and cur: "db_current_versions db i = catalog_active (db_catalogs db i)"
    by (simp_all add: serving_def container_inv_def)
  show ?thesis
    using catalog_active_max[OF inv v] v by (auto simp: catalog_below_set[OF inv] cur)
qed

lemma apply_deletes_walk:
  fixes E :: "'v env" and db :: "'v database"
  assumes inv: "store_inv E db"
    and w: "w = walk_all (delete_step E) (erase_active E rs
          \<lparr>wk_pending = [], wk_done = [], wk_complete = True, wk_db = db\<rparr>)"
  shows "store_inv E (wk_db w)" and "mset (wk_done w) + mset (wk_pending w) = mset rs"
    and "removes (wk_done w) db (wk_db w)"
    and "wk_complete w \<Longrightarrow> r \<in> set (wk_pending w) \<Longrightarrow> f \<in> store_files db
           \<Longrightarrow> \<not> file_holds (wk_db w) f (dd_key r)"
    and "\<forall>n. \<not> fails E n \<Longrightarrow> wk_complete w"
proof -
  let ?s = "\<lparr>wk_pending = [], wk_done = [], wk_complete = True, wk_db = db\<rparr> :: 'v delete_walk"
  let ?a = "erase_active E rs ?s"
  have active: "mset rs = mset (wk_pending ?a) + mset (wk_done ?a)" "wk_complete ?a"
    "store_inv E (wk_db ?a)" "removes (wk_done ?a) db (wk_db ?a)"
    "\<forall>r \<in> set (wk_pending ?a). \<forall>i \<in> set (indices_of (db_mode db)).
       \<not> file_holds (wk_db ?a) (i, db_current_versions db i) (dd_key r)"
    using erase_active_spec[of E ?s rs] inv by auto
  note walk = deleting.walk_all_spec[of E ?a, OF active(3), folded w]
  obtain ds where ds: "wk_done w = wk_done ?a @ ds"
    "mset (wk_pending ?a) = mset (wk_pending w) + mset ds" "removes ds (wk_db ?a) (wk_db w)"
    using walk by (auto simp: delete_rel_def)
  show "store_inv E (wk_db w)" using walk by simp
  show "mset (wk_done w) + mset (wk_pending w) = mset rs"
    using ds active(1) by (simp add: ac_simps)
  show "removes (wk_done w) db (wk_db w)"
    using removes_trans[OF active(4) ds(3)] by (simp add: ds(1))
  show "wk_complete w" if "\<forall>n. \<not> fails E n"
    unfolding w by (rule delete_walk_complete[OF active(3) that active(2)])
  assume complete: "wk_complete w" and r: "r \<in> set (wk_pending w)" and f: "f \<in> store_files db"
  obtain i v where iv: "f = (i, v)" by (cases f)
  have i: "i \<in> set (indices_of (db_mode db))" using f by (simp add: iv store_files_def)
  have same: "db_mode (wk_db ?a) = db_mode db" "db_current_versions (wk_db ?a) = db_current_versions db"
    "catalog_below (db_catalogs (wk_db ?a) i) u = catalog_below (db_catalogs db i) u" for u
    using active(4) by (simp_all add: removes_def same_shape_def catalog_below_def)
  from store_files_split[OF inv f[unfolded iv]]
  show "\<not> file_holds (wk_db w) f (dd_key r)"
  proof
    assume "v = db_current_versions db i"
    moreover have "r \<in> set (wk_pending ?a)" using walk r by blast
    ultimately have "\<not> file_holds (wk_db ?a) f (dd_key r)" using active(5) i by (simp add: iv)
    then show ?thesis using walk by blast
  next
    assume "v \<in> set (catalog_below (db_catalogs db i) (db_current_versions db i))"
    then show ?thesis using walk complete r i by (simp add: iv same)
  qed
qed

lemma apply_deletes_spec:
  assumes inv: "store_inv E db" and run: "apply_deletes E requests db = (p, db')"
  shows "store_inv E db' \<and> same_shape db db'
    \<and> mset (dp_erased p) + mset (dp_absent p) + mset (dp_unresolved p)
        = mset (working_set_of dd_key requests)
    \<and> (\<exists>es. map fst es = map dd_key (dp_erased p) \<and> stored db = stored db' + mset es)
    \<and> db_entries_count db' = db_entries_count db - word_of_nat (length (dp_erased p))
    \<and> (case dp_error p of
         None \<Rightarrow> dp_unresolved p = []
           \<and> (\<forall>r \<in> set (dp_absent p). \<forall>f \<in> store_files db'. \<not> file_holds db' f (dd_key r))
       | Some e \<Rightarrow> e = Version_unreadable \<and> dp_absent p = [])
    \<and> ((\<forall>n. \<not> fails E n) \<longrightarrow> dp_error p = None)"
proof (cases "requests = []")
  case True
  then show ?thesis using inv run by (auto simp: apply_deletes_def working_set_of_def)
next
  case False
  define w where "w = walk_all (delete_step E) (erase_active E (working_set_of dd_key requests)
      \<lparr>wk_pending = [], wk_done = [], wk_complete = True, wk_db = db\<rparr>)"
  note walk = apply_deletes_walk[OF inv w_def]
  have fields: "db' = wk_db w" "dp_erased p = wk_done w"
    "dp_absent p = (if wk_complete w then wk_pending w else [])"
    "dp_unresolved p = (if wk_complete w then [] else wk_pending w)"
    "dp_error p = (if wk_complete w then None else Some Version_unreadable)"
    using run False unfolding apply_deletes_def by (auto simp: w_def Let_def)
  have "store_files db' = store_files db"
    using walk(3) same_shape_files by (auto simp: removes_def fields(1))
  then show ?thesis
    using walk by (simp add: fields removes_def)
qed

text \<open>
  C4: a batch of deletions accounts for every request. Every distinct key asked for ends in
  exactly one of \<open>erased\<close>, \<open>absent\<close> and \<open>unresolved\<close>; for each erased request exactly one entry
  with its key leaves the store, nothing else does, and \<open>entries_count_\<close> falls by their number.
  Without an error nothing is unresolved and an absent key is in no version of the store, the active
  ones included; with one, nothing is called absent. If no call of the system fails there is no error.
\<close>

theorem apply_deletes_correct:
  assumes inv: "store_inv E db" and run: "apply_deletes E requests db = (p, db')"
  shows "store_inv E db' \<and> same_shape db db'
    \<and> mset (dp_erased p) + mset (dp_absent p) + mset (dp_unresolved p)
        = mset (working_set_of dd_key requests)
    \<and> (\<exists>es. map fst es = map dd_key (dp_erased p) \<and> stored db = stored db' + mset es)
    \<and> db_entries_count db' = db_entries_count db - word_of_nat (length (dp_erased p))
    \<and> (case dp_error p of
         None \<Rightarrow> dp_unresolved p = []
           \<and> (\<forall>r \<in> set (dp_absent p). \<forall>f \<in> store_files db'. \<not> file_holds db' f (dd_key r))
       | Some e \<Rightarrow> e = Version_unreadable \<and> dp_absent p = [])
    \<and> ((\<forall>n. \<not> fails E n) \<longrightarrow> dp_error p = None)"
  by (rule apply_deletes_spec[OF assms])

theorem apply_deletes_correct_witness:
  "\<exists>p db'. apply_deletes calm_env [\<lparr>dd_key = old_key, dd_height = 5\<rparr>, \<lparr>dd_key = other_key, dd_height = 5\<rparr>]
        (layered_store Full_mode example_value) = (p, db') \<and> dp_error p = None
     \<and> mset (dp_erased p) + mset (dp_absent p)
         = {#\<lparr>dd_key = old_key, dd_height = 5\<rparr>, \<lparr>dd_key = other_key, dd_height = 5\<rparr>#}"
proof -
  let ?rs = "[\<lparr>dd_key = old_key, dd_height = 5\<rparr>, \<lparr>dd_key = other_key, dd_height = 5\<rparr>]"
  obtain p db' where run: "apply_deletes calm_env ?rs (layered_store Full_mode example_value) = (p, db')" by fastforce
  note spec = apply_deletes_correct[OF layered_store_inv run]
  have none: "dp_error p = None" using spec by simp
  then have "dp_unresolved p = []" using spec by auto
  moreover have "mset (dp_erased p) + mset (dp_absent p) + mset (dp_unresolved p)
      = mset (working_set_of dd_key ?rs)" using spec by blast
  ultimately show ?thesis using none run by (simp add: working_set_of_def)
qed

text \<open>
   a batch that is refused before anything is looked at owes every distinct request: none is
  erased and none is called absent.
\<close>

theorem refuse_deletions_owes_all:
  "dp_erased (refuse_deletions requests why) = [] \<and> dp_absent (refuse_deletions requests why) = []
   \<and> distinct (map dd_key (dp_unresolved (refuse_deletions requests why)))
   \<and> dd_key ` set (dp_unresolved (refuse_deletions requests why)) = dd_key ` set requests
   \<and> dp_error (refuse_deletions requests why) = Some why"
  using working_set_spec[of dd_key requests] by (simp add: refuse_deletions_def)

end
