(* ===== verification/Merging.thy ===== *)
theory Merging
  imports Containers
begin

text \<open>
  Compaction and its recovery, from \<open>src/database_impl.cpp\<close> and \<open>src/detail/merge_policy.hpp\<close>:
  \<open>merge_versions\<close> in its phases (what may be merged at all, building the target, publishing it,
  retiring the sources, summarising the target), \<open>merge_groups\<close>, \<open>compact_container\<close>, and
  \<open>recover_one\<close> and \<open>recover_pending_merges\<close>. A policy of the source is a container index here: the
  two policies differ in the members they name. The target under construction is the file
  \<open>building_path\<close>; its map is written there after every entry.
\<close>

section \<open>Building the target\<close>

text \<open>\<open>abandon\<close>, and a target whose construction threw: discarded by the guard and by the handler.\<close>

definition abandon :: "'v env \<Rightarrow> u64 \<Rightarrow> u64 \<Rightarrow> 'v database \<Rightarrow> 'v database" where
  "abandon E i target db = db\<lparr>db_disk := try_remove E (building_path i target) (db_disk db)\<rparr>"

definition construct_marker :: "'v env \<Rightarrow> string \<Rightarrow> merge_marker \<Rightarrow> 'v disk \<Rightarrow> bool \<times> 'v disk" where
  "construct_marker E path m d =
    (case lookup_file d path of
       Some (Segment s) \<Rightarrow>
         if seg_marker s \<noteq> None then (False, tick d)
         else (case on_construct E (ticks d) 0 of
                 Constructed _ _ \<Rightarrow>
                   (True, put_file path (Segment (s\<lparr>seg_marker := Some (1, m)\<rparr>)) (tick d))
               | _ \<Rightarrow> (False, tick d))
     | _ \<Rightarrow> (False, tick d))"

definition set_segment_map :: "string \<Rightarrow> 'v flat_map \<Rightarrow> 'v disk \<Rightarrow> 'v disk" where
  "set_segment_map path t d =
    (case lookup_file d path of
       Some (Segment s) \<Rightarrow>
         put_file path (Segment (s\<lparr>seg_map := map_option (\<lambda>(n, _). (n, t)) (seg_map s)\<rparr>)) d
     | _ \<Rightarrow> d)"

text \<open>
  The inner loop: below the limit \<open>emplace\<close> is the only lookup; at the limit a key that is already
  there is told from a target that is full; a target that grew is full too, and counted.
\<close>

fun copy_entries ::
  "'v env \<Rightarrow> string \<Rightarrow> u64 \<Rightarrow> u64 \<Rightarrow> (raw_outpoint \<times> 'v) list \<Rightarrow> 'v flat_map \<Rightarrow> 'v database
   \<Rightarrow> 'v flat_map result \<times> 'v database" where
  "copy_entries E path buckets limit [] t db = (Inr t, db)"
| "copy_entries E path buckets limit ((k, v) # es) t db =
    (if tbl_size t \<ge> limit
     then (Inl (if tbl_find t k \<noteq> None then Duplicate_key else Insufficient_space), db)
     else
      (case tbl_emplace E (ticks (db_disk db)) k v t of
         Already_there \<Rightarrow> (Inl Duplicate_key, db\<lparr>db_disk := tick (db_disk db)\<rparr>)
       | Allocation_failed t' \<Rightarrow>
           (Inl Insufficient_space, db\<lparr>db_disk := set_segment_map path t' (tick (db_disk db))\<rparr>)
       | Inserted t' \<Rightarrow>
          (let db = db\<lparr>db_disk := set_segment_map path t' (tick (db_disk db))\<rparr>
           in if tbl_buckets t' \<noteq> buckets
              then (Inl Insufficient_space,
                    db\<lparr>db_rehashes_observed := snd (snd (detect_rehash (rehash_watch_reset buckets)
                         (tbl_buckets t') (db_rehashes_observed db)))\<rparr>)
              else copy_entries E path buckets limit es t' db)))"

fun copy_sources ::
  "'v env \<Rightarrow> u64 \<Rightarrow> string \<Rightarrow> u64 \<Rightarrow> u64 \<Rightarrow> u64 list \<Rightarrow> 'v flat_map \<Rightarrow> 'v database
   \<Rightarrow> 'v flat_map result \<times> 'v database" where
  "copy_sources E i path buckets limit [] t db = (Inr t, db)"
| "copy_sources E i path buckets limit (source # rest) t db =
    (case open_checked E (db_database_id db) (kind_of_index i) (data_path i source) source
            (db_disk db) of
       (Inl e, d) \<Rightarrow> (Inl e, db\<lparr>db_disk := d\<rparr>)
     | (Inr source_map, d) \<Rightarrow>
       (case copy_entries E path buckets limit (tbl_entries source_map) t (db\<lparr>db_disk := d\<rparr>) of
          (Inl e, db) \<Rightarrow> (Inl e, db)
        | (Inr t, db) \<Rightarrow> copy_sources E i path buckets limit rest t db))"

definition build_target ::
  "'v env \<Rightarrow> u64 \<Rightarrow> u64 \<Rightarrow> merge_marker \<Rightarrow> u64 list \<Rightarrow> 'v database \<Rightarrow> unit result \<times> 'v database" where
  "build_target E i target merge_id sources db =
    (let building = building_path i target;
         file_size = ce_file_size (db_capacity db i);
         d = try_remove E building (db_disk db)
     in case create_segment E building file_size d of
          (False, d) \<Rightarrow> (Inl File_open_failed, abandon E i target (db\<lparr>db_disk := d\<rparr>))
        | (True, d) \<Rightarrow>
         (case place_stamp E building (expected_identity E db i target) d of
            (Inl e, d) \<Rightarrow> (Inl e, abandon E i target (db\<lparr>db_disk := d\<rparr>))
          | (Inr _, d) \<Rightarrow>
           (case construct_map E building (capacity_for db i) d of
              (Constructed buckets max_load, d) \<Rightarrow>
               (case construct_marker E building merge_id d of
                  (False, d) \<Rightarrow>
                    (Inl File_open_failed, abandon E i target (abandon E i target (db\<lparr>db_disk := d\<rparr>)))
                | (True, d) \<Rightarrow>
                 (case copy_sources E i building buckets (max_size_without_rehash buckets) sources
                         (tbl_empty buckets max_load) (db\<lparr>db_disk := d\<rparr>) of
                    (Inl e, db) \<Rightarrow> (Inl e, abandon E i target db)
                  | (Inr _, db) \<Rightarrow>
                   (case sync_mapped_region E file_size (db_disk db) of
                      (synced, d) \<Rightarrow>
                       (case refusal synced of
                          Some e \<Rightarrow> (Inl e, abandon E i target (db\<lparr>db_disk := d\<rparr>))
                        | None \<Rightarrow> (Inr (), db\<lparr>db_disk := d\<rparr>)))))
            | (_, d) \<Rightarrow>
                (Inl File_open_failed, abandon E i target (abandon E i target (db\<lparr>db_disk := d\<rparr>))))))"

section \<open>Publishing the target\<close>

definition read_target_marker ::
  "'v env \<Rightarrow> u64 \<Rightarrow> u64 \<Rightarrow> 'v disk \<Rightarrow> merge_marker result \<times> 'v disk" where
  "read_target_marker E i version d =
    (case open_existing_segment E (data_path i version) d of
       (Inl _, d) \<Rightarrow> (Inl Recovery_failed, d)
     | (Inr s, d) \<Rightarrow>
         (case find_single_named (seg_marker s) of
            Inl _ \<Rightarrow> (Inl Recovery_failed, d)
          | Inr m \<Rightarrow> (Inr m, d)))"

definition stop_for_recovery :: "error_code \<Rightarrow> 'v database \<Rightarrow> unit result \<times> 'v database" where
  "stop_for_recovery e db = (Inl e, db\<lparr>db_cleanup_pending := True\<rparr>)"

text \<open>A target whose name was taken: the record is withdrawn, or nobody may go on.\<close>

definition withdraw_record ::
  "'v env \<Rightarrow> u64 \<Rightarrow> u64 \<Rightarrow> error_code \<Rightarrow> 'v database \<Rightarrow> unit result \<times> 'v database" where
  "withdraw_record E i target why db =
    (case remove_file E (sidecar_path i target) (db_disk db) of
       (Inl _, d) \<Rightarrow> stop_for_recovery Recovery_required (db\<lparr>db_disk := d\<rparr>)
     | (Inr _, d) \<Rightarrow>
       (case sync_directory E d of (confirmed, d) \<Rightarrow>
          if refusal confirmed = None then (Inl why, abandon E i target (db\<lparr>db_disk := d\<rparr>))
          else stop_for_recovery Recovery_required (db\<lparr>db_disk := d\<rparr>)))"

definition publish_target ::
  "'v env \<Rightarrow> merge_plan \<Rightarrow> 'v database \<Rightarrow> unit result \<times> 'v database" where
  "publish_target E plan db =
    (let i = mp_container plan; target = mp_target plan;
         building = building_path i target; sidecar = sidecar_path i target
     in case sync_file E building (db_disk db) of (synced, d) \<Rightarrow>
         (case refusal synced of
            Some e \<Rightarrow> (Inl e, abandon E i target (db\<lparr>db_disk := d\<rparr>))
          | None \<Rightarrow>
           (case write_merge_sidecar E sidecar plan d of
              (Inl e, d) \<Rightarrow> (Inl e, abandon E i target (db\<lparr>db_disk := d\<rparr>))
            | (Inr written, d) \<Rightarrow>
              if \<not> durable written
              then (let db = abandon E i target (db\<lparr>db_disk := d\<rparr>)
                    in stop_for_recovery Recovery_required
                         (db\<lparr>db_disk := try_remove E sidecar (db_disk db)\<rparr>))
              else
               (case publish_new_file E building (data_path i target) d of
                  (Inl e, d) \<Rightarrow> withdraw_record E i target e (db\<lparr>db_disk := d\<rparr>)
                | (Inr _, d) \<Rightarrow>
                 (case sync_directory E d of (synced, d) \<Rightarrow>
                    if refusal synced \<noteq> None
                    then stop_for_recovery Recovery_required (db\<lparr>db_disk := d\<rparr>)
                    else
                     (case read_target_marker E i target d of (marker, d) \<Rightarrow>
                        if marker \<noteq> Inr (mp_id plan)
                        then stop_for_recovery Recovery_failed (db\<lparr>db_disk := d\<rparr>)
                        else (Inr (), db\<lparr>db_disk := d\<rparr>)))))))"

section \<open>Retiring the sources\<close>

fun remove_all_names :: "'v env \<Rightarrow> string list \<Rightarrow> 'v disk \<Rightarrow> bool \<times> 'v disk" where
  "remove_all_names E [] d = (True, d)"
| "remove_all_names E (n # ns) d =
    (case remove_file E n d of (r, d) \<Rightarrow>
      (case remove_all_names E ns d of (ok, d) \<Rightarrow> (r = Inr () \<and> ok, d)))"

definition source_names :: "u64 \<Rightarrow> u64 list \<Rightarrow> string list" where
  "source_names i sources = concat (map (\<lambda>s. [data_path i s, metadata_path i s]) sources)"

definition retire_sources ::
  "'v env \<Rightarrow> merge_plan \<Rightarrow> 'v database \<Rightarrow> unit result \<times> 'v database" where
  "retire_sources E plan db =
    (let i = mp_container plan; target = mp_target plan; sources = mp_sources plan;
         catalogue = fold catalog_remove sources (catalog_add target (db_catalogs db i));
         db = db\<lparr>db_catalogs := (db_catalogs db)(i := catalogue),
                 db_dirty_versions := filter (\<lambda>(j, v). \<not> (j = i \<and> v \<in> set sources))
                   (db_dirty_versions db)\<rparr>
     in case remove_all_names E (source_names i sources) (db_disk db) of (all_retired, d) \<Rightarrow>
         (case sync_directory E d of (synced, d) \<Rightarrow>
            if \<not> (all_retired \<and> refusal synced = None)
            then stop_for_recovery Recovery_required (db\<lparr>db_disk := d\<rparr>)
            else
             (case remove_file E (sidecar_path i target) d of
                (Inl _, d) \<Rightarrow> stop_for_recovery Recovery_required (db\<lparr>db_disk := d\<rparr>)
              | (Inr _, d) \<Rightarrow> (Inr (), db\<lparr>db_disk := snd (sync_directory E d)\<rparr>))))"

section \<open>Summarising the target\<close>

text \<open>\<open>height_of\<close> is the policy's: where a stored value keeps its height.\<close>

definition summarise_target ::
  "'v env \<Rightarrow> ('v \<Rightarrow> u32) \<Rightarrow> u64 \<Rightarrow> u64 \<Rightarrow> 'v database \<Rightarrow> 'v database" where
  "summarise_target E height_of i target db =
    (case open_checked E (db_database_id db) (kind_of_index i) (data_path i target) target
            (db_disk db) of (opened, d) \<Rightarrow>
      (let meta = empty_file_metadata\<lparr>fm_container_index := i, fm_version := target\<rparr>;
           meta = (case opened of
                     Inl _ \<Rightarrow> meta
                   | Inr t \<Rightarrow> fold (\<lambda>(k, v). update_on_insert k (height_of v)) (tbl_entries t) meta);
           db = db\<lparr>db_disk := d, db_catalogs := (db_catalogs db)(i :=
                  catalog_set_metadata target meta (db_catalogs db i))\<rparr>
       in save_metadata_to_disk E i target db))"

section \<open>The whole merge\<close>

definition draw_merge_id :: "'v env \<Rightarrow> 'v disk \<Rightarrow> merge_marker result \<times> 'v disk" where
  "draw_merge_id E d =
     (generate_merge_id (map_option (fst \<circ> get64) (entropy E (ticks d)))
        (map_option (fst \<circ> get64) (entropy E (ticks d + 1))), tick (tick d))"

definition merge_versions ::
  "'v env \<Rightarrow> ('v \<Rightarrow> u32) \<Rightarrow> u64 \<Rightarrow> u64 list \<Rightarrow> 'v database \<Rightarrow> unit result \<times> 'v database" where
  "merge_versions E height_of i sources db =
    (if length sources < 2 then (Inr (), db)
     else
      (let target = next_version (db_catalogs db i)
       in case path_exists E (data_path i target) (db_disk db) of
            (Inl e, d) \<Rightarrow> (Inl e, db\<lparr>db_disk := d\<rparr>)
          | (Inr True, d) \<Rightarrow> (Inl Identity_collision, db\<lparr>db_disk := d\<rparr>)
          | (Inr False, d) \<Rightarrow>
           (case remove_file E (metadata_path i target) d of
              (Inl e, d) \<Rightarrow> (Inl e, db\<lparr>db_disk := d\<rparr>)
            | (Inr _, d) \<Rightarrow>
              if (case space_available E (ticks d) of
                    None \<Rightarrow> False | Some n \<Rightarrow> n < ce_file_size (db_capacity db i))
              then (Inl Insufficient_space, db\<lparr>db_disk := tick d\<rparr>)
              else
               (case draw_merge_id E (tick d) of
                  (Inl e, d) \<Rightarrow> (Inl e, db\<lparr>db_disk := d\<rparr>)
                | (Inr merge_id, d) \<Rightarrow>
                 (case build_target E i target merge_id sources (db\<lparr>db_disk := d\<rparr>) of
                    (Inl e, db) \<Rightarrow> (Inl e, db)
                  | (Inr _, db) \<Rightarrow>
                   (let plan = \<lparr>mp_container = i, mp_target = target, mp_id = merge_id, mp_sources = sources\<rparr>
                    in case publish_target E plan db of
                         (Inl e, db) \<Rightarrow> (Inl e, db)
                       | (Inr _, db) \<Rightarrow>
                        (case retire_sources E plan db of
                           (Inl e, db) \<Rightarrow> (Inl e, db)
                         | (Inr _, db) \<Rightarrow> (Inr (), summarise_target E height_of i target db))))))))"

section \<open>Groups\<close>

text \<open>The inner loop of \<open>merge_groups\<close>: ever shorter prefixes until one fits.\<close>

fun merge_longest ::
  "'v env \<Rightarrow> ('v \<Rightarrow> u32) \<Rightarrow> u64 \<Rightarrow> u64 list \<Rightarrow> nat \<Rightarrow> 'v database
   \<Rightarrow> (nat \<times> unit result) \<times> 'v database" where
  "merge_longest E height_of i versions n db =
    (if n < 2 then ((n, Inr ()), db)
     else
      (case merge_versions E height_of i (take n versions) db of (outcome, db) \<Rightarrow>
         if outcome = Inl Insufficient_space
         then merge_longest E height_of i versions (n - 1) db
         else ((n, outcome), db)))"

function merge_from ::
  "'v env \<Rightarrow> ('v \<Rightarrow> u32) \<Rightarrow> u64 \<Rightarrow> u64 list \<Rightarrow> 'v database \<Rightarrow> unit result \<times> 'v database" where
  "merge_from E height_of i versions db =
    (if versions = [] then (Inr (), db)
     else
      (case merge_longest E height_of i versions (length versions) db of ((n, outcome), db) \<Rightarrow>
         if n < 2 then merge_from E height_of i (tl versions) db
         else if outcome \<noteq> Inr () then (outcome, db)
         else merge_from E height_of i (drop n versions) db))"
  by pat_completeness auto
termination by (relation "measure (\<lambda>(E, height_of, i, versions, db). length versions)") auto

declare merge_longest.simps [simp del] merge_from.simps [simp del]

definition merge_groups ::
  "'v env \<Rightarrow> ('v \<Rightarrow> u32) \<Rightarrow> u64 \<Rightarrow> 'v database \<Rightarrow> unit result \<times> 'v database" where
  "merge_groups E height_of i db =
    (let versions = vc_versions (db_catalogs db i)
     in if length versions \<le> 1 then (Inr (), db) else merge_from E height_of i versions db)"

definition reopen_active_container :: "'v env \<Rightarrow> u64 \<Rightarrow> 'v database \<Rightarrow> unit result \<times> 'v database" where
  "reopen_active_container E i db =
    (let active = catalog_active (db_catalogs db i)
     in case open_existing_container E i active db of
          (Inl e, db) \<Rightarrow> stop_for_recovery e db
        | (Inr _, db) \<Rightarrow>
            (Inr (), db\<lparr>db_catalogs := (db_catalogs db)(i := catalog_add active (db_catalogs db i))\<rparr>))"

definition compact_container ::
  "'v env \<Rightarrow> ('v \<Rightarrow> u32) \<Rightarrow> u64 \<Rightarrow> 'v database \<Rightarrow> unit result \<times> 'v database" where
  "compact_container E height_of i db =
    (case merge_groups E height_of i (close_container E i db) of (outcome, db) \<Rightarrow>
      (case reopen_active_container E i db of (reopened, db) \<Rightarrow>
         (if outcome \<noteq> Inr () then outcome else reopened, db)))"

section \<open>Recovery\<close>

fun remove_each :: "'v env \<Rightarrow> string list \<Rightarrow> 'v disk \<Rightarrow> unit result \<times> 'v disk" where
  "remove_each E [] d = (Inr (), d)"
| "remove_each E (n # ns) d =
    (case remove_file E n d of
       (Inl e, d) \<Rightarrow> (Inl e, d)
     | (Inr _, d) \<Rightarrow> remove_each E ns d)"

fun retire_each :: "'v env \<Rightarrow> u64 \<Rightarrow> u64 \<Rightarrow> u64 list \<Rightarrow> 'v disk \<Rightarrow> unit result \<times> 'v disk" where
  "retire_each E i target [] d = (Inr (), d)"
| "retire_each E i target (source # rest) d =
    (if source = target then (Inl Recovery_failed, d)
     else
      (case remove_each E [data_path i source, metadata_path i source] d of
         (Inl e, d) \<Rightarrow> (Inl e, d)
       | (Inr _, d) \<Rightarrow> retire_each E i target rest d))"

definition barrier :: "'v env \<Rightarrow> 'v disk \<Rightarrow> unit result \<times> 'v disk" where
  "barrier E d =
    (case sync_directory E d of (synced, d) \<Rightarrow>
       (case refusal synced of Some e \<Rightarrow> (Inl e, d) | None \<Rightarrow> (Inr (), d)))"

definition recover_one :: "'v env \<Rightarrow> merge_plan \<Rightarrow> string \<Rightarrow> 'v disk \<Rightarrow> unit result \<times> 'v disk" where
  "recover_one E plan sidecar d =
    (let i = mp_container plan; target = mp_target plan
     in case path_exists E (data_path i target) d of
          (Inl e, d) \<Rightarrow> (Inl e, d)
        | (Inr False, d) \<Rightarrow>
           (case remove_each E [building_path i target, sidecar] d of
              (Inl e, d) \<Rightarrow> (Inl e, d)
            | (Inr _, d) \<Rightarrow> barrier E d)
        | (Inr True, d) \<Rightarrow>
           (case read_target_marker E i target d of
              (Inl e, d) \<Rightarrow> (Inl e, d)
            | (Inr marker, d) \<Rightarrow>
              if marker \<noteq> mp_id plan then (Inl Recovery_failed, d)
              else
               (case retire_each E i target (mp_sources plan) d of
                  (Inl e, d) \<Rightarrow> (Inl e, d)
                | (Inr _, d) \<Rightarrow>
                 (case barrier E d of
                    (Inl e, d) \<Rightarrow> (Inl e, d)
                  | (Inr _, d) \<Rightarrow>
                   (case remove_each E [sidecar, building_path i target] d of
                      (Inl e, d) \<Rightarrow> (Inl e, d)
                    | (Inr _, d) \<Rightarrow> barrier E d)))))"

text \<open>The records of one container; more than one is a state the store never makes.\<close>

definition recover_record :: "'v env \<Rightarrow> u64 \<Rightarrow> u64 \<Rightarrow> 'v disk \<Rightarrow> unit result \<times> 'v disk" where
  "recover_record E i target d =
    (let path = sidecar_path i target
     in case read_merge_sidecar E path d of
          (Inl e, d) \<Rightarrow> (if e = Sidecar_absent then Inr () else Inl Recovery_failed, d)
        | (Inr plan, d) \<Rightarrow>
            if mp_container plan \<noteq> i \<or> mp_target plan \<noteq> target then (Inl Recovery_failed, d)
            else recover_one E plan path d)"

definition remove_strays :: "'v env \<Rightarrow> u64 \<Rightarrow> string \<Rightarrow> 'v disk \<Rightarrow> unit result \<times> 'v disk" where
  "remove_strays E i suffix d =
    (case enumerate_versions E (name_prefix i) suffix d of
       (Inl e, d) \<Rightarrow> (Inl e, d)
     | (Inr versions, d) \<Rightarrow>
         remove_each E (map (\<lambda>v. name_prefix i @ fmt05 v @ suffix) versions) d)"

definition recover_container :: "'v env \<Rightarrow> u64 \<Rightarrow> 'v disk \<Rightarrow> unit result \<times> 'v disk" where
  "recover_container E i d =
    (case enumerate_versions E (name_prefix i) ''.merge'' d of
       (Inl e, d) \<Rightarrow> (Inl e, d)
     | (Inr listed, d) \<Rightarrow>
        if length listed > 1 then (Inl Recovery_failed, d)
        else
         (case (case listed of [] \<Rightarrow> (Inr (), d) | target # _ \<Rightarrow> recover_record E i target d) of
            (Inl e, d) \<Rightarrow> (Inl e, d)
          | (Inr _, d) \<Rightarrow>
           (case remove_strays E i ''.dat.building'' d of
              (Inl e, d) \<Rightarrow> (Inl e, d)
            | (Inr _, d) \<Rightarrow> remove_strays E i ''.merge.tmp'' d)))"

fun recover_containers :: "'v env \<Rightarrow> u64 list \<Rightarrow> 'v disk \<Rightarrow> unit result \<times> 'v disk" where
  "recover_containers E [] d = (Inr (), d)"
| "recover_containers E (i # is) d =
    (case recover_container E i d of
       (Inl e, d) \<Rightarrow> (Inl e, d)
     | (Inr _, d) \<Rightarrow> recover_containers E is d)"

definition recover_pending_merges ::
  "'v env \<Rightarrow> storage_mode \<Rightarrow> 'v disk \<Rightarrow> unit result \<times> 'v disk" where
  "recover_pending_merges E mode d = recover_containers E (indices_of mode) d"

end
