(* ===== verification/Merge_Facts.thy ===== *)
theory Merge_Facts
  imports Merging
begin

text \<open>
  What one merge does, phase by phase: which names it touches, what the target holds once it is
  built, and that every directory on the way is one of the states recovery can finish or undo.
\<close>

section \<open>Building\<close>

text \<open>The fields a merge may change before it retires anything.\<close>

definition adjusts :: "'v database \<Rightarrow> 'v database \<Rightarrow> bool" where
  "adjusts db db' \<longleftrightarrow> db'\<lparr>db_disk := db_disk db, db_rehashes_observed := db_rehashes_observed db,
     db_cleanup_pending := db_cleanup_pending db\<rparr> = db"

lemma adjusts_refl [simp]: "adjusts db db"
  by (simp add: adjusts_def)

lemma adjusts_iff: "adjusts db db' \<longleftrightarrow> db' = db\<lparr>db_disk := db_disk db',
    db_rehashes_observed := db_rehashes_observed db', db_cleanup_pending := db_cleanup_pending db'\<rparr>"
  by (cases db, cases db') (auto simp: adjusts_def)

lemma adjusts_trans: "adjusts a b \<Longrightarrow> adjusts b c \<Longrightarrow> adjusts a c"
  by (cases a, cases b, cases c) (auto simp: adjusts_def)

lemma adjusts_update [simp]:
  "adjusts db (db'\<lparr>db_disk := d\<rparr>) \<longleftrightarrow> adjusts db db'"
  "adjusts db (db'\<lparr>db_rehashes_observed := n\<rparr>) \<longleftrightarrow> adjusts db db'"
  "adjusts db (db'\<lparr>db_cleanup_pending := c\<rparr>) \<longleftrightarrow> adjusts db db'"
  by (simp_all add: adjusts_def)

lemma adjusts_fields:
  assumes "adjusts db db'"
  shows "db_mode db' = db_mode db" "db_catalogs db' = db_catalogs db" "db_capacity db' = db_capacity db"
    "db_database_id db' = db_database_id db" "db_current_versions db' = db_current_versions db"
    "db_mapped db' = db_mapped db" "db_dirty_versions db' = db_dirty_versions db"
    "db_entries_count db' = db_entries_count db" "db_file_cache db' = db_file_cache db"
    "db_inspection_only db' = db_inspection_only db"
  by (subst assms[unfolded adjusts_iff], simp)+

lemma set_segment_map_touches: "touches {path} d (set_segment_map path t d)"
  by (auto simp: set_segment_map_def intro: touch_intros split: option.splits disk_file.splits)

lemma touches_after_tick: "touches P (tick d) d' \<Longrightarrow> touches P d d'"
  by simp

text \<open>The building file, as the copying sees it.\<close>

definition target_holds :: "string \<Rightarrow> 'v segment \<Rightarrow> 'v flat_map \<Rightarrow> 'v disk \<Rightarrow> bool" where
  "target_holds path g t d \<longleftrightarrow> lookup_file d path = Some (Segment (g\<lparr>seg_map := Some (1, t)\<rparr>))"

lemma target_holds_set: "target_holds path g t d \<Longrightarrow> target_holds path g t' (set_segment_map path t' (tick d))"
  by (simp add: target_holds_def set_segment_map_def)

lemma target_holds_same: "same_disk d d' \<Longrightarrow> target_holds path g t d' = target_holds path g t d"
  by (simp add: target_holds_def same_disk_lookup)

text \<open>Steps of the building phase: only the names \<open>P\<close>, and nothing that must be recovered.\<close>

definition builds :: "string set \<Rightarrow> 'v database \<Rightarrow> 'v database \<Rightarrow> bool" where
  "builds P db db' \<longleftrightarrow> adjusts db db' \<and> db_cleanup_pending db' = db_cleanup_pending db
    \<and> touches P (db_disk db) (db_disk db')"

lemma builds_refl [simp]: "builds P db db"
  by (simp add: builds_def touches_refl)

lemma builds_trans: "builds P a b \<Longrightarrow> builds P b c \<Longrightarrow> builds P a c"
  unfolding builds_def using adjusts_trans[of a b c] touches_trans[of P "db_disk a" "db_disk b" "db_disk c"]
  by simp

lemma builds_disk: "touches P (db_disk db) d \<Longrightarrow> builds P db (db\<lparr>db_disk := d\<rparr>)"
  by (simp add: builds_def)

lemma builds_observed [simp]: "builds P db (db'\<lparr>db_rehashes_observed := n\<rparr>) \<longleftrightarrow> builds P db db'"
  by (simp add: builds_def)

lemma copy_entries_frame:
  "copy_entries E path buckets limit es t db = (r, db') \<Longrightarrow> builds {path} db db'"
proof (induction es arbitrary: t db)
  case Nil
  then show ?case by simp
next
  case (Cons e es)
  obtain k v where e: "e = (k, v)" by (cases e)
  have step: "builds {path} db (db\<lparr>db_disk := set_segment_map path t' (tick (db_disk db))\<rparr>)" for t'
    using set_segment_map_touches[of path "tick (db_disk db)" t'] by (intro builds_disk) simp
  have ticked: "builds {path} db (db\<lparr>db_disk := tick (db_disk db)\<rparr>)"
    by (intro builds_disk) (simp add: touches_refl)
  show ?case
  proof (cases "\<exists>t'. \<not> limit \<le> tbl_size t
      \<and> tbl_emplace E (ticks (db_disk db)) k v t = Inserted t' \<and> tbl_buckets t' = buckets")
    case True
    then obtain t' where t': "\<not> limit \<le> tbl_size t"
      "tbl_emplace E (ticks (db_disk db)) k v t = Inserted t'" "tbl_buckets t' = buckets" by blast
    let ?db = "db\<lparr>db_disk := set_segment_map path t' (tick (db_disk db))\<rparr>"
    have "copy_entries E path buckets limit es t' ?db = (r, db')"
      using Cons.prems t' by (simp add: e Let_def)
    from Cons.IH[OF this] step show ?thesis by (rule builds_trans[rotated])
  next
    case False
    then show ?thesis
      using Cons.prems step ticked
      by (auto simp: e Let_def split: if_splits emplaced.splits)
  qed
qed

lemma copy_entries_spec:
  assumes "copy_entries E path buckets limit es t db = (Inr t', db')"
    and "tbl_ok t" "target_holds path g t (db_disk db)"
  shows "tbl_ok t' \<and> tbl_bag t' = tbl_bag t + mset es \<and> target_holds path g t' (db_disk db')"
  using assms
proof (induction es arbitrary: t db)
  case Nil
  then show ?case by simp
next
  case (Cons e es)
  obtain k v where e: "e = (k, v)" by (cases e)
  from Cons.prems(1) obtain t1 where t1: "tbl_emplace E (ticks (db_disk db)) k v t = Inserted t1"
    and rest: "copy_entries E path buckets limit es t1
      (db\<lparr>db_disk := set_segment_map path t1 (tick (db_disk db))\<rparr>) = (Inr t', db')"
    by (auto simp: e Let_def split: if_splits emplaced.splits)
  have "tbl_ok t1 \<and> tbl_bag t1 = add_mset (k, v) (tbl_bag t)"
    using tbl_emplace_cases(2)[OF Cons.prems(2) t1] by simp
  with Cons.IH[OF rest _ ] target_holds_set[OF Cons.prems(3)] show ?case by (simp add: e)
qed

lemma open_checked_builds:
  "open_checked E dbid kind p v (db_disk db) = (r, d) \<Longrightarrow> builds P db (db\<lparr>db_disk := d\<rparr>)"
  by (intro builds_disk same_disk_touches) (rule same_disk_ops(6))

lemma copy_sources_frame:
  "copy_sources E i path buckets limit sources t db = (r, db') \<Longrightarrow> builds {path} db db'"
proof (induction sources arbitrary: t db)
  case Nil
  then show ?case by simp
next
  case (Cons s ss)
  then show ?case
    by (auto split: prod.splits sum.splits dest!: copy_entries_frame Cons.IH
        dest!: open_checked_builds[where P = "{path}"] intro: builds_trans)
qed

text \<open>What the sources hold together.\<close>

definition source_bag :: "'v disk \<Rightarrow> u64 \<Rightarrow> u64 list \<Rightarrow> (raw_outpoint \<times> 'v) multiset" where
  "source_bag d i sources = (\<Sum>s\<leftarrow>sources. generation_bag d i s)"

lemma generation_bag_cong:
  "lookup_file d' (data_path i v) = lookup_file d (data_path i v) \<Longrightarrow> generation_bag d' i v = generation_bag d i v"
  by (simp add: generation_bag_def generation_cong[of d' i v d])

lemma source_bag_touches:
  "touches P d d' \<Longrightarrow> (\<And>v. data_path i v \<notin> P) \<Longrightarrow> source_bag d' i ss = source_bag d i ss"
  unfolding source_bag_def using generation_bag_cong[OF touches_lookup[of P d d']]
  by (intro arg_cong[where f = sum_list] map_cong) simp_all

lemma copy_sources_spec:
  assumes "copy_sources E i (building_path i w) buckets limit sources t db = (Inr t', db')"
    and "tbl_ok t" "target_holds (building_path i w) g t (db_disk db)"
  shows "tbl_ok t' \<and> tbl_bag t' = tbl_bag t + source_bag (db_disk db) i sources
    \<and> target_holds (building_path i w) g t' (db_disk db')"
  using assms
proof (induction sources arbitrary: t db)
  case Nil
  then show ?case by (simp add: source_bag_def)
next
  case (Cons s ss)
  let ?p = "building_path i w"
  from Cons.prems(1) obtain m d t1 db1 where
    op: "open_checked E (db_database_id db) (kind_of_index i) (data_path i s) s (db_disk db) = (Inr m, d)"
    and copy: "copy_entries E ?p buckets limit (tbl_entries m) t (db\<lparr>db_disk := d\<rparr>) = (Inr t1, db1)"
    and rest: "copy_sources E i ?p buckets limit ss t1 db1 = (Inr t', db')"
    by (auto split: prod.splits sum.splits)
  have same: "same_disk (db_disk db) d" by (rule same_disk_ops(6)[OF op])
  have "target_holds ?p g t d" using Cons.prems(3) by (simp add: target_holds_same[OF same])
  then have one: "tbl_ok t1" "tbl_bag t1 = tbl_bag t + tbl_bag m" "target_holds ?p g t1 (db_disk db1)"
    using copy_entries_spec[OF copy Cons.prems(2)] by (simp_all add: tbl_bag_def)
  have "touches {?p} (db_disk db) (db_disk db1)"
    using builds_trans[OF open_checked_builds[OF op] copy_entries_frame[OF copy]] by (simp add: builds_def)
  then have "source_bag (db_disk db1) i ss = source_bag (db_disk db) i ss"
    by (rule source_bag_touches) simp
  moreover have "generation_bag (db_disk db) i s = tbl_bag m"
    using op by (elim open_checked_Inr) (simp add: generation_bag_def generation_def good_segment_def)
  ultimately show ?case
    using Cons.IH[OF rest one(1,3)] one(2) by (simp add: source_bag_def add.assoc)
qed

lemma construct_marker_touches:
  "construct_marker E path m d = (ok, d') \<Longrightarrow> path \<in> P \<Longrightarrow> touches P d d'"
  using touches_put_file[of path P "tick d"]
  by (auto simp: construct_marker_def touches_refl
      split: if_splits option.splits disk_file.splits constructing.splits)

lemma construct_marker_ok:
  "construct_marker E path m d = (True, d') \<Longrightarrow> \<exists>s. lookup_file d path = Some (Segment s)
     \<and> lookup_file d' path = Some (Segment (s\<lparr>seg_marker := Some (1, m)\<rparr>))"
  by (auto simp: construct_marker_def split: if_splits option.splits disk_file.splits constructing.splits)

lemma abandon_builds: "builds {building_path i v} db (abandon E i v db)"
  by (simp add: abandon_def builds_disk try_remove_touches)

lemma build_target_frame:
  assumes "build_target E i v m sources db = (r, db')"
  shows "builds {building_path i v} db db'"
proof -
  let ?p = "building_path i v" and ?d0 = "try_remove E (building_path i v) (db_disk db)"
  have start: "touches {?p} (db_disk db) ?d0" by (simp add: try_remove_touches)
  obtain ok d1 where c: "create_segment E ?p (ce_file_size (db_capacity db i)) ?d0 = (ok, d1)" by fastforce
  have b1: "builds {?p} db (db\<lparr>db_disk := d1\<rparr>)"
    by (intro builds_disk) (blast intro: touches_trans[OF start] create_segment_touches[OF c])
  obtain r2 d2 where p: "place_stamp E ?p (expected_identity E db i v) d1 = (r2, d2)" by fastforce
  have b2: "builds {?p} db (db\<lparr>db_disk := d2\<rparr>)"
    by (rule builds_trans[OF b1]) (use builds_disk[of "{?p}" "db\<lparr>db_disk := d1\<rparr>" d2] place_stamp_touches[OF p] in simp)
  obtain r3 d3 where k: "construct_map E ?p (capacity_for db i) d2 = (r3, d3)" by fastforce
  have b3: "builds {?p} db (db\<lparr>db_disk := d3\<rparr>)"
    by (rule builds_trans[OF b2]) (use builds_disk[of "{?p}" "db\<lparr>db_disk := d2\<rparr>" d3] construct_map_touches[OF k] in simp)
  obtain r4 d4 where m: "construct_marker E ?p m d3 = (r4, d4)" by fastforce
  have b4: "builds {?p} db (db\<lparr>db_disk := d4\<rparr>)"
    by (rule builds_trans[OF b3]) (use builds_disk[of "{?p}" "db\<lparr>db_disk := d3\<rparr>" d4] construct_marker_touches[OF m] in simp)
  have ab: "builds {?p} db (abandon E i v db1)" if "builds {?p} db db1" for db1
    using that abandon_builds by (rule builds_trans)
  have copied: "builds {?p} db db1"
    if "copy_sources E i ?p bu li sources t (db\<lparr>db_disk := d4\<rparr>) = (x, db1)" for bu li t x db1
    by (rule builds_trans[OF b4 copy_sources_frame[OF that]])
  have synced: "builds {?p} db (db1\<lparr>db_disk := d5\<rparr>)"
    if "builds {?p} db db1" "sync_mapped_region E z (db_disk db1) = (x, d5)" for db1 d5 z x
    using that same_disk_ops(1)[OF that(2)] by (blast intro: builds_trans builds_disk same_disk_touches)
  note cases = assms[unfolded build_target_def Let_def c p k m prod.case]
  from cases show ?thesis
    by (auto split: bool.splits sum.splits constructing.splits prod.splits option.splits
        simp: c p k m dest!: copied intro: ab synced b1 b2 b3 b4)
qed

lemma build_target_ok:
  assumes run: "build_target E i v m sources db = (Inr (), db')" and cr: "creatable db i"
  obtains g t where "lookup_file (db_disk db') (building_path i v) = Some (Segment g)"
    and "good_segment (local_build E) (db_database_id db) (kind_of_index i) v g t"
    and "tbl_ok t" "tbl_bag t = source_bag (db_disk db) i sources" "seg_marker g = Some (1, m)"
proof -
  let ?p = "building_path i v" and ?d0 = "try_remove E (building_path i v) (db_disk db)"
  let ?size = "ce_file_size (db_capacity db i)"
  obtain d1 d2 d3 d4 bu ml t db1 d5 x where
    c: "create_segment E ?p ?size ?d0 = (True, d1)"
    and p: "place_stamp E ?p (expected_identity E db i v) d1 = (Inr (), d2)"
    and k: "construct_map E ?p (capacity_for db i) d2 = (Constructed bu ml, d3)"
    and mk: "construct_marker E ?p m d3 = (True, d4)"
    and copy: "copy_sources E i ?p bu (max_size_without_rehash bu) sources (tbl_empty bu ml)
        (db\<lparr>db_disk := d4\<rparr>) = (Inr t, db1)"
    and s: "sync_mapped_region E ?size (db_disk db1) = (x, d5)" "db_disk db' = d5"
    using run by (auto simp: build_target_def Let_def
        split: bool.splits sum.splits constructing.splits prod.splits option.splits)
  let ?g = "\<lparr>seg_size = ?size, seg_stamp = Some (1, encode_stamp (expected_identity E db i v)),
      seg_map = None, seg_marker = Some (1, m)\<rparr>"
  have start: "target_holds ?p ?g (tbl_empty bu ml) d4"
    using created_segment[OF c p k] construct_marker_ok[OF mk] by (auto simp: target_holds_def)
  have before: "touches {?p} (db_disk db) d4"
    using try_remove_touches[where E = E and d = "db_disk db", of ?p "{?p}"] create_segment_touches[OF c singletonI]
      place_stamp_touches[OF p singletonI] construct_map_touches[OF k singletonI]
      construct_marker_touches[OF mk singletonI]
    by (blast intro: touches_trans)
  have bag: "source_bag d4 i sources = source_bag (db_disk db) i sources"
    by (rule source_bag_touches[OF before]) simp
  have spec: "tbl_ok t" "tbl_bag t = source_bag (db_disk db) i sources" "target_holds ?p ?g t (db_disk db1)"
    using copy_sources_spec[OF copy tbl_ok_empty, of ?g] start bag by simp_all
  have "target_holds ?p ?g t (db_disk db')"
    using spec(3) target_holds_same[OF same_disk_ops(1)[OF s(1)]] by (simp add: s(2))
  moreover have "good_segment (local_build E) (db_database_id db) (kind_of_index i) v
      (?g\<lparr>seg_map := Some (1, t)\<rparr>) t"
    using cr validate_own_stamp[OF expected_identity_wf[OF cr, of E v]]
    by (simp add: good_segment_def creatable_def expected_identity_def)
  ultimately show ?thesis
    using that[of "?g\<lparr>seg_map := Some (1, t)\<rparr>" t] spec(1,2) by (simp add: target_holds_def)
qed

end
