(* ===== verification/Merge_Stages.thy ===== *)
theory Merge_Stages
  imports Merge_Facts
begin

text \<open>
  The states a directory passes through while versions are merged. Before the target has its name
  the sources are all there; from then on the target holds what they held together, and the record
  stays until the last of them is gone. Every step of \<open>merge_versions\<close> and of the recovery keeps a
  directory in one of these states.
\<close>

section \<open>The states\<close>

definition scratch_names :: "string set" where
  "scratch_names = {n. \<exists>j v. n = building_path j v \<or> n = tmp_path (sidecar_path j v)
     \<or> n = metadata_path j v \<or> n = tmp_path (metadata_path j v)}"

definition key_names :: "merge_plan \<Rightarrow> string set" where
  "key_names p = insert (data_path (mp_container p) (mp_target p))
     (insert (sidecar_path (mp_container p) (mp_target p)) (data_path (mp_container p) ` set (mp_sources p)))"

definition record_of :: "merge_plan \<Rightarrow> 'v disk_file" where
  "record_of p = Plain (encode_merge_plan p)"

text \<open>The target of the merge: good for its place, marked, holding what the sources held.\<close>

definition merged_target :: "build \<Rightarrow> database_id \<Rightarrow> merge_plan \<Rightarrow> 'v directory \<Rightarrow> 'v disk_file \<Rightarrow> bool" where
  "merged_target b dbid p s0 f \<longleftrightarrow> (\<exists>g t. f = Segment g
     \<and> good_segment b dbid (kind_of_index (mp_container p)) (mp_target p) g t \<and> tbl_ok t
     \<and> tbl_bag t = source_bag (disk_of s0) (mp_container p) (mp_sources p)
     \<and> seg_marker g = Some (1, mp_id p))"

definition unpublished :: "merge_plan \<Rightarrow> 'v directory \<Rightarrow> 'v directory \<Rightarrow> bool" where
  "unpublished p s0 s \<longleftrightarrow> map_of s (data_path (mp_container p) (mp_target p)) = None
     \<and> (\<forall>v \<in> set (mp_sources p). map_of s (data_path (mp_container p) v) = map_of s0 (data_path (mp_container p) v))
     \<and> map_of s (sidecar_path (mp_container p) (mp_target p)) \<in> {None, Some (record_of p)}"

definition retiring :: "build \<Rightarrow> database_id \<Rightarrow> merge_plan \<Rightarrow> 'v directory \<Rightarrow> 'v directory \<Rightarrow> bool" where
  "retiring b dbid p s0 s \<longleftrightarrow>
     (\<exists>f. map_of s (data_path (mp_container p) (mp_target p)) = Some f \<and> merged_target b dbid p s0 f)
     \<and> map_of s (sidecar_path (mp_container p) (mp_target p)) = Some (record_of p)
     \<and> (\<forall>v \<in> set (mp_sources p). map_of s (data_path (mp_container p) v)
          \<in> {None, map_of s0 (data_path (mp_container p) v)})"

definition retired :: "build \<Rightarrow> database_id \<Rightarrow> merge_plan \<Rightarrow> 'v directory \<Rightarrow> 'v directory \<Rightarrow> bool" where
  "retired b dbid p s0 s \<longleftrightarrow>
     (\<exists>f. map_of s (data_path (mp_container p) (mp_target p)) = Some f \<and> merged_target b dbid p s0 f)
     \<and> map_of s (sidecar_path (mp_container p) (mp_target p)) \<in> {None, Some (record_of p)}
     \<and> (\<forall>v \<in> set (mp_sources p). map_of s (data_path (mp_container p) v) = None)"

definition merging :: "build \<Rightarrow> database_id \<Rightarrow> merge_plan \<Rightarrow> 'v directory \<Rightarrow> 'v directory \<Rightarrow> bool" where
  "merging b dbid p s0 s \<longleftrightarrow> agrees (scratch_names \<union> key_names p) s0 s
     \<and> (unpublished p s0 s \<or> retiring b dbid p s0 s \<or> retired b dbid p s0 s)"

lemmas stage_defs = unpublished_def retiring_def retired_def

lemma scratch_disjoint [simp]:
  "data_path j v \<notin> scratch_names" "sidecar_path j v \<notin> scratch_names"
  "building_path j v \<in> scratch_names" "tmp_path (sidecar_path j v) \<in> scratch_names"
  "metadata_path j v \<in> scratch_names" "tmp_path (metadata_path j v) \<in> scratch_names"
  by (auto simp: scratch_names_def)

lemma key_names_mem [simp]:
  "data_path j v \<in> key_names p \<longleftrightarrow> j = mp_container p \<and> (v = mp_target p \<or> v \<in> set (mp_sources p))"
  "sidecar_path j v \<in> key_names p \<longleftrightarrow> j = mp_container p \<and> v = mp_target p"
  by (auto simp: key_names_def)

section \<open>Steps that keep a state\<close>

text \<open>A change that differs from the last directory only in names no stage looks at.\<close>

lemma stage_cong:
  assumes "agrees Q s s'" "Q \<inter> key_names p = {}"
  shows "unpublished p s0 s' = unpublished p s0 s" "retiring b dbid p s0 s' = retiring b dbid p s0 s"
    "retired b dbid p s0 s' = retired b dbid p s0 s"
proof -
  have same: "map_of s' n = map_of s n" if "n \<in> key_names p" for n
    using assms that by (auto simp: agrees_def)
  have l: "map_of s' (data_path (mp_container p) (mp_target p)) = map_of s (data_path (mp_container p) (mp_target p))"
    "map_of s' (sidecar_path (mp_container p) (mp_target p)) = map_of s (sidecar_path (mp_container p) (mp_target p))"
    "v \<in> set (mp_sources p) \<Longrightarrow> map_of s' (data_path (mp_container p) v) = map_of s (data_path (mp_container p) v)" for v
    using same by simp_all
  show "unpublished p s0 s' = unpublished p s0 s" "retiring b dbid p s0 s' = retiring b dbid p s0 s"
    "retired b dbid p s0 s' = retired b dbid p s0 s"
    using l by (simp_all add: stage_defs)
qed

lemma merging_scratch:
  assumes "merging b dbid p s0 s" "agrees Q s s'" "Q \<subseteq> scratch_names"
  shows "merging b dbid p s0 s'"
proof -
  have "Q \<inter> key_names p = {}" using assms(3) by (auto simp: key_names_def)
  moreover have "agrees (scratch_names \<union> key_names p) s s'"
    using assms(2,3) by (blast intro: agrees_mono)
  ultimately show ?thesis
    using assms(1) stage_cong[OF assms(2)] agrees_trans unfolding merging_def by blast
qed

lemma scratch_visits:
  assumes "touches Q d d'" "Q \<subseteq> scratch_names" "merging b dbid p s0 (files d)"
  shows "visits (merging b dbid p s0) d d'" "merging b dbid p s0 (files d')"
proof -
  show "visits (merging b dbid p s0) d d'"
    using assms(1) by (rule touches_visits) (rule merging_scratch[OF assms(3) _ assms(2)])
  then show "merging b dbid p s0 (files d')" using assms(3) by (rule visits_final)
qed

lemma scratch_stage:
  assumes "touches Q d d'" "Q \<subseteq> scratch_names"
  shows "unpublished p s0 (files d') = unpublished p s0 (files d)"
    "retiring b dbid p s0 (files d') = retiring b dbid p s0 (files d)"
    "retired b dbid p s0 (files d') = retired b dbid p s0 (files d)"
proof -
  have "Q \<inter> key_names p = {}" using assms(2) by (auto simp: key_names_def)
  then show "unpublished p s0 (files d') = unpublished p s0 (files d)"
    "retiring b dbid p s0 (files d') = retiring b dbid p s0 (files d)"
    "retired b dbid p s0 (files d') = retired b dbid p s0 (files d)"
    using stage_cong[OF touches_files[OF assms(1)]] by blast+
qed

lemma scratch_lookup:
  assumes "touches Q d d'" "Q \<subseteq> scratch_names"
  shows "lookup_file d' (data_path j v) = lookup_file d (data_path j v)"
    "lookup_file d' (sidecar_path j v) = lookup_file d (sidecar_path j v)"
  using touches_lookup[OF assms(1)] assms(2) by (auto intro!: touches_lookup[OF assms(1)])

lemma same_disk_merging:
  "same_disk d d' \<Longrightarrow> visits (merging b dbid p s0) d d'"
  by (rule visits_same) (simp_all add: same_disk_def)

lemma drop_key:
  assumes "agrees (scratch_names \<union> key_names p) s0 (files d)" "n \<in> key_names p"
  shows "agrees (scratch_names \<union> key_names p) s0 (files (drop_file n d))"
  using agrees_trans[OF assms(1) touches_files[OF touches_drop_file[of n "scratch_names \<union> key_names p" d]]] assms(2)
  by blast

lemma drop_visits:
  assumes "merging b dbid p s0 (files (drop_file n d))"
  shows "visits (merging b dbid p s0) d (drop_file n d)"
  using assms by (auto simp: drop_file_def intro!: visits_set_files)

lemma map_of_drop [simp]:
  "map_of (files (drop_file n d)) m = (if m = n then None else map_of (files d) m)"
  using lookup_drop_file[of n d m] by (simp add: lookup_file_def)

text \<open>Withdrawing the record, before the target is published and after the sources are gone.\<close>

lemma drop_record:
  assumes "merging b dbid p s0 (files d)" "\<not> retiring b dbid p s0 (files d) \<or> retired b dbid p s0 (files d)"
  shows "merging b dbid p s0 (files (drop_file (sidecar_path (mp_container p) (mp_target p)) d))"
  using assms drop_key[of p s0 d "sidecar_path (mp_container p) (mp_target p)"]
  by (auto simp: merging_def stage_defs)

lemma drop_source:
  assumes "merging b dbid p s0 (files d)" "retiring b dbid p s0 (files d)" "v \<in> set (mp_sources p)"
    and "mp_target p \<notin> set (mp_sources p)"
  shows "merging b dbid p s0 (files (drop_file (data_path (mp_container p) v) d))"
    and "retiring b dbid p s0 (files (drop_file (data_path (mp_container p) v) d))"
proof -
  show "retiring b dbid p s0 (files (drop_file (data_path (mp_container p) v) d))"
    using assms by (auto simp: stage_defs)
  then show "merging b dbid p s0 (files (drop_file (data_path (mp_container p) v) d))"
    using assms drop_key[of p s0 d "data_path (mp_container p) v"] by (auto simp: merging_def)
qed

text \<open>Publishing the record.\<close>

lemma record_visits:
  assumes run: "write_merge_sidecar E (sidecar_path (mp_container p) (mp_target p)) p d = (r, d')"
    and m: "merging b dbid p s0 (files d)" "unpublished p s0 (files d)"
  shows "visits (merging b dbid p s0) d d'" "unpublished p s0 (files d')" "merging b dbid p s0 (files d')"
    and "r = Inr pub \<Longrightarrow> lookup_file d' (sidecar_path (mp_container p) (mp_target p)) = Some (record_of p)"
    and "\<And>j v. lookup_file d' (building_path j v) = lookup_file d (building_path j v)"
proof -
  let ?c = "sidecar_path (mp_container p) (mp_target p)"
  have v: "visits (published ?c (record_of p) (files d)) d d'"
    using write_merge_sidecar_published[OF run]
    by (cases r) (auto simp: record_of_def staged_def in_place_def)
  have step: "merging b dbid p s0 s \<and> unpublished p s0 s" if "published ?c (record_of p) (files d) s" for s
  proof -
    have a: "agrees {?c, tmp_path ?c} (files d) s" using that by (simp add: published_def)
    have l: "map_of s (data_path j w) = map_of (files d) (data_path j w)" for j w
      using a by (simp add: agrees_def)
    have "unpublished p s0 s"
      using m(2) that by (auto simp: unpublished_def l published_def)
    moreover have "agrees (scratch_names \<union> key_names p) (files d) s"
      using a by (rule agrees_mono) (simp add: key_names_def)
    ultimately show ?thesis using m(1) agrees_trans by (auto simp: merging_def)
  qed
  then show vis: "visits (merging b dbid p s0) d d'" using v by (blast intro: visits_mono)
  then show "merging b dbid p s0 (files d')" using m(1) by (rule visits_final)
  have "visits (unpublished p s0) d d'" using v step by (blast intro: visits_mono)
  then show "unpublished p s0 (files d')" using m(2) by (rule visits_final)
  show "lookup_file d' ?c = Some (record_of p)" if "r = Inr pub"
    using write_merge_sidecar_published(1)[OF run that] by (simp add: in_place_def record_of_def)
  have "published ?c (record_of p) (files d) (files d')" using v by (rule visits_final) simp
  then show "lookup_file d' (building_path j v) = lookup_file d (building_path j v)" for j v
    by (simp add: published_def agrees_def lookup_file_def)
qed

text \<open>Publishing the target.\<close>

lemma target_visits:
  assumes run: "publish_new_file E (building_path (mp_container p) (mp_target p))
      (data_path (mp_container p) (mp_target p)) d = (r, d')"
    and m: "merging b dbid p s0 (files d)" "unpublished p s0 (files d)"
    and rec: "lookup_file d (sidecar_path (mp_container p) (mp_target p)) = Some (record_of p)"
    and built: "lookup_file d (building_path (mp_container p) (mp_target p)) = Some f" "merged_target b dbid p s0 f"
    and fresh: "mp_target p \<notin> set (mp_sources p)"
  shows "visits (merging b dbid p s0) d d'" "merging b dbid p s0 (files d')"
    and "r = Inr () \<Longrightarrow> retiring b dbid p s0 (files d')" "r \<noteq> Inr () \<Longrightarrow> same_disk d d'"
proof -
  let ?t = "data_path (mp_container p) (mp_target p)" and ?b = "building_path (mp_container p) (mp_target p)"
  let ?linked = "put_file ?t f (tick d)"
  have lk: "map_of (files ?linked) n = (if n = ?t then Some f else map_of (files d) n)" for n
    using lookup_put_file[of ?t f "tick d" n] by (simp add: lookup_file_def)
  have ret: "retiring b dbid p s0 (files ?linked)"
    using m(2) rec built(2) fresh by (auto simp: stage_defs lk lookup_file_def)
  have "agrees (scratch_names \<union> key_names p) (files d) (files ?linked)"
    using touches_files[OF touches_put_file[of ?t "scratch_names \<union> key_names p" "tick d" f]]
    by (simp add: key_names_def)
  then have mer: "merging b dbid p s0 (files ?linked)"
    using ret m(1) agrees_trans by (auto simp: merging_def)
  have v1: "visits (merging b dbid p s0) d ?linked"
    using mer visits_set_files[of "merging b dbid p s0" _ "tick d"]
    by (simp add: put_file_def visits_def)
  have tr: "touches {?b} ?linked (try_remove E ?b ?linked)" by (simp add: try_remove_touches)
  note v2 = scratch_visits[OF tr _ mer] and st = scratch_stage(2)[OF tr]
  show "visits (merging b dbid p s0) d d'"
    using run built(1) v1 visits_trans[OF v1 v2(1)]
    by (auto simp: publish_new_file_def Let_def visits_def split: if_splits)
  then show "merging b dbid p s0 (files d')" using m(1) by (rule visits_final)
  show "retiring b dbid p s0 (files d')" if "r = Inr ()"
    using run that built(1) ret st by (auto simp: publish_new_file_def Let_def split: if_splits)
  show "same_disk d d'" if "r \<noteq> Inr ()"
    using run that built(1) by (auto simp: publish_new_file_def Let_def split: if_splits)
qed

section \<open>Publishing, step by step\<close>

text \<open>Everything from \<open>d0\<close> to \<open>d\<close> was a state of the merge, \<open>d\<close> included.\<close>

definition within :: "build \<Rightarrow> database_id \<Rightarrow> merge_plan \<Rightarrow> 'v directory \<Rightarrow> 'v disk \<Rightarrow> 'v disk \<Rightarrow> bool" where
  "within b dbid p s0 d0 d \<longleftrightarrow> visits (merging b dbid p s0) d0 d \<and> merging b dbid p s0 (files d)"

lemma within_step:
  "within b dbid p s0 d0 d \<Longrightarrow> visits (merging b dbid p s0) d d' \<Longrightarrow> within b dbid p s0 d0 d'"
  unfolding within_def by (blast intro: visits_trans visits_final)

lemma within_same: "within b dbid p s0 d0 d \<Longrightarrow> same_disk d d' \<Longrightarrow> within b dbid p s0 d0 d'"
  by (blast intro: within_step same_disk_merging)

lemma within_scratch:
  "within b dbid p s0 d0 d \<Longrightarrow> touches Q d d' \<Longrightarrow> Q \<subseteq> scratch_names \<Longrightarrow> within b dbid p s0 d0 d'"
  by (rule within_step, assumption, rule scratch_visits(1)) (simp_all add: within_def)

lemma remove_file_files: "remove_file E n d = (Inr u, d') \<Longrightarrow> files d' = files (drop_file n d)"
  by (auto simp: remove_file_def drop_file_def split: if_splits)

lemma within_remove:
  assumes "within b dbid p s0 d0 d" "remove_file E n d = (r, d')" "merging b dbid p s0 (files (drop_file n d))"
  shows "within b dbid p s0 d0 d'"
proof (cases r)
  case (Inl e)
  then show ?thesis using remove_file_err assms(1,2) within_same by blast
next
  case (Inr u)
  then have "d' = drop_file n (tick d)" using assms(2) by (auto simp: remove_file_def split: if_splits)
  moreover have "files (drop_file n (tick d)) = files (drop_file n d)" by (simp add: drop_file_def)
  moreover have "visits (merging b dbid p s0) (tick d) (drop_file n (tick d))"
    using drop_visits[of b dbid p s0 n "tick d"] assms(3) calculation(2) by simp
  ultimately show ?thesis
    using within_step[OF within_same[OF assms(1), of "tick d"]] by simp
qed

lemma publish_target_visits:
  assumes run: "publish_target E p db = (r, db')"
    and w: "within b dbid p s0 d0 (db_disk db)" and un: "unpublished p s0 (files (db_disk db))"
    and none: "lookup_file (db_disk db) (sidecar_path (mp_container p) (mp_target p)) = None"
    and built: "lookup_file (db_disk db) (building_path (mp_container p) (mp_target p)) = Some f"
      "merged_target b dbid p s0 f"
    and fresh: "mp_target p \<notin> set (mp_sources p)"
  shows "within b dbid p s0 d0 (db_disk db') \<and> adjusts db db'
    \<and> (r = Inr () \<longrightarrow> retiring b dbid p s0 (files (db_disk db')) \<and> db_cleanup_pending db' = db_cleanup_pending db)
    \<and> (r \<noteq> Inr () \<longrightarrow> db_cleanup_pending db' \<or> db_cleanup_pending db' = db_cleanup_pending db
         \<and> unpublished p s0 (files (db_disk db'))
         \<and> lookup_file (db_disk db') (sidecar_path (mp_container p) (mp_target p)) = None)"
proof -
  let ?i = "mp_container p" and ?t = "mp_target p"
  let ?b = "building_path ?i ?t" and ?c = "sidecar_path ?i ?t"
  let ?un = "\<lambda>d. unpublished p s0 (files d)"
  obtain r1 d1 where s1: "sync_file E ?b (db_disk db) = (r1, d1)" by fastforce
  have same1: "same_disk (db_disk db) d1" by (rule sync_file_same[OF s1])
  have w1: "within b dbid p s0 d0 d1" using w same1 by (rule within_same)
  have un1: "?un d1" and look1: "lookup_file d1 n = lookup_file (db_disk db) n" for n
    using un same1 by (simp_all add: same_disk_def lookup_file_def)
  obtain r2 d2 where s2: "write_merge_sidecar E ?c p d1 = (r2, d2)" by fastforce
  have m1: "merging b dbid p s0 (files d1)" using w1 by (simp add: within_def)
  note rec = record_visits[OF s2 m1 un1]
  have w2: "within b dbid p s0 d0 d2" by (rule within_step[OF w1 rec(1)])
  have un2: "?un d2" and rec2: "r2 = Inr pub \<Longrightarrow> lookup_file d2 ?c = Some (record_of p)"
    and b2: "lookup_file d2 ?b = Some f" for pub
    using rec(2,4,5) built(1) look1 by simp_all
  have none2: "lookup_file d2 ?c = None" if "r2 = Inl e" for e
    using write_merge_sidecar_published(2)[OF s2 that] none look1 by (simp add: staged_def)
  have scratch: "within b dbid p s0 d0 (try_remove E ?b d) \<and> ?un (try_remove E ?b d) = ?un d
      \<and> lookup_file (try_remove E ?b d) ?c = lookup_file d ?c" if "within b dbid p s0 d0 d" for d
  proof -
    have t: "touches {?b} d (try_remove E ?b d)" by (simp add: try_remove_touches)
    then show ?thesis
      using within_scratch[OF that t] scratch_stage(1)[OF t] scratch_lookup(2)[OF t] by simp
  qed
  have withdraw: "within b dbid p s0 d0 d' \<and> (x = Inr () \<longrightarrow> ?un d' \<and> lookup_file d' ?c = None)"
    if "within b dbid p s0 d0 d" "?un d" "remove_file E ?c d = (x, d')" for d x d'
  proof -
    have "merging b dbid p s0 (files (drop_file ?c d))"
      using that(1,2) by (intro drop_record) (auto simp: within_def stage_defs)
    from within_remove[OF that(1,3) this] show ?thesis
      using that(2,3) by (auto simp: remove_file_files remove_file_ok unpublished_def)
  qed
  obtain r3 d3 where s3: "publish_new_file E ?b (data_path ?i ?t) d2 = (r3, d3)" by fastforce
  have gone: "within b dbid p s0 d0 (try_remove E ?c (try_remove E ?b d2))"
    using withdraw[of "try_remove E ?b d2" "fst (remove_file E ?c (try_remove E ?b d2))"] scratch[OF w2] un2
    by (simp add: try_remove_def)
  obtain r4 d4 where s4: "sync_directory E d3 = (r4, d4)" by fastforce
  have same4: "same_disk d3 d4" by (rule sync_directory_same[OF s4])
  obtain r5 d5 where s5: "read_target_marker E ?i ?t d4 = (r5, d5)" by fastforce
  have same5: "same_disk d4 d5"
    using s5 by (auto simp: read_target_marker_def split: prod.splits sum.splits dest: open_existing_segment_same)
  consider (unsynced) e where "refusal r1 = Some e" | (unwritten) e where "refusal r1 = None" "r2 = Inl e"
    | (undurable) pub where "refusal r1 = None" "r2 = Inr pub" "\<not> durable pub"
    | (written) pub where "refusal r1 = None" "r2 = Inr pub" "durable pub"
    by (cases "refusal r1"; cases r2) auto
  then show ?thesis
  proof cases
    case unsynced
    then show ?thesis
      using run s1 scratch[OF w1] un1 none look1
      by (auto simp: publish_target_def Let_def abandon_def)
  next
    case unwritten
    then show ?thesis
      using run s1 s2 scratch[OF w2] un2 none2
      by (auto simp: publish_target_def Let_def abandon_def)
  next
    case undurable
    then show ?thesis
      using run s1 s2 gone
      by (auto simp: publish_target_def Let_def abandon_def stop_for_recovery_def)
  next
    case written
    have m2: "merging b dbid p s0 (files d2)" using w2 by (simp add: within_def)
    note target = target_visits[OF s3 m2 un2 rec2[OF written(2)] b2 built(2) fresh]
    have w3: "within b dbid p s0 d0 d3" by (rule within_step[OF w2 target(1)])
    show ?thesis
    proof (cases r3)
      case (Inl e)
      then have un3: "?un d3" using target(4) un2 by (simp add: same_disk_def)
      obtain r6 d6 where s6: "remove_file E ?c d3 = (r6, d6)" by fastforce
      obtain r7 d7 where s7: "sync_directory E d6 = (r7, d7)" by fastforce
      have w6: "within b dbid p s0 d0 d6" "r6 = Inr () \<Longrightarrow> ?un d6 \<and> lookup_file d6 ?c = None"
        using withdraw[OF w3 un3 s6] by simp_all
      have same7: "same_disk d6 d7" by (rule sync_directory_same[OF s7])
      have w7: "within b dbid p s0 d0 d7" "r6 = Inr () \<Longrightarrow> ?un d7 \<and> lookup_file d7 ?c = None"
        using within_same[OF w6(1) same7] w6(2) same7 by (auto simp: same_disk_def lookup_file_def)
      have "(r, db') = withdraw_record E ?i ?t e (db\<lparr>db_disk := d3\<rparr>)"
        using run written s1 s2 s3 Inl by (simp add: publish_target_def Let_def)
      then show ?thesis
        using w6(1) w7 scratch[OF w7(1)] s6 s7
        by (cases r6) (auto simp: withdraw_record_def stop_for_recovery_def abandon_def split: if_splits)
    next
      case (Inr u)
      then have ret: "retiring b dbid p s0 (files d5)" "within b dbid p s0 d0 d4" "within b dbid p s0 d0 d5"
        using target(3) same4 same5 within_same[OF w3 same4] within_same[OF within_same[OF w3 same4] same5]
        by (simp_all add: same_disk_def)
      then show ?thesis
        using run written s1 s2 s3 s4 s5 Inr
        by (auto simp: publish_target_def Let_def stop_for_recovery_def split: if_splits)
    qed
  qed
qed

section \<open>Retiring, step by step\<close>

lemma remove_file_lookup:
  "remove_file E n d = (r, d') \<Longrightarrow> lookup_file d' m = (if r = Inr () \<and> m = n then None else lookup_file d m)"
  by (auto simp: remove_file_def split: if_splits)

lemma retire_one:
  assumes "within b dbid p s0 d0 d" "retiring b dbid p s0 (files d)"
    and "n \<in> scratch_names \<or> (\<exists>v \<in> set (mp_sources p). n = data_path (mp_container p) v)"
    and "mp_target p \<notin> set (mp_sources p)" "remove_file E n d = (r, d')"
  shows "within b dbid p s0 d0 d' \<and> retiring b dbid p s0 (files d')"
  using assms(3)
proof
  assume n: "n \<in> scratch_names"
  have t: "touches {n} d d'" using remove_file_touches[OF assms(5)] by simp
  show ?thesis
    using within_scratch[OF assms(1) t] scratch_stage(2)[OF t] n assms(2) by simp
next
  assume "\<exists>v \<in> set (mp_sources p). n = data_path (mp_container p) v"
  then obtain v where v: "v \<in> set (mp_sources p)" "n = data_path (mp_container p) v" by blast
  have m: "merging b dbid p s0 (files d)" using assms(1) by (simp add: within_def)
  note drop = drop_source[OF m assms(2) v(1) assms(4), folded v(2)]
  show ?thesis
  proof (cases r)
    case (Inl e)
    then have "same_disk d d'" using remove_file_err assms(5) by blast
    then show ?thesis using within_same[OF assms(1)] assms(2) by (simp add: same_disk_def)
  next
    case (Inr u)
    then show ?thesis
      using within_remove[OF assms(1,5) drop(1)] drop(2) remove_file_files assms(5) by metis
  qed
qed

lemma remove_all_names_spec:
  assumes "within b dbid p s0 d0 d" "retiring b dbid p s0 (files d)" "mp_target p \<notin> set (mp_sources p)"
    and "\<forall>n \<in> set ns. n \<in> scratch_names \<or> (\<exists>v \<in> set (mp_sources p). n = data_path (mp_container p) v)"
    and "remove_all_names E ns d = (ok, d')"
  shows "within b dbid p s0 d0 d' \<and> retiring b dbid p s0 (files d')
    \<and> (ok \<longrightarrow> (\<forall>n \<in> set ns. lookup_file d' n = None))
    \<and> (\<forall>n. lookup_file d n = None \<longrightarrow> lookup_file d' n = None)"
  using assms
proof (induction ns arbitrary: d ok)
  case Nil
  then show ?case by simp
next
  case (Cons n ns)
  obtain r d1 where r: "remove_file E n d = (r, d1)" by fastforce
  obtain ok2 where rest: "remove_all_names E ns d1 = (ok2, d')" and ok: "ok = (r = Inr () \<and> ok2)"
    using Cons.prems(5) r by (auto split: prod.splits)
  have one: "within b dbid p s0 d0 d1" "retiring b dbid p s0 (files d1)"
    using retire_one[OF Cons.prems(1,2) _ Cons.prems(3) r] Cons.prems(4) by simp_all
  show ?case
    using Cons.IH[OF one Cons.prems(3) _ rest] Cons.prems(4) remove_file_lookup[OF r] ok by auto
qed

lemma source_names_ok:
  "\<forall>n \<in> set (source_names (mp_container p) (mp_sources p)).
     n \<in> scratch_names \<or> (\<exists>v \<in> set (mp_sources p). n = data_path (mp_container p) v)"
  by (auto simp: source_names_def)

lemma drop_retired_record:
  assumes "within b dbid p s0 d0 d" "retired b dbid p s0 (files d)"
    and "remove_file E (sidecar_path (mp_container p) (mp_target p)) d = (r, d')"
  shows "within b dbid p s0 d0 d' \<and> retired b dbid p s0 (files d')"
proof -
  have m: "merging b dbid p s0 (files d)" using assms(1) by (simp add: within_def)
  have "merging b dbid p s0 (files (drop_file (sidecar_path (mp_container p) (mp_target p)) d))"
    using drop_record[OF m] assms(2) by simp
  moreover have "retired b dbid p s0 (files d')"
    using assms(2) remove_file_lookup[OF assms(3)] by (auto simp: retired_def lookup_file_def)
  ultimately show ?thesis using within_remove[OF assms(1,3)] by blast
qed

lemma retire_sources_visits:
  assumes run: "retire_sources E p db = (r, db')"
    and w: "within b dbid p s0 d0 (db_disk db)" and ret: "retiring b dbid p s0 (files (db_disk db))"
    and fresh: "mp_target p \<notin> set (mp_sources p)"
  shows "within b dbid p s0 d0 (db_disk db')
    \<and> (r = Inr () \<longrightarrow> retired b dbid p s0 (files (db_disk db'))
         \<and> lookup_file (db_disk db') (sidecar_path (mp_container p) (mp_target p)) = None
         \<and> db_cleanup_pending db' = db_cleanup_pending db)
    \<and> (r \<noteq> Inr () \<longrightarrow> db_cleanup_pending db')
    \<and> adjusts (db\<lparr>db_catalogs := (db_catalogs db)(mp_container p := fold catalog_remove (mp_sources p)
             (catalog_add (mp_target p) (db_catalogs db (mp_container p)))),
           db_dirty_versions := filter (\<lambda>(j, v). \<not> (j = mp_container p \<and> v \<in> set (mp_sources p)))
             (db_dirty_versions db)\<rparr>) db'"
proof -
  let ?c = "sidecar_path (mp_container p) (mp_target p)"
  let ?names = "source_names (mp_container p) (mp_sources p)"
  obtain ok d1 where s1: "remove_all_names E ?names (db_disk db) = (ok, d1)" by fastforce
  note all = remove_all_names_spec[OF w ret fresh source_names_ok s1]
  obtain r2 d2 where s2: "sync_directory E d1 = (r2, d2)" by fastforce
  have same2: "same_disk d1 d2" by (rule sync_directory_same[OF s2])
  have w2: "within b dbid p s0 d0 d2" using within_same[OF _ same2] all by blast
  have "\<forall>v \<in> set (mp_sources p). map_of (files d1) (data_path (mp_container p) v) = None" if ok
    using all that by (auto simp: source_names_def lookup_file_def)
  then have ret2: "retired b dbid p s0 (files d2)" if ok
    using that all same2 by (auto simp: stage_defs same_disk_def)
  obtain r3 d3 where s3: "remove_file E ?c d2 = (r3, d3)" by fastforce
  have three: "within b dbid p s0 d0 d3 \<and> retired b dbid p s0 (files d3)" if ok
    by (rule drop_retired_record[OF w2 ret2[OF that] s3])
  obtain r4 d4 where s4: "sync_directory E d3 = (r4, d4)" by fastforce
  have same4: "same_disk d3 d4" by (rule sync_directory_same[OF s4])
  have four: "within b dbid p s0 d0 d4 \<and> retired b dbid p s0 (files d4)" if ok
    using three[OF that] within_same[OF _ same4] same4 by (simp add: same_disk_def)
  have gone: "lookup_file d4 ?c = None" if "r3 = Inr ()"
    using remove_file_lookup[OF s3, of ?c] that by (simp add: same_disk_lookup[OF same4])
  show ?thesis
    using run s1 s2 s3 s4 w2 three four gone
    by (cases r3) (auto simp: retire_sources_def Let_def stop_for_recovery_def split: if_splits)
qed

end
