(* ===== verification/Compacting.thy ===== *)
theory Compacting
  imports Merge_Stages
begin

text \<open>
  The contract of \<open>merge_versions\<close>: in which state it leaves the directory on every path, and that
  what the container holds does not change; then the same for a whole compaction.
\<close>

section \<open>One merge\<close>

definition mergeable :: "'v env \<Rightarrow> 'v database \<Rightarrow> u64 \<Rightarrow> u64 list \<Rightarrow> bool" where
  "mergeable E db i sources \<longleftrightarrow> container_inv E db i \<and> creatable db i
     \<and> vc_versions (db_catalogs db i) \<noteq> [] \<and> vc_highest_issued (db_catalogs db i) \<noteq> u64_max
     \<and> set sources \<subseteq> set (vc_versions (db_catalogs db i)) \<and> distinct sources \<and> sorted sources
     \<and> (\<forall>v. lookup_file (db_disk db) (sidecar_path i v) = None)"

definition plan_for :: "'v database \<Rightarrow> u64 \<Rightarrow> u64 list \<Rightarrow> merge_marker \<Rightarrow> merge_plan" where
  "plan_for db i sources m = \<lparr>mp_container = i, mp_target = next_version (db_catalogs db i),
     mp_id = m, mp_sources = sources\<rparr>"

lemma plan_for_fields [simp]:
  "mp_container (plan_for db i sources m) = i"
  "mp_target (plan_for db i sources m) = next_version (db_catalogs db i)"
  "mp_id (plan_for db i sources m) = m" "mp_sources (plan_for db i sources m) = sources"
  by (simp_all add: plan_for_def)

lemma mergeable_fresh: "mergeable E db i sources \<Longrightarrow> next_version (db_catalogs db i) \<notin> set sources"
  using next_version_fresh(2)[of "db_catalogs db i"] by (fastforce simp: mergeable_def container_inv_def)

text \<open>The state of the merge a run of the database is in, from the disk it started with.\<close>

abbreviation merge_within :: "'v env \<Rightarrow> 'v database \<Rightarrow> merge_plan \<Rightarrow> 'v disk \<Rightarrow> bool" where
  "merge_within E db p d \<equiv>
     within (local_build E) (db_database_id db) p (files (db_disk db)) (db_disk db) d"

lemma merge_started:
  assumes "lookup_file (db_disk db) (data_path (mp_container p) (mp_target p)) = None"
    and "lookup_file (db_disk db) (sidecar_path (mp_container p) (mp_target p)) = None"
  shows "merge_within E db p (db_disk db)" "unpublished p (files (db_disk db)) (files (db_disk db))"
  using assms by (simp_all add: within_def merging_def unpublished_def lookup_file_def)

lemma source_bag_files: "source_bag (disk_of (files d)) i ss = source_bag d i ss"
  using generation_bag_cong[of "disk_of (files d)" i _ d] by (simp add: source_bag_def lookup_file_def)

lemma summarise_target_frame:
  obtains m d where "summarise_target E height_of i v db
      = db\<lparr>db_catalogs := (db_catalogs db)(i := catalog_set_metadata v m (db_catalogs db i)), db_disk := d\<rparr>"
    and "touches {metadata_path i v, tmp_path (metadata_path i v)} (db_disk db) d"
proof -
  obtain r d1 where op: "open_checked E (db_database_id db) (kind_of_index i) (data_path i v) v (db_disk db) = (r, d1)"
    by fastforce
  have same: "touches Q (db_disk db) d1" for Q using same_disk_ops(6)[OF op] by (rule same_disk_touches)
  obtain m where m: "summarise_target E height_of i v db = save_metadata_to_disk E i v
      (db\<lparr>db_disk := d1, db_catalogs := (db_catalogs db)(i := catalog_set_metadata v m (db_catalogs db i))\<rparr>)"
    by (simp add: summarise_target_def op Let_def)
  let ?db = "db\<lparr>db_disk := d1, db_catalogs := (db_catalogs db)(i := catalog_set_metadata v m (db_catalogs db i))\<rparr>"
  let ?sv = "save_metadata_to_disk E i v ?db"
  have "?sv = ?db\<lparr>db_disk := db_disk ?sv\<rparr>"
    by (simp add: save_metadata_to_disk_def split: option.splits)
  moreover have "touches {metadata_path i v, tmp_path (metadata_path i v)} (db_disk db) (db_disk ?sv)"
  proof (rule touches_trans[OF same])
    show "touches {metadata_path i v, tmp_path (metadata_path i v)} d1 (db_disk ?sv)"
      using save_metadata_spec(2)[of i v ?db E] by simp
  qed
  ultimately show ?thesis using that[where m = m and d = "db_disk ?sv"] m by simp
qed

definition merged_catalog :: "u64 \<Rightarrow> u64 list \<Rightarrow> version_catalog \<Rightarrow> version_catalog" where
  "merged_catalog target sources c = fold catalog_remove sources (catalog_add target c)"

lemma adjusts_catalogs:
  "adjusts a b \<Longrightarrow> adjusts (a\<lparr>db_catalogs := c\<rparr>) (b\<lparr>db_catalogs := c\<rparr>)"
  by (cases a, cases b) (simp add: adjusts_def)

lemma retirement_adjusts:
  assumes "adjusts db db5"
    and "adjusts (db5\<lparr>db_catalogs := (db_catalogs db5)(i := f (db_catalogs db5 i)),
           db_dirty_versions := filter P (db_dirty_versions db5)\<rparr>) db6"
  shows "adjusts (db\<lparr>db_catalogs := (db_catalogs db)(i := g (f (db_catalogs db i))),
           db_dirty_versions := filter P (db_dirty_versions db)\<rparr>)
         (db6\<lparr>db_catalogs := (db_catalogs db6)(i := g (db_catalogs db6 i)), db_disk := d\<rparr>)"
proof -
  let ?a = "db\<lparr>db_catalogs := (db_catalogs db)(i := f (db_catalogs db i)),
      db_dirty_versions := filter P (db_dirty_versions db)\<rparr>"
  have "adjusts ?a (db5\<lparr>db_catalogs := (db_catalogs db5)(i := f (db_catalogs db5 i)),
      db_dirty_versions := filter P (db_dirty_versions db5)\<rparr>)"
    using assms(1) adjusts_fields(2,7)[OF assms(1)] by (cases db, cases db5) (simp add: adjusts_def)
  then have "adjusts ?a db6" using assms(2) by (rule adjusts_trans)
  from adjusts_catalogs[OF this, of "(db_catalogs db6)(i := g (db_catalogs db6 i))"] adjusts_fields(2)[OF this]
  show ?thesis by (cases db) simp
qed

text \<open>Besides the disk, a merge into container \<open>i\<close> only changes its catalogue and the dirty marks.\<close>

definition retires :: "u64 \<Rightarrow> 'v database \<Rightarrow> 'v database \<Rightarrow> bool" where
  "retires i db db' \<longleftrightarrow> (\<exists>c dv. adjusts (db\<lparr>db_catalogs := (db_catalogs db)(i := c), db_dirty_versions := dv\<rparr>) db')"

lemma retires_adjusts: "adjusts db db' \<Longrightarrow> retires i db db'"
  unfolding retires_def
  by (rule exI[of _ "db_catalogs db i"], rule exI[of _ "db_dirty_versions db"]) simp

lemma retires_fields:
  assumes "retires i db db'"
  shows "j \<noteq> i \<Longrightarrow> db_catalogs db' j = db_catalogs db j" "db_mode db' = db_mode db"
    "db_database_id db' = db_database_id db" "db_capacity db' = db_capacity db"
    "db_mapped db' = db_mapped db" "db_current_versions db' = db_current_versions db"
  using assms adjusts_fields by (fastforce simp: retires_def)+

lemma retirement_retires:
  assumes "adjusts db db5"
    and "adjusts (db5\<lparr>db_catalogs := (db_catalogs db5)(i := c), db_dirty_versions := dv\<rparr>) db6"
  shows "retires i db db6"
proof -
  have "adjusts (db\<lparr>db_catalogs := (db_catalogs db)(i := c), db_dirty_versions := dv\<rparr>)
      (db5\<lparr>db_catalogs := (db_catalogs db5)(i := c), db_dirty_versions := dv\<rparr>)"
    using assms(1) adjusts_fields(2)[OF assms(1)] by (cases db, cases db5) (simp add: adjusts_def)
  then show ?thesis using adjusts_trans[OF _ assms(2)] unfolding retires_def by blast
qed

lemma merge_versions_spec:
  assumes ready: "mergeable E db i sources" and run: "merge_versions E height_of i sources db = (r, db')"
  shows "r = Inr () \<and> db' = db \<and> length sources < 2
    \<or> (\<exists>e. r = Inl e) \<and> same_disk (db_disk db) (db_disk db') \<and> adjusts db db'
        \<and> db_cleanup_pending db' = db_cleanup_pending db \<and> 2 \<le> length sources
    \<or> (\<exists>m. \<not> marker_empty m \<and> 2 \<le> length sources \<and> retires i db db'
        \<and> merge_within E db (plan_for db i sources m) (db_disk db')
        \<and> lookup_file (db_disk db) (data_path i (next_version (db_catalogs db i))) = None
        \<and> (r = Inr () \<longrightarrow> (\<exists>meta. adjusts (db\<lparr>db_catalogs := (db_catalogs db)(i :=
                catalog_set_metadata (next_version (db_catalogs db i)) meta
                  (merged_catalog (next_version (db_catalogs db i)) sources (db_catalogs db i))),
              db_dirty_versions := filter (\<lambda>(j, v). \<not> (j = i \<and> v \<in> set sources)) (db_dirty_versions db)\<rparr>) db')
            \<and> retired (local_build E) (db_database_id db) (plan_for db i sources m)
                (files (db_disk db)) (files (db_disk db'))
            \<and> lookup_file (db_disk db') (sidecar_path i (next_version (db_catalogs db i))) = None
            \<and> db_cleanup_pending db' = db_cleanup_pending db)
        \<and> (r \<noteq> Inr () \<longrightarrow> db_cleanup_pending db'
            \<or> adjusts db db' \<and> db_cleanup_pending db' = db_cleanup_pending db
              \<and> unpublished (plan_for db i sources m) (files (db_disk db)) (files (db_disk db'))
              \<and> lookup_file (db_disk db') (sidecar_path i (next_version (db_catalogs db i))) = None))"
proof (cases "length sources < 2")
  case True
  then show ?thesis using run by (simp add: merge_versions_def)
next
  case False
  let ?t = "next_version (db_catalogs db i)"
  obtain r1 d1 where s1: "path_exists E (data_path i ?t) (db_disk db) = (r1, d1)" by fastforce
  have same1: "same_disk (db_disk db) d1" by (rule path_exists_same[OF s1])
  show ?thesis
  proof (cases "r1 = Inr False")
    case other: False
    then show ?thesis
      using run False s1 same1
      by (cases r1) (auto simp: merge_versions_def Let_def split: bool.splits)
  next
    case True
    then have absent: "lookup_file (db_disk db) (data_path i ?t) = None"
      using s1 by (auto simp: path_exists_def split: if_splits)
    let ?p = "plan_for db i sources" and ?c = "sidecar_path i ?t"
    let ?un = "\<lambda>m d. unpublished (?p m) (files (db_disk db)) (files d)"
    have none: "lookup_file (db_disk db) ?c = None" using ready by (simp add: mergeable_def)
    have ready_parts: "creatable db i" "?t \<notin> set sources"
      using ready mergeable_fresh[OF ready] by (simp_all add: mergeable_def)
    have start: "merge_within E db (?p m) (db_disk db)" "?un m (db_disk db)" for m
      using merge_started[where db = db and p = "?p m"] absent none by simp_all
    have un1: "merge_within E db (?p m) d1" "?un m d1" "lookup_file d1 ?c = None" for m
      using within_same[OF start(1) same1] start(2) none same1 same_disk_lookup[OF same1]
      by (simp_all add: same_disk_def)
    obtain r2 d2 where s2: "remove_file E (metadata_path i ?t) d1 = (r2, d2)" by fastforce
    have t2: "touches {metadata_path i ?t} d1 d2" using remove_file_touches[OF s2] by simp
    have un2: "merge_within E db (?p m) d2" "?un m d2" "lookup_file d2 ?c = None" for m
      using within_scratch[OF un1(1) t2] scratch_stage(1)[OF t2] un1(2,3) scratch_lookup(2)[OF t2] by simp_all
    let ?full = "case space_available E (ticks d2) of
        None \<Rightarrow> False | Some n \<Rightarrow> n < ce_file_size (db_capacity db i)"
    obtain r3 d3 where s3: "draw_merge_id E (tick d2) = (r3, d3)" by fastforce
    have same3: "same_disk d2 d3" using s3 by (auto simp: draw_merge_id_def)
    have un3: "merge_within E db (?p m) d3" "?un m d3" "lookup_file d3 ?c = None" for m
      using within_same[OF un2(1) same3] un2(2,3) same3 same_disk_lookup[OF same3]
      by (simp_all add: same_disk_def)
    have early: ?thesis
      if "r = Inl e" "db' = db\<lparr>db_disk := d\<rparr>"
        "merge_within E db (?p \<lparr>mm_high = 1, mm_low = 2\<rparr>) d" "?un \<lparr>mm_high = 1, mm_low = 2\<rparr> d"
        "lookup_file d ?c = None" for e d
      using that False absent
      by (intro disjI2 exI[of _ "\<lparr>mm_high = 1, mm_low = 2\<rparr>"]) (simp add: marker_empty_def retires_adjusts)
    consider (stuck) e where "r2 = Inl e" | (full) "r2 = Inr ()" ?full
      | (unnamed) e where "r2 = Inr ()" "\<not> ?full" "r3 = Inl e"
      | (named) m where "r2 = Inr ()" "\<not> ?full" "r3 = Inr m"
      by (cases r2; cases r3) auto
    then show ?thesis
    proof cases
      case stuck
      then show ?thesis
        using run False s1 True s2 by (intro early[of e d2, OF _ _ un2]) (simp_all add: merge_versions_def Let_def)
    next
      case full
      have "merge_within E db (?p m) (tick d2)" for m by (rule within_same[OF un2(1)]) simp
      with full show ?thesis
        using run False s1 True s2 un2(2,3)
        by (intro early[of Insufficient_space "tick d2"]) (simp_all add: merge_versions_def Let_def)
    next
      case unnamed
      then show ?thesis
        using run False s1 True s2 s3 by (intro early[of e d3, OF _ _ un3]) (simp_all add: merge_versions_def Let_def)
    next
      case (named m)
      have m: "\<not> marker_empty m"
        using named(3) s3 by (auto simp: draw_merge_id_def generate_merge_id_def Let_def split: option.splits if_splits)
      let ?db3 = "db\<lparr>db_disk := d3\<rparr>" and ?P = "?p m"
      obtain r4 db4 where s4: "build_target E i ?t m sources ?db3 = (r4, db4)" by fastforce
      have b4: "adjusts db db4" "db_cleanup_pending db4 = db_cleanup_pending db"
        and t4: "touches {building_path i ?t} d3 (db_disk db4)"
        using build_target_frame[OF s4] adjusts_trans[of db ?db3 db4] by (simp_all add: builds_def)
      have un4: "merge_within E db ?P (db_disk db4)" "?un m (db_disk db4)" "lookup_file (db_disk db4) ?c = None"
        using within_scratch[OF un3(1) t4] scratch_stage(1)[OF t4] un3(2,3) scratch_lookup(2)[OF t4] by simp_all
      show ?thesis
      proof (cases r4)
        case (Inl e)
        then have "r = Inl e" "db' = db4"
          using run False s1 True s2 named s3 s4 by (simp_all add: merge_versions_def Let_def)
        then show ?thesis using m False absent b4 un4 retires_adjusts[OF b4(1)] by auto
      next
        case (Inr u)
        have "creatable ?db3 i" using ready_parts(1) by (simp add: creatable_def)
        then obtain g t where built: "lookup_file (db_disk db4) (building_path i ?t) = Some (Segment g)"
          "good_segment (local_build E) (db_database_id db) (kind_of_index i) ?t g t"
          "tbl_ok t" "tbl_bag t = source_bag d3 i sources" "seg_marker g = Some (1, m)"
          using build_target_ok[of E i ?t m sources ?db3 db4] s4 Inr by auto
        have "source_bag d3 i sources = source_bag (db_disk db) i sources"
          using ready_parts(2) un3(2)[of m] unfolding source_bag_def
          by (intro arg_cong[where f = sum_list] map_cong generation_bag_cong)
            (simp_all add: unpublished_def lookup_file_def)
        then have target: "merged_target (local_build E) (db_database_id db) ?P (files (db_disk db)) (Segment g)"
          using built by (auto simp: merged_target_def source_bag_files)
        obtain r5 db5 where s5: "publish_target E ?P db4 = (r5, db5)" by fastforce
        have none4: "lookup_file (db_disk db4) (sidecar_path (mp_container ?P) (mp_target ?P)) = None"
          and built4: "lookup_file (db_disk db4) (building_path (mp_container ?P) (mp_target ?P)) = Some (Segment g)"
          and fresh: "mp_target ?P \<notin> set (mp_sources ?P)"
          using un4(3) built(1) ready_parts(2) by simp_all
        note pub = publish_target_visits[OF s5 un4(1,2) none4 built4 target fresh]
        have b5: "adjusts db db5" using pub b4 adjusts_trans by blast
        show ?thesis
        proof (cases r5)
          case (Inl e)
          then have "r = Inl e" "db' = db5"
            using run False s1 True s2 named s3 s4 \<open>r4 = Inr u\<close> s5
            by (simp_all add: merge_versions_def Let_def plan_for_def)
          then show ?thesis using m False absent b4 b5 pub Inl retires_adjusts[OF b5] by auto
        next
          case (Inr w)
          obtain r6 db6 where s6: "retire_sources E ?P db5 = (r6, db6)" by fastforce
          note ret = retire_sources_visits[OF s6 _ _ fresh, of "local_build E" "db_database_id db"
              "files (db_disk db)" "db_disk db"]
          have ok5: "merge_within E db ?P (db_disk db5)"
            "retiring (local_build E) (db_database_id db) ?P (files (db_disk db)) (files (db_disk db5))"
            "db_cleanup_pending db5 = db_cleanup_pending db"
            using pub Inr b4 by simp_all
          note ret = ret[OF ok5(1,2)]
          show ?thesis
          proof (cases r6)
            case (Inl e)
            then have "r = Inl e" "db' = db6"
              using run False s1 True s2 named s3 s4 \<open>r4 = Inr u\<close> s5 \<open>r5 = Inr w\<close> s6
              by (simp_all add: merge_versions_def Let_def plan_for_def)
            then show ?thesis using m False absent ret Inl retirement_retires[OF b5] by auto
          next
            case (Inr z)
            obtain meta d where sum: "summarise_target E height_of i ?t db6 = db6\<lparr>db_catalogs :=
                (db_catalogs db6)(i := catalog_set_metadata ?t meta (db_catalogs db6 i)), db_disk := d\<rparr>"
              and t7: "touches {metadata_path i ?t, tmp_path (metadata_path i ?t)} (db_disk db6) d"
              by (rule summarise_target_frame)
            have fin: "r = Inr ()" "db' = summarise_target E height_of i ?t db6"
              using run False s1 True s2 named s3 s4 \<open>r4 = Inr u\<close> s5 \<open>r5 = Inr w\<close> s6 Inr
              by (simp_all add: merge_versions_def Let_def plan_for_def)
            have "merge_within E db ?P d" "retired (local_build E) (db_database_id db) ?P (files (db_disk db)) (files d)"
              "lookup_file d ?c = None"
              using ret Inr within_scratch[OF _ t7] scratch_stage(3)[OF t7] scratch_lookup(2)[OF t7] by simp_all
            moreover have "adjusts (db\<lparr>db_catalogs := (db_catalogs db)(i := catalog_set_metadata ?t meta
                  (merged_catalog ?t sources (db_catalogs db i))),
                db_dirty_versions := filter (\<lambda>(j, v). \<not> (j = i \<and> v \<in> set sources)) (db_dirty_versions db)\<rparr>) db'"
            proof -
              have "adjusts (db5\<lparr>db_catalogs := (db_catalogs db5)(i := merged_catalog ?t sources (db_catalogs db5 i)),
                  db_dirty_versions := filter (\<lambda>(j, v). \<not> (j = i \<and> v \<in> set sources)) (db_dirty_versions db5)\<rparr>) db6"
                using ret by (simp add: merged_catalog_def)
              from retirement_adjusts[where i = i and f = "merged_catalog ?t sources" and g = "catalog_set_metadata ?t meta" and d = d, OF b5 this]
              show ?thesis by (simp add: fin(2) sum)
            qed
            moreover have "db_cleanup_pending db' = db_cleanup_pending db"
              using ret Inr ok5(3) by (simp add: fin sum)
            moreover have "retires i db db'"
              using calculation(4) unfolding retires_def by blast
            ultimately show ?thesis using m False absent by (auto simp: fin sum)
          qed
        qed
      qed
    qed
  qed
qed

end
