(* ===== verification/Recovering.thy ===== *)
theory Recovering
  imports Compacting
begin

text \<open>
  Recovery of an interrupted merge: started in any state a merge or an earlier recovery can leave,
  \<open>recover_pending_merges\<close> stays within those states, and when it succeeds the merge is either
  undone or finished.
\<close>

section \<open>Reading back\<close>

lemma read_merge_sidecar_same: "read_merge_sidecar E path d = (r, d') \<Longrightarrow> same_disk d d'"
  by (auto simp: read_merge_sidecar_def Let_def split: option.splits if_splits)

lemma read_merge_sidecar_record:
  assumes "lookup_file d path = Some (record_of p)" "wf_plan p" "read_merge_sidecar E path d = (r, d')"
  shows "r = Inr p \<or> (\<exists>e. r = Inl e \<and> e \<noteq> Sidecar_absent)" "\<forall>n. \<not> fails E n \<Longrightarrow> r = Inr p"
  using assms(1,3) decode_encode_merge_plan[OF assms(2)] sidecar.read_written[OF assms(2), of E d path]
  by (auto simp: read_merge_sidecar_def Let_def record_of_def is_regular_def file_bytes_def split: if_splits)

lemma read_target_marker_same: "read_target_marker E i v d = (r, d') \<Longrightarrow> same_disk d d'"
  by (auto simp: read_target_marker_def split: prod.splits sum.splits dest: open_existing_segment_same)

lemma read_target_marker_merged:
  assumes "lookup_file d (data_path i v) = Some f" "merged_target b dbid p s0 f"
    and "read_target_marker E i v d = (r, d')"
  shows "r = Inr (mp_id p) \<or> r = Inl Recovery_failed" "\<forall>n. \<not> fails E n \<Longrightarrow> r = Inr (mp_id p)"
  using assms
  by (auto simp: read_target_marker_def merged_target_def open_existing_segment_def good_segment_def
      not_less find_single_named_def split: if_splits)

lemma scan_entries_calm:
  assumes "\<forall>n. \<not> fails E n"
  shows "\<exists>vs d'. scan_entries E pre suf es d = (Inr vs, d')"
proof (induction es arbitrary: d)
  case (Cons e es)
  obtain n f where e: "e = (n, f)" by (cases e)
  from Cons[of "tick (tick d)"] assms show ?case by (auto simp: e)
qed simp

lemma enumerate_versions_calm:
  assumes "\<forall>n. \<not> fails E n" "place d = Directory_present" "enumerate_versions E pre suf d = (r, d')"
  shows "\<exists>vs. r = Inr vs"
  using assms scan_entries_calm[OF assms(1), of pre suf "files d" "tick (tick d)"]
  by (auto simp: enumerate_versions_def)

lemma barrier_spec:
  assumes "barrier E d = (r, d')"
  shows "same_disk d d'" "\<forall>n. \<not> fails E n \<Longrightarrow> r = Inr ()"
  using assms
  by (auto simp: barrier_def refusal_def sync_directory_def split: prod.splits option.splits if_splits sum.splits)

lemma remove_file_calm: "\<forall>n. \<not> fails E n \<Longrightarrow> remove_file E n d = (r, d') \<Longrightarrow> r = Inr ()"
  by (simp add: remove_file_def)

lemma remove_each_scratch:
  assumes "remove_each E ns d = (r, d')" "set ns \<subseteq> Q"
  shows "touches Q d d'" "\<forall>n. \<not> fails E n \<Longrightarrow> r = Inr ()"
proof -
  show "touches Q d d'"
    using assms
  proof (induction ns arbitrary: d)
    case (Cons n ns)
    obtain r1 d1 where r1: "remove_file E n d = (r1, d1)" by fastforce
    have t: "touches Q d d1" using remove_file_touches[OF r1] Cons.prems(2) by simp
    show ?case
      using Cons.prems Cons.IH[of d1] r1 t touches_trans[OF t] by (cases r1) auto
  qed (simp add: touches_refl)
  show "r = Inr ()" if "\<forall>n. \<not> fails E n"
    using assms(1) that
  proof (induction ns arbitrary: d)
    case (Cons n ns)
    then show ?case by (auto simp: remove_file_def split: sum.splits)
  qed simp
qed

section \<open>Finishing or undoing one merge\<close>

definition settled :: "build \<Rightarrow> database_id \<Rightarrow> merge_plan \<Rightarrow> 'v directory \<Rightarrow> 'v directory \<Rightarrow> bool" where
  "settled b dbid p s0 s \<longleftrightarrow> merging b dbid p s0 s
     \<and> map_of s (sidecar_path (mp_container p) (mp_target p)) = None"

lemma settled_cases: "settled b dbid p s0 s \<Longrightarrow> unpublished p s0 s \<or> retired b dbid p s0 s"
  by (auto simp: settled_def merging_def retiring_def)

lemma retired_retiring:
  "retired b dbid p s0 s \<Longrightarrow> map_of s (sidecar_path (mp_container p) (mp_target p)) = Some (record_of p)
   \<Longrightarrow> retiring b dbid p s0 s"
  by (simp add: stage_defs)

lemma retire_each_spec:
  assumes "within b dbid p s0 d0 d" "retiring b dbid p s0 (files d)" "mp_target p \<notin> set (mp_sources p)"
    and "set ss \<subseteq> set (mp_sources p)" "retire_each E (mp_container p) (mp_target p) ss d = (r, d')"
  shows "within b dbid p s0 d0 d' \<and> retiring b dbid p s0 (files d')
    \<and> (r = Inr () \<longrightarrow> (\<forall>v \<in> set ss. lookup_file d' (data_path (mp_container p) v) = None))
    \<and> (\<forall>n. lookup_file d n = None \<longrightarrow> lookup_file d' n = None)
    \<and> ((\<forall>n. \<not> fails E n) \<longrightarrow> r = Inr ())"
  using assms
proof (induction ss arbitrary: d)
  case Nil
  then show ?case by simp
next
  case (Cons s ss)
  let ?i = "mp_container p"
  have s: "s \<in> set (mp_sources p)" "s \<noteq> mp_target p" using Cons.prems(3,4) by auto
  obtain r1 d1 where r1: "remove_file E (data_path ?i s) d = (r1, d1)" by fastforce
  have one: "within b dbid p s0 d0 d1" "retiring b dbid p s0 (files d1)"
    using retire_one[OF Cons.prems(1,2) _ Cons.prems(3) r1] s(1) by simp_all
  obtain r2 d2 where r2: "remove_file E (metadata_path ?i s) d1 = (r2, d2)" by fastforce
  have two: "within b dbid p s0 d0 d2" "retiring b dbid p s0 (files d2)"
    using retire_one[OF one _ Cons.prems(3) r2] by simp_all
  show ?case
  proof (cases "r1 = Inr () \<and> r2 = Inr ()")
    case True
    then have "retire_each E ?i (mp_target p) ss d2 = (r, d')" using Cons.prems(5) r1 r2 s(2) by simp
    from Cons.IH[OF two Cons.prems(3) _ this] show ?thesis
      using Cons.prems(4) True remove_file_lookup[OF r1] remove_file_lookup[OF r2] by auto
  next
    case False
    then have "(r, d') = (if r1 = Inr () then (r2, d2) else (r1, d1))"
      using Cons.prems(5) r1 r2 s(2) by (cases r1; cases r2) auto
    then show ?thesis
      using one two False remove_file_lookup[OF r1] remove_file_lookup[OF r2]
        remove_file_calm[OF _ r1] remove_file_calm[OF _ r2] by (auto split: if_splits)
  qed
qed

lemma drop_unpublished_record:
  assumes "within b dbid p s0 d0 d" "unpublished p s0 (files d)"
    and "remove_file E (sidecar_path (mp_container p) (mp_target p)) d = (r, d')"
  shows "within b dbid p s0 d0 d' \<and> unpublished p s0 (files d')"
proof -
  have m: "merging b dbid p s0 (files d)" using assms(1) by (simp add: within_def)
  have "merging b dbid p s0 (files (drop_file (sidecar_path (mp_container p) (mp_target p)) d))"
    using m assms(2) by (intro drop_record) (auto simp: stage_defs)
  moreover have "unpublished p s0 (files d')"
    using assms(2) remove_file_lookup[OF assms(3)] by (auto simp: unpublished_def lookup_file_def)
  ultimately show ?thesis using within_remove[OF assms(1,3)] by blast
qed

lemma recover_one_spec:
  assumes w: "within b dbid p s0 d0 d" and rec: "lookup_file d (sidecar_path (mp_container p) (mp_target p)) = Some (record_of p)"
    and fresh: "mp_target p \<notin> set (mp_sources p)"
    and run: "recover_one E p (sidecar_path (mp_container p) (mp_target p)) d = (r, d')"
  shows "within b dbid p s0 d0 d' \<and> (r = Inr () \<longrightarrow> settled b dbid p s0 (files d'))
    \<and> ((\<forall>n. \<not> fails E n) \<longrightarrow> r = Inr ())"
proof -
  let ?i = "mp_container p" and ?t = "mp_target p"
  let ?b = "building_path ?i ?t" and ?c = "sidecar_path ?i ?t"
  have m: "merging b dbid p s0 (files d)" using w by (simp add: within_def)
  obtain r1 d1 where s1: "path_exists E (data_path ?i ?t) d = (r1, d1)" by fastforce
  have same1: "same_disk d d1" by (rule path_exists_same[OF s1])
  have w1: "within b dbid p s0 d0 d1" by (rule within_same[OF w same1])
  have ex: "r1 = Inr x \<Longrightarrow> x = (lookup_file d (data_path ?i ?t) \<noteq> None)" for x
    using s1 by (auto simp: path_exists_def split: if_splits)
  have calm1: "\<exists>x. r1 = Inr x" if "\<forall>n. \<not> fails E n" using s1 that by (auto simp: path_exists_def)
  have fin: "settled b dbid p s0 (files d'')" if "within b dbid p s0 d0 d''" "lookup_file d'' ?c = None" for d''
    using that by (simp add: settled_def within_def lookup_file_def)
  consider (failed) e where "r1 = Inl e" | (absent) "r1 = Inr False" | (there) "r1 = Inr True"
    by (cases r1) auto
  then show ?thesis
  proof cases
    case failed
    then show ?thesis using run s1 w1 calm1 by (auto simp: recover_one_def Let_def)
  next
    case absent
    then have un: "unpublished p s0 (files d1)"
      using ex[OF absent] m same1 by (auto simp: merging_def retiring_def retired_def same_disk_def lookup_file_def)
    obtain r2 d2 where s2: "remove_file E ?b d1 = (r2, d2)" by fastforce
    have t2: "touches {?b} d1 d2" using remove_file_touches[OF s2] by simp
    have w2: "within b dbid p s0 d0 d2" "unpublished p s0 (files d2)"
      using within_scratch[OF w1 t2] scratch_stage(1)[OF t2] un by simp_all
    obtain r3 d3 where s3: "remove_file E ?c d2 = (r3, d3)" by fastforce
    have w3: "within b dbid p s0 d0 d3" using drop_unpublished_record[OF w2 s3] by simp
    obtain r4 d4 where s4: "barrier E d3 = (r4, d4)" by fastforce
    have w4: "within b dbid p s0 d0 d4" by (rule within_same[OF w3 barrier_spec(1)[OF s4]])
    have gone: "lookup_file d4 ?c = None" if "r3 = Inr ()"
      using remove_file_ok[of E ?c d2] s3 that same_disk_lookup[OF barrier_spec(1)[OF s4]] by simp
    have "(r, d') = (case r2 of Inl e \<Rightarrow> (Inl e, d2) | Inr _ \<Rightarrow> (case r3 of Inl e \<Rightarrow> (Inl e, d3) | Inr _ \<Rightarrow> (r4, d4)))"
      using run s1 absent s2 s3 s4 by (auto simp: recover_one_def Let_def split: sum.splits)
    then show ?thesis
      using w2 w3 w4 fin[OF w4] gone remove_file_calm[OF _ s2] remove_file_calm[OF _ s3] barrier_spec(2)[OF s4]
      by (auto split: sum.splits)
  next
    case there
    then have ret: "retiring b dbid p s0 (files d1)"
      using ex[OF there] m rec same1
      by (auto simp: merging_def unpublished_def same_disk_def lookup_file_def intro: retired_retiring)
    then obtain f where f: "lookup_file d1 (data_path ?i ?t) = Some f" "merged_target b dbid p s0 f"
      by (auto simp: retiring_def lookup_file_def)
    obtain r2 d2 where s2: "read_target_marker E ?i ?t d1 = (r2, d2)" by fastforce
    note mk = read_target_marker_merged[OF f s2] and same2 = read_target_marker_same[OF s2]
    have w2: "within b dbid p s0 d0 d2" "retiring b dbid p s0 (files d2)"
      using within_same[OF w1 same2] ret same2 by (simp_all add: same_disk_def)
    obtain r3 d3 where s3: "retire_each E ?i ?t (mp_sources p) d2 = (r3, d3)" by fastforce
    note w3 = retire_each_spec[OF w2 fresh subset_refl s3]
    obtain r4 d4 where s4: "barrier E d3 = (r4, d4)" by fastforce
    have same4: "same_disk d3 d4" by (rule barrier_spec(1)[OF s4])
    have w4: "within b dbid p s0 d0 d4" by (rule within_same[OF _ same4]) (use w3 in blast)
    have ret4: "retired b dbid p s0 (files d4)" if "r3 = Inr ()"
      using w3 that same4 by (auto simp: stage_defs same_disk_def lookup_file_def)
    obtain r5 d5 where s5: "remove_file E ?c d4 = (r5, d5)" by fastforce
    have w5: "within b dbid p s0 d0 d5" if "r3 = Inr ()"
      using drop_retired_record[OF w4 ret4[OF that] s5] by simp
    obtain r6 d6 where s6: "remove_file E ?b d5 = (r6, d6)" by fastforce
    have t6: "touches {?b} d5 d6" using remove_file_touches[OF s6] by simp
    have w6: "within b dbid p s0 d0 d6" if "r3 = Inr ()" using within_scratch[OF w5[OF that] t6] by simp
    obtain r7 d7 where s7: "barrier E d6 = (r7, d7)" by fastforce
    have w7: "within b dbid p s0 d0 d7" if "r3 = Inr ()"
      by (rule within_same[OF w6[OF that] barrier_spec(1)[OF s7]])
    have gone: "lookup_file d7 ?c = None" if "r5 = Inr ()"
      using remove_file_ok[of E ?c d4] s5 that same_disk_lookup[OF barrier_spec(1)[OF s7]] scratch_lookup(2)[OF t6] by simp
    have "(r, d') = (case r2 of Inl e \<Rightarrow> (Inl e, d2) | Inr _ \<Rightarrow> (case r3 of Inl e \<Rightarrow> (Inl e, d3) | Inr _ \<Rightarrow>
        (case r4 of Inl e \<Rightarrow> (Inl e, d4) | Inr _ \<Rightarrow> (case r5 of Inl e \<Rightarrow> (Inl e, d5) | Inr _ \<Rightarrow>
          (case r6 of Inl e \<Rightarrow> (Inl e, d6) | Inr _ \<Rightarrow> (r7, d7))))))"
      using run s1 there s2 s3 s4 s5 s6 s7 mk(1) by (auto simp: recover_one_def Let_def split: sum.splits)
    then show ?thesis
      using w2 w3 w4 w5 w6 w7 fin gone mk(2) barrier_spec(2)[OF s4] barrier_spec(2)[OF s7]
        remove_file_calm[OF _ s5] remove_file_calm[OF _ s6]
      by (auto split: sum.splits)
  qed
qed

section \<open>Recovering a container\<close>

text \<open>
  The directory the merge started from: readable, names unique, no merge record anywhere. Recovery
  works on a later directory \<open>d\<close>, possibly after a crash.
\<close>

definition clean_start :: "merge_plan \<Rightarrow> 'v directory \<Rightarrow> 'v disk \<Rightarrow> bool" where
  "clean_start p s0 d \<longleftrightarrow> wf_plan p \<and> distinct (map fst s0) \<and> place d = Directory_present
     \<and> (\<forall>j v. map_of s0 (sidecar_path j v) = None)"

lemma clean_start_place: "clean_start p s0 d \<Longrightarrow> place d' = place d \<Longrightarrow> clean_start p s0 d'"
  by (simp add: clean_start_def)

lemma within_place: "within b dbid p s0 d0 d \<Longrightarrow> place d = place d0"
  by (simp add: within_def visits_def)

lemma merging_records:
  assumes "clean_start p s0 d0" "merging b dbid p s0 s"
  shows "distinct (map fst s)"
    and "map_of s (sidecar_path j v) = Some f \<Longrightarrow> j = mp_container p \<and> v = mp_target p"
    and "map_of s (sidecar_path (mp_container p) (mp_target p)) \<in> {None, Some (record_of p)}"
proof -
  have a: "agrees (scratch_names \<union> key_names p) s0 s" using assms(2) by (simp add: merging_def)
  show "distinct (map fst s)" using a assms(1) by (simp add: agrees_def clean_start_def)
  show "j = mp_container p \<and> v = mp_target p" if "map_of s (sidecar_path j v) = Some f"
  proof (rule ccontr)
    assume "\<not> (j = mp_container p \<and> v = mp_target p)"
    then have "map_of s (sidecar_path j v) = map_of s0 (sidecar_path j v)"
      using a by (intro agrees_map_of) auto
    with that assms(1) show False by (simp add: clean_start_def)
  qed
  show "map_of s (sidecar_path (mp_container p) (mp_target p)) \<in> {None, Some (record_of p)}"
    using assms(2) by (simp add: merging_def stage_defs) blast
qed

lemma remove_strays_spec:
  assumes w: "within b dbid p s0 d0 d" and start: "clean_start p s0 d0"
    and suffix: "suffix = ''.dat.building'' \<or> suffix = ''.merge.tmp''"
    and run: "remove_strays E j suffix d = (r, d')"
  shows "touches scratch_names d d'" "(\<forall>n. \<not> fails E n) \<Longrightarrow> r = Inr ()"
proof -
  obtain r1 d1 where s1: "enumerate_versions E (name_prefix j) suffix d = (r1, d1)" by fastforce
  have same: "touches Q d d1" for Q using enumerate_versions_same[OF s1] by (rule same_disk_touches)
  have names: "set (map (\<lambda>v. name_prefix j @ fmt05 v @ suffix) vs) \<subseteq> scratch_names" for vs
    using suffix building_path_eq sidecar_path_eq
    by (force simp: scratch_names_def tmp_path_def)
  have pl: "place d = Directory_present" using within_place[OF w] start by (simp add: clean_start_def)
  have "touches scratch_names d1 d'" if "r1 = Inr vs" for vs
    using run s1 that remove_each_scratch(1)[OF _ names] by (simp add: remove_strays_def)
  then show "touches scratch_names d d'"
    using run s1 same touches_trans[OF same[of scratch_names]] by (cases r1) (auto simp: remove_strays_def)
  show "r = Inr ()" if "\<forall>n. \<not> fails E n"
    using run s1 enumerate_versions_calm[OF that pl s1] remove_each_scratch(2)[OF _ names that]
    by (auto simp: remove_strays_def)
qed

lemma distinct_one: "x \<in> set xs \<Longrightarrow> set xs \<subseteq> {x} \<Longrightarrow> distinct xs \<Longrightarrow> xs = [x]"
  by (cases xs; cases "tl xs") auto

lemma enumerated_records:
  assumes w: "within b dbid p s0 d0 d" and start: "clean_start p s0 d0"
    and run: "enumerate_versions E (name_prefix j) ''.merge'' d = (Inr vs, d')"
  shows "vs = (if j = mp_container p \<and> lookup_file d (sidecar_path j (mp_target p)) \<noteq> None then [mp_target p] else [])"
proof -
  have m: "merging b dbid p s0 (files d)" using w by (simp add: within_def)
  note rec = merging_records[OF start m]
  have pl: "place d = Directory_present" using within_place[OF w] start by (simp add: clean_start_def)
  have "distinct vs" and set: "set vs = {v. \<exists>f. lookup_file d (sidecar_path j v) = Some f \<and> is_regular f}"
    using enumerated[OF run pl rec(1)] by (simp_all add: sidecar_path_eq)
  have only: "j = mp_container p \<and> v = mp_target p" if "lookup_file d (sidecar_path j v) = Some f" for v f
    using rec(2) that by (simp add: lookup_file_def)
  show ?thesis
  proof (cases "j = mp_container p \<and> lookup_file d (sidecar_path j (mp_target p)) \<noteq> None")
    case True
    then have "lookup_file d (sidecar_path j (mp_target p)) = Some (record_of p)"
      using rec(3) by (auto simp: lookup_file_def)
    then have "mp_target p \<in> set vs" unfolding set by (simp add: is_regular_def record_of_def)
    moreover have "set vs \<subseteq> {mp_target p}" using only unfolding set by blast
    ultimately have "vs = [mp_target p]" using \<open>distinct vs\<close> by (rule distinct_one)
    with True show ?thesis by auto
  next
    case False
    then have "set vs = {}" using only unfolding set by blast
    then show ?thesis using False by simp
  qed
qed

lemma recover_record_spec:
  assumes w: "within b dbid p s0 d0 d" and start: "clean_start p s0 d0"
    and rec: "lookup_file d (sidecar_path (mp_container p) (mp_target p)) \<noteq> None"
    and run: "recover_record E (mp_container p) (mp_target p) d = (r, d')"
  shows "within b dbid p s0 d0 d' \<and> (r = Inr () \<longrightarrow> settled b dbid p s0 (files d'))
    \<and> ((\<forall>n. \<not> fails E n) \<longrightarrow> r = Inr ())"
proof -
  let ?c = "sidecar_path (mp_container p) (mp_target p)"
  have m: "merging b dbid p s0 (files d)" using w by (simp add: within_def)
  then have look: "lookup_file d ?c = Some (record_of p)"
    using merging_records(3)[OF start m] rec by (auto simp: lookup_file_def)
  have wf: "wf_plan p" and fresh: "mp_target p \<notin> set (mp_sources p)"
    using start by (simp_all add: clean_start_def wf_plan_def)
  obtain r1 d1 where s1: "read_merge_sidecar E ?c d = (r1, d1)" by fastforce
  note rd = read_merge_sidecar_record[OF look wf s1] and same1 = read_merge_sidecar_same[OF s1]
  have w1: "within b dbid p s0 d0 d1" by (rule within_same[OF w same1])
  have look1: "lookup_file d1 ?c = Some (record_of p)" using look same1 by (simp add: same_disk_lookup)
  from rd(1) show ?thesis
  proof
    assume "r1 = Inr p"
    then have "recover_one E p ?c d1 = (r, d')" using run s1 by (simp add: recover_record_def Let_def)
    then show ?thesis by (rule recover_one_spec[OF w1 look1 fresh])
  next
    assume "\<exists>e. r1 = Inl e \<and> e \<noteq> Sidecar_absent"
    then show ?thesis using run s1 w1 rd(2) by (auto simp: recover_record_def Let_def)
  qed
qed

text \<open>
  One container, whichever it is: the states are kept, a container that is not the merge's only
  loses stray files, and the merge's own container ends settled.
\<close>

lemma recover_container_spec:
  assumes w: "within b dbid p s0 d0 d" and start: "clean_start p s0 d0"
    and run: "recover_container E j d = (r, d')"
  shows "within b dbid p s0 d0 d'
    \<and> (r = Inr () \<and> j = mp_container p \<longrightarrow> settled b dbid p s0 (files d'))
    \<and> (r = Inr () \<and> settled b dbid p s0 (files d) \<longrightarrow> settled b dbid p s0 (files d'))
    \<and> ((\<forall>n. \<not> fails E n) \<longrightarrow> r = Inr ())"
proof -
  let ?c = "sidecar_path (mp_container p) (mp_target p)"
  let ?mine = "j = mp_container p \<and> lookup_file d ?c \<noteq> None"
  have pl: "place d = Directory_present" using within_place[OF w] start by (simp add: clean_start_def)
  obtain r1 d1 where s1: "enumerate_versions E (name_prefix j) ''.merge'' d = (r1, d1)" by fastforce
  have same1: "same_disk d d1" by (rule enumerate_versions_same[OF s1])
  have w1: "within b dbid p s0 d0 d1" by (rule within_same[OF w same1])
  have listed: "vs = (if ?mine then [mp_target p] else [])" if "r1 = Inr vs" for vs
    using enumerated_records[OF w start s1[unfolded that]] by auto
  define L where "L = (if ?mine then [mp_target p] else [])"
  have short: "length L \<le> 1" by (simp add: L_def)
  have listed: "vs = L" if "r1 = Inr vs" for vs using listed[OF that] by (simp only: L_def)
  obtain r2 d2 where s2: "(case L of [] \<Rightarrow> (Inr (), d1)
      | target # _ \<Rightarrow> recover_record E j target d1) = (r2, d2)" by fastforce
  have rec1: "lookup_file d1 ?c = lookup_file d ?c" by (rule same_disk_lookup[OF same1])
  have two: "within b dbid p s0 d0 d2 \<and> (r2 = Inr () \<and> (j = mp_container p \<or> settled b dbid p s0 (files d))
      \<longrightarrow> settled b dbid p s0 (files d2)) \<and> ((\<forall>n. \<not> fails E n) \<longrightarrow> r2 = Inr ())"
  proof (cases ?mine)
    case True
    then have "recover_record E (mp_container p) (mp_target p) d1 = (r2, d2)" using s2 by (simp add: L_def)
    from recover_record_spec[OF w1 start _ this] True rec1 show ?thesis
      by auto
  next
    case False
    then have "r2 = Inr ()" "d2 = d1" using s2 by (auto simp: L_def)
    moreover have "settled b dbid p s0 (files d1)" if "j = mp_container p \<or> settled b dbid p s0 (files d)"
      using that False w1 rec1 by (auto simp: settled_def within_def lookup_file_def)
    ultimately show ?thesis using w1 by simp
  qed
  obtain r3 d3 where s3: "remove_strays E j ''.dat.building'' d2 = (r3, d3)" by fastforce
  have w2: "within b dbid p s0 d0 d2" using two by blast
  note st3 = remove_strays_spec[OF w2 start _ s3, simplified]
  have w3: "within b dbid p s0 d0 d3" by (rule within_scratch[OF w2 st3(1) subset_refl])
  obtain r4 d4 where s4: "remove_strays E j ''.merge.tmp'' d3 = (r4, d4)" by fastforce
  note st4 = remove_strays_spec[OF w3 start _ s4, simplified]
  have w4: "within b dbid p s0 d0 d4" by (rule within_scratch[OF w3 st4(1) subset_refl])
  have keep: "settled b dbid p s0 (files d4)" if "settled b dbid p s0 (files d2)"
    using that w4 scratch_lookup(2)[OF st3(1) subset_refl] scratch_lookup(2)[OF st4(1) subset_refl]
    by (simp add: settled_def within_def lookup_file_def)
  have "(r, d') = (case r1 of Inl e \<Rightarrow> (Inl e, d1) | Inr _ \<Rightarrow> (case r2 of Inl e \<Rightarrow> (Inl e, d2) | Inr _ \<Rightarrow>
      (case r3 of Inl e \<Rightarrow> (Inl e, d3) | Inr _ \<Rightarrow> (r4, d4))))"
    using run s1 s2 s3 s4 listed short by (cases r1) (auto simp: recover_container_def split: sum.splits)
  then show ?thesis
    using w1 two w3 w4 keep st3(2) st4(2) enumerate_versions_calm[OF _ pl s1]
    by (auto split: sum.splits)
qed

lemma recover_containers_spec:
  assumes "within b dbid p s0 d0 d" "clean_start p s0 d0" "recover_containers E is d = (r, d')"
  shows "within b dbid p s0 d0 d'
    \<and> (r = Inr () \<and> (mp_container p \<in> set is \<or> settled b dbid p s0 (files d)) \<longrightarrow> settled b dbid p s0 (files d'))
    \<and> ((\<forall>n. \<not> fails E n) \<longrightarrow> r = Inr ())"
  using assms
proof (induction "is" arbitrary: d)
  case Nil
  then show ?case by simp
next
  case (Cons j js)
  obtain r1 d1 where s1: "recover_container E j d = (r1, d1)" by fastforce
  note one = recover_container_spec[OF Cons.prems(1,2) s1]
  show ?case
  proof (cases r1)
    case (Inl e)
    then show ?thesis using Cons.prems(3) s1 one by auto
  next
    case (Inr u)
    then have "recover_containers E js d1 = (r, d')" using Cons.prems(3) s1 by simp
    from Cons.IH[OF _ Cons.prems(2) this] one Inr show ?thesis by auto
  qed
qed

section \<open>Records no merge should have written\<close>

text \<open>
  C34: a record that names more than 64 sources is refused by every recovery, in any environment,
  and stays where it is. \<open>merge_versions\<close> itself bounds the sources only by what fits into one
  file, so a merge of more than 64 versions that is cut off before its record is gone leaves a
  store that no longer opens.
\<close>

theorem oversized_record_refused:
  assumes "lookup_file d (sidecar_path i target) = Some (record_of plan)" and "64 < length (mp_sources plan)"
    and "recover_record E i target d = (r, d')"
  shows "r = Inl Recovery_failed \<and> lookup_file d' (sidecar_path i target) = Some (record_of plan)"
  using assms oversized_plan_undecodable[OF assms(2)]
  by (auto simp: recover_record_def Let_def read_merge_sidecar_def record_of_def is_regular_def
      file_bytes_def split: if_splits)

theorem oversized_record_refused_witness:
  "\<exists>r d'. recover_record calm_env 0 3 (disk_of [(sidecar_path 0 3,
       record_of (example_plan\<lparr>mp_sources := replicate 65 0\<rparr>))] :: utxo_value disk) = (r, d') \<and> r = Inl Recovery_failed"
proof -
  let ?p = "example_plan\<lparr>mp_sources := replicate 65 0\<rparr>"
  obtain r d' where run: "recover_record calm_env 0 3 (disk_of [(sidecar_path 0 3, record_of ?p)] :: utxo_value disk) = (r, d')"
    by fastforce
  show ?thesis using oversized_record_refused[OF _ _ run, of ?p] run by simp
qed

end
