(* ===== verification/Crash_Safety.thy ===== *)
theory Crash_Safety
  imports Recovering Walk_Facts
begin

text \<open>
  What compaction and recovery promise about the entries: a merge that returns, one that fails,
  and one that is cut off at any moment and recovered, with the recovery itself cut off too.
\<close>

section \<open>What a directory holds\<close>

definition stored_at :: "'v directory \<Rightarrow> u64 \<Rightarrow> (raw_outpoint \<times> 'v) multiset" where
  "stored_at s j = (\<Sum>v \<in> UNIV. generation_bag (disk_of s) j v)"

definition no_records :: "'v directory \<Rightarrow> bool" where
  "no_records s \<longleftrightarrow> (\<forall>j v. map_of s (sidecar_path j v) = None)"

lemma generation_bag_map_of:
  "map_of s' (data_path j v) = map_of s (data_path j v)
   \<Longrightarrow> generation_bag (disk_of s') j v = generation_bag (disk_of s) j v"
  by (rule generation_bag_cong) simp

lemma generation_bag_none: "map_of s (data_path j v) = None \<Longrightarrow> generation_bag (disk_of s) j v = {#}"
  by (simp add: generation_bag_def generation_def)

lemma merged_target_bag:
  assumes "map_of s (data_path (mp_container p) (mp_target p)) = Some f" "merged_target b dbid p s0 f"
  shows "generation_bag (disk_of s) (mp_container p) (mp_target p)
    = source_bag (disk_of s0) (mp_container p) (mp_sources p)"
  using assms by (auto simp: merged_target_def generation_bag_def generation_def good_segment_def)

lemma source_bag_sum: "distinct ss \<Longrightarrow> source_bag d i ss = (\<Sum>v \<in> set ss. generation_bag d i v)"
  by (simp add: source_bag_def sum.distinct_set_conv_list)

text \<open>Over any set of versions that contains the sources, the merge only regroups the entries.\<close>

lemma retired_regroups:
  assumes ret: "retired b dbid p s0 s" and fresh: "mp_target p \<notin> set (mp_sources p)"
    and dst: "distinct (mp_sources p)" and V: "set (mp_sources p) \<subseteq> V" "finite V" "mp_target p \<notin> V"
    and rest: "\<And>v. v \<in> V - set (mp_sources p) \<Longrightarrow>
      generation_bag (disk_of s) (mp_container p) v = generation_bag (disk_of s0) (mp_container p) v"
  shows "(\<Sum>v \<in> insert (mp_target p) (V - set (mp_sources p)). generation_bag (disk_of s) (mp_container p) v)
    = (\<Sum>v \<in> V. generation_bag (disk_of s0) (mp_container p) v)"
proof -
  let ?i = "mp_container p" and ?S = "set (mp_sources p)"
  have t: "generation_bag (disk_of s) ?i (mp_target p) = (\<Sum>v \<in> ?S. generation_bag (disk_of s0) ?i v)"
    using ret merged_target_bag[of s p _ b dbid s0] by (auto simp: retired_def source_bag_sum[OF dst])
  have "(\<Sum>v \<in> insert (mp_target p) (V - ?S). generation_bag (disk_of s) ?i v)
      = (\<Sum>v \<in> ?S. generation_bag (disk_of s0) ?i v) + (\<Sum>v \<in> V - ?S. generation_bag (disk_of s) ?i v)"
    using V by (simp add: t)
  also have "(\<Sum>v \<in> V - ?S. generation_bag (disk_of s) ?i v) = (\<Sum>v \<in> V - ?S. generation_bag (disk_of s0) ?i v)"
    by (rule sum.cong) (use rest in auto)
  finally show ?thesis using V by (simp add: sum.subset_diff[of ?S V] add.commute)
qed

lemma settled_stored:
  assumes s: "settled b dbid p s0 s" and none: "map_of s0 (data_path (mp_container p) (mp_target p)) = None"
    and fresh: "mp_target p \<notin> set (mp_sources p)" and dst: "distinct (mp_sources p)"
  shows "stored_at s j = stored_at s0 j"
proof -
  let ?i = "mp_container p" and ?t = "mp_target p" and ?S = "set (mp_sources p)"
  have a: "agrees (scratch_names \<union> key_names p) s0 s" using s by (simp add: settled_def merging_def)
  have same: "generation_bag (disk_of s) k v = generation_bag (disk_of s0) k v"
    if "\<not> (k = ?i \<and> (v = ?t \<or> v \<in> ?S))" for k v
    using that by (intro generation_bag_map_of agrees_map_of[OF a]) simp
  show ?thesis
  proof (cases "j = ?i \<and> retired b dbid p s0 s")
    case False
    have "generation_bag (disk_of s) j v = generation_bag (disk_of s0) j v" for v
    proof (cases "j = ?i")
      case True
      then have "unpublished p s0 s" using False settled_cases[OF s] by simp
      then show ?thesis
        using same[of j v] none by (cases "v = ?t \<or> v \<in> ?S")
          (auto simp: True unpublished_def intro!: generation_bag_map_of)
    qed (simp add: same)
    then show ?thesis by (simp add: stored_at_def)
  next
    case True
    let ?V = "UNIV - {?t}"
    have split: "(\<Sum>v \<in> UNIV. f v) = f ?t + (\<Sum>v \<in> ?S. f v) + (\<Sum>v \<in> ?V - ?S. f v)"
      for f :: "u64 \<Rightarrow> (raw_outpoint \<times> 'a) multiset"
    proof -
      have "(\<Sum>v \<in> UNIV. f v) = f ?t + (\<Sum>v \<in> ?V. f v)" by (simp add: sum.remove)
      also have "(\<Sum>v \<in> ?V. f v) = (\<Sum>v \<in> ?V - ?S. f v) + (\<Sum>v \<in> ?S. f v)"
        using fresh by (intro sum.subset_diff) auto
      finally show ?thesis by (simp add: ac_simps)
    qed
    have regroup: "(\<Sum>v \<in> insert ?t (?V - ?S). generation_bag (disk_of s) ?i v)
        = (\<Sum>v \<in> ?V. generation_bag (disk_of s0) ?i v)"
      using True fresh by (intro retired_regroups[of b dbid] dst) (auto intro: same)
    have gone: "(\<Sum>v \<in> ?S. generation_bag (disk_of s) ?i v) = {#}"
      using True by (simp add: retired_def generation_bag_none)
    have "stored_at s ?i = generation_bag (disk_of s) ?i ?t + (\<Sum>v \<in> ?V - ?S. generation_bag (disk_of s) ?i v)"
      unfolding stored_at_def split gone by simp
    also have "\<dots> = (\<Sum>v \<in> insert ?t (?V - ?S). generation_bag (disk_of s) ?i v)" by simp
    also have "\<dots> = stored_at s0 ?i"
      unfolding regroup stored_at_def by (simp add: sum.remove[of UNIV ?t] generation_bag_none[OF none])
    finally show ?thesis using True by simp
  qed
qed

section \<open>Recovery after a crash\<close>

lemma settled_no_records:
  assumes "settled b dbid p s0 s" "no_records s0"
  shows "no_records s"
proof -
  have a: "agrees (scratch_names \<union> key_names p) s0 s" using assms(1) by (simp add: settled_def merging_def)
  have "map_of s (sidecar_path j v) = None" for j v
  proof (cases "j = mp_container p \<and> v = mp_target p")
    case True
    then show ?thesis using assms(1) by (simp add: settled_def)
  next
    case False
    then have "map_of s (sidecar_path j v) = map_of s0 (sidecar_path j v)"
      by (intro agrees_map_of[OF a]) simp
    then show ?thesis using assms(2) by (simp add: no_records_def)
  qed
  then show ?thesis by (simp add: no_records_def)
qed

lemma recovery_from_state:
  assumes wf: "wf_plan p" and s0: "distinct (map fst s0)" "no_records s0"
    and none: "map_of s0 (data_path (mp_container p) (mp_target p)) = None"
    and s: "merging b dbid p s0 s" and mode: "mp_container p \<in> set (indices_of mode)"
    and run: "recover_pending_merges E mode (disk_of s) = (r, d')"
  shows "(\<forall>n. \<not> fails E n) \<longrightarrow> r = Inr ()"
    and "r = Inr () \<longrightarrow> no_records (files d') \<and> (\<forall>j. stored_at (files d') j = stored_at s0 j)"
    and "\<forall>s' \<in> set (trail d'). merging b dbid p s0 s'"
proof -
  have w: "within b dbid p s0 (disk_of s) (disk_of s)" using s by (simp add: within_def)
  have start: "clean_start p s0 (disk_of s)" using wf s0 by (simp add: clean_start_def no_records_def)
  note rec = recover_containers_spec[OF w start run[unfolded recover_pending_merges_def]]
  show "(\<forall>n. \<not> fails E n) \<longrightarrow> r = Inr ()" using rec by blast
  show "\<forall>s' \<in> set (trail d'). merging b dbid p s0 s'"
    using rec by (auto simp: within_def visits_def)
  have "settled b dbid p s0 (files d')" if "r = Inr ()" using rec mode that by blast
  then show "r = Inr () \<longrightarrow> no_records (files d') \<and> (\<forall>j. stored_at (files d') j = stored_at s0 j)"
    using settled_no_records[OF _ s0(2)] settled_stored[OF _ none] wf by (auto simp: wf_plan_def)
qed

definition crash_ready :: "'v env \<Rightarrow> 'v database \<Rightarrow> u64 \<Rightarrow> u64 list \<Rightarrow> bool" where
  "crash_ready E db i sources \<longleftrightarrow> mergeable E db i sources \<and> length sources \<le> 64
     \<and> i \<in> set (indices_of (db_mode db)) \<and> distinct (map fst (files (db_disk db)))
     \<and> no_records (files (db_disk db))"

lemma crash_states:
  assumes ready: "crash_ready E db i sources" and run: "merge_versions E height_of i sources db = (r, db')"
    and crash: "trail (db_disk db') = new @ trail (db_disk db)" "s \<in> set new"
  obtains p where "wf_plan p" "mp_container p = i"
    "map_of (files (db_disk db)) (data_path (mp_container p) (mp_target p)) = None"
    "merging (local_build E) (db_database_id db) p (files (db_disk db)) s"
proof -
  have ready': "mergeable E db i sources" using ready by (simp add: crash_ready_def)
  from merge_versions_spec[OF ready' run] crash obtain m where m: "\<not> marker_empty m" "2 \<le> length sources"
    "merge_within E db (plan_for db i sources m) (db_disk db')"
    "lookup_file (db_disk db) (data_path i (next_version (db_catalogs db i))) = None"
    by (auto simp: same_disk_def)
  let ?p = "plan_for db i sources m"
  have "wf_plan ?p"
    using ready m(1,2) mergeable_fresh[OF ready'] by (auto simp: wf_plan_def crash_ready_def mergeable_def)
  moreover have "merging (local_build E) (db_database_id db) ?p (files (db_disk db)) s"
    using m(3) crash by (auto simp: within_def visits_def)
  ultimately show ?thesis using that[of ?p] m(4) by (simp add: lookup_file_def)
qed

text \<open>
  C1: a merge may be cut off at any moment. Whatever directory it leaves behind, recovery on the
  next open finds exactly the entries there were before the merge, in every container, and leaves no
  merge record; it fails only if a call of the system fails. The recovery may be cut off in its
  turn, and a later recovery still finds the same entries.
\<close>

theorem merge_survives_crashes:
  assumes ready: "crash_ready E db i sources" and run: "merge_versions E height_of i sources db = (r, db')"
    and crash: "trail (db_disk db') = new @ trail (db_disk db)" "s \<in> set new"
    and recover: "recover_pending_merges E1 (db_mode db) (disk_of s) = (r1, d1)"
  shows "((\<forall>n. \<not> fails E1 n) \<longrightarrow> r1 = Inr ())
    \<and> (r1 = Inr () \<longrightarrow> no_records (files d1)
         \<and> (\<forall>j. stored_at (files d1) j = stored_at (files (db_disk db)) j))
    \<and> (\<forall>s1 \<in> set (trail d1). \<forall>E2 r2 d2. recover_pending_merges E2 (db_mode db) (disk_of s1) = (r2, d2) \<longrightarrow>
         ((\<forall>n. \<not> fails E2 n) \<longrightarrow> r2 = Inr ())
       \<and> (r2 = Inr () \<longrightarrow> no_records (files d2)
            \<and> (\<forall>j. stored_at (files d2) j = stored_at (files (db_disk db)) j)))"
proof -
  have s0: "distinct (map fst (files (db_disk db)))" "no_records (files (db_disk db))"
    and mode: "i \<in> set (indices_of (db_mode db))" using ready by (simp_all add: crash_ready_def)
  obtain p where p: "wf_plan p" "mp_container p = i"
    "map_of (files (db_disk db)) (data_path (mp_container p) (mp_target p)) = None"
    "merging (local_build E) (db_database_id db) p (files (db_disk db)) s"
    using crash_states[OF ready run crash] .
  have mode': "mp_container p \<in> set (indices_of (db_mode db))" using mode p(2) by simp
  note first = recovery_from_state[OF p(1) s0 p(3,4) mode' recover]
  show ?thesis
    using first recovery_from_state[OF p(1) s0 p(3) _ mode'] by blast
qed

section \<open>A merge that returns\<close>

lemma fold_remove_spec:
  "catalog_inv c \<Longrightarrow> catalog_inv (fold catalog_remove ss c)
     \<and> set (vc_versions (fold catalog_remove ss c)) = set (vc_versions c) - set ss
     \<and> vc_highest_issued (fold catalog_remove ss c) = vc_highest_issued c"
  by (induction ss arbitrary: c) (auto simp: catalog_remove_inv set_catalog_remove)

lemma merged_catalog_spec:
  assumes "catalog_inv c" "t \<notin> set ss"
  shows "catalog_inv (merged_catalog t ss c)"
    and "set (vc_versions (merged_catalog t ss c)) = insert t (set (vc_versions c) - set ss)"
    and "vc_highest_issued (merged_catalog t ss c) = max (vc_highest_issued c) t"
  using fold_remove_spec[OF catalog_add_inv[OF assms(1)], of ss t] set_catalog_add[OF assms(1), of t] assms(2)
  by (auto simp: merged_catalog_def catalog_add_def Let_def)

lemma generation_bag_files: "generation_bag (disk_of (files d)) j v = generation_bag d j v"
  by (rule generation_bag_cong) (simp add: lookup_file_def)

lemma generation_ok_files: "generation_ok E dbid d j v
    \<longleftrightarrow> (\<exists>s t. map_of (files d) (data_path j v) = Some (Segment s)
          \<and> good_segment (local_build E) dbid (kind_of_index j) v s t \<and> tbl_ok t)"
  by (simp add: generation_ok_def lookup_file_def)

lemma merge_frame:
  assumes "merging b dbid p s0 (files d)" "\<not> (j = mp_container p \<and> (v = mp_target p \<or> v \<in> set (mp_sources p)))"
  shows "map_of (files d) (data_path j v) = map_of s0 (data_path j v)"
  using assms by (intro agrees_map_of[of "scratch_names \<union> key_names p"]) (auto simp: merging_def)

text \<open>What one call promises the database, whether it merges, declines or fails.\<close>

definition merge_effect :: "'v env \<Rightarrow> u64 \<Rightarrow> u64 list \<Rightarrow> unit result \<Rightarrow> 'v database \<Rightarrow> 'v database \<Rightarrow> bool" where
  "merge_effect E i sources r db db' \<longleftrightarrow>
     (\<forall>j. j \<noteq> i \<longrightarrow> contents db' j = contents db j \<and> db_catalogs db' j = db_catalogs db j)
   \<and> db_database_id db' = db_database_id db \<and> db_capacity db' = db_capacity db \<and> db_mode db' = db_mode db
   \<and> db_mapped db' = db_mapped db \<and> db_current_versions db' = db_current_versions db
   \<and> (r = Inr () \<or> \<not> db_cleanup_pending db' \<longrightarrow>
        container_inv E db' i \<and> contents db' i = contents db i
      \<and> db_cleanup_pending db' = db_cleanup_pending db
      \<and> (\<forall>v. lookup_file (db_disk db') (sidecar_path i v) = None))
   \<and> (if r = Inr () \<and> 2 \<le> length sources
      then set (vc_versions (db_catalogs db' i))
             = insert (next_version (db_catalogs db i)) (set (vc_versions (db_catalogs db i)) - set sources)
         \<and> vc_highest_issued (db_catalogs db' i) = next_version (db_catalogs db i)
      else r = Inr () \<or> \<not> db_cleanup_pending db' \<longrightarrow> db_catalogs db' i = db_catalogs db i)"

lemma contents_cong:
  assumes "vc_versions (db_catalogs db' j) = vc_versions (db_catalogs db j)"
    and "\<And>v. map_of (files (db_disk db')) (data_path j v) = map_of (files (db_disk db)) (data_path j v)"
  shows "contents db' j = contents db j"
  using assms generation_bag_cong[of "db_disk db'" j _ "db_disk db"]
  by (simp add: contents_def lookup_file_def)

lemma container_inv_cong:
  assumes "db_catalogs db' j = db_catalogs db j" "db_database_id db' = db_database_id db"
    and "\<And>v. map_of (files (db_disk db')) (data_path j v) = map_of (files (db_disk db)) (data_path j v)"
  shows "container_inv E db' j = container_inv E db j"
  using assms by (simp add: container_inv_def generation_ok_files)

text \<open>A merge that left every version file as it was.\<close>

lemma merge_effect_unchanged:
  assumes ready: "mergeable E db i sources" and adj: "adjusts db db'"
    and cl: "db_cleanup_pending db' = db_cleanup_pending db"
    and same: "\<And>j v. map_of (files (db_disk db')) (data_path j v) = map_of (files (db_disk db)) (data_path j v)"
    and rec: "\<And>v. map_of (files (db_disk db')) (sidecar_path i v) = map_of (files (db_disk db)) (sidecar_path i v)"
    and res: "r \<noteq> Inr () \<or> length sources < 2"
  shows "merge_effect E i sources r db db'"
proof -
  note fields = adjusts_fields[OF adj]
  have "contents db' j = contents db j" for j by (rule contents_cong) (simp_all add: fields same)
  moreover have "container_inv E db' i" using ready container_inv_cong[of db' i db E] fields same
    by (simp add: mergeable_def)
  moreover have "lookup_file (db_disk db') (sidecar_path i v) = None" for v
    using ready rec by (simp add: mergeable_def lookup_file_def)
  ultimately show ?thesis using fields cl res by (auto simp: merge_effect_def)
qed

lemma merge_effect_retired:
  assumes ready: "mergeable E db i sources" and ret: "retires i db db'"
    and w: "merging (local_build E) (db_database_id db) (plan_for db i sources m) (files (db_disk db)) (files (db_disk db'))"
    and gone: "retired (local_build E) (db_database_id db) (plan_for db i sources m) (files (db_disk db)) (files (db_disk db'))"
    and rec: "lookup_file (db_disk db') (sidecar_path i (next_version (db_catalogs db i))) = None"
    and cl: "db_cleanup_pending db' = db_cleanup_pending db"
    and cat: "db_catalogs db' i = catalog_set_metadata (next_version (db_catalogs db i)) meta
        (merged_catalog (next_version (db_catalogs db i)) sources (db_catalogs db i))"
    and two: "2 \<le> length sources"
  shows "merge_effect E i sources (Inr ()) db db'"
proof -
  let ?t = "next_version (db_catalogs db i)" and ?V = "set (vc_versions (db_catalogs db i))"
  let ?p = "plan_for db i sources m" and ?S = "set sources"
  have inv: "catalog_inv (db_catalogs db i)" and gens: "\<And>v. v \<in> ?V \<Longrightarrow> generation_ok E (db_database_id db) (db_disk db) i v"
    and sub: "?S \<subseteq> ?V" "distinct sources" and cat_ok: "vc_versions (db_catalogs db i) \<noteq> []"
      "vc_highest_issued (db_catalogs db i) \<noteq> u64_max"
    using ready by (auto simp: mergeable_def container_inv_def)
  note fresh = mergeable_fresh[OF ready] and next_fresh = next_version_fresh[OF inv cat_ok]
  have tV: "?t \<notin> ?V" using next_fresh(2) by blast
  note fields = retires_fields[OF ret]
  have frame: "map_of (files (db_disk db')) (data_path j v) = map_of (files (db_disk db)) (data_path j v)"
    if "\<not> (j = i \<and> (v = ?t \<or> v \<in> ?S))" for j v
    using merge_frame[OF w, of j v] that by simp
  have set': "set (vc_versions (db_catalogs db' i)) = insert ?t (?V - ?S)"
    using merged_catalog_spec(2)[OF inv fresh] by (simp add: cat)
  have "generation_ok E (db_database_id db) (db_disk db') i ?t"
    using gone by (auto simp: retired_def merged_target_def generation_ok_files)
  moreover have "generation_ok E (db_database_id db) (db_disk db') i v" if "v \<in> ?V - ?S" for v
  proof -
    have "map_of (files (db_disk db')) (data_path i v) = map_of (files (db_disk db)) (data_path i v)"
      by (rule frame) (use that tV in auto)
    then show ?thesis using gens[of v] that by (simp add: generation_ok_files)
  qed
  ultimately have inv': "container_inv E db' i"
    using merged_catalog_spec(1)[OF inv fresh] set' catalog_set_metadata_inv
    by (auto simp: container_inv_def cat fields(3))
  have rest: "generation_bag (disk_of (files (db_disk db'))) i v = generation_bag (disk_of (files (db_disk db))) i v"
    if "v \<in> ?V - ?S" for v
    by (intro generation_bag_map_of frame) (use that tV in auto)
  have "(\<Sum>v \<in> insert ?t (?V - ?S). generation_bag (disk_of (files (db_disk db'))) i v)
      = (\<Sum>v \<in> ?V. generation_bag (disk_of (files (db_disk db))) i v)"
    using retired_regroups[OF gone, of ?V, unfolded plan_for_fields, OF fresh sub(2,1) finite_set tV rest] .
  then have contents: "contents db' i = contents db i"
    by (simp add: contents_def set' generation_bag_files)
  have others: "contents db' j = contents db j" if "j \<noteq> i" for j
    by (rule contents_cong) (use that fields(1) frame in simp_all)
  have records: "lookup_file (db_disk db') (sidecar_path i v) = None" for v
  proof (cases "v = ?t")
    case False
    have "map_of (files (db_disk db')) (sidecar_path i v) = map_of (files (db_disk db)) (sidecar_path i v)"
      using w False by (intro agrees_map_of[of "scratch_names \<union> key_names ?p"]) (auto simp: merging_def)
    then show ?thesis using ready by (simp add: mergeable_def lookup_file_def)
  qed (simp add: rec)
  have "vc_highest_issued (db_catalogs db' i) = ?t"
    using merged_catalog_spec(3)[OF inv fresh] next_fresh(1) word_less_Suc[OF cat_ok(2)]
    by (simp add: cat max_def)
  then show ?thesis
    using inv' contents others records set' cl two fields by (simp add: merge_effect_def)
qed

lemma merge_versions_effect:
  assumes ready: "mergeable E db i sources" and run: "merge_versions E height_of i sources db = (r, db')"
  shows "merge_effect E i sources r db db'"
proof -
  let ?t = "next_version (db_catalogs db i)"
  let ?p = "plan_for db i sources" and ?s = "files (db_disk db)" and ?s' = "files (db_disk db')"
  consider (none) "r = Inr ()" "db' = db" "length sources < 2"
    | (declined) e where "r = Inl e" "same_disk (db_disk db) (db_disk db')" "adjusts db db'"
        "db_cleanup_pending db' = db_cleanup_pending db"
    | (merged) m meta where "r = Inr ()" "2 \<le> length sources" "retires i db db'"
        "merging (local_build E) (db_database_id db) (?p m) ?s ?s'"
        "adjusts (db\<lparr>db_catalogs := (db_catalogs db)(i := catalog_set_metadata ?t meta
            (merged_catalog ?t sources (db_catalogs db i))),
          db_dirty_versions := filter (\<lambda>(j, v). \<not> (j = i \<and> v \<in> set sources)) (db_dirty_versions db)\<rparr>) db'"
        "retired (local_build E) (db_database_id db) (?p m) ?s ?s'"
        "lookup_file (db_disk db') (sidecar_path i ?t) = None"
        "db_cleanup_pending db' = db_cleanup_pending db"
    | (undone) m where "r \<noteq> Inr ()" "merging (local_build E) (db_database_id db) (?p m) ?s ?s'"
        "adjusts db db'" "db_cleanup_pending db' = db_cleanup_pending db" "unpublished (?p m) ?s ?s'"
        "lookup_file (db_disk db) (data_path i ?t) = None"
        "lookup_file (db_disk db') (sidecar_path i ?t) = None"
    | (stuck) m where "r \<noteq> Inr ()" "merging (local_build E) (db_database_id db) (?p m) ?s ?s'"
        "retires i db db'" "db_cleanup_pending db'"
    using merge_versions_spec[OF ready run] unfolding within_def by blast
  then show ?thesis
  proof cases
    case none
    then show ?thesis by (intro merge_effect_unchanged[OF ready]) simp_all
  next
    case declined
    then show ?thesis by (intro merge_effect_unchanged[OF ready]) (simp_all add: same_disk_def)
  next
    case (merged m meta)
    then show ?thesis
      using merge_effect_retired[OF ready merged(3,4,6,7,8) _ merged(2)] adjusts_fields(2)[OF merged(5)] by simp
  next
    case (undone m)
    have "map_of ?s' (data_path j v) = map_of ?s (data_path j v)" for j v
      using undone(5,6) merge_frame[OF undone(2), of j v]
      by (cases "j = i \<and> (v = ?t \<or> v \<in> set sources)") (auto simp: unpublished_def lookup_file_def)
    moreover have "map_of ?s' (sidecar_path i v) = map_of ?s (sidecar_path i v)" for v
    proof (cases "v = ?t")
      case True
      then show ?thesis using undone(7) ready by (simp add: mergeable_def lookup_file_def)
    next
      case False
      then show ?thesis using undone(2)
        by (intro agrees_map_of[of "scratch_names \<union> key_names (?p m)"]) (auto simp: merging_def)
    qed
    ultimately show ?thesis using undone by (intro merge_effect_unchanged[OF ready]) simp_all
  next
    case (stuck m)
    have "contents db' j = contents db j" if "j \<noteq> i" for j
      by (rule contents_cong) (use that retires_fields(1)[OF stuck(3)] merge_frame[OF stuck(2)] in simp_all)
    then show ?thesis using stuck retires_fields[OF stuck(3)] by (auto simp: merge_effect_def)
  qed
qed

text \<open>
  C6: a merge of some versions of a container. If it returns, the container holds exactly the
  entries it held, the sources have given way to one new version, every version is usable and no
  record is left. If it fails without asking for recovery nothing has changed; and whatever
  happens, no other container is touched.
\<close>

theorem merge_versions_correct:
  assumes "mergeable E db i sources" and "merge_versions E height_of i sources db = (r, db')"
  shows "merge_effect E i sources r db db'"
  by (rule merge_versions_effect[OF assms])

end
