(* ===== verification/Compaction.thy ===== *)
theory Compaction
  imports Crash_Safety
begin

text \<open>
  A whole compaction: the groups of \<open>merge_groups\<close> one after the other, between closing and
  reopening the active version, keep every entry and leave a container that serves again.
\<close>

section \<open>Which failures ask for recovery\<close>

lemma publish_target_cleanup:
  assumes "publish_target E p db = (r, db')"
  shows "db_cleanup_pending db' = db_cleanup_pending db \<or> r \<in> {Inl Recovery_required, Inl Recovery_failed}"
  using assms
  by (auto simp: publish_target_def Let_def abandon_def withdraw_record_def stop_for_recovery_def
      split: prod.splits option.splits sum.splits if_splits)

lemma retire_sources_cleanup:
  assumes "retire_sources E p db = (r, db')"
  shows "db_cleanup_pending db' = db_cleanup_pending db \<or> r \<in> {Inl Recovery_required, Inl Recovery_failed}"
  using assms
  by (auto simp: retire_sources_def Let_def stop_for_recovery_def split: prod.splits sum.splits if_splits)

lemma merge_versions_cleanup:
  assumes run: "merge_versions E height_of i sources db = (r, db')"
  shows "db_cleanup_pending db' = db_cleanup_pending db \<or> r \<in> {Inl Recovery_required, Inl Recovery_failed}"
proof -
  have sum: "db_cleanup_pending (summarise_target E height_of i t db1) = db_cleanup_pending db1" for t db1
    by (rule summarise_target_frame[of E height_of i t db1]) simp
  have build: "db_cleanup_pending db2 = db_cleanup_pending db1"
    if "build_target E i t m ss db1 = (x, db2)" for t m ss x db1 db2
    using build_target_frame[OF that] by (simp add: builds_def)
  show ?thesis
    using run publish_target_cleanup retire_sources_cleanup
    by (fastforce simp: merge_versions_def Let_def sum split: prod.splits sum.splits if_splits bool.splits dest: build)
qed

section \<open>What a merge leaves alone\<close>

text \<open>Besides container \<open>i\<close>, its version files and its records.\<close>

definition spares :: "u64 \<Rightarrow> 'v database \<Rightarrow> 'v database \<Rightarrow> bool" where
  "spares i db db' \<longleftrightarrow> isolates i db db'
     \<and> (\<forall>j v. j \<noteq> i \<longrightarrow> lookup_file (db_disk db') (sidecar_path j v) = lookup_file (db_disk db) (sidecar_path j v))
     \<and> db_integrity_latched db' = db_integrity_latched db \<and> db_file_cache db' = db_file_cache db
     \<and> db_entries_count db' = db_entries_count db"

lemma spares_refl [simp]: "spares i db db"
  by (simp add: spares_def)

lemma spares_trans: "spares i a b \<Longrightarrow> spares i b c \<Longrightarrow> spares i a c"
  using isolates_trans by (simp add: spares_def) blast

lemma adjusts_latched: "adjusts db db' \<Longrightarrow> db_integrity_latched db' = db_integrity_latched db"
  by (subst (asm) adjusts_iff, erule ssubst) simp

lemma retires_frame:
  assumes "retires i db db'"
  shows "db_integrity_latched db' = db_integrity_latched db" "db_file_cache db' = db_file_cache db"
    "db_entries_count db' = db_entries_count db" "db_inspection_only db' = db_inspection_only db"
proof -
  obtain c dv where a: "adjusts (db\<lparr>db_catalogs := (db_catalogs db)(i := c), db_dirty_versions := dv\<rparr>) db'"
    using assms by (auto simp: retires_def)
  show "db_integrity_latched db' = db_integrity_latched db" using adjusts_latched[OF a] by simp
  show "db_file_cache db' = db_file_cache db" "db_entries_count db' = db_entries_count db"
    "db_inspection_only db' = db_inspection_only db" using adjusts_fields(8-10)[OF a] by simp_all
qed

lemma retires_spares:
  assumes ret: "retires i db db'"
    and look: "\<And>j v. j \<noteq> i \<Longrightarrow> map_of (files (db_disk db')) (data_path j v) = map_of (files (db_disk db)) (data_path j v)"
      "\<And>j v. j \<noteq> i \<Longrightarrow> map_of (files (db_disk db')) (sidecar_path j v) = map_of (files (db_disk db)) (sidecar_path j v)"
  shows "spares i db db'"
  using look retires_fields[OF ret] retires_frame[OF ret]
  by (simp add: spares_def isolates_def lookup_file_def)

lemma merge_versions_spares:
  assumes ready: "mergeable E db i sources" and run: "merge_versions E height_of i sources db = (r, db')"
  shows "spares i db db'"
  using merge_versions_spec[OF ready run]
proof (elim disjE conjE exE)
  assume "same_disk (db_disk db) (db_disk db')" "adjusts db db'"
  then show ?thesis by (intro retires_spares retires_adjusts) (simp_all add: same_disk_def)
next
  fix m assume ret: "retires i db db'" and w: "merge_within E db (plan_for db i sources m) (db_disk db')"
  let ?p = "plan_for db i sources m"
  have ag: "agrees (scratch_names \<union> key_names ?p) (files (db_disk db)) (files (db_disk db'))"
    using w by (simp add: within_def merging_def)
  show ?thesis
    by (rule retires_spares[OF ret]; rule agrees_map_of[OF ag]) simp_all
qed simp_all

section \<open>Groups\<close>

text \<open>What a sequence of merges keeps; \<open>k\<close> bounds the merges still to come.\<close>

definition compactable :: "'v env \<Rightarrow> 'v database \<Rightarrow> u64 \<Rightarrow> nat \<Rightarrow> bool" where
  "compactable E db i k \<longleftrightarrow> container_inv E db i \<and> creatable db i
     \<and> vc_versions (db_catalogs db i) \<noteq> [] \<and> unat (vc_highest_issued (db_catalogs db i)) + k < 2 ^ 64
     \<and> (\<forall>v. lookup_file (db_disk db) (sidecar_path i v) = None) \<and> \<not> db_cleanup_pending db"

definition compacts :: "u64 \<Rightarrow> 'v database \<Rightarrow> 'v database \<Rightarrow> bool" where
  "compacts i db db' \<longleftrightarrow> (\<forall>j. j \<noteq> i \<longrightarrow> contents db' j = contents db j \<and> db_catalogs db' j = db_catalogs db j)
     \<and> db_database_id db' = db_database_id db \<and> db_capacity db' = db_capacity db \<and> db_mode db' = db_mode db
     \<and> db_mapped db' = db_mapped db \<and> db_current_versions db' = db_current_versions db
     \<and> (\<not> db_cleanup_pending db' \<longrightarrow> contents db' i = contents db i) \<and> spares i db db'"

lemma compacts_refl [simp]: "compacts i db db"
  by (simp add: compacts_def)

lemma compacts_trans: "compacts i a b \<Longrightarrow> compacts i b c \<Longrightarrow> \<not> db_cleanup_pending b \<Longrightarrow> compacts i a c"
  using spares_trans by (simp add: compacts_def) blast

lemma compactable_mergeable:
  assumes "compactable E db i k" "2 \<le> k" "set sources \<subseteq> set (vc_versions (db_catalogs db i))"
    "distinct sources" "sorted sources"
  shows "mergeable E db i sources"
proof -
  have "vc_highest_issued (db_catalogs db i) \<noteq> u64_max"
    using assms(1,2) unat_u64_max by (auto simp: compactable_def)
  then show ?thesis using assms by (simp add: mergeable_def compactable_def)
qed

lemma merge_effect_compacts:
  assumes eff: "merge_effect E i sources r db db'" and c: "compactable E db i k"
    and two: "2 \<le> length sources" "2 \<le> k" and ok: "\<not> db_cleanup_pending db'" and sp: "spares i db db'"
  shows "compacts i db db'" "r = Inr () \<Longrightarrow> compactable E db' i (k - 1)"
    "r \<noteq> Inr () \<Longrightarrow> compactable E db' i k" "r \<noteq> Inr () \<Longrightarrow> db_catalogs db' i = db_catalogs db i"
    and "r = Inr () \<Longrightarrow> v \<in> set (vc_versions (db_catalogs db i)) \<Longrightarrow> v \<notin> set sources
      \<Longrightarrow> v \<in> set (vc_versions (db_catalogs db' i))"
proof -
  show "compacts i db db'" using eff ok sp by (auto simp: merge_effect_def compacts_def)
  have inv: "catalog_inv (db_catalogs db i)" "vc_versions (db_catalogs db i) \<noteq> []"
    "vc_highest_issued (db_catalogs db i) \<noteq> u64_max"
    using c two unat_u64_max by (auto simp: compactable_def container_inv_def)
  have "unat (vc_highest_issued (db_catalogs db i)) + 1 < 2 ^ 64"
    using c two(2) by (simp add: compactable_def)
  then have up: "unat (next_version (db_catalogs db i)) = unat (vc_highest_issued (db_catalogs db i)) + 1"
    using next_version_fresh(1)[OF inv] by (simp add: unat_word_ariths)
  have "vc_versions (db_catalogs db' i) \<noteq> []" if "r = Inr ()"
  proof -
    have "set (vc_versions (db_catalogs db' i)) \<noteq> {}" using eff two(1) that by (simp add: merge_effect_def)
    then show ?thesis by auto
  qed
  then show "compactable E db' i (k - 1)" if "r = Inr ()"
    using eff c two that up by (auto simp: merge_effect_def compactable_def creatable_def)
qed (use eff c two ok in \<open>auto simp: merge_effect_def compactable_def creatable_def\<close>)

lemma merge_longest_spec:
  assumes c: "compactable E db i k" and k: "cnt \<le> k" "cnt \<le> length versions" and dst: "distinct versions" "sorted versions"
    and sub: "set versions \<subseteq> set (vc_versions (db_catalogs db i))"
    and run: "merge_longest E height_of i versions cnt db = ((n, r), db')"
  shows "n \<le> cnt \<and> compacts i db db'
    \<and> (db_cleanup_pending db' \<longrightarrow> 2 \<le> n \<and> r \<noteq> Inr ())
    \<and> (\<not> db_cleanup_pending db' \<longrightarrow>
        (if 2 \<le> n \<and> r = Inr () then compactable E db' i (k - 1)
           \<and> set (vc_versions (db_catalogs db i)) - set (take n versions) \<subseteq> set (vc_versions (db_catalogs db' i))
         else compactable E db' i k \<and> db_catalogs db' i = db_catalogs db i))"
  using c k sub run
proof (induction cnt arbitrary: db rule: less_induct)
  case (less cnt)
  show ?case
  proof (cases "cnt < 2")
    case True
    then have "n = cnt" "r = Inr ()" "db' = db" using less.prems(5) by (simp_all add: merge_longest.simps)
    then show ?thesis using True less.prems(1) by (auto simp: compactable_def)
  next
    case False
    let ?ss = "take cnt versions"
    obtain r1 db1 where m: "merge_versions E height_of i ?ss db = (r1, db1)" by fastforce
    have two: "2 \<le> length ?ss" "2 \<le> k" using False less.prems(2,3) by simp_all
    have "set ?ss \<subseteq> set (vc_versions (db_catalogs db i))" using less.prems(4) set_take_subset by fastforce
    then have ready: "mergeable E db i ?ss"
      using compactable_mergeable[OF less.prems(1) two(2)] dst by (simp add: sorted_wrt_take)
    have eff: "merge_effect E i ?ss r1 db db1" by (rule merge_versions_effect[OF ready m])
    note sp = merge_versions_spares[OF ready m]
    note step = merge_effect_compacts[OF eff less.prems(1) two _ sp]
    have clean: "\<not> db_cleanup_pending db" using less.prems(1) by (simp add: compactable_def)
    have cl: "db_cleanup_pending db1 \<longrightarrow> r1 \<in> {Inl Recovery_required, Inl Recovery_failed}"
      using merge_versions_cleanup[OF m] clean by auto
    show ?thesis
    proof (cases "r1 = Inl Insufficient_space")
      case True
      then have ok: "\<not> db_cleanup_pending db1" using cl by auto
      have rest: "merge_longest E height_of i versions (cnt - 1) db1 = ((n, r), db')"
        using less.prems(5) False m True by (subst (asm) merge_longest.simps) simp
      have mid: "compactable E db1 i k" "db_catalogs db1 i = db_catalogs db i" "compacts i db db1"
        using step(1,3,4)[OF ok] True by simp_all
      have le: "cnt - 1 < cnt" "cnt - 1 \<le> k" "cnt - 1 \<le> length versions"
        "set versions \<subseteq> set (vc_versions (db_catalogs db1 i))"
        using less.prems(2,3,4) False mid(2) by simp_all
      note IH = less.IH[OF le(1) mid(1) le(2-4) rest]
      have "n \<le> cnt" "compacts i db db'" using IH compacts_trans[OF mid(3) _ ok] by auto
      then show ?thesis using IH by (simp only: mid(2)) blast
    next
      case other: False
      then have res: "n = cnt" "r = r1" "db' = db1"
        using less.prems(5) False m by (subst (asm) merge_longest.simps, simp)+
      have "compacts i db db1"
      proof (cases "db_cleanup_pending db1")
        case True
        then show ?thesis using eff sp by (simp add: merge_effect_def compacts_def)
      qed (rule step(1))
      moreover have "r1 \<noteq> Inr ()" if "db_cleanup_pending db1" using cl that by auto
      ultimately show ?thesis using res False step(2,3,4,5) by auto
    qed
  qed
qed

lemma compactable_mono: "compactable E db i k \<Longrightarrow> j \<le> k \<Longrightarrow> compactable E db i j"
  by (simp add: compactable_def)

lemma merge_from_spec:
  assumes "compactable E db i k" "length versions \<le> k" "distinct versions" "sorted versions"
    and "set versions \<subseteq> set (vc_versions (db_catalogs db i))"
    and "merge_from E height_of i versions db = (r, db')"
  shows "compacts i db db' \<and> (db_cleanup_pending db' \<longrightarrow> r \<noteq> Inr ())
    \<and> (\<not> db_cleanup_pending db' \<longrightarrow> compactable E db' i 0)"
  using assms
proof (induction "length versions" arbitrary: versions db k rule: less_induct)
  case less
  show ?case
  proof (cases "versions = []")
    case True
    then show ?thesis
      using less.prems(6) compactable_mono[OF less.prems(1), of 0] less.prems(1)
      by (simp add: merge_from.simps) (simp add: compactable_def)
  next
    case False
    obtain n r1 db1 where long: "merge_longest E height_of i versions (length versions) db = ((n, r1), db1)"
      by (metis prod_cases3 surj_pair)
    note group = merge_longest_spec[OF less.prems(1,2) order_refl less.prems(3,4,5) long]
    note run = less.prems(6)[unfolded merge_from.simps[of E height_of i versions db], simplified False long, simplified]
    have stop: "?thesis" if "(r, db') = (r1, db1)" "2 \<le> n" "r1 \<noteq> Inr ()"
      using that group compactable_mono[of E db1 i k 0] by auto
    have go: "?thesis" if "merge_from E height_of i rest db1 = (r, db')" "length rest < length versions"
      "length rest \<le> j" "compactable E db1 i j" "distinct rest" "sorted rest"
      "set rest \<subseteq> set (vc_versions (db_catalogs db1 i))" for rest j
    proof -
      have "\<not> db_cleanup_pending db1" using that(4) by (simp add: compactable_def)
      then show ?thesis
        using less.hyps[OF that(2,4,3,5,6,7,1)] group compacts_trans[of i db db1 db'] by blast
    qed
    consider (short) "n < 2" | (failed) "2 \<le> n" "r1 \<noteq> Inr ()" | (merged) "2 \<le> n" "r1 = Inr ()" by linarith
    then show ?thesis
    proof cases
      case short
      then have "merge_from E height_of i (tl versions) db1 = (r, db')" using run by simp
      moreover have "compactable E db1 i k" "db_catalogs db1 i = db_catalogs db i" using group short by auto
      ultimately show ?thesis
        using go[of "tl versions" k] False less.prems(2,3,4,5)
        by (cases versions) auto
    next
      case failed
      then show ?thesis using stop run by simp
    next
      case merged
      then have rest: "merge_from E height_of i (drop n versions) db1 = (r, db')" using run by simp
      have ok: "compactable E db1 i (k - 1)"
        "set (vc_versions (db_catalogs db i)) - set (take n versions) \<subseteq> set (vc_versions (db_catalogs db1 i))"
        using group merged by auto
      have "set (drop n versions) \<inter> set (take n versions) = {}"
        using less.prems(3) set_take_disj_set_drop_if_distinct[of versions n n] by auto
      then have "set (drop n versions) \<subseteq> set (vc_versions (db_catalogs db1 i))"
        using ok(2) less.prems(5) set_drop_subset[of n versions] by blast
      moreover have "length (drop n versions) \<le> k - 1" "length (drop n versions) < length versions"
        using merged(1) less.prems(2) False by auto
      ultimately show ?thesis
        using go[OF rest _ _ ok(1)] less.prems(3,4) by (simp add: sorted_wrt_drop)
    qed
  qed
qed

section \<open>Closing, merging, reopening\<close>

lemma compacts_closed:
  assumes "close_container E i db = db\<lparr>db_disk := d, db_mapped := m\<rparr>"
    and t: "touches {metadata_path i v, tmp_path (metadata_path i v)} (db_disk db) d"
  shows "contents (db\<lparr>db_disk := d, db_mapped := m\<rparr>) j = contents db j"
    and "compactable E (db\<lparr>db_disk := d, db_mapped := m\<rparr>) i k = compactable E db i k"
proof -
  have look: "lookup_file d (data_path j w) = lookup_file (db_disk db) (data_path j w)"
    "lookup_file d (sidecar_path j w) = lookup_file (db_disk db) (sidecar_path j w)" for j w
    using touches_lookup[OF t] by simp_all
  show "contents (db\<lparr>db_disk := d, db_mapped := m\<rparr>) j = contents db j"
    by (rule contents_cong) (use look in \<open>simp_all add: lookup_file_def\<close>)
  show "compactable E (db\<lparr>db_disk := d, db_mapped := m\<rparr>) i k = compactable E db i k"
    using look by (simp add: compactable_def container_inv_def generation_ok_def creatable_def)
qed

lemma catalog_add_present:
  "catalog_inv c \<Longrightarrow> v \<in> set (vc_versions c) \<Longrightarrow> vc_versions (catalog_add v c) = vc_versions c"
  by (simp add: catalog_add_def Let_def catalog_contains_iff)

lemma reopen_frame:
  assumes "reopen_active_container E i db = (r, db')"
  shows "j \<noteq> i \<Longrightarrow> contents db' j = contents db j \<and> db_catalogs db' j = db_catalogs db j"
    and "db_cleanup_pending db \<Longrightarrow> db_cleanup_pending db'"
proof -
  obtain o1 d where op: "open_checked E (db_database_id db) (kind_of_index i)
      (data_path i (catalog_active (db_catalogs db i))) (catalog_active (db_catalogs db i)) (db_disk db) = (o1, d)"
    by fastforce
  have files: "files (db_disk db') = files (db_disk db)"
    and cats: "j \<noteq> i \<Longrightarrow> db_catalogs db' j = db_catalogs db j" for j
    using assms op same_disk_ops(6)[OF op]
    by (auto simp: reopen_active_container_def open_existing_container_def stop_for_recovery_def Let_def
        same_disk_def split: sum.splits)
  show "contents db' j = contents db j \<and> db_catalogs db' j = db_catalogs db j" if "j \<noteq> i"
    using contents_cong[of db' j db] cats[OF that] files by simp
  show "db_cleanup_pending db'" if "db_cleanup_pending db"
    using that assms op
    by (auto simp: reopen_active_container_def open_existing_container_def stop_for_recovery_def Let_def
        split: sum.splits)
qed

lemma reopen_spec:
  assumes c: "compactable E db i k" and run: "reopen_active_container E i db = (r, db')"
  shows "contents db' j = contents db j" and "j \<noteq> i \<Longrightarrow> db_catalogs db' j = db_catalogs db j"
    and "r = Inr () \<Longrightarrow> serving E db' i \<and> \<not> db_cleanup_pending db'"
    and "r \<noteq> Inr () \<Longrightarrow> db_cleanup_pending db'"
proof -
  let ?a = "catalog_active (db_catalogs db i)"
  obtain o1 d where op: "open_checked E (db_database_id db) (kind_of_index i) (data_path i ?a) ?a (db_disk db) = (o1, d)"
    by fastforce
  have same: "same_disk (db_disk db) d" by (rule same_disk_ops(6)[OF op])
  have inv: "container_inv E db i" "vc_versions (db_catalogs db i) \<noteq> []" "\<not> db_cleanup_pending db"
    using c by (simp_all add: compactable_def)
  then have cat: "catalog_inv (db_catalogs db i)" by (simp add: container_inv_def)
  have "?a \<in> set (vc_versions (db_catalogs db i))"
    using catalog_active_max[OF cat] inv(2) by (cases "vc_versions (db_catalogs db i)") auto
  note present = catalog_add_present[OF cat this]
  have files: "files d = files (db_disk db)" using same by (simp add: same_disk_def)
  have shape: "r = Inl e \<and> db' = db\<lparr>db_disk := d, db_cleanup_pending := True\<rparr>" if "o1 = Inl e" for e
    using run op that by (simp add: reopen_active_container_def open_existing_container_def stop_for_recovery_def Let_def)
  have shape': "r = Inr () \<and> db_disk db' = d \<and> db_mapped db' i \<and> db_current_versions db' i = ?a
      \<and> db_catalogs db' = (db_catalogs db)(i := catalog_add ?a (db_catalogs db i))
      \<and> db_database_id db' = db_database_id db \<and> db_cleanup_pending db' = db_cleanup_pending db" if "o1 = Inr t" for t
    using run op that by (auto simp: reopen_active_container_def open_existing_container_def Let_def)
  show "contents db' j = contents db j"
    by (cases o1; rule contents_cong) (use shape shape' present files in auto)
  show "db_catalogs db' j = db_catalogs db j" if "j \<noteq> i"
    using that shape shape' by (cases o1) auto
  show "db_cleanup_pending db'" if "r \<noteq> Inr ()" using that shape shape' by (cases o1) auto
  show "serving E db' i \<and> \<not> db_cleanup_pending db'" if ok: "r = Inr ()"
  proof -
    obtain t where "o1 = Inr t" using ok shape by (cases o1) auto
    with shape' present inv cat show ?thesis
      by (auto simp: serving_def container_inv_def generation_ok_files files catalog_add_inv
          catalog_active_cong[OF present])
  qed
qed

lemma close_spares: "spares i db (close_container E i db)"
proof -
  obtain d where cl: "close_container E i db = db\<lparr>db_disk := d, db_mapped := (db_mapped db)(i := False)\<rparr>"
    and t: "touches {metadata_path i (db_current_versions db i), tmp_path (metadata_path i (db_current_versions db i))}
      (db_disk db) d"
    by (rule close_container_spec)
  show ?thesis using touches_lookup[OF t] by (simp add: cl spares_def isolates_def)
qed

lemma reopen_spares:
  assumes run: "reopen_active_container E i db = (r, db')"
  shows "spares i db db'" "lookup_file (db_disk db') n = lookup_file (db_disk db) n"
proof -
  obtain o1 d where op: "open_checked E (db_database_id db) (kind_of_index i)
      (data_path i (catalog_active (db_catalogs db i))) (catalog_active (db_catalogs db i)) (db_disk db) = (o1, d)"
    by fastforce
  note look = same_disk_lookup[OF same_disk_ops(6)[OF op]]
  have "spares i db db' \<and> lookup_file (db_disk db') n = lookup_file (db_disk db) n"
    using run op look
    by (cases o1) (auto simp: reopen_active_container_def open_existing_container_def stop_for_recovery_def Let_def
        spares_def isolates_def)
  then show "spares i db db'" "lookup_file (db_disk db') n = lookup_file (db_disk db) n" by simp_all
qed

text \<open>Everything a compaction promises of the container and of the others.\<close>

lemma compact_container_spec:
  assumes srv: "serving E db i" and c: "compactable E db i (length (vc_versions (db_catalogs db i)))"
    and run: "compact_container E height_of i db = (r, db')"
  shows "(\<forall>j. j \<noteq> i \<longrightarrow> contents db' j = contents db j \<and> db_catalogs db' j = db_catalogs db j)
    \<and> (r = Inr () \<longrightarrow> \<not> db_cleanup_pending db')
    \<and> (\<not> db_cleanup_pending db' \<longrightarrow> serving E db' i \<and> contents db' i = contents db i
          \<and> compactable E db' i 0)
    \<and> spares i db db'"
proof -
  let ?vs = "vc_versions (db_catalogs db i)"
  obtain d0 where cl: "close_container E i db = db\<lparr>db_disk := d0, db_mapped := (db_mapped db)(i := False)\<rparr>"
    and t0: "touches {metadata_path i (db_current_versions db i), tmp_path (metadata_path i (db_current_versions db i))}
      (db_disk db) d0"
    by (rule close_container_spec)
  let ?db0 = "db\<lparr>db_disk := d0, db_mapped := (db_mapped db)(i := False)\<rparr>"
  note closed = compacts_closed[OF cl t0]
  have c0: "compactable E ?db0 i (length ?vs)" using c closed(2) by simp
  obtain r1 db1 where g: "merge_groups E height_of i ?db0 = (r1, db1)" by fastforce
  have dst: "distinct ?vs" "sorted ?vs" using c by (simp_all add: compactable_def container_inv_def catalog_inv_def)
  have groups: "compacts i ?db0 db1 \<and> (db_cleanup_pending db1 \<longrightarrow> r1 \<noteq> Inr ())
      \<and> (\<not> db_cleanup_pending db1 \<longrightarrow> compactable E db1 i 0)"
  proof (cases "length ?vs \<le> 1")
    case True
    then have "r1 = Inr ()" "db1 = ?db0" using g by (simp_all add: merge_groups_def)
    then show ?thesis using c0 compactable_mono[OF c0, of 0] by (auto simp: compactable_def)
  next
    case False
    then have "merge_from E height_of i ?vs ?db0 = (r1, db1)" using g by (simp add: merge_groups_def)
    from merge_from_spec[OF c0 order_refl dst _ this] show ?thesis by simp
  qed
  obtain r2 where re: "reopen_active_container E i db1 = (r2, db')" and r: "r = (if r1 \<noteq> Inr () then r1 else r2)"
    using run cl g by (auto simp: compact_container_def split: prod.splits)
  note frame = reopen_frame[OF re]
  have "spares i db ?db0" using close_spares[of i db E] by (simp add: cl)
  then have sp: "spares i db db'"
    using groups spares_trans[of i db ?db0 db1] spares_trans[of i db db1 db'] reopen_spares(1)[OF re]
    by (simp add: compacts_def)
  show ?thesis
  proof (cases "db_cleanup_pending db1")
    case True
    then show ?thesis using frame groups r closed(1) sp by (auto simp: compacts_def)
  next
    case False
    then have c1: "compactable E db1 i 0" using groups by blast
    note spec = reopen_spec[OF c1 re]
    have "compactable E db' i 0" if "serving E db' i" "\<not> db_cleanup_pending db'"
      using that c1 reopen_spares(2)[OF re] reopen_spares(1)[OF re] unat_u64_less
      by (auto simp: compactable_def serving_def creatable_def spares_def isolates_def)
    moreover
    have "contents db' i = contents db i" using spec(1)[of i] groups False closed(1) by (simp add: compacts_def)
    moreover have "r2 = Inr ()" if "\<not> db_cleanup_pending db'" using spec(4) that by blast
    moreover have "\<not> db_cleanup_pending db'" if "r = Inr ()" using spec(3) that r by (auto split: if_splits)
    ultimately show ?thesis using frame(1) groups closed(1) spec(3) sp by (auto simp: compacts_def)
  qed
qed


text \<open>
  C7: compacting a container that serves, with no merge outstanding. Every other container keeps
  its entries and its catalogue. If the compaction returns, or fails without asking for recovery,
  the container serves again and holds exactly the entries it held; a returned compaction never
  asks for recovery.
\<close>

theorem compact_container_correct:
  assumes srv: "serving E db i" and c: "compactable E db i (length (vc_versions (db_catalogs db i)))"
    and run: "compact_container E height_of i db = (r, db')"
  shows "(\<forall>j. j \<noteq> i \<longrightarrow> contents db' j = contents db j \<and> db_catalogs db' j = db_catalogs db j)
    \<and> (r = Inr () \<longrightarrow> \<not> db_cleanup_pending db')
    \<and> (\<not> db_cleanup_pending db' \<longrightarrow> serving E db' i \<and> contents db' i = contents db i)"
  using compact_container_spec[OF assms] by blast

end
