(* ===== verification/Merge_Progress.thy ===== *)
theory Merge_Progress
  imports Compaction
begin

text \<open>
  A merge gets done: with a system that does not fail, room on the disk, no key in two sources and
  a target whose buckets take all entries, \<open>merge_versions\<close> returns. Boost's documented behaviour
  enters as the hypothesis that an insertion below the growth point keeps the bucket count.
\<close>

section \<open>What it takes\<close>

definition keys_once :: "(raw_outpoint \<times> 'v) multiset \<Rightarrow> bool" where
  "keys_once M \<longleftrightarrow> (\<forall>k. count (image_mset fst M) k \<le> 1)"

definition unhindered :: "'v env \<Rightarrow> 'v database \<Rightarrow> u64 \<Rightarrow> u64 list \<Rightarrow> bool" where
  "unhindered E db i sources \<longleftrightarrow> (\<forall>n. \<not> fails E n)
     \<and> (\<forall>n s. space_available E n = Some s \<longrightarrow> ce_file_size (db_capacity db i) \<le> s)
     \<and> (\<forall>n. \<exists>bs. entropy E n = Some bs \<and> fst (get64 bs) \<noteq> 0)
     \<and> (\<forall>n b. \<exists>b' l. on_construct E n b = Constructed b' l
          \<and> (b = capacity_for db i \<longrightarrow>
               size (source_bag (db_disk db) i sources) \<le> unat (max_size_without_rehash b')))
     \<and> (\<forall>n t k v. tbl_size t < max_size_without_rehash (tbl_buckets t) \<longrightarrow>
          (\<exists>l. on_emplace E n t k v = Placed (tbl_buckets t) l))
     \<and> keys_once (source_bag (db_disk db) i sources)
     \<and> lookup_file (db_disk db) (data_path i (next_version (db_catalogs db i))) = None
     \<and> lookup_file (db_disk db) (tmp_path (sidecar_path i (next_version (db_catalogs db i)))) \<noteq> Some Special"

lemma unhinderedD:
  assumes "unhindered E db i sources"
  shows "\<not> fails E n"
    and "space_available E n = Some s \<Longrightarrow> ce_file_size (db_capacity db i) \<le> s"
    and "\<exists>bs. entropy E n = Some bs \<and> fst (get64 bs) \<noteq> 0"
    and "\<exists>b' l. on_construct E n b = Constructed b' l \<and> (b = capacity_for db i \<longrightarrow>
           size (source_bag (db_disk db) i sources) \<le> unat (max_size_without_rehash b'))"
    and "tbl_size t < max_size_without_rehash (tbl_buckets t) \<Longrightarrow>
           \<exists>l. on_emplace E n t k v = Placed (tbl_buckets t) l"
    and "keys_once (source_bag (db_disk db) i sources)"
    and "lookup_file (db_disk db) (data_path i (next_version (db_catalogs db i))) = None"
    and "lookup_file (db_disk db) (tmp_path (sidecar_path i (next_version (db_catalogs db i)))) \<noteq> Some Special"
proof -
  note all = assms[unfolded unhindered_def]
  show "\<not> fails E n" using all by (elim conjE) (erule spec)
  show "space_available E n = Some s \<Longrightarrow> ce_file_size (db_capacity db i) \<le> s"
    using all by (elim conjE) (drule spec[of _ n], drule spec[of _ n], drule spec[of _ n], simp)
  show "\<exists>bs. entropy E n = Some bs \<and> fst (get64 bs) \<noteq> 0" using all by (elim conjE) (erule spec)
  show "\<exists>b' l. on_construct E n b = Constructed b' l \<and> (b = capacity_for db i \<longrightarrow>
           size (source_bag (db_disk db) i sources) \<le> unat (max_size_without_rehash b'))"
    using all by (elim conjE) (drule spec2[of _ n b], assumption)
  show "tbl_size t < max_size_without_rehash (tbl_buckets t) \<Longrightarrow>
           \<exists>l. on_emplace E n t k v = Placed (tbl_buckets t) l"
    using all by (elim conjE) simp
qed (use assms in \<open>simp_all add: unhindered_def\<close>)

section \<open>Copying\<close>

lemma keys_once_sub: "keys_once (M + N) \<Longrightarrow> keys_once M"
  by (simp add: keys_once_def) (meson add_leD1)

lemma keys_once_new:
  assumes "keys_once (add_mset (k, v) M)" "(k, w) \<in># M"
  shows False
proof -
  have "k \<in># image_mset fst M" using assms(2) by force
  then have "count (image_mset fst (add_mset (k, v) M)) k > 1"
    by (simp del: in_image_mset)
  then show False using assms(1) unfolding keys_once_def by (meson leD)
qed

lemma tbl_size_below:
  assumes "size (tbl_bag t) < unat (limit :: u64)"
  shows "tbl_size t < limit"
proof -
  have "size (tbl_bag t) < 2 ^ 64" using assms unat_u64_less[of limit] by linarith
  then have "unat (tbl_size t) = size (tbl_bag t)"
    by (simp add: tbl_size_bag unat_of_nat)
  then show ?thesis using assms by (simp add: word_less_nat_alt)
qed

lemma copy_entries_completes:
  assumes place: "\<And>n t k v. tbl_size t < max_size_without_rehash (tbl_buckets t) \<Longrightarrow>
      \<exists>l. on_emplace E n t k v = Placed (tbl_buckets t) l"
    and "tbl_ok t" "tbl_buckets t = b" "keys_once (tbl_bag t + mset es)"
    and "size (tbl_bag t + mset es) \<le> unat (max_size_without_rehash b)"
  shows "\<exists>t' db'. copy_entries E path b (max_size_without_rehash b) es t db = (Inr t', db')
    \<and> tbl_ok t' \<and> tbl_buckets t' = b \<and> tbl_bag t' = tbl_bag t + mset es"
  using assms(2-)
proof (induction es arbitrary: t db)
  case Nil
  then show ?case by simp
next
  case (Cons e es)
  obtain k v where e: "e = (k, v)" by (cases e)
  have small: "tbl_size t < max_size_without_rehash b"
    using Cons.prems(4) by (intro tbl_size_below) simp
  have new: "tbl_find t k = None"
  proof (cases "tbl_find t k")
    case (Some w)
    then have "(k, w) \<in># tbl_bag t + mset es" using table.find_bag[OF Cons.prems(1)] by simp
    then show ?thesis using keys_once_new[of k v "tbl_bag t + mset es" w] Cons.prems(3) by (simp add: e)
  qed
  obtain l where "on_emplace E (ticks (db_disk db)) t k v = Placed (tbl_buckets t) l"
    using place small Cons.prems(2) by blast
  then have ins: "tbl_emplace E (ticks (db_disk db)) k v t = Inserted (tbl_add (tbl_buckets t) l k v t)"
    using new by (simp add: tbl_emplace_def)
  let ?t = "tbl_add (tbl_buckets t) l k v t"
  have t: "tbl_ok ?t" "tbl_bag ?t = add_mset (k, v) (tbl_bag t)" "tbl_buckets ?t = b"
    using tbl_emplace_cases(2)[OF Cons.prems(1) ins] Cons.prems(2) by (simp_all add: tbl_add_def)
  let ?db = "db\<lparr>db_disk := set_segment_map path ?t (tick (db_disk db))\<rparr>"
  have "\<exists>t' db'. copy_entries E path b (max_size_without_rehash b) es ?t ?db = (Inr t', db')
    \<and> tbl_ok t' \<and> tbl_buckets t' = b \<and> tbl_bag t' = tbl_bag ?t + mset es"
    by (rule Cons.IH) (use t Cons.prems(3,4) in \<open>simp_all add: e\<close>)
  then show ?case using small ins t by (simp add: e Let_def not_le)
qed

lemma copy_sources_completes:
  assumes place: "\<And>n t k v. tbl_size t < max_size_without_rehash (tbl_buckets t) \<Longrightarrow>
      \<exists>l. on_emplace E n t k v = Placed (tbl_buckets t) l"
    and calm: "\<forall>n. \<not> fails E n"
    and "\<forall>s \<in> set ss. generation_ok E (db_database_id db) (db_disk db) i s"
    and "tbl_ok t" "tbl_buckets t = b" "keys_once (tbl_bag t + source_bag (db_disk db) i ss)"
    and "size (tbl_bag t + source_bag (db_disk db) i ss) \<le> unat (max_size_without_rehash b)"
  shows "\<exists>t' db'. copy_sources E i (building_path i w) b (max_size_without_rehash b) ss t db = (Inr t', db')"
  using assms(3-)
proof (induction ss arbitrary: t db)
  case Nil
  then show ?case by simp
next
  case (Cons s ss)
  let ?p = "building_path i w"
  obtain g m where g: "lookup_file (db_disk db) (data_path i s) = Some (Segment g)"
    "good_segment (local_build E) (db_database_id db) (kind_of_index i) s g m"
    using Cons.prems(1) by (auto simp: generation_ok_def)
  then obtain d where op: "open_checked E (db_database_id db) (kind_of_index i) (data_path i s) s (db_disk db) = (Inr m, d)"
    using open_checked_good[OF g calm] by blast
  have bag: "generation_bag (db_disk db) i s = mset (tbl_entries m)"
    using g by (simp add: generation_bag_def generation_def good_segment_def tbl_bag_def)
  have "keys_once (tbl_bag t + mset (tbl_entries m))"
    using keys_once_sub[of "tbl_bag t + mset (tbl_entries m)" "source_bag (db_disk db) i ss"] Cons.prems(4)
    by (simp add: source_bag_def bag add.assoc)
  then obtain t1 db1 where copy: "copy_entries E ?p b (max_size_without_rehash b) (tbl_entries m) t
      (db\<lparr>db_disk := d\<rparr>) = (Inr t1, db1)"
    and t1: "tbl_ok t1" "tbl_buckets t1 = b" "tbl_bag t1 = tbl_bag t + mset (tbl_entries m)"
    using copy_entries_completes[OF place Cons.prems(2,3), of "tbl_entries m" ?p "db\<lparr>db_disk := d\<rparr>"] Cons.prems(5)
    by (auto simp: source_bag_def bag)
  have b: "builds {?p} db db1"
    by (rule builds_trans[OF open_checked_builds[OF op] copy_entries_frame[OF copy]])
  then have t: "touches {?p} (db_disk db) (db_disk db1)" "db_database_id db1 = db_database_id db"
    by (simp_all add: builds_def adjusts_fields)
  have src: "source_bag (db_disk db1) i ss = source_bag (db_disk db) i ss"
    by (rule source_bag_touches[OF t(1)]) simp
  have "generation_ok E (db_database_id db1) (db_disk db1) i v" if "v \<in> set ss" for v
    using Cons.prems(1) that touches_lookup[OF t(1), of "data_path i v"] by (simp add: generation_ok_def t(2))
  then have "\<exists>t' db'. copy_sources E i ?p b (max_size_without_rehash b) ss t1 db1 = (Inr t', db')"
    using Cons.prems(4,5)
    by (intro Cons.IH[OF _ t1(1,2)]) (simp_all add: src t1(3), simp_all add: source_bag_def bag add.assoc)
  then show ?case using op copy by simp
qed

section \<open>The phases\<close>

lemma try_remove_calm: "\<not> fails E (ticks d) \<Longrightarrow> lookup_file (try_remove E n d) n = None"
  by (simp add: try_remove_def remove_file_def)

lemma sync_mapped_calm: "\<forall>n. \<not> fails E n \<Longrightarrow> refusal (fst (sync_mapped_region E len d)) = None"
  by (simp add: sync_mapped_region_def refusal_def)

lemma sync_file_calm:
  "\<forall>n. \<not> fails E n \<Longrightarrow> lookup_file d path \<noteq> None \<Longrightarrow> refusal (fst (sync_file E path d)) = None"
  by (auto simp: sync_file_def refusal_def)

lemma sync_directory_calm: "\<forall>n. \<not> fails E n \<Longrightarrow> refusal (fst (sync_directory E d)) = None"
  by (simp add: sync_directory_def refusal_def)

lemma create_segment_calm:
  "\<not> fails E (ticks d) \<Longrightarrow> lookup_file d path = None \<Longrightarrow> \<exists>d'. create_segment E path sz d = (True, d')"
  by (simp add: create_segment_def)

lemma fill_segment_calm:
  assumes construct: "\<And>n b. \<exists>b' l. on_construct E n b = Constructed b' l \<and> Q b b'"
    and c: "create_segment E path sz d = (True, d1)"
  obtains d2 b l d3 d4 where "place_stamp E path x d1 = (Inr (), d2)"
    "construct_map E path n d2 = (Constructed b l, d3)" "Q n b" "construct_marker E path m d3 = (True, d4)"
proof -
  obtain s1 where s1: "lookup_file d1 path = Some (Segment s1)" "s1 = new_segment sz"
    using create_segment_ok[OF c] by blast
  obtain b1 l1 where k1: "on_construct E (ticks d1) 0 = Constructed b1 l1" using construct by blast
  obtain d2 where p: "place_stamp E path x d1 = (Inr (), d2)"
    using s1 k1 by (simp add: place_stamp_def new_segment_def)
  then obtain s2 where s2: "lookup_file d2 path = Some (Segment s2)" "seg_map s2 = None" "seg_marker s2 = None"
    using place_stamp_ok[OF p] s1 by (auto simp: new_segment_def)
  obtain b l where k2: "on_construct E (ticks d2) n = Constructed b l" "Q n b" using construct by blast
  then obtain d3 where k: "construct_map E path n d2 = (Constructed b l, d3)"
    using s2 by (simp add: construct_map_def)
  then obtain s3 where s3: "lookup_file d3 path = Some (Segment s3)" "seg_marker s3 = None"
    using construct_map_ok[OF k] s2 by auto
  obtain b3 l3 where k3: "on_construct E (ticks d3) 0 = Constructed b3 l3" using construct by blast
  then obtain d4 where "construct_marker E path m d3 = (True, d4)"
    using s3 by (simp add: construct_marker_def)
  then show ?thesis using that p k k2(2) by blast
qed

lemma build_target_completes:
  assumes u: "unhindered E db i sources" and d: "source_bag d i sources = source_bag (db_disk db) i sources"
    and gens: "\<forall>v \<in> set sources. generation_ok E (db_database_id db) d i v"
  shows "\<exists>db'. build_target E i t m sources (db\<lparr>db_disk := d\<rparr>) = (Inr (), db')"
proof -
  let ?p = "building_path i t" and ?sz = "ce_file_size (db_capacity db i)" and ?bag = "source_bag d i sources"
  note calm = allI[of "\<lambda>n. \<not> fails E n", OF unhinderedD(1)[OF u]]
  let ?d0 = "try_remove E ?p d"
  obtain d1 where c: "create_segment E ?p ?sz ?d0 = (True, d1)"
    using create_segment_calm[OF _ try_remove_calm] calm by blast
  have construct: "\<exists>b' l. on_construct E n b = Constructed b' l
      \<and> (b = capacity_for db i \<longrightarrow> size ?bag \<le> unat (max_size_without_rehash b'))" for n b
    using unhinderedD(4)[OF u, of n b] by (simp add: d)
  obtain d2 b l d3 d4 where steps: "place_stamp E ?p (expected_identity E db i t) d1 = (Inr (), d2)"
    "construct_map E ?p (capacity_for db i) d2 = (Constructed b l, d3)"
    "size ?bag \<le> unat (max_size_without_rehash b)" "construct_marker E ?p m d3 = (True, d4)"
    by (rule fill_segment_calm[OF construct c]) blast
  have before: "touches {?p} d d4"
    using try_remove_touches[where E = E and d = d, of ?p "{?p}"] create_segment_touches[OF c singletonI]
      place_stamp_touches[OF steps(1) singletonI] construct_map_touches[OF steps(2) singletonI]
      construct_marker_touches[OF steps(4) singletonI]
    by (blast intro: touches_trans)
  have bag4: "source_bag d4 i sources = ?bag" by (rule source_bag_touches[OF before]) simp
  have gens4: "\<forall>v \<in> set sources. generation_ok E (db_database_id db) d4 i v"
    using gens touches_lookup[OF before] by (simp add: generation_ok_def)
  let ?db4 = "db\<lparr>db_disk := d4\<rparr>"
  have "\<exists>t' db5. copy_sources E i ?p b (max_size_without_rehash b) sources (tbl_empty b l) ?db4 = (Inr t', db5)"
  proof (rule copy_sources_completes[OF unhinderedD(5)[OF u] calm])
    show "keys_once (tbl_bag (tbl_empty b l) + source_bag (db_disk ?db4) i sources)"
      using unhinderedD(6)[OF u] by (simp add: bag4 d)
    show "size (tbl_bag (tbl_empty b l) + source_bag (db_disk ?db4) i sources)
        \<le> unat (max_size_without_rehash b)" using steps(3) by (simp add: bag4)
  qed (use gens4 tbl_ok_empty in \<open>simp_all add: tbl_empty_def\<close>)
  then obtain t' db5 where copy: "copy_sources E i ?p b (max_size_without_rehash b) sources (tbl_empty b l) ?db4
      = (Inr t', db5)" by blast
  obtain x d5 where s: "sync_mapped_region E ?sz (db_disk db5) = (x, d5)" by fastforce
  have cap: "capacity_for (db\<lparr>db_disk := d\<rparr>) i = capacity_for db i"
    "expected_identity E (db\<lparr>db_disk := d\<rparr>) i t = expected_identity E db i t"
    by (simp_all add: capacity_for_def expected_identity_def)
  have "refusal x = None" using sync_mapped_calm[OF calm, of ?sz "db_disk db5"] by (simp add: s)
  then show ?thesis using c steps copy s by (simp add: build_target_def Let_def cap)
qed

lemma write_stream_calm:
  assumes "\<forall>n. \<not> fails E n" "lookup_file d path \<noteq> Some Special"
  shows "\<exists>d'. write_stream E path bs d = (Stream_written, d') \<and> lookup_file d' path = Some (Plain bs)
    \<and> (\<forall>n. n \<noteq> path \<longrightarrow> lookup_file d' n = lookup_file d n)"
  using assms by (simp add: write_stream_def Let_def)

lemma write_merge_sidecar_calm:
  assumes calm: "\<forall>n. \<not> fails E n" and "lookup_file d (tmp_path path) \<noteq> Some Special"
    and "lookup_file d path = None" "tmp_path path \<noteq> path"
  shows "\<exists>d'. write_merge_sidecar E path plan d = (Inr \<lparr>named = True, durable = True\<rparr>, d')
    \<and> (\<forall>n. n \<notin> {path, tmp_path path} \<longrightarrow> lookup_file d' n = lookup_file d n)"
proof -
  let ?bs = "encode_merge_plan plan"
  obtain d1 where w: "write_stream E (tmp_path path) ?bs d = (Stream_written, d1)"
    and l1: "lookup_file d1 (tmp_path path) = Some (Plain ?bs)"
    and f1: "\<And>n. n \<noteq> tmp_path path \<Longrightarrow> lookup_file d1 n = lookup_file d n"
    using write_stream_calm[OF assms(1,2), of ?bs] by blast
  obtain x d2 where s: "sync_file E (tmp_path path) d1 = (x, d2)" by fastforce
  have x: "refusal x = None" using sync_file_calm[OF calm, of d1 "tmp_path path"] l1 s by simp
  have l2: "lookup_file d2 n = lookup_file d1 n" for n by (rule same_disk_lookup[OF sync_file_same[OF s]])
  obtain u d3 where r: "replace_file_atomically E (tmp_path path) path d2 = (Inr u, d3)"
    using calm l1 l2 f1[of path] assms(3,4) by (simp add: replace_file_atomically_def)
  have t: "touches {path, tmp_path path} d2 d3" by (rule replace_file_touches[OF r]) simp_all
  obtain y d4 where y: "sync_directory E d3 = (y, d4)" by fastforce
  have "refusal y = None" using sync_directory_calm[OF calm, of d3] y by simp
  moreover have "lookup_file d4 n = lookup_file d n" if "n \<notin> {path, tmp_path path}" for n
    using same_disk_lookup[OF sync_directory_same[OF y]] touches_lookup[OF t that] l2 f1 that by simp
  ultimately show ?thesis using w s x r y by (simp add: write_merge_sidecar_def Let_def)
qed

lemma publish_target_completes:
  assumes calm: "\<forall>n. \<not> fails E n"
    and built: "lookup_file (db_disk db) (building_path (mp_container p) (mp_target p)) = Some f"
      "merged_target b dbid p s0 f"
    and free: "lookup_file (db_disk db) (data_path (mp_container p) (mp_target p)) = None"
      "lookup_file (db_disk db) (sidecar_path (mp_container p) (mp_target p)) = None"
      "lookup_file (db_disk db) (tmp_path (sidecar_path (mp_container p) (mp_target p))) \<noteq> Some Special"
  shows "\<exists>db'. publish_target E p db = (Inr (), db')"
proof -
  let ?i = "mp_container p" and ?t = "mp_target p"
  let ?b = "building_path ?i ?t" and ?c = "sidecar_path ?i ?t"
  obtain x d1 where s: "sync_file E ?b (db_disk db) = (x, d1)" by fastforce
  have x: "refusal x = None" using sync_file_calm[OF calm, of "db_disk db" ?b] built s by simp
  have l1: "lookup_file d1 n = lookup_file (db_disk db) n" for n by (rule same_disk_lookup[OF sync_file_same[OF s]])
  obtain d2 where w: "write_merge_sidecar E ?c p d1 = (Inr \<lparr>named = True, durable = True\<rparr>, d2)"
    and l2: "\<And>n. n \<notin> {?c, tmp_path ?c} \<Longrightarrow> lookup_file d2 n = lookup_file d1 n"
    using write_merge_sidecar_calm[OF calm, of d1 ?c p] free l1 by auto
  obtain u d3 where pub: "publish_new_file E ?b (data_path ?i ?t) d2 = (Inr u, d3)"
    and l3: "lookup_file d3 (data_path ?i ?t) = Some f"
    using calm built free l1 l2 by (simp add: publish_new_file_def Let_def try_remove_def remove_file_def)
  obtain y d4 where y: "sync_directory E d3 = (y, d4)" by fastforce
  have y': "refusal y = None" using sync_directory_calm[OF calm, of d3] y by simp
  obtain z d5 where z: "read_target_marker E ?i ?t d4 = (z, d5)" by fastforce
  have "lookup_file d4 (data_path ?i ?t) = Some f"
    using l3 same_disk_lookup[OF sync_directory_same[OF y]] by simp
  then have "z = Inr (mp_id p)" using read_target_marker_merged(2)[OF _ built(2) z calm] by simp
  then show ?thesis using s x w pub y y' z by (simp add: publish_target_def Let_def)
qed

lemma remove_all_names_calm: "\<forall>n. \<not> fails E n \<Longrightarrow> fst (remove_all_names E ns d)"
  by (induction ns arbitrary: d) (simp_all add: remove_file_def case_prod_beta)

lemma retire_sources_completes:
  assumes calm: "\<forall>n. \<not> fails E n"
  shows "\<exists>db'. retire_sources E p db = (Inr (), db')"
proof -
  obtain ok d1 where s1: "remove_all_names E (source_names (mp_container p) (mp_sources p)) (db_disk db) = (ok, d1)"
    by fastforce
  have ok using remove_all_names_calm[OF calm] s1 by (metis fst_conv)
  moreover obtain x d2 where s2: "sync_directory E d1 = (x, d2)" by fastforce
  moreover have "refusal x = None" using sync_directory_calm[OF calm, of d1] s2 by simp
  moreover obtain d3 where "remove_file E (sidecar_path (mp_container p) (mp_target p)) d2 = (Inr (), d3)"
    using calm by (simp add: remove_file_def)
  ultimately show ?thesis using s1 by (simp add: retire_sources_def Let_def)
qed

section \<open>The whole merge\<close>

lemma draw_merge_id_calm:
  assumes "\<And>n. \<exists>bs. entropy E n = Some bs \<and> fst (get64 bs) \<noteq> 0"
  shows "\<exists>m. draw_merge_id E d = (Inr m, tick (tick d))"
  using assms[of "ticks d"] assms[of "ticks d + 1"]
  by (auto simp: draw_merge_id_def generate_merge_id_def marker_empty_def)

lemma merge_versions_completes:
  assumes ready: "mergeable E db i sources" and u: "unhindered E db i sources"
  shows "\<exists>db'. merge_versions E height_of i sources db = (Inr (), db')"
proof (cases "length sources < 2")
  case True
  then show ?thesis by (simp add: merge_versions_def)
next
  case False
  let ?t = "next_version (db_catalogs db i)"
  note calm = allI[of "\<lambda>n. \<not> fails E n", OF unhinderedD(1)[OF u]] and free = unhinderedD(7,8)[OF u]
  obtain d1 where s1: "path_exists E (data_path i ?t) (db_disk db) = (Inr False, d1)"
    using calm free(1) by (simp add: path_exists_def)
  obtain d2 where s2: "remove_file E (metadata_path i ?t) d1 = (Inr (), d2)"
    using calm by (simp add: remove_file_def)
  have room: "\<not> (case space_available E (ticks d2) of
      None \<Rightarrow> False | Some n \<Rightarrow> n < ce_file_size (db_capacity db i))"
    using unhinderedD(2)[OF u, of "ticks d2"] by (auto simp: not_less split: option.splits)
  obtain m d3 where s3: "draw_merge_id E (tick d2) = (Inr m, d3)"
    using draw_merge_id_calm[of E "tick d2"] unhinderedD(3)[OF u] by blast
  have "same_disk d2 d3" using s3 by (auto simp: draw_merge_id_def)
  then have l3: "lookup_file d3 n = lookup_file (db_disk db) n" if "n \<noteq> metadata_path i ?t" for n
    using that remove_file_lookup[OF s2] same_disk_lookup[OF path_exists_same[OF s1]] same_disk_lookup
    by metis
  have bag3: "source_bag d3 i sources = source_bag (db_disk db) i sources"
    unfolding source_bag_def using generation_bag_cong[OF l3]
    by (intro arg_cong[where f = sum_list] map_cong) simp_all
  have gens3: "\<forall>v \<in> set sources. generation_ok E (db_database_id db) d3 i v"
    using ready l3 by (auto simp: mergeable_def container_inv_def generation_ok_def)
  obtain db4 where s4: "build_target E i ?t m sources (db\<lparr>db_disk := d3\<rparr>) = (Inr (), db4)"
    using build_target_completes[OF u bag3 gens3] by blast
  have t4: "touches {building_path i ?t} d3 (db_disk db4)"
    using build_target_frame[OF s4] by (simp add: builds_def)
  have "creatable (db\<lparr>db_disk := d3\<rparr>) i" using ready by (simp add: mergeable_def creatable_def)
  from build_target_ok[OF s4 this] obtain g t where built:
    "lookup_file (db_disk db4) (building_path i ?t) = Some (Segment g)"
    "good_segment (local_build E) (db_database_id db) (kind_of_index i) ?t g t"
    "tbl_ok t" "tbl_bag t = source_bag d3 i sources" "seg_marker g = Some (1, m)" by auto
  let ?P = "plan_for db i sources m"
  have target: "merged_target (local_build E) (db_database_id db) ?P (files d3) (Segment g)"
    using built by (auto simp: merged_target_def source_bag_files)
  have "lookup_file (db_disk db4) n = lookup_file (db_disk db) n"
    if "n \<noteq> building_path i ?t" "n \<noteq> metadata_path i ?t" for n
    using touches_lookup[OF t4] l3 that by simp
  then have "lookup_file (db_disk db4) (data_path i ?t) = None"
    "lookup_file (db_disk db4) (sidecar_path i ?t) = None"
    "lookup_file (db_disk db4) (tmp_path (sidecar_path i ?t)) \<noteq> Some Special"
    using free ready by (simp_all add: mergeable_def)
  then obtain db5 where s5: "publish_target E ?P db4 = (Inr (), db5)"
    using publish_target_completes[OF calm _ target, of db4] built(1) by auto
  obtain db6 where s6: "retire_sources E ?P db5 = (Inr (), db6)"
    using retire_sources_completes[OF calm] by blast
  show ?thesis
    using False s1 s2 room s3 s4 s5 s6 by (simp add: merge_versions_def Let_def plan_for_def)
qed

text \<open>
  C8: a merge gets done. If no call of the system fails, there is room for a file, no key is in two
  of the sources, a map built for the container takes that many entries below its growth point
  without growing, and the names the merge uses are free, then the merge returns: it neither stops
  at a duplicate nor asks for recovery.
\<close>

theorem merge_completes:
  assumes "mergeable E db i sources" and "unhindered E db i sources"
  shows "\<exists>db'. merge_versions E height_of i sources db = (Inr (), db')"
  by (rule merge_versions_completes[OF assms])

end
