(* ===== verification/Merge_Examples.thy ===== *)
theory Merge_Examples
  imports Merge_Progress
begin

text \<open>
  Concrete merges: the store of two generations of \<open>Walk_Facts\<close> is merged in a system that does
  not fail, cut off and recovered, and compacted.
\<close>

abbreviation example_store :: "reference_value database" where
  "example_store \<equiv> layered_store Reference_mode example_entry"

lemma layered_disk: "db_disk (layered_store m a) = disk_of (layered_files m a)"
  by (simp add: layered_store_def example_db_def)

lemma layered_capacity: "db_capacity (layered_store m a) i = testing_reference"
  by (simp add: layered_store_def example_db_def)

lemma layered_next: "next_version (db_catalogs (layered_store m a) i) = 2"
  by (simp add: next_version_def)

lemma layered_names: "n \<in> fst ` set (layered_files m a) \<Longrightarrow> n = config_path \<or> (\<exists>j v. n = data_path j v \<and> v \<in> {0, 1})"
  by (auto simp: layered_files_def)

lemma layered_none:
  "n \<notin> fst ` set (layered_files m a) \<Longrightarrow> lookup_file (db_disk (layered_store m a)) n = None"
  by (simp add: layered_disk map_of_eq_None_iff)

lemma layered_distinct: "distinct (map fst (layered_files m a))"
proof -
  have "distinct (map fst (concat (map (\<lambda>i. map (\<lambda>v. (data_path i v, h i v)) [0, 1]) is)))"
    if "distinct is" for "is" :: "u64 list" and h :: "u64 \<Rightarrow> u64 \<Rightarrow> 'a disk_file"
    using that by (induction "is") auto
  from this[OF distinct_indices] show ?thesis by (auto simp: layered_files_def)
qed

lemma layered_mergeable:
  assumes "i \<in> set (indices_of m)"
  shows "mergeable calm_env (layered_store m a) i [0, 1]"
proof -
  have "container_inv calm_env (layered_store m a) i"
    using layered_store_inv[of m a] assms by (auto simp: store_inv_def serving_def)
  moreover have "lookup_file (db_disk (layered_store m a)) (sidecar_path i v) = None" for v
    by (rule layered_none) (auto dest!: layered_names)
  ultimately show ?thesis
    by (simp add: mergeable_def creatable_def layered_capacity testing_reference_def
        smallest_configured_file_def file_sizes_def test_file_sizes_def mib_def gib_def
        reference_file_size_def reference_test_file_size_def)
qed

lemma example_index: "reference_sentinel_index \<in> set (indices_of Reference_mode)"
  by (simp add: indices_of_def)

lemma example_ready: "crash_ready calm_env example_store reference_sentinel_index [0, 1]"
  using layered_mergeable[OF example_index, of example_entry] layered_distinct layered_none
  by (auto simp: crash_ready_def no_records_def layered_disk indices_of_def dest!: layered_names
      simp: map_of_eq_None_iff)

lemma example_bag: "source_bag (db_disk (layered_store m a)) (hd (indices_of m)) [0, 1]
    = {#(old_key, a), (new_key, a)#}"
proof -
  have i: "hd (indices_of m) \<in> set (indices_of m)" by (cases m) (simp_all add: indices_of_def full_indices_def)
  have "tbl_bag (layered_table m a (hd (indices_of m)) v) = {#(if v = 0 then old_key else new_key, a)#}" for v
    by (simp add: layered_table_def tbl_bag_def tbl_add_def tbl_empty_def)
  then have "generation_bag (db_disk (layered_store m a)) (hd (indices_of m)) v
      = {#(if v = 0 then old_key else new_key, a)#}" if "v = 0 \<or> v = 1" for v
    unfolding generation_bag_def layered_generation(2)[OF i that] by simp
  then show ?thesis by (simp add: source_bag_def)
qed

lemma example_unhindered: "unhindered calm_env example_store reference_sentinel_index [0, 1]"
proof -
  have bag: "source_bag (db_disk example_store) reference_sentinel_index [0, 1]
      = {#(old_key, example_entry), (new_key, example_entry)#}"
    using example_bag[of Reference_mode example_entry] by (simp add: indices_of_def)
  have free: "lookup_file (db_disk example_store) (data_path reference_sentinel_index 2) = None"
    "lookup_file (db_disk example_store) (tmp_path (sidecar_path reference_sentinel_index 2)) = None"
    by (rule layered_none, auto dest!: layered_names)+
  have eight: "replicate 16 (1 :: u8) = [1, 1, 1, 1, 1, 1, 1, 1] @ replicate 8 1"
    by (simp add: numeral_eq_Suc)
  have draws: "fst (get64 (replicate 16 1)) \<noteq> 0" unfolding eight by (simp add: get64_def)
  show ?thesis
    unfolding unhindered_def bag layered_next
    using free draws
    by (simp add: keys_once_def capacity_for_def layered_capacity testing_reference_def max_size_without_rehash_def)
qed

text \<open>A crash in the middle of a merge: some directory was left behind, and it was the target's.\<close>

lemma merge_leaves_directories:
  assumes ready: "mergeable E db i sources" and two: "2 \<le> length sources"
    and run: "merge_versions E height_of i sources db = (Inr (), db')"
  obtains new s where "trail (db_disk db') = new @ trail (db_disk db)" "s \<in> set new" "s = files (db_disk db')"
proof -
  let ?t = "next_version (db_catalogs db i)"
  from merge_versions_spec[OF ready run] two obtain m where
    w: "merge_within E db (plan_for db i sources m) (db_disk db')"
    and none: "lookup_file (db_disk db) (data_path i ?t) = None"
    and ret: "retired (local_build E) (db_database_id db) (plan_for db i sources m) (files (db_disk db)) (files (db_disk db'))"
    by auto
  from w obtain new where new: "trail (db_disk db') = new @ trail (db_disk db)"
    "files (db_disk db') = hd (new @ [files (db_disk db)])"
    by (auto simp: within_def visits_def)
  have "files (db_disk db') \<noteq> files (db_disk db)"
    using ret none by (auto simp: retired_def lookup_file_def)
  then have "files (db_disk db') \<in> set new" using new(2) by (cases new) auto
  then show ?thesis using that new(1) by blast
qed

theorem merge_completes_witness:
  "\<exists>db'. merge_versions calm_env rv_height reference_sentinel_index [0, 1] example_store = (Inr (), db')"
  by (rule merge_completes[OF layered_mergeable[OF example_index] example_unhindered])

theorem merge_versions_correct_witness:
  "\<exists>db'. merge_versions calm_env rv_height reference_sentinel_index [0, 1] example_store = (Inr (), db')
     \<and> set (vc_versions (db_catalogs db' reference_sentinel_index)) = {2}
     \<and> contents db' reference_sentinel_index = contents example_store reference_sentinel_index"
proof -
  obtain db' where run: "merge_versions calm_env rv_height reference_sentinel_index [0, 1] example_store = (Inr (), db')"
    using merge_versions_completes[OF layered_mergeable[OF example_index] example_unhindered] by blast
  from merge_versions_correct[OF layered_mergeable[OF example_index] run] show ?thesis
    using run by (simp add: merge_effect_def next_version_def)
qed

theorem merge_survives_crashes_witness:
  "\<exists>db' new s r1 d1. merge_versions calm_env rv_height reference_sentinel_index [0, 1] example_store = (Inr (), db')
     \<and> trail (db_disk db') = new @ trail (db_disk example_store) \<and> s \<in> set new
     \<and> recover_pending_merges calm_env Reference_mode (disk_of s) = (r1, d1) \<and> r1 = Inr ()
     \<and> (\<forall>j. stored_at (files d1) j = stored_at (files (db_disk example_store)) j)"
proof -
  obtain db' where run: "merge_versions calm_env rv_height reference_sentinel_index [0, 1] example_store = (Inr (), db')"
    using merge_versions_completes[OF layered_mergeable[OF example_index] example_unhindered] by blast
  obtain new s where crash: "trail (db_disk db') = new @ trail (db_disk example_store)" "s \<in> set new"
    by (rule merge_leaves_directories[OF layered_mergeable[OF example_index] _ run]) simp
  obtain r1 d1 where rec: "recover_pending_merges calm_env (db_mode example_store) (disk_of s) = (r1, d1)" by fastforce
  from merge_survives_crashes[OF example_ready run crash rec] have "r1 = Inr ()"
    "\<forall>j. stored_at (files d1) j = stored_at (files (db_disk example_store)) j" by simp_all
  then show ?thesis using run crash rec by auto
qed

theorem compact_container_correct_witness:
  "\<exists>r db'. compact_container calm_env rv_height reference_sentinel_index example_store = (r, db')
     \<and> contents db' 0 = contents example_store 0
     \<and> (r = Inr () \<longrightarrow> \<not> db_cleanup_pending db')"
proof -
  have srv: "serving calm_env example_store reference_sentinel_index"
    using layered_store_inv[of Reference_mode example_entry] by (simp add: store_inv_def indices_of_def)
  have c: "compactable calm_env example_store reference_sentinel_index
      (length (vc_versions (db_catalogs example_store reference_sentinel_index)))"
    using layered_mergeable[OF example_index, of example_entry]
    by (simp add: compactable_def mergeable_def) (simp add: layered_store_def example_db_def)
  obtain r db' where run: "compact_container calm_env rv_height reference_sentinel_index example_store = (r, db')"
    by fastforce
  have "(0 :: u64) \<noteq> reference_sentinel_index" by (simp add: reference_sentinel_index_def)
  with compact_container_correct[OF srv c run] run show ?thesis by blast
qed

end
