(* ===== verification/Uniqueness.thy ===== *)
theory Uniqueness
  imports Containers Arithmetic "HOL-Library.Product_Lexorder"
begin

text \<open>
  Models \<open>src/uniqueness.cpp\<close> with the types of \<open>src/detail/distinct_keys.hpp\<close> and
  \<open>src/include/utxoz/uniqueness.hpp\<close>: the walk over every stored entry, the planning pass that
  splits the keys into partition groups that fit the budget, one data pass per group, and the
  report built from what the passes see. Every allocation goes through the budget meter; the sizes
  of the vectors' elements and what a vector can hold are those of the certified LP64 targets, and
  a vector that is reserved once holds exactly what was asked for. That the heap itself runs out
  while the budget does not is not modelled. The two reports as text are not modelled.
\<close>

section \<open>Sizes\<close>

definition size_of_stored_copy :: u64 where "size_of_stored_copy = 56"
definition size_of_partition_group :: u64 where "size_of_partition_group = 24"
definition size_of_sampled_finding :: u64 where "size_of_sampled_finding = 72"
definition size_of_duplicate_location :: u64 where "size_of_duplicate_location = 16"
definition size_of_duplicate_finding :: u64 where "size_of_duplicate_finding = 80"

lemmas element_sizes = size_of_stored_copy_def size_of_partition_group_def size_of_sampled_finding_def
  size_of_duplicate_location_def size_of_duplicate_finding_def

definition vector_max_size :: "u64 \<Rightarrow> u64" where
  "vector_max_size element_size = 0x7FFFFFFFFFFFFFFF div element_size"

text \<open>\<open>reserve\<close> and \<open>assign\<close> on an empty counted vector, and its destructor.\<close>

definition reserve :: "u64 \<Rightarrow> u64 \<Rightarrow> budget_meter \<Rightarrow> bool \<times> budget_meter" where
  "reserve n element_size m =
    (if n = 0 then (True, m)
     else (case allocate True n element_size m of
             (None, m) \<Rightarrow> (False, m)
           | (Some _, m) \<Rightarrow> (True, m)))"

definition elapsed_ms :: "'v env \<Rightarrow> 'v disk \<Rightarrow> 'v disk \<Rightarrow> u64" where
  "elapsed_ms E started now = word_of_nat (clock E (ticks now) - clock E (ticks started))"

section \<open>Visiting every entry\<close>

definition reference_walk_class :: u32 where "reference_walk_class = 0"

definition walk_class :: "u64 \<Rightarrow> u32" where
  "walk_class i = (if i = reference_sentinel_index then reference_walk_class else ucast i)"

type_synonym 's entry_fn = "raw_outpoint \<Rightarrow> u32 \<Rightarrow> u64 \<Rightarrow> bool \<Rightarrow> 's \<Rightarrow> 's"

definition visit_map :: "'s entry_fn \<Rightarrow> u64 \<Rightarrow> u64 \<Rightarrow> bool \<Rightarrow> 'v flat_map \<Rightarrow> 's \<Rightarrow> 's" where
  "visit_map fn i version active t = fold (\<lambda>(key, _). fn key (walk_class i) version active) (tbl_entries t)"

fun visit_versions ::
  "'v env \<Rightarrow> 's entry_fn \<Rightarrow> 'v database \<Rightarrow> u64 \<Rightarrow> u64 list \<Rightarrow> u64 \<Rightarrow> 's \<Rightarrow> 'v disk
   \<Rightarrow> unit result \<times> u64 \<times> 's \<times> 'v disk" where
  "visit_versions E fn db i [] seen s d = (Inr (), seen, s, d)"
| "visit_versions E fn db i (version # rest) seen s d =
    (let active = (version = db_current_versions db i); seen = seen + 1
     in if active \<and> db_mapped db i
        then visit_versions E fn db i rest seen (visit_map fn i version active (container db i) s) d
        else
         (case open_checked E (db_database_id db) (kind_of_index i) (data_path i version) version d of
            (Inl e, d) \<Rightarrow> (Inl e, seen, s, d)
          | (Inr t, d) \<Rightarrow> visit_versions E fn db i rest seen (visit_map fn i version active t s) d))"

fun visit_containers ::
  "'v env \<Rightarrow> 's entry_fn \<Rightarrow> 'v database \<Rightarrow> u64 list \<Rightarrow> u64 \<Rightarrow> 's \<Rightarrow> 'v disk
   \<Rightarrow> unit result \<times> u64 \<times> 's \<times> 'v disk" where
  "visit_containers E fn db [] seen s d = (Inr (), seen, s, d)"
| "visit_containers E fn db (i # is) seen s d =
    (case visit_versions E fn db i (vc_versions (db_catalogs db i)) seen s d of
       (Inl e, seen, s, d) \<Rightarrow> (Inl e, seen, s, d)
     | (Inr _, seen, s, d) \<Rightarrow> visit_containers E fn db is seen s d)"

definition visit_stored_entries ::
  "'v env \<Rightarrow> 's entry_fn \<Rightarrow> 'v database \<Rightarrow> 's \<Rightarrow> 'v disk \<Rightarrow> unit result \<times> u64 \<times> 's \<times> 'v disk" where
  "visit_stored_entries E fn db s d = visit_containers E fn db (indices_of (db_mode db)) 0 s d"

section \<open>Planning\<close>

definition prefix_of_key :: "raw_outpoint \<Rightarrow> u64" where
  "prefix_of_key key = prefix_of (partition_hash key) planning_prefix_bits"

definition count_entry :: "(u64 list \<times> u64) entry_fn" where
  "count_entry key klass version active =
     (\<lambda>(counts, physical_entries).
        (let p = unat (prefix_of_key key)
         in (counts[p := counts ! p + 1], physical_entries + 1)))"

record partition_group =
  pg_first :: u64
  pg_last :: u64
  pg_records :: u64

definition plan_step ::
  "u64 list \<Rightarrow> u64 \<Rightarrow> nat \<Rightarrow> partition_group option \<times> partition_group list
   \<Rightarrow> partition_group option \<times> partition_group list" where
  "plan_step counts records_per_pass p = (\<lambda>(open, groups).
    (let prefix = word_of_nat p; here = counts ! p
     in if here = 0 \<and> open = None then (open, groups)
        else
         (case (case open of
                  Some current \<Rightarrow>
                    if pg_records current + here > records_per_pass
                    then (None, groups @ [current]) else (open, groups)
                | None \<Rightarrow> (open, groups)) of (open, groups) \<Rightarrow>
           (let current = (case open of
                  None \<Rightarrow> \<lparr>pg_first = prefix, pg_last = prefix, pg_records = 0\<rparr>
                | Some current \<Rightarrow> current)
            in (Some (current\<lparr>pg_last := prefix, pg_records := pg_records current + here\<rparr>), groups)))))"

definition plan_groups :: "u64 list \<Rightarrow> u64 \<Rightarrow> partition_group list" where
  "plan_groups counts records_per_pass =
    (case fold (plan_step counts records_per_pass) [0..<planning_prefixes] (None, []) of
       (None, groups) \<Rightarrow> groups
     | (Some current, groups) \<Rightarrow> groups @ [current])"

section \<open>Collecting the records of a group\<close>

record stored_copy =
  sc_generation :: u64
  sc_key :: raw_outpoint
  sc_container_class :: u32
  sc_active :: bool

text \<open>
  A counted vector of records: what it holds, what it has room for, and whether an allocation has
  thrown \<open>budget_exceeded\<close>, after which the pass is over.
\<close>

record counted_records =
  held :: "stored_copy list"
  room :: u64
  thrown :: bool

definition push_record ::
  "stored_copy \<Rightarrow> counted_records \<times> budget_meter \<Rightarrow> counted_records \<times> budget_meter" where
  "push_record c = (\<lambda>(r, m).
    (if word_of_nat (length (held r)) < room r then (r\<lparr>held := held r @ [c]\<rparr>, m)
     else
      (let n = (if room r = 0 then 1 else 2 * room r)
       in case allocate True n size_of_stored_copy m of
            (None, m) \<Rightarrow> (r\<lparr>thrown := True\<rparr>, m)
          | (Some _, m) \<Rightarrow>
              (r\<lparr>held := held r @ [c], room := n\<rparr>, deallocate (room r) size_of_stored_copy m))))"

definition collect_entry :: "partition_group \<Rightarrow> (u64 \<times> counted_records \<times> budget_meter) entry_fn" where
  "collect_entry grp key klass version active = (\<lambda>(seen, r, m).
    (if thrown r then (seen, r, m)
     else
      (let prefix = prefix_of_key key
       in if prefix < pg_first grp \<or> prefix > pg_last grp then (seen + 1, r, m)
          else (seen + 1, push_record \<lparr>sc_generation = version, sc_key = key,
                  sc_container_class = klass, sc_active = active\<rparr> (r, m)))))"

text \<open>The order of the sort: the key byte by byte, then the class, then the generation.\<close>

definition sort_records :: "stored_copy list \<Rightarrow> stored_copy list" where
  "sort_records = sort_key (\<lambda>c. (sc_key c, sc_container_class c, sc_generation c))"

function report_runs ::
  "(u64 \<Rightarrow> 's \<Rightarrow> 's) \<Rightarrow> (stored_copy list \<Rightarrow> 's \<Rightarrow> 's) option \<Rightarrow> stored_copy list \<Rightarrow> 's \<Rightarrow> 's" where
  "report_runs on_distinct on_group [] s = s"
| "report_runs on_distinct on_group (c # cs) s =
    (let run = c # takeWhile (\<lambda>x. sc_key x = sc_key c) cs;
         multiplicity = word_of_nat (length run);
         s = on_distinct multiplicity s;
         s = (case on_group of
                Some report \<Rightarrow> if multiplicity > 1 then report run s else s
              | None \<Rightarrow> s)
     in report_runs on_distinct on_group (dropWhile (\<lambda>x. sc_key x = sc_key c) cs) s)"
  by pat_completeness auto
termination
  by (relation "measure (\<lambda>(_, _, cs, _). length cs)") (auto simp: length_dropWhile_le le_imp_less_Suc)

section \<open>The walk over distinct keys\<close>

record budget_report =
  br_memory_budget :: u64
  br_record_bytes :: u64
  br_record_capacity :: u64
  br_fixed_overhead :: u64
  br_headroom :: u64
  br_estimated_peak :: u64
  br_planning_passes :: u64
  br_data_passes :: u64
  br_partitions :: u64
  br_entries_examined_total :: u64
  br_generations_visited :: u64
  br_duration_ms :: u64
  br_duration_per_pass_ms :: "u64 list"

definition empty_budget_report :: budget_report where
  "empty_budget_report = \<lparr>br_memory_budget = 0, br_record_bytes = 0, br_record_capacity = 0,
     br_fixed_overhead = 0, br_headroom = 0, br_estimated_peak = 0, br_planning_passes = 0,
     br_data_passes = 0, br_partitions = 0, br_entries_examined_total = 0, br_generations_visited = 0,
     br_duration_ms = 0, br_duration_per_pass_ms = []\<rparr>"

record distinct_walk_options =
  wo_memory_budget :: u64
  wo_max_data_passes :: u64

text \<open>One data pass: collect the records of a group, sort them, report its runs.\<close>

definition data_pass ::
  "'v env \<Rightarrow> (u64 \<Rightarrow> 's \<Rightarrow> 's) \<Rightarrow> (stored_copy list \<Rightarrow> 's \<Rightarrow> 's) option \<Rightarrow> 'v database
   \<Rightarrow> partition_group \<Rightarrow> budget_report \<times> 's \<times> budget_meter \<times> 'v disk
   \<Rightarrow> unit result \<times> budget_report \<times> 's \<times> budget_meter \<times> 'v disk" where
  "data_pass E on_distinct on_group db grp = (\<lambda>(report, s, meter, d0).
    (if \<not> count_fits_platform (pg_records grp)
        \<or> pg_records grp > vector_max_size size_of_stored_copy
     then (Inl Insufficient_space, report, s, meter, d0)
     else
      (case reserve (pg_records grp) size_of_stored_copy meter of
         (False, meter) \<Rightarrow> (Inl Insufficient_space, report, s, meter, d0)
       | (True, meter) \<Rightarrow>
         (let report = report\<lparr>br_record_capacity := max (br_record_capacity report) (pg_records grp)\<rparr>
          in case visit_stored_entries E (collect_entry grp) db
                    (0, \<lparr>held = [], room = pg_records grp, thrown = False\<rparr>, meter) d0 of
               (visited, seen_files, (seen, records, meter), d) \<Rightarrow>
               (let freed = deallocate (room records) size_of_stored_copy meter
                in if thrown records then (Inl Insufficient_space, report, s, freed, d)
                   else
                    (case visited of
                       Inl e \<Rightarrow> (Inl e, report, s, freed, d)
                     | Inr _ \<Rightarrow>
                        if word_of_nat (length (held records)) \<noteq> pg_records grp
                        then (Inl Entry_corrupt, report, s, freed, d)
                        else
                         (Inr (), report\<lparr>br_data_passes := br_data_passes report + 1,
                            br_generations_visited := br_generations_visited report + seen_files,
                            br_entries_examined_total := br_entries_examined_total report + seen,
                            br_duration_per_pass_ms := br_duration_per_pass_ms report @ [elapsed_ms E d0 d]\<rparr>,
                          report_runs on_distinct on_group (sort_records (held records)) s, freed, d)))))))"

fun data_passes ::
  "'v env \<Rightarrow> (u64 \<Rightarrow> 's \<Rightarrow> 's) \<Rightarrow> (stored_copy list \<Rightarrow> 's \<Rightarrow> 's) option \<Rightarrow> 'v database
   \<Rightarrow> partition_group list \<Rightarrow> budget_report \<times> 's \<times> budget_meter \<times> 'v disk
   \<Rightarrow> unit result \<times> budget_report \<times> 's \<times> budget_meter \<times> 'v disk" where
  "data_passes E on_distinct on_group db [] st = (Inr (), st)"
| "data_passes E on_distinct on_group db (grp # rest) st =
    (case data_pass E on_distinct on_group db grp st of
       (Inl e, st) \<Rightarrow> (Inl e, st)
     | (Inr _, st) \<Rightarrow> data_passes E on_distinct on_group db rest st)"

text \<open>\<open>finish\<close> is what the destructors of the counters and of the group list give back.\<close>

definition walk_distinct_keys ::
  "'v env \<Rightarrow> distinct_walk_options \<Rightarrow> (u64 \<Rightarrow> 's \<Rightarrow> 's) \<Rightarrow> (stored_copy list \<Rightarrow> 's \<Rightarrow> 's) option
   \<Rightarrow> 'v database \<Rightarrow> 's \<Rightarrow> budget_meter \<Rightarrow> 'v disk
   \<Rightarrow> budget_report result \<times> 's \<times> budget_meter \<times> 'v disk" where
  "walk_distinct_keys E options on_distinct on_group db s meter d0 =
    (let report = empty_budget_report\<lparr>br_record_bytes := size_of_stored_copy,
           br_memory_budget := wo_memory_budget options,
           br_headroom := headroom_of (wo_memory_budget options)\<rparr>;
         prefixes = word_of_nat planning_prefixes
     in case acquire sort_allowance meter of
          (False, meter) \<Rightarrow> (Inl Insufficient_space, s, meter, d0)
        | (True, meter) \<Rightarrow>
         (case reserve prefixes 8 meter of
            (False, meter) \<Rightarrow> (Inl Insufficient_space, s, meter, d0)
          | (True, meter) \<Rightarrow>
           (case visit_stored_entries E count_entry db (replicate planning_prefixes 0, 0) d0 of
              (Inl e, _, _, d) \<Rightarrow> (Inl e, s, deallocate prefixes 8 meter, d)
            | (Inr _, seen_files, (counts, physical_entries), d) \<Rightarrow>
              (let report = report\<lparr>br_planning_passes := 1, br_generations_visited := seen_files,
                     br_entries_examined_total := physical_entries,
                     br_duration_per_pass_ms := [elapsed_ms E d0 d]\<rparr>
               in case reserve prefixes size_of_partition_group meter of
                    (False, meter) \<Rightarrow> (Inl Insufficient_space, s, deallocate prefixes 8 meter, d)
                  | (True, meter) \<Rightarrow>
                   (let finish = (\<lambda>m. deallocate prefixes 8 (deallocate prefixes size_of_partition_group m));
                        report = report\<lparr>br_fixed_overhead := bm_outstanding meter\<rparr>;
                        records_budget = bm_ceiling meter - bm_outstanding meter;
                        records_per_pass = records_budget div size_of_stored_copy
                    in if records_per_pass = 0 then (Inl Insufficient_space, s, finish meter, d)
                       else
                        (let groups = plan_groups counts records_per_pass;
                             report = report\<lparr>br_partitions := word_of_nat (length groups)\<rparr>
                         in if br_partitions report > wo_max_data_passes options
                               \<or> \<not> list_all (\<lambda>g. fst (fits_in_budget (pg_records g) size_of_stored_copy
                                     (br_fixed_overhead report) (br_headroom report)
                                     (wo_memory_budget options))) groups
                            then (Inl Insufficient_space, s, finish meter, d)
                            else
                             (case data_passes E on_distinct on_group db groups (report, s, meter, d) of
                                (Inl e, report, s, meter, d) \<Rightarrow> (Inl e, s, finish meter, d)
                              | (Inr _, report, s, meter, d) \<Rightarrow>
                                  if bm_unbalanced meter then (Inl Insufficient_space, s, finish meter, d)
                                  else (Inr (report\<lparr>br_estimated_peak := bm_peak meter + br_headroom report,
                                             br_duration_ms := elapsed_ms E d0 d\<rparr>), s, finish meter, d))))))))"

section \<open>The verification\<close>

record duplicate_location =
  dl_generation :: u64
  dl_container_class :: u32
  dl_active :: bool

record duplicate_finding =
  df_multiplicity :: u64
  df_locations :: "duplicate_location list"
  df_locations_omitted :: u64
  df_outpoint :: "raw_outpoint option"

record sampled_finding =
  sf_key :: raw_outpoint
  sf_multiplicity :: u64
  sf_locations_omitted :: u64
  sf_first_location :: u64
  sf_location_count :: u64

record verify_options =
  vo_memory_budget :: u64
  vo_max_data_passes :: u64
  vo_include_outpoints :: bool
  vo_max_findings :: u64
  vo_max_locations_per_finding :: u64

record uniqueness_report =
  ur_unique :: bool
  ur_storage_mode :: storage_mode
  ur_physical_entries :: u64
  ur_distinct_outpoints :: u64
  ur_duplicate_copies :: u64
  ur_keys_with_multiple_copies :: u64
  ur_max_copies_for_one_key :: u64
  ur_findings :: "duplicate_finding list"
  ur_findings_omitted :: u64
  ur_outpoints_included :: bool
  ur_walk :: budget_report
  ur_report_bytes_estimate :: u64

text \<open>The fields the report copies from the walk's are kept as the walk's report.\<close>

definition on_distinct :: "u64 \<Rightarrow> uniqueness_report \<Rightarrow> uniqueness_report" where
  "on_distinct multiplicity out =
    (let out = out\<lparr>ur_distinct_outpoints := ur_distinct_outpoints out + 1,
           ur_physical_entries := ur_physical_entries out + multiplicity\<rparr>;
         out = (if multiplicity > 1
                then out\<lparr>ur_keys_with_multiple_copies := ur_keys_with_multiple_copies out + 1,
                       ur_duplicate_copies := ur_duplicate_copies out + (multiplicity - 1)\<rparr>
                else out)
     in out\<lparr>ur_max_copies_for_one_key := max (ur_max_copies_for_one_key out) multiplicity\<rparr>)"

type_synonym finding_sample = "sampled_finding list \<times> duplicate_location list"

definition location_of :: "stored_copy \<Rightarrow> duplicate_location" where
  "location_of c = \<lparr>dl_generation = sc_generation c, dl_container_class = sc_container_class c,
     dl_active = sc_active c\<rparr>"

definition on_group :: "verify_options \<Rightarrow> stored_copy list \<Rightarrow> finding_sample \<Rightarrow> finding_sample" where
  "on_group options copies = (\<lambda>(sample, sample_locations).
    (if word_of_nat (length sample) \<ge> vo_max_findings options then (sample, sample_locations)
     else
      (let n = word_of_nat (length copies);
           kept = min n (vo_max_locations_per_finding options)
       in (sample @ [\<lparr>sf_key = sc_key (hd copies), sf_multiplicity = n, sf_locations_omitted = n - kept,
             sf_first_location = word_of_nat (length sample_locations), sf_location_count = kept\<rparr>],
           sample_locations @ map location_of (take (unat kept) copies)))))"

definition finding_of :: "verify_options \<Rightarrow> duplicate_location list \<Rightarrow> sampled_finding \<Rightarrow> duplicate_finding" where
  "finding_of options sample_locations f =
    \<lparr>df_multiplicity = sf_multiplicity f,
     df_locations = take (unat (sf_location_count f)) (drop (unat (sf_first_location f)) sample_locations),
     df_locations_omitted = sf_locations_omitted f,
     df_outpoint = (if vo_include_outpoints options then Some (sf_key f) else None)\<rparr>"

definition verify_sizes :: "verify_options \<Rightarrow> (u64 \<times> u64) option" where
  "verify_sizes options =
    (case checked_mul (vo_max_findings options) (vo_max_locations_per_finding options) of
       None \<Rightarrow> None
     | Some locations_capacity \<Rightarrow>
       (case (checked_mul (vo_max_findings options) size_of_sampled_finding,
              checked_mul locations_capacity size_of_duplicate_location,
              checked_mul (vo_max_findings options) size_of_duplicate_finding) of
          (Some _, Some location_bytes, Some report_bytes) \<Rightarrow>
            map_option (Pair locations_capacity) (checked_add report_bytes location_bytes)
        | _ \<Rightarrow> None))"

definition empty_uniqueness_report :: "storage_mode \<Rightarrow> bool \<Rightarrow> uniqueness_report" where
  "empty_uniqueness_report mode outpoints = \<lparr>ur_unique = True, ur_storage_mode = mode,
     ur_physical_entries = 0, ur_distinct_outpoints = 0, ur_duplicate_copies = 0,
     ur_keys_with_multiple_copies = 0, ur_max_copies_for_one_key = 0, ur_findings = [],
     ur_findings_omitted = 0, ur_outpoints_included = outpoints, ur_walk = empty_budget_report,
     ur_report_bytes_estimate = 0\<rparr>"

definition verify_unique_outpoints ::
  "'v env \<Rightarrow> verify_options \<Rightarrow> 'v database \<Rightarrow> uniqueness_report result \<times> 'v database" where
  "verify_unique_outpoints E options db =
    (case verify_sizes options of
       None \<Rightarrow> (Inl Insufficient_space, db)
     | Some (locations_capacity, report_bytes) \<Rightarrow>
       if \<not> sample_fits_platform (vo_max_findings options) locations_capacity
       then (Inl Insufficient_space, db)
       else
        (let out = (empty_uniqueness_report (db_mode db) (vo_include_outpoints options))
               \<lparr>ur_report_bytes_estimate := report_bytes\<rparr>;
             meter = new_budget_meter (vo_memory_budget options - headroom_of (vo_memory_budget options))
         in if vo_max_findings options > vector_max_size size_of_sampled_finding
               \<or> locations_capacity > vector_max_size size_of_duplicate_location
            then (Inl Insufficient_space, db)
            else
             (case reserve (vo_max_findings options) size_of_sampled_finding meter of
                (False, _) \<Rightarrow> (Inl Insufficient_space, db)
              | (True, meter) \<Rightarrow>
               (case reserve locations_capacity size_of_duplicate_location meter of
                  (False, _) \<Rightarrow> (Inl Insufficient_space, db)
                | (True, meter) \<Rightarrow>
                 (case walk_distinct_keys E \<lparr>wo_memory_budget = vo_memory_budget options,
                          wo_max_data_passes = vo_max_data_passes options\<rparr>
                        (\<lambda>n (out, sampled). (on_distinct n out, sampled))
                        (Some (\<lambda>copies (out, sampled). (out, on_group options copies sampled)))
                        db (out, ([], [])) meter (db_disk db) of
                    (Inl e, _, _, d) \<Rightarrow> (Inl e, db\<lparr>db_disk := d\<rparr>)
                  | (Inr walk_result, (out, (sample, sample_locations)), meter, d) \<Rightarrow>
                    (let meter = deallocate (vo_max_findings options) size_of_sampled_finding
                           (deallocate locations_capacity size_of_duplicate_location meter);
                         out = out\<lparr>ur_findings := map (finding_of options sample_locations) sample\<rparr>
                     in if bm_unbalanced meter then (Inl Insufficient_space, db\<lparr>db_disk := d\<rparr>)
                        else (Inr (out\<lparr>ur_unique := (ur_duplicate_copies out = 0),
                                  ur_findings_omitted := ur_keys_with_multiple_copies out
                                    - word_of_nat (length (ur_findings out)),
                                  ur_walk := walk_result,
                                  ur_report_bytes_estimate := ur_report_bytes_estimate out
                                    + word_of_nat (length (br_duration_per_pass_ms walk_result)) * 8\<rparr>),
                              db\<lparr>db_disk := d\<rparr>)))))))"

end
