(* ===== verification/Uniqueness_Facts.thy ===== *)
theory Uniqueness_Facts
  imports Uniqueness Walk_Facts
begin

text \<open>
  The walk over distinct keys, whatever the budget makes of it: the groups of the plan split the
  keys between them, every data pass collects exactly its group, and over all passes every distinct
  key is reported once, with all of its copies.
\<close>

section \<open>What a visit sees\<close>

definition copies_in :: "u64 \<Rightarrow> u64 \<Rightarrow> bool \<Rightarrow> 'v flat_map \<Rightarrow> stored_copy list" where
  "copies_in i v active t = map (\<lambda>(key, _). \<lparr>sc_generation = v, sc_key = key,
     sc_container_class = walk_class i, sc_active = active\<rparr>) (tbl_entries t)"

definition feed :: "'s entry_fn \<Rightarrow> stored_copy \<Rightarrow> 's \<Rightarrow> 's" where
  "feed fn c = fn (sc_key c) (sc_container_class c) (sc_generation c) (sc_active c)"

definition copies_of_version :: "'v database \<Rightarrow> u64 \<Rightarrow> u64 \<Rightarrow> stored_copy list" where
  "copies_of_version db i v = copies_in i v (v = db_current_versions db i) (file_map db i v)"

definition stored_copies :: "'v database \<Rightarrow> stored_copy list" where
  "stored_copies db = concat (map (\<lambda>i. concat (map (copies_of_version db i)
     (vc_versions (db_catalogs db i)))) (indices_of (db_mode db)))"

definition stored_keys :: "'v database \<Rightarrow> raw_outpoint list" where
  "stored_keys db = map sc_key (stored_copies db)"

lemma visit_map_feed: "visit_map fn i v active t s = fold (feed fn) (copies_in i v active t) s"
  unfolding visit_map_def copies_in_def fold_map
  by (rule arg_cong[of _ _ "\<lambda>f. fold f (tbl_entries t) s"]) (auto simp: feed_def fun_eq_iff)

lemma visit_versions_spec:
  assumes "visit_versions E fn db i vs n s d = (r, n', s', d')" "same_disk (db_disk db) d"
  shows "same_disk (db_disk db) d' \<and> (r = Inr () \<longrightarrow> s' = fold (feed fn) (concat (map (copies_of_version db i) vs)) s)"
  using assms
proof (induction vs arbitrary: n s d)
  case Nil
  then show ?case by simp
next
  case (Cons v vs)
  have gen: "generation d i v = generation (db_disk db) i v" if "same_disk (db_disk db) d" for d
    by (rule generation_cong) (rule same_disk_lookup[OF that])
  show ?case
  proof (cases "v = db_current_versions db i \<and> db_mapped db i")
    case True
    then have "visit_map fn i v True (container db i) s = fold (feed fn) (copies_of_version db i v) s"
      by (simp add: visit_map_feed copies_of_version_def container_def file_map_def)
    then show ?thesis
      using Cons.IH[OF _ Cons.prems(2), of "n + 1" "fold (feed fn) (copies_of_version db i v) s"] Cons.prems(1) True
      by (simp add: Let_def fold_append)
  next
    case False
    obtain x d1 where op: "open_checked E (db_database_id db) (kind_of_index i) (data_path i v) v d = (x, d1)"
      by fastforce
    have same: "same_disk (db_disk db) d1" using same_disk_ops(6)[OF op] Cons.prems(2) by (simp add: same_disk_def)
    show ?thesis
    proof (cases x)
      case (Inl e)
      then show ?thesis using Cons.prems(1) False op same by (auto simp: Let_def)
    next
      case (Inr t)
      then obtain g where g: "lookup_file d (data_path i v) = Some (Segment g)"
        "good_segment (local_build E) (db_database_id db) (kind_of_index i) v g t"
        using op by (blast elim: open_checked_Inr)
      then have "generation (db_disk db) i v = Some t"
        using gen[OF Cons.prems(2)] by (simp add: generation_def good_segment_def)
      then have "file_map db i v = t" by (simp add: file_map_def)
      then show ?thesis
        using Cons.IH[OF _ same] Cons.prems(1) False op Inr
        by (auto simp: Let_def visit_map_feed copies_of_version_def)
    qed
  qed
qed

lemma visit_containers_spec:
  assumes "visit_containers E fn db is n s d = (r, n', s', d')" "same_disk (db_disk db) d"
  shows "same_disk (db_disk db) d' \<and> (r = Inr () \<longrightarrow> s' = fold (feed fn)
     (concat (map (\<lambda>i. concat (map (copies_of_version db i) (vc_versions (db_catalogs db i)))) is)) s)"
  using assms
proof (induction "is" arbitrary: n s d)
  case Nil
  then show ?case by simp
next
  case (Cons i "is")
  obtain x n1 s1 d1 where v: "visit_versions E fn db i (vc_versions (db_catalogs db i)) n s d = (x, n1, s1, d1)"
    by (metis prod_cases4)
  note one = visit_versions_spec[OF v Cons.prems(2)]
  show ?case
    using Cons.IH[of n1 s1 d1] Cons.prems(1) one v by (cases x) auto
qed

lemma visit_spec:
  assumes "visit_stored_entries E fn db s d = (r, n, s', d')" "same_disk (db_disk db) d"
  shows "same_disk (db_disk db) d'" "r = Inr () \<Longrightarrow> s' = fold (feed fn) (stored_copies db) s"
  using visit_containers_spec[OF assms(1)[unfolded visit_stored_entries_def] assms(2)]
  by (simp_all add: stored_copies_def)

section \<open>The counters\<close>

abbreviation key_prefix :: "stored_copy \<Rightarrow> nat" where
  "key_prefix c \<equiv> unat (prefix_of_key (sc_key c))"

definition in_prefix :: "stored_copy list \<Rightarrow> nat \<Rightarrow> nat" where
  "in_prefix C p = length (filter (\<lambda>c. key_prefix c = p) C)"

lemma key_prefix_range: "key_prefix c < planning_prefixes"
  unfolding prefix_of_key_def by (rule prefix_in_range)

lemma count_entries:
  "length counts = planning_prefixes \<Longrightarrow>
   fold (feed count_entry) C (counts, n)
     = (map (\<lambda>p. counts ! p + word_of_nat (in_prefix C p)) [0..<planning_prefixes], n + word_of_nat (length C))"
proof (induction C arbitrary: counts n)
  case Nil
  then show ?case by (simp add: in_prefix_def) (metis map_nth)
next
  case (Cons c C)
  let ?p = "key_prefix c"
  have p: "?p < length counts" using key_prefix_range[of c] Cons.prems by simp
  have "fold (feed count_entry) (c # C) (counts, n)
      = fold (feed count_entry) C (counts[?p := counts ! ?p + 1], n + 1)"
    by (simp add: feed_def count_entry_def Let_def)
  also have "\<dots> = (map (\<lambda>p. counts[?p := counts ! ?p + 1] ! p + word_of_nat (in_prefix C p)) [0..<planning_prefixes],
      n + 1 + word_of_nat (length C))"
    using Cons.prems by (intro Cons.IH) simp
  also have "map (\<lambda>p. counts[?p := counts ! ?p + 1] ! p + word_of_nat (in_prefix C p)) [0..<planning_prefixes]
      = map (\<lambda>p. counts ! p + word_of_nat (in_prefix (c # C) p)) [0..<planning_prefixes]"
    using Cons.prems p by (intro map_cong) (auto simp: in_prefix_def nth_list_update)
  finally show ?case by (simp add: add.assoc)
qed

lemma planned_counts:
  "fold (feed count_entry) C (replicate planning_prefixes 0, 0)
     = (map (\<lambda>p. word_of_nat (in_prefix C p)) [0..<planning_prefixes], word_of_nat (length C))"
proof -
  have "map (\<lambda>p. replicate planning_prefixes 0 ! p + word_of_nat (in_prefix C p)) [0..<planning_prefixes]
      = (map (\<lambda>p. word_of_nat (in_prefix C p)) [0..<planning_prefixes] :: u64 list)"
    by (intro map_cong) simp_all
  then show ?thesis using count_entries[of "replicate planning_prefixes 0" C 0] by simp
qed

section \<open>The plan\<close>

text \<open>
  The groups planned over the first \<open>k\<close> prefixes: intervals in order, none overlapping the next,
  each with the number of entries that fall into it, together holding every prefix that has any.
\<close>

definition span :: "partition_group \<Rightarrow> nat set" where
  "span g = {unat (pg_first g)..unat (pg_last g)}"

definition plan_ok :: "(nat \<Rightarrow> nat) \<Rightarrow> nat \<Rightarrow> partition_group list \<Rightarrow> bool" where
  "plan_ok cnt k gs \<longleftrightarrow>
     (\<forall>g \<in> set gs. pg_first g \<le> pg_last g \<and> unat (pg_last g) < k \<and> unat (pg_records g) = sum cnt (span g))
   \<and> sorted_wrt (\<lambda>g h. pg_last g < pg_first h) gs
   \<and> (\<forall>p < k. 0 < cnt p \<longrightarrow> (\<exists>g \<in> set gs. p \<in> span g))"

lemma prefix_word: "k < planning_prefixes \<Longrightarrow> unat (word_of_nat k :: u64) = k"
  by (simp add: unat_of_nat)

lemma plan_ok_skip: "plan_ok cnt k gs \<Longrightarrow> cnt k = 0 \<Longrightarrow> plan_ok cnt (Suc k) gs"
  by (auto simp: plan_ok_def less_Suc_eq)

lemma plan_ok_new:
  assumes "plan_ok cnt k gs" "k < planning_prefixes" "cnt k < 2 ^ 64"
  shows "plan_ok cnt (Suc k) (gs @ [\<lparr>pg_first = word_of_nat k, pg_last = word_of_nat k, pg_records = word_of_nat (cnt k)\<rparr>])"
  using assms prefix_word[OF assms(2)]
  by (fastforce simp: plan_ok_def span_def sorted_wrt_append less_Suc_eq word_less_nat_alt unat_of_nat)

lemma plan_ok_extend:
  assumes ok: "plan_ok cnt k (gs @ [g])" and last: "Suc (unat (pg_last g)) = k" and k: "k < planning_prefixes"
    and sum: "sum cnt {..<planning_prefixes} < 2 ^ 64"
  shows "plan_ok cnt (Suc k) (gs @ [g\<lparr>pg_last := word_of_nat k, pg_records := pg_records g + word_of_nat (cnt k)\<rparr>])"
proof -
  let ?g = "g\<lparr>pg_last := word_of_nat k, pg_records := pg_records g + word_of_nat (cnt k)\<rparr>"
  have g: "unat (pg_first g) \<le> unat (pg_last g)" "unat (pg_records g) = sum cnt (span g)"
    using ok by (auto simp: plan_ok_def word_le_nat_alt)
  have span: "span ?g = insert k (span g)" "k \<notin> span g"
    using last g(1) prefix_word[OF k] by (auto simp: span_def)
  have total: "sum cnt (span g) + cnt k = sum cnt (insert k (span g))" using span(2) by (simp add: span_def)
  also have "\<dots> \<le> sum cnt {..<planning_prefixes}"
    using last k by (intro sum_mono2) (auto simp: span_def)
  finally have small: "sum cnt (span g) + cnt k < 2 ^ 64" using sum by simp
  then have rec: "unat (pg_records ?g) = sum cnt (span ?g)"
    using g(2) total by (simp add: unat_word_ariths unat_of_nat span)
  have "pg_first ?g \<le> pg_last ?g" using g(1) last prefix_word[OF k] by (simp add: word_le_nat_alt)
  then show ?thesis
    using ok rec prefix_word[OF k] span(1)
    by (auto simp: plan_ok_def sorted_wrt_append less_Suc_eq)
qed

definition plan_state :: "(nat \<Rightarrow> nat) \<Rightarrow> nat \<Rightarrow> partition_group option \<times> partition_group list \<Rightarrow> bool" where
  "plan_state cnt k st \<longleftrightarrow>
     (case st of (None, gs) \<Rightarrow> plan_ok cnt k gs
               | (Some g, gs) \<Rightarrow> plan_ok cnt k (gs @ [g]) \<and> Suc (unat (pg_last g)) = k)"

lemma plan_step_state:
  assumes st: "plan_state cnt k st" and k: "k < planning_prefixes"
    and here: "counts ! k = word_of_nat (cnt k)" and sum: "sum cnt {..<planning_prefixes} < 2 ^ 64"
  shows "plan_state cnt (Suc k) (plan_step counts limit k st)"
proof -
  obtain cur gs where s: "st = (cur, gs)" by (cases st)
  have "cnt k \<le> sum cnt {..<planning_prefixes}" using k by (intro member_le_sum) auto
  then have small: "cnt k < 2 ^ 64" using sum by simp
  then have zero: "(word_of_nat (cnt k) :: u64) = 0 \<longleftrightarrow> cnt k = 0"
    by (auto simp: word_unat_eq_iff unat_of_nat)
  note last = prefix_word[OF k]
  show ?thesis
  proof (cases cur)
    case None
    then show ?thesis
      using st s here zero last plan_ok_new[where cnt = cnt, OF _ k small] plan_ok_skip
      by (auto simp: plan_state_def plan_step_def Let_def)
  next
    case (Some g)
    then have ok: "plan_ok cnt k (gs @ [g])" "Suc (unat (pg_last g)) = k"
      using st s by (simp_all add: plan_state_def)
    show ?thesis
      using Some s here last plan_ok_new[OF ok(1) k small] plan_ok_extend[OF ok k sum]
      by (auto simp: plan_state_def plan_step_def Let_def)
  qed
qed

lemma plan_groups_ok:
  assumes counts: "\<And>p. p < planning_prefixes \<Longrightarrow> counts ! p = word_of_nat (cnt p)"
    and sum: "sum cnt {..<planning_prefixes} < 2 ^ 64"
  shows "plan_ok cnt planning_prefixes (plan_groups counts limit)"
proof -
  have "plan_state cnt k (fold (plan_step counts limit) [0..<k] (None, []))" if "k \<le> planning_prefixes" for k
    using that
  proof (induction k)
    case 0
    then show ?case by (simp add: plan_state_def plan_ok_def)
  next
    case (Suc k)
    then have "k < planning_prefixes" by simp
    from plan_step_state[where limit = limit, OF Suc.IH this counts[OF this] sum] Suc.prems show ?case by simp
  qed
  from this[OF order_refl] show ?thesis
    by (auto simp: plan_groups_def plan_state_def split: prod.splits option.splits)
qed

section \<open>One pass\<close>

definition in_group :: "partition_group \<Rightarrow> stored_copy \<Rightarrow> bool" where
  "in_group g c \<longleftrightarrow> key_prefix c \<in> span g"

lemma in_group_word:
  "in_group g c \<longleftrightarrow> \<not> (prefix_of_key (sc_key c) < pg_first g \<or> prefix_of_key (sc_key c) > pg_last g)"
  by (auto simp: in_group_def span_def not_less word_le_nat_alt)

lemma group_size: "length (filter (in_group g) C) = sum (in_prefix C) (span g)"
proof (induction C)
  case Nil
  then show ?case by (simp add: in_prefix_def)
next
  case (Cons c C)
  have "in_prefix (c # C) p = (if p = key_prefix c then 1 else 0) + in_prefix C p" for p
    by (simp add: in_prefix_def)
  then have "sum (in_prefix (c # C)) (span g) = (\<Sum>p \<in> span g. if p = key_prefix c then 1 else 0) + sum (in_prefix C) (span g)"
    by (simp add: sum.distrib)
  also have "(\<Sum>p \<in> span g. if p = key_prefix c then 1 else 0) = (if in_group g c then 1 else (0 :: nat))"
    by (simp add: in_group_def span_def)
  finally show ?case using Cons by simp
qed

lemma all_prefixes: "sum (in_prefix C) {..<planning_prefixes} = length C"
proof -
  let ?g = "\<lparr>pg_first = 0, pg_last = word_of_nat (planning_prefixes - 1), pg_records = 0\<rparr>"
  have "span ?g = {..<planning_prefixes}" by (auto simp: span_def)
  moreover have "filter (in_group ?g) C = C"
    using key_prefix_range calculation by (intro filter_True) (auto simp: in_group_def)
  ultimately show ?thesis using group_size[of ?g C] by simp
qed

lemma collect_entries:
  assumes "\<not> thrown r" "length (held r) + length (filter (in_group g) C) \<le> unat (room r)"
  shows "fold (feed (collect_entry g)) C (seen, r, m)
    = (seen + word_of_nat (length C), r\<lparr>held := held r @ filter (in_group g) C\<rparr>, m)"
  using assms
proof (induction C arbitrary: seen r)
  case Nil
  then show ?case by simp
next
  case (Cons c C)
  show ?case
  proof (cases "in_group g c")
    case False
    then have "feed (collect_entry g) c (seen, r, m) = (seen + 1, r, m)"
      using Cons.prems(1) in_group_word[of g c] by (simp add: feed_def collect_entry_def Let_def)
    then show ?thesis using Cons False by (simp add: add.assoc)
  next
    case True
    then have "length (held r) < unat (room r)" using Cons.prems(2) by simp
    then have "(word_of_nat (length (held r)) :: u64) < room r"
      using unat_u64_less[of "room r"] by (simp add: word_less_nat_alt unat_of_nat)
    then have "feed (collect_entry g) c (seen, r, m) = (seen + 1, r\<lparr>held := held r @ [c]\<rparr>, m)"
      using Cons.prems(1) True in_group_word[of g c]
      by (simp add: feed_def collect_entry_def push_record_def Let_def)
    then show ?thesis
      using Cons.IH[of "r\<lparr>held := held r @ [c]\<rparr>" "seen + 1"] Cons.prems True by (simp add: add.assoc)
  qed
qed

section \<open>Runs\<close>

text \<open>
  \<open>rs\<close> is \<open>C\<close> taken apart into runs: every run holds the copies of one key, and no key has two.
\<close>

definition one_run_per_key :: "stored_copy list list \<Rightarrow> stored_copy list \<Rightarrow> bool" where
  "one_run_per_key rs C \<longleftrightarrow> mset (concat rs) = mset C \<and> distinct (map (sc_key \<circ> hd) rs)
     \<and> (\<forall>r \<in> set rs. r \<noteq> [] \<and> (\<forall>x \<in> set r. sc_key x = sc_key (hd r)))"

definition report_run :: "(u64 \<Rightarrow> 's \<Rightarrow> 's) \<Rightarrow> (stored_copy list \<Rightarrow> 's \<Rightarrow> 's) option \<Rightarrow> stored_copy list \<Rightarrow> 's \<Rightarrow> 's" where
  "report_run distinct_fn group_fn run s =
    (let s = distinct_fn (word_of_nat (length run)) s
     in case group_fn of
          Some report \<Rightarrow> if word_of_nat (length run) > (1 :: u64) then report run s else s
        | None \<Rightarrow> s)"

lemma one_run_mset: "mset D = mset C \<Longrightarrow> one_run_per_key rs D = one_run_per_key rs C"
  by (simp only: one_run_per_key_def)

lemma one_run_keys: "one_run_per_key rs C \<Longrightarrow> (sc_key \<circ> hd) ` set rs = sc_key ` set C"
proof -
  assume rs: "one_run_per_key rs C"
  then have C: "set C = (\<Union>r \<in> set rs. set r)" unfolding one_run_per_key_def by (metis set_concat set_mset_mset)
  have r: "hd r \<in> set r" "\<forall>x \<in> set r. sc_key x = sc_key (hd r)" if "r \<in> set rs" for r
    using rs that hd_in_set unfolding one_run_per_key_def by blast+
  show ?thesis
  proof (intro equalityI subsetI)
    fix k assume "k \<in> (sc_key \<circ> hd) ` set rs"
    then obtain r' where "r' \<in> set rs" "k = sc_key (hd r')" by auto
    then show "k \<in> sc_key ` set C" using r(1) C by blast
  next
    fix k assume "k \<in> sc_key ` set C"
    then obtain r' x where "r' \<in> set rs" "x \<in> set r'" "k = sc_key x" using C by auto
    then show "k \<in> (sc_key \<circ> hd) ` set rs" using r(2) by auto
  qed
qed

lemma one_run_append:
  assumes "one_run_per_key rs C" "one_run_per_key rs' C'" "sc_key ` set C \<inter> sc_key ` set C' = {}"
    and "mset D = mset C + mset C'"
  shows "one_run_per_key (rs @ rs') D"
proof -
  have "mset (concat (rs @ rs')) = mset D" using assms(1,2,4) by (simp add: one_run_per_key_def)
  moreover have "distinct (map (sc_key \<circ> hd) (rs @ rs'))"
    unfolding map_append distinct_append set_map one_run_keys[OF assms(1)] one_run_keys[OF assms(2)]
    using assms(1-3) unfolding one_run_per_key_def by blast
  moreover have "r \<noteq> [] \<and> (\<forall>x \<in> set r. sc_key x = sc_key (hd r))" if "r \<in> set (rs @ rs')" for r
    using assms(1,2) that unfolding one_run_per_key_def set_append by blast
  ultimately show ?thesis unfolding one_run_per_key_def by blast
qed

lemma runs_of_sorted:
  assumes "sorted (map sc_key cs)"
  shows "\<exists>rs. one_run_per_key rs cs
    \<and> (\<forall>f (s :: 's) g. report_runs f g cs s = fold (report_run f g) rs s)"
  using assms
proof (induction cs rule: length_induct)
  case (1 cs)
  show ?case
  proof (cases cs)
    case Nil
    then show ?thesis by (intro exI[of _ "[]"]) (simp add: one_run_per_key_def)
  next
    case (Cons c rest)
    let ?same = "\<lambda>x. sc_key x = sc_key c"
    let ?tl = "dropWhile ?same rest" and ?run = "c # takeWhile ?same rest"
    have split: "cs = ?run @ ?tl" by (simp add: Cons)
    have ord: "sorted (map sc_key ?run @ map sc_key ?tl)" using 1(2) split by (metis map_append)
    then have sorted: "sorted (map sc_key ?tl)" and le: "\<And>x. x \<in> set ?tl \<Longrightarrow> sc_key c \<le> sc_key x"
      unfolding sorted_append by auto
    have "length ?tl < length cs" using length_dropWhile_le[of ?same rest] by (simp add: Cons le_imp_less_Suc)
    with 1(1) sorted obtain rs where rs: "one_run_per_key rs ?tl"
      "\<forall>f (s :: 's) g. report_runs f g ?tl s = fold (report_run f g) rs s" by blast
    have later: "sc_key x \<noteq> sc_key c" if x: "x \<in> set ?tl" for x
    proof -
      obtain y ys where tl: "?tl = y # ys" using x by (cases ?tl) auto
      then have "sc_key y \<noteq> sc_key c" unfolding dropWhile_eq_Cons_conv by blast
      moreover have "sc_key c \<le> sc_key y" using le[of y] tl by simp
      moreover have "sc_key y \<le> sc_key x" using sorted x unfolding tl by auto
      ultimately show ?thesis by (metis order_antisym)
    qed
    have run: "\<forall>x \<in> set ?run. ?same x" by (auto dest: set_takeWhileD)
    have "one_run_per_key ([?run] @ rs) cs"
    proof (rule one_run_append[OF _ rs(1)])
      show "one_run_per_key [?run] ?run" unfolding one_run_per_key_def by (auto dest: set_takeWhileD)
      have apart: "A \<inter> B = {}" if "A \<subseteq> {k}" "k \<notin> B" for A B and k :: raw_outpoint using that by blast
      have "sc_key ` set ?run \<subseteq> {sc_key c}" by (auto dest: set_takeWhileD)
      moreover have "sc_key c \<notin> sc_key ` set ?tl" using later by (metis imageE)
      ultimately show "sc_key ` set ?run \<inter> sc_key ` set ?tl = {}" by (rule apart)
      show "mset cs = mset ?run + mset ?tl" by (metis split mset_append)
    qed
    moreover have "report_runs f g cs s = fold (report_run f g) ([?run] @ rs) s" for f g and s :: 's
      using rs(2) by (cases g) (simp_all add: Cons report_run_def Let_def)
    ultimately show ?thesis by blast
  qed
qed

lemma sorted_sort_records: "sorted (map sc_key (sort_records cs))"
proof -
  have "sorted_wrt (\<lambda>x y. (sc_key x, sc_container_class x, sc_generation x) \<le> (sc_key y, sc_container_class y, sc_generation y))
      (sort_records cs)"
    using sorted_sort_key[of "\<lambda>c. (sc_key c, sc_container_class c, sc_generation c)" cs]
    by (simp add: sort_records_def sorted_wrt_map)
  then have "sorted_wrt (\<lambda>x y. sc_key x \<le> sc_key y) (sort_records cs)"
    by (rule sorted_wrt_mono_rel[rotated]) (auto simp: less_eq_prod_def)
  then show ?thesis by (simp add: sorted_wrt_map)
qed

section \<open>The passes together\<close>

definition in_groups :: "partition_group list \<Rightarrow> stored_copy \<Rightarrow> bool" where
  "in_groups gs c \<longleftrightarrow> (\<exists>g \<in> set gs. in_group g c)"

lemma groups_apart:
  assumes "sorted_wrt (\<lambda>g h. pg_last g < pg_first h) (g # gs)" "in_group g c" "in_groups gs c'"
  shows "sc_key c \<noteq> sc_key c'"
  using assms by (fastforce simp: in_groups_def in_group_def span_def word_less_nat_alt)

text \<open>What a data pass that returns has done, if its group was planned over the same entries.\<close>

lemma data_pass_spec:
  fixes s :: 's
  assumes run: "data_pass E f g db grp (rep, s, m, d) = (r, rep', s', m', d')" and same: "same_disk (db_disk db) d"
    and planned: "unat (pg_records grp) = length (filter (in_group grp) (stored_copies db))"
  shows "same_disk (db_disk db) d' \<and> (r = Inr () \<longrightarrow>
     (\<exists>rs. one_run_per_key rs (filter (in_group grp) (stored_copies db)) \<and> s' = fold (report_run f g) rs s)
     \<and> (\<exists>m1. reserve (pg_records grp) size_of_stored_copy m = (True, m1)
          \<and> m' = deallocate (pg_records grp) size_of_stored_copy m1)
     \<and> br_headroom rep' = br_headroom rep)"
proof -
  let ?r0 = "\<lparr>held = [], room = pg_records grp, thrown = False\<rparr>"
  let ?C = "stored_copies db"
  show ?thesis
  proof (cases "\<not> count_fits_platform (pg_records grp) \<or> pg_records grp > vector_max_size size_of_stored_copy")
    case True
    then show ?thesis using run same by (auto simp: data_pass_def)
  next
    case False
    then have fits: "count_fits_platform (pg_records grp)" "\<not> vector_max_size size_of_stored_copy < pg_records grp"
      by auto
    obtain ok m1 where res: "reserve (pg_records grp) size_of_stored_copy m = (ok, m1)" by fastforce
    show ?thesis
    proof (cases ok)
      case nok: False
      then show ?thesis using run same False res by (auto simp: data_pass_def)
    next
      case True
      obtain x n st d1 where "visit_stored_entries E (collect_entry grp) db (0, ?r0, m1) d = (x, n, st, d1)"
        by (rule prod_cases4)
      moreover obtain seen rc m2 where "st = (seen, rc, m2)" by (rule prod_cases3)
      ultimately have v: "visit_stored_entries E (collect_entry grp) db (0, ?r0, m1) d = (x, n, (seen, rc, m2), d1)"
        by simp
      note vis = visit_spec[OF v same]
      have fin: "rc = ?r0\<lparr>held := filter (in_group grp) ?C\<rparr>" "m2 = m1" if "x = Inr ()"
        using vis(2)[OF that] collect_entries[of ?r0 grp ?C 0 m1] planned by simp_all
      obtain rs where rs: "one_run_per_key rs (sort_records (filter (in_group grp) ?C))"
        "\<forall>f (s :: 's) g. report_runs f g (sort_records (filter (in_group grp) ?C)) s = fold (report_run f g) rs s"
        using runs_of_sorted[OF sorted_sort_records] by blast
      have one: "one_run_per_key rs (filter (in_group grp) ?C)"
        using rs(1) one_run_mset[of "sort_records (filter (in_group grp) ?C)" "filter (in_group grp) ?C" rs]
        by (simp add: sort_records_def)
      have full: "word_of_nat (length (filter (in_group grp) ?C)) = pg_records grp"
        by (simp flip: planned)
      show ?thesis
      proof (cases x)
        case (Inl e)
        then show ?thesis
          using run vis(1) by (simp add: data_pass_def Let_def fits res True v split: if_splits) auto
      next
        case (Inr u)
        then have "r = Inr ()" "s' = fold (report_run f g) rs s" "d' = d1"
          "m' = deallocate (pg_records grp) size_of_stored_copy m1" "br_headroom rep' = br_headroom rep"
          using run fin full by (auto simp: data_pass_def Let_def fits res True v rs(2))
        then show ?thesis using vis(1) one res True by auto
      qed
    qed
  qed
qed

text \<open>The meter keeps its bound and its ceiling.\<close>

definition steady :: "u64 \<Rightarrow> budget_meter \<Rightarrow> bool" where
  "steady c m \<longleftrightarrow> meter_inv m \<and> bm_ceiling m = c"

lemma steady_acquire: "steady c m \<Longrightarrow> acquire n m = (ok, m') \<Longrightarrow> steady c m'"
  using acquire_inv[of m n] meter_step_ceiling[of m "Acquire n"] by (simp add: steady_def)

lemma steady_deallocate: "steady c m \<Longrightarrow> steady c (deallocate n e m)"
  using release_inv[of m "n * e"] meter_step_ceiling[of m "Release (n * e)"] by (simp add: steady_def deallocate_def)

lemma steady_reserve: "steady c m \<Longrightarrow> reserve n e m = (ok, m') \<Longrightarrow> steady c m'"
  by (auto simp: reserve_def allocate_def split: if_splits option.splits prod.splits bool.splits dest: steady_acquire)

lemma data_passes_spec:
  assumes "data_passes E f g db gs (rep, s, m, d) = (r, rep', s', m', d')" and "same_disk (db_disk db) d"
    and "\<forall>grp \<in> set gs. unat (pg_records grp) = length (filter (in_group grp) (stored_copies db))"
    and "sorted_wrt (\<lambda>g h. pg_last g < pg_first h) gs" and "steady c m"
  shows "same_disk (db_disk db) d' \<and> (r = Inr () \<longrightarrow> steady c m' \<and> br_headroom rep' = br_headroom rep
     \<and> (\<exists>rs. one_run_per_key rs (filter (in_groups gs) (stored_copies db)) \<and> s' = fold (report_run f g) rs s))"
  using assms
proof (induction gs arbitrary: rep s m d)
  case Nil
  then show ?case by (auto simp: in_groups_def one_run_per_key_def intro: exI[of _ "[]"])
next
  case (Cons grp gs)
  let ?C = "stored_copies db"
  obtain x rep1 s1 m1 d1 where p: "data_pass E f g db grp (rep, s, m, d) = (x, rep1, s1, m1, d1)"
    by (metis prod_cases5)
  note one = data_pass_spec[OF p Cons.prems(2)]
  have sized: "unat (pg_records grp) = length (filter (in_group grp) ?C)" using Cons.prems(3) by simp
  show ?case
  proof (cases x)
    case (Inl e)
    then show ?thesis using Cons.prems(1) p one sized by auto
  next
    case (Inr u)
    then obtain rs where rs: "one_run_per_key rs (filter (in_group grp) ?C)" "s1 = fold (report_run f g) rs s"
      and m1: "steady c m1" and hd: "br_headroom rep1 = br_headroom rep"
      using one[OF sized] Cons.prems(5) steady_reserve steady_deallocate by fastforce
    have rest: "data_passes E f g db gs (rep1, s1, m1, d1) = (r, rep', s', m', d')"
      using Cons.prems(1) p Inr by simp
    have "same_disk (db_disk db) d1" using one[OF sized] by blast
    note ih = Cons.IH[OF rest this _ _ m1]
    show ?thesis
    proof (cases "r = Inr ()")
      case False
      then show ?thesis using ih Cons.prems(3,4) by simp
    next
      case True
      then obtain rs' where rs': "one_run_per_key rs' (filter (in_groups gs) ?C)" "s' = fold (report_run f g) rs' s1"
        using ih Cons.prems(3,4) by auto
      have apart: "\<not> (in_group grp c \<and> in_groups gs c)" for c
        using groups_apart[OF Cons.prems(4)] by blast
      have "one_run_per_key (rs @ rs') (filter (in_groups (grp # gs)) ?C)"
      proof (rule one_run_append[OF rs(1) rs'(1)])
        show "sc_key ` set (filter (in_group grp) ?C) \<inter> sc_key ` set (filter (in_groups gs) ?C) = {}"
          using groups_apart[OF Cons.prems(4)] by fastforce
        have "filter_mset (in_groups (grp # gs)) M = filter_mset (in_group grp) M + filter_mset (in_groups gs) M" for M
          using apart by (induction M) (auto simp: in_groups_def)
        then show "mset (filter (in_groups (grp # gs)) ?C) = mset (filter (in_group grp) ?C) + mset (filter (in_groups gs) ?C)"
          by simp
      qed
      then show ?thesis using True ih Cons.prems(3,4) rs(2) rs'(2) hd
        by (auto intro!: exI[of _ "rs @ rs'"])
    qed
  qed
qed

lemma planned_groups:
  fixes limit :: u64
  assumes "length (stored_copies db) < 2 ^ 64"
  defines "gs \<equiv> plan_groups (map (\<lambda>p. word_of_nat (in_prefix (stored_copies db) p)) [0..<planning_prefixes]) limit"
  shows "\<forall>g \<in> set gs. unat (pg_records g) = length (filter (in_group g) (stored_copies db))"
    and "sorted_wrt (\<lambda>g h. pg_last g < pg_first h) gs"
    and "filter (in_groups gs) (stored_copies db) = stored_copies db"
proof -
  let ?C = "stored_copies db"
  have ok: "plan_ok (in_prefix ?C) planning_prefixes gs"
    unfolding gs_def using assms(1) all_prefixes[of ?C] by (intro plan_groups_ok) simp_all
  then show "\<forall>g \<in> set gs. unat (pg_records g) = length (filter (in_group g) ?C)"
    and "sorted_wrt (\<lambda>g h. pg_last g < pg_first h) gs"
    by (simp_all add: plan_ok_def group_size)
  have "in_groups gs c" if c: "c \<in> set ?C" for c
  proof -
    have "in_prefix ?C (key_prefix c) > 0" using c by (auto simp: in_prefix_def filter_empty_conv)
    then show ?thesis using ok key_prefix_range[of c] by (auto simp: plan_ok_def in_groups_def in_group_def)
  qed
  then show "filter (in_groups gs) ?C = ?C" by (simp add: filter_id_conv)
qed

lemma peak_within_budget:
  assumes "steady (budget - headroom_of budget) m"
  shows "bm_peak m + headroom_of budget \<le> budget"
proof -
  have h: "unat (headroom_of budget) = unat budget div 10" by (simp add: headroom_of_def unat_div_distrib)
  then have "headroom_of budget \<le> budget" by (simp add: word_le_nat_alt)
  then have "unat (budget - headroom_of budget) = unat budget - unat budget div 10" by (simp add: unat_sub h)
  moreover have "unat (bm_peak m) \<le> unat (budget - headroom_of budget)"
    using assms by (auto simp: steady_def meter_inv_def simp flip: word_le_nat_alt)
  ultimately have "unat (bm_peak m) + unat (headroom_of budget) \<le> unat budget" using h by linarith
  moreover have "unat budget < 2 ^ 64" by (rule unat_u64_less)
  ultimately show ?thesis by (simp add: word_le_nat_alt unat_word_ariths)
qed

section \<open>The walk\<close>

lemma walk_spec:
  fixes s :: 's
  assumes run: "walk_distinct_keys E opts f g db s m d = (r, s', m', d')" and same: "same_disk (db_disk db) d"
    and few: "length (stored_copies db) < 2 ^ 64" and m: "steady (wo_memory_budget opts - headroom_of (wo_memory_budget opts)) m"
  shows "same_disk (db_disk db) d'"
    and "r = Inr rep \<Longrightarrow> br_estimated_peak rep \<le> wo_memory_budget opts
      \<and> (\<exists>rs. one_run_per_key rs (stored_copies db) \<and> s' = fold (report_run f g) rs s)"
proof -
  let ?C = "stored_copies db" and ?n = "word_of_nat planning_prefixes :: u64" and ?b = "wo_memory_budget opts"
  let ?counts = "map (\<lambda>p. word_of_nat (in_prefix ?C p)) [0..<planning_prefixes] :: u64 list"
  obtain ok1 m1 where a: "acquire sort_allowance m = (ok1, m1)" by fastforce
  obtain ok2 m2 where b: "reserve ?n 8 m1 = (ok2, m2)" by fastforce
  obtain x seen st d1 where "visit_stored_entries E count_entry db (replicate planning_prefixes 0, 0) d = (x, seen, st, d1)"
    by (rule prod_cases4)
  moreover obtain counts total where "st = (counts, total)" by (cases st)
  ultimately have v: "visit_stored_entries E count_entry db (replicate planning_prefixes 0, 0) d
    = (x, seen, (counts, total), d1)" by simp
  note vis = visit_spec[OF v same]
  have counts: "counts = ?counts" if "x = Inr ()"
    using vis(2)[OF that] by (simp only: planned_counts prod.inject)
  obtain ok3 m3 where c: "reserve ?n size_of_partition_group m2 = (ok3, m3)" by fastforce
  have st3: "steady (?b - headroom_of ?b) m3"
    using steady_reserve[OF steady_reserve[OF steady_acquire[OF m a] b] c] .
  define limit where "limit = (bm_ceiling m3 - bm_outstanding m3) div size_of_stored_copy"
  let ?gs = "plan_groups counts limit"
  define rep0 where "rep0 = empty_budget_report\<lparr>br_record_bytes := size_of_stored_copy, br_memory_budget := ?b,
    br_headroom := headroom_of ?b, br_planning_passes := 1, br_generations_visited := seen,
    br_entries_examined_total := total, br_duration_per_pass_ms := [elapsed_ms E d d1],
    br_fixed_overhead := bm_outstanding m3, br_partitions := word_of_nat (length ?gs)\<rparr>"
  obtain y rep1 s1 m4 d2 where p: "data_passes E f g db ?gs (rep0, s, m3, d1) = (y, rep1, s1, m4, d2)"
    by (metis prod_cases5)
  note groups = planned_groups[OF few, of limit]
  have spec: "same_disk (db_disk db) d2 \<and> (y = Inr () \<longrightarrow> steady (?b - headroom_of ?b) m4
      \<and> br_headroom rep1 = headroom_of ?b \<and> (\<exists>rs. one_run_per_key rs ?C \<and> s1 = fold (report_run f g) rs s))"
    if "x = Inr ()"
    using data_passes_spec[OF p vis(1) _ _ st3] groups by (simp add: counts[OF that] rep0_def)
  note unfolded = run[unfolded walk_distinct_keys_def Let_def a b prod.case v]
  show "same_disk (db_disk db) d'"
    using unfolded same vis(1) spec p
    by (cases ok1; cases ok2; cases x; cases ok3; cases y)
      (auto simp: c rep0_def limit_def v simp del: planning_prefixes_eq split: if_splits)
  show "br_estimated_peak rep \<le> ?b \<and> (\<exists>rs. one_run_per_key rs ?C \<and> s' = fold (report_run f g) rs s)"
    if "r = Inr rep"
    using unfolded spec p peak_within_budget that
    by (cases ok1; cases ok2; cases x; cases ok3; cases y)
      (auto simp: c rep0_def limit_def v simp del: planning_prefixes_eq split: if_splits)
qed

end
