(* ===== verification/Verifying.thy ===== *)
theory Verifying
  imports Uniqueness_Facts
begin

text \<open>
  The verdict of \<open>verify_unique_outpoints\<close> against counting the stored keys directly, and what its
  sample of findings says.
\<close>

section \<open>Counting directly\<close>

text \<open>How often each key is stored, one number per distinct key; what a report says of that.\<close>

definition multiplicities :: "raw_outpoint list \<Rightarrow> nat list" where
  "multiplicities keys = map (count_list keys) (remdups keys)"

record key_summary =
  ks_unique :: bool
  ks_physical :: nat
  ks_distinct :: nat
  ks_duplicate_copies :: nat
  ks_multiple :: nat
  ks_max :: nat

definition count_directly :: "raw_outpoint list \<Rightarrow> key_summary" where
  "count_directly keys = \<lparr>ks_unique = distinct keys, ks_physical = length keys,
     ks_distinct = length (remdups keys), ks_duplicate_copies = length keys - length (remdups keys),
     ks_multiple = length (filter (\<lambda>n. 1 < n) (multiplicities keys)),
     ks_max = fold max (multiplicities keys) 0\<rparr>"

definition summary_of :: "uniqueness_report \<Rightarrow> key_summary" where
  "summary_of out = \<lparr>ks_unique = ur_unique out, ks_physical = unat (ur_physical_entries out),
     ks_distinct = unat (ur_distinct_outpoints out), ks_duplicate_copies = unat (ur_duplicate_copies out),
     ks_multiple = unat (ur_keys_with_multiple_copies out), ks_max = unat (ur_max_copies_for_one_key out)\<rparr>"

section \<open>From runs to multiplicities\<close>

lemma run_is_filter:
  assumes "distinct (map (sc_key \<circ> hd) rs)" and "\<forall>r \<in> set rs. \<forall>x \<in> set r. sc_key x = sc_key (hd r)"
    and "r \<in> set rs"
  shows "filter (\<lambda>x. sc_key x = sc_key (hd r)) (concat rs) = r"
  using assms
proof (induction rs)
  case (Cons a rs)
  have other: "filter (\<lambda>x. sc_key x = k) b = []" if "b \<in> set (a # rs)" "sc_key (hd b) \<noteq> k" for b k
    using Cons.prems(2) that by (fastforce simp: filter_empty_conv)
  show ?case
  proof (cases "r = a")
    case True
    have "filter (\<lambda>x. sc_key x = sc_key (hd a)) a = a"
      using Cons.prems(2) by (intro filter_True) simp
    moreover have "filter (\<lambda>x. sc_key x = sc_key (hd a)) b = []" if b: "b \<in> set rs" for b
    proof (rule other)
      show "sc_key (hd b) \<noteq> sc_key (hd a)" using Cons.prems(1) b by (auto simp: image_iff)
    qed (use b in simp)
    then have "filter (\<lambda>x. sc_key x = sc_key (hd a)) (concat rs) = []" by (simp add: filter_concat)
    ultimately show ?thesis using True by simp
  next
    case False
    then have r: "r \<in> set rs" using Cons.prems(3) by simp
    then have "sc_key (hd a) \<noteq> sc_key (hd r)" using Cons.prems(1) by force
    then have "filter (\<lambda>x. sc_key x = sc_key (hd r)) a = []" by (intro other) simp_all
    then show ?thesis using Cons.IH[OF _ _ r] Cons.prems(1,2) by simp
  qed
qed simp

lemma run_copies:
  assumes "one_run_per_key rs C" "r \<in> set rs"
  shows "mset r = filter_mset (\<lambda>x. sc_key x = sc_key (hd r)) (mset C)"
    and "length r = count_list (map sc_key C) (sc_key (hd r))"
proof -
  have C: "mset (concat rs) = mset C" using assms(1) unfolding one_run_per_key_def by blast
  have "filter (\<lambda>x. sc_key x = sc_key (hd r)) (concat rs) = r"
    using assms unfolding one_run_per_key_def by (intro run_is_filter) blast+
  then show m: "mset r = filter_mset (\<lambda>x. sc_key x = sc_key (hd r)) (mset C)"
    by (metis C mset_filter)
  have "count_list (map sc_key C) k = size (filter_mset (\<lambda>x. sc_key x = k) (mset C))" for k
    by (induction C) auto
  then show "length r = count_list (map sc_key C) (sc_key (hd r))"
    by (metis m size_mset)
qed

lemma run_multiplicities:
  assumes rs: "one_run_per_key rs C"
  shows "mset (map length rs) = mset (multiplicities (map sc_key C))"
proof -
  let ?keys = "map (sc_key \<circ> hd) rs"
  have "distinct ?keys" using rs unfolding one_run_per_key_def by blast
  moreover have "set ?keys = set (remdups (map sc_key C))" using one_run_keys[OF rs] by simp
  ultimately have keys: "mset ?keys = mset (remdups (map sc_key C))"
    by (metis distinct_remdups set_eq_iff_mset_eq_distinct)
  have "map length rs = map (count_list (map sc_key C)) ?keys"
    using run_copies(2)[OF rs] by simp
  then have "mset (map length rs) = image_mset (count_list (map sc_key C)) (mset ?keys)"
    by (simp only: mset_map)
  also have "\<dots> = mset (multiplicities (map sc_key C))"
    unfolding multiplicities_def mset_map[of "count_list (map sc_key C)"] keys ..
  finally show ?thesis .
qed

lemma multiplicities_sum: "sum_list (multiplicities keys) = length keys"
proof -
  have "sum_list (multiplicities keys) = sum (count_list keys) (set keys)"
    unfolding multiplicities_def by (subst sum_list_distinct_conv_sum_set) simp_all
  then show ?thesis by (simp add: sum_count_set)
qed

lemma multiplicities_pos: "n \<in> set (multiplicities keys) \<Longrightarrow> 0 < n"
proof -
  assume "n \<in> set (multiplicities keys)"
  then obtain k where "k \<in> set keys" "n = count_list keys k" by (auto simp: multiplicities_def)
  then have "n \<noteq> 0" by (simp add: count_list_0_iff)
  then show "0 < n" by simp
qed

lemma sum_list_pred: "\<forall>n \<in> set ns. 0 < n \<Longrightarrow> sum_list (map (\<lambda>n. n - 1) ns) + length ns = sum_list (ns :: nat list)"
proof (induction ns)
  case (Cons n ns)
  then have "sum_list (map (\<lambda>n. n - 1) ns) + length ns = sum_list ns" "0 < n" by simp_all
  then show ?case by simp
qed simp

section \<open>What the callbacks count\<close>

definition counted_as :: "nat list \<Rightarrow> uniqueness_report \<Rightarrow> uniqueness_report \<Rightarrow> bool" where
  "counted_as ns out out' \<longleftrightarrow>
     ur_distinct_outpoints out' = ur_distinct_outpoints out + word_of_nat (length ns)
   \<and> ur_physical_entries out' = ur_physical_entries out + word_of_nat (sum_list ns)
   \<and> ur_keys_with_multiple_copies out' = ur_keys_with_multiple_copies out
       + word_of_nat (length (filter (\<lambda>n. 1 < n) ns))
   \<and> ur_duplicate_copies out' = ur_duplicate_copies out + word_of_nat (sum_list (map (\<lambda>n. n - 1) ns))
   \<and> unat (ur_max_copies_for_one_key out') = fold max ns (unat (ur_max_copies_for_one_key out))"

lemma more_than_one: "n < 2 ^ 64 \<Longrightarrow> (1 :: u64) < word_of_nat n \<longleftrightarrow> 1 < n"
  by (simp add: word_less_nat_alt unat_of_nat)

lemma fold_on_distinct:
  "\<forall>n \<in> set ns. 0 < n \<and> n < 2 ^ 64 \<Longrightarrow> counted_as ns out (fold (\<lambda>n. on_distinct (word_of_nat n)) ns out)"
proof (induction ns arbitrary: out)
  case Nil
  then show ?case by (simp add: counted_as_def)
next
  case (Cons n ns)
  let ?out = "on_distinct (word_of_nat n) out"
  have n: "0 < n" "n < 2 ^ 64" using Cons.prems by simp_all
  define w :: u64 where "w = word_of_nat n"
  have w: "unat w = n" using n(2) by (simp add: w_def unat_of_nat)
  have more: "1 < w \<longleftrightarrow> 1 < n" by (simp add: word_less_nat_alt w)
  have pred: "w - 1 = word_of_nat (n - 1)" using n(1) by (simp add: w_def of_nat_diff)
  have top: "unat (max m w) = max (unat m) n" for m :: u64 by (simp add: max_def word_le_nat_alt w)
  have ih: "counted_as ns ?out (fold (\<lambda>n. on_distinct (word_of_nat n)) ns ?out)" using Cons by simp
  have step: "ur_distinct_outpoints ?out = ur_distinct_outpoints out + 1"
    "ur_physical_entries ?out = ur_physical_entries out + w"
    "ur_keys_with_multiple_copies ?out = ur_keys_with_multiple_copies out + (if 1 < n then 1 else 0)"
    "ur_duplicate_copies ?out = ur_duplicate_copies out + word_of_nat (n - 1)"
    "unat (ur_max_copies_for_one_key ?out) = max (unat (ur_max_copies_for_one_key out)) n"
    unfolding w_def[symmetric] on_distinct_def Let_def more
    using n(1) pred top by (cases "1 < n"; simp)+
  show ?case
    using ih unfolding counted_as_def step by (simp add: w_def max.commute add.assoc)
qed

section \<open>The sample\<close>

definition kept_of :: "verify_options \<Rightarrow> stored_copy list \<Rightarrow> nat" where
  "kept_of options r = min (length r) (unat (vo_max_locations_per_finding options))"

definition sample_locations :: "verify_options \<Rightarrow> stored_copy list list \<Rightarrow> duplicate_location list" where
  "sample_locations options rs = concat (map (\<lambda>r. map location_of (take (kept_of options r) r)) rs)"

definition sampled :: "verify_options \<Rightarrow> stored_copy list list \<Rightarrow> nat \<Rightarrow> sampled_finding" where
  "sampled options rs j = \<lparr>sf_key = sc_key (hd (rs ! j)), sf_multiplicity = word_of_nat (length (rs ! j)),
     sf_locations_omitted = word_of_nat (length (rs ! j) - kept_of options (rs ! j)),
     sf_first_location = word_of_nat (length (sample_locations options (take j rs))),
     sf_location_count = word_of_nat (kept_of options (rs ! j))\<rparr>"

lemma sampled_append: "j < length rs \<Longrightarrow> sampled options (rs @ xs) j = sampled options rs j"
  by (simp add: sampled_def nth_append)

lemma fold_on_group:
  fixes options :: verify_options
  assumes "\<forall>r \<in> set rs. length r < 2 ^ 64" "length rs < 2 ^ 64"
  defines "n \<equiv> \<lambda>rs :: stored_copy list list. min (length rs) (unat (vo_max_findings options))"
  shows "fold (on_group options) rs ([], [])
    = (map (sampled options rs) [0..<n rs], sample_locations options (take (n rs) rs))"
  using assms(1,2)
proof (induction rs rule: rev_induct)
  case Nil
  then show ?case by (simp add: n_def sample_locations_def)
next
  case (snoc r rs)
  let ?S = "map (sampled options rs) [0..<n rs]" and ?L = "sample_locations options (take (n rs) rs)"
  have ih: "fold (on_group options) rs ([], []) = (?S, ?L)" using snoc by simp
  have full: "(word_of_nat (length ?S) :: u64) \<ge> vo_max_findings options \<longleftrightarrow> unat (vo_max_findings options) \<le> length rs"
    using snoc.prems(2) by (simp add: n_def word_le_nat_alt unat_of_nat)
  have step: "fold (on_group options) (rs @ [r]) ([], []) = on_group options r (?S, ?L)" by (simp add: ih)
  show ?case
  proof (cases "unat (vo_max_findings options) \<le> length rs")
    case True
    then have "n (rs @ [r]) = n rs" "n rs \<le> length rs" by (simp_all add: n_def)
    moreover have "map (sampled options (rs @ [r])) [0..<n rs] = ?S"
      using calculation(2) by (intro map_cong) (simp_all add: sampled_append)
    ultimately show ?thesis using True full unfolding step by (simp add: on_group_def)
  next
    case False
    then have n: "n rs = length rs" "n (rs @ [r]) = Suc (length rs)" by (simp_all add: n_def)
    have len: "length r < 2 ^ 64" using snoc.prems(1) by simp
    have kept: "min (word_of_nat (length r)) (vo_max_locations_per_finding options) = (word_of_nat (kept_of options r) :: u64)"
      "unat (word_of_nat (kept_of options r) :: u64) = kept_of options r"
      using len unat_u64_less[of "vo_max_locations_per_finding options"]
      by (simp_all add: kept_of_def min_def word_le_nat_alt unat_of_nat)
    have om: "(word_of_nat (length r) :: u64) - word_of_nat (kept_of options r) = word_of_nat (length r - kept_of options r)"
      by (simp add: kept_of_def of_nat_diff)
    have "map (sampled options (rs @ [r])) [0..<length rs] = map (sampled options rs) [0..<length rs]"
      by (intro map_cong) (simp_all add: sampled_append)
    then show ?thesis
      using False full unfolding step
      by (simp add: on_group_def Let_def n kept om sampled_def[of options "rs @ [r]" "length rs"]
          nth_append sample_locations_def)
  qed
qed

lemma finding_of_sampled:
  assumes "k \<le> length rs" "j < k" "length (concat rs) < 2 ^ 64"
  shows "finding_of options (sample_locations options (take k rs)) (sampled options rs j)
    = \<lparr>df_multiplicity = word_of_nat (length (rs ! j)),
       df_locations = map location_of (take (kept_of options (rs ! j)) (rs ! j)),
       df_locations_omitted = word_of_nat (length (rs ! j) - kept_of options (rs ! j)),
       df_outpoint = (if vo_include_outpoints options then Some (sc_key (hd (rs ! j))) else None)\<rparr>"
proof -
  have j: "j < length rs" using assms by simp
  have split: "take k rs = take j rs @ rs ! j # drop (Suc j) (take k rs)"
  proof -
    have "take k rs = take j (take k rs) @ take k rs ! j # drop (Suc j) (take k rs)"
      by (rule id_take_nth_drop) (use assms in simp)
    moreover have "take j (take k rs) = take j rs" "take k rs ! j = rs ! j" using assms by simp_all
    ultimately show ?thesis by metis
  qed
  have L: "sample_locations options (take k rs) = sample_locations options (take j rs)
      @ map location_of (take (kept_of options (rs ! j)) (rs ! j))
      @ sample_locations options (drop (Suc j) (take k rs))"
    by (subst split) (simp add: sample_locations_def)
  have short: "length (sample_locations options xs) \<le> length (concat xs)" for xs
    by (induction xs) (auto simp: sample_locations_def kept_of_def)
  have all: "length (concat rs) = length (concat (take j rs)) + length (rs ! j) + length (concat (drop (Suc j) rs))"
    by (subst id_take_nth_drop[OF j]) simp
  have "length (sample_locations options (take j rs)) < 2 ^ 64" "kept_of options (rs ! j) < 2 ^ 64"
    using short[of "take j rs"] all assms(3) by (auto simp: kept_of_def)
  then have "unat (word_of_nat (length (sample_locations options (take j rs))) :: u64) = length (sample_locations options (take j rs))"
    "unat (word_of_nat (kept_of options (rs ! j)) :: u64) = kept_of options (rs ! j)"
    by (simp_all add: unat_of_nat)
  moreover have "length (take (kept_of options (rs ! j)) (rs ! j)) = kept_of options (rs ! j)"
    by (simp add: kept_of_def)
  ultimately show ?thesis by (simp add: finding_of_def sampled_def L)
qed

section \<open>The verdict\<close>

abbreviation distinct_cb :: "u64 \<Rightarrow> uniqueness_report \<times> finding_sample \<Rightarrow> uniqueness_report \<times> finding_sample" where
  "distinct_cb \<equiv> \<lambda>n (out, sample). (on_distinct n out, sample)"

abbreviation group_cb ::
  "verify_options \<Rightarrow> (stored_copy list \<Rightarrow> uniqueness_report \<times> finding_sample \<Rightarrow> uniqueness_report \<times> finding_sample) option" where
  "group_cb options \<equiv> Some (\<lambda>copies (out, sample). (out, on_group options copies sample))"

lemma fold_callbacks:
  assumes "\<forall>r \<in> set rs. length r < 2 ^ 64"
  shows "fold (report_run distinct_cb (group_cb options)) rs (out, sample)
    = (fold (\<lambda>n. on_distinct (word_of_nat n)) (map length rs) out,
       fold (on_group options) (filter (\<lambda>r. 1 < length r) rs) sample)"
  using assms
proof (induction rs arbitrary: out sample)
  case (Cons r rs)
  then show ?case using more_than_one[of "length r"] by (simp add: report_run_def Let_def)
qed simp

text \<open>A verification that returns: the runs it saw, what it counted and what it kept of them.\<close>

lemma verify_returned:
  assumes run: "verify_unique_outpoints E options db = (Inr out, db')" and few: "length (stored_copies db) < 2 ^ 64"
  obtains rs out0 where "one_run_per_key rs (stored_copies db)"
    and "counted_as (map length rs) (empty_uniqueness_report (db_mode db) (vo_include_outpoints options)) out0"
    and "summary_of out = (summary_of out0)\<lparr>ks_unique := ur_duplicate_copies out0 = 0\<rparr>"
    and "ur_findings out = map (finding_of options (sample_locations options
          (take (unat (vo_max_findings options)) (filter (\<lambda>r. 1 < length r) rs))))
        (map (sampled options (filter (\<lambda>r. 1 < length r) rs))
          [0..<min (length (filter (\<lambda>r. 1 < length r) rs)) (unat (vo_max_findings options))])"
    and "ur_findings_omitted out = ur_keys_with_multiple_copies out - word_of_nat (length (ur_findings out))"
    and "br_estimated_peak (ur_walk out) \<le> vo_memory_budget options" and "same_disk (db_disk db) (db_disk db')"
proof -
  let ?b = "vo_memory_budget options"
  let ?opts = "\<lparr>wo_memory_budget = ?b, wo_max_data_passes = vo_max_data_passes options\<rparr>"
  obtain caps bytes where sz: "verify_sizes options = Some (caps, bytes)"
    using run by (auto simp: verify_unique_outpoints_def split: option.splits)
  let ?out0 = "(empty_uniqueness_report (db_mode db) (vo_include_outpoints options))\<lparr>ur_report_bytes_estimate := bytes\<rparr>"
  obtain m1 m2 where r: "reserve (vo_max_findings options) size_of_sampled_finding (new_budget_meter (?b - headroom_of ?b)) = (True, m1)"
    "reserve caps size_of_duplicate_location m1 = (True, m2)"
    using run sz by (auto simp: verify_unique_outpoints_def Let_def split: if_splits prod.splits bool.splits)
  obtain x s' m3 d where w: "walk_distinct_keys E ?opts distinct_cb (group_cb options) db (?out0, [], []) m2 (db_disk db) = (x, s', m3, d)"
    by (rule prod_cases4)
  obtain out1 smp locs where s': "s' = (out1, smp, locs)" by (rule prod_cases3)
  obtain rep where x: "x = Inr rep" and fin: "db' = db\<lparr>db_disk := d\<rparr>"
    "out = out1\<lparr>ur_findings := map (finding_of options locs) smp, ur_unique := (ur_duplicate_copies out1 = 0),
       ur_findings_omitted := ur_keys_with_multiple_copies out1 - word_of_nat (length smp), ur_walk := rep,
       ur_report_bytes_estimate := ur_report_bytes_estimate out1
         + word_of_nat (length (br_duration_per_pass_ms rep)) * 8\<rparr>"
    using run sz r w s' by (cases x) (auto simp: verify_unique_outpoints_def Let_def split: if_splits)
  have "steady (?b - headroom_of ?b) (new_budget_meter (?b - headroom_of ?b))"
    by (simp add: steady_def meter_inv_def new_budget_meter_def)
  then have st: "steady (wo_memory_budget ?opts - headroom_of (wo_memory_budget ?opts)) m2"
    using steady_reserve[OF steady_reserve[OF _ r(1)] r(2)] by simp
  note walked = walk_spec[OF w same_disk_refl few st]
  obtain rs where rs: "one_run_per_key rs (stored_copies db)"
    "s' = fold (report_run distinct_cb (group_cb options)) rs (?out0, [], [])"
    and peak: "br_estimated_peak rep \<le> ?b"
    using walked(2)[OF x] by auto
  let ?many = "filter (\<lambda>r. 1 < length r) rs" and ?ns = "map length rs"
  have total: "length (concat rs) = length (stored_copies db)"
    using rs(1) unfolding one_run_per_key_def by (metis size_mset)
  have short: "length r < 2 ^ 64" if "r \<in> set rs" for r
  proof -
    have "length r \<le> length (concat rs)" using that member_le_sum_list[of "length r" ?ns] by (simp add: length_concat)
    then show ?thesis using few total by simp
  qed
  have pos: "0 < length r" if "r \<in> set rs" for r
    using that rs(1) unfolding one_run_per_key_def by blast
  have "length rs \<le> length (concat rs)" using pos
  proof (induction rs)
    case (Cons r rs)
    then have "0 < length r" "length rs \<le> length (concat rs)" by simp_all
    then show ?case unfolding concat.simps length_append list.size by linarith
  qed simp
  moreover have "length ?many \<le> length rs" by (rule length_filter_le)
  ultimately have count: "length ?many < 2 ^ 64" using few unfolding total by linarith
  have both: "out1 = fold (\<lambda>n. on_distinct (word_of_nat n)) ?ns ?out0"
    "(smp, locs) = fold (on_group options) ?many ([], [])"
    using rs(2) s' fold_callbacks[of rs options ?out0 "([], [])"] short by auto
  have "counted_as ?ns ?out0 out1" unfolding both(1) using short pos by (intro fold_on_distinct) auto
  then have counted: "counted_as ?ns (empty_uniqueness_report (db_mode db) (vo_include_outpoints options)) out1"
    by (simp add: counted_as_def)
  have smp: "smp = map (sampled options ?many) [0..<min (length ?many) (unat (vo_max_findings options))]"
    "locs = sample_locations options (take (unat (vo_max_findings options)) ?many)"
    using both(2) fold_on_group[of ?many options] short count by (auto simp: min_def)
  show ?thesis
  proof (rule that[OF rs(1) counted])
    show "summary_of out = (summary_of out1)\<lparr>ks_unique := ur_duplicate_copies out1 = 0\<rparr>"
      by (simp add: fin summary_of_def)
  qed (use fin smp peak walked(1) in simp_all)
qed

lemma verify_counts:
  assumes run: "verify_unique_outpoints E options db = (Inr out, db')" and few: "length (stored_keys db) < 2 ^ 64"
  shows "summary_of out = count_directly (stored_keys db)
    \<and> br_estimated_peak (ur_walk out) \<le> vo_memory_budget options
    \<and> same_disk (db_disk db) (db_disk db')"
proof -
  let ?keys = "stored_keys db"
  have few': "length (stored_copies db) < 2 ^ 64" using few by (simp add: stored_keys_def)
  obtain rs out0 where rs: "one_run_per_key rs (stored_copies db)"
    and counted: "counted_as (map length rs) (empty_uniqueness_report (db_mode db) (vo_include_outpoints options)) out0"
    and out: "summary_of out = (summary_of out0)\<lparr>ks_unique := ur_duplicate_copies out0 = 0\<rparr>"
    and rest: "br_estimated_peak (ur_walk out) \<le> vo_memory_budget options" "same_disk (db_disk db) (db_disk db')"
    using verify_returned[OF run few'] by metis
  let ?ms = "multiplicities ?keys"
  have ms: "mset (map length rs) = mset ?ms" using run_multiplicities[OF rs] by (simp add: stored_keys_def)
  then have same: "length (map length rs) = length ?ms" "sum_list (map length rs) = sum_list ?ms"
    "length (filter P (map length rs)) = length (filter P ?ms)"
    "sum_list (map f (map length rs)) = sum_list (map f ?ms)" "set (map length rs) = set ?ms" for P and f :: "nat \<Rightarrow> nat"
    by (metis size_mset, metis sum_mset_sum_list, metis mset_filter size_mset,
        metis mset_map sum_mset_sum_list, metis set_mset_mset)
  have "fold max (map length rs) 0 = Max (set (0 # map length rs))" by (rule Max.set_eq_fold[symmetric])
  also have "\<dots> = Max (set (0 # ?ms))" using same(5) by (simp only: list.set)
  also have "\<dots> = fold max ?ms 0" by (rule Max.set_eq_fold)
  finally have top: "fold max (map length rs) 0 = fold max ?ms 0" .
  have sum: "sum_list ?ms = length ?keys" by (rule multiplicities_sum)
  have pred: "sum_list (map (\<lambda>n. n - 1) ?ms) + length ?ms = length ?keys"
  proof -
    have "\<forall>n \<in> set ?ms. 0 < n" by (blast intro: multiplicities_pos)
    then show ?thesis using sum_list_pred[of ?ms] sum by simp
  qed
  have len: "length ?ms = length (remdups ?keys)" by (simp add: multiplicities_def)
  have le: "length (filter P ?ms) \<le> length ?ms" "length ?ms \<le> length ?keys" for P
    using pred by (simp_all add: length_filter_le)
  have fits: "unat (word_of_nat n :: u64) = n" if "n \<le> length ?keys" for n
    using that few by (simp add: unat_of_nat)
  have dup: "sum_list (map (\<lambda>n. n - 1) ?ms) = length ?keys - length (remdups ?keys)" using pred len by simp
  note counted' = counted[unfolded counted_as_def same top sum dup len]
  have parts: "unat (ur_physical_entries out0) = length ?keys" "unat (ur_distinct_outpoints out0) = length (remdups ?keys)"
    "unat (ur_duplicate_copies out0) = length ?keys - length (remdups ?keys)"
    "unat (ur_keys_with_multiple_copies out0) = length (filter (\<lambda>n. 1 < n) ?ms)"
    "unat (ur_max_copies_for_one_key out0) = fold max ?ms 0"
    using counted' fits[of "length ?keys"] fits[of "length (remdups ?keys)"]
      fits[of "length ?keys - length (remdups ?keys)"] fits[OF order_trans[OF le(1,2)], of "\<lambda>n. 1 < n"] le(2) len top
    by (simp_all add: empty_uniqueness_report_def del: of_nat_diff)
  have "ur_duplicate_copies out0 = 0 \<longleftrightarrow> unat (ur_duplicate_copies out0) = 0" by (simp add: unat_eq_0)
  also have "\<dots> \<longleftrightarrow> length (remdups ?keys) = length ?keys"
    unfolding parts(3) using length_remdups_leq[of ?keys] by linarith
  also have "\<dots> \<longleftrightarrow> distinct ?keys" by (metis length_remdups_eq remdups_id_iff_distinct)
  finally have "ur_duplicate_copies out0 = 0 \<longleftrightarrow> distinct ?keys" .
  then have "summary_of out = count_directly ?keys"
    unfolding out by (simp add: summary_of_def count_directly_def parts)
  with rest show ?thesis by blast
qed

text \<open>
  C14: the verification passes over the store once per partition group, with only the records of one
  group in memory; whatever groups the budget forces, its verdict and its counts are those of
  counting all stored keys directly, the memory it reports stays within the budget, and nothing
  stored changes.
\<close>

theorem verify_counts_exactly:
  assumes "verify_unique_outpoints E options db = (Inr out, db')" and "length (stored_keys db) < 2 ^ 64"
  shows "summary_of out = count_directly (stored_keys db)
    \<and> br_estimated_peak (ur_walk out) \<le> vo_memory_budget options
    \<and> same_disk (db_disk db) (db_disk db')"
  by (rule verify_counts[OF assms])

text \<open>
  C16: the sample of findings tells the truth: as many as the report may name, counting the rest as
  omitted; each one a key that is stored more than once, with its number of copies, and with
  locations that hold a copy of it.
\<close>

theorem verify_findings_true:
  assumes run: "verify_unique_outpoints E options db = (Inr out, db')" and few: "length (stored_keys db) < 2 ^ 64"
  shows "length (ur_findings out) = min (ks_multiple (count_directly (stored_keys db))) (unat (vo_max_findings options))
    \<and> unat (ur_findings_omitted out) = ks_multiple (count_directly (stored_keys db)) - length (ur_findings out)
    \<and> (\<forall>f \<in> set (ur_findings out). \<exists>key. 1 < count_list (stored_keys db) key
         \<and> unat (df_multiplicity f) = count_list (stored_keys db) key
         \<and> length (df_locations f) + unat (df_locations_omitted f) = count_list (stored_keys db) key
         \<and> mset (df_locations f) \<subseteq># image_mset location_of
             (filter_mset (\<lambda>c. sc_key c = key) (mset (stored_copies db)))
         \<and> df_outpoint f = (if vo_include_outpoints options then Some key else None))"
proof -
  let ?keys = "stored_keys db" and ?mf = "unat (vo_max_findings options)"
  have few': "length (stored_copies db) < 2 ^ 64" using few by (simp add: stored_keys_def)
  obtain rs out0 where rs: "one_run_per_key rs (stored_copies db)"
    and out: "summary_of out = (summary_of out0)\<lparr>ks_unique := ur_duplicate_copies out0 = 0\<rparr>"
    and find: "ur_findings out = map (finding_of options (sample_locations options (take ?mf (filter (\<lambda>r. 1 < length r) rs))))
        (map (sampled options (filter (\<lambda>r. 1 < length r) rs))
          [0..<min (length (filter (\<lambda>r. 1 < length r) rs)) ?mf])"
    and omitted: "ur_findings_omitted out = ur_keys_with_multiple_copies out - word_of_nat (length (ur_findings out))"
    using verify_returned[OF run few'] by metis
  let ?many = "filter (\<lambda>r. 1 < length r) rs"
  let ?n = "min (length ?many) ?mf"
  have "mset (map length rs) = mset (multiplicities ?keys)" using run_multiplicities[OF rs] by (simp add: stored_keys_def)
  then have "length (filter (\<lambda>n. 1 < n) (map length rs)) = length (filter (\<lambda>n. 1 < n) (multiplicities ?keys))"
    by (metis mset_filter size_mset)
  then have many: "length ?many = ks_multiple (count_directly ?keys)"
    by (simp add: count_directly_def filter_map comp_def)
  have "summary_of out = count_directly ?keys" using verify_counts[OF run few] by blast
  then have multi: "unat (ur_keys_with_multiple_copies out) = length ?many"
    unfolding many by (metis key_summary.select_convs(5) summary_of_def)
  have n: "length (ur_findings out) = ?n" by (simp add: find)
  have "?n < 2 ^ 64" using multi unat_u64_less[of "ur_keys_with_multiple_copies out"] by linarith
  then have om: "unat (ur_findings_omitted out) = length ?many - ?n"
    using multi by (simp add: omitted n unat_sub word_le_nat_alt unat_of_nat)
  have total: "length (concat ?many) < 2 ^ 64"
  proof -
    have "length (concat rs) = length (stored_copies db)"
      using rs unfolding one_run_per_key_def by (metis size_mset)
    moreover have "length (concat ?many) \<le> length (concat rs)" by (induction rs) auto
    ultimately show ?thesis using few' by simp
  qed
  have each: "\<exists>key. 1 < count_list ?keys key \<and> unat (df_multiplicity f) = count_list ?keys key
      \<and> length (df_locations f) + unat (df_locations_omitted f) = count_list ?keys key
      \<and> mset (df_locations f) \<subseteq># image_mset location_of (filter_mset (\<lambda>c. sc_key c = key) (mset (stored_copies db)))
      \<and> df_outpoint f = (if vo_include_outpoints options then Some key else None)"
    if f: "f \<in> set (ur_findings out)" for f
  proof -
    obtain j where j: "j < ?n" and fj: "f = finding_of options (sample_locations options (take ?mf ?many)) (sampled options ?many j)"
      using f by (auto simp: find)
    have "take ?mf ?many = take ?n ?many" by (cases "length ?many \<le> ?mf") (simp_all add: min_def)
    then have f': "f = \<lparr>df_multiplicity = word_of_nat (length (?many ! j)),
       df_locations = map location_of (take (kept_of options (?many ! j)) (?many ! j)),
       df_locations_omitted = word_of_nat (length (?many ! j) - kept_of options (?many ! j)),
       df_outpoint = (if vo_include_outpoints options then Some (sc_key (hd (?many ! j))) else None)\<rparr>"
      using finding_of_sampled[OF _ j total, of options] by (simp add: fj)
    let ?r = "?many ! j" and ?key = "sc_key (hd (?many ! j))"
    have r: "?r \<in> set rs" "1 < length ?r" using j nth_mem[of j ?many] by auto
    note copies = run_copies[OF rs r(1), folded stored_keys_def]
    have small: "length ?r < 2 ^ 64" using copies(2) few count_le_length[of ?keys ?key] by linarith
    have "mset (take (kept_of options ?r) ?r) \<subseteq># mset ?r"
      by (metis append_take_drop_id mset_append mset_subset_eq_add_left)
    then have "mset (df_locations f) \<subseteq># image_mset location_of (filter_mset (\<lambda>c. sc_key c = ?key) (mset (stored_copies db)))"
      using image_mset_subseteq_mono[of _ _ location_of] unfolding copies(1) by (simp add: f')
    moreover have "length (df_locations f) + unat (df_locations_omitted f) = length ?r"
    proof -
      have "unat (word_of_nat (length ?r - kept_of options ?r) :: u64) = length ?r - kept_of options ?r"
        using small by (intro unat_small) simp
      then show ?thesis unfolding f' by (simp add: kept_of_def)
    qed
    ultimately show ?thesis
      using copies(2) r(2) small by (intro exI[of _ ?key]) (simp add: f' unat_of_nat)
  qed
  show ?thesis using n om each many by simp
qed

end
