(* ===== verification/Verify_Progress.thy ===== *)
theory Verify_Progress
  imports Verifying
begin

text \<open>
  A verification gets done: in a system that does not fail, on a store whose versions are usable,
  with a budget that holds every record at once.
\<close>

section \<open>The meter has room\<close>

definition meter_at :: "u64 \<Rightarrow> nat \<Rightarrow> budget_meter \<Rightarrow> bool" where
  "meter_at c n m \<longleftrightarrow> bm_ceiling m = c \<and> unat (bm_outstanding m) = n \<and> n \<le> unat c \<and> \<not> bm_unbalanced m"

lemma acquire_room_for:
  assumes "meter_at c n m" "n + unat k \<le> unat c"
  shows "\<exists>m'. acquire k m = (True, m') \<and> meter_at c (n + unat k) m'"
proof -
  have "bm_outstanding m \<le> bm_ceiling m" using assms(1) by (simp add: meter_at_def word_le_nat_alt)
  then have "\<not> k > bm_ceiling m - bm_outstanding m"
    using assms by (simp add: meter_at_def not_less word_le_nat_alt unat_sub)
  moreover have "unat (bm_outstanding m + k) = n + unat k"
    using assms unat_u64_less[of c] by (simp add: meter_at_def unat_word_ariths)
  ultimately show ?thesis using assms by (simp add: acquire_def meter_at_def Let_def)
qed

lemma reserve_room_for:
  assumes "meter_at c n m" "n + unat k * unat e \<le> unat c"
  shows "\<exists>m'. reserve k e m = (True, m') \<and> meter_at c (n + unat k * unat e) m'"
proof (cases "k = 0")
  case True
  then show ?thesis using assms by (simp add: reserve_def)
next
  case False
  have "unat k * unat e < 2 ^ 64" using assms(2) unat_u64_less[of c] by linarith
  then obtain tot where tot: "checked_mul k e = Some tot" "unat tot = unat k * unat e"
    using checked_mul_None_iff[of k e] checked_mul_Some_iff[of k e] by (cases "checked_mul k e") auto
  then obtain m' where "acquire tot m = (True, m')" "meter_at c (n + unat k * unat e) m'"
    using acquire_room_for[OF assms(1), of tot] assms(2) by auto
  then show ?thesis using False tot by (simp add: reserve_def allocate_def)
qed

lemma deallocate_held:
  assumes "meter_at c n m" "unat k * unat e \<le> n"
  shows "meter_at c (n - unat k * unat e) (deallocate k e m)"
proof -
  have "unat k * unat e < 2 ^ 64" using assms unat_u64_less[of c] by (simp add: meter_at_def)
  then have ke: "unat (k * e) = unat k * unat e" by (simp add: unat_word_ariths)
  then have "k * e \<le> bm_outstanding m" using assms by (simp add: meter_at_def word_le_nat_alt)
  then show ?thesis using assms ke by (auto simp: deallocate_def release_def meter_at_def unat_sub not_less)
qed

lemma fits_when:
  assumes "unat cap * unat rec + unat over + unat head \<le> unat budget"
  shows "fst (fits_in_budget cap rec over head budget)"
proof -
  have b: "unat budget < 2 ^ 64" by (rule unat_u64_less)
  obtain p where p: "checked_mul cap rec = Some p" "unat p = unat cap * unat rec"
    using assms b checked_mul_None_iff[of cap rec] checked_mul_Some_iff[of cap rec]
    by (cases "checked_mul cap rec") auto
  obtain q where q: "checked_add p over = Some q" "unat q = unat p + unat over"
    using assms b p checked_add_None_iff[of p over] checked_add_Some_iff[of p over]
    by (cases "checked_add p over") auto
  obtain r where r: "checked_add q head = Some r" "unat r = unat q + unat head"
    using assms b p q checked_add_None_iff[of q head] checked_add_Some_iff[of q head]
    by (cases "checked_add q head") auto
  show ?thesis using assms by (simp add: fits_in_budget_def p q r word_le_nat_alt)
qed

section \<open>Every visit succeeds\<close>

lemma visit_versions_completes:
  assumes "\<forall>n. \<not> fails E n" "same_disk (db_disk db) d"
    and "\<forall>v \<in> set vs. generation_ok E (db_database_id db) (db_disk db) i v"
  shows "\<exists>n' s' d'. visit_versions E fn db i vs n s d = (Inr (), n', s', d')"
  using assms(2,3)
proof (induction vs arbitrary: n s d)
  case (Cons v vs)
  show ?case
  proof (cases "v = db_current_versions db i \<and> db_mapped db i")
    case True
    then show ?thesis using Cons.IH[OF Cons.prems(1)] Cons.prems(2) by (simp add: Let_def)
  next
    case False
    obtain g t where "lookup_file d (data_path i v) = Some (Segment g)"
      "good_segment (local_build E) (db_database_id db) (kind_of_index i) v g t"
      using Cons.prems same_disk_lookup[OF Cons.prems(1)] by (auto simp: generation_ok_def)
    then obtain d1 where op: "open_checked E (db_database_id db) (kind_of_index i) (data_path i v) v d = (Inr t, d1)"
      using open_checked_good[OF _ _ assms(1)] by blast
    have "same_disk (db_disk db) d1" using same_disk_ops(6)[OF op] Cons.prems(1) by (simp add: same_disk_def)
    then show ?thesis using Cons.IH[of d1] Cons.prems(2) False op by (auto simp: Let_def)
  qed
qed simp

lemma visit_containers_completes:
  assumes "\<forall>n. \<not> fails E n" "same_disk (db_disk db) d" "\<forall>i \<in> set is. container_inv E db i"
  shows "\<exists>n' s' d'. visit_containers E fn db is n s d = (Inr (), n', s', d')"
  using assms(2,3)
proof (induction "is" arbitrary: n s d)
  case (Cons i "is")
  have "\<forall>v \<in> set (vc_versions (db_catalogs db i)). generation_ok E (db_database_id db) (db_disk db) i v"
    using Cons.prems(2) by (simp add: container_inv_def)
  then obtain n1 s1 d1 where v: "visit_versions E fn db i (vc_versions (db_catalogs db i)) n s d = (Inr (), n1, s1, d1)"
    using visit_versions_completes[where fn = fn and n = n and s = s, OF assms(1) Cons.prems(1)] by blast
  have "same_disk (db_disk db) d1" using visit_versions_spec[OF v Cons.prems(1)] by blast
  then show ?case using Cons.IH[of d1] Cons.prems(2) v by simp
qed simp

lemma visit_completes:
  assumes "\<forall>n. \<not> fails E n" "store_inv E db" "same_disk (db_disk db) d"
  shows "\<exists>n' s' d'. visit_stored_entries E fn db s d = (Inr (), n', s', d')"
  unfolding visit_stored_entries_def
  using assms by (intro visit_containers_completes) (auto simp: store_inv_def serving_def)

section \<open>One group is enough\<close>

lemma plan_one_group:
  assumes counts: "\<And>p. p < planning_prefixes \<Longrightarrow> counts ! p = word_of_nat (cnt p)"
    and sum: "sum cnt {..<planning_prefixes} \<le> unat limit"
  shows "length (plan_groups counts limit) \<le> 1"
proof -
  have small: "sum cnt {..<planning_prefixes} < 2 ^ 64" using sum unat_u64_less[of limit] by linarith
  have "plan_state cnt k (fold (plan_step counts limit) [0..<k] (None, []))
      \<and> snd (fold (plan_step counts limit) [0..<k] (None, [])) = []" if "k \<le> planning_prefixes" for k
    using that
  proof (induction k)
    case 0
    then show ?case by (simp add: plan_state_def plan_ok_def)
  next
    case (Suc k)
    then have k: "k < planning_prefixes" by simp
    obtain cur where cur: "fold (plan_step counts limit) [0..<k] (None, []) = (cur, [])"
      using Suc by (metis prod.collapse less_imp_le k)
    then have st: "plan_state cnt k (cur, [])" using Suc k by simp
    have "\<not> pg_records g + counts ! k > limit" if "cur = Some g" for g
    proof -
      have ok: "unat (pg_records g) = sum cnt (span g)" "Suc (unat (pg_last g)) = k"
        using st that by (simp_all add: plan_state_def plan_ok_def)
      have "sum cnt (span g) + cnt k = sum cnt (insert k (span g))"
        using ok(2) by (simp add: span_def)
      also have "\<dots> \<le> sum cnt {..<planning_prefixes}"
        using ok(2) k by (intro sum_mono2) (auto simp: span_def)
      finally show ?thesis
        using sum small counts[OF k] ok(1) by (simp add: not_less word_le_nat_alt unat_word_ariths unat_of_nat)
    qed
    then have "snd (plan_step counts limit k (cur, [])) = []"
      by (cases cur) (simp_all add: plan_step_def Let_def)
    moreover have "plan_state cnt (Suc k) (plan_step counts limit k (cur, []))"
      by (rule plan_step_state[OF st k counts[OF k] small])
    ultimately show ?case by (simp add: cur)
  qed
  from this[OF order_refl] show ?thesis
    by (auto simp: plan_groups_def split: prod.splits option.splits)
qed

lemma data_pass_completes:
  assumes calm: "\<forall>n. \<not> fails E n" and inv: "store_inv E db" and same: "same_disk (db_disk db) d"
    and planned: "unat (pg_records grp) = length (filter (in_group grp) (stored_copies db))"
    and m: "meter_at c n m" and room: "n + 56 * length (stored_copies db) \<le> unat c"
    and few: "56 * length (stored_copies db) < 2 ^ 63"
  shows "\<exists>rep' s' m' d'. data_pass E f g db grp (rep, s, m, d) = (Inr (), rep', s', m', d')
    \<and> meter_at c n m' \<and> same_disk (db_disk db) d'"
proof -
  let ?C = "stored_copies db" and ?r0 = "\<lparr>held = [], room = pg_records grp, thrown = False\<rparr>"
  have le: "unat (pg_records grp) \<le> length ?C" unfolding planned by (rule length_filter_le)
  have fits: "count_fits_platform (pg_records grp)"
    by (simp add: count_fits_platform_def count_fits_addressable_def)
  have fits': "\<not> vector_max_size size_of_stored_copy < pg_records grp"
    using le few by (simp add: vector_max_size_def size_of_stored_copy_def not_less word_le_nat_alt)
  have size: "n + unat (pg_records grp) * unat size_of_stored_copy \<le> unat c"
    using le room by (simp add: size_of_stored_copy_def)
  obtain m1 where res: "reserve (pg_records grp) size_of_stored_copy m = (True, m1)"
    and m1: "meter_at c (n + unat (pg_records grp) * unat size_of_stored_copy) m1"
    using reserve_room_for[OF m size] by blast
  obtain k st d1 where "visit_stored_entries E (collect_entry grp) db (0, ?r0, m1) d = (Inr (), k, st, d1)"
    using visit_completes[where fn = "collect_entry grp" and s = "(0, ?r0, m1)", OF calm inv same] by blast
  moreover obtain seen rc m2 where "st = (seen, rc, m2)" by (rule prod_cases3)
  ultimately have v: "visit_stored_entries E (collect_entry grp) db (0, ?r0, m1) d = (Inr (), k, (seen, rc, m2), d1)"
    by simp
  note vis = visit_spec[OF v same]
  have fin: "rc = ?r0\<lparr>held := filter (in_group grp) ?C\<rparr>" "m2 = m1"
    using vis(2) collect_entries[of ?r0 grp ?C 0 m1] planned by simp_all
  have full: "word_of_nat (length (filter (in_group grp) ?C)) = pg_records grp" by (simp flip: planned)
  have "meter_at c n (deallocate (pg_records grp) size_of_stored_copy m1)"
    using deallocate_held[OF m1, of "pg_records grp" size_of_stored_copy] by simp
  then show ?thesis using vis(1) by (simp add: data_pass_def Let_def fits fits' res v fin full)
qed

section \<open>The walk and the verification\<close>

text \<open>What the budget has to hold: the sample, the sort's allowance, the counters, the groups and all records.\<close>

definition roomy :: "verify_options \<Rightarrow> 'v database \<Rightarrow> bool" where
  "roomy options db \<longleftrightarrow>
     unat (vo_max_findings options) * 72
       + unat (vo_max_findings options) * unat (vo_max_locations_per_finding options) * 16
       + 1179648 + 56 * max 1 (length (stored_copies db))
     \<le> unat (vo_memory_budget options) - unat (vo_memory_budget options) div 10
   \<and> unat (vo_memory_budget options) < 2 ^ 63 \<and> 1 \<le> unat (vo_max_data_passes options)"

lemma walk_completes:
  assumes calm: "\<forall>n. \<not> fails E n" and inv: "store_inv E db" and same: "same_disk (db_disk db) d"
    and m: "meter_at c n m" and c: "c = wo_memory_budget opts - headroom_of (wo_memory_budget opts)"
    and room: "n + 1179648 + 56 * max 1 (length (stored_copies db)) \<le> unat c"
    and few: "56 * length (stored_copies db) < 2 ^ 63" and passes: "1 \<le> unat (wo_max_data_passes opts)"
  shows "\<exists>rep s' m' d'. walk_distinct_keys E opts f g db s m d = (Inr rep, s', m', d') \<and> meter_at c (n + 1048576) m'"
proof -
  let ?C = "stored_copies db" and ?b = "wo_memory_budget opts"
  define N :: u64 where "N = word_of_nat planning_prefixes"
  have n: "unat N = 4096" "unat (8 :: u64) = 8" "unat size_of_partition_group = 24" "unat sort_allowance = 1048576"
    by (simp_all add: N_def size_of_partition_group_def sort_allowance_def)
  obtain m1 where a: "acquire sort_allowance m = (True, m1)" and m1: "meter_at c (n + 1048576) m1"
    using acquire_room_for[OF m, of sort_allowance, unfolded n] room by auto
  obtain m2 where b: "reserve N 8 m1 = (True, m2)" and m2: "meter_at c (n + 1081344) m2"
    using reserve_room_for[OF m1, of N 8, unfolded n] room by (auto simp: add.assoc)
  obtain seen st d1 where "visit_stored_entries E count_entry db (replicate planning_prefixes 0, 0) d = (Inr (), seen, st, d1)"
    using visit_completes[where fn = count_entry and s = "(replicate planning_prefixes 0, 0)", OF calm inv same] by blast
  moreover obtain counts total where "st = (counts, total)" by (cases st)
  ultimately have v: "visit_stored_entries E count_entry db (replicate planning_prefixes 0, 0) d
    = (Inr (), seen, (counts, total), d1)" by simp
  note vis = visit_spec[OF v same]
  have counts: "counts = map (\<lambda>p. word_of_nat (in_prefix ?C p)) [0..<planning_prefixes]"
    using vis(2)[OF refl] by (simp only: planned_counts prod.inject)
  obtain m3 where r: "reserve N size_of_partition_group m2 = (True, m3)" and m3: "meter_at c (n + 1179648) m3"
    using reserve_room_for[OF m2, of N size_of_partition_group, unfolded n] room by (auto simp: add.assoc)
  define limit where "limit = (bm_ceiling m3 - bm_outstanding m3) div size_of_stored_copy"
  have left: "unat (bm_ceiling m3 - bm_outstanding m3) = unat c - (n + 1179648)"
    using m3 by (simp add: meter_at_def unat_sub word_le_nat_alt)
  then have lim: "unat limit = (unat c - (n + 1179648)) div 56"
    by (simp add: limit_def size_of_stored_copy_def unat_div_distrib)
  then have lim': "length ?C \<le> unat limit" "1 \<le> unat limit" using room by simp_all
  have nz: "limit \<noteq> 0" using lim'(2) by auto
  let ?gs = "plan_groups counts limit"
  have small: "length ?C < 2 ^ 64" using few by simp
  have tot: "sum (in_prefix ?C) {..<planning_prefixes} \<le> unat limit" unfolding all_prefixes by (rule lim'(1))
  have one: "length ?gs \<le> 1" unfolding counts by (rule plan_one_group[OF _ tot]) simp
  note groups = planned_groups[OF small, of limit, folded counts]
  define rep0 where "rep0 = empty_budget_report\<lparr>br_record_bytes := size_of_stored_copy, br_memory_budget := ?b,
    br_headroom := headroom_of ?b, br_planning_passes := 1, br_generations_visited := seen,
    br_entries_examined_total := total, br_duration_per_pass_ms := [elapsed_ms E d d1],
    br_fixed_overhead := bm_outstanding m3, br_partitions := word_of_nat (length ?gs)\<rparr>"
  have few_groups: "\<not> wo_max_data_passes opts < word_of_nat (length ?gs)"
    using one passes by (cases "length ?gs") (simp_all add: word_less_nat_alt not_less)
  have h: "unat (headroom_of ?b) = unat ?b div 10" by (simp add: headroom_of_def unat_div_distrib)
  have ceil: "unat c + unat (headroom_of ?b) = unat ?b"
  proof -
    have "headroom_of ?b \<le> ?b" by (simp add: word_le_nat_alt h)
    then have "unat c = unat ?b - unat (headroom_of ?b)" unfolding c by (rule unat_sub)
    then show ?thesis using h by simp
  qed
  have fit: "list_all (\<lambda>g. fst (fits_in_budget (pg_records g) size_of_stored_copy (bm_outstanding m3)
      (headroom_of ?b) ?b)) ?gs"
    unfolding list_all_iff
  proof
    fix grp assume "grp \<in> set ?gs"
    then have "unat (pg_records grp) \<le> length ?C" using groups(1) length_filter_le by metis
    then show "fst (fits_in_budget (pg_records grp) size_of_stored_copy (bm_outstanding m3) (headroom_of ?b) ?b)"
      using room m3 ceil by (intro fits_when) (simp add: size_of_stored_copy_def meter_at_def)
  qed
  obtain rep1 s1 m4 d2 where p: "data_passes E f g db ?gs (rep0, s, m3, d1) = (Inr (), rep1, s1, m4, d2)"
    and m4: "meter_at c (n + 1179648) m4"
  proof (cases ?gs)
    case Nil
    then show ?thesis using that m3 by simp
  next
    case (Cons grp rest)
    then have gs: "?gs = [grp]" using one by simp
    have planned: "unat (pg_records grp) = length (filter (in_group grp) ?C)" using groups(1) gs by simp
    have "n + 1179648 + 56 * length ?C \<le> unat c" using room by simp
    from data_pass_completes[OF calm inv vis(1) planned m3 this few, of f g rep0 s]
    show ?thesis using that gs by auto
  qed
  have balanced: "\<not> bm_unbalanced m4" using m4 by (simp add: meter_at_def)
  have "meter_at c (n + 1081344) (deallocate N size_of_partition_group m4)"
    using deallocate_held[OF m4, of N size_of_partition_group, unfolded n] by (simp add: add.commute)
  from deallocate_held[OF this, of N 8, unfolded n]
  have fin: "meter_at c (n + 1048576) (deallocate N 8 (deallocate N size_of_partition_group m4))"
    by (simp add: add.commute)
  show ?thesis
    using fin p balanced nz few_groups fit
    by (simp add: walk_distinct_keys_def Let_def a b r v rep0_def flip: limit_def N_def del: planning_prefixes_eq)
qed

lemma verify_completes:
  assumes calm: "\<forall>n. \<not> fails E n" and inv: "store_inv E db" and room: "roomy options db"
  shows "\<exists>out db'. verify_unique_outpoints E options db = (Inr out, db')"
proof -
  let ?b = "vo_memory_budget options" and ?mf = "vo_max_findings options" and ?ml = "vo_max_locations_per_finding options"
  define c where "c = ?b - headroom_of ?b"
  have h: "unat (headroom_of ?b) = unat ?b div 10" by (simp add: headroom_of_def unat_div_distrib)
  have "headroom_of ?b \<le> ?b" by (simp add: word_le_nat_alt h)
  then have c: "unat c = unat ?b - unat ?b div 10" using h by (simp add: c_def unat_sub)
  have b: "unat ?b < 2 ^ 63" and passes: "1 \<le> unat (vo_max_data_passes options)"
    and need': "unat ?mf * 72 + unat ?mf * unat ?ml * 16 + 1179648 + 56 * max 1 (length (stored_copies db)) \<le> unat c"
    using room by (simp_all add: roomy_def c)
  define P where "P = unat ?mf * unat ?ml"
  note need = need'[folded P_def]
  have c63: "unat c < 9223372036854775808" using b c by simp
  have sizes: "unat size_of_sampled_finding = 72" "unat size_of_duplicate_location = 16"
    "unat size_of_duplicate_finding = 80" by (simp_all add: element_sizes)
  have "P < 18446744073709551616" using need c63 by linarith
  then have "unat ?mf * unat ?ml < 2 ^ 64" by (simp add: P_def)
  then obtain caps where caps: "checked_mul ?mf ?ml = Some caps" "unat caps = P"
    unfolding P_def
    using checked_mul_None_iff[of ?mf ?ml] checked_mul_Some_iff[of ?mf ?ml] by (cases "checked_mul ?mf ?ml") auto
  have "unat ?mf * 72 < 18446744073709551616" "unat caps * 16 < 18446744073709551616"
    "unat ?mf * 80 + unat caps * 16 < 18446744073709551616"
    using need c63 caps(2) by linarith+
  then have "unat ?mf * 72 < 2 ^ 64" "unat caps * 16 < 2 ^ 64" "unat ?mf * 80 + unat caps * 16 < 2 ^ 64" by simp_all
  then obtain s1 s2 s3 s4 where parts: "checked_mul ?mf size_of_sampled_finding = Some s1"
    "checked_mul caps size_of_duplicate_location = Some s2" "unat s2 = unat caps * 16"
    "checked_mul ?mf size_of_duplicate_finding = Some s3" "unat s3 = unat ?mf * 80"
    "checked_add s3 s2 = Some s4"
    using checked_mul_None_iff[of ?mf size_of_sampled_finding] checked_mul_None_iff[of caps size_of_duplicate_location]
      checked_mul_None_iff[of ?mf size_of_duplicate_finding] checked_mul_Some_iff[of caps size_of_duplicate_location]
      checked_mul_Some_iff[of ?mf size_of_duplicate_finding] checked_add_None_iff sizes
    by (cases "checked_mul ?mf size_of_sampled_finding"; cases "checked_mul caps size_of_duplicate_location";
        cases "checked_mul ?mf size_of_duplicate_finding") (auto, metis not_Some_eq not_le)
  have sz: "verify_sizes options = Some (caps, s4)" by (simp add: verify_sizes_def caps parts)
  have small: "\<not> vector_max_size size_of_sampled_finding < ?mf" "\<not> vector_max_size size_of_duplicate_location < caps"
    using need c63 caps(2) by (simp_all add: vector_max_size_def element_sizes not_less word_le_nat_alt)
  have start: "meter_at c 0 (new_budget_meter c)" by (simp add: meter_at_def new_budget_meter_def)
  obtain m1 where r1: "reserve ?mf size_of_sampled_finding (new_budget_meter c) = (True, m1)"
    and m1: "meter_at c (unat ?mf * 72) m1"
    using reserve_room_for[OF start, of ?mf size_of_sampled_finding] need sizes by auto
  obtain m2 where r2: "reserve caps size_of_duplicate_location m1 = (True, m2)"
    and m2: "meter_at c (unat ?mf * 72 + unat caps * 16) m2"
    using reserve_room_for[OF m1, of caps size_of_duplicate_location] need sizes caps(2) by auto
  let ?opts = "\<lparr>wo_memory_budget = ?b, wo_max_data_passes = vo_max_data_passes options\<rparr>"
  let ?out0 = "(empty_uniqueness_report (db_mode db) (vo_include_outpoints options))\<lparr>ur_report_bytes_estimate := s4\<rparr>"
  have "\<exists>rep s' m' d'. walk_distinct_keys E ?opts distinct_cb (group_cb options) db (?out0, [], []) m2 (db_disk db)
      = (Inr rep, s', m', d') \<and> meter_at c (unat ?mf * 72 + unat caps * 16 + 1048576) m'"
    using need c63 caps(2) passes
    by (intro walk_completes[OF calm inv same_disk_refl m2]) (simp_all add: c_def add.assoc)
  then obtain rep s' m3 d where w: "walk_distinct_keys E ?opts distinct_cb (group_cb options) db (?out0, [], []) m2 (db_disk db)
      = (Inr rep, s', m3, d)" and m3: "meter_at c (unat ?mf * 72 + unat caps * 16 + 1048576) m3" by blast
  obtain out1 smp locs where s': "s' = (out1, smp, locs)" by (rule prod_cases3)
  have "meter_at c (unat ?mf * 72 + 1048576) (deallocate caps size_of_duplicate_location m3)"
    using deallocate_held[OF m3, of caps size_of_duplicate_location, unfolded sizes] by simp
  from deallocate_held[OF this, of ?mf size_of_sampled_finding, unfolded sizes]
  have "\<not> bm_unbalanced (deallocate ?mf size_of_sampled_finding (deallocate caps size_of_duplicate_location m3))"
    by (simp add: meter_at_def)
  then show ?thesis
    using w s' small
    by (simp add: verify_unique_outpoints_def sz sample_fits_platform_def sample_fits_addressable_def
        count_fits_addressable_def Let_def r1 r2 flip: c_def)
qed

text \<open>
  C15: on a store whose versions are usable, in a system that does not fail, the verification returns
  a report whenever the budget holds its sample, its counters and one record per stored entry.
\<close>

theorem verify_returns:
  assumes "\<forall>n. \<not> fails E n" and "store_inv E db" and "roomy options db"
  shows "\<exists>out db'. verify_unique_outpoints E options db = (Inr out, db')"
  by (rule verify_completes[OF assms])

section \<open>A concrete verification\<close>

definition example_options :: verify_options where
  "example_options = \<lparr>vo_memory_budget = 268435456, vo_max_data_passes = 64, vo_include_outpoints = True,
     vo_max_findings = 16, vo_max_locations_per_finding = 16\<rparr>"

lemma example_keys_stored: "stored_keys (layered_store Reference_mode example_entry) = [old_key, new_key]"
proof -
  let ?db = "layered_store Reference_mode example_entry"
  have i: "reference_sentinel_index \<in> set (indices_of Reference_mode)" by (simp add: indices_of_def)
  have "map sc_key (copies_of_version ?db reference_sentinel_index v) = [if v = 0 then old_key else new_key]"
    if "v = 0 \<or> v = 1" for v
    unfolding copies_of_version_def copies_in_def layered_file_map[OF i that]
    by (simp add: layered_table_def indices_of_def tbl_add_def tbl_empty_def)
  then show ?thesis by (simp add: stored_keys_def stored_copies_def indices_of_def)
qed

lemma example_roomy: "roomy example_options (layered_store Reference_mode example_entry)"
proof -
  have "length (stored_copies (layered_store Reference_mode example_entry)) = 2"
    using arg_cong[OF example_keys_stored, of length] by (simp add: stored_keys_def)
  then show ?thesis by (simp add: roomy_def example_options_def)
qed

theorem verify_returns_witness:
  "\<exists>out db'. verify_unique_outpoints calm_env example_options (layered_store Reference_mode example_entry) = (Inr out, db')"
  by (rule verify_returns[OF _ layered_store_inv example_roomy]) simp

theorem verify_counts_exactly_witness:
  "\<exists>out db'. verify_unique_outpoints calm_env example_options (layered_store Reference_mode example_entry) = (Inr out, db')
     \<and> ur_unique out \<and> unat (ur_physical_entries out) = 2"
proof -
  obtain out db' where run: "verify_unique_outpoints calm_env example_options (layered_store Reference_mode example_entry)
      = (Inr out, db')"
    using verify_completes[OF _ layered_store_inv example_roomy] by auto
  have "summary_of out = count_directly [old_key, new_key]"
    using verify_counts_exactly[OF run] by (simp add: example_keys_stored)
  then show ?thesis using run by (simp add: summary_of_def count_directly_def)
qed

theorem verify_findings_true_witness:
  "\<exists>out db'. verify_unique_outpoints calm_env example_options (layered_store Reference_mode example_entry) = (Inr out, db')
     \<and> ur_findings out = []"
proof -
  obtain out db' where run: "verify_unique_outpoints calm_env example_options (layered_store Reference_mode example_entry)
      = (Inr out, db')"
    using verify_completes[OF _ layered_store_inv example_roomy] by auto
  have "length (ur_findings out) = 0"
    using verify_findings_true[OF run] by (simp add: example_keys_stored count_directly_def multiplicities_def)
  then show ?thesis using run by simp
qed

end
