(* ===== verification/Opening.thy ===== *)
theory Opening
  imports Merging Containers
begin

text \<open>
  Opening and closing a database: \<open>configure_internal\<close> and its four callers, \<open>close\<close> and \<open>size\<close>
  of \<open>src/database_impl.cpp\<close>, the lock of \<open>src/detail/database_lock.hpp\<close>, and the functions of
  \<open>src/database.cpp\<close> that make and destroy a handle. The lock is modelled for the POSIX branch;
  the answer of \<open>flock\<close> is the environment's. The two modes, which the source writes out one after
  the other, differ in the containers they have and are one definition over \<open>indices_of\<close>.
\<close>

section \<open>The lock\<close>

definition acquire_lock :: "'v env \<Rightarrow> 'v disk \<Rightarrow> unit result \<times> 'v disk" where
  "acquire_lock E d =
    (if fails E (ticks d) \<or> lookup_file d lock_file_name = Some Special
     then (Inl Database_lock_unavailable, tick d)
     else
      (let d = (if lookup_file d lock_file_name = None
                then put_file lock_file_name (Plain []) (tick d) else tick d)
       in if fails E (ticks d) then (Inl Database_lock_unavailable, tick d)
          else
           (case flock_answer E (ticks d + 1) of
              Granted \<Rightarrow> (Inr (), tick (tick d))
            | Contended \<Rightarrow> (Inl Database_in_use, tick (tick d))
            | Refused \<Rightarrow> (Inl Database_lock_unavailable, tick (tick d)))))"

text \<open>
  The holder's note overwrites the file from its start; a write that fails leaves the part that was
  written, and only a complete note is cut to its length.
\<close>

definition record_holder :: "'v env \<Rightarrow> 'v disk \<Rightarrow> 'v disk" where
  "record_holder E d =
    (case lookup_file d lock_file_name of
       None \<Rightarrow> d
     | Some f \<Rightarrow>
      (let note = holder_note E (ticks d); old = file_bytes E f; n = length (torn E (ticks d))
       in if fails E (ticks d)
          then put_file lock_file_name (Plain (take n note @ drop (length (take n note)) old)) (tick d)
          else
           (let d = put_file lock_file_name (Plain (note @ drop (length note) old)) (tick d)
            in if fails E (ticks d) then tick d
               else put_file lock_file_name (Plain note) (tick d))))"

section \<open>The directory\<close>

datatype open_intent = Open_or_create | Inspection

definition prepare_directory :: "'v env \<Rightarrow> open_intent \<Rightarrow> 'v disk \<Rightarrow> unit result \<times> 'v disk" where
  "prepare_directory E intent d =
    (case intent of
       Inspection \<Rightarrow>
         if place d \<noteq> Directory_absent \<and> fails E (ticks d) then (Inl Catalog_unreadable, tick d)
         else if place d \<noteq> Directory_present then (Inl Database_not_found, tick d)
         else (Inr (), tick d)
     | Open_or_create \<Rightarrow>
         if fails E (ticks d) \<or> place d = Not_a_directory then (Inl Catalog_unreadable, tick d)
         else (Inr (), (tick d)\<lparr>place := Directory_present\<rparr>))"

fun wipe_entries :: "'v env \<Rightarrow> string list \<Rightarrow> 'v disk \<Rightarrow> unit result \<times> 'v disk" where
  "wipe_entries E [] d = (Inr (), d)"
| "wipe_entries E (name # rest) d =
    (case (if name \<noteq> lock_file_name
           then (if fails E (ticks d) then (False, tick d) else (True, drop_file name (tick d)))
           else (True, d)) of
       (False, d) \<Rightarrow> (Inl Catalog_unreadable, d)
     | (True, d) \<Rightarrow>
         if fails E (ticks d) then (Inl Catalog_unreadable, tick d)
         else wipe_entries E rest (tick d))"

definition wipe_directory :: "'v env \<Rightarrow> 'v disk \<Rightarrow> unit result \<times> 'v disk" where
  "wipe_directory E d =
    (if fails E (ticks d) then (Inl Catalog_unreadable, tick d)
     else wipe_entries E (map fst (files d)) (tick d))"

section \<open>The configuration of the store\<close>

definition other_mode_file :: "storage_mode \<Rightarrow> string" where
  "other_mode_file mode =
    (case mode of Reference_mode \<Rightarrow> data_path 0 0 | Full_mode \<Rightarrow> data_path reference_sentinel_index 0)"

definition read_identity ::
  "'v env \<Rightarrow> storage_mode \<Rightarrow> 'v disk \<Rightarrow> database_id result \<times> 'v disk" where
  "read_identity E mode d =
    (case read_config_file E config_path d of
       (Inl e, d) \<Rightarrow> (Inl e, d)
     | (Inr config, d) \<Rightarrow>
         (case check_config_compatible (local_build E) config of
            Inl e \<Rightarrow> (Inl e, d)
          | Inr _ \<Rightarrow>
              if sc_mode config \<noteq> mode then (Inl Storage_mode_mismatch, d)
              else (Inr (sc_database_id config), d)))"

text \<open>\<open>system_entropy\<close> fills the sixteen bytes of the identity.\<close>

definition draw_identity :: "bytes \<Rightarrow> database_id" where
  "draw_identity drawn = take 16 (drawn @ replicate 16 0)"

definition make_identity ::
  "'v env \<Rightarrow> bool \<Rightarrow> storage_mode \<Rightarrow> 'v disk \<Rightarrow> database_id result \<times> 'v disk" where
  "make_identity E remove_existing mode d =
    (case (if remove_existing then (Inr False, d) else path_exists E (other_mode_file mode) d) of
       (Inl e, d) \<Rightarrow> (Inl e, d)
     | (Inr True, d) \<Rightarrow> (Inl Storage_mode_mismatch, d)
     | (Inr False, d) \<Rightarrow>
         (case entropy E (ticks d) of
            None \<Rightarrow> (Inl Entropy_unavailable, tick d)
          | Some drawn \<Rightarrow>
             (case save_config_to_disk E mode (draw_identity drawn) (tick d) of
                (Inl e, d) \<Rightarrow> (Inl e, d)
              | (Inr _, d) \<Rightarrow> (Inr (draw_identity drawn), d))))"

definition settle_identity ::
  "'v env \<Rightarrow> bool \<Rightarrow> storage_mode \<Rightarrow> open_intent \<Rightarrow> 'v disk \<Rightarrow> database_id result \<times> 'v disk" where
  "settle_identity E remove_existing mode intent d =
    (case path_exists E config_path d of
       (Inl e, d) \<Rightarrow> (Inl e, d)
     | (Inr config_exists, d) \<Rightarrow>
         if intent = Inspection \<and> \<not> config_exists then (Inl Database_not_found, d)
         else if config_exists \<and> \<not> remove_existing then read_identity E mode d
         else make_identity E remove_existing mode d)"

section \<open>The containers\<close>

fun list_catalogs :: "'v env \<Rightarrow> u64 list \<Rightarrow> 'v database \<Rightarrow> unit result \<times> 'v database" where
  "list_catalogs E [] db = (Inr (), db)"
| "list_catalogs E (i # is) db =
    (case enumerate_versions E (name_prefix i) ''.dat'' (db_disk db) of
       (Inl e, d) \<Rightarrow> (Inl e, db\<lparr>db_disk := d\<rparr>)
     | (Inr listed, d) \<Rightarrow>
         list_catalogs E is (db\<lparr>db_disk := d, db_catalogs := (db_catalogs db)
           (i := fold catalog_add listed (catalog_clear (db_catalogs db i)))\<rparr>))"

fun count_versions :: "'v env \<Rightarrow> u64 \<Rightarrow> u64 list \<Rightarrow> 'v database \<Rightarrow> unit result \<times> 'v database" where
  "count_versions E i [] db = (Inr (), db)"
| "count_versions E i (v # vs) db =
    (case open_checked E (db_database_id db) (kind_of_index i) (data_path i v) v (db_disk db) of
       (Inl e, d) \<Rightarrow> (Inl e, db\<lparr>db_disk := d\<rparr>)
     | (Inr t, d) \<Rightarrow>
         count_versions E i vs (db\<lparr>db_disk := d, db_entries_count := db_entries_count db + tbl_size t\<rparr>))"

text \<open>Once the active version is mapped: it is counted, and every version below it is opened.\<close>

definition survey_index :: "'v env \<Rightarrow> u64 \<Rightarrow> u64 \<Rightarrow> 'v database \<Rightarrow> unit result \<times> 'v database" where
  "survey_index E i latest_version db =
    (let db = db\<lparr>db_catalogs := (db_catalogs db)(i := catalog_add latest_version (db_catalogs db i)),
                db_entries_count := db_entries_count db + tbl_size (container db i)\<rparr>
     in case count_versions E i (catalog_below (db_catalogs db i) latest_version) db of
          (Inl e, db) \<Rightarrow> (Inl e, db)
        | (Inr _, db) \<Rightarrow>
            (Inr (), fold (load_metadata_from_disk E i) (vc_versions (db_catalogs db i)) db))"

definition open_index ::
  "'v env \<Rightarrow> open_intent \<Rightarrow> u64 \<Rightarrow> 'v database \<Rightarrow> unit call \<times> 'v database" where
  "open_index E intent i db =
    (let fresh = (vc_versions (db_catalogs db i) = []); latest_version = catalog_active (db_catalogs db i)
     in if fresh \<and> intent = Inspection then (Returned (Inr ()), db)
        else
         (case (if fresh then create_container E i latest_version db
                else apfst Returned (open_existing_container E i latest_version db)) of
            (Returned (Inr _), db) \<Rightarrow> apfst Returned (survey_index E i latest_version db)
          | failed \<Rightarrow> failed))"

fun open_indices ::
  "'v env \<Rightarrow> open_intent \<Rightarrow> u64 list \<Rightarrow> 'v database \<Rightarrow> unit call \<times> 'v database" where
  "open_indices E intent [] db = (Returned (Inr ()), db)"
| "open_indices E intent (i # is) db =
    (case open_index E intent i db of
       (Returned (Inr _), db) \<Rightarrow> open_indices E intent is db
     | failed \<Rightarrow> failed)"

definition open_containers :: "'v env \<Rightarrow> open_intent \<Rightarrow> 'v database \<Rightarrow> unit call \<times> 'v database" where
  "open_containers E intent db =
    (case list_catalogs E (indices_of (db_mode db)) db of
       (Inl e, db) \<Rightarrow> (Returned (Inl e), db)
     | (Inr _, db) \<Rightarrow>
         if intent = Inspection \<and> (\<forall>i \<in> set (indices_of (db_mode db)). vc_versions (db_catalogs db i) = [])
         then (Returned (Inl Database_not_found), db)
         else open_indices E intent (indices_of (db_mode db)) db)"

section \<open>Opening\<close>

definition configure_internal ::
  "'v env \<Rightarrow> bool \<Rightarrow> storage_mode \<Rightarrow> open_intent \<Rightarrow> 'v database \<Rightarrow> unit call \<times> 'v database" where
  "configure_internal E remove_existing mode intent db =
    (let db = db\<lparr>db_inspection_only := (intent = Inspection)\<rparr>
     in case prepare_directory E intent (db_disk db) of
       (Inl e, d) \<Rightarrow> (Returned (Inl e), db\<lparr>db_disk := d\<rparr>)
     | (Inr _, d) \<Rightarrow>
      (case acquire_lock E d of
        (Inl e, d) \<Rightarrow> (Returned (Inl e), db\<lparr>db_lock_held := False, db_disk := d\<rparr>)
      | (Inr _, d) \<Rightarrow>
       (let db = db\<lparr>db_lock_held := True\<rparr>; d = record_holder E d
        in case (if remove_existing then wipe_directory E d else (Inr (), d)) of
          (Inl e, d) \<Rightarrow> (Returned (Inl e), db\<lparr>db_disk := d\<rparr>)
        | (Inr _, d) \<Rightarrow>
         (case settle_identity E remove_existing mode intent d of
           (Inl e, d) \<Rightarrow> (Returned (Inl e), db\<lparr>db_disk := d\<rparr>)
         | (Inr dbid, d) \<Rightarrow>
          (let db = db\<lparr>db_mode := mode, db_database_id := dbid,
                 db_file_cache := new_file_cache dbid 1, db_entries_count := 0\<rparr>
           in case recover_pending_merges E mode d of
             (Inl e, d) \<Rightarrow> (Returned (Inl e), db\<lparr>db_disk := d\<rparr>)
           | (Inr _, d) \<Rightarrow> open_containers E intent (db\<lparr>db_disk := d\<rparr>))))))"

definition capacities :: "bool \<Rightarrow> u64 \<Rightarrow> capacity_entry" where
  "capacities testing i =
    (if i = reference_sentinel_index then (if testing then testing_reference else production_reference)
     else (if testing then testing_capacity else production_capacity) ! unat i)"

definition configure ::
  "'v env \<Rightarrow> bool \<Rightarrow> storage_mode \<Rightarrow> 'v database \<Rightarrow> unit call \<times> 'v database" where
  "configure E remove_existing mode db =
    configure_internal E remove_existing mode Open_or_create (db\<lparr>db_capacity := capacities False\<rparr>)"

definition configure_for_testing ::
  "'v env \<Rightarrow> bool \<Rightarrow> storage_mode \<Rightarrow> 'v database \<Rightarrow> unit call \<times> 'v database" where
  "configure_for_testing E remove_existing mode db =
    configure_internal E remove_existing mode Open_or_create (db\<lparr>db_capacity := capacities True\<rparr>)"

definition open_for_inspection :: "'v env \<Rightarrow> storage_mode \<Rightarrow> 'v database \<Rightarrow> unit call \<times> 'v database" where
  "open_for_inspection E mode db =
    configure_internal E False mode Inspection (db\<lparr>db_capacity := capacities False\<rparr>)"

definition open_for_inspection_for_testing ::
  "'v env \<Rightarrow> storage_mode \<Rightarrow> 'v database \<Rightarrow> unit call \<times> 'v database" where
  "open_for_inspection_for_testing E mode db =
    configure_internal E False mode Inspection (db\<lparr>db_capacity := capacities True\<rparr>)"

section \<open>Closing\<close>

definition close_database :: "'v env \<Rightarrow> 'v database \<Rightarrow> 'v database" where
  "close_database E db = fold (close_container E) (indices_of (db_mode db)) db"

definition database_size :: "'v database \<Rightarrow> u64" where
  "database_size db = db_entries_count db"

text \<open>A \<open>database_impl\<close> as it is constructed.\<close>

definition new_database :: "'v disk \<Rightarrow> 'v database" where
  "new_database d = \<lparr>db_mode = Full_mode, db_inspection_only = False, db_capacity = capacities False,
     db_mapped = \<lambda>_. False, db_current_versions = \<lambda>_. 0, db_rehash_watch = \<lambda>_. rehash_watch_reset 0,
     db_catalogs = \<lambda>_. empty_catalog, db_rotation_causes = \<lambda>_. no_rotations,
     db_rehashes_observed = 0, db_entries_count = 0, db_database_id = replicate 16 0,
     db_file_cache = new_file_cache [] 1, db_dirty_versions = [], db_cleanup_pending = False,
     db_integrity_latched = None, db_lock_held = False, db_disk = d\<rparr>"

section \<open>Handles\<close>

text \<open>
  The functions that make a \<open>full_db\<close> or a \<open>reference_db\<close>. One that fails destroys the half-made
  handle, and its destructor closes what was already mapped and gives the lock up.
\<close>

definition opened ::
  "'v env \<Rightarrow> ('v database \<Rightarrow> unit call \<times> 'v database) \<Rightarrow> 'v disk \<Rightarrow> 'v database call \<times> 'v disk" where
  "opened E conf d =
    (case conf (new_database d) of
       (Returned (Inr _), db) \<Rightarrow> (Returned (Inr db), db_disk db)
     | (Returned (Inl e), db) \<Rightarrow> (Returned (Inl e), db_disk (close_database E db))
     | (Raised, db) \<Rightarrow> (Raised, db_disk (close_database E db)))"

definition full_open ::
  "utxo_value env \<Rightarrow> bool \<Rightarrow> utxo_value disk \<Rightarrow> utxo_value database call \<times> utxo_value disk" where
  "full_open E remove_existing = opened E (configure E remove_existing Full_mode)"

definition full_open_for_testing ::
  "utxo_value env \<Rightarrow> bool \<Rightarrow> utxo_value disk \<Rightarrow> utxo_value database call \<times> utxo_value disk" where
  "full_open_for_testing E remove_existing = opened E (configure_for_testing E remove_existing Full_mode)"

definition full_open_for_inspection ::
  "utxo_value env \<Rightarrow> utxo_value disk \<Rightarrow> utxo_value database call \<times> utxo_value disk" where
  "full_open_for_inspection E = opened E (open_for_inspection E Full_mode)"

definition full_open_for_inspection_for_testing ::
  "utxo_value env \<Rightarrow> utxo_value disk \<Rightarrow> utxo_value database call \<times> utxo_value disk" where
  "full_open_for_inspection_for_testing E = opened E (open_for_inspection_for_testing E Full_mode)"

definition reference_open ::
  "reference_value env \<Rightarrow> bool \<Rightarrow> reference_value disk \<Rightarrow> reference_value database call \<times> reference_value disk" where
  "reference_open E remove_existing = opened E (configure E remove_existing Reference_mode)"

definition reference_open_for_testing ::
  "reference_value env \<Rightarrow> bool \<Rightarrow> reference_value disk \<Rightarrow> reference_value database call \<times> reference_value disk" where
  "reference_open_for_testing E remove_existing = opened E (configure_for_testing E remove_existing Reference_mode)"

definition reference_open_for_inspection ::
  "reference_value env \<Rightarrow> reference_value disk \<Rightarrow> reference_value database call \<times> reference_value disk" where
  "reference_open_for_inspection E = opened E (open_for_inspection E Reference_mode)"

definition reference_open_for_inspection_for_testing ::
  "reference_value env \<Rightarrow> reference_value disk \<Rightarrow> reference_value database call \<times> reference_value disk" where
  "reference_open_for_inspection_for_testing E = opened E (open_for_inspection_for_testing E Reference_mode)"

end
