(* ===== verification/Opening_Facts.thy ===== *)
theory Opening_Facts
  imports Opening Crash_Safety
begin

text \<open>
  What an open does to the directory: at every moment of it, and however it ends, every version file
  that was there holds the entries it held, unless the caller asked for the old store to be removed.
\<close>

section \<open>Directories with the same entries\<close>

definition keeps_entries :: "'v directory \<Rightarrow> 'v directory \<Rightarrow> bool" where
  "keeps_entries s0 s \<longleftrightarrow> (\<forall>i v. generation_bag (disk_of s) i v = generation_bag (disk_of s0) i v)
     \<and> (distinct (map fst s0) \<longrightarrow> distinct (map fst s))"

lemma keeps_entries_refl [simp]: "keeps_entries s s"
  by (simp add: keeps_entries_def)

lemma keeps_entries_stored: "keeps_entries s0 s \<Longrightarrow> stored_at s i = stored_at s0 i"
  by (simp add: keeps_entries_def stored_at_def)

lemma keeps_entries_agrees:
  assumes "keeps_entries s0 s" "agrees P s s'" "\<And>i v. data_path i v \<notin> P"
  shows "keeps_entries s0 s'"
  using assms agrees_map_of[OF assms(2,3)] generation_bag_map_of[of s' _ _ s]
  by (simp add: keeps_entries_def agrees_def)

abbreviation keeping :: "'v directory \<Rightarrow> 'v disk \<Rightarrow> 'v disk \<Rightarrow> bool" where
  "keeping s0 \<equiv> visits (keeps_entries s0)"

lemma keeping_touches:
  assumes "keeps_entries s0 (files d)" "touches P d d'" "\<And>i v. data_path i v \<notin> P"
  shows "keeping s0 d d'"
  using assms(2) by (rule touches_visits) (rule keeps_entries_agrees[OF assms(1) _ assms(3)])

lemma keeping_same: "same_disk d d' \<Longrightarrow> keeping s0 d d'"
  by (rule visits_same) (simp_all add: same_disk_def)

lemma keeping_final: "keeping s0 d d' \<Longrightarrow> keeps_entries s0 (files d) \<Longrightarrow> keeps_entries s0 (files d')"
  by (rule visits_final)

lemma keeping_step:
  assumes "keeping s0 d0 d" "keeps_entries s0 (files d0)"
    and "keeps_entries s0 (files d) \<Longrightarrow> keeping s0 d d'"
  shows "keeping s0 d0 d'"
  using assms keeping_final visits_trans by blast

section \<open>The lock, the configuration, the wiping\<close>

lemma touches_after:
  assumes "touches P (tick d) d'" shows "touches P d d'"
  using assms by simp

lemma acquire_lock_touches: "acquire_lock E d = (r, d') \<Longrightarrow> touches {lock_file_name} d d'"
  using touches_put_file[of lock_file_name "{lock_file_name}" "tick d" "Plain []"]
  by (auto simp: acquire_lock_def Let_def touches_refl split: if_splits locking.splits)

lemma record_holder_touches: "touches {lock_file_name} d (record_holder E d)"
proof -
  have one: "touches {lock_file_name} d (put_file lock_file_name f (tick d))" for f and d :: "'a disk"
    using touches_put_file[of lock_file_name "{lock_file_name}" "tick d" f] by simp
  show ?thesis
    by (auto simp: record_holder_def Let_def touches_refl split: option.splits
        intro: one touches_trans[OF one one])
qed

lemma read_config_file_same: "read_config_file E path d = (r, d') \<Longrightarrow> same_disk d d'"
  by (auto simp: read_config_file_def Let_def split: option.splits if_splits)

lemma read_identity_same: "read_identity E mode d = (r, d') \<Longrightarrow> same_disk d d'"
  by (auto simp: read_identity_def split: prod.splits sum.splits if_splits dest: read_config_file_same)

lemma save_config_touches:
  assumes "save_config_to_disk E mode dbid d = (r, d')"
  shows "touches {config_path, tmp_path config_path} d d'"
  using save_config_published(2)[OF assms] by (auto simp: staged_def in_place_def intro!: published_touches)

lemma make_identity_touches:
  assumes "make_identity E remove mode d = (r, d')"
  shows "touches {config_path, tmp_path config_path} d d'"
proof -
  obtain r1 d1 where one: "(if remove then (Inr False, d) else path_exists E (other_mode_file mode) d) = (r1, d1)"
    by fastforce
  then have same: "same_disk d d1" by (auto split: if_splits dest: path_exists_same)
  have "touches {config_path, tmp_path config_path} d1 d'"
    using assms one save_config_touches[of E mode _ "tick d1"]
    by (auto simp: make_identity_def touches_refl split: sum.splits bool.splits option.splits prod.splits)
  then show ?thesis by (rule touches_trans[OF same_disk_touches[OF same]])
qed

lemma settle_identity_touches:
  assumes "settle_identity E remove mode intent d = (r, d')"
  shows "touches {config_path, tmp_path config_path} d d'"
proof -
  obtain r1 d1 where one: "path_exists E config_path d = (r1, d1)" by fastforce
  have "touches {config_path, tmp_path config_path} d1 d'"
    using assms one
    by (auto simp: settle_identity_def touches_refl split: sum.splits if_splits
        intro: make_identity_touches same_disk_touches dest: read_identity_same)
  then show ?thesis
    using touches_trans[OF same_disk_touches[OF path_exists_same[OF one]]] by blast
qed

text \<open>The names an open may write beside the version files it creates.\<close>

definition open_names :: "string set" where
  "open_names = scratch_names \<union> {lock_file_name, config_path, tmp_path config_path}"

lemma open_disjoint [simp]:
  "data_path j v \<notin> open_names" "sidecar_path j v \<notin> open_names"
  "building_path j v \<in> open_names" "tmp_path (sidecar_path j v) \<in> open_names"
  "metadata_path j v \<in> open_names" "tmp_path (metadata_path j v) \<in> open_names"
  "lock_file_name \<in> open_names" "config_path \<in> open_names" "tmp_path config_path \<in> open_names"
  by (auto simp: open_names_def)

text \<open>Where nothing is in flight, recovery removes strays and nothing else.\<close>

lemma enumerate_none:
  assumes "enumerate_versions E (name_prefix i) ''.merge'' d = (Inr listed, d')"
    and "place d = Directory_present" "distinct (map fst (files d))" "no_records (files d)"
  shows "listed = []"
proof -
  have "lookup_file d (name_prefix i @ fmt05 v @ ''.merge'') = None" for v
    using assms(4) by (simp add: no_records_def lookup_file_def flip: sidecar_path_eq)
  then have "set listed = {}" using enumerated[OF assms(1-3)] by auto
  then show ?thesis by simp
qed

lemma remove_strays_touches:
  assumes "remove_strays E i suffix d = (r, d')" "\<And>v. name_prefix i @ fmt05 v @ suffix \<in> P"
    and "place d = Directory_present"
  shows "touches P d d'" "\<forall>n. \<not> fails E n \<Longrightarrow> r = Inr ()"
proof -
  obtain r1 d1 where one: "enumerate_versions E (name_prefix i) suffix d = (r1, d1)" by fastforce
  note same = same_disk_touches[OF enumerate_versions_same[OF one]]
  have "touches P d1 d' \<and> ((\<forall>n. \<not> fails E n) \<longrightarrow> r = Inr ())"
  proof (cases r1)
    case (Inl e)
    then show ?thesis
      using assms(1) one enumerate_versions_calm[of E d, OF _ assms(3) one]
      by (auto simp: remove_strays_def touches_refl)
  next
    case (Inr vs)
    then have run: "remove_each E (map (\<lambda>v. name_prefix i @ fmt05 v @ suffix) vs) d1 = (r, d')"
      using assms(1) one by (simp add: remove_strays_def)
    have "set (map (\<lambda>v. name_prefix i @ fmt05 v @ suffix) vs) \<subseteq> P" using assms(2) by auto
    from remove_each_scratch[OF run this] show ?thesis by blast
  qed
  then show "touches P d d'" "\<forall>n. \<not> fails E n \<Longrightarrow> r = Inr ()"
    using touches_trans[OF same] by auto
qed

lemma stray_names:
  "name_prefix i @ fmt05 v @ ''.dat.building'' \<in> open_names"
  "name_prefix i @ fmt05 v @ ''.merge.tmp'' \<in> open_names"
proof -
  show "name_prefix i @ fmt05 v @ ''.dat.building'' \<in> open_names"
    using open_disjoint(3)[of i v] by (simp add: building_path_eq)
  show "name_prefix i @ fmt05 v @ ''.merge.tmp'' \<in> open_names"
    using open_disjoint(4)[of i v] by (simp add: sidecar_path_eq tmp_path_def)
qed

lemma no_records_touches: "touches open_names d d' \<Longrightarrow> no_records (files d') = no_records (files d)"
  using touches_lookup[of open_names d d' "sidecar_path _ _"] by (simp add: no_records_def lookup_file_def)

definition idle :: "'v disk \<Rightarrow> bool" where
  "idle d \<longleftrightarrow> place d = Directory_present \<and> distinct (map fst (files d)) \<and> no_records (files d)"

lemma idle_touches: "idle d \<Longrightarrow> touches open_names d d' \<Longrightarrow> idle d'"
  using touches_place[of _ d d'] touches_distinct[of _ d d'] no_records_touches[of d d'] by (auto simp: idle_def)

lemma recover_container_idle:
  assumes "idle d" "recover_container E i d = (r, d')"
  shows "touches open_names d d'" "\<forall>n. \<not> fails E n \<Longrightarrow> r = Inr ()"
proof -
  obtain r1 d1 where one: "enumerate_versions E (name_prefix i) ''.merge'' d = (r1, d1)" by fastforce
  obtain r2 d2 where two: "remove_strays E i ''.dat.building'' d1 = (r2, d2)" by fastforce
  obtain r3 d3 where three: "remove_strays E i ''.merge.tmp'' d2 = (r3, d3)" by fastforce
  have t1: "touches open_names d d1" using enumerate_versions_same[OF one] by (rule same_disk_touches)
  have p1: "place d1 = Directory_present" using assms(1) touches_place[OF t1] by (simp add: idle_def)
  note s2 = remove_strays_touches[OF two stray_names(1) p1]
  have p2: "place d2 = Directory_present" using p1 touches_place[OF s2(1)] by simp
  note s3 = remove_strays_touches[OF three stray_names(2) p2]
  note t2 = touches_trans[OF t1 s2(1)]
  note t3 = touches_trans[OF t2 s3(1)]
  have none: "r1 = Inr listed \<Longrightarrow> listed = []" for listed
    using enumerate_none one assms(1) by (auto simp: idle_def)
  show "touches open_names d d'"
    using assms(2) one two three none t1 t2 t3 by (auto simp: recover_container_def split: sum.splits)
  show "r = Inr ()" if "\<forall>n. \<not> fails E n"
    using assms(2) one two three none s2(2)[OF that] s3(2)[OF that]
      enumerate_versions_calm[OF that _ one] assms(1)
    by (auto simp: recover_container_def idle_def split: sum.splits)
qed

lemma recover_containers_idle:
  "idle d \<Longrightarrow> recover_containers E is d = (r, d') \<Longrightarrow>
     touches open_names d d' \<and> ((\<forall>n. \<not> fails E n) \<longrightarrow> r = Inr ())"
proof (induction "is" arbitrary: d)
  case (Cons i "is")
  obtain r1 d1 where one: "recover_container E i d = (r1, d1)" by fastforce
  note s = recover_container_idle[OF Cons.prems(1) one]
  show ?case
  proof (cases r1)
    case (Inr u)
    then have "recover_containers E is d1 = (r, d')" using Cons.prems(2) one by simp
    from Cons.IH[OF idle_touches[OF Cons.prems(1) s(1)] this] s show ?thesis
      using touches_trans by blast
  qed (use Cons.prems(2) one s in auto)
qed (simp add: touches_refl)

lemma recover_idle:
  assumes "idle d" "recover_pending_merges E mode d = (r, d')"
  shows "touches open_names d d'" "\<forall>n. \<not> fails E n \<Longrightarrow> r = Inr ()"
  using recover_containers_idle[OF assms(1) assms(2)[unfolded recover_pending_merges_def]] by blast+

section \<open>Creating a version file\<close>

definition blank_file :: "'v disk_file \<Rightarrow> bool" where
  "blank_file f \<longleftrightarrow> (\<forall>s n t. f = Segment s \<and> seg_map s = Some (n, t) \<longrightarrow> tbl_bag t = {#})"

lemma keeps_entries_change:
  assumes "keeps_entries s0 s" "\<And>j w. (j, w) \<noteq> (i, v) \<Longrightarrow> map_of s' (data_path j w) = map_of s (data_path j w)"
    and "generation_bag (disk_of s') i v = {#}" "generation_bag (disk_of s0) i v = {#}"
    and "distinct (map fst s) \<Longrightarrow> distinct (map fst s')"
  shows "keeps_entries s0 s'"
  unfolding keeps_entries_def
proof (intro conjI allI impI)
  show "distinct (map fst s')" if "distinct (map fst s0)"
    using assms(1,5) that by (simp add: keeps_entries_def)
  fix j w
  show "generation_bag (disk_of s') j w = generation_bag (disk_of s0) j w"
  proof (cases "(j, w) = (i, v)")
    case False
    then have "generation_bag (disk_of s') j w = generation_bag (disk_of s) j w"
      by (intro generation_bag_map_of assms(2))
    with assms(1) show ?thesis by (simp add: keeps_entries_def)
  qed (use assms(3,4) in simp)
qed

lemma keeping_put:
  assumes "keeps_entries s0 (files d)" "generation_bag (disk_of s0) i v = {#}" "blank_file f"
  shows "keeping s0 d (put_file (data_path i v) f d)"
proof -
  have "generation_bag (disk_of (AList.update (data_path i v) f (files d))) i v = {#}"
    using assms(3) by (auto simp: generation_bag_def generation_def alist_simps blank_file_def split: disk_file.splits option.splits)
  then have "keeps_entries s0 (AList.update (data_path i v) f (files d))"
    using assms(1,2) by (intro keeps_entries_change[OF assms(1)]) (auto simp: alist_simps)
  then show ?thesis unfolding put_file_def by (rule visits_set_files)
qed

lemma keeping_drop:
  assumes "keeps_entries s0 (files d)" "generation_bag (disk_of s0) i v = {#}"
  shows "keeping s0 d (drop_file (data_path i v) d)"
proof -
  have "keeps_entries s0 (AList.delete (data_path i v) (files d))"
    using assms(2) by (intro keeps_entries_change[OF assms(1)]) (auto simp: alist_simps generation_bag_none)
  then show ?thesis by (auto simp: drop_file_def intro: visits_set_files)
qed

lemma bag_blank:
  "generation_bag (disk_of s) i v = {#} \<Longrightarrow> map_of s (data_path i v) = Some f \<Longrightarrow> blank_file f"
  by (auto simp: blank_file_def generation_bag_def generation_def)

lemma keeping_tick [simp]: "keeping s0 (tick d) d' = keeping s0 d d'" "keeping s0 d (tick d') = keeping s0 d d'"
  by (simp_all add: visits_def)

lemma keeping_try_remove:
  assumes "keeps_entries s0 (files d)" "generation_bag (disk_of s0) i v = {#}"
  shows "keeping s0 d (try_remove E (data_path i v) d)"
  using keeping_drop[of s0 "tick d" i v] assms by (simp add: try_remove_def remove_file_def)

lemma create_segment_keeping:
  assumes "create_segment E (data_path i v) sz d = (r, d')" "keeps_entries s0 (files d)"
  shows "keeping s0 d d'" "r \<Longrightarrow> generation_bag (disk_of s0) i v = {#}"
proof -
  have "generation_bag (disk_of s0) i v = {#}" if "lookup_file d (data_path i v) = None"
    using that assms(2) generation_bag_none[of "files d" i v] by (simp add: keeps_entries_def lookup_file_def)
  then show "r \<Longrightarrow> generation_bag (disk_of s0) i v = {#}" "keeping s0 d d'"
    using assms(1) keeping_put[of s0 "tick d" i v "Segment (new_segment sz)"] assms(2)
    by (auto simp: create_segment_def blank_file_def new_segment_def split: if_splits)
qed

lemma place_stamp_keeping:
  assumes "place_stamp E (data_path i v) idt d = (r, d')" "keeps_entries s0 (files d)"
    and "generation_bag (disk_of s0) i v = {#}"
  shows "keeping s0 d d'"
proof -
  have "blank_file (Segment s)" if "lookup_file d (data_path i v) = Some (Segment s)" for s
    using that assms(2,3) bag_blank[of "files d" i v] by (simp add: keeps_entries_def lookup_file_def)
  then have "blank_file (Segment (s\<lparr>seg_stamp := x\<rparr>))" if "lookup_file d (data_path i v) = Some (Segment s)" for s x
    using that by (simp add: blank_file_def)
  then show ?thesis
    using assms(1) keeping_put[of s0 "tick d" i v, OF _ assms(3)] assms(2)
    by (auto simp: place_stamp_def split: option.splits disk_file.splits if_splits constructing.splits)
qed

lemma construct_map_keeping:
  assumes "construct_map E (data_path i v) buckets d = (r, d')" "keeps_entries s0 (files d)"
    and "generation_bag (disk_of s0) i v = {#}"
  shows "keeping s0 d d'"
  using assms(1) keeping_put[of s0 "tick d" i v, OF _ assms(3)] assms(2)
  by (auto simp: construct_map_def blank_file_def split: option.splits disk_file.splits if_splits constructing.splits)

lemma create_container_keeping:
  assumes run: "create_container E i v db = (r, db')" and s0: "keeps_entries s0 (files (db_disk db))"
  shows "keeping s0 (db_disk db) (db_disk db')"
proof -
  let ?p = "data_path i v"
  obtain r1 d1 where one: "create_segment E ?p (ce_file_size (db_capacity db i)) (db_disk db) = (r1, d1)" by fastforce
  note k1 = create_segment_keeping[OF one s0]
  show ?thesis
  proof (cases r1)
    case False
    then show ?thesis using run one k1 by (auto simp: create_container_def)
  next
    case True
    note bag = k1(2)[OF True] and s1 = keeping_final[OF k1(1) s0]
    obtain r2 d2 where two: "place_stamp E ?p (expected_identity E db i v) d1 = (r2, d2)" by fastforce
    note k2 = visits_trans[OF k1(1) place_stamp_keeping[OF two s1 bag]]
    note s2 = keeping_final[OF k2 s0]
    obtain r3 d3 where three: "construct_map E ?p (capacity_for db i) d2 = (r3, d3)" by fastforce
    note k3 = visits_trans[OF k2 construct_map_keeping[OF three s2 bag]]
    note s3 = keeping_final[OF k3 s0]
    have "db_disk db' \<in> {try_remove E ?p d2, try_remove E ?p d3, d3}"
      using run one two three True
      by (auto simp: create_container_def Let_def split: sum.splits constructing.splits)
    then show ?thesis
      using k3 visits_trans[OF k2 keeping_try_remove[OF s2 bag]] visits_trans[OF k3 keeping_try_remove[OF s3 bag]]
      by auto
  qed
qed

section \<open>Opening the containers\<close>

lemma list_catalogs_same: "list_catalogs E is db = (r, db') \<Longrightarrow> same_disk (db_disk db) (db_disk db')"
proof (induction "is" arbitrary: db)
  case (Cons i "is")
  obtain r1 d1 where one: "enumerate_versions E (name_prefix i) ''.dat'' (db_disk db) = (r1, d1)" by fastforce
  note same = enumerate_versions_same[OF one]
  show ?case
  proof (cases r1)
    case (Inr listed)
    then show ?thesis using Cons.prems one Cons.IH same_disk_trans[OF same] by fastforce
  qed (use Cons.prems one same in auto)
qed simp

lemma open_existing_container_same:
  "open_existing_container E i v db = (r, db') \<Longrightarrow> same_disk (db_disk db) (db_disk db')"
  by (auto simp: open_existing_container_def split: prod.splits sum.splits dest: open_checked_same)

lemma count_versions_same: "count_versions E i vs db = (r, db') \<Longrightarrow> same_disk (db_disk db) (db_disk db')"
proof (induction vs arbitrary: db)
  case (Cons v vs)
  obtain r1 d1 where one: "open_checked E (db_database_id db) (kind_of_index i) (data_path i v) v (db_disk db) = (r1, d1)"
    by fastforce
  note same = open_checked_same[OF one]
  show ?case
  proof (cases r1)
    case (Inr t)
    then show ?thesis using Cons.prems one Cons.IH same_disk_trans[OF same] by fastforce
  qed (use Cons.prems one same in auto)
qed simp

lemma read_metadata_file_same: "read_metadata_file E path d = (r, d') \<Longrightarrow> same_disk d d'"
  by (auto simp: read_metadata_file_def Let_def split: option.splits if_splits)

lemma load_metadata_same: "same_disk (db_disk db) (db_disk (load_metadata_from_disk E i v db))"
  by (auto simp: load_metadata_from_disk_def split: prod.splits sum.splits dest: read_metadata_file_same)

lemma fold_load_metadata_same: "same_disk (db_disk db) (db_disk (fold (load_metadata_from_disk E i) vs db))"
proof (induction vs arbitrary: db)
  case (Cons v vs)
  show ?case using same_disk_trans[OF load_metadata_same Cons.IH] by simp
qed simp

lemma survey_index_same:
  assumes "survey_index E i v db = (r, db')"
  shows "same_disk (db_disk db) (db_disk db')"
proof -
  define db1 where "db1 = db\<lparr>db_catalogs := (db_catalogs db)(i := catalog_add v (db_catalogs db i)),
      db_entries_count := db_entries_count db + tbl_size (container db i)\<rparr>"
  obtain r2 db2 where two: "count_versions E i (catalog_below (db_catalogs db1 i) v) db1 = (r2, db2)" by fastforce
  have "same_disk (db_disk db) (db_disk db2)" using count_versions_same[OF two] by (simp add: db1_def)
  then show ?thesis
    using assms two same_disk_trans[OF _ fold_load_metadata_same]
    by (auto simp: survey_index_def Let_def simp flip: db1_def split: sum.splits)
qed

lemma open_index_keeping:
  assumes run: "open_index E intent i db = (r, db')" and s0: "keeps_entries s0 (files (db_disk db))"
  shows "keeping s0 (db_disk db) (db_disk db')"
proof (cases "vc_versions (db_catalogs db i) = [] \<and> intent = Inspection")
  case True
  then show ?thesis using run by (simp add: open_index_def)
next
  case False
  let ?v = "catalog_active (db_catalogs db i)"
  obtain r1 db1 where one: "(if vc_versions (db_catalogs db i) = [] then create_container E i ?v db
      else apfst Returned (open_existing_container E i ?v db)) = (r1, db1)" by fastforce
  have k1: "keeping s0 (db_disk db) (db_disk db1)"
    using one create_container_keeping[OF _ s0] open_existing_container_same[of E i ?v db]
    by (cases "open_existing_container E i ?v db") (auto split: if_splits intro: keeping_same)
  have "same_disk (db_disk db1) (db_disk db')"
    using run False one survey_index_same[of E i ?v db1]
    by (cases "survey_index E i ?v db1") (auto simp: open_index_def split: call.splits sum.splits)
  then show ?thesis using visits_trans[OF k1 keeping_same] by blast
qed

lemma open_indices_keeping:
  "open_indices E intent is db = (r, db') \<Longrightarrow> keeps_entries s0 (files (db_disk db)) \<Longrightarrow>
     keeping s0 (db_disk db) (db_disk db')"
proof (induction "is" arbitrary: db)
  case (Cons i "is")
  obtain r1 db1 where one: "open_index E intent i db = (r1, db1)" by fastforce
  note k1 = open_index_keeping[OF one Cons.prems(2)]
  show ?case
  proof (cases "\<exists>u. r1 = Returned (Inr u)")
    case True
    then have "open_indices E intent is db1 = (r, db')" using Cons.prems(1) one by auto
    then show ?thesis using visits_trans[OF k1 Cons.IH] keeping_final[OF k1 Cons.prems(2)] by blast
  next
    case False
    then show ?thesis using Cons.prems(1) one k1 by (auto split: call.splits sum.splits)
  qed
qed simp

lemma open_containers_keeping:
  assumes "open_containers E intent db = (r, db')" and "keeps_entries s0 (files (db_disk db))"
  shows "keeping s0 (db_disk db) (db_disk db')"
proof -
  obtain r1 db1 where one: "list_catalogs E (indices_of (db_mode db)) db = (r1, db1)" by fastforce
  note same = list_catalogs_same[OF one]
  have s1: "keeps_entries s0 (files (db_disk db1))" using same assms(2) by (simp add: same_disk_def)
  show ?thesis
    using assms(1) one keeping_same[OF same] visits_trans[OF keeping_same[OF same] open_indices_keeping[OF _ s1]]
    by (auto simp: open_containers_def split: sum.splits if_splits)
qed

section \<open>The whole open\<close>

lemma close_container_keeping:
  assumes "keeps_entries s0 (files (db_disk db))"
  shows "keeping s0 (db_disk db) (db_disk (close_container E i db))"
proof -
  let ?P = "{metadata_path i (db_current_versions db i), tmp_path (metadata_path i (db_current_versions db i))}"
  obtain d where c: "close_container E i db = db\<lparr>db_disk := d, db_mapped := (db_mapped db)(i := False)\<rparr>"
    and t: "touches ?P (db_disk db) d" by (rule close_container_spec)
  show ?thesis using keeping_touches[OF assms t] by (simp add: c)
qed

lemma fold_close_keeping:
  "keeps_entries s0 (files (db_disk db)) \<Longrightarrow> keeping s0 (db_disk db) (db_disk (fold (close_container E) is db))"
proof (induction "is" arbitrary: db)
  case (Cons i "is")
  note k1 = close_container_keeping[OF Cons.prems, of E i]
  show ?case using visits_trans[OF k1 Cons.IH[OF keeping_final[OF k1 Cons.prems]]] by simp
qed simp

lemma close_database_keeping:
  "keeps_entries s0 (files (db_disk db)) \<Longrightarrow> keeping s0 (db_disk db) (db_disk (close_database E db))"
  unfolding close_database_def by (rule fold_close_keeping)

text \<open>The stages of an open in which nothing is removed, each over the directory the last one left.\<close>

lemma prepare_directory_spec:
  assumes "prepare_directory E intent d = (r, d')"
  shows "files d' = files d" "trail d' = trail d" "r = Inr () \<Longrightarrow> place d' = Directory_present"
  using assms by (auto simp: prepare_directory_def split: open_intent.splits if_splits)

lemma scratch_keeping:
  "keeps_entries s0 (files d) \<Longrightarrow> touches P d d' \<Longrightarrow> P \<subseteq> open_names \<Longrightarrow> keeping s0 d d'"
  by (rule keeping_touches) auto

lemma configure_keeping:
  assumes run: "configure_internal E False mode intent db = (r, db')"
    and start: "distinct (map fst (files (db_disk db)))" "no_records (files (db_disk db))"
  shows "\<exists>d1. files d1 = files (db_disk db) \<and> trail d1 = trail (db_disk db)
    \<and> keeping (files (db_disk db)) d1 (db_disk db')"
proof -
  let ?s0 = "files (db_disk db)"
  obtain r1 d1 where one: "prepare_directory E intent (db_disk db) = (r1, d1)" by fastforce
  note p = prepare_directory_spec[OF one]
  have k1: "keeping ?s0 d1 d1" and s1: "keeps_entries ?s0 (files d1)" by (simp_all add: p(1))
  have "keeping ?s0 d1 (db_disk db')"
  proof (cases r1)
    case (Inl e)
    then show ?thesis using run one by (auto simp: configure_internal_def)
  next
    case (Inr u1)
    obtain r2 d2 where two: "acquire_lock E d1 = (r2, d2)" by fastforce
    note t2 = acquire_lock_touches[OF two]
    note k2 = scratch_keeping[OF s1 t2, simplified]
    show ?thesis
    proof (cases r2)
      case (Inl e)
      then show ?thesis using run one two Inr k2 by (auto simp: configure_internal_def)
    next
      case (Inr u2)
      let ?d3 = "record_holder E d2"
      have t3: "touches open_names d1 ?d3"
        using touches_trans[OF t2 record_holder_touches] by (rule touches_mono) simp
      note k3 = scratch_keeping[OF s1 t3, simplified]
      obtain r4 d4 where four: "settle_identity E False mode intent ?d3 = (r4, d4)" by fastforce
      have t4: "touches open_names d1 d4"
        using touches_trans[OF t3 touches_mono[OF settle_identity_touches[OF four]]] by simp
      show ?thesis
      proof (cases r4)
        case (Inl e)
        then show ?thesis
          using run one two four Inr \<open>r1 = Inr u1\<close> scratch_keeping[OF s1 t4]
          by (auto simp: configure_internal_def Let_def)
      next
        case (Inr dbid)
        obtain r5 d5 where five: "recover_pending_merges E mode d4 = (r5, d5)" by fastforce
        have "idle d1" using start p \<open>r1 = Inr u1\<close> by (simp add: idle_def)
        then have "idle d4" using idle_touches t4 by blast
        have t5: "touches open_names d1 d5"
          using touches_trans[OF t4 recover_idle(1)[OF \<open>idle d4\<close> five]] .
        note k5 = scratch_keeping[OF s1 t5, simplified]
        have "keeping ?s0 d1 (db_disk db')" if "open_containers E intent dbx = (r, db')" "db_disk dbx = d5" for dbx
          using visits_trans[OF k5] open_containers_keeping[OF that(1)] keeping_final[OF k5 s1] that(2) by simp
        then show ?thesis
          using run one two four five Inr \<open>r1 = Inr u1\<close> \<open>r2 = Inr u2\<close> k5
          by (auto simp: configure_internal_def Let_def split: sum.splits)
      qed
    qed
  qed
  then show ?thesis using p by blast
qed


end
