(* ===== verification/Open_Serves.thy ===== *)
theory Open_Serves
  imports Opening_Facts
begin

text \<open>
  What a successful open gives: every container of the mode serves, its catalogue lists exactly the
  version files of the directory, and the entries of the store are those of the directory.
\<close>

section \<open>Catalogues that match the directory\<close>

definition listed :: "'v database \<Rightarrow> u64 \<Rightarrow> bool" where
  "listed db i \<longleftrightarrow> catalog_inv (db_catalogs db i) \<and> set (vc_versions (db_catalogs db i))
     = {v. \<exists>f. lookup_file (db_disk db) (data_path i v) = Some f \<and> is_regular f}"

lemma listed_stored:
  assumes "listed db i"
  shows "contents db i = stored_at (files (db_disk db)) i"
proof -
  let ?V = "set (vc_versions (db_catalogs db i))"
  have none: "generation_bag (disk_of (files (db_disk db))) i v = {#}" if "v \<notin> ?V" for v
    using that assms by (auto simp: listed_def generation_bag_def generation_def lookup_file_def is_regular_def
        split: option.splits disk_file.splits)
  have "stored_at (files (db_disk db)) i = (\<Sum>v \<in> ?V. generation_bag (disk_of (files (db_disk db))) i v)"
    unfolding stored_at_def using none by (intro sum.mono_neutral_right) auto
  then show ?thesis by (simp add: contents_def generation_bag_files)
qed

lemma listed_cong:
  assumes "\<And>v. lookup_file (db_disk db') (data_path i v) = lookup_file (db_disk db) (data_path i v)"
    and "vc_versions (db_catalogs db' i) = vc_versions (db_catalogs db i)"
    and "catalog_inv (db_catalogs db' i) = catalog_inv (db_catalogs db i)"
  shows "listed db' i = listed db i"
  using assms by (simp add: listed_def)

text \<open>The tables the version files hold are tables.\<close>

definition tables_ok :: "'v disk \<Rightarrow> bool" where
  "tables_ok d \<longleftrightarrow> (\<forall>i v t. generation d i v = Some t \<longrightarrow> tbl_ok t)"

lemma tables_ok_same: "same_disk d d' \<Longrightarrow> tables_ok d' = tables_ok d"
  by (simp add: tables_ok_def generation_def same_disk_lookup)

lemma open_checked_generation:
  assumes "open_checked E dbid (kind_of_index i) (data_path i v) v d = (Inr t, d')" "tables_ok d"
  shows "generation_ok E dbid d i v" "generation d i v = Some t"
proof -
  obtain s where s: "lookup_file d (data_path i v) = Some (Segment s)"
    "good_segment (local_build E) dbid (kind_of_index i) v s t"
    by (rule open_checked_Inr[OF assms(1)])
  then show g: "generation d i v = Some t" by (simp add: generation_def good_segment_def)
  then show "generation_ok E dbid d i v" using s assms(2) unfolding generation_ok_def tables_ok_def by blast
qed

section \<open>Listing\<close>

lemma fold_catalog_add:
  "catalog_inv c \<Longrightarrow> catalog_inv (fold catalog_add vs c)
     \<and> set (vc_versions (fold catalog_add vs c)) = set vs \<union> set (vc_versions c)"
  by (induction vs arbitrary: c) (auto simp: wf_intros set_catalog_add)

lemma list_catalogs_spec:
  assumes "list_catalogs E is db = (Inr u, db')" "place (db_disk db) = Directory_present"
    and "distinct (map fst (files (db_disk db)))" "distinct is"
  shows "db' = db\<lparr>db_disk := db_disk db', db_catalogs := db_catalogs db'\<rparr>
    \<and> same_disk (db_disk db) (db_disk db')
    \<and> (\<forall>i. if i \<in> set is then listed db' i else db_catalogs db' i = db_catalogs db i)"
  using assms
proof (induction "is" arbitrary: db)
  case (Cons i "is")
  obtain vs d1 where one: "enumerate_versions E (name_prefix i) ''.dat'' (db_disk db) = (Inr vs, d1)"
    using Cons.prems(1) by (auto split: prod.splits sum.splits)
  note en = enumerated[OF one Cons.prems(2,3)]
  then have same: "same_disk (db_disk db) d1" by blast
  define db1 where "db1 = db\<lparr>db_disk := d1, db_catalogs := (db_catalogs db)
      (i := fold catalog_add vs (catalog_clear (db_catalogs db i)))\<rparr>"
  have rest: "list_catalogs E is db1 = (Inr u, db')" using Cons.prems(1) one by (simp add: db1_def)
  have d1: "place (db_disk db1) = Directory_present" "distinct (map fst (files (db_disk db1)))"
    using Cons.prems(2,3) same by (simp_all add: db1_def same_disk_def)
  note IH = Cons.IH[OF rest d1] Cons.prems(4)
  have "listed db1 i"
    using fold_catalog_add[OF catalog_empty_inv, of vs] en
    by (simp add: listed_def db1_def catalog_clear_def data_path_eq empty_catalog_def same_disk_lookup[OF same])
  moreover have "db_catalogs db' i = db_catalogs db1 i" using IH by auto
  moreover have same2: "same_disk (db_disk db1) (db_disk db')" using IH by auto
  ultimately have li: "listed db' i" using listed_cong[of db' i db1] same_disk_lookup[OF same2] by simp
  have "db' = db\<lparr>db_disk := db_disk db', db_catalogs := db_catalogs db'\<rparr>"
    using IH by (simp add: db1_def)
  moreover have "same_disk (db_disk db) (db_disk db')"
    using same_disk_trans[OF same] same2 by (simp add: db1_def)
  moreover have "if j \<in> set (i # is) then listed db' j else db_catalogs db' j = db_catalogs db j" for j
    using IH li by (cases "j = i") (auto simp: db1_def split: if_splits)
  ultimately show ?case by blast
qed simp

section \<open>Counting and metadata\<close>

lemma count_versions_spec:
  assumes "count_versions E i vs db = (Inr u, db')" "tables_ok (db_disk db)"
  shows "db' = db\<lparr>db_disk := db_disk db', db_entries_count := db_entries_count db'\<rparr>
    \<and> same_disk (db_disk db) (db_disk db')
    \<and> (\<forall>v \<in> set vs. generation_ok E (db_database_id db) (db_disk db) i v)
    \<and> db_entries_count db' = db_entries_count db
        + word_of_nat (\<Sum>v \<leftarrow> vs. size (generation_bag (db_disk db) i v))"
  using assms
proof (induction vs arbitrary: db)
  case (Cons v vs)
  obtain t d1 where one: "open_checked E (db_database_id db) (kind_of_index i) (data_path i v) v (db_disk db) = (Inr t, d1)"
    using Cons.prems(1) by (auto split: prod.splits sum.splits)
  note same = open_checked_same[OF one] and g = open_checked_generation[OF one Cons.prems(2)]
  define db1 where "db1 = db\<lparr>db_disk := d1, db_entries_count := db_entries_count db + tbl_size t\<rparr>"
  have rest: "count_versions E i vs db1 = (Inr u, db')" using Cons.prems(1) one by (simp add: db1_def)
  have "tables_ok (db_disk db1)" using Cons.prems(2) tables_ok_same[OF same] by (simp add: db1_def)
  note IH = Cons.IH[OF rest this]
  have ok: "generation_ok E (db_database_id db) d1 i w = generation_ok E (db_database_id db) (db_disk db) i w"
    "generation_bag d1 i w = generation_bag (db_disk db) i w" for w
    by (rule generation_ok_cong generation_bag_cong, rule same_disk_lookup[OF same])+
  have c: "tbl_size t = word_of_nat (size (generation_bag (db_disk db) i v))"
    by (simp add: g(2) generation_bag_def tbl_size_bag)
  have "db' = db1\<lparr>db_disk := db_disk db', db_entries_count := db_entries_count db'\<rparr>" using IH by blast
  also have "\<dots> = db\<lparr>db_disk := db_disk db', db_entries_count := db_entries_count db'\<rparr>" by (simp add: db1_def)
  finally have "db' = db\<lparr>db_disk := db_disk db', db_entries_count := db_entries_count db'\<rparr>" .
  moreover have "same_disk (db_disk db) (db_disk db')"
    using IH same_disk_trans[OF same] by (simp add: db1_def)
  moreover have "\<forall>w \<in> set (v # vs). generation_ok E (db_database_id db) (db_disk db) i w"
    using IH g(1) by (simp add: db1_def ok)
  moreover have "db_entries_count db' = db_entries_count db
        + word_of_nat (\<Sum>v \<leftarrow> v # vs. size (generation_bag (db_disk db) i v))"
    using IH by (simp add: db1_def ok c)
  ultimately show ?case by blast
qed simp

lemma load_metadata_spec:
  "\<exists>d m. load_metadata_from_disk E i v db = db\<lparr>db_disk := d, db_catalogs := (db_catalogs db)
      (i := (db_catalogs db i)\<lparr>vc_metadata := m\<rparr>)\<rparr> \<and> same_disk (db_disk db) d"
proof -
  obtain r d where one: "read_metadata_file E (metadata_path i v) (db_disk db) = (r, d)" by fastforce
  have keep: "db\<lparr>db_disk := d\<rparr> = db\<lparr>db_disk := d, db_catalogs := (db_catalogs db)
      (i := (db_catalogs db i)\<lparr>vc_metadata := vc_metadata (db_catalogs db i)\<rparr>)\<rparr>" by simp
  show ?thesis
  proof (cases r)
    case (Inl e)
    then have "load_metadata_from_disk E i v db = db\<lparr>db_disk := d\<rparr>"
      using one by (simp add: load_metadata_from_disk_def)
    then show ?thesis using keep read_metadata_file_same[OF one] by metis
  next
    case (Inr m)
    then show ?thesis
      using one read_metadata_file_same[OF one]
      by (auto simp: load_metadata_from_disk_def catalog_set_metadata_def)
  qed
qed

lemma fold_load_metadata_spec:
  "\<exists>d m. fold (load_metadata_from_disk E i) vs db = db\<lparr>db_disk := d, db_catalogs := (db_catalogs db)
      (i := (db_catalogs db i)\<lparr>vc_metadata := m\<rparr>)\<rparr> \<and> same_disk (db_disk db) d"
proof (induction vs arbitrary: db)
  case Nil
  have "db = db\<lparr>db_disk := db_disk db, db_catalogs := (db_catalogs db)
      (i := (db_catalogs db i)\<lparr>vc_metadata := vc_metadata (db_catalogs db i)\<rparr>)\<rparr>" by simp
  then show ?case by (metis fold.simps(1) id_apply same_disk_refl)
next
  case (Cons v vs)
  obtain d m where one: "load_metadata_from_disk E i v db = db\<lparr>db_disk := d, db_catalogs := (db_catalogs db)
      (i := (db_catalogs db i)\<lparr>vc_metadata := m\<rparr>)\<rparr>" "same_disk (db_disk db) d"
    using load_metadata_spec by blast
  obtain d2 m2 where two: "fold (load_metadata_from_disk E i) vs (load_metadata_from_disk E i v db)
      = (load_metadata_from_disk E i v db)\<lparr>db_disk := d2, db_catalogs := (db_catalogs (load_metadata_from_disk E i v db))
      (i := (db_catalogs (load_metadata_from_disk E i v db) i)\<lparr>vc_metadata := m2\<rparr>)\<rparr>"
    "same_disk (db_disk (load_metadata_from_disk E i v db)) d2"
    using Cons.IH by blast
  have "fold (load_metadata_from_disk E i) (v # vs) db = db\<lparr>db_disk := d2, db_catalogs := (db_catalogs db)
      (i := (db_catalogs db i)\<lparr>vc_metadata := m2\<rparr>)\<rparr>"
    using two(1) by (simp add: one(1))
  moreover have "same_disk (db_disk db) d2" using same_disk_trans[OF one(2)] two(2) by (simp add: one(1))
  ultimately show ?case by blast
qed

section \<open>One container\<close>

definition same_session :: "'v database \<Rightarrow> 'v database \<Rightarrow> bool" where
  "same_session db db' \<longleftrightarrow> db_integrity_latched db' = db_integrity_latched db
     \<and> db_cleanup_pending db' = db_cleanup_pending db \<and> db_lock_held db' = db_lock_held db
     \<and> db_file_cache db' = db_file_cache db \<and> db_dirty_versions db' = db_dirty_versions db"

lemma same_session_trans: "same_session a b \<Longrightarrow> same_session b c \<Longrightarrow> same_session a c"
  by (simp add: same_session_def)

text \<open>What opening a container leaves behind, on top of what it counted.\<close>

definition opens :: "'v env \<Rightarrow> u64 \<Rightarrow> 'v database \<Rightarrow> 'v database \<Rightarrow> bool" where
  "opens E i db db' \<longleftrightarrow> serving E db' i \<and> listed db' i \<and> isolates i db db' \<and> same_session db db'
     \<and> tables_ok (db_disk db')
     \<and> db_entries_count db' = db_entries_count db + word_of_nat (size (contents db' i))"

lemma sum_list_distinct_set: "distinct xs \<Longrightarrow> (\<Sum>x \<leftarrow> xs. f x) = (\<Sum>x \<in> set xs. (f x :: nat))"
  by (simp add: sum.distinct_set_conv_list)

lemma size_sum_bags:
  fixes f :: "'a \<Rightarrow> 'b multiset"
  shows "finite A \<Longrightarrow> size (\<Sum>x \<in> A. f x) = (\<Sum>x \<in> A. size (f x))"
  by (induction A rule: finite_induct) simp_all

lemma survey_index_spec:
  assumes run: "survey_index E i v db = (Inr u, db')" and tok: "tables_ok (db_disk db)"
    and act: "db_mapped db i" "db_current_versions db i = v" "generation_ok E (db_database_id db) (db_disk db) i v"
    and inv: "catalog_inv (db_catalogs db i)" and top: "\<forall>w \<in> set (vc_versions (db_catalogs db i)). w \<le> v"
    and reg: "insert v (set (vc_versions (db_catalogs db i)))
      = {w. \<exists>f. lookup_file (db_disk db) (data_path i w) = Some f \<and> is_regular f}"
  shows "opens E i db db'"
proof -
  let ?c = "catalog_add v (db_catalogs db i)"
  define db1 where "db1 = db\<lparr>db_catalogs := (db_catalogs db)(i := ?c),
      db_entries_count := db_entries_count db + tbl_size (container db i)\<rparr>"
  have cinv: "catalog_inv ?c" and cset: "set (vc_versions ?c) = insert v (set (vc_versions (db_catalogs db i)))"
    using inv by (simp_all add: wf_intros set_catalog_add)
  have cact: "catalog_active ?c = v"
    using catalog_active_max[OF cinv, of v] cset top by auto
  have bel: "set (catalog_below ?c v) = set (vc_versions ?c) - {v}" "distinct (catalog_below ?c v)"
    using catalog_below_set[OF cinv, of v] catalog_below_distinct[OF cinv] cset top by (auto simp: less_le)
  obtain db2 where two: "count_versions E i (catalog_below ?c v) db1 = (Inr (), db2)"
    and db': "db' = fold (load_metadata_from_disk E i) (vc_versions (db_catalogs db2 i)) db2"
    using run by (auto simp: survey_index_def Let_def db1_def split: prod.splits sum.splits)
  have "tables_ok (db_disk db1)" using tok by (simp add: db1_def)
  note cv = count_versions_spec[OF two this]
  obtain d m where fl: "db' = db2\<lparr>db_disk := d, db_catalogs := (db_catalogs db2)
      (i := (db_catalogs db2 i)\<lparr>vc_metadata := m\<rparr>)\<rparr>" "same_disk (db_disk db2) d"
    using fold_load_metadata_spec[of E i "vc_versions (db_catalogs db2 i)" db2] db' by auto
  have db2: "db2 = db1\<lparr>db_disk := db_disk db2, db_entries_count := db_entries_count db2\<rparr>" using cv by blast
  have eq: "db' = db\<lparr>db_disk := d, db_entries_count := db_entries_count db2,
      db_catalogs := (db_catalogs db)(i := ?c\<lparr>vc_metadata := m\<rparr>)\<rparr>"
    unfolding fl(1) by (subst (1 2 3) db2) (simp add: db1_def)
  have same: "same_disk (db_disk db) d" using same_disk_trans[OF _ fl(2)] cv by (simp add: db1_def)
  note look = same_disk_lookup[OF same]
  have ok: "generation_ok E (db_database_id db) d i w" if "w \<in> set (vc_versions ?c)" for w
  proof -
    have "generation_ok E (db_database_id db) (db_disk db) i w"
      using that cv act(3) bel(1) by (cases "w = v") (auto simp: db1_def)
    then show ?thesis using generation_ok_cong[OF look] by blast
  qed
  have inv': "catalog_inv (?c\<lparr>vc_metadata := m\<rparr>)" using cinv by (simp add: catalog_inv_def)
  have srv: "serving E db' i"
    using act cset cact ok inv' by (auto simp: eq serving_def container_inv_def catalog_active_def)
  have lst: "listed db' i" using inv' cset reg by (simp add: eq listed_def look)
  have cnt: "contents db' i = (\<Sum>w \<in> set (vc_versions ?c). generation_bag (db_disk db) i w)"
    by (simp add: contents_def eq generation_bag_cong[OF look])
  have "size (contents db' i) = size (generation_bag (db_disk db) i v)
      + (\<Sum>w \<in> set (vc_versions ?c) - {v}. size (generation_bag (db_disk db) i w))"
    unfolding cnt size_sum_bags[OF finite_set] using cset by (intro sum.remove) auto
  also have "\<dots> = size (generation_bag (db_disk db) i v)
      + (\<Sum>w \<leftarrow> catalog_below ?c v. size (generation_bag (db_disk db) i w))"
    by (simp add: sum_list_distinct_set[OF bel(2)] bel(1))
  finally have sz: "size (contents db' i) = size (generation_bag (db_disk db) i v)
      + (\<Sum>w \<leftarrow> catalog_below ?c v. size (generation_bag (db_disk db) i w))" .
  have "tbl_size (container db i) = word_of_nat (size (generation_bag (db_disk db) i v))"
    using generation_ok_generation[OF act(3)] act(1,2) by (auto simp: container_def tbl_size_bag generation_bag_def)
  moreover have "db_entries_count db' = db_entries_count db2" by (simp add: eq)
  moreover have "db_entries_count db2 = db_entries_count db1 + word_of_nat (\<Sum>w \<leftarrow> catalog_below ?c v.
      size (generation_bag (db_disk db) i w))" using cv by (simp add: db1_def)
  ultimately have "db_entries_count db' = db_entries_count db + word_of_nat (size (contents db' i))"
    unfolding sz by (simp add: db1_def)
  then show ?thesis
    using srv lst tok tables_ok_same[OF same] look by (simp add: opens_def eq isolates_def same_session_def)
qed

lemma open_index_existing:
  assumes run: "survey_index E i v db1 = (Inr u, db')" and op: "open_existing_container E i v db = (Inr w, db1)"
    and lst: "listed db i" and tok: "tables_ok (db_disk db)" and ne: "vc_versions (db_catalogs db i) \<noteq> []"
    and v: "v = catalog_active (db_catalogs db i)"
  shows "opens E i db db'"
proof -
  obtain t d where oc: "open_checked E (db_database_id db) (kind_of_index i) (data_path i v) v (db_disk db) = (Inr t, d)"
    and db1: "db1 = db\<lparr>db_disk := d, db_mapped := (db_mapped db)(i := True),
            db_rehash_watch := (db_rehash_watch db)(i := rehash_watch_reset (tbl_buckets t)),
            db_current_versions := (db_current_versions db)(i := v)\<rparr>"
    using op by (auto simp: open_existing_container_def split: prod.splits sum.splits)
  note same = open_checked_same[OF oc] and look = same_disk_lookup[OF open_checked_same[OF oc]]
  have inv: "catalog_inv (db_catalogs db i)" using lst by (simp add: listed_def)
  have top: "w \<le> v \<and> v \<in> set (vc_versions (db_catalogs db i))" if "w \<in> set (vc_versions (db_catalogs db i))" for w
    using catalog_active_max[OF inv that] by (simp add: v)
  moreover obtain w where "w \<in> set (vc_versions (db_catalogs db i))" using ne by (meson list.set_sel(1))
  ultimately have mem: "v \<in> set (vc_versions (db_catalogs db i))" by blast
  have "generation_ok E (db_database_id db) d i v"
    using open_checked_generation(1)[OF oc tok] generation_ok_cong[OF look] by blast
  then have "opens E i db1 db'"
    using run tables_ok_same[OF same] tok inv top mem lst
    by (intro survey_index_spec[of E i v db1 u db']) (auto simp: db1 listed_def look insert_absorb)
  then show ?thesis
    by (auto simp: opens_def isolates_def same_session_def db1 look)
qed

lemma open_index_fresh:
  assumes run: "survey_index E i v db1 = (Inr u, db')" and mk: "create_container E i v db = (Returned (Inr ()), db1)"
    and lst: "listed db i" and tok: "tables_ok (db_disk db)" and e: "vc_versions (db_catalogs db i) = []"
    and cr: "creatable db i"
  shows "opens E i db db'"
proof -
  obtain d b m where db1: "db1 = db\<lparr>db_disk := d, db_mapped := (db_mapped db)(i := True),
      db_rehash_watch := (db_rehash_watch db)(i := rehash_watch_reset b),
      db_current_versions := (db_current_versions db)(i := v)\<rparr>"
    and t: "touches {data_path i v} (db_disk db) d" and none: "lookup_file (db_disk db) (data_path i v) = None"
    and g: "generation_ok E (db_database_id db) d i v" "generation d i v = Some (tbl_empty b m)"
    by (rule create_container_ok[OF mk cr])
  have look: "lookup_file d (data_path j w) = lookup_file (db_disk db) (data_path j w)" if "(j, w) \<noteq> (i, v)" for j w
    using touches_lookup[OF t, of "data_path j w"] that by auto
  have tok1: "tables_ok d"
    unfolding tables_ok_def
  proof (intro allI impI)
    fix j w t assume t: "generation d j w = Some t"
    show "tbl_ok t"
    proof (cases "(j, w) = (i, v)")
      case True
      then have "t = tbl_empty b m" using t g(2) by simp
      then show ?thesis by simp
    next
      case False
      then have "generation (db_disk db) j w = Some t" using t generation_cong[OF look] by metis
      with tok show ?thesis unfolding tables_ok_def by blast
    qed
  qed
  have none_reg: "\<not> (\<exists>f. lookup_file (db_disk db) (data_path i w) = Some f \<and> is_regular f)" for w
    using lst e by (auto simp: listed_def)
  obtain f where f: "lookup_file d (data_path i v) = Some f" "is_regular f"
    using g(1) by (auto simp: generation_ok_def is_regular_def)
  have reg: "{v} = {w. \<exists>f. lookup_file d (data_path i w) = Some f \<and> is_regular f}"
  proof (intro set_eqI)
    fix w show "w \<in> {v} \<longleftrightarrow> w \<in> {w. \<exists>f. lookup_file d (data_path i w) = Some f \<and> is_regular f}"
      using f none_reg[of w] look[of i w] by (cases "w = v") auto
  qed
  have "opens E i db1 db'"
    using run tok1 g(1) e lst reg
    by (intro survey_index_spec[of E i v db1 u db']) (auto simp: db1 listed_def)
  then show ?thesis
    using look by (auto simp: opens_def isolates_def same_session_def db1)
qed

lemma open_index_spec:
  assumes run: "open_index E intent i db = (Returned (Inr u), db')" and lst: "listed db i"
    and tok: "tables_ok (db_disk db)" and cr: "creatable db i"
  shows "if vc_versions (db_catalogs db i) = [] \<and> intent = Inspection then db' = db else opens E i db db'"
proof (cases "vc_versions (db_catalogs db i) = [] \<and> intent = Inspection")
  case True
  then show ?thesis using run by (simp add: open_index_def)
next
  case False
  let ?v = "catalog_active (db_catalogs db i)"
  obtain db1 where one: "(if vc_versions (db_catalogs db i) = [] then create_container E i ?v db
      else apfst Returned (open_existing_container E i ?v db)) = (Returned (Inr ()), db1)"
    and two: "survey_index E i ?v db1 = (Inr u, db')"
    using run False
    by (cases "if vc_versions (db_catalogs db i) = [] then create_container E i ?v db
      else apfst Returned (open_existing_container E i ?v db)")
      (auto simp: open_index_def apfst_def map_prod_def split: call.splits sum.splits if_splits prod.splits)
  show ?thesis
  proof (cases "vc_versions (db_catalogs db i) = []")
    case True
    then show ?thesis using open_index_fresh[OF two _ lst tok True cr] one False by simp
  next
    case ne: False
    then have "open_existing_container E i ?v db = (Inr (), db1)"
      using one by (cases "open_existing_container E i ?v db") auto
    then show ?thesis using open_index_existing[OF two _ lst tok ne refl] ne by simp
  qed
qed

section \<open>All containers\<close>

definition same_container :: "u64 \<Rightarrow> 'v database \<Rightarrow> 'v database \<Rightarrow> bool" where
  "same_container j db db' \<longleftrightarrow> db_mapped db' j = db_mapped db j
     \<and> db_current_versions db' j = db_current_versions db j \<and> db_catalogs db' j = db_catalogs db j
     \<and> (\<forall>v. lookup_file (db_disk db') (data_path j v) = lookup_file (db_disk db) (data_path j v))"

definition same_settings :: "'v database \<Rightarrow> 'v database \<Rightarrow> bool" where
  "same_settings db db' \<longleftrightarrow> db_mode db' = db_mode db \<and> db_capacity db' = db_capacity db
     \<and> db_database_id db' = db_database_id db \<and> db_inspection_only db' = db_inspection_only db"

lemma isolates_same:
  "isolates i db db' \<longleftrightarrow> (\<forall>j. j \<noteq> i \<longrightarrow> same_container j db db') \<and> same_settings db db'"
  by (auto simp: isolates_def same_container_def same_settings_def)

lemma same_container_facts:
  assumes "same_container j db db'" "same_settings db db'"
  shows "serving E db' j = serving E db j" "listed db' j = listed db j" "contents db' j = contents db j"
    "creatable db' j = creatable db j" "vc_versions (db_catalogs db' j) = vc_versions (db_catalogs db j)"
proof -
  have l: "lookup_file (db_disk db') (data_path j v) = lookup_file (db_disk db) (data_path j v)" for v
    using assms(1) by (simp add: same_container_def)
  show "serving E db' j = serving E db j"
    using assms by (simp add: serving_def container_inv_def same_container_def same_settings_def generation_ok_cong[OF l])
  show "listed db' j = listed db j" using assms by (simp add: listed_def same_container_def)
  show "contents db' j = contents db j"
    using assms by (simp add: contents_def same_container_def generation_bag_cong[OF l])
  show "creatable db' j = creatable db j" using assms by (simp add: creatable_def same_settings_def)
  show "vc_versions (db_catalogs db' j) = vc_versions (db_catalogs db j)"
    using assms by (simp add: same_container_def)
qed

text \<open>A container is up: it serves, or an inspection found nothing to open.\<close>

definition up :: "'v env \<Rightarrow> open_intent \<Rightarrow> 'v database \<Rightarrow> u64 \<Rightarrow> bool" where
  "up E intent db i \<longleftrightarrow> listed db i
     \<and> (serving E db i \<or> intent = Inspection \<and> vc_versions (db_catalogs db i) = [] \<and> \<not> db_mapped db i)"

lemma open_indices_spec:
  assumes "open_indices E intent is db = (Returned (Inr u), db')" "distinct is" "tables_ok (db_disk db)"
    and "\<forall>i \<in> set is. listed db i \<and> creatable db i \<and> \<not> db_mapped db i"
  shows "(\<forall>i \<in> set is. up E intent db' i) \<and> tables_ok (db_disk db') \<and> same_session db db'
    \<and> same_settings db db' \<and> (\<forall>j. j \<notin> set is \<longrightarrow> same_container j db db')
    \<and> db_entries_count db' = db_entries_count db + word_of_nat (\<Sum>i \<in> set is. size (contents db' i))"
  using assms
proof (induction "is" arbitrary: db)
  case Nil
  then show ?case by (simp add: same_session_def same_settings_def same_container_def)
next
  case (Cons i "is")
  obtain db1 where one: "open_index E intent i db = (Returned (Inr ()), db1)"
    and rest: "open_indices E intent is db1 = (Returned (Inr u), db')"
    using Cons.prems(1) by (auto split: prod.splits call.splits sum.splits)
  have li: "listed db i" "creatable db i" "\<not> db_mapped db i" using Cons.prems(4) by auto
  note sp = open_index_spec[OF one li(1) Cons.prems(3) li(2)]
  let ?skip = "vc_versions (db_catalogs db i) = [] \<and> intent = Inspection"
  have step: "up E intent db1 i" "\<forall>j. j \<noteq> i \<longrightarrow> same_container j db db1" "same_settings db db1"
    "same_session db db1" "tables_ok (db_disk db1)"
    "db_entries_count db1 = db_entries_count db + word_of_nat (size (contents db1 i))"
  proof -
    show "up E intent db1 i" using sp li by (cases ?skip) (simp_all add: up_def opens_def)
    show "\<forall>j. j \<noteq> i \<longrightarrow> same_container j db db1" "same_settings db db1"
      using sp isolates_same[of i db db1]
      by (cases ?skip; simp add: opens_def same_container_def same_settings_def)+
    show "same_session db db1" "tables_ok (db_disk db1)"
      using sp Cons.prems(3) by (cases ?skip; simp add: opens_def same_session_def)+
    show "db_entries_count db1 = db_entries_count db + word_of_nat (size (contents db1 i))"
      using sp by (cases ?skip) (auto simp: opens_def contents_def)
  qed
  have "\<forall>j \<in> set is. listed db1 j \<and> creatable db1 j \<and> \<not> db_mapped db1 j"
  proof
    fix j assume j: "j \<in> set is"
    then have "same_container j db db1" using step(2) Cons.prems(2) by auto
    then show "listed db1 j \<and> creatable db1 j \<and> \<not> db_mapped db1 j"
      using same_container_facts(2,4)[OF _ step(3)] Cons.prems(4) j by (simp add: same_container_def)
  qed
  note IH = Cons.IH[OF rest _ step(5) this]
  have ni: "i \<notin> set is" "distinct is" using Cons.prems(2) by auto
  have si: "same_container i db1 db'" and ss: "same_settings db1 db'" using IH ni by auto
  note keep = same_container_facts[OF si ss]
  have "up E intent db' i" using step(1) keep si by (simp add: up_def same_container_def)
  then have "\<forall>j \<in> set (i # is). up E intent db' j" using IH ni by simp
  moreover have "same_session db db'" using same_session_trans[OF step(4)] IH ni by blast
  moreover have "same_settings db db'" using step(3) ss by (simp add: same_settings_def)
  moreover have "\<forall>j. j \<notin> set (i # is) \<longrightarrow> same_container j db db'"
  proof (intro allI impI)
    fix j assume "j \<notin> set (i # is)"
    then have "same_container j db db1" "same_container j db1 db'" using step(2) IH ni by auto
    then show "same_container j db db'" by (simp add: same_container_def)
  qed
  moreover have "db_entries_count db' = db_entries_count db
      + word_of_nat (\<Sum>j \<in> set (i # is). size (contents db' j))"
    using IH ni step(6) keep(3) by simp
  moreover have "tables_ok (db_disk db')" using IH ni by blast
  ultimately show ?case by blast
qed

lemma decode_config_identity:
  "decode_config bs = Inr c \<Longrightarrow> length (sc_database_id c) = 16"
  by (auto simp: decode_config_def Let_def get32_def get16_def get8_def get_array_def split_def
      config_encoded_size_def split: if_splits)

section \<open>The stages of a successful open\<close>

lemma settle_identity_length:
  assumes "settle_identity E remove mode intent d = (Inr dbid, d')"
  shows "length dbid = 16"
proof -
  have "length dbid = 16" if "read_config_file E path d = (Inr c, d'')" "dbid = sc_database_id c" for path d d'' c
    using that decode_config_identity by (auto simp: read_config_file_def Let_def split: option.splits if_splits)
  moreover have "length (draw_identity bs) = 16" for bs by (simp add: draw_identity_def)
  ultimately show ?thesis
    using assms
    by (auto simp: settle_identity_def read_identity_def make_identity_def
        split: prod.splits sum.splits if_splits bool.splits option.splits)
qed

lemma wipe_entries_spec:
  assumes "wipe_entries E names d = (Inr u, d')"
  shows "place d' = place d \<and> (distinct (map fst (files d)) \<longrightarrow> distinct (map fst (files d')))
    \<and> (\<forall>n. lookup_file d' n = (if n \<in> set names \<and> n \<noteq> lock_file_name then None else lookup_file d n))"
  using assms
proof (induction names arbitrary: d)
  case (Cons name names)
  define d1 where "d1 = (if name = lock_file_name then tick d else tick (drop_file name (tick d)))"
  have rest: "wipe_entries E names d1 = (Inr u, d')"
    using Cons.prems by (auto simp: d1_def split: if_splits)
  have "touches {name} d d1"
    using touches_drop_file[of name "{name}" "tick d"] by (simp add: d1_def touches_refl)
  then have "place d1 = place d" "distinct (map fst (files d)) \<longrightarrow> distinct (map fst (files d1))"
    using touches_place touches_distinct by auto
  then show ?case using Cons.IH[OF rest] by (auto simp: d1_def)
qed simp

lemma wipe_directory_spec:
  assumes "wipe_directory E d = (Inr u, d')"
  shows "place d' = place d" "distinct (map fst (files d)) \<Longrightarrow> distinct (map fst (files d'))"
    "\<And>n. n \<noteq> lock_file_name \<Longrightarrow> lookup_file d' n = None"
proof -
  have "wipe_entries E (map fst (files d)) (tick d) = (Inr u, d')"
    using assms by (auto simp: wipe_directory_def split: if_splits)
  note w = wipe_entries_spec[OF this]
  show "place d' = place d" "distinct (map fst (files d)) \<Longrightarrow> distinct (map fst (files d'))" using w by simp_all
  show "lookup_file d' n = None" if "n \<noteq> lock_file_name" for n
    using w that by (auto simp: lookup_file_def map_of_eq_None_iff_fst)
qed

text \<open>The directory recovery starts from, and the one the containers are opened over.\<close>

definition own_names :: "string set" where
  "own_names = {lock_file_name, config_path, tmp_path config_path}"

lemma own_names_disjoint [simp]: "data_path i v \<notin> own_names" "sidecar_path i v \<notin> own_names"
  by (simp_all add: own_names_def)

lemma configure_prefix:
  assumes run: "configure_internal E remove mode intent db = (Returned (Inr u), db')"
  obtains dbid d d' where "recover_pending_merges E mode d = (Inr (), d')"
    and "open_containers E intent (db\<lparr>db_inspection_only := (intent = Inspection),
        db_lock_held := True, db_mode := mode, db_database_id := dbid,
        db_file_cache := new_file_cache dbid 1, db_entries_count := 0, db_disk := d'\<rparr>) = (Returned (Inr u), db')"
    and "length dbid = 16" and "place d = Directory_present"
    and "distinct (map fst (files (db_disk db))) \<Longrightarrow> distinct (map fst (files d))"
    and "\<And>n. n \<notin> own_names \<Longrightarrow> lookup_file d n = (if remove then None else lookup_file (db_disk db) n)"
proof -
  obtain d1 d2 d4 dbid d5 d6 where
    one: "prepare_directory E intent (db_disk db) = (Inr (), d1)" and
    two: "acquire_lock E d1 = (Inr (), d2)" and
    four: "(if remove then wipe_directory E (record_holder E d2) else (Inr (), record_holder E d2)) = (Inr (), d4)" and
    five: "settle_identity E remove mode intent d4 = (Inr dbid, d5)" and
    six: "recover_pending_merges E mode d5 = (Inr (), d6)" and
    seven: "open_containers E intent (db\<lparr>db_inspection_only := (intent = Inspection),
        db_lock_held := True, db_mode := mode, db_database_id := dbid,
        db_file_cache := new_file_cache dbid 1, db_entries_count := 0, db_disk := d6\<rparr>) = (Returned (Inr u), db')"
    using run by (auto simp: configure_internal_def Let_def split: prod.splits sum.splits)
  note p = prepare_directory_spec[OF one]
  let ?d3 = "record_holder E d2"
  note t3 = touches_trans[OF acquire_lock_touches[OF two] record_holder_touches]
  have l3: "lookup_file ?d3 n = lookup_file (db_disk db) n" if "n \<noteq> lock_file_name" for n
    using touches_lookup[OF t3, of n] p(1) that by (simp add: lookup_file_def)
  have pl3: "place ?d3 = Directory_present"
    "distinct (map fst (files (db_disk db))) \<Longrightarrow> distinct (map fst (files ?d3))"
    using touches_place[OF t3] touches_distinct[OF t3] p by simp_all
  have l4: "lookup_file d4 n = (if remove then None else lookup_file (db_disk db) n)" if "n \<noteq> lock_file_name" for n
    using four l3[OF that] wipe_directory_spec(3)[of E ?d3 "()" d4 n] that by (auto split: if_splits)
  have pl4: "place d4 = Directory_present"
    "distinct (map fst (files (db_disk db))) \<Longrightarrow> distinct (map fst (files d4))"
    using four pl3 wipe_directory_spec(1,2)[of E ?d3 "()" d4] by (auto split: if_splits)
  note t5 = settle_identity_touches[OF five]
  have "lookup_file d5 n = (if remove then None else lookup_file (db_disk db) n)" if "n \<notin> own_names" for n
    using touches_lookup[OF t5, of n] l4[of n] that by (simp add: own_names_def)
  then show ?thesis
    using that[OF six seven settle_identity_length[OF five]] touches_place[OF t5] touches_distinct[OF t5] pl4
    by simp
qed

lemma configure_stages:
  assumes run: "configure_internal E remove mode intent db = (Returned (Inr u), db')"
    and start: "distinct (map fst (files (db_disk db)))" "remove \<or> no_records (files (db_disk db))"
  obtains dbid d where "open_containers E intent (db\<lparr>db_inspection_only := (intent = Inspection),
        db_lock_held := True, db_mode := mode, db_database_id := dbid,
        db_file_cache := new_file_cache dbid 1, db_entries_count := 0, db_disk := d\<rparr>) = (Returned (Inr u), db')"
    and "length dbid = 16" and "idle d"
    and "\<And>i v. lookup_file d (data_path i v) = (if remove then None else lookup_file (db_disk db) (data_path i v))"
proof -
  obtain dbid d d' where rec: "recover_pending_merges E mode d = (Inr (), d')"
    and two: "open_containers E intent (db\<lparr>db_inspection_only := (intent = Inspection),
        db_lock_held := True, db_mode := mode, db_database_id := dbid,
        db_file_cache := new_file_cache dbid 1, db_entries_count := 0, db_disk := d'\<rparr>) = (Returned (Inr u), db')"
      "length dbid = 16"
    and pl: "place d = Directory_present" "distinct (map fst (files d))"
    and look: "\<And>n. n \<notin> own_names \<Longrightarrow> lookup_file d n = (if remove then None else lookup_file (db_disk db) n)"
    using configure_prefix[OF run] start(1) by metis
  have "no_records (files d)"
    using look[of "sidecar_path _ _"] start(2) by (auto simp: no_records_def lookup_file_def split: if_splits)
  with pl have idle: "idle d" by (simp add: idle_def)
  note t = recover_idle(1)[OF idle rec]
  have "lookup_file d' (data_path i v) = (if remove then None else lookup_file (db_disk db) (data_path i v))" for i v
    using touches_lookup[OF t, of "data_path i v"] look[of "data_path i v"] by simp
  then show ?thesis using that[OF two] idle_touches[OF idle t] by blast
qed

section \<open>Every capacity is usable\<close>

lemma capacities_creatable:
  assumes "i \<in> set (indices_of mode)"
  shows "smallest_configured_file \<le> ce_file_size (capacities testing i)"
proof -
  have "i \<in> {0, 1, 2, 3, 4, reference_sentinel_index}"
    using assms by (auto simp: indices_of_def full_indices_def split: storage_mode.splits)
  then show ?thesis
    by (auto simp: capacities_def production_capacity_def testing_capacity_def production_reference_def
        testing_reference_def smallest_configured_file_def file_sizes_def test_file_sizes_def mib_def gib_def
        reference_file_size_def reference_test_file_size_def reference_sentinel_index_def)
qed

lemma indices_distinct: "distinct (indices_of mode)"
  by (simp add: indices_of_def full_indices_def split: storage_mode.splits)

section \<open>What a successful open gives\<close>

lemma open_containers_spec:
  assumes run: "open_containers E intent db = (Returned (Inr u), db')" and d: "idle (db_disk db)"
    and tok: "tables_ok (db_disk db)" and cr: "\<forall>i \<in> set (indices_of (db_mode db)). creatable db i"
    and unmapped: "\<forall>i. \<not> db_mapped db i"
  shows "(\<forall>i \<in> set (indices_of (db_mode db)). up E intent db' i)
    \<and> tables_ok (db_disk db') \<and> same_session db db' \<and> same_settings db db'
    \<and> db_entries_count db' = db_entries_count db + word_of_nat (size (stored db'))"
proof -
  let ?is = "indices_of (db_mode db)"
  obtain db1 where one: "list_catalogs E ?is db = (Inr (), db1)"
    and two: "open_indices E intent (indices_of (db_mode db1)) db1 = (Returned (Inr u), db')"
    using run by (auto simp: open_containers_def split: prod.splits sum.splits if_splits)
  note ls = list_catalogs_spec[OF one _ _ indices_distinct]
  have db1: "db1 = db\<lparr>db_disk := db_disk db1, db_catalogs := db_catalogs db1\<rparr>"
    and same: "same_disk (db_disk db) (db_disk db1)" and lst: "\<forall>i \<in> set ?is. listed db1 i"
    using ls d by (auto simp: idle_def)
  have f: "db_mode db1 = db_mode db" "db_mapped db1 = db_mapped db" "db_capacity db1 = db_capacity db"
    "db_database_id db1 = db_database_id db" "same_session db db1" "same_settings db db1"
    "db_entries_count db1 = db_entries_count db"
    by (subst db1, simp add: same_session_def same_settings_def)+
  have "\<forall>i \<in> set ?is. listed db1 i \<and> creatable db1 i \<and> \<not> db_mapped db1 i"
    using lst cr unmapped by (simp add: creatable_def f)
  then have sp: "(\<forall>i \<in> set ?is. up E intent db' i) \<and> tables_ok (db_disk db') \<and> same_session db1 db'
    \<and> same_settings db1 db' \<and> (\<forall>j. j \<notin> set ?is \<longrightarrow> same_container j db1 db')
    \<and> db_entries_count db' = db_entries_count db1 + word_of_nat (\<Sum>i \<in> set ?is. size (contents db' i))"
    using open_indices_spec[OF two[unfolded f(1)] indices_distinct, of ] tables_ok_same[OF same] tok by blast
  have "db_mode db' = db_mode db" using sp f by (simp add: same_settings_def)
  then have "(\<Sum>i \<in> set ?is. size (contents db' i)) = size (stored db')"
    by (simp add: stored_def size_sum_bags)
  then show ?thesis using sp f same_session_trans by (auto simp: same_settings_def)
qed

definition empty_at :: "bool \<Rightarrow> 'v disk \<Rightarrow> u64 \<Rightarrow> (raw_outpoint \<times> 'v) multiset" where
  "empty_at remove d i = (if remove then {#} else stored_at (files d) i)"

text \<open>What the containers opened over an idle directory give.\<close>

lemma containers_serve:
  assumes run: "open_containers E intent ((new_database d)\<lparr>db_capacity := capacities testing,
        db_inspection_only := (intent = Inspection), db_lock_held := True, db_mode := mode,
        db_database_id := dbid, db_file_cache := new_file_cache dbid 1, db_entries_count := 0,
        db_disk := d1\<rparr>) = (Returned (Inr u), db)"
    and len: "length dbid = 16" and idle: "idle d1" and tok: "tables_ok d1"
  shows "db_mode db = mode" "db_inspection_only db \<longleftrightarrow> intent = Inspection" "db_lock_held db"
    "\<not> db_cleanup_pending db" "db_integrity_latched db = None"
    "db_file_cache db = new_file_cache (db_database_id db) 1" "db_capacity db = capacities testing"
    "length (db_database_id db) = 16"
    "\<forall>i \<in> set (indices_of mode). up E intent db i \<and> contents db i = stored_at (files d1) i"
    "database_size db = word_of_nat (size (stored db))" "tables_ok (db_disk db)"
proof -
  define db0 where "db0 = (new_database d)\<lparr>db_capacity := capacities testing,
        db_inspection_only := (intent = Inspection), db_lock_held := True, db_mode := mode,
        db_database_id := dbid, db_file_cache := new_file_cache dbid 1, db_entries_count := 0,
        db_disk := d1\<rparr>"
  have run0: "open_containers E intent db0 = (Returned (Inr u), db)" using run by (simp add: db0_def)
  have f: "db_disk db0 = d1" "db_mode db0 = mode" "db_database_id db0 = dbid" "db_capacity db0 = capacities testing"
    "\<not> db_mapped db0 i" "db_entries_count db0 = 0" "db_file_cache db0 = new_file_cache dbid 1"
    "db_lock_held db0" "\<not> db_cleanup_pending db0" "db_integrity_latched db0 = None"
    "db_inspection_only db0 \<longleftrightarrow> intent = Inspection" for i
    by (simp_all add: db0_def new_database_def)
  have cr: "\<forall>i \<in> set (indices_of (db_mode db0)). creatable db0 i"
    using len capacities_creatable by (simp add: creatable_def f)
  note sp = open_containers_spec[OF run0, unfolded f(1), OF idle tok cr]
  have sp': "(\<forall>i \<in> set (indices_of mode). up E intent db i) \<and> tables_ok (db_disk db) \<and> same_session db0 db
      \<and> same_settings db0 db \<and> db_entries_count db = word_of_nat (size (stored db))"
    using sp f by simp
  have k: "keeping (files d1) d1 (db_disk db)" using open_containers_keeping[OF run0, of "files d1"] by (simp add: f)
  have "stored_at (files (db_disk db)) i = stored_at (files d1) i" for i
    using keeps_entries_stored[OF keeping_final[OF k]] by simp
  then show "\<forall>i \<in> set (indices_of mode). up E intent db i \<and> contents db i = stored_at (files d1) i"
    using sp' listed_stored[of db] by (simp add: up_def)
  show "db_mode db = mode" "db_inspection_only db \<longleftrightarrow> intent = Inspection" "db_lock_held db"
    "\<not> db_cleanup_pending db" "db_integrity_latched db = None"
    "db_file_cache db = new_file_cache (db_database_id db) 1" "db_capacity db = capacities testing"
    "length (db_database_id db) = 16" "tables_ok (db_disk db)"
    using sp' len by (simp_all add: same_session_def same_settings_def f)
  show "database_size db = word_of_nat (size (stored db))" using sp' by (simp add: database_size_def)
qed

lemma configure_serves:
  assumes run: "configure_internal E remove mode intent ((new_database d)\<lparr>db_capacity := capacities testing\<rparr>)
      = (Returned (Inr u), db)"
    and start: "distinct (map fst (files d))" "tables_ok d" "remove \<or> no_records (files d)"
  obtains d1 dbid where "open_containers E intent ((new_database d)\<lparr>db_capacity := capacities testing,
        db_inspection_only := (intent = Inspection), db_lock_held := True, db_mode := mode,
        db_database_id := dbid, db_file_cache := new_file_cache dbid 1, db_entries_count := 0,
        db_disk := d1\<rparr>) = (Returned (Inr u), db)"
    and "length dbid = 16" "idle d1" "tables_ok d1"
    and "\<And>i. stored_at (files d1) i = empty_at remove d i"
proof -
  have new: "db_disk ((new_database d)\<lparr>db_capacity := capacities testing\<rparr>) = d" by (simp add: new_database_def)
  obtain dbid d1 where two: "open_containers E intent ((new_database d)\<lparr>db_capacity := capacities testing,
        db_inspection_only := (intent = Inspection), db_lock_held := True, db_mode := mode,
        db_database_id := dbid, db_file_cache := new_file_cache dbid 1, db_entries_count := 0,
        db_disk := d1\<rparr>) = (Returned (Inr u), db)" "length dbid = 16" "idle d1"
    and look: "\<And>i v. lookup_file d1 (data_path i v) = (if remove then None else lookup_file d (data_path i v))"
    by (rule configure_stages[OF run, unfolded new, OF start(1,3)], rule that)
  have gen: "generation d1 i v = (if remove then None else generation d i v)" for i v
    using look[of i v] by (simp add: generation_def)
  then have tok: "tables_ok d1" using start(2) by (simp add: tables_ok_def)
  have "generation_bag d1 i v = (if remove then {#} else generation_bag d i v)" for i v
    by (simp add: generation_bag_def gen)
  then have bag: "stored_at (files d1) i = empty_at remove d i" for i
    by (simp add: empty_at_def stored_at_def generation_bag_files)
  show ?thesis by (rule that[OF two tok bag])
qed

lemma up_store_inv:
  assumes "\<forall>i \<in> set (indices_of (db_mode db)). up E Open_or_create db i"
    and "db_file_cache db = new_file_cache (db_database_id db) 1"
  shows "store_inv E db"
proof -
  have "\<forall>i \<in> set (indices_of (db_mode db)). serving E db i" using assms(1) by (simp add: up_def)
  then show ?thesis
    using assms(2) by (simp add: store_inv_def cache_inv_def new_file_cache_def cached_keys_def)
qed

text \<open>
  C12: a successful open gives a store that serves every container of its mode (an inspection leaves
  alone a class that has no version), holds the lock, is neither latched nor waiting for recovery,
  holds exactly the entries of the directory it was opened on, or none when the caller asked to
  remove them, and counts them.
\<close>

theorem open_serves:
  assumes "opened E (\<lambda>db. configure_internal E remove mode intent (db\<lparr>db_capacity := capacities testing\<rparr>)) d
      = (Returned (Inr db), d')"
    and "distinct (map fst (files d))" "tables_ok d" "remove \<or> no_records (files d)"
  shows "db_disk db = d' \<and> db_mode db = mode \<and> db_lock_held db
    \<and> \<not> db_cleanup_pending db \<and> db_integrity_latched db = None
    \<and> (intent = Open_or_create \<longrightarrow> store_inv E db)
    \<and> (\<forall>i \<in> set (indices_of mode). (serving E db i \<or> intent = Inspection \<and> \<not> db_mapped db i)
         \<and> contents db i = (if remove then {#} else stored_at (files d) i))
    \<and> database_size db = word_of_nat (size (stored db))"
proof -
  obtain u where run: "configure_internal E remove mode intent ((new_database d)\<lparr>db_capacity := capacities testing\<rparr>)
      = (Returned (Inr u), db)" and d': "d' = db_disk db"
    using assms(1) by (auto simp: opened_def split: prod.splits call.splits sum.splits)
  obtain d1 dbid where open1: "open_containers E intent ((new_database d)\<lparr>db_capacity := capacities testing,
        db_inspection_only := (intent = Inspection), db_lock_held := True, db_mode := mode,
        db_database_id := dbid, db_file_cache := new_file_cache dbid 1, db_entries_count := 0,
        db_disk := d1\<rparr>) = (Returned (Inr u), db)" "length dbid = 16" "idle d1" "tables_ok d1"
    and st: "\<And>i. stored_at (files d1) i = empty_at remove d i"
    by (rule configure_serves[OF run assms(2-4)], rule that)
  note sp = containers_serve[OF open1]
  show ?thesis using sp st up_store_inv[of db E] by (auto simp: d' up_def empty_at_def)
qed

end
