(* ===== verification/Reopening.thy ===== *)
theory Reopening
  imports Open_Serves
begin

text \<open>
  Closing and opening again: a store at rest on its directory is found again, entry for entry, by the
  next open, in a system that does not fail.
\<close>

section \<open>Opens that return\<close>

abbreviation calm :: "'v env \<Rightarrow> bool" where
  "calm E \<equiv> \<forall>n. \<not> fails E n"

lemma list_catalogs_calm:
  "calm E \<Longrightarrow> place (db_disk db) = Directory_present \<Longrightarrow> \<exists>db'. list_catalogs E is db = (Inr (), db')"
proof (induction "is" arbitrary: db)
  case (Cons i "is")
  obtain r d where one: "enumerate_versions E (name_prefix i) ''.dat'' (db_disk db) = (r, d)" by fastforce
  then obtain vs where "r = Inr vs" using enumerate_versions_calm[OF Cons.prems one] by blast
  moreover have "place d = Directory_present"
    using enumerate_versions_same[OF one] Cons.prems(2) by (simp add: same_disk_def)
  ultimately show ?case using one Cons.IH[OF Cons.prems(1)] by simp
qed simp

lemma count_versions_calm:
  assumes "calm E" "\<forall>v \<in> set vs. generation_ok E (db_database_id db) (db_disk db) i v"
  shows "\<exists>db'. count_versions E i vs db = (Inr (), db')"
  using assms(2)
proof (induction vs arbitrary: db)
  case (Cons v vs)
  obtain s t where "lookup_file (db_disk db) (data_path i v) = Some (Segment s)"
    "good_segment (local_build E) (db_database_id db) (kind_of_index i) v s t"
    using Cons.prems by (auto simp: generation_ok_def)
  then obtain d where one: "open_checked E (db_database_id db) (kind_of_index i) (data_path i v) v (db_disk db) = (Inr t, d)"
    using open_checked_good assms(1) by blast
  note look = same_disk_lookup[OF open_checked_same[OF one]]
  define db1 where "db1 = db\<lparr>db_disk := d, db_entries_count := db_entries_count db + tbl_size t\<rparr>"
  have "\<forall>w \<in> set vs. generation_ok E (db_database_id db1) (db_disk db1) i w"
    using Cons.prems generation_ok_cong[OF look] by (simp add: db1_def)
  from Cons.IH[OF this] show ?case using one by (simp add: db1_def)
qed simp

lemma open_index_calm:
  assumes "calm E" "container_inv E db i" "vc_versions (db_catalogs db i) \<noteq> []"
  shows "\<exists>db'. open_index E intent i db = (Returned (Inr ()), db')"
proof -
  let ?c = "db_catalogs db i" and ?v = "catalog_active (db_catalogs db i)"
  have inv: "catalog_inv ?c" and ok: "\<forall>v \<in> set (vc_versions ?c). generation_ok E (db_database_id db) (db_disk db) i v"
    using assms(2) by (simp_all add: container_inv_def)
  have mem: "?v \<in> set (vc_versions ?c)" using assms(3) by (simp add: catalog_active_def)
  then obtain s t where "lookup_file (db_disk db) (data_path i ?v) = Some (Segment s)"
    "good_segment (local_build E) (db_database_id db) (kind_of_index i) ?v s t"
    using ok by (auto simp: generation_ok_def)
  then obtain d where one: "open_checked E (db_database_id db) (kind_of_index i) (data_path i ?v) ?v (db_disk db) = (Inr t, d)"
    using open_checked_good assms(1) by blast
  note look = same_disk_lookup[OF open_checked_same[OF one]]
  obtain db1 where ex: "open_existing_container E i ?v db = (Inr (), db1)"
    and db1: "db_disk db1 = d" "db_catalogs db1 = db_catalogs db" "db_database_id db1 = db_database_id db"
    using one by (simp add: open_existing_container_def)
  define db2 where "db2 = db1\<lparr>db_catalogs := (db_catalogs db1)(i := catalog_add ?v (db_catalogs db1 i)),
      db_entries_count := db_entries_count db1 + tbl_size (container db1 i)\<rparr>"
  have "set (catalog_below (catalog_add ?v ?c) ?v) \<subseteq> set (vc_versions ?c)"
    using catalog_below_set[OF catalog_add_inv[OF inv], of ?v ?v] set_catalog_add[OF inv, of ?v] by auto
  then have "\<forall>v \<in> set (catalog_below (db_catalogs db2 i) ?v). generation_ok E (db_database_id db2) (db_disk db2) i v"
    using ok generation_ok_cong[OF look] by (auto simp: db2_def db1)
  then obtain db3 where "count_versions E i (catalog_below (db_catalogs db2 i) ?v) db2 = (Inr (), db3)"
    using count_versions_calm[OF assms(1)] by blast
  then have "\<exists>db'. survey_index E i ?v db1 = (Inr (), db')"
    by (simp add: survey_index_def Let_def flip: db2_def)
  then show ?thesis using ex assms(3) by (auto simp: open_index_def)
qed

lemma same_container_inv:
  assumes "same_container j db db'" "same_settings db db'"
  shows "container_inv E db' j = container_inv E db j"
  using assms
  by (simp add: container_inv_def same_container_def same_settings_def generation_ok_def)

lemma open_indices_calm:
  assumes "calm E" "distinct is" "tables_ok (db_disk db)"
    and "\<forall>i \<in> set is. listed db i \<and> creatable db i \<and> container_inv E db i \<and> vc_versions (db_catalogs db i) \<noteq> []"
  shows "\<exists>db'. open_indices E intent is db = (Returned (Inr ()), db')"
  using assms(2-)
proof (induction "is" arbitrary: db)
  case (Cons i "is")
  obtain db1 where one: "open_index E intent i db = (Returned (Inr ()), db1)"
    using open_index_calm[OF assms(1)] Cons.prems(3) by fastforce
  have op: "opens E i db db1"
    using open_index_spec[OF one _ Cons.prems(2)] Cons.prems(3) by simp
  have "listed db1 j \<and> creatable db1 j \<and> container_inv E db1 j \<and> vc_versions (db_catalogs db1 j) \<noteq> []"
    if "j \<in> set is" for j
  proof -
    have "same_container j db db1" "same_settings db db1"
      using op that Cons.prems(1) by (auto simp: opens_def isolates_same)
    then show ?thesis
      using same_container_facts[of j db db1] same_container_inv[of j db db1 E] Cons.prems(3) that by simp
  qed
  then show ?case using Cons.IH[of db1] Cons.prems(1) op one by (auto simp: opens_def)
qed simp

section \<open>Closing\<close>

definition summary_names :: "string set" where
  "summary_names = {n. \<exists>i v. n = metadata_path i v \<or> n = tmp_path (metadata_path i v)}"

lemma summary_names_open: "summary_names \<subseteq> open_names"
  by (auto simp: summary_names_def)

lemma summary_names_disjoint [simp]:
  "config_path \<notin> summary_names" "lock_file_name \<notin> summary_names" "data_path i v \<notin> summary_names"
  by (auto simp: summary_names_def)

lemma close_database_touches: "touches summary_names (db_disk db) (db_disk (close_database E db))"
proof -
  have "touches summary_names (db_disk db) (db_disk (fold (close_container E) is db))" for "is"
  proof (induction "is" arbitrary: db)
    case (Cons i "is")
    obtain d where c: "close_container E i db = db\<lparr>db_disk := d, db_mapped := (db_mapped db)(i := False)\<rparr>"
      and t: "touches {metadata_path i (db_current_versions db i),
          tmp_path (metadata_path i (db_current_versions db i))} (db_disk db) d"
      by (rule close_container_spec)
    have "touches summary_names (db_disk db) d" using t by (rule touches_mono) (auto simp: summary_names_def)
    then show ?case using touches_trans Cons.IH[of "close_container E i db"] by (fastforce simp: c)
  qed (simp add: touches_refl)
  then show ?thesis by (simp add: close_database_def)
qed

section \<open>A store at rest\<close>

definition configured :: "build \<Rightarrow> 'v disk \<Rightarrow> storage_mode \<Rightarrow> database_id \<Rightarrow> bool" where
  "configured b d mode dbid \<longleftrightarrow> (\<exists>bs c. lookup_file d config_path = Some (Plain bs) \<and> decode_config bs = Inr c
     \<and> check_config_compatible b c = Inr () \<and> sc_mode c = mode \<and> sc_database_id c = dbid)"

definition at_rest :: "'v env \<Rightarrow> 'v database \<Rightarrow> bool" where
  "at_rest E db \<longleftrightarrow> (\<forall>i \<in> set (indices_of (db_mode db)). listed db i \<and> container_inv E db i
       \<and> vc_versions (db_catalogs db i) \<noteq> [])
     \<and> idle (db_disk db) \<and> tables_ok (db_disk db) \<and> lookup_file (db_disk db) lock_file_name \<noteq> Some Special
     \<and> configured (local_build E) (db_disk db) (db_mode db) (db_database_id db)"

lemma decode_config_length: "decode_config bs = Inr c \<Longrightarrow> length bs = config_encoded_size"
  by (auto simp: decode_config_def Let_def split: if_splits prod.splits)

lemma read_identity_calm:
  assumes "calm E" "configured (local_build E) d mode dbid"
  shows "\<exists>d'. settle_identity E False mode Open_or_create d = (Inr dbid, d')"
proof -
  obtain bs c where f: "lookup_file d config_path = Some (Plain bs)" "decode_config bs = Inr c"
    and c: "check_config_compatible (local_build E) c = Inr ()" "sc_mode c = mode" "sc_database_id c = dbid"
    using assms(2) by (auto simp: configured_def)
  then show ?thesis
    using assms(1) decode_config_length[OF f(2)]
    by (simp add: settle_identity_def path_exists_def read_identity_def read_config_file_def Let_def
        is_regular_def file_bytes_def)
qed

lemma acquire_lock_calm:
  assumes "calm E" "\<forall>n. flock_answer E n = Granted" "lookup_file d lock_file_name \<noteq> Some Special"
  shows "\<exists>d'. acquire_lock E d = (Inr (), d')"
  using assms by (auto simp: acquire_lock_def Let_def)

lemma configured_length: "configured b d mode dbid \<Longrightarrow> length dbid = 16"
  using decode_config_identity by (auto simp: configured_def)

text \<open>Every version file of the mode is one this build opens, and every container has one.\<close>

definition usable :: "build \<Rightarrow> database_id \<Rightarrow> storage_mode \<Rightarrow> 'v disk \<Rightarrow> bool" where
  "usable b dbid mode d \<longleftrightarrow> (\<forall>i \<in> set (indices_of mode).
     (\<exists>v f. lookup_file d (data_path i v) = Some f \<and> is_regular f)
     \<and> (\<forall>v f. lookup_file d (data_path i v) = Some f \<and> is_regular f \<longrightarrow>
          (\<exists>s t. f = Segment s \<and> good_segment b dbid (kind_of_index i) v s t \<and> tbl_ok t)))"

lemma usable_cong:
  "(\<And>i v. lookup_file d' (data_path i v) = lookup_file d (data_path i v)) \<Longrightarrow> usable b dbid mode d' = usable b dbid mode d"
  by (simp add: usable_def)

lemma at_rest_usable: "at_rest E db \<Longrightarrow> usable (local_build E) (db_database_id db) (db_mode db) (db_disk db)"
  unfolding usable_def
proof
  fix i assume rest: "at_rest E db" and i: "i \<in> set (indices_of (db_mode db))"
  have lst: "set (vc_versions (db_catalogs db i))
      = {v. \<exists>f. lookup_file (db_disk db) (data_path i v) = Some f \<and> is_regular f}"
    and inv: "container_inv E db i" and ne: "vc_versions (db_catalogs db i) \<noteq> []"
    using rest i by (auto simp: at_rest_def listed_def)
  from ne obtain v where "v \<in> set (vc_versions (db_catalogs db i))" by (meson list.set_sel(1))
  then have one: "\<exists>v f. lookup_file (db_disk db) (data_path i v) = Some f \<and> is_regular f" using lst by auto
  have "\<exists>s t. f = Segment s \<and> good_segment (local_build E) (db_database_id db) (kind_of_index i) v s t \<and> tbl_ok t"
    if "lookup_file (db_disk db) (data_path i v) = Some f" "is_regular f" for v f
  proof -
    have "v \<in> set (vc_versions (db_catalogs db i))" using that lst by auto
    then have "generation_ok E (db_database_id db) (db_disk db) i v" using inv by (simp add: container_inv_def)
    then show ?thesis using that(1) by (auto simp: generation_ok_def)
  qed
  with one show "(\<exists>v f. lookup_file (db_disk db) (data_path i v) = Some f \<and> is_regular f)
     \<and> (\<forall>v f. lookup_file (db_disk db) (data_path i v) = Some f \<and> is_regular f \<longrightarrow>
          (\<exists>s t. f = Segment s \<and> good_segment (local_build E) (db_database_id db) (kind_of_index i) v s t \<and> tbl_ok t))"
    by blast
qed

text \<open>The containers open over any usable directory.\<close>

lemma open_containers_calm:
  assumes E: "calm E" and use: "usable (local_build E) (db_database_id db0) (db_mode db0) (db_disk db0)"
    and tok: "tables_ok (db_disk db0)" and idle: "idle (db_disk db0)"
    and st: "db_capacity db0 = capacities testing" "length (db_database_id db0) = 16"
  shows "\<exists>db'. open_containers E Open_or_create db0 = (Returned (Inr ()), db')"
proof -
  let ?is = "indices_of (db_mode db0)"
  have pd: "place (db_disk db0) = Directory_present" "distinct (map fst (files (db_disk db0)))"
    using idle by (simp_all add: idle_def)
  obtain db1 where one: "list_catalogs E ?is db0 = (Inr (), db1)"
    using list_catalogs_calm[OF E pd(1)] by blast
  note ls = list_catalogs_spec[OF one pd indices_distinct]
  have db1: "db1 = db0\<lparr>db_disk := db_disk db1, db_catalogs := db_catalogs db1\<rparr>"
    and same: "same_disk (db_disk db0) (db_disk db1)" and lst: "\<forall>i \<in> set ?is. listed db1 i"
    using ls by auto
  have f: "db_mode db1 = db_mode db0" "db_database_id db1 = db_database_id db0" "db_capacity db1 = capacities testing"
    by (subst db1, simp add: st)+
  note l1 = same_disk_lookup[OF same]
  have tok1: "tables_ok (db_disk db1)" using tok tables_ok_same[OF same] by simp
  have "listed db1 i \<and> creatable db1 i \<and> container_inv E db1 i \<and> vc_versions (db_catalogs db1 i) \<noteq> []"
    if i: "i \<in> set ?is" for i
  proof -
    have li: "listed db1 i" using lst i by blast
    then have vs: "set (vc_versions (db_catalogs db1 i))
        = {v. \<exists>f. lookup_file (db_disk db0) (data_path i v) = Some f \<and> is_regular f}"
      by (simp add: listed_def l1)
    have u: "(\<exists>v f. lookup_file (db_disk db0) (data_path i v) = Some f \<and> is_regular f)
      \<and> (\<forall>v f. lookup_file (db_disk db0) (data_path i v) = Some f \<and> is_regular f \<longrightarrow>
          (\<exists>s t. f = Segment s \<and> good_segment (local_build E) (db_database_id db0) (kind_of_index i) v s t \<and> tbl_ok t))"
      using use i unfolding usable_def by blast
    have "generation_ok E (db_database_id db1) (db_disk db1) i v" if "v \<in> set (vc_versions (db_catalogs db1 i))" for v
      using that u unfolding vs generation_ok_def l1 f by blast
    then have "container_inv E db1 i" using li by (simp add: container_inv_def listed_def)
    moreover have "creatable db1 i" using st(2) capacities_creatable[OF i] by (simp add: creatable_def f)
    moreover have "vc_versions (db_catalogs db1 i) \<noteq> []" using u vs by auto
    ultimately show ?thesis using li by blast
  qed
  then obtain db' where "open_indices E Open_or_create ?is db1 = (Returned (Inr ()), db')"
    using open_indices_calm[OF E indices_distinct tok1, of "db_mode db0" Open_or_create] by blast
  then show ?thesis using one by (simp add: open_containers_def f)
qed

text \<open>The stages of an open that finds its configuration, up to recovery.\<close>

lemma configure_calm:
  assumes E: "calm E" "\<forall>n. flock_answer E n = Granted" and pl: "place (db_disk db) = Directory_present"
    and lock: "lookup_file (db_disk db) lock_file_name \<noteq> Some Special"
    and conf: "configured (local_build E) (db_disk db) mode dbid"
  obtains d where "place d = Directory_present"
    and "distinct (map fst (files (db_disk db))) \<Longrightarrow> distinct (map fst (files d))"
    and "\<And>n. n \<notin> own_names \<Longrightarrow> lookup_file d n = lookup_file (db_disk db) n"
    and "\<And>d'. recover_pending_merges E mode d = (Inr (), d') \<Longrightarrow>
      configure_internal E False mode Open_or_create db
      = open_containers E Open_or_create (db\<lparr>db_inspection_only := False, db_lock_held := True,
          db_mode := mode, db_database_id := dbid, db_file_cache := new_file_cache dbid 1,
          db_entries_count := 0, db_disk := d'\<rparr>)"
proof -
  obtain d1 where one: "prepare_directory E Open_or_create (db_disk db) = (Inr (), d1)"
    using E(1) pl by (simp add: prepare_directory_def)
  note p = prepare_directory_spec[OF one]
  have l1: "lookup_file d1 n = lookup_file (db_disk db) n" for n by (simp add: lookup_file_def p(1))
  obtain d2 where two: "acquire_lock E d1 = (Inr (), d2)" using acquire_lock_calm[OF E] lock l1 by metis
  let ?d3 = "record_holder E d2"
  note t3 = touches_trans[OF acquire_lock_touches[OF two] record_holder_touches]
  have "configured (local_build E) ?d3 mode dbid"
    using conf touches_lookup[OF t3, of config_path] l1 by (simp add: configured_def)
  then obtain d4 where four: "settle_identity E False mode Open_or_create ?d3 = (Inr dbid, d4)"
    using read_identity_calm[OF E(1)] by blast
  note t4 = settle_identity_touches[OF four]
  show ?thesis
  proof (rule that[of d4])
    show "place d4 = Directory_present" using touches_place[OF t4] touches_place[OF t3] p(3) by simp
    show "distinct (map fst (files d4))" if "distinct (map fst (files (db_disk db)))"
      using touches_distinct[OF t4] touches_distinct[OF t3] that p(1) by simp
    show "lookup_file d4 n = lookup_file (db_disk db) n" if "n \<notin> own_names" for n
      using touches_lookup[OF t4, of n] touches_lookup[OF t3, of n] l1 that by (simp add: own_names_def)
    show "configure_internal E False mode Open_or_create db
      = open_containers E Open_or_create (db\<lparr>db_inspection_only := False, db_lock_held := True,
          db_mode := mode, db_database_id := dbid, db_file_cache := new_file_cache dbid 1,
          db_entries_count := 0, db_disk := d'\<rparr>)" if "recover_pending_merges E mode d4 = (Inr (), d')" for d'
      using one two four that by (simp add: configure_internal_def Let_def)
  qed
qed

text \<open>An open whose recovery returns and leaves a usable directory returns, and serves what is there.\<close>

lemma configure_returns:
  assumes E: "calm E" "\<forall>n. flock_answer E n = Granted" and pl: "place d = Directory_present"
    and lock: "lookup_file d lock_file_name \<noteq> Some Special"
    and conf: "configured (local_build E) d mode dbid"
    and rec: "\<And>d1. place d1 = Directory_present \<Longrightarrow> (distinct (map fst (files d)) \<Longrightarrow> distinct (map fst (files d1))) \<Longrightarrow>
        (\<And>n. n \<notin> own_names \<Longrightarrow> lookup_file d1 n = lookup_file d n) \<Longrightarrow>
        \<exists>d2. recover_pending_merges E mode d1 = (Inr (), d2) \<and> idle d2 \<and> tables_ok d2
          \<and> usable (local_build E) dbid mode d2 \<and> (\<forall>i \<in> set (indices_of mode). stored_at (files d2) i = S i)"
  shows "\<exists>db'. configure_internal E False mode Open_or_create ((new_database d)\<lparr>db_capacity := capacities testing\<rparr>)
      = (Returned (Inr ()), db')
    \<and> store_inv E db' \<and> db_mode db' = mode \<and> (\<forall>i \<in> set (indices_of mode). contents db' i = S i)
    \<and> database_size db' = word_of_nat (size (stored db'))"
proof -
  let ?new = "(new_database d)\<lparr>db_capacity := capacities testing\<rparr>"
  have new: "db_disk ?new = d" by (simp add: new_database_def)
  obtain d1 where d1: "place d1 = Directory_present" "distinct (map fst (files d)) \<Longrightarrow> distinct (map fst (files d1))"
      "\<And>n. n \<notin> own_names \<Longrightarrow> lookup_file d1 n = lookup_file d n"
    and go: "\<And>d'. recover_pending_merges E mode d1 = (Inr (), d') \<Longrightarrow>
      configure_internal E False mode Open_or_create ?new
      = open_containers E Open_or_create (?new\<lparr>db_inspection_only := False, db_lock_held := True,
          db_mode := mode, db_database_id := dbid, db_file_cache := new_file_cache dbid 1,
          db_entries_count := 0, db_disk := d'\<rparr>)"
    by (rule configure_calm[OF E, of ?new mode dbid, unfolded new, OF pl lock conf], rule that)
  obtain d2 where d2: "recover_pending_merges E mode d1 = (Inr (), d2)" "idle d2" "tables_ok d2"
      "usable (local_build E) dbid mode d2" and S: "\<forall>i \<in> set (indices_of mode). stored_at (files d2) i = S i"
    using rec[OF d1] by blast
  let ?x = "?new\<lparr>db_inspection_only := False, db_lock_held := True,
          db_mode := mode, db_database_id := dbid, db_file_cache := new_file_cache dbid 1,
          db_entries_count := 0, db_disk := d2\<rparr>"
  have len: "length dbid = 16" using configured_length[OF conf] .
  obtain db' where run: "open_containers E Open_or_create ?x = (Returned (Inr ()), db')"
    using open_containers_calm[of E ?x testing] E(1) d2 len by auto
  have "open_containers E Open_or_create ((new_database d)\<lparr>db_capacity := capacities testing,
        db_inspection_only := (Open_or_create = Inspection), db_lock_held := True, db_mode := mode,
        db_database_id := dbid, db_file_cache := new_file_cache dbid 1, db_entries_count := 0,
        db_disk := d2\<rparr>) = (Returned (Inr ()), db')" using run by simp
  note sv = containers_serve[OF this len d2(2,3)]
  show ?thesis
    using go[OF d2(1)] run sv S up_store_inv[of db' E] by auto
qed

section \<open>Closing and opening again\<close>

lemma closed_disk:
  assumes rest: "at_rest E db"
  shows "idle (db_disk (close_database E db))" "tables_ok (db_disk (close_database E db))"
    "n \<notin> summary_names \<Longrightarrow> lookup_file (db_disk (close_database E db)) n = lookup_file (db_disk db) n"
proof -
  note t = close_database_touches[of db E]
  show l: "lookup_file (db_disk (close_database E db)) n = lookup_file (db_disk db) n" if "n \<notin> summary_names" for n
    using touches_lookup[OF t that] .
  show "idle (db_disk (close_database E db))"
    using rest idle_touches[OF _ touches_mono[OF t summary_names_open]] by (simp add: at_rest_def)
  show "tables_ok (db_disk (close_database E db))"
    using rest by (simp add: at_rest_def tables_ok_def generation_def l)
qed

lemma reopening:
  assumes rest: "at_rest E db" and E: "calm E1" "\<forall>n. flock_answer E1 n = Granted"
    and b: "local_build E1 = local_build E"
  shows "\<exists>db' d'. opened E1 (\<lambda>x. configure_internal E1 False (db_mode db) Open_or_create
        (x\<lparr>db_capacity := capacities testing\<rparr>)) (db_disk (close_database E db)) = (Returned (Inr db'), d')
    \<and> store_inv E1 db' \<and> (\<forall>i \<in> set (indices_of (db_mode db)). contents db' i = contents db i)
    \<and> database_size db' = word_of_nat (size (stored db))"
proof -
  let ?d = "db_disk (close_database E db)"
  note idle = closed_disk(1)[OF rest] and tok = closed_disk(2)[OF rest] and l = closed_disk(3)[OF rest]
  have "configured (local_build E1) ?d (db_mode db) (db_database_id db)"
    and "lookup_file ?d lock_file_name \<noteq> Some Special" and "place ?d = Directory_present"
    using rest idle by (simp_all add: at_rest_def configured_def l b idle_def)
  moreover have "\<exists>d2. recover_pending_merges E1 (db_mode db) d1 = (Inr (), d2) \<and> idle d2 \<and> tables_ok d2
      \<and> usable (local_build E1) (db_database_id db) (db_mode db) d2
      \<and> (\<forall>i \<in> set (indices_of (db_mode db)). stored_at (files d2) i = contents db i)"
    if d1: "place d1 = Directory_present" "distinct (map fst (files ?d)) \<Longrightarrow> distinct (map fst (files d1))"
      "\<And>n. n \<notin> own_names \<Longrightarrow> lookup_file d1 n = lookup_file ?d n" for d1
  proof -
    have "no_records (files d1)"
      using idle d1(3)[of "sidecar_path _ _"] by (simp add: idle_def no_records_def lookup_file_def)
    then have i1: "idle d1" using d1(1,2) idle by (simp add: idle_def)
    obtain r d2 where rec: "recover_pending_merges E1 (db_mode db) d1 = (r, d2)" by fastforce
    note rc = recover_idle[OF i1 rec]
    have l2: "lookup_file d2 (data_path i v) = lookup_file (db_disk db) (data_path i v)" for i v
      using touches_lookup[OF rc(1), of "data_path i v"] d1(3)[of "data_path i v"] l by simp
    have "generation_bag d2 i v = generation_bag (db_disk db) i v" for i v by (rule generation_bag_cong) (rule l2)
    then have "stored_at (files d2) i = stored_at (files (db_disk db)) i" for i
      by (simp add: stored_at_def generation_bag_files)
    then have "\<forall>i \<in> set (indices_of (db_mode db)). stored_at (files d2) i = contents db i"
      using rest by (auto simp: at_rest_def listed_stored[of db])
    moreover have "usable (local_build E1) (db_database_id db) (db_mode db) d2"
      using at_rest_usable[OF rest] usable_cong[of d2 "db_disk db"] by (simp add: l2 b)
    moreover have "tables_ok d2" using rest by (simp add: at_rest_def tables_ok_def generation_def l2)
    ultimately show ?thesis using rec rc(2)[OF E(1)] idle_touches[OF i1 rc(1)] by blast
  qed
  ultimately obtain db' where db': "configure_internal E1 False (db_mode db) Open_or_create
        ((new_database ?d)\<lparr>db_capacity := capacities testing\<rparr>) = (Returned (Inr ()), db')"
    "store_inv E1 db'" "db_mode db' = db_mode db"
    "\<forall>i \<in> set (indices_of (db_mode db)). contents db' i = contents db i"
    "database_size db' = word_of_nat (size (stored db'))"
    using configure_returns[OF E, of ?d "db_mode db" "db_database_id db" "contents db" testing] by blast
  have "stored db' = stored db" using db'(3,4) by (simp add: stored_def)
  then show ?thesis using db' by (auto simp: opened_def)
qed

text \<open>
  C10: closing a store that is at rest on its directory and opening it again, in a system that does not
  fail and where nobody holds the lock, gives a store that serves, with the entries it had in every
  container and with their number.
\<close>

theorem reopen_finds_everything:
  assumes "at_rest E db" and "\<forall>n. \<not> fails E1 n" "\<forall>n. flock_answer E1 n = Granted"
    and "local_build E1 = local_build E"
  shows "\<exists>db' d'. opened E1 (\<lambda>x. configure_internal E1 False (db_mode db) Open_or_create
        (x\<lparr>db_capacity := capacities testing\<rparr>)) (db_disk (close_database E db)) = (Returned (Inr db'), d')
    \<and> store_inv E1 db' \<and> (\<forall>i \<in> set (indices_of (db_mode db)). contents db' i = contents db i)
    \<and> database_size db' = word_of_nat (size (stored db))"
  by (rule reopening[OF assms])

section \<open>A concrete store at rest\<close>

definition resting_store :: "'v \<Rightarrow> 'v database" where
  "resting_store val = example_db
     [(config_path, Plain (encode_config (local_config example_build Reference_mode (replicate 16 1)))),
      (data_path reference_sentinel_index 0,
       Segment (example_segment reference_container_kind 0 (tbl_add 959 839 (replicate 36 1) val (tbl_empty 959 839))))] [0]"

lemma resting_store_fields [simp]:
  "db_mode (resting_store val) = Reference_mode" "db_database_id (resting_store val) = replicate 16 1"
  "db_catalogs (resting_store val) reference_sentinel_index = \<lparr>vc_versions = [0], vc_metadata = [], vc_highest_issued = 0\<rparr>"
  by (simp_all add: resting_store_def example_db_def)

lemma resting_store_lookup:
  "lookup_file (db_disk (resting_store val)) n =
     (if n = config_path then Some (Plain (encode_config (local_config example_build Reference_mode (replicate 16 1))))
      else if n = data_path reference_sentinel_index 0 then Some (Segment (example_segment reference_container_kind 0
        (tbl_add 959 839 (replicate 36 1) val (tbl_empty 959 839)))) else None)"
  by (simp add: resting_store_def example_db_def)

lemma resting_store_at_rest: "at_rest calm_env (resting_store val)"
proof -
  let ?t = "tbl_add 959 839 (replicate 36 1) val (tbl_empty 959 839)"
  let ?db = "resting_store val"
  have ok: "tbl_ok ?t" by (simp add: tbl_ok_def tbl_add_def tbl_empty_def)
  have lst: "listed ?db reference_sentinel_index"
    by (auto simp: listed_def catalog_inv_def resting_store_lookup is_regular_def)
  have gen: "generation_ok calm_env (replicate 16 1) (db_disk ?db) reference_sentinel_index 0"
    using example_segment_good[of reference_container_kind 0 ?t] ok
    by (auto simp: generation_ok_def resting_store_lookup kind_of_index_def)
  have "generation (db_disk ?db) i v = (if i = reference_sentinel_index \<and> v = 0 then Some ?t else None)" for i v
    by (auto simp: generation_def resting_store_lookup example_segment_def)
  then have tok: "tables_ok (db_disk ?db)" using ok by (simp add: tables_ok_def split: if_splits)
  have "no_records (files (db_disk ?db))"
    using resting_store_lookup[of val] by (simp add: no_records_def flip: lookup_file_def)
  moreover have "place (db_disk ?db) = Directory_present" "distinct (map fst (files (db_disk ?db)))"
    by (simp_all add: resting_store_def example_db_def)
  ultimately have idle: "idle (db_disk ?db)" by (simp add: idle_def)
  have "decode_config (encode_config (local_config example_build Reference_mode (replicate 16 1)))
      = Inr (local_config example_build Reference_mode (replicate 16 1))"
    using decode_encode_config by (simp add: wf_config_def local_config_def)
  then have "configured example_build (db_disk ?db) Reference_mode (replicate 16 1)"
    by (simp add: configured_def resting_store_lookup check_config_compatible_def local_config_def)
  then show ?thesis
    using lst gen tok idle
    by (simp add: at_rest_def indices_of_def container_inv_def catalog_inv_def resting_store_lookup)
qed

definition example_resting :: "reference_value database" where
  "example_resting = resting_store \<lparr>rv_height = 7, rv_file_number = 1, rv_offset = 2\<rparr>"

lemma example_at_rest: "at_rest calm_env example_resting"
  unfolding example_resting_def by (rule resting_store_at_rest)

theorem reopen_finds_everything_witness:
  "\<exists>db' d'. opened calm_env (\<lambda>x. configure_internal calm_env False Reference_mode Open_or_create
        (x\<lparr>db_capacity := capacities True\<rparr>)) (db_disk (close_database calm_env example_resting))
      = (Returned (Inr db'), d') \<and> database_size db' = word_of_nat (size (stored example_resting))"
  using reopen_finds_everything[OF example_at_rest, of calm_env True] by (fastforce simp: example_resting_def)

theorem open_serves_witness:
  "\<exists>db' d'. opened calm_env (\<lambda>x. configure_internal calm_env False Reference_mode Open_or_create
        (x\<lparr>db_capacity := capacities True\<rparr>)) (db_disk (close_database calm_env example_resting))
      = (Returned (Inr db'), d') \<and> db_lock_held db' \<and> store_inv calm_env db'"
proof -
  obtain db' d' where run: "opened calm_env (\<lambda>x. configure_internal calm_env False Reference_mode Open_or_create
        (x\<lparr>db_capacity := capacities True\<rparr>)) (db_disk (close_database calm_env example_resting))
      = (Returned (Inr db'), d')"
    using reopening[OF resting_store_at_rest, of calm_env "\<lparr>rv_height = 7, rv_file_number = 1, rv_offset = 2\<rparr>" True]
    by (auto simp: example_resting_def)
  show ?thesis
    using open_serves[OF run] run closed_disk(1,2)[OF example_at_rest] by (simp add: idle_def)
qed


end
