(* ===== verification/Crash_Reopen.thy ===== *)
theory Crash_Reopen
  imports Reopening Merge_Examples
begin

text \<open>
  Composition of the merge, the crash, the recovery and the open: a store whose merge was cut off at
  any moment opens again and serves the entries it had.
\<close>

section \<open>A merge seen through other files\<close>

text \<open>
  The open writes its own names (the lock, the configuration) into the directory the crash left
  behind; the stages of the merge are the same over the directory it started from with those names.
\<close>

lemma merging_overlay:
  assumes m: "merging b dbid p s0 s" and d: "distinct (map fst s0)" "distinct (map fst s')"
    and same: "\<And>n. n \<notin> own_names \<Longrightarrow> map_of s' n = map_of s n"
  obtains s0' where "merging b dbid p s0' s'" "distinct (map fst s0')"
    "\<And>n. n \<notin> own_names \<Longrightarrow> map_of s0' n = map_of s0 n"
proof -
  let ?A = "filter (\<lambda>e. fst e \<notin> own_names) s0" and ?B = "filter (\<lambda>e. fst e \<in> own_names) s'"
  let ?s = "?A @ ?B"
  have fa: "map_of (filter (\<lambda>e. P (fst e)) al) n = (if P n then map_of al n else None)" for P n and al :: "'a directory"
    by (induction al) auto
  have look: "map_of ?s n = (if n \<in> own_names then map_of s' n else map_of s0 n)" for n
    using fa[of "\<lambda>n. n \<notin> own_names" s0 n] fa[of "\<lambda>n. n \<in> own_names" s' n]
    by (simp add: map_add_def split: option.splits)
  have "distinct (map fst ?s)" using d by (auto simp: distinct_map_filter)
  with look obtain t where t: "\<And>n. map_of t n = (if n \<in> own_names then map_of s' n else map_of s0 n)"
    and dist: "distinct (map fst t)" by blast
  have key: "n \<notin> own_names" if "n \<in> key_names p" for n using that by (auto simp: key_names_def)
  have bag: "source_bag (disk_of t) (mp_container p) (mp_sources p) = source_bag (disk_of s0) (mp_container p) (mp_sources p)"
  proof -
    have "generation_bag (disk_of t) j v = generation_bag (disk_of s0) j v" for j v
      by (rule generation_bag_map_of) (simp add: t)
    then show ?thesis by (simp add: source_bag_def)
  qed
  have mt: "merged_target b dbid p t f = merged_target b dbid p s0 f" for f
    by (simp add: merged_target_def bag)
  have "agrees (scratch_names \<union> key_names p) t s'"
    unfolding agrees_def
  proof (intro conjI allI impI)
    fix n assume "n \<notin> scratch_names \<union> key_names p"
    then show "map_of s' n = map_of t n"
      using m same by (cases "n \<in> own_names") (auto simp: t merging_def agrees_def)
  qed (use d in simp)
  moreover have "map_of s' (data_path j v) = map_of s (data_path j v)" "map_of t (data_path j v) = map_of s0 (data_path j v)"
    "map_of s' (sidecar_path j v) = map_of s (sidecar_path j v)" for j v
    by (simp_all only: t) (simp_all add: same)
  then have "unpublished p t s' = unpublished p s0 s" "retiring b dbid p t s' = retiring b dbid p s0 s"
    "retired b dbid p t s' = retired b dbid p s0 s"
    by (simp_all only: stage_defs mt)
  ultimately have "merging b dbid p t s'" using m by (simp only: merging_def)
  then show ?thesis using that[OF _ dist] t by simp
qed

text \<open>What is in the directory once the merge is undone or finished.\<close>

lemma settled_files:
  assumes s: "settled b dbid p s0 s" and none: "map_of s0 (data_path (mp_container p) (mp_target p)) = None"
  shows "map_of s (data_path j v) = Some f \<Longrightarrow> map_of s0 (data_path j v) = Some f
      \<or> j = mp_container p \<and> v = mp_target p \<and> merged_target b dbid p s0 f"
    and "map_of s0 (data_path j v) = Some f \<Longrightarrow> map_of s (data_path j v) = Some f
      \<or> j = mp_container p \<and> (\<exists>f. map_of s (data_path j (mp_target p)) = Some f \<and> merged_target b dbid p s0 f)"
proof -
  have a: "agrees (scratch_names \<union> key_names p) s0 s" using s by (simp add: settled_def merging_def)
  have same: "map_of s (data_path j v) = map_of s0 (data_path j v)"
    if "\<not> (j = mp_container p \<and> (v = mp_target p \<or> v \<in> set (mp_sources p)))" for j v
    using that by (intro agrees_map_of[OF a]) simp
  let ?key = "j = mp_container p \<and> (v = mp_target p \<or> v \<in> set (mp_sources p))"
  show "map_of s0 (data_path j v) = Some f
      \<or> j = mp_container p \<and> v = mp_target p \<and> merged_target b dbid p s0 f"
    if "map_of s (data_path j v) = Some f"
    using settled_cases[OF s] that same[of j v] by (cases ?key) (auto simp: stage_defs)
  show "map_of s (data_path j v) = Some f
      \<or> j = mp_container p \<and> (\<exists>f. map_of s (data_path j (mp_target p)) = Some f \<and> merged_target b dbid p s0 f)"
    if "map_of s0 (data_path j v) = Some f"
    using settled_cases[OF s] that same[of j v] none by (cases ?key) (auto simp: stage_defs)
qed

lemma settled_usable:
  assumes s: "settled b dbid p s0 s" and none: "map_of s0 (data_path (mp_container p) (mp_target p)) = None"
    and use: "usable b dbid mode (disk_of s0)"
  shows "usable b dbid mode (disk_of s)"
  unfolding usable_def
proof (intro ballI conjI allI impI)
  fix j assume j: "j \<in> set (indices_of mode)"
  have u: "\<exists>v f. map_of s0 (data_path j v) = Some f \<and> is_regular f"
    "\<And>v f. map_of s0 (data_path j v) = Some f \<Longrightarrow> is_regular f \<Longrightarrow>
       \<exists>g t. f = Segment g \<and> good_segment b dbid (kind_of_index j) v g t \<and> tbl_ok t"
    using use j by (auto simp: usable_def)
  have mt: "is_regular f \<and> (\<exists>g t. f = Segment g \<and> good_segment b dbid (kind_of_index j) (mp_target p) g t \<and> tbl_ok t)"
    if "merged_target b dbid p s0 f" "j = mp_container p" for f
    using that by (auto simp: merged_target_def is_regular_def)
  show "\<exists>v f. lookup_file (disk_of s) (data_path j v) = Some f \<and> is_regular f"
    using u(1) settled_files(2)[OF s none, of j] mt by fastforce
  fix v f assume f: "lookup_file (disk_of s) (data_path j v) = Some f \<and> is_regular f"
  then show "\<exists>g t. f = Segment g \<and> good_segment b dbid (kind_of_index j) v g t \<and> tbl_ok t"
    using settled_files(1)[OF s none, of j v f] u(2)[of v f] mt[of f] by auto
qed

lemma settled_tables:
  assumes s: "settled b dbid p s0 s" and none: "map_of s0 (data_path (mp_container p) (mp_target p)) = None"
    and tok: "tables_ok (disk_of s0)"
  shows "tables_ok (disk_of s)"
  unfolding tables_ok_def
proof (intro allI impI)
  fix j v t assume "generation (disk_of s) j v = Some t"
  then obtain g where g: "map_of s (data_path j v) = Some (Segment g)" "map_option snd (seg_map g) = Some t"
    by (auto simp: generation_def split: option.splits disk_file.splits)
  from settled_files(1)[OF s none g(1)] show "tbl_ok t"
  proof
    assume "map_of s0 (data_path j v) = Some (Segment g)"
    then have "generation (disk_of s0) j v = Some t" using g(2) by (simp add: generation_def)
    with tok show ?thesis by (simp add: tables_ok_def)
  qed (use g(2) in \<open>auto simp: merged_target_def good_segment_def\<close>)
qed

section \<open>The crash and the open\<close>

lemma crash_reopens:
  assumes rest: "at_rest E db" and ready: "crash_ready E db i sources"
    and run: "merge_versions E height_of i sources db = (r, db')"
    and crash: "trail (db_disk db') = new @ trail (db_disk db)" "s \<in> set new"
    and E: "calm E1" "\<forall>n. flock_answer E1 n = Granted" and b: "local_build E1 = local_build E"
  shows "\<exists>db1 d1. opened E1 (\<lambda>x. configure_internal E1 False (db_mode db) Open_or_create
        (x\<lparr>db_capacity := capacities testing\<rparr>)) (disk_of s) = (Returned (Inr db1), d1)
    \<and> store_inv E1 db1 \<and> (\<forall>j \<in> set (indices_of (db_mode db)). contents db1 j = contents db j)
    \<and> database_size db1 = word_of_nat (size (stored db))"
proof -
  let ?s0 = "files (db_disk db)" and ?b = "local_build E" and ?id = "db_database_id db"
  have s0: "distinct (map fst ?s0)" "no_records ?s0" and mode: "i \<in> set (indices_of (db_mode db))"
    using ready by (simp_all add: crash_ready_def)
  obtain p where p: "wf_plan p" "mp_container p = i" "map_of ?s0 (data_path (mp_container p) (mp_target p)) = None"
    and m: "merging ?b ?id p ?s0 s"
    using crash_states[OF ready run crash] .
  have a: "agrees (scratch_names \<union> key_names p) ?s0 s" using m by (simp add: merging_def)
  have own: "map_of s n = map_of ?s0 n" if "n = lock_file_name \<or> n = config_path" for n
    using that by (intro agrees_map_of[OF a]) (auto simp: scratch_names_def key_names_def)
  have ds: "distinct (map fst s)" using a s0(1) by (simp add: agrees_def)
  have look0: "lookup_file (disk_of ?s0) n = lookup_file (db_disk db) n" for n by (simp add: lookup_file_def)
  have conf: "configured (local_build E1) (disk_of s) (db_mode db) ?id"
    and lock: "lookup_file (disk_of s) lock_file_name \<noteq> Some Special"
    using rest own by (simp_all add: at_rest_def configured_def b lookup_file_def)
  have "\<exists>d2. recover_pending_merges E1 (db_mode db) d1 = (Inr (), d2) \<and> idle d2 \<and> tables_ok d2
      \<and> usable (local_build E1) ?id (db_mode db) d2
      \<and> (\<forall>j \<in> set (indices_of (db_mode db)). stored_at (files d2) j = contents db j)"
    if d1: "place d1 = Directory_present" "distinct (map fst (files (disk_of s))) \<Longrightarrow> distinct (map fst (files d1))"
      "\<And>n. n \<notin> own_names \<Longrightarrow> lookup_file d1 n = lookup_file (disk_of s) n" for d1
  proof -
    obtain s1 where s1: "merging ?b ?id p s1 (files d1)" "distinct (map fst s1)"
      and look1: "\<And>n. n \<notin> own_names \<Longrightarrow> map_of s1 n = map_of ?s0 n"
      using merging_overlay[OF m s0(1), of "files d1"] d1(2,3) ds by (auto simp: lookup_file_def)
    have none1: "map_of s1 (data_path (mp_container p) (mp_target p)) = None"
      and nr1: "no_records s1"
      using p(3) s0(2) by (simp_all add: look1 no_records_def)
    obtain r2 d2 where rec: "recover_pending_merges E1 (db_mode db) d1 = (r2, d2)" by fastforce
    have w: "within ?b ?id p s1 d1 d1" using s1(1) by (simp add: within_def)
    have start: "clean_start p s1 d1" using p(1) s1(2) d1(1) nr1 by (simp add: clean_start_def no_records_def)
    note rc = recover_containers_spec[OF w start rec[unfolded recover_pending_merges_def]]
    have r2: "r2 = Inr ()" using rc E(1) by blast
    have st: "settled ?b ?id p s1 (files d2)" using rc r2 mode p(2) by blast
    have same: "lookup_file (disk_of s1) (data_path j v) = lookup_file (db_disk db) (data_path j v)" for j v
      by (simp add: look1 lookup_file_def)
    have "usable ?b ?id (db_mode db) (disk_of (files d2))"
      using at_rest_usable[OF rest] usable_cong[of "disk_of s1" "db_disk db", OF same] settled_usable[OF st none1] by blast
    then have use: "usable ?b ?id (db_mode db) d2"
      using usable_cong[of "disk_of (files d2)" d2] by (simp add: lookup_file_def)
    have "generation (disk_of s1) j v = generation (db_disk db) j v" for j v by (rule generation_cong) (rule same)
    then have "tables_ok (disk_of s1)" using rest by (simp add: at_rest_def tables_ok_def)
    then have "tables_ok (disk_of (files d2))" by (rule settled_tables[OF st none1])
    then have tok: "tables_ok d2" by (simp add: tables_ok_def generation_def lookup_file_def)
    have "distinct (mp_sources p)" "mp_target p \<notin> set (mp_sources p)" using p(1) by (simp_all add: wf_plan_def)
    then have "stored_at (files d2) j = stored_at s1 j" for j using settled_stored[OF st none1] by blast
    moreover have "generation_bag (disk_of s1) j v = generation_bag (db_disk db) j v" for j v
      by (rule generation_bag_cong) (rule same)
    ultimately have "stored_at (files d2) j = stored_at ?s0 j" for j
      by (simp add: stored_at_def generation_bag_files)
    then have "\<forall>j \<in> set (indices_of (db_mode db)). stored_at (files d2) j = contents db j"
      using rest by (auto simp: at_rest_def listed_stored[of db])
    moreover have "idle d2"
      using settled_no_records[OF st nr1] merging_records(1)[OF start, of ?b ?id "files d2"] st rc
        within_place[of ?b ?id p s1 d1 d2] d1(1)
      by (simp add: idle_def settled_def)
    ultimately show ?thesis using rec r2 use tok b by auto
  qed
  then obtain db1 where db1: "configure_internal E1 False (db_mode db) Open_or_create
        ((new_database (disk_of s))\<lparr>db_capacity := capacities testing\<rparr>) = (Returned (Inr ()), db1)"
    "store_inv E1 db1" "db_mode db1 = db_mode db"
    "\<forall>j \<in> set (indices_of (db_mode db)). contents db1 j = contents db j"
    "database_size db1 = word_of_nat (size (stored db1))"
    using configure_returns[OF E, of "disk_of s" "db_mode db" ?id "contents db" testing] lock conf by auto
  have "stored db1 = stored db" using db1(3,4) by (simp add: stored_def)
  then show ?thesis using db1 by (auto simp: opened_def)
qed


section \<open>A concrete crash\<close>

lemma layered_data:
  "lookup_file (db_disk (layered_store m a)) (data_path i v) = Some f \<longleftrightarrow> i \<in> set (indices_of m) \<and> (v = 0 \<or> v = 1)
     \<and> f = Segment (example_segment (kind_of_index i) v (layered_table m a i v))"
proof (cases "i \<in> set (indices_of m) \<and> (v = 0 \<or> v = 1)")
  case True
  then show ?thesis using layered_generation(1)[of i m v a] by auto
next
  case False
  then have "data_path i v \<notin> fst ` set (layered_files m a)" by (auto simp: layered_files_def)
  then have "lookup_file (db_disk (layered_store m a)) (data_path i v) = None" by (rule layered_none)
  with False show ?thesis by auto
qed

lemma layered_at_rest: "at_rest calm_env (layered_store m a)"
proof -
  let ?db = "layered_store m a"
  have "listed ?db i \<and> container_inv calm_env ?db i \<and> vc_versions (db_catalogs ?db i) \<noteq> []"
    if i: "i \<in> set (indices_of m)" for i
    using layered_store_inv[of m a] i
    by (auto simp: store_inv_def serving_def listed_def catalog_inv_def layered_data is_regular_def)
  moreover have "no_records (files (db_disk ?db))"
  proof -
    have "lookup_file (db_disk ?db) (sidecar_path j v) = None" for j v
      using layered_names[of "sidecar_path j v" m a] by (intro layered_none) auto
    then show ?thesis by (simp add: no_records_def lookup_file_def)
  qed
  then have "idle (db_disk ?db)" using layered_distinct by (simp add: idle_def layered_disk)
  moreover have "tables_ok (db_disk ?db)"
    using layered_table_ok by (auto simp: tables_ok_def generation_def layered_data example_segment_def
        split: option.splits disk_file.splits)
  moreover have "lookup_file (db_disk ?db) lock_file_name = None"
    using layered_names[of lock_file_name m a] by (intro layered_none) auto
  moreover have "decode_config (encode_config (local_config example_build m (replicate 16 1)))
      = Inr (local_config example_build m (replicate 16 1))"
    using decode_encode_config by (simp add: wf_config_def local_config_def)
  then have "configured example_build (db_disk ?db) m (replicate 16 1)"
    by (simp add: configured_def layered_disk layered_files_def check_config_compatible_def local_config_def)
  ultimately show ?thesis by (simp add: at_rest_def)
qed


end
