(* ===== verification/Compact_All.thy ===== *)
theory Compact_All
  imports Compaction Walk_Facts
begin

text \<open>
  \<open>database_impl::compact_all\<close> of \<open>src/database_impl.cpp\<close>: every container of the mode in turn, up to
  the first failure, between two clearings of the file cache.
\<close>

section \<open>Definitions\<close>

fun compact_each ::
  "'v env \<Rightarrow> ('v \<Rightarrow> u32) \<Rightarrow> u64 list \<Rightarrow> 'v database \<Rightarrow> unit result \<times> 'v database" where
  "compact_each E height_of [] db = (Inr (), db)"
| "compact_each E height_of (i # is) db =
    (case compact_container E height_of i db of
       (Inl e, db) \<Rightarrow> (Inl e, db)
     | (Inr _, db) \<Rightarrow> compact_each E height_of is db)"

definition compact_all :: "'v env \<Rightarrow> ('v \<Rightarrow> u32) \<Rightarrow> 'v database \<Rightarrow> unit result \<times> 'v database" where
  "compact_all E height_of db =
    (let db = db\<lparr>db_file_cache := clear_cache (db_file_cache db)\<rparr>
     in case compact_each E height_of (indices_of (db_mode db)) db of
          (outcome, db) \<Rightarrow> (outcome, db\<lparr>db_file_cache := clear_cache (db_file_cache db)\<rparr>))"

section \<open>Facts\<close>

lemma spares_other:
  assumes "spares i db db'" "j \<noteq> i"
  shows "serving E db' j = serving E db j" "contents db' j = contents db j"
    and "db_catalogs db' j = db_catalogs db j"
    and "\<not> db_cleanup_pending db \<Longrightarrow> \<not> db_cleanup_pending db' \<Longrightarrow> compactable E db' j k = compactable E db j k"
proof -
  have iso: "isolates i db db'" using assms(1) by (simp add: spares_def)
  note facts = isolates_serving[OF iso assms(2)]
  show "serving E db' j = serving E db j" "contents db' j = contents db j" using facts by simp_all
  show cat: "db_catalogs db' j = db_catalogs db j" using iso assms(2) by (simp add: isolates_def)
  show "compactable E db' j k = compactable E db j k" if "\<not> db_cleanup_pending db" "\<not> db_cleanup_pending db'"
    using that facts(2)[of E] cat assms by (simp add: compactable_def creatable_def spares_def isolates_def)
qed

text \<open>The fields no compaction changes, whichever the container.\<close>

definition same_session_fields :: "'v database \<Rightarrow> 'v database \<Rightarrow> bool" where
  "same_session_fields db db' \<longleftrightarrow> db_mode db' = db_mode db \<and> db_capacity db' = db_capacity db
     \<and> db_database_id db' = db_database_id db \<and> db_inspection_only db' = db_inspection_only db
     \<and> db_integrity_latched db' = db_integrity_latched db \<and> db_entries_count db' = db_entries_count db
     \<and> db_file_cache db' = db_file_cache db"

lemma spares_session: "spares i db db' \<Longrightarrow> same_session_fields db db'"
  by (simp add: spares_def same_session_fields_def isolates_def)

lemma compact_each_spec:
  assumes "distinct is" "\<not> db_cleanup_pending db"
    and "\<forall>i \<in> set is. serving E db i \<and> compactable E db i (length (vc_versions (db_catalogs db i)))"
    and "compact_each E height_of is db = (r, db')"
  shows "same_session_fields db db' \<and> (r = Inr () \<longrightarrow> \<not> db_cleanup_pending db')
    \<and> (\<not> db_cleanup_pending db' \<longrightarrow> (\<forall>i \<in> set is. serving E db' i \<and> contents db' i = contents db i \<and> compactable E db' i 0))
    \<and> (\<forall>j. j \<notin> set is \<longrightarrow> serving E db' j = serving E db j \<and> contents db' j = contents db j
         \<and> (\<not> db_cleanup_pending db' \<longrightarrow> (\<forall>k. compactable E db' j k = compactable E db j k)))"
  using assms
proof (induction "is" arbitrary: db)
  case Nil
  then show ?case by (simp add: same_session_fields_def)
next
  case (Cons i "is")
  have srv: "serving E db i" and c: "compactable E db i (length (vc_versions (db_catalogs db i)))"
    using Cons.prems(3) by simp_all
  obtain r1 db1 where one: "compact_container E height_of i db = (r1, db1)" by fastforce
  note spec = compact_container_spec[OF srv c one]
  have sp: "spares i db db1" using spec by blast
  note other = spares_other[OF sp]
  have here: "serving E db1 i" "contents db1 i = contents db i" "compactable E db1 i 0"
    if "\<not> db_cleanup_pending db1" using spec that by blast+
  have untouched: "serving E db1 j \<and> compactable E db1 j 0 \<and> contents db1 j = contents db j"
    if "j \<in> set is" "\<not> db_cleanup_pending db1" for j
  proof -
    have "j \<noteq> i" using that(1) Cons.prems(1) by auto
    then show ?thesis
      using other[of j] that Cons.prems(2,3) compactable_mono[of E db j "length (vc_versions (db_catalogs db j))" 0]
      by simp
  qed
  show ?case
  proof (cases r1)
    case (Inl e)
    then have "(r, db') = (r1, db1)" using Cons.prems(4) one by simp
    then show ?thesis
      using Inl here untouched other[of _] Cons.prems(1,2) spares_session[OF sp] by auto
  next
    case (Inr u)
    then have rest: "compact_each E height_of is db1 = (r, db')" and ok: "\<not> db_cleanup_pending db1"
      using Cons.prems(4) one spec by auto
    have "serving E db1 j \<and> compactable E db1 j (length (vc_versions (db_catalogs db1 j)))" if "j \<in> set is" for j
    proof -
      have "j \<noteq> i" using that Cons.prems(1) by auto
      then show ?thesis using other[of j] that Cons.prems(2,3) ok by simp
    qed
    then have "\<forall>j \<in> set is. serving E db1 j \<and> compactable E db1 j (length (vc_versions (db_catalogs db1 j)))"
      by blast
    note IH = Cons.IH[OF _ ok this rest]
    have d: "distinct is" "i \<notin> set is" using Cons.prems(1) by simp_all
    have fields: "same_session_fields db db'"
      using IH[OF d(1)] spares_session[OF sp] by (simp add: same_session_fields_def)
    have first: "serving E db' i \<and> contents db' i = contents db i \<and> compactable E db' i 0"
      if "\<not> db_cleanup_pending db'" using IH[OF d(1)] d(2) here[OF ok] that by simp
    have later: "serving E db' j \<and> contents db' j = contents db j \<and> compactable E db' j 0"
      if "j \<in> set is" "\<not> db_cleanup_pending db'" for j
      using IH[OF d(1)] untouched[OF that(1) ok] that by simp
    have outside: "serving E db' j = serving E db j \<and> contents db' j = contents db j
         \<and> (\<not> db_cleanup_pending db' \<longrightarrow> (\<forall>k. compactable E db' j k = compactable E db j k))"
      if "j \<notin> set (i # is)" for j
      using IH[OF d(1)] other[of j] that ok Cons.prems(2) by simp
    show ?thesis using IH[OF d(1)] fields first later outside by auto
  qed
qed

lemma serving_cache [simp]: "serving E (db\<lparr>db_file_cache := c\<rparr>) i = serving E db i"
  by (simp add: serving_def container_inv_def)

lemma contents_cache [simp]: "contents (db\<lparr>db_file_cache := c\<rparr>) i = contents db i"
  by (simp add: contents_def)

lemma compactable_cache [simp]: "compactable E (db\<lparr>db_file_cache := c\<rparr>) i k = compactable E db i k"
  by (simp add: compactable_def container_inv_def creatable_def)

lemma clear_cache_inv: "cache_inv c \<Longrightarrow> cache_inv (clear_cache c)" "cached_keys (clear_cache c) = {}"
  "fc_database_id (clear_cache c) = fc_database_id c"
  by (simp_all add: cache_inv_def clear_cache_def cached_keys_def)

text \<open>
  A store that serves, none of whose containers has an outstanding merge record, and which can number
  the merged versions. After \<open>compact_all\<close> it serves the same entries in every container, or a
  merge asks for recovery and nothing else is served from the handle.
\<close>

definition compactable_store :: "'v env \<Rightarrow> 'v database \<Rightarrow> bool" where
  "compactable_store E db \<longleftrightarrow> \<not> db_cleanup_pending db \<and> (\<forall>i \<in> set (indices_of (db_mode db)).
     compactable E db i (length (vc_versions (db_catalogs db i))))"

lemma compact_all_spec:
  assumes inv: "store_inv E db" and ready: "compactable_store E db" and run: "compact_all E height_of db = (r, db')"
  shows "db_mode db' = db_mode db \<and> db_capacity db' = db_capacity db \<and> db_database_id db' = db_database_id db
    \<and> db_inspection_only db' = db_inspection_only db \<and> db_integrity_latched db' = db_integrity_latched db
    \<and> db_entries_count db' = db_entries_count db
    \<and> (r = Inr () \<longrightarrow> \<not> db_cleanup_pending db')
    \<and> (\<not> db_cleanup_pending db' \<longrightarrow> store_inv E db'
        \<and> (\<forall>i \<in> set (indices_of (db_mode db)). contents db' i = contents db i \<and> compactable E db' i 0))"
proof -
  let ?db0 = "db\<lparr>db_file_cache := clear_cache (db_file_cache db)\<rparr>"
  obtain r1 db1 where each: "compact_each E height_of (indices_of (db_mode ?db0)) ?db0 = (r1, db1)" by fastforce
  have res: "r = r1" "db' = db1\<lparr>db_file_cache := clear_cache (db_file_cache db1)\<rparr>"
    using run each by (simp_all add: compact_all_def Let_def)
  have pre: "\<not> db_cleanup_pending ?db0"
    "\<forall>i \<in> set (indices_of (db_mode ?db0)). serving E ?db0 i
       \<and> compactable E ?db0 i (length (vc_versions (db_catalogs ?db0 i)))"
    using inv ready by (simp_all add: store_inv_def compactable_store_def)
  note spec = compact_each_spec[OF distinct_indices pre each]
  have fields: "same_session_fields ?db0 db1" using spec by blast
  have cache: "cache_inv (db_file_cache db')" "fc_database_id (db_file_cache db') = db_database_id db'"
    "cached_keys (db_file_cache db') = {}"
    using inv fields clear_cache_inv by (simp_all add: res(2) store_inv_def same_session_fields_def)
  have mode: "db_mode db' = db_mode db" using fields by (simp add: res(2) same_session_fields_def)
  have "store_inv E db' \<and> (\<forall>i \<in> set (indices_of (db_mode db)). contents db' i = contents db i \<and> compactable E db' i 0)"
    if "\<not> db_cleanup_pending db'"
    using spec that cache mode by (simp add: store_inv_def res(2))
  then show ?thesis using fields spec by (simp add: res same_session_fields_def)
qed

end
