(* ===== verification/Syncing.thy ===== *)
theory Syncing
  imports Walk_Facts
begin

text \<open>
  \<open>database_impl::sync\<close> of \<open>src/database_impl.cpp\<close>: the barriers it issues, in their order, and what
  a success discharges. Pages and files are flushed by the calls of the system; the model counts the
  calls and asks the environment which of them fail.
\<close>

section \<open>Definitions\<close>

text \<open>
  The two barriers of an active version, its pages and then its file; the lambda \<open>barrier\<close>
  absorbs \<open>sync_unsupported\<close>, which is what \<open>refusal\<close> does.
\<close>

definition sync_active :: "'v env \<Rightarrow> 'v database \<Rightarrow> u64 \<Rightarrow> 'v disk \<Rightarrow> unit result \<times> 'v disk" where
  "sync_active E db i d =
    (if \<not> db_mapped db i then (Inr (), d)
     else (let path = data_path i (db_current_versions db i) in
       case sync_mapped_region E (mapped_length d path) d of (synced, d) \<Rightarrow>
         (case refusal synced of
            Some e \<Rightarrow> (Inl e, d)
          | None \<Rightarrow>
             (case sync_file E path d of (synced, d) \<Rightarrow>
                (case refusal synced of Some e \<Rightarrow> (Inl e, d) | None \<Rightarrow> (Inr (), d))))))"

fun sync_actives :: "'v env \<Rightarrow> 'v database \<Rightarrow> u64 list \<Rightarrow> 'v disk \<Rightarrow> unit result \<times> 'v disk" where
  "sync_actives E db [] d = (Inr (), d)"
| "sync_actives E db (i # is) d =
    (case sync_active E db i d of
       (Inl e, d) \<Rightarrow> (Inl e, d)
     | (Inr _, d) \<Rightarrow> sync_actives E db is d)"

fun sync_dirty :: "'v env \<Rightarrow> (u64 \<times> u64) list \<Rightarrow> 'v disk \<Rightarrow> unit result \<times> 'v disk" where
  "sync_dirty E [] d = (Inr (), d)"
| "sync_dirty E ((i, version) # rest) d =
    (case sync_file E (data_path i version) d of (synced, d) \<Rightarrow>
       (case refusal synced of
          Some e \<Rightarrow> (Inl e, d)
        | None \<Rightarrow> sync_dirty E rest d))"

text \<open>All of it: the active versions, the cached mappings, the dirty versions, the directory.\<close>

definition sync_all :: "'v env \<Rightarrow> 'v database \<Rightarrow> 'v disk \<Rightarrow> unit result \<times> 'v disk" where
  "sync_all E db d =
    (case sync_actives E db (indices_of (db_mode db)) d of
       (Inl e, d) \<Rightarrow> (Inl e, d)
     | (Inr _, d) \<Rightarrow>
      (case sync_mappings E (get_cached_files (db_file_cache db)) d of
         (Inl e, d) \<Rightarrow> (Inl e, d)
       | (Inr _, d) \<Rightarrow>
        (case sync_dirty E (db_dirty_versions db) d of
           (Inl e, d) \<Rightarrow> (Inl e, d)
         | (Inr _, d) \<Rightarrow>
            (case sync_directory E d of (synced, d) \<Rightarrow>
               (case refusal synced of Some e \<Rightarrow> (Inl e, d) | None \<Rightarrow> (Inr (), d))))))"

definition sync_database :: "'v env \<Rightarrow> 'v database \<Rightarrow> unit result \<times> 'v database" where
  "sync_database E db =
    (if db_cleanup_pending db then (Inl Recovery_required, db)
     else if platform E = Sync_none then (Inl Sync_unsupported, db)
     else
      (case sync_all E db (db_disk db) of
         (Inl e, d) \<Rightarrow> (Inl e, db\<lparr>db_disk := d\<rparr>)
       | (Inr _, d) \<Rightarrow> (Inr (), db\<lparr>db_disk := d, db_dirty_versions := []\<rparr>)))"

section \<open>Calls made\<close>

text \<open>
  \<open>calls E n d d'\<close>: from \<open>d\<close> to \<open>d'\<close> exactly \<open>n\<close> calls were made, none of them failed, and the directory
  is the same.
\<close>

definition calls :: "'v env \<Rightarrow> nat \<Rightarrow> 'v disk \<Rightarrow> 'v disk \<Rightarrow> bool" where
  "calls E n d d' \<longleftrightarrow> same_disk d d' \<and> ticks d' = ticks d + n \<and> (\<forall>m. ticks d \<le> m \<and> m < ticks d' \<longrightarrow> \<not> fails E m)"

lemma calls_refl [simp]: "calls E 0 d d"
  by (auto simp: calls_def)

lemma calls_trans:
  assumes "calls E n d d'" "calls E m d' d''"
  shows "calls E (n + m) d d''"
proof -
  have "\<not> fails E k" if "ticks d \<le> k" "k < ticks d''" for k
    using assms that by (cases "k < ticks d'") (auto simp: calls_def)
  then show ?thesis using assms same_disk_trans[of d d' d''] by (simp add: calls_def)
qed

lemma calls_tick:
  assumes "\<not> fails E (ticks d)"
  shows "calls E 1 d (tick d)"
proof -
  have "\<not> fails E k" if "ticks d \<le> k" "k < ticks d + 1" for k
    using assms that by (cases "k = ticks d") simp_all
  then show ?thesis by (simp add: calls_def)
qed

definition region_calls :: "'v disk \<Rightarrow> string \<Rightarrow> nat" where
  "region_calls d path = (if mapped_length d path = 0 then 0 else 1)"

lemma region_calls_same: "same_disk d d' \<Longrightarrow> region_calls d' path = region_calls d path"
  by (simp add: region_calls_def mapped_length_def same_disk_lookup)

lemma refusal_None: "refusal r = None \<longleftrightarrow> r = Inr () \<or> r = Inl Sync_unsupported"
  by (auto simp: refusal_def split: sum.splits)

lemma sync_mapped_region_calls:
  assumes "sync_mapped_region E (mapped_length d path) d = (r, d')" "refusal r = None" "platform E \<noteq> Sync_none"
  shows "calls E (region_calls d path) d d'"
  using assms calls_tick[of E d]
  by (auto simp: sync_mapped_region_def region_calls_def refusal_None split: if_splits)

lemma sync_file_calls:
  assumes "sync_file E path d = (r, d')" "refusal r = None" "platform E \<noteq> Sync_none"
  shows "calls E 1 d d'" "lookup_file d path \<noteq> None"
  using assms calls_tick[of E d] by (auto simp: sync_file_def refusal_None split: if_splits)

lemma sync_directory_calls:
  assumes "sync_directory E d = (r, d')" "refusal r = None"
  shows "calls E (if platform E = Sync_full then 1 else 0) d d'"
  using assms calls_tick[of E d] by (auto simp: sync_directory_def refusal_None split: if_splits)

text \<open>The number of barriers each part owes.\<close>

definition active_calls :: "'v database \<Rightarrow> 'v disk \<Rightarrow> u64 \<Rightarrow> nat" where
  "active_calls db d i =
     (if db_mapped db i then region_calls d (data_path i (db_current_versions db i)) + 1 else 0)"

definition owed_calls :: "'v env \<Rightarrow> 'v database \<Rightarrow> nat" where
  "owed_calls E db = (\<Sum>i \<leftarrow> indices_of (db_mode db). active_calls db (db_disk db) i)
     + (\<Sum>(i, v) \<leftarrow> get_cached_files (db_file_cache db). region_calls (db_disk db) (data_path i v))
     + length (db_dirty_versions db) + (if platform E = Sync_full then 1 else 0)"

lemma sync_active_calls:
  assumes "sync_active E db i d = (Inr u, d')" "platform E \<noteq> Sync_none"
  shows "calls E (active_calls db d i) d d'"
    and "db_mapped db i \<Longrightarrow> lookup_file d (data_path i (db_current_versions db i)) \<noteq> None"
proof -
  have "calls E (active_calls db d i) d d'
    \<and> (db_mapped db i \<longrightarrow> lookup_file d (data_path i (db_current_versions db i)) \<noteq> None)"
  proof (cases "db_mapped db i")
    case True
    let ?p = "data_path i (db_current_versions db i)"
    obtain r1 d1 where one: "sync_mapped_region E (mapped_length d ?p) d = (r1, d1)" by fastforce
    obtain r2 d2 where two: "sync_file E ?p d1 = (r2, d2)" by fastforce
    have ok: "refusal r1 = None" "refusal r2 = None" "d' = d2"
      using assms(1) True one two by (auto simp: sync_active_def Let_def split: option.splits)
    note c1 = sync_mapped_region_calls[OF one ok(1) assms(2)] and c2 = sync_file_calls[OF two ok(2) assms(2)]
    have "same_disk d d1" using c1 by (simp add: calls_def)
    then show ?thesis
      using calls_trans[OF c1 c2(1)] c2(2) True ok(3) by (simp add: active_calls_def same_disk_lookup)
  next
    case False
    then show ?thesis using assms(1) by (simp add: sync_active_def active_calls_def)
  qed
  then show "calls E (active_calls db d i) d d'"
    and "db_mapped db i \<Longrightarrow> lookup_file d (data_path i (db_current_versions db i)) \<noteq> None" by simp_all
qed

lemma active_calls_same: "same_disk d d' \<Longrightarrow> active_calls db d' i = active_calls db d i"
  by (simp add: active_calls_def region_calls_same)

lemma sync_actives_calls:
  assumes "sync_actives E db is d = (Inr u, d')" "platform E \<noteq> Sync_none"
  shows "calls E (\<Sum>i \<leftarrow> is. active_calls db d i) d d'
    \<and> (\<forall>i \<in> set is. db_mapped db i \<longrightarrow> lookup_file d (data_path i (db_current_versions db i)) \<noteq> None)"
  using assms(1)
proof (induction "is" arbitrary: d)
  case (Cons i "is")
  then obtain d1 where one: "sync_active E db i d = (Inr (), d1)" and rest: "sync_actives E db is d1 = (Inr u, d')"
    by (auto split: prod.splits sum.splits)
  note c = sync_active_calls[OF one assms(2)]
  have same: "same_disk d d1" using c(1) by (simp add: calls_def)
  have "calls E (\<Sum>i \<leftarrow> is. active_calls db d i) d1 d'"
    using Cons.IH[OF rest] by (simp add: active_calls_same[OF same])
  then show ?case
    using calls_trans[OF c(1)] c(2) Cons.IH[OF rest] by (simp add: same_disk_lookup[OF same])
qed simp

lemma sync_mappings_calls:
  assumes "sync_mappings E keys d = (Inr u, d')" "platform E \<noteq> Sync_none"
  shows "calls E (\<Sum>(i, v) \<leftarrow> keys. region_calls d (data_path i v)) d d'"
  using assms(1)
proof (induction keys arbitrary: d)
  case (Cons k keys)
  obtain i v where k: "k = (i, v)" by fastforce
  obtain r1 d1 where one: "sync_mapped_region E (mapped_length d (data_path i v)) d = (r1, d1)" by fastforce
  have ok: "refusal r1 = None" and rest: "sync_mappings E keys d1 = (Inr u, d')"
    using Cons.prems one by (auto simp: k split: option.splits)
  note c = sync_mapped_region_calls[OF one ok assms(2)]
  have same: "same_disk d d1" using c by (simp add: calls_def)
  have "calls E (\<Sum>(i, v) \<leftarrow> keys. region_calls d (data_path i v)) d1 d'"
    using Cons.IH[OF rest] by (simp add: region_calls_same[OF same])
  then show ?case using calls_trans[OF c] by (simp add: k)
qed simp

lemma sync_dirty_calls:
  assumes "sync_dirty E vs d = (Inr u, d')" "platform E \<noteq> Sync_none"
  shows "calls E (length vs) d d' \<and> (\<forall>(i, v) \<in> set vs. lookup_file d (data_path i v) \<noteq> None)"
  using assms(1)
proof (induction vs arbitrary: d)
  case (Cons k vs)
  obtain i v where k: "k = (i, v)" by fastforce
  obtain r1 d1 where one: "sync_file E (data_path i v) d = (r1, d1)" by fastforce
  have ok: "refusal r1 = None" and rest: "sync_dirty E vs d1 = (Inr u, d')"
    using Cons.prems one by (auto simp: k split: option.splits)
  note c = sync_file_calls[OF one ok assms(2)]
  have same: "same_disk d d1" using c(1) by (simp add: calls_def)
  have "\<forall>(i, v) \<in> set vs. lookup_file d (data_path i v) \<noteq> None"
    using Cons.IH[OF rest] by (simp add: same_disk_lookup[OF same])
  moreover have "calls E (1 + length vs) d d'" using calls_trans[OF c(1)] Cons.IH[OF rest] by blast
  ultimately show ?case using c(2) by (simp add: k)
qed simp

lemma sync_all_calls:
  assumes run: "sync_all E db (db_disk db) = (Inr u, d')" and "platform E \<noteq> Sync_none"
  shows "calls E (owed_calls E db) (db_disk db) d'"
    and "\<forall>i \<in> set (indices_of (db_mode db)). db_mapped db i
      \<longrightarrow> lookup_file (db_disk db) (data_path i (db_current_versions db i)) \<noteq> None"
    and "\<forall>(i, v) \<in> set (db_dirty_versions db). lookup_file (db_disk db) (data_path i v) \<noteq> None"
proof -
  obtain d1 where a: "sync_actives E db (indices_of (db_mode db)) (db_disk db) = (Inr (), d1)"
    using run by (auto simp: sync_all_def split: prod.splits sum.splits)
  obtain d2 where b: "sync_mappings E (get_cached_files (db_file_cache db)) d1 = (Inr (), d2)"
    using run a by (auto simp: sync_all_def split: prod.splits sum.splits)
  obtain d3 where c: "sync_dirty E (db_dirty_versions db) d2 = (Inr (), d3)"
    using run a b by (auto simp: sync_all_def split: prod.splits sum.splits)
  obtain r4 d4 where s4: "sync_directory E d3 = (r4, d4)" by fastforce
  have ok: "refusal r4 = None" "d' = d4"
    using run a b c s4 by (auto simp: sync_all_def split: option.splits)
  note ca = sync_actives_calls[OF a assms(2)] and cb = sync_mappings_calls[OF b assms(2)]
    and cc = sync_dirty_calls[OF c assms(2)] and cd = sync_directory_calls[OF s4 ok(1)]
  have same1: "same_disk (db_disk db) d1" using ca by (simp add: calls_def)
  have same2: "same_disk (db_disk db) d2" using same_disk_trans[OF same1] cb by (simp add: calls_def)
  have cb': "calls E (\<Sum>(i, v) \<leftarrow> get_cached_files (db_file_cache db). region_calls (db_disk db) (data_path i v)) d1 d2"
    using cb by (simp add: region_calls_same[OF same1])
  show "calls E (owed_calls E db) (db_disk db) d'"
    using calls_trans[OF calls_trans[OF calls_trans[OF conjunct1[OF ca] cb'] conjunct1[OF cc]] cd]
    by (simp add: owed_calls_def ok(2))
  show "\<forall>i \<in> set (indices_of (db_mode db)). db_mapped db i
      \<longrightarrow> lookup_file (db_disk db) (data_path i (db_current_versions db i)) \<noteq> None"
    using ca by blast
  show "\<forall>(i, v) \<in> set (db_dirty_versions db). lookup_file (db_disk db) (data_path i v) \<noteq> None"
    using cc by (simp add: same_disk_lookup[OF same2])
qed

subsection \<open>Failures\<close>

lemma sync_mapped_region_err:
  "sync_mapped_region E len d = (r, d') \<Longrightarrow> same_disk d d' \<and> (r = Inr () \<or> r = Inl Sync_unsupported \<or> r = Inl Sync_failed \<and> (\<exists>n. fails E n))"
  by (auto simp: sync_mapped_region_def split: if_splits)

lemma sync_file_err:
  "sync_file E path d = (r, d') \<Longrightarrow> same_disk d d' \<and> (r = Inr () \<or> r = Inl Sync_unsupported
     \<or> r = Inl Sync_failed \<and> ((\<exists>n. fails E n) \<or> lookup_file d path = None))"
  by (auto simp: sync_file_def split: if_splits)

lemma sync_directory_err:
  "sync_directory E d = (r, d') \<Longrightarrow> same_disk d d' \<and> (r = Inr () \<or> r = Inl Sync_unsupported \<or> r = Inl Sync_failed \<and> (\<exists>n. fails E n))"
  by (auto simp: sync_directory_def split: if_splits)

lemma refusal_simps [simp]: "refusal (Inr u) = None" "refusal (Inl Sync_unsupported) = None"
  "refusal (Inl Sync_failed) = Some Sync_failed"
  by (simp_all add: refusal_def)

text \<open>What a part of \<open>sync_all\<close> may answer: an error is \<open>sync_failed\<close>, for one of two reasons.\<close>

definition sync_answer :: "'v env \<Rightarrow> bool \<Rightarrow> 'v disk \<Rightarrow> unit result \<Rightarrow> 'v disk \<Rightarrow> bool" where
  "sync_answer E missing d r d' \<longleftrightarrow> same_disk d d' \<and> (r = Inr () \<or> r = Inl Sync_failed \<and> ((\<exists>n. fails E n) \<or> missing))"

lemma sync_active_answer:
  assumes "sync_active E db i d = (r, d')"
  shows "sync_answer E (db_mapped db i \<and> lookup_file d (data_path i (db_current_versions db i)) = None) d r d'"
proof (cases "db_mapped db i")
  case True
  let ?p = "data_path i (db_current_versions db i)"
  obtain r1 d1 where one: "sync_mapped_region E (mapped_length d ?p) d = (r1, d1)" by fastforce
  obtain r2 d2 where two: "sync_file E ?p d1 = (r2, d2)" by fastforce
  note e1 = sync_mapped_region_err[OF one] and e2 = sync_file_err[OF two]
  have "lookup_file d1 ?p = lookup_file d ?p" using e1 by (simp add: same_disk_lookup)
  then show ?thesis
    using assms True one two e1 e2 same_disk_trans[of d d1 d2]
    by (auto simp: sync_active_def sync_answer_def Let_def)
next
  case False
  then show ?thesis using assms by (simp add: sync_active_def sync_answer_def)
qed

lemma sync_actives_answer:
  assumes "sync_actives E db is d = (r, d')"
  shows "sync_answer E (\<exists>i \<in> set is. db_mapped db i \<and> lookup_file d (data_path i (db_current_versions db i)) = None) d r d'"
  using assms
proof (induction "is" arbitrary: d)
  case (Cons i "is")
  obtain r1 d1 where one: "sync_active E db i d = (r1, d1)" by fastforce
  note a = sync_active_answer[OF one]
  have same: "same_disk d d1" using a by (simp add: sync_answer_def)
  show ?case
  proof (cases r1)
    case (Inl e)
    then show ?thesis using Cons.prems one a by (auto simp: sync_answer_def)
  next
    case (Inr u)
    then have "sync_actives E db is d1 = (r, d')" using Cons.prems one by simp
    from Cons.IH[OF this] show ?thesis
      using same_disk_trans[OF same] by (auto simp: sync_answer_def same_disk_lookup[OF same])
  qed
qed (simp add: sync_answer_def)

lemma sync_mappings_answer: "sync_mappings E keys d = (r, d') \<Longrightarrow> sync_answer E False d r d'"
proof (induction keys arbitrary: d)
  case (Cons k keys)
  obtain i v where k: "k = (i, v)" by fastforce
  obtain r1 d1 where one: "sync_mapped_region E (mapped_length d (data_path i v)) d = (r1, d1)" by fastforce
  note a = sync_mapped_region_err[OF one]
  then have same: "same_disk d d1" by simp
  show ?case
  proof (cases "refusal r1")
    case None
    then have "sync_mappings E keys d1 = (r, d')" using Cons.prems one by (simp add: k)
    from Cons.IH[OF this] show ?thesis using same_disk_trans[OF same] by (auto simp: sync_answer_def)
  next
    case (Some e)
    then show ?thesis using Cons.prems one a by (auto simp: k sync_answer_def)
  qed
qed (simp add: sync_answer_def)

lemma sync_dirty_answer:
  "sync_dirty E vs d = (r, d') \<Longrightarrow> sync_answer E (\<exists>(i, v) \<in> set vs. lookup_file d (data_path i v) = None) d r d'"
proof (induction vs arbitrary: d)
  case (Cons k vs)
  obtain i v where k: "k = (i, v)" by fastforce
  obtain r1 d1 where one: "sync_file E (data_path i v) d = (r1, d1)" by fastforce
  note a = sync_file_err[OF one]
  then have same: "same_disk d d1" by simp
  show ?case
  proof (cases "refusal r1")
    case None
    then have "sync_dirty E vs d1 = (r, d')" using Cons.prems one by (simp add: k)
    from Cons.IH[OF this] show ?thesis
      using same_disk_trans[OF same] by (auto simp: k sync_answer_def same_disk_lookup[OF same])
  next
    case (Some e)
    then show ?thesis using Cons.prems one a by (auto simp: k sync_answer_def)
  qed
qed (simp add: sync_answer_def)

definition file_gone :: "'v database \<Rightarrow> bool" where
  "file_gone db \<longleftrightarrow>
     (\<exists>i \<in> set (indices_of (db_mode db)). db_mapped db i
        \<and> lookup_file (db_disk db) (data_path i (db_current_versions db i)) = None)
     \<or> (\<exists>(i, v) \<in> set (db_dirty_versions db). lookup_file (db_disk db) (data_path i v) = None)"

lemma sync_all_answer:
  assumes "sync_all E db (db_disk db) = (r, d')"
  shows "sync_answer E (file_gone db) (db_disk db) r d'"
proof -
  let ?d = "db_disk db"
  obtain r1 d1 where a: "sync_actives E db (indices_of (db_mode db)) ?d = (r1, d1)" by fastforce
  obtain r2 d2 where b: "sync_mappings E (get_cached_files (db_file_cache db)) d1 = (r2, d2)" by fastforce
  obtain r3 d3 where c: "sync_dirty E (db_dirty_versions db) d2 = (r3, d3)" by fastforce
  obtain r4 d4 where e: "sync_directory E d3 = (r4, d4)" by fastforce
  note aa = sync_actives_answer[OF a] and bb = sync_mappings_answer[OF b]
    and cc = sync_dirty_answer[OF c] and ee = sync_directory_err[OF e]
  have same1: "same_disk ?d d1" using aa by (simp add: sync_answer_def)
  have same2: "same_disk ?d d2" using same_disk_trans[OF same1] bb by (simp add: sync_answer_def)
  have same3: "same_disk ?d d3" using same_disk_trans[OF same2] cc by (simp add: sync_answer_def)
  have same4: "same_disk ?d d4" using same_disk_trans[OF same3] ee by simp
  have cc': "sync_answer E (file_gone db) d2 r3 d3"
    using cc by (auto simp: sync_answer_def file_gone_def same_disk_lookup[OF same2])
  have aa': "sync_answer E (file_gone db) ?d r1 d1"
    using aa by (auto simp: sync_answer_def file_gone_def)
  show ?thesis
    using assms a b c e aa' bb cc' ee same1 same2 same3 same4
    by (cases r1; cases r2; cases r3) (auto simp: sync_all_def sync_answer_def)
qed

section \<open>The contract\<close>

lemma sync_spec:
  assumes run: "sync_database E db = (r, db')"
  shows "db' = db\<lparr>db_disk := db_disk db', db_dirty_versions := db_dirty_versions db'\<rparr>
    \<and> same_disk (db_disk db) (db_disk db')
    \<and> (case r of
         Inr _ \<Rightarrow> db_dirty_versions db' = [] \<and> calls E (owed_calls E db) (db_disk db) (db_disk db') \<and> \<not> file_gone db
       | Inl e \<Rightarrow> db_dirty_versions db' = db_dirty_versions db
           \<and> e \<in> {Recovery_required, Sync_unsupported, Sync_failed})
    \<and> ((\<forall>n. \<not> fails E n) \<and> \<not> file_gone db \<and> \<not> db_cleanup_pending db \<and> platform E \<noteq> Sync_none \<longrightarrow> r = Inr ())"
proof (cases "db_cleanup_pending db \<or> platform E = Sync_none")
  case True
  then have "db' = db" "r \<in> {Inl Recovery_required, Inl Sync_unsupported}"
    using run by (auto simp: sync_database_def split: if_splits)
  then show ?thesis using True run by (auto simp: sync_database_def)
next
  case False
  obtain r1 d1 where all: "sync_all E db (db_disk db) = (r1, d1)" by fastforce
  note ans = sync_all_answer[OF all]
  show ?thesis
  proof (cases r1)
    case (Inl e)
    then show ?thesis using run False all ans by (auto simp: sync_database_def sync_answer_def)
  next
    case (Inr u)
    have "calls E (owed_calls E db) (db_disk db) d1" "\<not> file_gone db"
      using sync_all_calls[of E db u d1] False all Inr by (auto simp: file_gone_def)
    moreover have "r = Inr ()" "db' = db\<lparr>db_disk := d1, db_dirty_versions := []\<rparr>"
      using run False all Inr by (simp_all add: sync_database_def)
    ultimately show ?thesis using ans by (auto simp: sync_answer_def)
  qed
qed

text \<open>
  C23: a \<open>sync\<close> that returns has made every call it owed, to the pages and the file of every mapped
  active version, the pages of every cached mapping, the file of every dirty version and the
  directory; none of them failed, every file was there, and only then are the dirty versions
  discharged. A \<open>sync\<close> that fails discharges nothing. It changes no file either way, and with no
  failing call, every file there and no pending recovery it returns.
\<close>

theorem sync_discharges:
  assumes run: "sync_database E db = (r, db')"
  shows "db' = db\<lparr>db_disk := db_disk db', db_dirty_versions := db_dirty_versions db'\<rparr>
    \<and> same_disk (db_disk db) (db_disk db')
    \<and> (case r of
         Inr _ \<Rightarrow> db_dirty_versions db' = [] \<and> calls E (owed_calls E db) (db_disk db) (db_disk db') \<and> \<not> file_gone db
       | Inl e \<Rightarrow> db_dirty_versions db' = db_dirty_versions db
           \<and> e \<in> {Recovery_required, Sync_unsupported, Sync_failed})
    \<and> ((\<forall>n. \<not> fails E n) \<and> \<not> file_gone db \<and> \<not> db_cleanup_pending db \<and> platform E \<noteq> Sync_none \<longrightarrow> r = Inr ())"
  by (rule sync_spec[OF assms])

lemma full_store_fields:
  "db_mode full_store = Full_mode" "db_current_versions full_store i = 0" "\<not> db_cleanup_pending full_store"
  by (simp_all add: full_store_def empty_store_def example_db_def)

theorem sync_discharges_witness:
  "\<exists>db'. sync_database calm_env (full_store\<lparr>db_dirty_versions := [(0, 0)]\<rparr>) = (Inr (), db')
     \<and> db_dirty_versions db' = []"
proof -
  obtain r db' where run: "sync_database calm_env (full_store\<lparr>db_dirty_versions := [(0, 0)]\<rparr>) = (r, db')"
    by fastforce
  have "lookup_file (db_disk full_store) (data_path i 0) \<noteq> None" if "i \<in> set full_indices" for i
    using full_store_lookup[OF that] by simp
  then have "\<not> file_gone (full_store\<lparr>db_dirty_versions := [(0, 0)]\<rparr>)"
    by (auto simp: file_gone_def full_store_fields full_indices_def indices_of_def)
  then have "r = Inr ()" using sync_discharges[OF run] by (simp add: full_store_fields)
  then show ?thesis using sync_discharges[OF run] run by simp
qed

end
