(* ===== verification/Scanning.thy ===== *)
theory Scanning
  imports Walk_Facts
begin

text \<open>
  The whole-store scans of \<open>src/database_impl.cpp\<close>: \<open>for_each_key_impl\<close>, \<open>for_each_entry_impl\<close> and
  their reference-mode counterparts. The callback is the caller's code: it works on a context of
  its own and may raise. The scans open the versions below without asking for their stamp.
\<close>

section \<open>Definitions\<close>

text \<open>How a call of the callback ends: a \<open>std::exception\<close> is caught over the versions below.\<close>

datatype ending = Goes_on | Raises_standard | Raises_other

fun deliver :: "('c \<Rightarrow> 'e \<Rightarrow> ending \<times> 'c) \<Rightarrow> 'e list \<Rightarrow> 'c \<Rightarrow> ending \<times> 'c" where
  "deliver cb [] ctx = (Goes_on, ctx)"
| "deliver cb (e # es) ctx =
    (case cb ctx e of
       (Goes_on, ctx) \<Rightarrow> deliver cb es ctx
     | raised \<Rightarrow> raised)"

definition scan_version ::
  "'v env \<Rightarrow> ('c \<Rightarrow> raw_outpoint \<times> 'v \<Rightarrow> ending \<times> 'c) \<Rightarrow> u64 \<Rightarrow> u64 \<Rightarrow> 'c \<Rightarrow> 'v disk
   \<Rightarrow> unit call \<times> 'c \<times> 'v disk" where
  "scan_version E cb i v ctx d =
    (case open_existing_segment E (data_path i v) d of
       (Inl e, d) \<Rightarrow> (Returned (Inl e), ctx, d)
     | (Inr s, d) \<Rightarrow>
         (case find_single_named (seg_map s) of
            Inl e \<Rightarrow> (Returned (Inl e), ctx, d)
          | Inr t \<Rightarrow>
              (case deliver cb (tbl_entries t) ctx of
                 (Goes_on, ctx) \<Rightarrow> (Returned (Inr ()), ctx, d)
               | (Raises_standard, ctx) \<Rightarrow> (Returned (Inl File_open_failed), ctx, d)
               | (Raises_other, ctx) \<Rightarrow> (Raised, ctx, d))))"

fun scan_versions ::
  "'v env \<Rightarrow> ('c \<Rightarrow> raw_outpoint \<times> 'v \<Rightarrow> ending \<times> 'c) \<Rightarrow> u64 \<Rightarrow> u64 list \<Rightarrow> 'c \<Rightarrow> 'v disk
   \<Rightarrow> unit call \<times> 'c \<times> 'v disk" where
  "scan_versions E cb i [] ctx d = (Returned (Inr ()), ctx, d)"
| "scan_versions E cb i (v # vs) ctx d =
    (case scan_version E cb i v ctx d of
       (Returned (Inr _), ctx, d) \<Rightarrow> scan_versions E cb i vs ctx d
     | failed \<Rightarrow> failed)"

text \<open>One container: the active map, where nothing is caught, then the versions below it.\<close>

definition scan_index ::
  "'v env \<Rightarrow> ('c \<Rightarrow> raw_outpoint \<times> 'v \<Rightarrow> ending \<times> 'c) \<Rightarrow> 'v database \<Rightarrow> u64 \<Rightarrow> 'c \<Rightarrow> 'v disk
   \<Rightarrow> unit call \<times> 'c \<times> 'v disk" where
  "scan_index E cb db i ctx d =
    (case deliver cb (tbl_entries (container db i)) ctx of
       (Goes_on, ctx) \<Rightarrow>
         scan_versions E cb i (catalog_below (db_catalogs db i) (db_current_versions db i)) ctx d
     | (_, ctx) \<Rightarrow> (Raised, ctx, d))"

fun scan_indices ::
  "'v env \<Rightarrow> ('c \<Rightarrow> raw_outpoint \<times> 'v \<Rightarrow> ending \<times> 'c) \<Rightarrow> 'v database \<Rightarrow> u64 list \<Rightarrow> 'c \<Rightarrow> 'v disk
   \<Rightarrow> unit call \<times> 'c \<times> 'v disk" where
  "scan_indices E cb db [] ctx d = (Returned (Inr ()), ctx, d)"
| "scan_indices E cb db (i # is) ctx d =
    (case scan_index E cb db i ctx d of
       (Returned (Inr _), ctx, d) \<Rightarrow> scan_indices E cb db is ctx d
     | failed \<Rightarrow> failed)"

definition scan_store ::
  "'v env \<Rightarrow> ('c \<Rightarrow> raw_outpoint \<times> 'v \<Rightarrow> ending \<times> 'c) \<Rightarrow> 'c \<Rightarrow> 'v database
   \<Rightarrow> unit call \<times> 'c \<times> 'v database" where
  "scan_store E cb ctx db =
    (case scan_indices E cb db (indices_of (db_mode db)) ctx (db_disk db) of
       (r, ctx, d) \<Rightarrow> (r, ctx, db\<lparr>db_disk := d\<rparr>))"

text \<open>The scans of reference mode, over its one container.\<close>

definition scan_reference ::
  "'v env \<Rightarrow> ('c \<Rightarrow> raw_outpoint \<times> 'v \<Rightarrow> ending \<times> 'c) \<Rightarrow> 'c \<Rightarrow> 'v database
   \<Rightarrow> unit call \<times> 'c \<times> 'v database" where
  "scan_reference E cb ctx db =
    (case scan_index E cb db reference_sentinel_index ctx (db_disk db) of
       (r, ctx, d) \<Rightarrow> (r, ctx, db\<lparr>db_disk := d\<rparr>))"

definition reference_for_each_key ::
  "'v env \<Rightarrow> ('c \<Rightarrow> raw_outpoint \<Rightarrow> ending \<times> 'c) \<Rightarrow> 'c \<Rightarrow> 'v database \<Rightarrow> unit call \<times> 'c \<times> 'v database" where
  "reference_for_each_key E cb = scan_reference E (\<lambda>ctx (key, _). cb ctx key)"

definition reference_for_each_entry ::
  "reference_value env \<Rightarrow> ('c \<Rightarrow> raw_outpoint \<times> u32 \<times> bytes \<Rightarrow> ending \<times> 'c) \<Rightarrow> 'c
   \<Rightarrow> reference_value database \<Rightarrow> unit call \<times> 'c \<times> reference_value database" where
  "reference_for_each_entry E cb = scan_reference E (\<lambda>ctx (key, val).
     cb ctx (key, rv_height val, put32 (rv_file_number val) @ put32 (rv_offset val)))"

definition reference_for_each_entry_typed ::
  "reference_value env \<Rightarrow> ('c \<Rightarrow> raw_outpoint \<times> u32 \<times> u32 \<times> u32 \<Rightarrow> ending \<times> 'c) \<Rightarrow> 'c
   \<Rightarrow> reference_value database \<Rightarrow> unit call \<times> 'c \<times> reference_value database" where
  "reference_for_each_entry_typed E cb = scan_reference E (\<lambda>ctx (key, val).
     cb ctx (key, rv_height val, rv_file_number val, rv_offset val))"

definition for_each_key_impl ::
  "'v env \<Rightarrow> ('c \<Rightarrow> raw_outpoint \<Rightarrow> ending \<times> 'c) \<Rightarrow> 'c \<Rightarrow> 'v database \<Rightarrow> unit call \<times> 'c \<times> 'v database" where
  "for_each_key_impl E cb ctx db =
    (if db_mode db = Reference_mode then reference_for_each_key E cb ctx db
     else scan_store E (\<lambda>ctx (key, _). cb ctx key) ctx db)"

text \<open>In reference mode the source hands over to \<open>reference_for_each_entry\<close>, whose values are of another type.\<close>

definition for_each_entry_impl ::
  "utxo_value env \<Rightarrow> ('c \<Rightarrow> raw_outpoint \<times> u32 \<times> bytes \<Rightarrow> ending \<times> 'c) \<Rightarrow> 'c \<Rightarrow> utxo_value database
   \<Rightarrow> unit call \<times> 'c \<times> utxo_value database" where
  "for_each_entry_impl E cb = scan_store E (\<lambda>ctx (key, val). cb ctx (key, uv_block_height val, get_data val))"

lemma scan_reference_eq:
  assumes "db_mode db = Reference_mode"
  shows "scan_reference E cb ctx db = scan_store E cb ctx db"
proof -
  obtain r ctx' d where one: "scan_index E cb db reference_sentinel_index ctx (db_disk db) = (r, ctx', d)"
    by (rule prod_cases3)
  show ?thesis
    using assms one
    by (cases r) (auto simp: scan_reference_def scan_store_def indices_of_def split: sum.splits)
qed

section \<open>What a scan delivers\<close>

text \<open>\<open>delivered cb es ctx ctx'\<close>: the callback took all of \<open>es\<close> in this order, without raising.\<close>

definition delivered :: "('c \<Rightarrow> 'e \<Rightarrow> ending \<times> 'c) \<Rightarrow> 'e list \<Rightarrow> 'c \<Rightarrow> 'c \<Rightarrow> bool" where
  "delivered cb es ctx ctx' \<longleftrightarrow> deliver cb es ctx = (Goes_on, ctx')"

lemma deliver_append:
  "deliver cb (xs @ ys) ctx
     = (case deliver cb xs ctx of (Goes_on, ctx') \<Rightarrow> deliver cb ys ctx' | raised \<Rightarrow> raised)"
  by (induction xs arbitrary: ctx) (auto split: prod.splits ending.splits)

lemma delivered_append: "delivered cb xs a b \<Longrightarrow> delivered cb ys b c \<Longrightarrow> delivered cb (xs @ ys) a c"
  by (simp add: delivered_def deliver_append)

lemma open_segment_Inr:
  assumes "open_existing_segment E path d = (Inr s, d')"
  shows "lookup_file d path = Some (Segment s)"
  using assms by (auto simp: open_existing_segment_def split: option.splits disk_file.splits if_splits)

lemma scan_version_whole:
  assumes run: "scan_version E cb i v ctx d = (Returned (Inr u), ctx', d')"
  shows "same_disk d d' \<and> (\<exists>t. generation d i v = Some t \<and> delivered cb (tbl_entries t) ctx ctx')"
proof -
  obtain s d1 where op: "open_existing_segment E (data_path i v) d = (Inr s, d1)"
    using run by (auto simp: scan_version_def split: prod.splits sum.splits)
  obtain t where t: "find_single_named (seg_map s) = Inr t"
    using run op by (auto simp: scan_version_def split: sum.splits)
  obtain e ctx1 where dl: "deliver cb (tbl_entries t) ctx = (e, ctx1)" by fastforce
  have "e = Goes_on \<and> ctx1 = ctx' \<and> d1 = d'"
    using run op t dl by (cases e) (auto simp: scan_version_def)
  then show ?thesis
    using open_segment_Inr[OF op] open_existing_segment_same[OF op] t dl
    by (simp add: generation_def delivered_def)
qed

lemma scan_versions_whole:
  assumes "scan_versions E cb i vs ctx d = (Returned (Inr u), ctx', d')"
  shows "same_disk d d' \<and> (\<forall>v \<in> set vs. generation d i v \<noteq> None)
    \<and> delivered cb (concat (map (\<lambda>v. tbl_entries (the (generation d i v))) vs)) ctx ctx'"
  using assms
proof (induction vs arbitrary: ctx d)
  case (Cons v vs)
  then obtain ctx1 d1 where one: "scan_version E cb i v ctx d = (Returned (Inr ()), ctx1, d1)"
    and rest: "scan_versions E cb i vs ctx1 d1 = (Returned (Inr u), ctx', d')"
    by (auto split: prod.splits call.splits sum.splits)
  note a = scan_version_whole[OF one] and b = Cons.IH[OF rest]
  have "generation d1 i w = generation d i w" for w
    using same_disk_lookup[of d d1] a by (intro generation_cong) simp
  then show ?case using a b delivered_append[of cb _ ctx ctx1] same_disk_trans[of d d1 d'] by auto
qed (simp add: delivered_def)

text \<open>The entries of a container in the order of a scan.\<close>

definition scan_order :: "'v database \<Rightarrow> 'v disk \<Rightarrow> u64 \<Rightarrow> (raw_outpoint \<times> 'v) list" where
  "scan_order db d i = tbl_entries (container db i)
     @ concat (map (\<lambda>v. tbl_entries (the (generation d i v)))
         (catalog_below (db_catalogs db i) (db_current_versions db i)))"

lemma scan_order_same: "same_disk d d' \<Longrightarrow> scan_order db d' i = scan_order db d i"
  using generation_cong[OF same_disk_lookup[of d d']] by (simp add: scan_order_def)

lemma scan_index_whole:
  assumes run: "scan_index E cb db i ctx d = (Returned (Inr u), ctx', d')"
  shows "same_disk d d' \<and> delivered cb (scan_order db d i) ctx ctx'"
proof -
  obtain e ctx1 where dl: "deliver cb (tbl_entries (container db i)) ctx = (e, ctx1)" by fastforce
  have e: "e = Goes_on" using run dl by (cases e) (auto simp: scan_index_def)
  then have "scan_versions E cb i (catalog_below (db_catalogs db i) (db_current_versions db i)) ctx1 d
      = (Returned (Inr u), ctx', d')" using run dl by (simp add: scan_index_def)
  from scan_versions_whole[OF this] show ?thesis
    using dl e by (auto simp: scan_order_def delivered_def deliver_append)
qed

lemma scan_indices_whole:
  assumes "scan_indices E cb db is ctx d = (Returned (Inr u), ctx', d')"
  shows "same_disk d d' \<and> delivered cb (concat (map (scan_order db d) is)) ctx ctx'"
  using assms
proof (induction "is" arbitrary: ctx d)
  case (Cons i "is")
  then obtain ctx1 d1 where one: "scan_index E cb db i ctx d = (Returned (Inr ()), ctx1, d1)"
    and rest: "scan_indices E cb db is ctx1 d1 = (Returned (Inr u), ctx', d')"
    by (auto split: prod.splits call.splits sum.splits)
  note a = scan_index_whole[OF one] and b = Cons.IH[OF rest]
  have "scan_order db d1 = scan_order db d" using a by (auto simp: scan_order_same)
  then show ?case using a b delivered_append[of cb _ ctx ctx1] same_disk_trans[of d d1 d'] by auto
qed (simp add: delivered_def)

text \<open>They are what the container holds.\<close>

lemma scan_order_bag:
  assumes srv: "serving E db i"
  shows "mset (scan_order db (db_disk db) i) = contents db i"
proof -
  let ?c = "db_catalogs db i" and ?v = "db_current_versions db i" and ?d = "db_disk db"
  let ?below = "catalog_below ?c ?v"
  have inv: "catalog_inv ?c" and ne: "vc_versions ?c \<noteq> []" and act: "?v = catalog_active ?c"
    using srv by (simp_all add: serving_def container_inv_def)
  have all: "set (vc_versions ?c) = insert ?v (set ?below)" and fresh: "?v \<notin> set ?below"
    using catalog_partition[OF inv ne] catalog_below_set[OF inv, of ?v] act by auto
  have bag: "mset (tbl_entries (the (generation ?d i v))) = generation_bag ?d i v" if "v \<in> set ?below" for v
    using that all generation_ok_generation[of E "db_database_id db" ?d i v] srv
    by (auto simp: serving_def container_inv_def generation_bag_def tbl_bag_def)
  have act_bag: "mset (tbl_entries (container db i)) = generation_bag ?d i ?v"
    by (simp add: generation_bag_def serving_container(1)[OF srv] tbl_bag_def)
  have "mset (concat (map (\<lambda>v. tbl_entries (the (generation ?d i v))) vs)) = (\<Sum>v \<leftarrow> vs. generation_bag ?d i v)"
    if "set vs \<subseteq> set ?below" for vs
    using that by (induction vs) (simp_all add: bag)
  then have "mset (scan_order db ?d i) = generation_bag ?d i ?v + (\<Sum>v \<leftarrow> ?below. generation_bag ?d i v)"
    by (simp add: scan_order_def act_bag)
  also have "\<dots> = contents db i"
    using fresh catalog_below_distinct[OF inv, of ?v]
    by (simp add: contents_def all sum_list_distinct_conv_sum_set)
  finally show ?thesis .
qed

lemma scan_order_stored:
  assumes "store_inv E db"
  shows "mset (concat (map (scan_order db (db_disk db)) (indices_of (db_mode db)))) = stored db"
proof -
  have "mset (concat (map (scan_order db (db_disk db)) is)) = (\<Sum>i \<leftarrow> is. contents db i)"
    if "set is \<subseteq> set (indices_of (db_mode db))" for "is"
    using that assms by (induction "is") (auto simp: store_inv_def scan_order_bag)
  then show ?thesis by (simp add: stored_def sum_list_distinct_conv_sum_set[OF distinct_indices])
qed

subsection \<open>Scans that fail\<close>

lemma scan_version_ends:
  assumes run: "scan_version E cb i v ctx d = (r, ctx', d')"
  shows "same_disk d d' \<and> (\<forall>e. r = Returned (Inl e) \<longrightarrow> e \<in> {File_open_failed, Version_unreadable})"
proof -
  obtain r1 d1 where op: "open_existing_segment E (data_path i v) d = (r1, d1)" by fastforce
  have e1: "e = File_open_failed" if "r1 = Inl e" for e
    using op that by (auto simp: open_existing_segment_def split: option.splits disk_file.splits if_splits)
  have "d' = d1 \<and> (\<forall>e. r = Returned (Inl e) \<longrightarrow> e \<in> {File_open_failed, Version_unreadable})"
  proof (cases r1)
    case (Inl e)
    then show ?thesis using run op e1 by (auto simp: scan_version_def)
  next
    case (Inr s)
    have "find_single_named (seg_map s) = Inl e \<Longrightarrow> e = Version_unreadable" for e
      by (auto simp: find_single_named_def split: option.splits if_splits)
    then show ?thesis using run op Inr
      by (auto simp: scan_version_def split: prod.splits ending.splits sum.splits)
  qed
  then show ?thesis using open_existing_segment_same[OF op] by simp
qed

lemma scan_versions_ends:
  "scan_versions E cb i vs ctx d = (r, ctx', d')
   \<Longrightarrow> same_disk d d' \<and> (\<forall>e. r = Returned (Inl e) \<longrightarrow> e \<in> {File_open_failed, Version_unreadable})"
proof (induction vs arbitrary: ctx d)
  case (Cons v vs)
  obtain r1 ctx1 d1 where one: "scan_version E cb i v ctx d = (r1, ctx1, d1)" by (rule prod_cases3)
  note a = scan_version_ends[OF one]
  show ?case
  proof (cases "r1 = Returned (Inr ())")
    case True
    then have "scan_versions E cb i vs ctx1 d1 = (r, ctx', d')" using Cons.prems one by simp
    from Cons.IH[OF this] a show ?thesis using same_disk_trans[of d d1 d'] by simp
  next
    case False
    then have "(r, ctx', d') = (r1, ctx1, d1)"
      using Cons.prems one by (cases r1; cases "case r1 of Returned x \<Rightarrow> x") (auto split: sum.splits)
    then show ?thesis using a by auto
  qed
qed auto

lemma scan_index_ends:
  assumes "scan_index E cb db i ctx d = (r, ctx', d')"
  shows "same_disk d d' \<and> (\<forall>e. r = Returned (Inl e) \<longrightarrow> e \<in> {File_open_failed, Version_unreadable})"
proof -
  obtain e ctx1 where dl: "deliver cb (tbl_entries (container db i)) ctx = (e, ctx1)" by fastforce
  show ?thesis
    using assms dl scan_versions_ends[of E cb i _ ctx1 d r ctx' d'] by (cases e) (auto simp: scan_index_def)
qed

lemma scan_indices_ends:
  "scan_indices E cb db is ctx d = (r, ctx', d')
   \<Longrightarrow> same_disk d d' \<and> (\<forall>e. r = Returned (Inl e) \<longrightarrow> e \<in> {File_open_failed, Version_unreadable})"
proof (induction "is" arbitrary: ctx d)
  case (Cons i "is")
  obtain r1 ctx1 d1 where one: "scan_index E cb db i ctx d = (r1, ctx1, d1)" by (rule prod_cases3)
  note a = scan_index_ends[OF one]
  show ?case
  proof (cases "r1 = Returned (Inr ())")
    case True
    then have "scan_indices E cb db is ctx1 d1 = (r, ctx', d')" using Cons.prems one by simp
    from Cons.IH[OF this] a show ?thesis using same_disk_trans[of d d1 d'] by simp
  next
    case False
    then have "(r, ctx', d') = (r1, ctx1, d1)"
      using Cons.prems one by (cases r1; cases "case r1 of Returned x \<Rightarrow> x") (auto split: sum.splits)
    then show ?thesis using a by auto
  qed
qed auto

subsection \<open>Scans that return\<close>

lemma deliver_goes_on:
  assumes "\<forall>c e. fst (cb c e) = Goes_on"
  shows "\<exists>ctx'. deliver cb es ctx = (Goes_on, ctx')"
proof (induction es arbitrary: ctx)
  case (Cons e es)
  obtain c where "cb ctx e = (Goes_on, c)" using assms by (metis prod.collapse)
  then show ?case using Cons by simp
qed simp

lemma scan_versions_calm:
  assumes "\<forall>n. \<not> fails E n" "\<forall>c e. fst (cb c e) = Goes_on"
    and "\<forall>v \<in> set vs. generation_ok E dbid d i v"
  shows "\<exists>ctx' d'. scan_versions E cb i vs ctx d = (Returned (Inr ()), ctx', d')"
  using assms(3)
proof (induction vs arbitrary: ctx d)
  case (Cons v vs)
  obtain s t where s: "lookup_file d (data_path i v) = Some (Segment s)"
    "good_segment (local_build E) dbid (kind_of_index i) v s t"
    using Cons.prems by (auto simp: generation_ok_def)
  obtain ctx1 where dl: "deliver cb (tbl_entries t) ctx = (Goes_on, ctx1)"
    using deliver_goes_on[OF assms(2)] by blast
  have one: "scan_version E cb i v ctx d = (Returned (Inr ()), ctx1, tick (tick d))"
    using s assms(1) dl find_single_named_Inr[of "seg_map s" t]
    by (simp add: scan_version_def open_existing_segment_def good_segment_def not_less del: find_single_named_Inr)
  have "\<forall>w \<in> set vs. generation_ok E dbid (tick (tick d)) i w"
    using Cons.prems by (simp add: generation_ok_def)
  from Cons.IH[OF this] one show ?case by simp
qed simp

lemma scan_indices_calm:
  assumes "\<forall>n. \<not> fails E n" "\<forall>c e. fst (cb c e) = Goes_on" "same_disk (db_disk db) d"
    and "\<forall>i \<in> set is. serving E db i"
  shows "\<exists>ctx' d'. scan_indices E cb db is ctx d = (Returned (Inr ()), ctx', d')"
  using assms(3,4)
proof (induction "is" arbitrary: ctx d)
  case (Cons i "is")
  let ?vs = "catalog_below (db_catalogs db i) (db_current_versions db i)"
  have srv: "serving E db i" using Cons.prems(2) by simp
  then have "set ?vs \<subseteq> set (vc_versions (db_catalogs db i))"
    using catalog_below_set[of "db_catalogs db i"] by (auto simp: serving_def container_inv_def)
  then have ok: "\<forall>v \<in> set ?vs. generation_ok E (db_database_id db) d i v"
    using serving_generation_ok[OF srv] generation_ok_cong[OF same_disk_lookup[OF Cons.prems(1)]] by blast
  obtain ctx0 where dl: "deliver cb (tbl_entries (container db i)) ctx = (Goes_on, ctx0)"
    using deliver_goes_on[OF assms(2)] by blast
  obtain ctx1 d1 where "scan_versions E cb i ?vs ctx0 d = (Returned (Inr ()), ctx1, d1)"
    using scan_versions_calm[OF assms(1,2) ok] by blast
  then have one: "scan_index E cb db i ctx d = (Returned (Inr ()), ctx1, d1)"
    using dl by (simp add: scan_index_def)
  have "same_disk (db_disk db) d1"
    using same_disk_trans[OF Cons.prems(1)] scan_index_ends[OF one] by blast
  from Cons.IH[OF this] Cons.prems(2) one show ?case by simp
qed simp

text \<open>
  C20: a scan that returns has handed every stored entry to the callback, each as often as it is
  stored; nothing less is ever reported as a whole scan. It changes no file, its errors are that a
  version could not be opened or read or that the callback raised over it, and with no failing call
  and a callback that does not raise it returns.
\<close>

theorem scan_complete:
  assumes inv: "store_inv E db" and run: "scan_store E cb ctx db = (r, ctx', db')"
  shows "db' = db\<lparr>db_disk := db_disk db'\<rparr> \<and> same_disk (db_disk db) (db_disk db')
    \<and> (r = Returned (Inr ()) \<longrightarrow> (\<exists>es. mset es = stored db \<and> deliver cb es ctx = (Goes_on, ctx')))
    \<and> (\<forall>e. r = Returned (Inl e) \<longrightarrow> e \<in> {File_open_failed, Version_unreadable})
    \<and> ((\<forall>n. \<not> fails E n) \<and> (\<forall>c e. fst (cb c e) = Goes_on) \<longrightarrow> r = Returned (Inr ()))"
proof -
  obtain r1 ctx1 d1 where sc: "scan_indices E cb db (indices_of (db_mode db)) ctx (db_disk db) = (r1, ctx1, d1)"
    by (rule prod_cases3)
  have eq: "r1 = r" "ctx1 = ctx'" "db' = db\<lparr>db_disk := d1\<rparr>" using run sc by (simp_all add: scan_store_def)
  note ends = scan_indices_ends[OF sc]
  have whole: "\<exists>es. mset es = stored db \<and> deliver cb es ctx = (Goes_on, ctx')" if "r = Returned (Inr ())"
  proof -
    have "scan_indices E cb db (indices_of (db_mode db)) ctx (db_disk db) = (Returned (Inr ()), ctx', d1)"
      using sc eq that by simp
    from scan_indices_whole[OF this] scan_order_stored[OF inv] show ?thesis by (auto simp: delivered_def)
  qed
  have "\<forall>i \<in> set (indices_of (db_mode db)). serving E db i" using inv by (simp add: store_inv_def)
  then have calm: "r = Returned (Inr ())" if "\<forall>n. \<not> fails E n" "\<forall>c e. fst (cb c e) = Goes_on"
    using scan_indices_calm[OF that, of db "db_disk db" "indices_of (db_mode db)" ctx] sc eq(1) by auto
  show ?thesis using eq ends whole calm by simp
qed

theorem scan_complete_witness:
  "\<exists>ctx db'. scan_store calm_env (\<lambda>es e. (Goes_on, es @ [e])) [] (layered_store Full_mode example_value)
       = (Returned (Inr ()), ctx, db')
     \<and> mset ctx = stored (layered_store Full_mode example_value :: utxo_value database)"
proof -
  let ?cb = "\<lambda>es e. (Goes_on, es @ [e])" and ?db = "layered_store Full_mode example_value :: utxo_value database"
  have all: "deliver ?cb es c = (Goes_on, c @ es)" for es c :: "(raw_outpoint \<times> utxo_value) list"
    by (induction es arbitrary: c) simp_all
  obtain r ctx db' where run: "scan_store calm_env ?cb [] ?db = (r, ctx, db')" by (rule prod_cases3)
  note spec = scan_complete[OF layered_store_inv run]
  have "r = Returned (Inr ())" using spec by simp
  then show ?thesis using spec run by (auto simp: all)
qed

end
