(* ===== verification/Census.thy ===== *)
theory Census
  imports Containers Arithmetic Uniqueness
begin

text \<open>
  The census, \<open>src/census.cpp\<close> with the report of \<open>src/include/utxoz/census.hpp\<close> and
  \<open>src/detail/physical_size.hpp\<close> (POSIX branch): every version of every class is opened, every entry
  read, and the byte figures of a version are summed into its class and into the report. The three
  structures of the source repeat twelve fields; here they extend one record of figures.
\<close>

section \<open>The report\<close>

datatype metric_status = Measured | Not_applicable | Unavailable

record optional_bytes =
  ob_bytes :: u64
  ob_status :: metric_status
  ob_detail :: string

datatype allocation_method = Method_none | Posix_st_blocks | Windows_compressed_size

datatype snapshot_consistency = Live_database_exclusive | Not_verified

record census_figures =
  cf_entries :: u64
  cf_entry_payload_bytes :: u64
  cf_unused_payload_capacity :: optional_bytes
  cf_object_padding_bytes :: u64
  cf_segment_size_bytes :: u64
  cf_segment_free_bytes :: u64
  cf_logical_file_bytes :: u64
  cf_occupied_slot_bytes :: u64
  cf_empty_slot_bytes :: u64
  cf_estimated_group_metadata_bytes :: u64
  cf_unattributed_allocated_bytes :: optional_bytes
  cf_physical_allocated_bytes :: optional_bytes

record generation_census = census_figures +
  gc_generation :: u64
  gc_active :: bool
  gc_bucket_count :: u64
  gc_model_inconsistent :: bool

record payload_bucket =
  pb_payload_size :: u32
  pb_entries :: u64

record class_census = census_figures +
  cc_container_class :: u64
  cc_container_size :: u64
  cc_payload_capacity :: u64
  cc_value_size :: u64
  cc_pair_size :: u64
  cc_generations :: u64
  cc_active_generation :: u64
  cc_payload_histogram_status :: metric_status
  cc_payload_histogram :: "payload_bucket list"
  cc_generations_detail :: "generation_census list"

record census_options =
  co_measure_physical_blocks :: bool
  co_per_generation_detail :: bool
  co_declared_external_snapshot :: bool

record census_report = census_figures +
  cr_storage_mode :: storage_mode
  cr_declared_external_snapshot :: bool
  cr_consistency :: snapshot_consistency
  cr_geometry_id :: u32
  cr_map_layout_epoch :: u32
  cr_hash_epoch :: u32
  cr_platform_abi_id :: u32
  cr_statistics_enabled :: bool
  cr_duration_ms :: u64
  cr_files_examined :: u64
  cr_entries_examined :: u64
  cr_physical_measurement :: allocation_method
  cr_classes :: "class_census list"

text \<open>
  What the census asks of the segment manager (\<open>get_free_memory\<close>), of \<open>stat\<close> (\<open>st_blocks\<close>, none when
  the call fails) and of the build (\<open>UTXOZ_STATISTICS_LEVEL\<close>).
\<close>

record 'v gauges =
  seg_free :: "'v segment \<Rightarrow> u64"
  st_blocks :: "nat \<Rightarrow> string \<Rightarrow> u64 option"
  statistics_level :: nat

section \<open>Figures that may not exist\<close>

text \<open>How each figure was obtained, or why it could not be.\<close>

definition free_exceeds_size :: string where
  "free_exceeds_size = ''the segment reports more free bytes than it has''"
definition model_exceeds_allocation :: string where
  "model_exceeds_allocation = ''the modelled slot and metadata bytes came to more than the ''
     @ ''allocator handed out, so the model does not hold here''"
definition residual_of_allocation :: string where
  "residual_of_allocation = ''residual: allocated bytes minus the modelled slot and group metadata''"
definition mode_excludes :: string where
  "mode_excludes = ''does not apply in this mode''"
definition part_unmeasured :: string where
  "part_unmeasured = ''at least one part could not be measured: ''"
definition capacity_minus_use :: string where
  "capacity_minus_use = ''payload capacity of the class minus what each entry uses''"
definition no_capacity_to_leave :: string where
  "no_capacity_to_leave = ''a reference entry is a fixed record: there is no ''
     @ ''payload capacity to leave unused''"
definition fixed_record :: string where
  "fixed_record = ''a reference entry is a fixed record''"
definition over_generations :: string where
  "over_generations = ''summed over the generations of this class''"
definition over_classes :: string where
  "over_classes = ''summed over the classes''"
definition nobody_asked :: string where
  "nobody_asked = ''not requested''"
definition stat_failed :: string where
  "stat_failed = ''stat() failed''"
definition blocks_allocated :: string where
  "blocks_allocated = ''st_blocks x 512: blocks the filesystem allocated, so a sparse file ''
     @ ''reports less than its length''"

definition set_residual :: "u64 \<Rightarrow> u64 \<Rightarrow> u64 \<Rightarrow> optional_bytes \<times> bool" where
  "set_residual segment_size segment_free modelled =
    (if segment_free > segment_size then (\<lparr>ob_bytes = 0, ob_status = Unavailable, ob_detail = free_exceeds_size\<rparr>, True)
     else
      (let allocated = segment_size - segment_free
       in if modelled > allocated
          then (\<lparr>ob_bytes = 0, ob_status = Unavailable, ob_detail = model_exceeds_allocation\<rparr>, True)
          else (\<lparr>ob_bytes = allocated - modelled, ob_status = Measured, ob_detail = residual_of_allocation\<rparr>, False)))"

definition add_optional :: "optional_bytes \<Rightarrow> optional_bytes \<Rightarrow> string \<Rightarrow> optional_bytes" where
  "add_optional tot part what =
    (if ob_status tot = Unavailable then tot
     else if ob_status part = Measured \<and> (ob_status tot = Measured \<or> ob_bytes tot = 0)
     then \<lparr>ob_bytes = ob_bytes tot + ob_bytes part, ob_status = Measured, ob_detail = what\<rparr>
     else if ob_status part = Not_applicable \<and> ob_status tot = Not_applicable then tot
     else \<lparr>ob_bytes = 0, ob_status = ob_status part,
            ob_detail = (if ob_status part = Not_applicable then mode_excludes
                         else part_unmeasured @ ob_detail part)\<rparr>)"

section \<open>One version\<close>

text \<open>The loop over the entries: the payload bytes, the unused capacity and the dense histogram.\<close>

fun accumulate_entries ::
  "u64 \<Rightarrow> (raw_outpoint \<times> utxo_value) list \<Rightarrow> u64 \<times> u64 \<times> u64 list \<Rightarrow> (u64 \<times> u64 \<times> u64 list) result" where
  "accumulate_entries capacity [] acc = Inr acc"
| "accumulate_entries capacity (e # es) (payload, unused, histogram) =
    (let sz = word_of_nat (uv_actual_size (snd e))
     in case validate_payload_length sz capacity of
          Inl err \<Rightarrow> Inl err
        | Inr _ \<Rightarrow> accumulate_entries capacity es
            (payload + sz, unused + (capacity - sz),
             histogram[unat sz := histogram ! unat sz + 1]))"

definition accumulate_full ::
  "u64 \<Rightarrow> utxo_value flat_map \<Rightarrow> generation_census \<Rightarrow> u64 list \<Rightarrow> (generation_census \<times> u64 list) result" where
  "accumulate_full container_class m gen histogram =
    (let sz = container_sizes ! unat container_class;
         capacity = word_of_nat (data_capacity sz);
         padding = word_of_nat (sz - (4 + size_type_bits sz div 8 + data_capacity sz));
         gen = gen\<lparr>cf_entries := tbl_size m, gc_bucket_count := tbl_buckets m\<rparr>
     in case validate_generation_counts (cf_entries gen) (gc_bucket_count gen) of
          Inl e \<Rightarrow> Inl e
        | Inr _ \<Rightarrow>
          (case checked_mul (cf_entries gen) padding of
             None \<Rightarrow> Inl Entry_corrupt
           | Some object_padding \<Rightarrow>
             (case accumulate_entries capacity (tbl_entries m) (0, 0, histogram) of
                Inl e \<Rightarrow> Inl e
              | Inr (payload, unused, histogram) \<Rightarrow>
                (case checked_mul (cf_entries gen) capacity of
                   None \<Rightarrow> Inl Entry_corrupt
                 | Some _ \<Rightarrow>
                   Inr (gen\<lparr>cf_object_padding_bytes := object_padding, cf_entry_payload_bytes := payload,
                          cf_unused_payload_capacity :=
                            \<lparr>ob_bytes = unused, ob_status = Measured, ob_detail = capacity_minus_use\<rparr>\<rparr>,
                        histogram)))))"

text \<open>A reference value is three 32-bit fields, 12 bytes without padding.\<close>

definition size_of_reference_value :: u64 where "size_of_reference_value = 12"

definition accumulate_reference ::
  "reference_value flat_map \<Rightarrow> generation_census \<Rightarrow> generation_census result" where
  "accumulate_reference m gen =
    (let gen = gen\<lparr>cf_entries := tbl_size m, gc_bucket_count := tbl_buckets m\<rparr>
     in case validate_generation_counts (cf_entries gen) (gc_bucket_count gen) of
          Inl e \<Rightarrow> Inl e
        | Inr _ \<Rightarrow>
          (case checked_mul (cf_entries gen) size_of_reference_value of
             None \<Rightarrow> Inl Entry_corrupt
           | Some payload \<Rightarrow>
             (case checked_mul (cf_entries gen) (size_of_reference_value - 3 * 4) of
                None \<Rightarrow> Inl Entry_corrupt
              | Some padding \<Rightarrow>
                Inr (gen\<lparr>cf_entry_payload_bytes := payload, cf_object_padding_bytes := padding,
                       cf_unused_payload_capacity :=
                         \<lparr>ob_bytes = 0, ob_status = Not_applicable, ob_detail = no_capacity_to_leave\<rparr>\<rparr>))))"

definition finish_generation :: "u64 \<Rightarrow> generation_census \<Rightarrow> generation_census result" where
  "finish_generation pair_size gen =
    (case validate_generation_counts (cf_entries gen) (gc_bucket_count gen) of
       Inl e \<Rightarrow> Inl e
     | Inr _ \<Rightarrow>
       (case checked_mul (cf_entries gen) pair_size of
          None \<Rightarrow> Inl Entry_corrupt
        | Some occupied \<Rightarrow>
          (case checked_mul (gc_bucket_count gen - cf_entries gen) pair_size of
             None \<Rightarrow> Inl Entry_corrupt
           | Some vacant \<Rightarrow>
             (case group_metadata_model (gc_bucket_count gen) of
                None \<Rightarrow> Inl Entry_corrupt
              | Some metadata \<Rightarrow>
                (case summing (summing (True, occupied) vacant) metadata of
                   (False, _) \<Rightarrow> Inl Entry_corrupt
                 | (True, modelled) \<Rightarrow>
                   (case set_residual (cf_segment_size_bytes gen) (cf_segment_free_bytes gen) modelled of
                      (residual, inconsistent) \<Rightarrow>
                        Inr (gen\<lparr>cf_occupied_slot_bytes := occupied, cf_empty_slot_bytes := vacant,
                               cf_estimated_group_metadata_bytes := metadata,
                               cf_unattributed_allocated_bytes := residual,
                               gc_model_inconsistent := gc_model_inconsistent gen \<or> inconsistent\<rparr>)))))))"

section \<open>Sums\<close>

text \<open>
  \<open>fold_into_class\<close> and \<open>fold_into_report\<close>: nine checked additions that share one flag, then three
  figures that may not exist. Nothing is kept of a total whose flag is down.
\<close>

definition fold_figures ::
  "string \<Rightarrow> 'a census_figures_scheme \<Rightarrow> 'b census_figures_scheme \<Rightarrow> 'a census_figures_scheme option" where
  "fold_figures what tot part =
    (let (ok, entries) = summing (True, cf_entries tot) (cf_entries part);
         (ok, payload) = summing (ok, cf_entry_payload_bytes tot) (cf_entry_payload_bytes part);
         (ok, padding) = summing (ok, cf_object_padding_bytes tot) (cf_object_padding_bytes part);
         (ok, seg) = summing (ok, cf_segment_size_bytes tot) (cf_segment_size_bytes part);
         (ok, free) = summing (ok, cf_segment_free_bytes tot) (cf_segment_free_bytes part);
         (ok, logical) = summing (ok, cf_logical_file_bytes tot) (cf_logical_file_bytes part);
         (ok, occupied) = summing (ok, cf_occupied_slot_bytes tot) (cf_occupied_slot_bytes part);
         (ok, vacant) = summing (ok, cf_empty_slot_bytes tot) (cf_empty_slot_bytes part);
         (ok, metadata) = summing (ok, cf_estimated_group_metadata_bytes tot) (cf_estimated_group_metadata_bytes part)
     in if \<not> ok then None
        else Some (tot\<lparr>cf_entries := entries, cf_entry_payload_bytes := payload,
               cf_object_padding_bytes := padding, cf_segment_size_bytes := seg,
               cf_segment_free_bytes := free, cf_logical_file_bytes := logical,
               cf_occupied_slot_bytes := occupied, cf_empty_slot_bytes := vacant,
               cf_estimated_group_metadata_bytes := metadata,
               cf_unused_payload_capacity :=
                 add_optional (cf_unused_payload_capacity tot) (cf_unused_payload_capacity part) what,
               cf_unattributed_allocated_bytes :=
                 add_optional (cf_unattributed_allocated_bytes tot) (cf_unattributed_allocated_bytes part) what,
               cf_physical_allocated_bytes :=
                 add_optional (cf_physical_allocated_bytes tot) (cf_physical_allocated_bytes part) what\<rparr>))"

definition fold_into_class :: "class_census \<Rightarrow> generation_census \<Rightarrow> class_census option" where
  "fold_into_class cls gen = fold_figures over_generations cls gen"

definition fold_into_report :: "census_report \<Rightarrow> class_census \<Rightarrow> census_report option" where
  "fold_into_report report cls = fold_figures over_classes report cls"

definition compact_histogram :: "u64 list \<Rightarrow> payload_bucket list" where
  "compact_histogram dense =
    map (\<lambda>i. \<lparr>pb_payload_size = word_of_nat i, pb_entries = dense ! i\<rparr>)
      (filter (\<lambda>i. dense ! i \<noteq> 0) [0..<length dense])"

section \<open>The walk\<close>

definition not_requested :: optional_bytes where
  "not_requested = \<lparr>ob_bytes = 0, ob_status = Not_applicable, ob_detail = nobody_asked\<rparr>"

definition measured_zero :: "string \<Rightarrow> optional_bytes" where
  "measured_zero what = \<lparr>ob_bytes = 0, ob_status = Measured, ob_detail = what\<rparr>"

text \<open>The value of an \<open>optional_bytes\<close> before anything is stored in it.\<close>

definition not_measured :: optional_bytes where
  "not_measured = \<lparr>ob_bytes = 0, ob_status = Unavailable, ob_detail = []\<rparr>"

definition physical_allocation_of :: "'v gauges \<Rightarrow> string \<Rightarrow> 'v disk \<Rightarrow> optional_bytes \<times> 'v disk" where
  "physical_allocation_of G path d =
    (case st_blocks G (ticks d) path of
       None \<Rightarrow> (\<lparr>ob_bytes = 0, ob_status = Unavailable, ob_detail = stat_failed\<rparr>, tick d)
     | Some blocks \<Rightarrow>
         (\<lparr>ob_bytes = blocks * 512, ob_status = Measured, ob_detail = blocks_allocated\<rparr>, tick d))"

definition physical_allocation_method :: allocation_method where
  "physical_allocation_method = Posix_st_blocks"

text \<open>\<open>fs::file_size\<close>, which fails on what is not a regular file.\<close>

definition file_size :: "'v env \<Rightarrow> string \<Rightarrow> 'v disk \<Rightarrow> u64 option \<times> 'v disk" where
  "file_size E path d =
    (if fails E (ticks d) then (None, tick d)
     else (case lookup_file d path of
             Some (Segment s) \<Rightarrow> Some (seg_size s)
           | Some (Plain bs) \<Rightarrow> Some (word_of_nat (length bs))
           | _ \<Rightarrow> None, tick d))"

definition empty_generation :: generation_census where
  "empty_generation =
     \<lparr>cf_entries = 0, cf_entry_payload_bytes = 0, cf_unused_payload_capacity = not_measured,
      cf_object_padding_bytes = 0, cf_segment_size_bytes = 0, cf_segment_free_bytes = 0,
      cf_logical_file_bytes = 0, cf_occupied_slot_bytes = 0, cf_empty_slot_bytes = 0,
      cf_estimated_group_metadata_bytes = 0, cf_unattributed_allocated_bytes = not_measured,
      cf_physical_allocated_bytes = not_measured, gc_generation = 0, gc_active = False,
      gc_bucket_count = 0, gc_model_inconsistent = False\<rparr>"

definition file_facts ::
  "'v env \<Rightarrow> 'v gauges \<Rightarrow> census_options \<Rightarrow> string \<Rightarrow> generation_census \<Rightarrow> 'v disk
   \<Rightarrow> generation_census result \<times> 'v disk" where
  "file_facts E G options path gen d =
    (case file_size E path d of
       (None, d) \<Rightarrow> (Inl File_open_failed, d)
     | (Some sz, d) \<Rightarrow>
       (case (if co_measure_physical_blocks options then physical_allocation_of G path d
              else (not_requested, d)) of
          (blocks, d) \<Rightarrow>
            (Inr (gen\<lparr>cf_logical_file_bytes := sz, cf_physical_allocated_bytes := blocks\<rparr>), d)))"

text \<open>
  The segment a version is read from: the one that is mapped, when the version is the active one,
  and otherwise the file, opened and checked as an ordinary open does.
\<close>

definition census_segment ::
  "'v env \<Rightarrow> 'v database \<Rightarrow> u64 \<Rightarrow> u64 \<Rightarrow> 'v disk \<Rightarrow> ('v segment \<times> 'v flat_map) result \<times> 'v disk" where
  "census_segment E db i version d =
    (if version = db_current_versions db i \<and> db_mapped db i
     then (case lookup_file d (data_path i version) of
             Some (Segment s) \<Rightarrow> (Inr (s, container db i), d)
           | _ \<Rightarrow> (Inl File_open_failed, d))
     else
      (case open_existing_segment E (data_path i version) d of
         (Inl e, d) \<Rightarrow> (Inl e, d)
       | (Inr s, d) \<Rightarrow>
         (case validate_stamp (seg_stamp s) (expected_identity E db i version) of
            Inl e \<Rightarrow> (Inl e, d)
          | Inr _ \<Rightarrow>
            (case find_single_named (seg_map s) of
               Inl e \<Rightarrow> (Inl e, d)
             | Inr m \<Rightarrow> (Inr (s, m), d)))))"

text \<open>
  One round of the loop over the versions. The accumulator is the one of the class: its histogram
  comes and goes with it.
\<close>

type_synonym 'v accumulator =
  "'v flat_map \<Rightarrow> generation_census \<Rightarrow> u64 list \<Rightarrow> (generation_census \<times> u64 list) result"

definition census_generation ::
  "'v env \<Rightarrow> 'v gauges \<Rightarrow> census_options \<Rightarrow> 'v accumulator \<Rightarrow> 'v database \<Rightarrow> u64 \<Rightarrow> u64 \<Rightarrow> u64
   \<Rightarrow> u64 list \<Rightarrow> 'v disk \<Rightarrow> (generation_census \<times> u64 list) result \<times> 'v disk" where
  "census_generation E G options accumulate db i pair_size version histogram d =
    (let gen = empty_generation\<lparr>gc_generation := version,
           gc_active := (version = db_current_versions db i)\<rparr>;
         path = data_path i version
     in case file_facts E G options path gen d of
          (Inl e, d) \<Rightarrow> (Inl e, d)
        | (Inr gen, d) \<Rightarrow>
          (case census_segment E db i version d of
             (Inl e, d) \<Rightarrow> (Inl e, d)
           | (Inr (s, m), d) \<Rightarrow>
             (case accumulate m gen histogram of
                Inl e \<Rightarrow> (Inl e, d)
              | Inr (gen, histogram) \<Rightarrow>
                (let gen = gen\<lparr>cf_segment_size_bytes := seg_size s, cf_segment_free_bytes := seg_free G s\<rparr>
                 in case finish_generation pair_size gen of
                      Inl e \<Rightarrow> (Inl e, d)
                    | Inr gen \<Rightarrow> (Inr (gen, histogram), d)))))"

fun census_generations ::
  "'v env \<Rightarrow> 'v gauges \<Rightarrow> census_options \<Rightarrow> 'v accumulator \<Rightarrow> 'v database \<Rightarrow> u64 \<Rightarrow> u64 list
   \<Rightarrow> class_census \<times> census_report \<times> u64 list \<Rightarrow> 'v disk
   \<Rightarrow> (class_census \<times> census_report \<times> u64 list) result \<times> 'v disk" where
  "census_generations E G options accumulate db i [] w d = (Inr w, d)"
| "census_generations E G options accumulate db i (version # rest) (cls, report, histogram) d =
    (case census_generation E G options accumulate db i (cc_pair_size cls) version histogram d of
       (Inl e, d) \<Rightarrow> (Inl e, d)
     | (Inr (gen, histogram), d) \<Rightarrow>
       (let report = report\<lparr>cr_files_examined := cr_files_examined report + 1\<rparr>;
            cls = cls\<lparr>cc_generations := cc_generations cls + 1\<rparr>
        in case checked_add (cr_entries_examined report) (cf_entries gen) of
             None \<Rightarrow> (Inl Entry_corrupt, d)
           | Some examined \<Rightarrow>
             (case fold_into_class cls gen of
                None \<Rightarrow> (Inl Entry_corrupt, d)
              | Some cls \<Rightarrow>
                census_generations E G options accumulate db i rest
                  ((if co_per_generation_detail options
                    then cls\<lparr>cc_generations_detail := cc_generations_detail cls @ [gen]\<rparr> else cls),
                   report\<lparr>cr_entries_examined := examined\<rparr>, histogram) d)))"

definition empty_class :: "census_options \<Rightarrow> u64 \<Rightarrow> class_census" where
  "empty_class options active =
     \<lparr>cf_entries = 0, cf_entry_payload_bytes = 0, cf_unused_payload_capacity = measured_zero over_generations,
      cf_object_padding_bytes = 0, cf_segment_size_bytes = 0, cf_segment_free_bytes = 0,
      cf_logical_file_bytes = 0, cf_occupied_slot_bytes = 0, cf_empty_slot_bytes = 0,
      cf_estimated_group_metadata_bytes = 0, cf_unattributed_allocated_bytes = measured_zero over_generations,
      cf_physical_allocated_bytes =
        (if co_measure_physical_blocks options then measured_zero over_generations else not_requested),
      cc_container_class = 0, cc_container_size = 0, cc_payload_capacity = 0, cc_value_size = 0,
      cc_pair_size = 0, cc_generations = 0, cc_active_generation = active,
      cc_payload_histogram_status = Measured, cc_payload_histogram = [], cc_generations_detail = []\<rparr>"

definition full_class :: "census_options \<Rightarrow> 'v database \<Rightarrow> u64 \<Rightarrow> class_census" where
  "full_class options db i =
    (let sz = container_sizes ! unat i
     in (empty_class options (db_current_versions db i))
          \<lparr>cc_container_class := i, cc_container_size := word_of_nat sz,
           cc_payload_capacity := word_of_nat (data_capacity sz), cc_value_size := word_of_nat sz,
           cc_pair_size := entry_size i\<rparr>)"

definition reference_class_census :: "census_options \<Rightarrow> 'v database \<Rightarrow> class_census" where
  "reference_class_census options db =
     (empty_class options (db_current_versions db reference_sentinel_index))
       \<lparr>cc_value_size := size_of_reference_value, cc_pair_size := entry_size reference_sentinel_index,
        cc_payload_histogram_status := Not_applicable,
        cf_unused_payload_capacity :=
          \<lparr>ob_bytes = 0, ob_status = Not_applicable, ob_detail = fixed_record\<rparr>\<rparr>"

definition empty_report :: "'v env \<Rightarrow> 'v gauges \<Rightarrow> census_options \<Rightarrow> storage_mode \<Rightarrow> census_report" where
  "empty_report E G options mode =
     \<lparr>cf_entries = 0, cf_entry_payload_bytes = 0, cf_unused_payload_capacity = measured_zero over_classes,
      cf_object_padding_bytes = 0, cf_segment_size_bytes = 0, cf_segment_free_bytes = 0,
      cf_logical_file_bytes = 0, cf_occupied_slot_bytes = 0, cf_empty_slot_bytes = 0,
      cf_estimated_group_metadata_bytes = 0, cf_unattributed_allocated_bytes = measured_zero over_classes,
      cf_physical_allocated_bytes =
        (if co_measure_physical_blocks options then measured_zero over_classes else not_requested),
      cr_storage_mode = mode, cr_declared_external_snapshot = co_declared_external_snapshot options,
      cr_consistency = (if co_declared_external_snapshot options then Not_verified else Live_database_exclusive),
      cr_geometry_id = geometry_id, cr_map_layout_epoch = map_layout_epoch, cr_hash_epoch = hash_epoch,
      cr_platform_abi_id = platform_abi_id (local_build E), cr_statistics_enabled = (statistics_level G \<ge> 1),
      cr_duration_ms = 0, cr_files_examined = 0, cr_entries_examined = 0,
      cr_physical_measurement =
        (if co_measure_physical_blocks options then physical_allocation_method else Method_none),
      cr_classes = []\<rparr>"

text \<open>\<open>walk_class\<close> of full mode, and the fold over the classes that stops at the first failure.\<close>

definition census_class ::
  "utxo_value env \<Rightarrow> utxo_value gauges \<Rightarrow> census_options \<Rightarrow> utxo_value database \<Rightarrow> u64 \<Rightarrow> census_report
   \<Rightarrow> utxo_value disk \<Rightarrow> census_report result \<times> utxo_value disk" where
  "census_class E G options db i report d =
    (let cls = full_class options db i;
         histogram = replicate (unat (cc_payload_capacity cls + 1)) 0
     in case census_generations E G options (accumulate_full i) db i (vc_versions (db_catalogs db i))
              (cls, report, histogram) d of
          (Inl e, d) \<Rightarrow> (Inl e, d)
        | (Inr (cls, report, histogram), d) \<Rightarrow>
          (let cls = cls\<lparr>cc_payload_histogram := compact_histogram histogram\<rparr>
           in case fold_into_report report cls of
                None \<Rightarrow> (Inl Entry_corrupt, d)
              | Some report \<Rightarrow> (Inr (report\<lparr>cr_classes := cr_classes report @ [cls]\<rparr>), d)))"

fun census_classes ::
  "utxo_value env \<Rightarrow> utxo_value gauges \<Rightarrow> census_options \<Rightarrow> utxo_value database \<Rightarrow> u64 list
   \<Rightarrow> census_report \<Rightarrow> utxo_value disk \<Rightarrow> census_report result \<times> utxo_value disk" where
  "census_classes E G options db [] report d = (Inr report, d)"
| "census_classes E G options db (i # is) report d =
    (case census_class E G options db i report d of
       (Inl e, d) \<Rightarrow> (Inl e, d)
     | (Inr report, d) \<Rightarrow> census_classes E G options db is report d)"

definition full_census ::
  "utxo_value env \<Rightarrow> utxo_value gauges \<Rightarrow> census_options \<Rightarrow> utxo_value database
   \<Rightarrow> census_report result \<times> utxo_value database" where
  "full_census E G options db =
    (case census_classes E G options db full_indices (empty_report E G options Full_mode) (db_disk db) of
       (Inl e, d) \<Rightarrow> (Inl e, db\<lparr>db_disk := d\<rparr>)
     | (Inr report, d) \<Rightarrow>
         (Inr (report\<lparr>cr_duration_ms := elapsed_ms E (db_disk db) d\<rparr>), db\<lparr>db_disk := tick d\<rparr>))"

definition reference_accumulate :: "reference_value accumulator" where
  "reference_accumulate m gen histogram = map_sum id (\<lambda>gen. (gen, histogram)) (accumulate_reference m gen)"

definition reference_census ::
  "reference_value env \<Rightarrow> reference_value gauges \<Rightarrow> census_options \<Rightarrow> reference_value database
   \<Rightarrow> census_report result \<times> reference_value database" where
  "reference_census E G options db =
    (case census_generations E G options reference_accumulate db reference_sentinel_index
            (vc_versions (db_catalogs db reference_sentinel_index))
            (reference_class_census options db, empty_report E G options Reference_mode, []) (db_disk db) of
       (Inl e, d) \<Rightarrow> (Inl e, db\<lparr>db_disk := d\<rparr>)
     | (Inr (cls, report, _), d) \<Rightarrow>
       (case fold_into_report report cls of
          None \<Rightarrow> (Inl Entry_corrupt, db\<lparr>db_disk := d\<rparr>)
        | Some report \<Rightarrow>
            (Inr (report\<lparr>cr_classes := cr_classes report @ [cls],
                    cr_duration_ms := elapsed_ms E (db_disk db) d\<rparr>), db\<lparr>db_disk := tick d\<rparr>)))"

end
