(* ===== verification/Interface.thy ===== *)
theory Interface
  imports Opening Inserting Compact_All Syncing Scanning Uniqueness Census
begin

text \<open>
  The public interface, \<open>src/database.cpp\<close>: \<open>db_base\<close>, \<open>full_db\<close> and \<open>reference_db\<close> as handles on a
  database, and the gates every call passes before it reaches \<open>database_impl\<close>
  (\<open>src/detail/database_impl.hpp\<close>). A closed handle keeps the directory it left behind; the source
  has a null \<open>impl_\<close> there. Making a handle is in theory \<open>Opening\<close>.
\<close>

section \<open>Gates\<close>

definition refuse_if_recovery_pending :: "'v database \<Rightarrow> unit result" where
  "refuse_if_recovery_pending db = (if db_cleanup_pending db then Inl Recovery_required else Inr ())"

definition refuse_if_integrity_latched :: "'v database \<Rightarrow> unit result" where
  "refuse_if_integrity_latched db =
    (case db_integrity_latched db of Some e \<Rightarrow> Inl e | None \<Rightarrow> Inr ())"

definition refuse_if_unusable :: "'v database \<Rightarrow> unit result" where
  "refuse_if_unusable db =
    (case refuse_if_integrity_latched db of
       Inl e \<Rightarrow> Inl e
     | Inr _ \<Rightarrow> refuse_if_recovery_pending db)"

definition refuse_if_inspection_only :: "'v database \<Rightarrow> unit result" where
  "refuse_if_inspection_only db = (if db_inspection_only db then Inl Inspection_only else Inr ())"

section \<open>Handles\<close>

datatype 'v handle = Shut "'v disk" | Live "'v database"

text \<open>The sequence of gates most calls share, and the one of \<open>sync\<close>.\<close>

definition gate_for_use :: "'v database \<Rightarrow> unit result" where
  "gate_for_use db =
    (case refuse_if_unusable db of Inl e \<Rightarrow> Inl e | Inr _ \<Rightarrow> refuse_if_inspection_only db)"

definition gate_for_sync :: "'v database \<Rightarrow> unit result" where
  "gate_for_sync db =
    (case refuse_if_integrity_latched db of Inl e \<Rightarrow> Inl e | Inr _ \<Rightarrow> refuse_if_inspection_only db)"

definition gate_for_verdict :: "'v database \<Rightarrow> unit result" where
  "gate_for_verdict db =
    (case refuse_if_integrity_latched db of Inl e \<Rightarrow> Inl e | Inr _ \<Rightarrow> refuse_if_recovery_pending db)"

definition through ::
  "('v database \<Rightarrow> unit result) \<Rightarrow> ('v database \<Rightarrow> 'a result \<times> 'v database) \<Rightarrow> 'v handle
   \<Rightarrow> 'a result \<times> 'v handle" where
  "through gate operation h =
    (case h of
       Shut d \<Rightarrow> (Inl Closed, Shut d)
     | Live db \<Rightarrow>
         (case gate db of
            Inl e \<Rightarrow> (Inl e, Live db)
          | Inr _ \<Rightarrow> (case operation db of (r, db) \<Rightarrow> (r, Live db))))"

section \<open>db\_base\<close>

definition base_close :: "'v env \<Rightarrow> 'v handle \<Rightarrow> 'v handle" where
  "base_close E h =
    (case h of Shut d \<Rightarrow> Shut d | Live db \<Rightarrow> Shut (db_disk (close_database E db)))"

definition base_size :: "'v handle \<Rightarrow> u64" where
  "base_size h = (case h of Shut _ \<Rightarrow> 0 | Live db \<Rightarrow> database_size db)"

definition base_apply_deletes ::
  "'v env \<Rightarrow> deferred_deletion_entry list \<Rightarrow> 'v handle \<Rightarrow> deletion_progress \<times> 'v handle" where
  "base_apply_deletes E requests h =
    (case h of
       Shut d \<Rightarrow> (refuse_deletions requests Closed, Shut d)
     | Live db \<Rightarrow>
         (case refuse_if_unusable db of
            Inl e \<Rightarrow> (refuse_deletions requests e, Live db)
          | Inr _ \<Rightarrow>
              (case refuse_if_inspection_only db of
                 Inl _ \<Rightarrow> (refuse_deletions requests Inspection_only, Live db)
               | Inr _ \<Rightarrow> (case apply_deletes E requests db of (p, db) \<Rightarrow> (p, Live db)))))"

datatype durability_level = Durability_full | Contents_only | Durability_none

definition platform_durability :: "sync_support \<Rightarrow> durability_level" where
  "platform_durability support =
    (case support of
       Sync_full \<Rightarrow> Durability_full
     | Sync_file_only \<Rightarrow> Contents_only
     | Sync_none \<Rightarrow> Durability_none)"

definition base_sync :: "'v env \<Rightarrow> 'v handle \<Rightarrow> unit result \<times> 'v handle" where
  "base_sync E = through gate_for_sync (sync_database E)"

definition base_compact_all :: "'v env \<Rightarrow> ('v \<Rightarrow> u32) \<Rightarrow> 'v handle \<Rightarrow> unit result \<times> 'v handle" where
  "base_compact_all E height_of = through gate_for_use (compact_all E height_of)"

definition base_verify_unique_outpoints ::
  "'v env \<Rightarrow> verify_options \<Rightarrow> 'v handle \<Rightarrow> uniqueness_report result \<times> 'v handle" where
  "base_verify_unique_outpoints E options = through gate_for_verdict (verify_unique_outpoints E options)"

text \<open>\<open>db_base::census\<close> of the two modes: a store that waits for recovery may be counted.\<close>

definition full_db_census ::
  "utxo_value env \<Rightarrow> utxo_value gauges \<Rightarrow> census_options \<Rightarrow> utxo_value handle
   \<Rightarrow> census_report result \<times> utxo_value handle" where
  "full_db_census E G options = through refuse_if_integrity_latched (full_census E G options)"

definition reference_db_census ::
  "reference_value env \<Rightarrow> reference_value gauges \<Rightarrow> census_options \<Rightarrow> reference_value handle
   \<Rightarrow> census_report result \<times> reference_value handle" where
  "reference_db_census E G options = through refuse_if_integrity_latched (reference_census E G options)"

text \<open>A scan also gives back the caller's context, and an exception of the callback leaves it.\<close>

definition scanning ::
  "('v database \<Rightarrow> unit call \<times> 'c \<times> 'v database) \<Rightarrow> 'c \<Rightarrow> 'v handle \<Rightarrow> unit call \<times> 'c \<times> 'v handle" where
  "scanning scan ctx h =
    (case h of
       Shut d \<Rightarrow> (Returned (Inl Closed), ctx, Shut d)
     | Live db \<Rightarrow>
         (case gate_for_use db of
            Inl e \<Rightarrow> (Returned (Inl e), ctx, Live db)
          | Inr _ \<Rightarrow> (case scan db of (r, ctx, db) \<Rightarrow> (r, ctx, Live db))))"

definition base_for_each_key ::
  "'v env \<Rightarrow> ('c \<Rightarrow> raw_outpoint \<Rightarrow> ending \<times> 'c) \<Rightarrow> 'c \<Rightarrow> 'v handle \<Rightarrow> unit call \<times> 'c \<times> 'v handle" where
  "base_for_each_key E cb ctx = scanning (for_each_key_impl E cb ctx) ctx"

section \<open>full\_db\<close>

definition full_db_insert ::
  "utxo_value env \<Rightarrow> raw_outpoint \<Rightarrow> bytes \<Rightarrow> u32 \<Rightarrow> utxo_value handle \<Rightarrow> bool result \<times> utxo_value handle" where
  "full_db_insert E key value height = through gate_for_use (full_insert E key value height)"

definition full_db_find ::
  "raw_outpoint \<Rightarrow> utxo_value handle \<Rightarrow> full_find_result result \<times> utxo_value handle" where
  "full_db_find key = through gate_for_use
     (\<lambda>db. (case full_find db key of None \<Rightarrow> Inl Not_resolved | Some r \<Rightarrow> Inr r, db))"

definition full_db_resolve ::
  "utxo_value env \<Rightarrow> lookup_request list \<Rightarrow> utxo_value handle
   \<Rightarrow> full_find_result resolution result \<times> utxo_value handle" where
  "full_db_resolve E requests = through gate_for_use (full_resolve E requests)"

definition full_db_for_each_entry ::
  "utxo_value env \<Rightarrow> ('c \<Rightarrow> raw_outpoint \<times> u32 \<times> bytes \<Rightarrow> ending \<times> 'c) \<Rightarrow> 'c \<Rightarrow> utxo_value handle
   \<Rightarrow> unit call \<times> 'c \<times> utxo_value handle" where
  "full_db_for_each_entry E cb ctx = scanning (for_each_entry_impl E cb ctx) ctx"

section \<open>reference\_db\<close>

definition reference_db_insert ::
  "reference_value env \<Rightarrow> raw_outpoint \<Rightarrow> u32 \<Rightarrow> u32 \<Rightarrow> u32 \<Rightarrow> reference_value handle
   \<Rightarrow> bool result \<times> reference_value handle" where
  "reference_db_insert E key file_number offset height =
     through gate_for_use (reference_insert_typed E key height file_number offset)"

definition reference_db_find ::
  "raw_outpoint \<Rightarrow> reference_value handle \<Rightarrow> reference_find_result result \<times> reference_value handle" where
  "reference_db_find key = through gate_for_use
     (\<lambda>db. (case reference_find_typed db key of None \<Rightarrow> Inl Not_resolved | Some r \<Rightarrow> Inr r, db))"

definition reference_db_resolve ::
  "reference_value env \<Rightarrow> lookup_request list \<Rightarrow> reference_value handle
   \<Rightarrow> reference_find_result resolution result \<times> reference_value handle" where
  "reference_db_resolve E requests = through gate_for_use (reference_resolve E requests)"

definition reference_db_for_each_entry ::
  "reference_value env \<Rightarrow> ('c \<Rightarrow> raw_outpoint \<times> u32 \<times> u32 \<times> u32 \<Rightarrow> ending \<times> 'c) \<Rightarrow> 'c
   \<Rightarrow> reference_value handle \<Rightarrow> unit call \<times> 'c \<times> reference_value handle" where
  "reference_db_for_each_entry E cb ctx = scanning (reference_for_each_entry_typed E cb ctx) ctx"

section \<open>Facts\<close>

text \<open>What a handle refuses, and with which error: the first of the three that applies.\<close>

lemma gate_for_use_open:
  "gate_for_use db = Inr () \<longleftrightarrow>
     db_integrity_latched db = None \<and> \<not> db_cleanup_pending db \<and> \<not> db_inspection_only db"
  by (simp add: gate_for_use_def refuse_if_unusable_def refuse_if_integrity_latched_def
      refuse_if_recovery_pending_def refuse_if_inspection_only_def split: option.splits)

lemma through_open:
  "gate db = Inr () \<Longrightarrow> through gate f (Live db) = (case f db of (r, db') \<Rightarrow> (r, Live db'))"
  by (simp add: through_def)

lemma through_refused: "gate db = Inl e \<Longrightarrow> through gate f (Live db) = (Inl e, Live db)"
  by (simp add: through_def)

lemma through_shut: "through gate f (Shut d) = (Inl Closed, Shut d)"
  by (simp add: through_def)

end
