(* ===== verification/Session_Frames.thy ===== *)
theory Session_Frames
  imports Interface Deleting Resolving
begin

text \<open>
  What the operations of a session leave alone besides the entries: no insertion, lookup or deletion
  makes a merge record, and only a failed rotation or a map that broke its guarantee latches the
  instance.
\<close>

section \<open>Merge records\<close>

definition same_records :: "'v disk \<Rightarrow> 'v disk \<Rightarrow> bool" where
  "same_records d d' \<longleftrightarrow> (\<forall>i v. lookup_file d' (sidecar_path i v) = lookup_file d (sidecar_path i v))"

lemma same_records_refl [simp]: "same_records d d"
  by (simp add: same_records_def)

lemma same_records_trans: "same_records a b \<Longrightarrow> same_records b c \<Longrightarrow> same_records a c"
  by (simp add: same_records_def)

lemma same_records_tick [simp]: "same_records d (tick d') = same_records d d'" "same_records (tick d) d' = same_records d d'"
  by (simp_all add: same_records_def)

lemma same_records_touches: "touches P d d' \<Longrightarrow> (\<And>i v. sidecar_path i v \<notin> P) \<Longrightarrow> same_records d d'"
  by (simp add: same_records_def touches_lookup)

lemma same_records_same: "same_disk d d' \<Longrightarrow> same_records d d'"
  by (simp add: same_records_def same_disk_lookup)

lemma same_records_set_generation [simp]: "same_records d (set_generation i v t d') = same_records d d'"
  by (simp add: same_records_def lookup_set_generation)

lemma set_container_disk: "db_disk (set_container i t db) = set_generation i (db_current_versions db i) t (db_disk db)"
  by (simp add: set_container_def)

section \<open>Insertion\<close>

text \<open>
  No version is forgotten, no record made, and the instance is latched only on the way to one of
  two errors.
\<close>

definition more_versions :: "'v database \<Rightarrow> 'v database \<Rightarrow> bool" where
  "more_versions db db' \<longleftrightarrow>
     (\<forall>i. set (vc_versions (db_catalogs db i)) \<subseteq> set (vc_versions (db_catalogs db' i)))"

lemma more_versions_refl [simp]: "more_versions db db"
  by (simp add: more_versions_def)

lemma more_versions_trans: "more_versions a b \<Longrightarrow> more_versions b c \<Longrightarrow> more_versions a c"
  by (fastforce simp: more_versions_def)

lemma more_versions_update [simp]:
  "more_versions db (db'\<lparr>db_rotation_causes := c\<rparr>) = more_versions db db'"
  "more_versions db (db'\<lparr>db_rotation_causes := c, db_integrity_latched := l\<rparr>) = more_versions db db'"
  by (simp_all add: more_versions_def)

lemma more_versions_same: "db_catalogs db' = db_catalogs db \<Longrightarrow> more_versions db db'"
  by (simp add: more_versions_def)

definition inserts_frame :: "'v database \<Rightarrow> 'a result \<Rightarrow> 'v database \<Rightarrow> bool" where
  "inserts_frame db r db' \<longleftrightarrow> same_records (db_disk db) (db_disk db') \<and> more_versions db db'
     \<and> (db_integrity_latched db' = db_integrity_latched db \<or> r = Inl File_open_failed \<or> r = Inl Entry_corrupt)"

lemma catalog_add_superset: "set (vc_versions c) \<subseteq> set (vc_versions (catalog_add v c))"
proof -
  have "set (lower_part v (vc_versions c)) \<union> set (upper_part v (vc_versions c)) = set (vc_versions c)"
    using arg_cong[OF split_at[of v "vc_versions c"], of set] by simp
  then show ?thesis by (auto simp: catalog_add_def Let_def)
qed

lemma new_version_frame:
  assumes "new_version E i db = (b, db')"
  shows "same_records (db_disk db) (db_disk db')" "db_integrity_latched db' = db_integrity_latched db"
    and "more_versions db db'"
proof -
  let ?n = "note_dirty i (db_current_versions db i) db"
  have n: "db_disk ?n = db_disk db" "db_integrity_latched ?n = db_integrity_latched db"
    "db_catalogs ?n = db_catalogs db"
    by (simp_all add: note_dirty_def)
  obtain d where cl: "close_container E i ?n = ?n\<lparr>db_disk := d, db_mapped := (db_mapped ?n)(i := False)\<rparr>"
    and t: "touches {metadata_path i (db_current_versions ?n i), tmp_path (metadata_path i (db_current_versions ?n i))}
      (db_disk ?n) d"
    by (rule close_container_spec)
  have one: "same_records (db_disk db) d" using same_records_touches[OF t] n(1) by simp
  let ?c = "?n\<lparr>db_disk := d, db_mapped := (db_mapped ?n)(i := False)\<rparr>"
  obtain r db2 where cr: "create_container E i (next_version (db_catalogs ?c i)) ?c = (r, db2)" by fastforce
  have "same_records d (db_disk db2)"
    using same_records_touches[OF create_container_touches[OF cr]] by simp
  then have two: "same_records (db_disk db) (db_disk db2)" by (rule same_records_trans[OF one])
  have "db_integrity_latched db2 = db_integrity_latched ?c \<and> db_catalogs db2 = db_catalogs ?c"
    using cr by (auto simp: create_container_def Let_def
        split: prod.splits bool.splits sum.splits constructing.splits)
  moreover have "db_disk db' = db_disk db2 \<and> db_integrity_latched db' = db_integrity_latched db2
      \<and> more_versions db2 db'"
    using assms cl cr catalog_add_superset[THEN subsetD]
    by (auto simp: new_version_def Let_def more_versions_def split: call.splits sum.splits)
  ultimately show "same_records (db_disk db) (db_disk db')" "db_integrity_latched db' = db_integrity_latched db"
    "more_versions db db'"
    using two n more_versions_trans[of db db2 db'] more_versions_same[of db2 db] by simp_all
qed

lemma rotate_for_frame:
  assumes "rotate_for E i cause db = (r, db')"
  shows "inserts_frame db r db'"
proof -
  obtain b db1 where nv: "new_version E i db = (b, db1)" by fastforce
  show ?thesis
    using assms nv new_version_frame[OF nv]
    by (cases b) (auto simp: rotate_for_def inserts_frame_def Let_def)
qed

lemma inserts_frame_trans: "inserts_frame a (Inr u) b \<Longrightarrow> inserts_frame b r c \<Longrightarrow> inserts_frame a r c"
  by (auto simp: inserts_frame_def intro: same_records_trans more_versions_trans)

lemma inserts_frame_start:
  "same_records (db_disk a) (db_disk b) \<Longrightarrow> db_integrity_latched b = db_integrity_latched a
   \<Longrightarrow> db_catalogs b = db_catalogs a \<Longrightarrow> inserts_frame b r c \<Longrightarrow> inserts_frame a r c"
  by (auto simp: inserts_frame_def more_versions_def intro: same_records_trans)

lemma inserts_frame_error: "inserts_frame a (Inl e :: 'a result) b \<Longrightarrow> inserts_frame a (Inl e :: 'b result) b"
  by (simp add: inserts_frame_def)

lemma record_inserted_frame:
  "same_records (db_disk db) (db_disk (record_inserted i key height t db))"
  "db_integrity_latched (record_inserted i key height t db) = db_integrity_latched db"
  "more_versions db (record_inserted i key height t db)"
  by (rule record_inserted_fields[of i key height t db]; simp add: set_container_disk more_versions_def)+

lemma insert_attempts_frame:
  "insert_attempts E i key val height as db = (r, db') \<Longrightarrow> inserts_frame db r db'"
proof (induction as arbitrary: db)
  case Nil
  then show ?case by (simp add: inserts_frame_def)
next
  case (Cons a as)
  let ?n = "ticks (db_disk db)" and ?t = "container db i" and ?db0 = "db\<lparr>db_disk := tick (db_disk db)\<rparr>"
  show ?case
  proof (cases "tbl_emplace E ?n key val ?t")
    case Already_there
    then have "db' = ?db0" using Cons.prems by (simp add: Let_def)
    then show ?thesis by (simp add: inserts_frame_def more_versions_def)
  next
    case (Inserted t)
    then have "db' = record_inserted i key height t ?db0" using Cons.prems by (simp add: Let_def)
    then show ?thesis
      using record_inserted_frame[where db = ?db0 and i = i and key = key and height = height and t = t]
      by (simp add: inserts_frame_def more_versions_def)
  next
    case (Allocation_failed t)
    let ?db1 = "set_container i t ?db0"
    have start: "same_records (db_disk db) (db_disk ?db1)" "db_integrity_latched ?db1 = db_integrity_latched db"
      "db_catalogs ?db1 = db_catalogs db"
      by (simp_all add: set_container_disk)
    show ?thesis
    proof (cases "classify_post_exception (snapshot_of ?t) (snapshot_of t) (tbl_find t key \<noteq> None)")
      case Map_mutated
      then show ?thesis
        using Cons.prems Allocation_failed start by (auto simp: Let_def inserts_frame_def more_versions_def)
    next
      case Map_intact
      show ?thesis
      proof (cases "a = 2")
        case True
        then show ?thesis
          using Cons.prems Allocation_failed Map_intact start by (auto simp: Let_def inserts_frame_def more_versions_def)
      next
        case False
        obtain r1 db2 where rot: "rotate_for E i Capacity_exception ?db1 = (r1, db2)" by fastforce
        note f = inserts_frame_start[OF start rotate_for_frame[OF rot]]
        show ?thesis
        proof (cases r1)
          case (Inl e)
          then have "r = Inl e" "db' = db2"
            using Cons.prems Allocation_failed Map_intact False rot by (simp_all add: Let_def)
          then show ?thesis using inserts_frame_error f Inl by blast
        next
          case (Inr u)
          then have "insert_attempts E i key val height as db2 = (r, db')"
            using Cons.prems Allocation_failed Map_intact False rot by (simp add: Let_def)
          from inserts_frame_trans[OF f[unfolded Inr] Cons.IH[OF this]] show ?thesis .
        qed
      qed
    qed
  qed
qed

lemma insert_in_index_frame:
  assumes "insert_in_index E i key val height db = (r, db')"
  shows "inserts_frame db r db'"
proof -
  obtain safe db1 where safe: "can_insert_safely E i db = (safe, db1)" by fastforce
  have start: "same_records (db_disk db) (db_disk db1)" "db_integrity_latched db1 = db_integrity_latched db"
    "db_catalogs db1 = db_catalogs db"
    using can_insert_safely_same[OF safe] by auto
  have "inserts_frame db1 r db'"
  proof (cases safe)
    case True
    then have "insert_attempts E i key val height [1, 2] db1 = (r, db')"
      using assms safe by (simp add: insert_in_index_def)
    then show ?thesis by (rule insert_attempts_frame)
  next
    case False
    obtain r1 db2 where rot: "rotate_for E i Preventive db1 = (r1, db2)" by fastforce
    note f = rotate_for_frame[OF rot]
    show ?thesis
    proof (cases "tbl_find (container db1 i) key = None")
      case True
      show ?thesis
      proof (cases r1)
        case (Inl e)
        then have "r = Inl e" "db' = db2" using assms safe False True rot by (simp_all add: insert_in_index_def)
        then show ?thesis using inserts_frame_error f Inl by blast
      next
        case (Inr u)
        then have "insert_attempts E i key val height [1, 2] db2 = (r, db')"
          using assms safe False True rot by (simp add: insert_in_index_def)
        from inserts_frame_trans[OF f[unfolded Inr] insert_attempts_frame[OF this]] show ?thesis .
      qed
    qed (use assms safe False in \<open>auto simp: insert_in_index_def inserts_frame_def\<close>)
  qed
  then show ?thesis by (rule inserts_frame_start[OF start])
qed

section \<open>Walks\<close>

text \<open>A property of the database that every step keeps is kept by a walk.\<close>

lemma walk_files_keeps:
  assumes "\<And>f w. P (wk_db w) \<Longrightarrow> P (wk_db (step f w))" "P (wk_db w)"
  shows "P (wk_db (walk_files step fs w))"
  using assms(2)
proof (induction fs arbitrary: w)
  case (Cons f fs)
  show ?case using Cons.IH[of "step f w"] assms(1)[OF Cons.prems] Cons.prems by simp
qed simp

lemma walk_all_keeps:
  assumes "\<And>f w. P (wk_db w) \<Longrightarrow> P (wk_db (step f w))" "P (wk_db w)"
  shows "P (wk_db (walk_all step w))"
  unfolding walk_all_def Let_def
  by (rule walk_files_keeps[where P = P], rule assms(1), assumption, rule walk_files_keeps[where P = P], rule assms(1),
      assumption, rule assms(2))

lemma get_or_open_disk:
  assumes "get_or_open E i v (c, d) = (r, c', d')"
  shows "same_disk d d'"
proof -
  obtain r1 d1 where op: "open_checked E (fc_database_id c) (kind_of_index i) (data_path i v) v (tick d) = (r1, d1)"
    by fastforce
  have evict: "fc_database_id (evict_lru x) = fc_database_id x" for x
    by (simp add: evict_lru_def Let_def split: list.splits)
  have "d' = tick d \<or> d' = d1"
    using assms op
    by (auto simp: get_or_open_def Let_def evict count_access_def split: option.splits if_splits sum.splits prod.splits)
  then show ?thesis using open_checked_same[OF op] same_disk_trans[of d "tick d" d1] by auto
qed

lemma visit_file_keeps:
  assumes act: "\<And>i v w. P (wk_db w) \<Longrightarrow> P (wk_db (act i v w))"
    and cache: "\<And>db c d. P db \<Longrightarrow> same_disk (db_disk db) d \<Longrightarrow> P (db\<lparr>db_file_cache := c, db_disk := d\<rparr>)"
    and "P (wk_db w)"
  shows "P (wk_db (visit_file E act f w))"
proof -
  obtain i v where f: "f = (i, v)" by fastforce
  let ?db = "wk_db w"
  obtain r c d where run: "get_or_open E i v (db_file_cache ?db, db_disk ?db) = (r, c, d)" by (rule prod_cases3)
  have "same_disk (db_disk ?db) d" using get_or_open_disk[OF run] .
  then have P: "P (?db\<lparr>db_file_cache := c, db_disk := d\<rparr>)" by (rule cache[OF assms(3)])
  show ?thesis
    using P act[of "w\<lparr>wk_db := ?db\<lparr>db_file_cache := c, db_disk := d\<rparr>\<rparr>" i v] run
    by (cases r) (simp_all add: visit_file_def f Let_def)
qed

text \<open>A resolution changes the cache and nothing on disk.\<close>

definition only_cache :: "'v database \<Rightarrow> 'v database \<Rightarrow> bool" where
  "only_cache db db' \<longleftrightarrow> same_disk (db_disk db) (db_disk db')
     \<and> db' = db\<lparr>db_file_cache := db_file_cache db', db_disk := db_disk db'\<rparr>"

lemma probe_file_db [simp]: "wk_db (probe_file i v w) = wk_db w"
  by (simp add: probe_file_def Let_def)

lemma only_cache_cache:
  assumes "only_cache db0 db" "same_disk (db_disk db) d"
  shows "only_cache db0 (db\<lparr>db_file_cache := c, db_disk := d\<rparr>)"
proof -
  have eq: "db = db0\<lparr>db_file_cache := db_file_cache db, db_disk := db_disk db\<rparr>"
    using assms(1) by (simp add: only_cache_def)
  have "db\<lparr>db_file_cache := c, db_disk := d\<rparr> = db0\<lparr>db_file_cache := c, db_disk := d\<rparr>"
    by (subst eq) simp
  then show ?thesis using assms same_disk_trans by (auto simp: only_cache_def)
qed

lemma resolve_with_only_cache:
  assumes "resolve_with E answer requests db = (r, db')"
  shows "only_cache db db'"
proof (cases "requests = []")
  case True
  then show ?thesis using assms by (simp add: resolve_with_def only_cache_def)
next
  case False
  let ?w = "\<lparr>wk_pending = working_set_of lr_key requests, wk_done = [], wk_complete = True, wk_db = db\<rparr>"
  have step: "only_cache db (wk_db (resolve_step E f w))" if "only_cache db (wk_db w)" for f w
  proof -
    have "only_cache db (wk_db (visit_file E probe_file f w))"
      by (rule visit_file_keeps) (simp_all add: that only_cache_cache)
    then show ?thesis using that by (simp add: resolve_step_def)
  qed
  have "only_cache db (wk_db (walk_all (resolve_step E) ?w))"
    using walk_all_keeps[where P = "only_cache db" and step = "resolve_step E" and w = ?w] step
    by (simp add: only_cache_def)
  moreover have "db' = wk_db (walk_all (resolve_step E) ?w)"
    using assms False by (auto simp: resolve_with_def Let_def split: if_splits)
  ultimately show ?thesis by simp
qed

text \<open>A deletion makes no record.\<close>

lemma erase_in_latest_records:
  "erase_in_latest_version E is key db = (n, db') \<Longrightarrow> same_records (db_disk db) (db_disk db')"
  by (induction "is") (auto simp: set_container_disk split: prod.splits if_splits)

lemma erase_active_records: "same_records (db_disk (wk_db w)) (db_disk (wk_db (erase_active E rs w)))"
proof (induction rs arbitrary: w)
  case (Cons r rs)
  obtain n db where one: "erase_in_latest_version E (indices_of (db_mode (wk_db w))) (dd_key r) (wk_db w) = (n, db)"
    by fastforce
  note a = erase_in_latest_records[OF one]
  show ?case
    using one same_records_trans[OF a, OF Cons.IH[of "w\<lparr>wk_db := db\<lparr>db_entries_count := db_entries_count db - 1\<rparr>, wk_done := wk_done w @ [r]\<rparr>", simplified]]
      same_records_trans[OF a, OF Cons.IH[of "w\<lparr>wk_db := db, wk_pending := wk_pending w @ [r]\<rparr>", simplified]]
    by simp
qed simp

lemma step_over_file_records: "same_records (db_disk (wk_db w)) (db_disk (wk_db (step_over_file E i v rs w)))"
proof (induction rs arbitrary: w)
  case (Cons r rs)
  let ?db = "wk_db w"
  obtain n t where er: "tbl_erase E (ticks (db_disk ?db)) (dd_key r) (file_map ?db i v) = (n, t)" by fastforce
  show ?case
  proof (cases "n = 0")
    case True
    then show ?thesis using er Cons.IH[of "w\<lparr>wk_pending := wk_pending w @ [r]\<rparr>"] by (simp add: Let_def)
  next
    case False
    define db1 where "db1 = update_metadata_on_delete i v (note_dirty i v (?db\<lparr>db_disk := set_generation i v t (tick (db_disk ?db)),
        db_entries_count := db_entries_count ?db - 1\<rparr>))"
    have "db_disk db1 = set_generation i v t (tick (db_disk ?db))"
      by (simp add: db1_def update_metadata_on_delete_def note_dirty_def split: option.splits)
    then have "same_records (db_disk ?db) (db_disk db1)" by simp
    then show ?thesis
      using er False same_records_trans[OF _ Cons.IH[of "w\<lparr>wk_done := wk_done w @ [r], wk_db := db1\<rparr>", simplified]]
      by (simp add: Let_def flip: db1_def)
  qed
qed simp

lemma apply_deletes_records:
  assumes "apply_deletes E requests db = (p, db')"
  shows "same_records (db_disk db) (db_disk db')"
proof (cases "requests = []")
  case True
  then show ?thesis using assms by (simp add: apply_deletes_def)
next
  case False
  let ?P = "\<lambda>x. same_records (db_disk db) (db_disk x)"
  let ?w = "erase_active E (working_set_of dd_key requests)
      \<lparr>wk_pending = [], wk_done = [], wk_complete = True, wk_db = db\<rparr>"
  have act: "?P (wk_db (erase_in_file E i v w))" if "?P (wk_db w)" for i v w
    using same_records_trans[OF that step_over_file_records[of "w\<lparr>wk_pending := []\<rparr>" E i v "wk_pending w", simplified]]
    by (simp add: erase_in_file_def)
  have cache: "?P (x\<lparr>db_file_cache := c, db_disk := d\<rparr>)" if "?P x" "same_disk (db_disk x) d" for x c d
    using same_records_trans[OF that(1) same_records_same[OF that(2)]] by simp
  have step: "?P (wk_db (delete_step E f w))" if "?P (wk_db w)" for f w
  proof -
    have "?P (wk_db (visit_file E (erase_in_file E) f w))"
      by (rule visit_file_keeps[where P = ?P]) (use act cache that in auto)
    then show ?thesis using that by (simp add: delete_step_def)
  qed
  have "?P (wk_db ?w)"
    using erase_active_records[of "\<lparr>wk_pending = [], wk_done = [], wk_complete = True, wk_db = db\<rparr>" E] by simp
  then have "?P (wk_db (walk_all (delete_step E) ?w))"
    using walk_all_keeps[where P = ?P and step = "delete_step E"] step by blast
  then show ?thesis using assms False by (auto simp: apply_deletes_def Let_def)
qed

end
