(* ===== verification/Session.thy ===== *)
theory Session
  imports Session_Frames
begin

text \<open>
  The invariant of a database between two calls of its public interface, and that every operation
  of \<open>full_db\<close> keeps it or closes the gate on every later one.
\<close>

section \<open>The invariant\<close>

definition session :: "'v env \<Rightarrow> 'v database \<Rightarrow> bool" where
  "session E db \<longleftrightarrow> store_inv E db \<and> gate_for_use db = Inr ()
     \<and> (\<forall>i \<in> set (indices_of (db_mode db)). creatable db i
          \<and> (\<forall>v. lookup_file (db_disk db) (sidecar_path i v) = None))
     \<and> db_entries_count db = word_of_nat (size (stored db))"

lemma session_gate:
  "session E db \<Longrightarrow> db_integrity_latched db = None" "session E db \<Longrightarrow> \<not> db_cleanup_pending db"
  "session E db \<Longrightarrow> \<not> db_inspection_only db"
  by (simp_all add: session_def gate_for_use_open)

text \<open>Version numbers to spare: for the two rotations of an insertion, and for the merges of a compaction.\<close>

definition spare_numbers :: "'v database \<Rightarrow> bool" where
  "spare_numbers db \<longleftrightarrow> (\<forall>i \<in> set (indices_of (db_mode db)).
     unat (vc_highest_issued (db_catalogs db i)) + max 2 (length (vc_versions (db_catalogs db i))) < 2 ^ 64)"

lemma session_room:
  assumes "session E db" "spare_numbers db" "i \<in> set (indices_of (db_mode db))"
  shows "serving E db i" "insert_room db i" "compactable E db i (length (vc_versions (db_catalogs db i)))"
proof -
  show srv: "serving E db i" using assms by (simp add: session_def store_inv_def)
  have num: "unat (vc_highest_issued (db_catalogs db i)) + max 2 (length (vc_versions (db_catalogs db i))) < 2 ^ 64"
    using assms(2,3) by (simp add: spare_numbers_def)
  show "insert_room db i" using assms num by (simp add: insert_room_def session_def)
  show "compactable E db i (length (vc_versions (db_catalogs db i)))"
    using assms num srv session_gate[OF assms(1)] by (simp add: compactable_def session_def serving_def)
qed

lemma creatable_cong:
  "db_database_id db' = db_database_id db \<Longrightarrow> db_capacity db' = db_capacity db \<Longrightarrow> creatable db' i = creatable db i"
  by (simp add: creatable_def)

section \<open>Insertion\<close>

lemma isolates_stored:
  assumes "isolates i db db'" "i \<in> set (indices_of (db_mode db))"
  shows "stored db' + contents db i = stored db + contents db' i"
proof -
  let ?I = "set (indices_of (db_mode db))"
  have "stored db' = contents db' i + (\<Sum>j \<in> ?I - {i}. contents db' j)"
    using assms by (simp add: stored_def sum.remove isolates_def)
  moreover have "(\<Sum>j \<in> ?I - {i}. contents db' j) = (\<Sum>j \<in> ?I - {i}. contents db j)"
    by (rule sum.cong) (simp_all add: isolates_serving(3)[OF assms(1)])
  moreover have "stored db = contents db i + (\<Sum>j \<in> ?I - {i}. contents db j)"
    using assms(2) by (simp add: stored_def sum.remove)
  ultimately show ?thesis by simp
qed

lemma store_files_serving:
  assumes "(i, v) \<in> store_files db" "store_inv E db"
  shows "serving E db i" "v \<in> set (vc_versions (db_catalogs db i))"
  using assms by (auto simp: store_files_def store_inv_def)

text \<open>
  An insertion never forgets a version: the cached files stay files of the store.
\<close>

lemma insert_keeps_store:
  assumes inv: "store_inv E db" and iso: "isolates i db db'" and srv: "serving E db' i"
    and vs: "set (vc_versions (db_catalogs db i)) \<subseteq> set (vc_versions (db_catalogs db' i))"
    and cache: "db_file_cache db' = db_file_cache db"
  shows "store_inv E db'"
proof -
  have mode: "db_mode db' = db_mode db" "db_database_id db' = db_database_id db" using iso by (simp_all add: isolates_def)
  have "serving E db' j" if "j \<in> set (indices_of (db_mode db))" for j
    using that inv srv isolates_serving(1)[OF iso, of j] by (cases "j = i") (auto simp: store_inv_def)
  moreover have "store_files db \<subseteq> store_files db'"
    using vs iso mode by (force simp: store_files_def isolates_def)
  ultimately show ?thesis using inv mode cache by (auto simp: store_inv_def)
qed

lemma stored_member:
  assumes "store_inv E db" "i \<in> set (indices_of (db_mode db))" "tbl_find (container db i) k = Some v"
  shows "(k, v) \<in># stored db"
proof -
  have srv: "serving E db i" using assms by (simp add: store_inv_def)
  have "(k, v) \<in># tbl_bag (container db i)"
    using table.find_bag[OF serving_container(2)[OF srv]] assms(3) by simp
  moreover have "tbl_bag (container db i) \<subseteq># contents db i"
    using generation_bag_subset[OF serving_container(3)[OF srv]] serving_container(1)[OF srv]
    by (simp add: generation_bag_def)
  moreover have "contents db i \<subseteq># stored db"
    unfolding stored_def using assms(2) by (simp add: sum.remove)
  ultimately show ?thesis by (meson mset_subset_eqD)
qed

lemma insert_session:
  assumes sg: "strong_guarantee E" and ses: "session E db" and spare: "spare_numbers db"
    and i: "i \<in> set (indices_of (db_mode db))" and run: "insert_in_index E i key val height db = (r, db')"
  shows "db_mode db' = db_mode db \<and> (case r of
      Inr True \<Rightarrow> session E db' \<and> stored db' = add_mset (key, val) (stored db)
    | Inr False \<Rightarrow> session E db' \<and> stored db' = stored db \<and> (\<exists>x. (key, x) \<in># stored db)
    | Inl e \<Rightarrow> e = Insufficient_space \<and> session E db' \<and> stored db' = stored db
        \<or> e = File_open_failed \<and> gate_for_use db' = Inl File_open_failed)"
proof -
  have srv: "serving E db i" and room: "insert_room db i" using session_room[OF ses spare i] by simp_all
  have inv: "store_inv E db" using ses by (simp add: session_def)
  note spec = insert_in_index_spec[OF sg srv room run]
  note frame = insert_in_index_frame[OF run]
  have iso: "isolates i db db'" and clean: "\<not> db_cleanup_pending db'" and cache: "db_file_cache db' = db_file_cache db"
    using spec session_gate[OF ses] by (simp_all add: insert_spec_def)
  have fields: "db_mode db' = db_mode db" "db_database_id db' = db_database_id db" "db_capacity db' = db_capacity db"
    "\<not> db_inspection_only db'"
    using iso session_gate[OF ses] by (simp_all add: isolates_def)
  have vs: "set (vc_versions (db_catalogs db i)) \<subseteq> set (vc_versions (db_catalogs db' i))"
    and rec: "same_records (db_disk db) (db_disk db')"
    using frame by (simp_all add: inserts_frame_def more_versions_def)
  have keep: "session E db'" if "serving E db' i" "db_integrity_latched db' = None"
    "db_entries_count db' = word_of_nat (size (stored db'))"
  proof -
    have "store_inv E db'" by (rule insert_keeps_store[OF inv iso that(1) vs cache])
    moreover have "gate_for_use db' = Inr ()" using that(2) clean fields by (simp add: gate_for_use_open)
    ultimately show ?thesis
      using that(3) ses rec creatable_cong[OF fields(2,3)]
      by (simp add: session_def fields(1) same_records_def)
  qed
  have count: "db_entries_count db = word_of_nat (size (stored db))" using ses by (simp add: session_def)
  have bal: "stored db' + contents db i = stored db + contents db' i" by (rule isolates_stored[OF iso i])
  have calm: "db_integrity_latched db' = None" if "r \<noteq> Inl File_open_failed" "r \<noteq> Inl Entry_corrupt"
    using frame that session_gate(1)[OF ses] by (simp add: inserts_frame_def)
  show ?thesis
  proof (cases r)
    case (Inl e)
    then have e: "e = Insufficient_space \<and> serving E db' i
        \<or> e = File_open_failed \<and> db_integrity_latched db' = Some File_open_failed"
      and same: "contents db' i = contents db i" "db_entries_count db' = db_entries_count db"
      using spec by (auto simp: insert_spec_def)
    have st: "stored db' = stored db" using bal same(1) by simp
    from e show ?thesis
    proof (elim disjE conjE)
      assume "e = Insufficient_space" "serving E db' i"
      then show ?thesis using keep calm count same(2) st Inl fields(1) by simp
    next
      assume "e = File_open_failed" "db_integrity_latched db' = Some File_open_failed"
      then show ?thesis using Inl fields(1)
        by (simp add: gate_for_use_def refuse_if_unusable_def refuse_if_integrity_latched_def)
    qed
  next
    case (Inr b)
    show ?thesis
    proof (cases b)
      case True
      then have new: "serving E db' i" "contents db' i = add_mset (key, val) (contents db i)"
        "db_entries_count db' = db_entries_count db + 1"
        using spec Inr by (simp_all add: insert_spec_def)
      have st: "stored db' = add_mset (key, val) (stored db)" using bal new(2) by simp
      then show ?thesis using keep[OF new(1)] calm count new(3) Inr True fields(1) by simp
    next
      case False
      then have old: "serving E db' i" "contents db' i = contents db i" "tbl_find (container db i) key \<noteq> None"
        "db_entries_count db' = db_entries_count db"
        using spec Inr by (simp_all add: insert_spec_def)
      have st: "stored db' = stored db" using bal old(2) by simp
      obtain x where "(key, x) \<in># stored db" using old(3) stored_member[OF inv i] by blast
      then show ?thesis using keep[OF old(1)] calm count old(4) st Inr False fields(1) by auto
    qed
  qed
qed

section \<open>Lookup, resolution, deletion\<close>

lemma find_session:
  assumes "session E db" "find_in_latest_version db is key = Some v" "set is \<subseteq> set (indices_of (db_mode db))"
  shows "(key, v) \<in># stored db"
  using assms(2,3)
proof (induction "is")
  case (Cons i "is")
  then show ?case
    using assms(1) stored_member[of E db i key] by (auto simp: session_def split: option.splits)
qed simp

lemma gate_cong:
  "db_integrity_latched db' = db_integrity_latched db \<Longrightarrow> db_cleanup_pending db' = db_cleanup_pending db
   \<Longrightarrow> db_inspection_only db' = db_inspection_only db \<Longrightarrow> gate_for_use db' = gate_for_use db"
  by (simp add: gate_for_use_def refuse_if_unusable_def refuse_if_integrity_latched_def
      refuse_if_recovery_pending_def refuse_if_inspection_only_def split: option.split)

lemma resolve_session:
  assumes ses: "session E db" and run: "resolve_with E answer requests db = (r, db')"
  shows "session E db'" "db_mode db' = db_mode db"
proof -
  have inv: "store_inv E db" using ses by (simp add: session_def)
  have oc: "only_cache db db'" by (rule resolve_with_only_cache[OF run])
  have eq: "db' = db\<lparr>db_file_cache := db_file_cache db', db_disk := db_disk db'\<rparr>"
    and same: "same_disk (db_disk db) (db_disk db')"
    using oc by (simp_all add: only_cache_def)
  have f: "db_mode db' = db_mode db" "db_database_id db' = db_database_id db" "db_capacity db' = db_capacity db"
    "db_entries_count db' = db_entries_count db"
    by (subst eq, simp)+
  have "gate_for_use db' = gate_for_use db" by (rule gate_cong; subst eq, simp)
  note f = f this creatable_cong[OF f(2,3)]
  show "db_mode db' = db_mode db" by (rule f(1))
  show "session E db'"
    using resolve_with_spec(1,2)[OF inv run] ses f same_disk_lookup[OF same] by (simp add: session_def)
qed

lemma shape_gate: "same_shape db db' \<Longrightarrow> gate_for_use db' = gate_for_use db"
  by (rule gate_cong) (simp_all add: same_shape_def)

lemma delete_session:
  assumes ses: "session E db" and run: "apply_deletes E requests db = (p, db')"
  shows "session E db'" "db_mode db' = db_mode db"
proof -
  have inv: "store_inv E db" using ses by (simp add: session_def)
  note spec = apply_deletes_spec[OF inv run]
  have shape: "same_shape db db'" using spec by blast
  obtain es where es: "map fst es = map dd_key (dp_erased p)" "stored db = stored db' + mset es" using spec by blast
  have "length es = length (dp_erased p)" using arg_cong[OF es(1), of length] by simp
  then have "db_entries_count db' = word_of_nat (size (stored db'))"
    using spec ses es(2) by (simp add: session_def)
  moreover have "creatable db' i = creatable db i" for i using shape by (intro creatable_cong) (simp_all add: same_shape_def)
  moreover show "db_mode db' = db_mode db" using shape by (simp add: same_shape_def)
  ultimately show "session E db'"
    using spec ses shape_gate[OF shape] apply_deletes_records[OF run]
    by (simp add: session_def same_records_def)
qed

section \<open>Compaction and sync\<close>

lemma compact_session:
  assumes ses: "session E db" and spare: "spare_numbers db" and run: "compact_all E height_of db = (r, db')"
  shows "db_mode db' = db_mode db"
    and "\<not> db_cleanup_pending db' \<Longrightarrow> session E db' \<and> stored db' = stored db"
    and "db_cleanup_pending db' \<Longrightarrow> r \<noteq> Inr () \<and> gate_for_use db' = Inl Recovery_required"
proof -
  have inv: "store_inv E db" using ses by (simp add: session_def)
  have ready: "compactable_store E db"
    using session_room(3)[OF ses spare] session_gate[OF ses] by (simp add: compactable_store_def)
  note spec = compact_all_spec[OF inv ready run]
  show mode: "db_mode db' = db_mode db" using spec by blast
  show "session E db' \<and> stored db' = stored db" if ok: "\<not> db_cleanup_pending db'"
  proof -
    have st: "stored db' = stored db" using spec ok by (simp add: stored_def)
    have "creatable db' i \<and> (\<forall>v. lookup_file (db_disk db') (sidecar_path i v) = None)"
      if "i \<in> set (indices_of (db_mode db))" for i
      using spec ok that by (auto simp: compactable_def)
    moreover have "gate_for_use db' = Inr ()"
      using spec ok session_gate[OF ses] by (simp add: gate_for_use_open)
    ultimately show ?thesis using spec ok ses st mode by (simp add: session_def)
  qed
  show "r \<noteq> Inr () \<and> gate_for_use db' = Inl Recovery_required" if "db_cleanup_pending db'"
    using spec that session_gate[OF ses]
    by (auto simp: gate_for_use_def refuse_if_unusable_def refuse_if_integrity_latched_def
        refuse_if_recovery_pending_def)
qed

end
