(* ===== verification/Handle_Machine.thy ===== *)
theory Handle_Machine
  imports Session
begin

text \<open>
  A handle as a state machine over the calls of its public interface, and the abstract store it
  implements: a multiset of entries that is open, refuses every call with one error, or is closed. The
  two kinds of handle differ in what an insertion takes and a lookup gives; the locale \<open>typed_calls\<close>
  says what they share, and in it every run of calls on a handle is a run of the abstract store.
\<close>

section \<open>Calls\<close>

datatype 'p store_call =
    Insert raw_outpoint 'p u32
  | Find raw_outpoint
  | Resolve "lookup_request list"
  | Delete "deferred_deletion_entry list"
  | Compact
  | Sync
  | Size
  | Close

datatype 'r store_answer =
    Inserting "bool result"
  | Finding "'r result"
  | Resolving "'r resolution result"
  | Deleting deletion_progress
  | Finished "unit result"
  | Sized u64
  | Done

text \<open>The calls that a kind of handle has its own version of.\<close>

record ('v, 'p, 'r) handle_calls =
  call_insert :: "'v env \<Rightarrow> raw_outpoint \<Rightarrow> 'p \<Rightarrow> u32 \<Rightarrow> 'v handle \<Rightarrow> bool result \<times> 'v handle"
  call_find :: "raw_outpoint \<Rightarrow> 'v handle \<Rightarrow> 'r result \<times> 'v handle"
  call_resolve :: "'v env \<Rightarrow> lookup_request list \<Rightarrow> 'v handle \<Rightarrow> 'r resolution result \<times> 'v handle"
  call_height_of :: "'v \<Rightarrow> u32"

fun handle_step ::
  "('v, 'p, 'r) handle_calls \<Rightarrow> 'v env \<Rightarrow> 'p store_call \<Rightarrow> 'v handle \<Rightarrow> 'r store_answer \<times> 'v handle" where
  "handle_step C E (Insert key payload height) h = apfst Inserting (call_insert C E key payload height h)"
| "handle_step C E (Find key) h = apfst Finding (call_find C key h)"
| "handle_step C E (Resolve requests) h = apfst Resolving (call_resolve C E requests h)"
| "handle_step C E (Delete requests) h = apfst Deleting (base_apply_deletes E requests h)"
| "handle_step C E Compact h = apfst Finished (base_compact_all E (call_height_of C) h)"
| "handle_step C E Sync h = apfst Finished (base_sync E h)"
| "handle_step C E Size h = (Sized (base_size h), h)"
| "handle_step C E Close h = (Done, base_close E h)"

fun handle_run ::
  "('v, 'p, 'r) handle_calls \<Rightarrow> 'v env \<Rightarrow> 'p store_call list \<Rightarrow> 'v handle \<Rightarrow> 'r store_answer list \<times> 'v handle" where
  "handle_run C E [] h = ([], h)"
| "handle_run C E (c # cs) h =
    (case handle_step C E c h of (a, h) \<Rightarrow> (case handle_run C E cs h of (answers, h) \<Rightarrow> (a # answers, h)))"

section \<open>The abstract store\<close>

datatype 'r view = Holding "(raw_outpoint \<times> 'r) multiset" | Refusing error_code | Gone

text \<open>The answer of a call that was refused.\<close>

fun refused :: "'p store_call \<Rightarrow> error_code \<Rightarrow> 'r store_answer" where
  "refused (Insert key payload height) e = Inserting (Inl e)"
| "refused (Find key) e = Finding (Inl e)"
| "refused (Resolve requests) e = Resolving (Inl e)"
| "refused (Delete requests) e = Deleting (refuse_deletions requests e)"
| "refused Compact e = Finished (Inl e)"
| "refused Sync e = Finished (Inl e)"
| "refused Size e = Sized 0"
| "refused Close e = Done"

text \<open>
  What a call may answer and do; \<open>fits\<close> says which payloads the store takes and \<open>made\<close> what a lookup
  gives back for one. An insertion that is not refused adds the entry, or reports that the key is
  there, or fails and adds nothing. A deletion takes out one entry per request it reports erased. No
  other call changes an entry.
\<close>

inductive store_allows ::
  "('p \<Rightarrow> bool) \<Rightarrow> ('p \<Rightarrow> u32 \<Rightarrow> 'r) \<Rightarrow> 'p store_call \<Rightarrow> 'r view \<Rightarrow> 'r store_answer \<Rightarrow> 'r view \<Rightarrow> bool"
  for fits made where
  insert_new: "fits payload \<Longrightarrow>
    store_allows fits made (Insert key payload height) (Holding M) (Inserting (Inr True))
      (Holding (add_mset (key, made payload height) M))"
| insert_known: "(key, x) \<in># M \<Longrightarrow> fits payload \<Longrightarrow>
    store_allows fits made (Insert key payload height) (Holding M) (Inserting (Inr False)) (Holding M)"
| insert_large: "\<not> fits payload \<Longrightarrow>
    store_allows fits made (Insert key payload height) (Holding M) (Inserting (Inl Value_too_large)) (Holding M)"
| insert_full: "store_allows fits made (Insert key payload height) (Holding M) (Inserting (Inl Insufficient_space)) (Holding M)"
| insert_stuck: "store_allows fits made (Insert key payload height) (Holding M) (Inserting (Inl File_open_failed))
    (Refusing File_open_failed)"
| find_hit: "(key, x) \<in># M \<Longrightarrow> store_allows fits made (Find key) (Holding M) (Finding (Inr x)) (Holding M)"
| find_miss: "store_allows fits made (Find key) (Holding M) (Finding (Inl Not_resolved)) (Holding M)"
| resolve_done: "mset (map fst (rs_found res)) + mset (map lr_key (rs_absent res))
      = mset (map lr_key (working_set_of lr_key requests)) \<Longrightarrow> set (rs_found res) \<subseteq> set_mset M \<Longrightarrow>
    store_allows fits made (Resolve requests) (Holding M) (Resolving (Inr res)) (Holding M)"
| resolve_failed: "store_allows fits made (Resolve requests) (Holding M) (Resolving (Inl Version_unreadable)) (Holding M)"
| delete_done: "mset (dp_erased p) + mset (dp_absent p) = mset (working_set_of dd_key requests) \<Longrightarrow>
    map fst es = map dd_key (dp_erased p) \<Longrightarrow> dp_unresolved p = [] \<Longrightarrow> dp_error p = None \<Longrightarrow>
    \<forall>r \<in> set (dp_absent p). dd_key r \<notin> fst ` set_mset M \<Longrightarrow>
    store_allows fits made (Delete requests) (Holding (M + mset es)) (Deleting p) (Holding M)"
| delete_partial: "mset (dp_erased p) + mset (dp_unresolved p) = mset (working_set_of dd_key requests) \<Longrightarrow>
    map fst es = map dd_key (dp_erased p) \<Longrightarrow> dp_absent p = [] \<Longrightarrow> dp_error p = Some Version_unreadable \<Longrightarrow>
    store_allows fits made (Delete requests) (Holding (M + mset es)) (Deleting p) (Holding M)"
| compact_any: "store_allows fits made Compact (Holding M) (Finished r) (Holding M)"
| compact_stuck: "store_allows fits made Compact (Holding M) (Finished (Inl e)) (Refusing Recovery_required)"
| sync_any: "store_allows fits made Sync (Holding M) (Finished r) (Holding M)"
| size_holding: "store_allows fits made Size (Holding M) (Sized (word_of_nat (size M))) (Holding M)"
| close: "store_allows fits made Close s Done Gone"
| refusing: "c \<notin> {Sync, Size, Close} \<Longrightarrow> store_allows fits made c (Refusing e) (refused c e) (Refusing e)"
| refusing_sync: "store_allows fits made Sync (Refusing e) (Finished (Inl e')) (Refusing e)"
| refusing_size: "store_allows fits made Size (Refusing e) (Sized n) (Refusing e)"
| gone: "c \<noteq> Close \<Longrightarrow> store_allows fits made c Gone (refused c Closed) Gone"

inductive_cases store_allows_insertE: "store_allows fits made (Insert key payload height) s a s'"
inductive_cases store_allows_deleteE: "store_allows fits made (Delete requests) s a s'"
inductive_cases store_allows_compactE: "store_allows fits made (Compact) s a s'"
inductive_cases store_allows_syncE: "store_allows fits made (Sync) s a s'"
inductive_cases store_allows_findE: "store_allows fits made (Find key) s a s'"
inductive_cases store_allows_resolveE: "store_allows fits made (Resolve requests) s a s'"
inductive_cases store_allows_sizeE: "store_allows fits made (Size) s a s'"
inductive_cases store_allows_closeE: "store_allows fits made (Close) s a s'"

inductive store_run ::
  "('p \<Rightarrow> bool) \<Rightarrow> ('p \<Rightarrow> u32 \<Rightarrow> 'r) \<Rightarrow> 'p store_call list \<Rightarrow> 'r view \<Rightarrow> 'r store_answer list \<Rightarrow> 'r view \<Rightarrow> bool"
  for fits made where
  run_nil: "store_run fits made [] s [] s"
| run_cons: "store_allows fits made c s a s' \<Longrightarrow> store_run fits made cs s' as s''
    \<Longrightarrow> store_run fits made (c # cs) s (a # as) s''"

inductive_simps store_run_simps: "store_run fits made [] s as s'" "store_run fits made (c # cs) s as s'"

section \<open>The abstraction\<close>

definition entries_as :: "('v \<Rightarrow> 'r) \<Rightarrow> 'v database \<Rightarrow> (raw_outpoint \<times> 'r) multiset" where
  "entries_as result_of db = image_mset (map_prod id result_of) (stored db)"

definition view_as :: "('v \<Rightarrow> 'r) \<Rightarrow> 'v handle \<Rightarrow> 'r view" where
  "view_as result_of h =
    (case h of
       Shut d \<Rightarrow> Gone
     | Live db \<Rightarrow> (case gate_for_use db of Inl e \<Rightarrow> Refusing e | Inr _ \<Rightarrow> Holding (entries_as result_of db)))"

text \<open>A handle of one mode whose database keeps the invariant as long as it is not refused.\<close>

definition healthy_in :: "storage_mode \<Rightarrow> 'v env \<Rightarrow> 'v handle \<Rightarrow> bool" where
  "healthy_in mode E h \<longleftrightarrow>
    (case h of
       Shut d \<Rightarrow> True
     | Live db \<Rightarrow> db_mode db = mode \<and> (gate_for_use db = Inr () \<longrightarrow> session E db))"

text \<open>Before each call of a run that issues version numbers there are some to spare.\<close>

fun issues_numbers :: "'p store_call \<Rightarrow> bool" where
  "issues_numbers (Insert key payload height) \<longleftrightarrow> True"
| "issues_numbers Compact \<longleftrightarrow> True"
| "issues_numbers _ \<longleftrightarrow> False"

definition numbers_left :: "'p store_call \<Rightarrow> 'v handle \<Rightarrow> bool" where
  "numbers_left c h \<longleftrightarrow>
     (issues_numbers c \<longrightarrow> (case h of Shut _ \<Rightarrow> True | Live db \<Rightarrow> spare_numbers db))"

fun numbers_last :: "('v, 'p, 'r) handle_calls \<Rightarrow> 'v env \<Rightarrow> 'p store_call list \<Rightarrow> 'v handle \<Rightarrow> bool" where
  "numbers_last C E [] h \<longleftrightarrow> True"
| "numbers_last C E (c # cs) h \<longleftrightarrow>
     numbers_left c h \<and> numbers_last C E cs (snd (handle_step C E c h))"

text \<open>Every stored value has a property, as long as the store does not refuse.\<close>

definition all_stored :: "('v \<Rightarrow> bool) \<Rightarrow> 'v database \<Rightarrow> bool" where
  "all_stored good db \<longleftrightarrow> (\<forall>(k, v) \<in># stored db. good v)"

definition handle_stores :: "('v \<Rightarrow> bool) \<Rightarrow> 'v handle \<Rightarrow> bool" where
  "handle_stores good h \<longleftrightarrow>
     (case h of Shut _ \<Rightarrow> True | Live db \<Rightarrow> gate_for_use db = Inr () \<longrightarrow> all_stored good db)"

lemma all_stored_sub: "all_stored good db \<Longrightarrow> stored db' \<subseteq># stored db \<Longrightarrow> all_stored good db'"
  by (auto simp: all_stored_def dest: mset_subset_eqD)

lemma view_live [simp]:
  "gate_for_use db = Inr u \<Longrightarrow> view_as result_of (Live db) = Holding (entries_as result_of db)"
  "gate_for_use db = Inl e \<Longrightarrow> view_as result_of (Live db) = Refusing e"
  "view_as result_of (Shut d) = Gone"
  by (simp_all add: view_as_def)

lemma healthy_live: "session E db \<Longrightarrow> db_mode db = mode \<Longrightarrow> healthy_in mode E (Live db)"
  by (simp add: healthy_in_def)

text \<open>The map from stored values to what a caller sees commutes with the multiset operations.\<close>

lemma entries_insert:
  "stored db' = add_mset (key, val) (stored db)
    \<Longrightarrow> entries_as result_of db' = add_mset (key, result_of val) (entries_as result_of db)"
  by (simp add: entries_as_def)

lemma entries_member: "(key, v) \<in># stored db \<Longrightarrow> (key, result_of v) \<in># entries_as result_of db"
  by (force simp: entries_as_def)

lemma size_entries: "size (entries_as result_of db) = size (stored db)"
  by (simp add: entries_as_def)

text \<open>A key that no file of the store holds is the key of no entry.\<close>

lemma stored_in_file:
  assumes inv: "store_inv E db" and mem: "(k, v) \<in># stored db"
  shows "\<exists>f \<in> store_files db. file_holds db f k"
proof -
  obtain i where i: "i \<in> set (indices_of (db_mode db))" "(k, v) \<in># contents db i"
    using mem by (auto simp: stored_def set_mset_sum)
  then obtain w where w: "w \<in> set (vc_versions (db_catalogs db i))" "(k, v) \<in># generation_bag (db_disk db) i w"
    by (auto simp: contents_def set_mset_sum)
  have f: "(i, w) \<in> store_files db" using i(1) w(1) by (simp add: store_files_def)
  obtain t where t: "generation (db_disk db) i w = Some t" "tbl_ok t" "file_map db i w = t"
    using store_file_ok(1)[OF inv f] by blast
  then have "tbl_find (file_map db i w) k = Some v"
    using w(2) table.find_bag[OF t(2)] by (simp add: generation_bag_def)
  then show ?thesis by (intro bexI[OF _ f]) (simp add: file_holds_def)
qed

lemma sync_refused:
  assumes "gate_for_use db = Inl e"
  shows "\<exists>e'. base_sync E (Live db) = (Inl e', Live db)"
proof (cases "gate_for_sync db")
  case (Inl e')
  then show ?thesis by (simp add: base_sync_def through_refused)
next
  case (Inr u)
  then have "db_cleanup_pending db"
    using assms gate_for_use_open[of db]
    by (auto simp: gate_for_sync_def refuse_if_integrity_latched_def refuse_if_inspection_only_def
        split: option.splits if_splits)
  then show ?thesis using Inr by (simp add: base_sync_def through_open sync_database_def)
qed

lemma deletes_refused:
  assumes "gate_for_use db = Inl e"
  shows "base_apply_deletes E requests (Live db) = (refuse_deletions requests e, Live db)"
  using assms
  by (auto simp: base_apply_deletes_def gate_for_use_def refuse_if_inspection_only_def split: sum.splits if_splits)

lemma sync_gate_open: "gate_for_use db = Inr u \<Longrightarrow> gate_for_sync db = Inr ()"
  by (auto simp: gate_for_use_def gate_for_sync_def refuse_if_unusable_def split: sum.splits)

lemma deletes_open:
  "gate_for_use db = Inr u \<Longrightarrow> base_apply_deletes E requests (Live db) = apsnd Live (apply_deletes E requests db)"
  by (auto simp: base_apply_deletes_def gate_for_use_def split: sum.splits prod.splits)

lemma session_gate_open: "session E db \<Longrightarrow> gate_for_use db = Inr ()"
  by (simp add: session_def)

section \<open>The two kinds of handle\<close>

text \<open>
  What a kind of handle provides: the calls through their gates, an insertion that stores a value
  with the given outcome in a container of its mode or refuses the payload, and a lookup that reads
  the active versions of its mode.
\<close>

locale typed_calls =
  fixes calls :: "('v, 'p, 'r) handle_calls" and mode :: storage_mode and result_of :: "'v \<Rightarrow> 'r"
    and fits :: "'p \<Rightarrow> bool" and made :: "'p \<Rightarrow> u32 \<Rightarrow> 'r" and good :: "'v \<Rightarrow> bool"
    and ins :: "'v env \<Rightarrow> raw_outpoint \<Rightarrow> 'p \<Rightarrow> u32 \<Rightarrow> 'v database \<Rightarrow> bool result \<times> 'v database"
    and look :: "'v database \<Rightarrow> raw_outpoint \<Rightarrow> 'r option"
  assumes insert_call: "call_insert calls E key payload height = through gate_for_use (ins E key payload height)"
    and find_call: "call_find calls key = through gate_for_use
        (\<lambda>db. (case look db key of None \<Rightarrow> Inl Not_resolved | Some r \<Rightarrow> Inr r, db))"
    and resolve_call: "call_resolve calls E requests = through gate_for_use (resolve_with E result_of requests)"
    and insertion: "ins E key payload height db = (r, db') \<Longrightarrow>
        \<not> fits payload \<and> r = Inl Value_too_large \<and> db' = db
        \<or> (\<exists>i val. fits payload \<and> i \<in> set (indices_of mode) \<and> result_of val = made payload height \<and> good val
            \<and> insert_in_index E i key val height db = (r, db'))"
    and lookup_stored: "look db key = Some x \<Longrightarrow>
        \<exists>v. find_in_latest_version db (indices_of mode) key = Some v \<and> x = result_of v"
begin

lemma insert_step:
  assumes sg: "strong_guarantee E" and ses: "session E db" and mode: "db_mode db = mode"
    and spare: "spare_numbers db" and run: "ins E key payload height db = (r, db')"
  shows "store_allows fits made (Insert key payload height) (Holding (entries_as result_of db)) (Inserting r)
      (view_as result_of (Live db'))
    \<and> healthy_in mode E (Live db') \<and> (all_stored good db \<and> gate_for_use db' = Inr () \<longrightarrow> all_stored good db')"
proof -
  consider (large) "\<not> fits payload" "r = Inl Value_too_large" "db' = db"
    | (fits) i val where "fits payload" "i \<in> set (indices_of mode)" "result_of val = made payload height" "good val"
        "insert_in_index E i key val height db = (r, db')"
    using insertion[OF run] by blast
  then show ?thesis
  proof cases
    case large
    then show ?thesis using ses mode by (simp add: insert_large healthy_live session_gate_open)
  next
    case (fits i val)
    have i: "i \<in> set (indices_of (db_mode db))" using fits(2) mode by simp
    note spec = insert_session[OF sg ses spare i fits(5)]
    have mode': "db_mode db' = mode" using spec mode by simp
    show ?thesis
    proof (cases r)
      case (Inl e)
      then show ?thesis
        using spec mode' by (auto simp: insert_full insert_stuck healthy_in_def session_def entries_as_def all_stored_def)
    next
      case (Inr b)
      show ?thesis
      proof (cases b)
        case True
        then have new: "session E db'" "stored db' = add_mset (key, val) (stored db)" using spec Inr by simp_all
        have "gate_for_use db' = Inr ()" using new(1) by (simp add: session_def)
        then show ?thesis
          using entries_insert[OF new(2), of result_of] insert_new[of fits payload made key height, OF fits(1)]
            fits(3,4) Inr True healthy_live[OF new(1) mode'] new(2)
          by (simp add: all_stored_def)
      next
        case False
        then obtain x where old: "session E db'" "stored db' = stored db" "(key, x) \<in># stored db" using spec Inr by auto
        have "gate_for_use db' = Inr ()" "entries_as result_of db' = entries_as result_of db"
          using old by (simp_all add: session_def entries_as_def)
        then show ?thesis
          using insert_known[where fits = fits and made = made, OF entries_member[OF old(3), of result_of] fits(1)] Inr False
            healthy_live[OF old(1) mode'] old(2)
          by (simp add: all_stored_def)
      qed
    qed
  qed
qed

lemma find_step:
  assumes ses: "session E db" and mode: "db_mode db = mode"
  shows "store_allows fits made (Find key) (Holding (entries_as result_of db))
    (Finding (case look db key of None \<Rightarrow> Inl Not_resolved | Some r \<Rightarrow> Inr r)) (Holding (entries_as result_of db))"
proof (cases "look db key")
  case None
  then show ?thesis by (simp add: find_miss)
next
  case (Some x)
  then obtain v where v: "find_in_latest_version db (indices_of mode) key = Some v" "x = result_of v"
    using lookup_stored by blast
  then have "(key, v) \<in># stored db" using find_session[OF ses v(1)] mode by simp
  from find_hit[OF entries_member[OF this, of result_of]] show ?thesis using Some v(2) by simp
qed

lemma resolve_step:
  assumes ses: "session E db" and mode: "db_mode db = mode" and run: "resolve_with E result_of requests db = (r, db')"
  shows "store_allows fits made (Resolve requests) (Holding (entries_as result_of db)) (Resolving r) (view_as result_of (Live db'))
    \<and> healthy_in mode E (Live db') \<and> stored db' = stored db"
proof -
  have inv: "store_inv E db" using ses by (simp add: session_def)
  note ses' = resolve_session[OF ses run]
  note spec = resolve_with_spec[OF inv run]
  have view: "view_as result_of (Live db') = Holding (entries_as result_of db)"
    using ses'(1) spec(2) by (simp add: session_def entries_as_def)
  have "store_allows fits made (Resolve requests) (Holding (entries_as result_of db)) (Resolving r) (Holding (entries_as result_of db))"
  proof (cases r)
    case (Inl e)
    then show ?thesis using spec(3) resolve_failed by simp
  next
    case (Inr res)
    have "set (rs_found res) \<subseteq> set_mset (entries_as result_of db)"
      using spec(5)[OF Inr] entries_member by fastforce
    then show ?thesis using resolve_done[OF spec(4)[OF Inr]] Inr by simp
  qed
  then show ?thesis using view healthy_live ses' mode spec(2) by simp
qed

lemma delete_step:
  assumes ses: "session E db" and mode: "db_mode db = mode" and run: "apply_deletes E requests db = (p, db')"
  shows "store_allows fits made (Delete requests) (Holding (entries_as result_of db)) (Deleting p) (view_as result_of (Live db'))
    \<and> healthy_in mode E (Live db') \<and> stored db' \<subseteq># stored db"
proof -
  have inv: "store_inv E db" using ses by (simp add: session_def)
  note ses' = delete_session[OF ses run] and spec = apply_deletes_spec[OF inv run]
  obtain es where es: "map fst es = map dd_key (dp_erased p)" "stored db = stored db' + mset es" using spec by blast
  let ?es = "map (map_prod id result_of) es"
  have bal: "entries_as result_of db = entries_as result_of db' + mset ?es" by (simp add: entries_as_def es(2))
  have keys: "map fst ?es = map dd_key (dp_erased p)" using es(1) by (simp add: comp_def)
  have total: "mset (dp_erased p) + mset (dp_absent p) + mset (dp_unresolved p) = mset (working_set_of dd_key requests)"
    using spec by blast
  have view: "view_as result_of (Live db') = Holding (entries_as result_of db')" using ses'(1) by (simp add: session_def)
  have "store_allows fits made (Delete requests) (Holding (entries_as result_of db' + mset ?es)) (Deleting p) (Holding (entries_as result_of db'))"
  proof (cases "dp_error p")
    case None
    then have whole: "dp_unresolved p = []"
      "\<forall>r \<in> set (dp_absent p). \<forall>f \<in> store_files db'. \<not> file_holds db' f (dd_key r)"
      using spec by simp_all
    have "\<forall>r \<in> set (dp_absent p). dd_key r \<notin> fst ` set_mset (entries_as result_of db')"
      using whole(2) stored_in_file[of E db'] spec by (fastforce simp: entries_as_def)
    then show ?thesis
      using delete_done[where fits = fits and made = made and requests = requests, OF _ keys whole(1) None] total whole(1)
      by simp
  next
    case (Some e)
    then have part: "e = Version_unreadable" "dp_absent p = []" using spec by simp_all
    then show ?thesis
      using delete_partial[where fits = fits and made = made and requests = requests, OF _ keys part(2)] total Some
      by simp
  qed
  then show ?thesis using view healthy_live ses' mode bal es(2) by simp
qed

lemma compact_step:
  assumes ses: "session E db" and mode: "db_mode db = mode" and spare: "spare_numbers db"
    and run: "compact_all E height_of db = (r, db')"
  shows "store_allows fits made Compact (Holding (entries_as result_of db)) (Finished r) (view_as result_of (Live db')) \<and> healthy_in mode E (Live db')
    \<and> (gate_for_use db' = Inr () \<longrightarrow> stored db' = stored db)"
proof -
  note spec = compact_session[OF ses spare run]
  have mode: "db_mode db' = mode" using spec(1) mode by simp
  show ?thesis
  proof (cases "db_cleanup_pending db'")
    case True
    then obtain e where "r = Inl e" using spec(3) by (cases r) auto
    then show ?thesis using spec(3)[OF True] compact_stuck mode by (simp add: healthy_in_def)
  next
    case False
    then have ok: "session E db'" "stored db' = stored db" using spec(2) by simp_all
    then have "view_as result_of (Live db') = Holding (entries_as result_of db)" by (simp add: session_def entries_as_def)
    then show ?thesis using compact_any healthy_live[OF ok(1) mode] ok(2) by simp
  qed
qed

lemma sync_step:
  assumes ses: "session E db" and mode: "db_mode db = mode" and run: "sync_database E db = (r, db')"
  shows "view_as result_of (Live db') = Holding (entries_as result_of db) \<and> healthy_in mode E (Live db') \<and> stored db' = stored db"
proof -
  note spec = sync_spec[OF run]
  have eq: "db' = db\<lparr>db_disk := db_disk db', db_dirty_versions := db_dirty_versions db'\<rparr>"
    and same: "same_disk (db_disk db) (db_disk db')" using spec by blast+
  have f: "db_mode db' = db_mode db" "db_database_id db' = db_database_id db" "db_capacity db' = db_capacity db"
    "db_entries_count db' = db_entries_count db" "db_file_cache db' = db_file_cache db"
    "db_integrity_latched db' = db_integrity_latched db" "db_cleanup_pending db' = db_cleanup_pending db"
    "db_inspection_only db' = db_inspection_only db" "db_mapped db' = db_mapped db"
    "db_current_versions db' = db_current_versions db" "db_catalogs db' = db_catalogs db"
    by (subst eq, simp)+
  have shape: "same_shape db db'" using f by (simp add: same_shape_def)
  have files: "files (db_disk db') = files (db_disk db)" using same by (simp add: same_disk_def)
  have inv: "store_inv E db" using ses by (simp add: session_def)
  have st: "store_inv E db'" "stored db' = stored db"
    using store_inv_same_files[OF inv shape files] inv by (simp_all add: f store_inv_def)
  have "session E db'"
    using ses st f shape_gate[OF shape] creatable_cong[OF f(2,3)] same_disk_lookup[OF same] by (simp add: session_def)
  then show ?thesis using st(2) f(1) mode by (simp add: healthy_live session_gate_open entries_as_def)
qed

text \<open>The steps of a handle that is closed, and of one that refuses.\<close>

lemma shut_step:
  "handle_step calls E c (Shut d) = (if c = Close then Done else refused c Closed, Shut d)"
  by (cases c) (simp_all add: insert_call find_call resolve_call base_apply_deletes_def
      base_compact_all_def base_sync_def base_size_def base_close_def through_shut)

lemma refusing_step:
  assumes "gate_for_use db = Inl e" "c \<noteq> Close"
  shows "\<exists>a. handle_step calls E c (Live db) = (a, Live db) \<and> store_allows fits made c (Refusing e) a (Refusing e)"
proof -
  obtain e' where sync: "base_sync E (Live db) = (Inl e', Live db)" using sync_refused[OF assms(1)] by blast
  have use: "handle_step calls E c (Live db) = (refused c e, Live db)" if "c \<notin> {Sync, Size, Close}"
    using assms(1) that
    by (cases c) (simp_all add: insert_call find_call resolve_call deletes_refused
        base_compact_all_def through_refused)
  consider "c \<notin> {Sync, Size, Close}" | "c = Sync" | "c = Size" using assms(2) by blast
  then show ?thesis
  proof cases
    case 1
    then show ?thesis using use refusing by blast
  next
    case 2
    then show ?thesis using sync refusing_sync by auto
  next
    case 3
    then show ?thesis using refusing_size by auto
  qed
qed

lemma serving_step:
  assumes sg: "strong_guarantee E" and ses: "session E db" and mode: "db_mode db = mode"
    and spare: "numbers_left c (Live db)" and run: "handle_step calls E c (Live db) = (a, h')"
  shows "store_allows fits made c (Holding (entries_as result_of db)) a (view_as result_of h') \<and> healthy_in mode E h'
    \<and> (all_stored good db \<longrightarrow> handle_stores good h')"
proof -
  have gate: "gate_for_use db = Inr ()" using ses by (simp add: session_def)
  note open_simps = through_open[where gate = gate_for_use, OF gate] through_open[where gate = gate_for_sync, OF sync_gate_open[OF gate]]
  show ?thesis
  proof (cases c)
    case (Insert key payload height)
    obtain r db' where r: "ins E key payload height db = (r, db')" by fastforce
    then have "a = Inserting r" "h' = Live db'"
      using run Insert by (simp_all add: insert_call open_simps)
    then show ?thesis using insert_step[OF sg ses mode _ r] spare Insert
      by (auto simp: handle_stores_def numbers_left_def)
  next
    case (Find key)
    then have "a = Finding (case look db key of None \<Rightarrow> Inl Not_resolved | Some r \<Rightarrow> Inr r)" "h' = Live db"
      using run by (simp_all add: find_call open_simps)
    then show ?thesis
      using find_step[OF ses mode] Find gate healthy_live[OF ses mode] by (simp add: handle_stores_def)
  next
    case (Resolve requests)
    obtain r db' where r: "resolve_with E result_of requests db = (r, db')" by fastforce
    then have "a = Resolving r" "h' = Live db'"
      using run Resolve by (simp_all add: resolve_call open_simps)
    then show ?thesis using resolve_step[OF ses mode r] Resolve by (auto simp: handle_stores_def all_stored_def)
  next
    case (Delete requests)
    obtain p db' where r: "apply_deletes E requests db = (p, db')" by fastforce
    then have "a = Deleting p" "h' = Live db'"
      using run Delete by (simp_all add: deletes_open[OF gate])
    then show ?thesis
      using delete_step[OF ses mode r] Delete all_stored_sub by (auto simp: handle_stores_def)
  next
    case Compact
    obtain r db' where r: "compact_all E (call_height_of calls) db = (r, db')" by fastforce
    then have "a = Finished r" "h' = Live db'"
      using run Compact by (simp_all add: base_compact_all_def open_simps)
    then show ?thesis using compact_step[OF ses mode _ r] spare Compact
      by (auto simp: handle_stores_def all_stored_def numbers_left_def)
  next
    case Sync
    obtain r db' where r: "sync_database E db = (r, db')" by fastforce
    then have "a = Finished r" "h' = Live db'"
      using run Sync by (simp_all add: base_sync_def open_simps)
    then show ?thesis
      using sync_step[OF ses mode r] sync_any Sync by (auto simp: handle_stores_def all_stored_def)
  next
    case Size
    then have "a = Sized (word_of_nat (size (entries_as result_of db)))" "h' = Live db"
      using run ses by (simp_all add: base_size_def database_size_def session_def size_entries)
    then show ?thesis using size_holding Size gate healthy_live[OF ses mode] by (simp add: handle_stores_def)
  next
    case Close
    then have "a = Done" "view_as result_of h' = Gone" "healthy_in mode E h'" "handle_stores good h'"
      using run by (auto simp: base_close_def healthy_in_def handle_stores_def)
    then show ?thesis using close Close by simp
  qed
qed

lemma step_refines:
  assumes sg: "strong_guarantee E" and ok: "healthy_in mode E h"
    and spare: "numbers_left c h"
    and run: "handle_step calls E c h = (a, h')"
  shows "store_allows fits made c (view_as result_of h) a (view_as result_of h') \<and> healthy_in mode E h' \<and> (handle_stores good h \<longrightarrow> handle_stores good h')"
proof (cases h)
  case (Shut d)
  have "a = (if c = Close then Done else refused c Closed)" "h' = Shut d"
    using run shut_step[of E c d] Shut by auto
  then show ?thesis using close gone[of c] Shut by (auto simp: healthy_in_def)
next
  case (Live db)
  show ?thesis
  proof (cases "gate_for_use db")
    case (Inr u)
    then have "session E db" "db_mode db = mode" using ok Live by (simp_all add: healthy_in_def)
    from serving_step[OF sg this] show ?thesis
      using spare run Live Inr by (simp add: handle_stores_def)
  next
    case (Inl e)
    show ?thesis
    proof (cases "c = Close")
      case True
      then show ?thesis using run Live close by (auto simp: base_close_def healthy_in_def handle_stores_def)
    next
      case False
      then show ?thesis using refusing_step[OF Inl False, of E] run Live ok Inl by auto
    qed
  qed
qed

lemma run_refines:
  assumes sg: "strong_guarantee E" and "healthy_in mode E h" "numbers_last calls E cs h" "handle_run calls E cs h = (answers, h')"
  shows "store_run fits made cs (view_as result_of h) answers (view_as result_of h') \<and> healthy_in mode E h' \<and> (handle_stores good h \<longrightarrow> handle_stores good h')"
  using assms(2-)
proof (induction cs arbitrary: h answers)
  case Nil
  then show ?case by (simp add: run_nil)
next
  case (Cons c cs)
  obtain a h1 where one: "handle_step calls E c h = (a, h1)" by fastforce
  obtain rest_answers where rest: "handle_run calls E cs h1 = (rest_answers, h')" and ans: "answers = a # rest_answers"
    using Cons.prems(3) one by (auto split: prod.splits)
  have spare: "numbers_left c h" and later: "numbers_last calls E cs h1"
    using Cons.prems(2) one by simp_all
  note step = step_refines[OF sg Cons.prems(1) spare one]
  note IH = Cons.IH[OF _ later rest]
  show ?case using step IH run_cons ans by blast
qed

end

end
