(* ===== verification/Store_Machine.thy ===== *)
theory Store_Machine
  imports Handle_Machine
begin

text \<open>
  The two kinds of handle, \<open>full_db\<close> and \<open>reference_db\<close> of \<open>src/database.cpp\<close>, as interpretations of
  \<open>typed_calls\<close>: both implement the abstract store, the one over payloads that fit the largest class,
  the other over the positions in a block file.
\<close>

section \<open>full\_db\<close>

type_synonym full_call = "bytes store_call"
type_synonym full_answer = "full_find_result store_answer"

definition full_calls :: "(utxo_value, bytes, full_find_result) handle_calls" where
  "full_calls = \<lparr>call_insert = full_db_insert, call_find = full_db_find, call_resolve = full_db_resolve,
     call_height_of = uv_block_height\<rparr>"

abbreviation full_step :: "utxo_value env \<Rightarrow> full_call \<Rightarrow> utxo_value handle \<Rightarrow> full_answer \<times> utxo_value handle" where
  "full_step \<equiv> handle_step full_calls"

abbreviation full_run ::
  "utxo_value env \<Rightarrow> full_call list \<Rightarrow> utxo_value handle \<Rightarrow> full_answer list \<times> utxo_value handle" where
  "full_run \<equiv> handle_run full_calls"

definition fits_largest :: "bytes \<Rightarrow> bool" where
  "fits_largest payload \<longleftrightarrow> length payload \<le> container_capacities ! 4"

definition full_entry :: "bytes \<Rightarrow> u32 \<Rightarrow> full_find_result" where
  "full_entry payload height = \<lparr>ff_data = payload, ff_block_height = height\<rparr>"

abbreviation allowed :: "full_call \<Rightarrow> full_find_result view \<Rightarrow> full_answer \<Rightarrow> full_find_result view \<Rightarrow> bool" where
  "allowed \<equiv> store_allows fits_largest full_entry"

abbreviation allowed_run ::
  "full_call list \<Rightarrow> full_find_result view \<Rightarrow> full_answer list \<Rightarrow> full_find_result view \<Rightarrow> bool" where
  "allowed_run \<equiv> store_run fits_largest full_entry"

abbreviation entries_of :: "utxo_value database \<Rightarrow> (raw_outpoint \<times> full_find_result) multiset" where
  "entries_of \<equiv> entries_as full_result_of"

abbreviation view_of :: "utxo_value handle \<Rightarrow> full_find_result view" where
  "view_of \<equiv> view_as full_result_of"

abbreviation healthy :: "utxo_value env \<Rightarrow> utxo_value handle \<Rightarrow> bool" where
  "healthy \<equiv> healthy_in Full_mode"

abbreviation never_exhausted :: "utxo_value env \<Rightarrow> full_call list \<Rightarrow> utxo_value handle \<Rightarrow> bool" where
  "never_exhausted \<equiv> numbers_last full_calls"

text \<open>A stored value sits in the smallest class that holds its payload.\<close>

definition well_typed :: "utxo_value \<Rightarrow> bool" where
  "well_typed v \<longleftrightarrow> uv_actual_size v \<le> container_capacities ! 4
     \<and> length (uv_data v) = container_capacities ! get_index_from_size (uv_actual_size v)"

abbreviation typed_handle :: "utxo_value handle \<Rightarrow> bool" where
  "typed_handle \<equiv> handle_stores well_typed"

lemma capacity_four: "container_capacities ! 4 = 10234"
  by (simp add: container_capacities_def container_sizes_def data_capacity_def)

lemma full_insert_cases:
  assumes "full_insert E key value height db = (r, db')"
  obtains (large) "\<not> fits_largest value" "r = Inl Value_too_large" "db' = db"
  | (fits) i val where "fits_largest value" "i \<in> set full_indices"
      "full_result_of val = full_entry value height" "well_typed val"
      "insert_in_index E i key val height db = (r, db')"
proof (cases "length value \<le> 10234")
  case True
  let ?i = "get_index_from_size (length value)"
  let ?v = "set_data (container_sizes ! ?i) value (fresh_value (container_sizes ! ?i) height)"
  have idx: "?i < container_count" "?i \<in> {0, 1, 2, 3, 4}"
    using True by (auto simp: get_index_from_size_cases container_count_def container_sizes_def)
  have fits: "length value \<le> container_capacities ! ?i"
    using True by (auto simp: get_index_from_size_cases container_capacities_def container_sizes_def data_capacity_def)
  have cap: "container_capacities ! ?i = data_capacity (container_sizes ! ?i)"
    using idx(2) by (auto simp: container_capacities_def container_sizes_def data_capacity_def)
  have "get_data ?v = value" by (rule get_data_in_class[OF fits idx(1)])
  then have one: "full_result_of ?v = full_entry value height"
    by (simp add: full_result_of_def full_entry_def set_data_def fresh_value_def Let_def)
  have bits: "data_capacity (container_sizes ! ?i) < 2 ^ size_type_bits (container_sizes ! ?i)"
    using idx(2) by (auto simp: container_sizes_def data_capacity_def size_type_bits_def)
  have "uv_actual_size ?v = length value" "length (uv_data ?v) = data_capacity (container_sizes ! ?i)"
    using fits cap bits by (simp_all add: set_data_def Let_def)
  then have two: "well_typed ?v"
    using True cap by (simp add: well_typed_def capacity_four)
  have three: "insert_in_index E (word_of_nat ?i) key ?v height db = (r, db')"
    using assms idx(1) by (simp add: full_insert_def Let_def)
  have "word_of_nat ?i \<in> set full_indices" using idx(2) by (auto simp: full_indices_def)
  then show ?thesis using that(2)[OF _ _ one two three] True by (simp add: fits_largest_def capacity_four)
next
  case False
  then have "\<not> get_index_from_size (length value) < container_count"
    by (auto simp: get_index_from_size_cases container_count_def container_sizes_def)
  then show ?thesis using that(1) assms False by (simp add: full_insert_def fits_largest_def capacity_four)
qed

interpretation full: typed_calls full_calls Full_mode full_result_of fits_largest full_entry well_typed
  full_insert full_find
proof
  fix E :: "utxo_value env" and key payload height r and db db' :: "utxo_value database"
  assume "full_insert E key payload height db = (r, db')"
  then show "\<not> fits_largest payload \<and> r = Inl Value_too_large \<and> db' = db
      \<or> (\<exists>i val. fits_largest payload \<and> i \<in> set (indices_of Full_mode) \<and> full_result_of val = full_entry payload height
          \<and> well_typed val \<and> insert_in_index E i key val height db = (r, db'))"
    by (cases rule: full_insert_cases) (auto simp: indices_of_def)
qed (auto simp: full_calls_def full_db_insert_def full_db_find_def full_db_resolve_def full_resolve_def[abs_def]
    full_find_def indices_of_def)

section \<open>reference\_db\<close>

text \<open>The payload is a position: the number of a block file and the offset in it.\<close>

type_synonym reference_call = "(u32 \<times> u32) store_call"
type_synonym reference_answer = "reference_find_result store_answer"

definition reference_calls :: "(reference_value, u32 \<times> u32, reference_find_result) handle_calls" where
  "reference_calls = \<lparr>call_insert = (\<lambda>E key (file_number, offset) height. reference_db_insert E key file_number offset height),
     call_find = reference_db_find, call_resolve = reference_db_resolve, call_height_of = rv_height\<rparr>"

abbreviation reference_run ::
  "reference_value env \<Rightarrow> reference_call list \<Rightarrow> reference_value handle \<Rightarrow> reference_answer list \<times> reference_value handle" where
  "reference_run \<equiv> handle_run reference_calls"

definition reference_entry :: "u32 \<times> u32 \<Rightarrow> u32 \<Rightarrow> reference_find_result" where
  "reference_entry position height =
    \<lparr>rf_block_height = height, rf_file_number = fst position, rf_offset = snd position\<rparr>"

interpretation reference: typed_calls reference_calls Reference_mode reference_result_of "\<lambda>_. True" reference_entry
  "\<lambda>_. True" "\<lambda>E key (file_number, offset) height. reference_insert_typed E key height file_number offset"
  reference_find_typed
proof
  fix E :: "reference_value env" and key payload height r and db db' :: "reference_value database"
  assume "(case payload of (file_number, offset) \<Rightarrow> \<lambda>height. reference_insert_typed E key height file_number offset)
      height db = (r, db')"
  then show "\<not> True \<and> r = Inl Value_too_large \<and> db' = db
      \<or> (\<exists>i val. True \<and> i \<in> set (indices_of Reference_mode) \<and> reference_result_of val = reference_entry payload height
          \<and> True \<and> insert_in_index E i key val height db = (r, db'))"
    by (intro disjI2 exI[of _ reference_sentinel_index]
          exI[of _ "\<lparr>rv_height = height, rv_file_number = fst payload, rv_offset = snd payload\<rparr>"])
      (cases payload, simp add: reference_insert_typed_def reference_result_of_def reference_entry_def indices_of_def)
qed (auto simp: reference_calls_def reference_db_insert_def reference_db_find_def reference_db_resolve_def
    reference_resolve_def[abs_def] reference_find_typed_def indices_of_def split: prod.split)

end
