(* ===== verification/Store_Runs.thy ===== *)
theory Store_Runs
  imports Store_Machine Crash_Reopen
begin

text \<open>
  What the abstract store gives for runs of a handle, the handle that an open makes, and examples.
\<close>

section \<open>Balances of the abstract store\<close>

text \<open>The entries the calls of a run put in, and the keys they took out, read off the answers.\<close>

fun entry_in :: "('p \<Rightarrow> u32 \<Rightarrow> 'r) \<Rightarrow> 'p store_call \<Rightarrow> 'r store_answer \<Rightarrow> (raw_outpoint \<times> 'r) multiset" where
  "entry_in made (Insert key payload height) (Inserting (Inr True)) = {#(key, made payload height)#}"
| "entry_in made _ _ = {#}"

fun keys_out :: "'r store_answer \<Rightarrow> raw_outpoint multiset" where
  "keys_out (Deleting p) = image_mset dd_key (mset (dp_erased p))"
| "keys_out _ = {#}"

definition put_in ::
  "('p \<Rightarrow> u32 \<Rightarrow> 'r) \<Rightarrow> 'p store_call list \<Rightarrow> 'r store_answer list \<Rightarrow> (raw_outpoint \<times> 'r) multiset" where
  "put_in made cs answers = (\<Sum>(c, a) \<leftarrow> zip cs answers. entry_in made c a)"

abbreviation entries_in :: "full_call list \<Rightarrow> full_answer list \<Rightarrow> (raw_outpoint \<times> full_find_result) multiset" where
  "entries_in \<equiv> put_in full_entry"

definition all_keys_out :: "'r store_answer list \<Rightarrow> raw_outpoint multiset" where
  "all_keys_out answers = (\<Sum>a \<leftarrow> answers. keys_out a)"

lemma allowed_closed_view:
  assumes "store_allows fits made c s a s'" "\<forall>M. s \<noteq> Holding M"
  shows "s' \<noteq> Holding M'"
  using assms by cases auto

lemma run_closed_view:
  "store_run fits made cs s answers s' \<Longrightarrow> \<forall>M. s \<noteq> Holding M \<Longrightarrow> s' \<noteq> Holding M'"
  by (induction rule: store_run.induct) (auto dest: allowed_closed_view)

text \<open>One call: what is there afterwards, with what was taken out, is what was there and was put in.\<close>

lemma allowed_balance:
  assumes "store_allows fits made c (Holding M) a (Holding M')"
  shows "\<exists>out. M' + out = M + entry_in made c a \<and> image_mset fst out = keys_out a"
  using assms
proof cases
  case (delete_done p requests es)
  have "image_mset fst (mset es) = image_mset dd_key (mset (dp_erased p))"
    using arg_cong[OF delete_done(5), of mset] by simp
  then show ?thesis using delete_done(1-3) by (intro exI[of _ "mset es"]) simp
next
  case (delete_partial p requests es)
  have "image_mset fst (mset es) = image_mset dd_key (mset (dp_erased p))"
    using arg_cong[OF delete_partial(5), of mset] by simp
  then show ?thesis using delete_partial(1-3) by (intro exI[of _ "mset es"]) simp
qed simp_all

lemma run_balance:
  "store_run fits made cs s answers s' \<Longrightarrow> s = Holding M \<Longrightarrow> s' = Holding M' \<Longrightarrow>
   \<exists>out. M' + out = M + put_in made cs answers \<and> image_mset fst out = all_keys_out answers"
proof (induction arbitrary: M rule: store_run.induct)
  case (run_nil s)
  then show ?case by (simp add: put_in_def all_keys_out_def)
next
  case (run_cons c s a s1 cs answers s2)
  obtain M1 where M1: "s1 = Holding M1"
    using run_closed_view[OF run_cons.hyps(2)] run_cons.prems(2) by (cases s1) auto
  obtain out1 where one: "M1 + out1 = M + entry_in made c a" "image_mset fst out1 = keys_out a"
    using allowed_balance[of fits made c M a M1] run_cons.hyps(1) run_cons.prems(1) M1 by blast
  obtain out2 where two: "M' + out2 = M1 + put_in made cs answers" "image_mset fst out2 = all_keys_out answers"
    using run_cons.IH[OF M1 run_cons.prems(2)] by blast
  have "M' + (out1 + out2) = M1 + out1 + put_in made cs answers" using two(1) by (simp add: ac_simps)
  also have "\<dots> = M + put_in made (c # cs) (a # answers)" by (simp add: one(1) put_in_def ac_simps)
  finally have "M' + (out1 + out2) = M + put_in made (c # cs) (a # answers)" .
  moreover have "image_mset fst (out1 + out2) = all_keys_out (a # answers)"
    by (simp add: one(2) two(2) all_keys_out_def)
  ultimately show ?case by blast
qed

section \<open>Handles an open makes\<close>

lemma image_mset_sum: "image_mset f (\<Sum>x \<in> A. g x) = (\<Sum>x \<in> A. image_mset f (g x))"
  by (induction A rule: infinite_finite_induct) simp_all

lemma open_index_records:
  assumes "open_index E intent i db = (r, db')"
  shows "same_records (db_disk db) (db_disk db')"
proof -
  let ?v = "catalog_active (db_catalogs db i)"
  obtain c db1 where one: "(if vc_versions (db_catalogs db i) = [] then create_container E i ?v db
      else apfst Returned (open_existing_container E i ?v db)) = (c, db1)" by fastforce
  have a: "same_records (db_disk db) (db_disk db1)"
  proof (cases "vc_versions (db_catalogs db i) = []")
    case True
    then show ?thesis using one create_container_touches same_records_touches[of "{data_path i ?v}"] by fastforce
  next
    case False
    then obtain x where "open_existing_container E i ?v db = (x, db1)"
      using one by (cases "open_existing_container E i ?v db") simp
    then show ?thesis using open_existing_container_same same_records_same by blast
  qed
  obtain x db2 where sv: "survey_index E i ?v db1 = (x, db2)" by fastforce
  have b: "same_records (db_disk db1) (db_disk db2)" by (rule same_records_same[OF survey_index_same[OF sv]])
  consider "db' = db" | "db' = db1" | "db' = db2"
    using assms one sv by (auto simp: open_index_def Let_def split: if_splits call.splits sum.splits)
  then show ?thesis using a same_records_trans[OF a b] by cases simp_all
qed

lemma open_indices_records:
  "open_indices E intent is db = (r, db') \<Longrightarrow> same_records (db_disk db) (db_disk db')"
proof (induction "is" arbitrary: db)
  case (Cons i "is")
  obtain r1 db1 where one: "open_index E intent i db = (r1, db1)" by fastforce
  note a = open_index_records[OF one]
  show ?case
    using Cons.prems one a same_records_trans[OF a Cons.IH[of db1]]
    by (cases r1) (auto split: sum.splits)
qed simp

lemma open_containers_records:
  assumes "open_containers E intent db = (r, db')"
  shows "same_records (db_disk db) (db_disk db')"
proof -
  obtain r1 db1 where one: "list_catalogs E (indices_of (db_mode db)) db = (r1, db1)" by fastforce
  have a: "same_records (db_disk db) (db_disk db1)" by (rule same_records_same[OF list_catalogs_same[OF one]])
  show ?thesis
    using assms one a same_records_trans[OF a open_indices_records[of E intent _ db1 r db']]
    by (auto simp: open_containers_def split: sum.splits if_splits)
qed

lemma opened_session:
  assumes op: "opened E (\<lambda>db. configure_internal E remove mode Open_or_create (db\<lparr>db_capacity := capacities testing\<rparr>)) d
      = (Returned (Inr db), d')"
    and start: "distinct (map fst (files d))" "tables_ok d" "remove \<or> no_records (files d)"
  shows "session E db" "db_mode db = mode"
    and "i \<in> set (indices_of mode) \<Longrightarrow> contents db i = (if remove then {#} else stored_at (files d) i)"
proof -
  have run: "configure_internal E remove mode Open_or_create ((new_database d)\<lparr>db_capacity := capacities testing\<rparr>)
      = (Returned (Inr ()), db)"
    using op by (auto simp: opened_def split: prod.splits call.splits sum.splits)
  obtain d1 dbid where oc: "open_containers E Open_or_create ((new_database d)\<lparr>db_capacity := capacities testing,
        db_inspection_only := (Open_or_create = Inspection), db_lock_held := True, db_mode := mode,
        db_database_id := dbid, db_file_cache := new_file_cache dbid 1, db_entries_count := 0,
        db_disk := d1\<rparr>) = (Returned (Inr ()), db)"
    and len: "length dbid = 16" and idle: "idle d1" and tok: "tables_ok d1"
    and st: "\<And>i. stored_at (files d1) i = empty_at remove d i"
    by (rule configure_serves[OF run start], rule that)
  note sp = containers_serve[OF oc len idle tok]
  show "db_mode db = mode" by (rule sp(1))
  show "contents db i = (if remove then {#} else stored_at (files d) i)" if "i \<in> set (indices_of mode)"
    using sp(9) st that by (simp add: empty_at_def)
  have up: "\<forall>i \<in> set (indices_of (db_mode db)). up E Open_or_create db i" using sp(1,9) by simp
  have "lookup_file (db_disk db) (sidecar_path i v) = None" for i v
  proof -
    have "same_records d1 (db_disk db)" using open_containers_records[OF oc] by simp
    moreover have "lookup_file d1 (sidecar_path i v) = None"
      using idle by (simp add: idle_def no_records_def lookup_file_def)
    ultimately show ?thesis by (simp add: same_records_def)
  qed
  moreover have "creatable db i" if "i \<in> set (indices_of (db_mode db))" for i
    using sp(7,8) capacities_creatable[OF that] by (simp add: creatable_def)
  moreover have "gate_for_use db = Inr ()" using sp(2,4,5) by (simp add: gate_for_use_open)
  ultimately show "session E db"
    using up_store_inv[OF up sp(6)] sp(10) by (simp add: session_def database_size_def)
qed

text \<open>What a directory holds for a mode, and that a store that was opened holds it.\<close>

definition entries_at :: "storage_mode \<Rightarrow> ('v \<Rightarrow> 'r) \<Rightarrow> 'v disk \<Rightarrow> (raw_outpoint \<times> 'r) multiset" where
  "entries_at mode result_of d =
     (\<Sum>i \<in> set (indices_of mode). image_mset (map_prod id result_of) (stored_at (files d) i))"

lemma opened_entries:
  assumes op: "opened E (\<lambda>db. configure_internal E remove mode Open_or_create (db\<lparr>db_capacity := capacities testing\<rparr>)) d
      = (Returned (Inr db), d')"
    and start: "distinct (map fst (files d))" "tables_ok d" "remove \<or> no_records (files d)"
  shows "entries_as result_of db = (\<Sum>i \<in> set (indices_of mode).
    if remove then {#} else image_mset (map_prod id result_of) (stored_at (files d) i))"
  using opened_session(2,3)[OF op start]
  by (auto simp: entries_as_def stored_def image_mset_sum intro!: sum.cong)

section \<open>Examples\<close>

lemma full_store_entries: "stored full_store = {#}"
proof -
  have "generation_bag (db_disk full_store) i 0 = {#}" if "i \<in> set full_indices" for i
    using full_store_lookup[OF that] by (simp add: generation_bag_def generation_def example_segment_def tbl_bag_def tbl_empty_def)
  then have "contents full_store i = {#}" if "i \<in> set full_indices" for i
    using that by (simp add: contents_def full_store_def)
  then show ?thesis by (simp add: stored_def full_store_fields indices_of_def)
qed

lemma full_store_session: "session calm_env full_store" "db_mode full_store = Full_mode" "spare_numbers full_store"
proof -
  have f: "db_file_cache full_store = new_file_cache (replicate 16 1) 1" "db_database_id full_store = replicate 16 1"
    "db_entries_count full_store = 0" "db_integrity_latched full_store = None" "\<not> db_inspection_only full_store"
    "db_catalogs full_store i = \<lparr>vc_versions = [0], vc_metadata = [], vc_highest_issued = 0\<rparr>" for i
    by (simp_all add: full_store_def empty_store_def example_db_def)
  show mode: "db_mode full_store = Full_mode" by (rule full_store_fields(1))
  have cache: "cache_inv (db_file_cache full_store)" "cached_keys (db_file_cache full_store) = {}"
    "fc_database_id (db_file_cache full_store) = replicate 16 1"
    by (simp_all add: f cache_inv_def cached_keys_def new_file_cache_def)
  have inv: "store_inv calm_env full_store"
    using full_store_serving(1) cache by (simp add: store_inv_def mode indices_of_def f(2))
  have "lookup_file (db_disk full_store) (sidecar_path i v) = None" for i v
    by (simp add: full_store_def lookup_file_def disk_of_def full_indices_def)
  then show "session calm_env full_store"
    using inv full_store_serving(2) full_store_entries
    by (simp add: session_def gate_for_use_open f full_store_fields mode indices_of_def)
  show "spare_numbers full_store" by (simp add: spare_numbers_def f)
qed

section \<open>Handles that refuse\<close>

lemma refused_step:
  assumes h: "view_of h = Refusing e \<or> view_of h = Gone \<and> e = Closed" and c: "c \<noteq> Close"
  shows "\<exists>a. full_step E c h = (a, h) \<and> (c \<notin> {Sync, Size} \<longrightarrow> a = refused c e)
    \<and> (c = Sync \<longrightarrow> (\<exists>e'. a = Finished (Inl e')))"
proof (cases h)
  case (Shut d)
  then show ?thesis using h c by (auto simp: full.shut_step)
next
  case (Live db)
  have gate: "gate_for_use db = Inl e"
    using h Live by (auto simp: view_as_def split: sum.splits)
  obtain a where a: "full_step E c h = (a, h)" "allowed c (Refusing e) a (Refusing e)"
    using full.refusing_step[OF gate c, of E] Live by blast
  show ?thesis
    using a c by (cases rule: store_allows.cases[OF a(2)]) auto
qed

section \<open>Properties\<close>

text \<open>
  C2: every run of calls on a handle of full mode, with a database that keeps its invariant and
  version numbers to spare, is a run of the abstract store: its answers are answers the abstract
  store may give, and the entries of the handle after it are the entries the abstract store then
  holds. The handle keeps its invariant, or refuses every later call with one error.
\<close>

theorem store_refines:
  assumes "strong_guarantee E" and "healthy E h" and "never_exhausted E cs h"
    and "full_run E cs h = (answers, h')"
  shows "allowed_run cs (view_of h) answers (view_of h') \<and> healthy E h'"
  using full.run_refines[OF assms] by blast

theorem store_refines_witness:
  "\<exists>answers h'. full_run calm_env [Size, Insert (replicate 36 7) [1, 2, 3] 9] (Live full_store) = (answers, h')
     \<and> allowed_run [Size, Insert (replicate 36 7) [1, 2, 3] 9] (Holding {#}) answers (view_of h')"
proof -
  let ?cs = "[Size, Insert (replicate 36 7) [1, 2, 3] 9]"
  obtain answers h' where run: "full_run calm_env ?cs (Live full_store) = (answers, h')" by fastforce
  have "strong_guarantee (calm_env :: utxo_value env)" by (simp add: strong_guarantee_def)
  moreover have "healthy calm_env (Live full_store)" using full_store_session healthy_live by blast
  moreover have "never_exhausted calm_env ?cs (Live full_store)"
    using full_store_session(3) by (simp add: numbers_left_def)
  moreover have "view_of (Live full_store) = Holding {#}"
    using full_store_session(1) full_store_entries by (simp add: session_def entries_as_def)
  ultimately show ?thesis using store_refines[OF _ _ _ run] run by auto
qed





text \<open>
  C11: from a directory to a run of calls. A store that was opened, with nothing or everything of what
  the directory held, and then worked on by any calls, holds at the end, as long as it does not
  refuse, exactly what it held at the start and what the successful insertions put in, less one entry
  with the right key for every deletion reported as erased.
\<close>

theorem opened_store_balances:
  assumes sg: "strong_guarantee E"
    and op: "opened E (\<lambda>db. configure_internal E remove Full_mode Open_or_create (db\<lparr>db_capacity := capacities testing\<rparr>)) d
      = (Returned (Inr db), d')"
    and start: "distinct (map fst (files d))" "tables_ok d" "remove \<or> no_records (files d)"
    and numbers: "never_exhausted E cs (Live db)"
    and run: "full_run E cs (Live db) = (answers, Live db')" and serving: "gate_for_use db' = Inr ()"
  shows "\<exists>out. entries_of db' + out
      = (\<Sum>i \<in> set full_indices. if remove then {#} else image_mset (map_prod id full_result_of) (stored_at (files d) i))
        + entries_in cs answers
    \<and> image_mset fst out = all_keys_out answers"
proof -
  note ses = opened_session[OF op start]
  have gate: "gate_for_use db = Inr ()" using ses(1) by (simp add: session_def)
  have "allowed_run cs (view_of (Live db)) answers (view_of (Live db'))"
    using full.run_refines[OF sg healthy_live[OF ses(1,2)] numbers run] by blast
  from run_balance[OF this] obtain out where out: "entries_of db' + out = entries_of db + entries_in cs answers"
    "image_mset fst out = all_keys_out answers"
    using gate serving by auto
  then show ?thesis
    using opened_entries[OF op start, of full_result_of] by (auto simp: indices_of_def)
qed

theorem opened_store_balances_witness:
  "\<exists>db d' answers db' out. opened calm_env (\<lambda>db. configure_internal calm_env False Full_mode Open_or_create
        (db\<lparr>db_capacity := capacities True\<rparr>)) (db_disk (close_database calm_env (layered_store Full_mode example_value)))
      = (Returned (Inr db), d')
    \<and> full_run calm_env [Size, Find old_key] (Live db) = (answers, Live db')
    \<and> entries_of db' + out = (\<Sum>i \<in> set full_indices. image_mset (map_prod id full_result_of)
        (stored_at (files (db_disk (close_database calm_env (layered_store Full_mode example_value)))) i))
      + entries_in [Size, Find old_key] answers"
proof -
  let ?rest = "layered_store Full_mode example_value :: utxo_value database"
  let ?d = "db_disk (close_database calm_env ?rest)" and ?cs = "[Size, Find old_key]"
  have rest: "at_rest calm_env ?rest" by (rule layered_at_rest)
  obtain db d' where op: "opened calm_env (\<lambda>x. configure_internal calm_env False Full_mode Open_or_create
        (x\<lparr>db_capacity := capacities True\<rparr>)) ?d = (Returned (Inr db), d')"
    using reopening[OF rest, of calm_env True] by auto
  have start: "distinct (map fst (files ?d))" "tables_ok ?d" "False \<or> no_records (files ?d)"
    using closed_disk(1,2)[OF rest] by (simp_all add: idle_def)
  note ses = opened_session[OF op start]
  have gate: "gate_for_use db = Inr ()" using ses(1) by (simp add: session_def)
  obtain answers where run: "full_run calm_env ?cs (Live db) = (answers, Live db)"
    by (simp add: full_calls_def full_db_find_def through_open[where gate = gate_for_use, OF gate])
  have "strong_guarantee (calm_env :: utxo_value env)" by (simp add: strong_guarantee_def)
  moreover have "never_exhausted calm_env ?cs (Live db)" by (simp add: numbers_left_def)
  ultimately show ?thesis
    using opened_store_balances[OF _ op start _ run gate] op run by (simp only: if_False) blast
qed

text \<open>
  C3: a store of reference mode keeps the same contract. Opened on a directory, with nothing of it
  wiped, and worked on by any calls, it answers as the abstract store may that starts with the entries
  of the directory, of which each is a position in a block file with its height; no payload is refused
  for its size. What the handle holds at the end, as long as it does not refuse, is what the directory
  held and what the successful insertions put in, less one entry with the right key for every deletion
  reported as erased.
\<close>

theorem reference_store_refines:
  assumes "strong_guarantee E"
    and "opened E (\<lambda>db. configure_internal E False Reference_mode Open_or_create (db\<lparr>db_capacity := capacities testing\<rparr>)) d
      = (Returned (Inr db), d')"
    and "distinct (map fst (files d))" "tables_ok d" "no_records (files d)"
    and "numbers_last reference_calls E cs (Live db)"
    and "reference_run E cs (Live db) = (answers, h')"
  shows "store_run (\<lambda>_. True) reference_entry cs (Holding (entries_at Reference_mode reference_result_of d)) answers
      (view_as reference_result_of h')
    \<and> healthy_in Reference_mode E h'
    \<and> (\<forall>M. view_as reference_result_of h' = Holding M \<longrightarrow> (\<exists>out. M + out
          = entries_at Reference_mode reference_result_of d + put_in reference_entry cs answers
        \<and> image_mset fst out = all_keys_out answers))"
proof -
  have start: "distinct (map fst (files d))" "tables_ok d" "False \<or> no_records (files d)" using assms(3-5) by simp_all
  note ses = opened_session[OF assms(2) start]
  have gate: "gate_for_use db = Inr ()" using ses(1) by (simp add: session_def)
  have "view_as reference_result_of (Live db) = Holding (entries_at Reference_mode reference_result_of d)"
    using gate opened_entries[OF assms(2) start] by (simp add: entries_at_def)
  then have run: "store_run (\<lambda>_. True) reference_entry cs (Holding (entries_at Reference_mode reference_result_of d)) answers
      (view_as reference_result_of h') \<and> healthy_in Reference_mode E h'"
    using reference.run_refines[OF assms(1) healthy_live[OF ses(1,2)] assms(6,7)] by auto
  then show ?thesis using run_balance by blast
qed

theorem reference_store_refines_witness:
  "\<exists>db d' answers h'. opened calm_env (\<lambda>db. configure_internal calm_env False Reference_mode Open_or_create
        (db\<lparr>db_capacity := capacities True\<rparr>)) (db_disk (close_database calm_env (layered_store Reference_mode example_entry)))
      = (Returned (Inr db), d')
    \<and> reference_run calm_env [Size, Delete [\<lparr>dd_key = old_key, dd_height = 5\<rparr>], Find new_key] (Live db) = (answers, h')
    \<and> store_run (\<lambda>_. True) reference_entry [Size, Delete [\<lparr>dd_key = old_key, dd_height = 5\<rparr>], Find new_key]
        (Holding (entries_at Reference_mode reference_result_of
          (db_disk (close_database calm_env (layered_store Reference_mode example_entry))))) answers
        (view_as reference_result_of h')"
proof -
  let ?rest = "layered_store Reference_mode example_entry :: reference_value database"
  let ?d = "db_disk (close_database calm_env ?rest)"
  let ?cs = "[Size, Delete [\<lparr>dd_key = old_key, dd_height = 5\<rparr>], Find new_key] :: reference_call list"
  have rest: "at_rest calm_env ?rest" by (rule layered_at_rest)
  obtain db d' where op: "opened calm_env (\<lambda>x. configure_internal calm_env False Reference_mode Open_or_create
        (x\<lparr>db_capacity := capacities True\<rparr>)) ?d = (Returned (Inr db), d')"
    using reopening[OF rest, of calm_env True] by auto
  have start: "distinct (map fst (files ?d))" "tables_ok ?d" "no_records (files ?d)"
    using closed_disk(1,2)[OF rest] by (simp_all add: idle_def)
  obtain answers h' where run: "reference_run calm_env ?cs (Live db) = (answers, h')" by fastforce
  have sg: "strong_guarantee (calm_env :: reference_value env)" by (simp add: strong_guarantee_def)
  have "numbers_last reference_calls calm_env ?cs (Live db)" by (simp add: numbers_left_def)
  from reference_store_refines[OF sg op start this run] show ?thesis using op run by blast
qed

end
