(* ===== verification/Census_Facts.thy ===== *)
theory Census_Facts
  imports Census Walk_Facts
begin

text \<open>
  What the census counts: one version, one class and the whole store. The two accumulators of the
  source share a contract, the locale \<open>counting\<close>; the walk over the versions is proved once inside
  it and interpreted for the classes of full mode and for reference mode.
\<close>

section \<open>Sums with a flag\<close>

lemma summing_True_iff: "summing (ok, a) b = (True, c) \<longleftrightarrow> ok \<and> checked_add a b = Some c"
  by (auto simp: summing_def split: option.splits)

lemma checked_add_word: "checked_add a b = Some c \<Longrightarrow> c = a + b"
  by (auto simp: checked_add_def split: if_splits)

lemma fold_figures_Some:
  assumes "fold_figures what tot part = Some new"
  shows "unat (cf_entries new) = unat (cf_entries tot) + unat (cf_entries part)"
    and "unat (cf_entry_payload_bytes new) = unat (cf_entry_payload_bytes tot) + unat (cf_entry_payload_bytes part)"
    and "unat (cf_segment_size_bytes new) = unat (cf_segment_size_bytes tot) + unat (cf_segment_size_bytes part)"
    and "census_figures.more new = census_figures.more tot"
proof -
  obtain ok1 e1 where 1: "summing (True, cf_entries tot) (cf_entries part) = (ok1, e1)" by fastforce
  obtain ok2 e2 where 2: "summing (ok1, cf_entry_payload_bytes tot) (cf_entry_payload_bytes part) = (ok2, e2)" by fastforce
  obtain ok3 e3 where 3: "summing (ok2, cf_object_padding_bytes tot) (cf_object_padding_bytes part) = (ok3, e3)" by fastforce
  obtain ok4 e4 where 4: "summing (ok3, cf_segment_size_bytes tot) (cf_segment_size_bytes part) = (ok4, e4)" by fastforce
  obtain ok5 e5 where 5: "summing (ok4, cf_segment_free_bytes tot) (cf_segment_free_bytes part) = (ok5, e5)" by fastforce
  obtain ok6 e6 where 6: "summing (ok5, cf_logical_file_bytes tot) (cf_logical_file_bytes part) = (ok6, e6)" by fastforce
  obtain ok7 e7 where 7: "summing (ok6, cf_occupied_slot_bytes tot) (cf_occupied_slot_bytes part) = (ok7, e7)" by fastforce
  obtain ok8 e8 where 8: "summing (ok7, cf_empty_slot_bytes tot) (cf_empty_slot_bytes part) = (ok8, e8)" by fastforce
  obtain ok9 e9 where 9: "summing (ok8, cf_estimated_group_metadata_bytes tot) (cf_estimated_group_metadata_bytes part) = (ok9, e9)" by fastforce
  note steps = 1 2 3 4 5 6 7 8 9
  have ok9: "ok9" using assms by (auto simp: fold_figures_def steps split: if_splits)
  have ok8: "ok8" using 9 ok9 by (simp add: summing_True_iff)
  have ok7: "ok7" using 8 ok8 by (simp add: summing_True_iff)
  have ok6: "ok6" using 7 ok7 by (simp add: summing_True_iff)
  have ok5: "ok5" using 6 ok6 by (simp add: summing_True_iff)
  have ok4: "ok4" using 5 ok5 by (simp add: summing_True_iff)
  have ok3: "ok3" using 4 ok4 by (simp add: summing_True_iff)
  have ok2: "ok2" using 3 ok3 by (simp add: summing_True_iff)
  have ok1: "ok1" using 2 ok2 by (simp add: summing_True_iff)
  have new: "cf_entries new = e1" "cf_entry_payload_bytes new = e2" "cf_segment_size_bytes new = e4"
    "census_figures.more new = census_figures.more tot"
    using assms ok9 by (auto simp: fold_figures_def steps)
  show "unat (cf_entries new) = unat (cf_entries tot) + unat (cf_entries part)"
    using 1 ok1 by (simp add: new summing_True_iff checked_add_Some_iff)
  show "unat (cf_entry_payload_bytes new) = unat (cf_entry_payload_bytes tot) + unat (cf_entry_payload_bytes part)"
    using 2 ok2 by (simp add: new summing_True_iff checked_add_Some_iff)
  show "unat (cf_segment_size_bytes new) = unat (cf_segment_size_bytes tot) + unat (cf_segment_size_bytes part)"
    using 4 ok4 by (simp add: new summing_True_iff checked_add_Some_iff)
  show "census_figures.more new = census_figures.more tot" by (rule new(4))
qed

lemma fold_into_class_Some:
  assumes "fold_into_class cls gen = Some new"
  shows "unat (cf_entries new) = unat (cf_entries cls) + unat (cf_entries gen)"
    and "unat (cf_entry_payload_bytes new) = unat (cf_entry_payload_bytes cls) + unat (cf_entry_payload_bytes gen)"
    and "class_census.more new = class_census.more cls" "cc_pair_size new = cc_pair_size cls"
    and "cc_generations new = cc_generations cls" "cc_generations_detail new = cc_generations_detail cls"
    and "cc_container_class new = cc_container_class cls" "cc_payload_capacity new = cc_payload_capacity cls"
proof -
  note f = fold_figures_Some[OF assms[unfolded fold_into_class_def]]
  show "unat (cf_entries new) = unat (cf_entries cls) + unat (cf_entries gen)"
    "unat (cf_entry_payload_bytes new) = unat (cf_entry_payload_bytes cls) + unat (cf_entry_payload_bytes gen)"
    by (rule f(1), rule f(2))
  have "census_figures.more new = census_figures.more cls" by (rule f(4))
  then show "class_census.more new = class_census.more cls" "cc_pair_size new = cc_pair_size cls"
    "cc_generations new = cc_generations cls" "cc_generations_detail new = cc_generations_detail cls"
    "cc_container_class new = cc_container_class cls" "cc_payload_capacity new = cc_payload_capacity cls"
    by (cases new; cases cls; simp)+
qed

lemma fold_into_report_Some:
  assumes "fold_into_report report cls = Some new"
  shows "unat (cf_entries new) = unat (cf_entries report) + unat (cf_entries cls)"
    and "unat (cf_entry_payload_bytes new) = unat (cf_entry_payload_bytes report) + unat (cf_entry_payload_bytes cls)"
    and "cr_entries_examined new = cr_entries_examined report" "cr_classes new = cr_classes report"
    and "cr_files_examined new = cr_files_examined report"
proof -
  note f = fold_figures_Some[OF assms[unfolded fold_into_report_def]]
  show "unat (cf_entries new) = unat (cf_entries report) + unat (cf_entries cls)"
    "unat (cf_entry_payload_bytes new) = unat (cf_entry_payload_bytes report) + unat (cf_entry_payload_bytes cls)"
    by (rule f(1), rule f(2))
  have "census_figures.more new = census_figures.more report" by (rule f(4))
  then show "cr_entries_examined new = cr_entries_examined report" "cr_classes new = cr_classes report"
    "cr_files_examined new = cr_files_examined report"
    by (cases new; cases report; simp)+
qed

section \<open>The bytes of a version add up\<close>

definition bytes_add_up :: "generation_census \<Rightarrow> bool" where
  "bytes_add_up g \<longleftrightarrow>
     (if gc_model_inconsistent g
      then ob_status (cf_unattributed_allocated_bytes g) = Unavailable
        \<and> unat (cf_segment_size_bytes g) < unat (cf_segment_free_bytes g) + unat (cf_occupied_slot_bytes g)
            + unat (cf_empty_slot_bytes g) + unat (cf_estimated_group_metadata_bytes g)
      else ob_status (cf_unattributed_allocated_bytes g) = Measured
        \<and> unat (cf_segment_size_bytes g) = unat (cf_segment_free_bytes g) + unat (cf_occupied_slot_bytes g)
            + unat (cf_empty_slot_bytes g) + unat (cf_estimated_group_metadata_bytes g)
            + unat (ob_bytes (cf_unattributed_allocated_bytes g)))"

lemma set_residual_cases:
  assumes "set_residual sz free modelled = (residual, inconsistent)"
  shows "if inconsistent then ob_status residual = Unavailable \<and> unat sz < unat free + unat modelled
     else ob_status residual = Measured \<and> unat sz = unat free + unat modelled + unat (ob_bytes residual)"
proof (cases "free > sz")
  case True
  then show ?thesis using assms by (auto simp: set_residual_def word_less_nat_alt)
next
  case False
  then have sub: "unat (sz - free) = unat sz - unat free" "unat free \<le> unat sz"
    by (simp_all add: unat_sub word_le_nat_alt not_less)
  show ?thesis
  proof (cases "modelled > sz - free")
    case True
    then show ?thesis using assms False sub by (auto simp: set_residual_def Let_def word_less_nat_alt)
  next
    case small: False
    then have "unat (sz - free - modelled) = unat sz - unat free - unat modelled"
      "unat modelled \<le> unat sz - unat free"
      using sub by (simp_all add: unat_sub word_le_nat_alt not_less)
    then show ?thesis using assms False small sub by (auto simp: set_residual_def Let_def)
  qed
qed

lemma finish_generation_Inr:
  assumes run: "finish_generation pair_size gen = Inr new" and start: "\<not> gc_model_inconsistent gen"
  shows "bytes_add_up new" "cf_entries new = cf_entries gen"
    "cf_entry_payload_bytes new = cf_entry_payload_bytes gen"
    "unat (cf_occupied_slot_bytes new) = unat (cf_entries gen) * unat pair_size"
proof -
  obtain occupied vacant metadata modelled residual inconsistent
    where o: "checked_mul (cf_entries gen) pair_size = Some occupied"
      and v: "checked_mul (gc_bucket_count gen - cf_entries gen) pair_size = Some vacant"
      and m: "group_metadata_model (gc_bucket_count gen) = Some metadata"
      and s: "summing (summing (True, occupied) vacant) metadata = (True, modelled)"
      and r: "set_residual (cf_segment_size_bytes gen) (cf_segment_free_bytes gen) modelled = (residual, inconsistent)"
      and new: "new = gen\<lparr>cf_occupied_slot_bytes := occupied, cf_empty_slot_bytes := vacant,
           cf_estimated_group_metadata_bytes := metadata, cf_unattributed_allocated_bytes := residual,
           gc_model_inconsistent := inconsistent\<rparr>"
    using run start by (auto simp: finish_generation_def split: sum.splits option.splits prod.splits bool.splits)
  obtain ok part where p: "summing (True, occupied) vacant = (ok, part)" by fastforce
  have "ok" using s p by (simp add: summing_True_iff)
  then have "unat modelled = unat occupied + unat vacant + unat metadata"
    using s p by (simp add: summing_True_iff checked_add_Some_iff)
  then show "bytes_add_up new"
    using set_residual_cases[OF r] by (auto simp: bytes_add_up_def new split: if_splits)
  show "cf_entries new = cf_entries gen" "cf_entry_payload_bytes new = cf_entry_payload_bytes gen" by (simp_all add: new)
  show "unat (cf_occupied_slot_bytes new) = unat (cf_entries gen) * unat pair_size"
    using o by (simp add: new checked_mul_Some_iff)
qed

lemma finish_generation_Inl: "finish_generation pair_size gen = Inl e \<Longrightarrow> e = Entry_corrupt"
  by (auto simp: finish_generation_def validate_generation_counts_def
      split: sum.splits option.splits prod.splits bool.splits if_splits)

section \<open>The segment a version is read from\<close>

lemma file_facts_same: "file_facts E G options path gen d = (r, d') \<Longrightarrow> same_disk d d'"
  by (auto simp: file_facts_def file_size_def physical_allocation_of_def same_disk_def
      split: if_splits option.splits prod.splits)

lemma file_facts_flag:
  "file_facts E G options path gen d = (Inr gen', d') \<Longrightarrow> gc_model_inconsistent gen' = gc_model_inconsistent gen"
  by (auto simp: file_facts_def split: option.splits prod.splits)

lemma census_segment_Inr:
  assumes run: "census_segment E db i v d = (Inr (s, m), d')"
    and act: "generation d i (db_current_versions db i) = Some (container db i)"
  shows "same_disk d d'" "generation d i v = Some m"
proof -
  show "same_disk d d'"
    using run by (auto simp: census_segment_def split: if_splits option.splits disk_file.splits prod.splits sum.splits
        dest: open_existing_segment_same)
  show "generation d i v = Some m"
  proof (cases "v = db_current_versions db i \<and> db_mapped db i")
    case True
    then show ?thesis using run act by (auto simp: census_segment_def split: option.splits disk_file.splits)
  next
    case False
    then obtain d1 where op: "open_existing_segment E (data_path i v) d = (Inr s, d1)"
      and m: "find_single_named (seg_map s) = Inr m"
      using run by (auto simp: census_segment_def split: prod.splits sum.splits)
    have "lookup_file d (data_path i v) = Some (Segment s)"
      using op by (auto simp: open_existing_segment_def split: option.splits disk_file.splits if_splits)
    then show ?thesis using m by (simp add: generation_def)
  qed
qed

lemma census_segment_same: "census_segment E db i v d = (r, d') \<Longrightarrow> same_disk d d'"
  by (auto simp: census_segment_def split: if_splits option.splits disk_file.splits prod.splits sum.splits
      dest: open_existing_segment_same)

lemma file_facts_calm:
  assumes "\<forall>n. \<not> fails E n" "lookup_file d path = Some (Segment s)"
  shows "\<exists>gen' d'. file_facts E G options path gen d = (Inr gen', d')"
  using assms by (auto simp: file_facts_def file_size_def split: prod.splits)

lemma census_segment_calm:
  assumes calm: "\<forall>n. \<not> fails E n" and ok: "generation_ok E (db_database_id db) d i v"
  shows "\<exists>x d'. census_segment E db i v d = (Inr x, d')"
proof -
  obtain s t where s: "lookup_file d (data_path i v) = Some (Segment s)"
    "good_segment (local_build E) (db_database_id db) (kind_of_index i) v s t"
    using ok by (auto simp: generation_ok_def)
  show ?thesis
  proof (cases "v = db_current_versions db i \<and> db_mapped db i")
    case True
    then show ?thesis using s by (simp add: census_segment_def)
  next
    case False
    have "census_segment E db i v d = (Inr (s, t), tick (tick d))"
      using False s calm find_single_named_Inr[of "seg_map s" t]
      by (auto simp: census_segment_def expected_identity_def open_existing_segment_def good_segment_def not_less
          simp del: find_single_named_Inr)
    then show ?thesis by blast
  qed
qed

section \<open>The walk over the versions of a class\<close>

definition entries_at :: "'v disk \<Rightarrow> u64 \<Rightarrow> u64 \<Rightarrow> (raw_outpoint \<times> 'v) list" where
  "entries_at d i v = tbl_entries (the (generation d i v))"

lemma entries_at_same: "same_disk d d' \<Longrightarrow> entries_at d' i v = entries_at d i v"
  using generation_cong[OF same_disk_lookup[of d d']] by (simp add: entries_at_def)

locale counting =
  fixes accumulate :: "'v accumulator"
    and readable :: "raw_outpoint \<times> 'v \<Rightarrow> bool"
    and weight :: "raw_outpoint \<times> 'v \<Rightarrow> nat"
    and tally :: "u64 list \<Rightarrow> (raw_outpoint \<times> 'v) list \<Rightarrow> u64 list \<Rightarrow> bool"
  assumes counted: "\<lbrakk>accumulate m gen h = Inr (gen', h'); \<forall>e \<in> set (tbl_entries m). readable e;
        length (tbl_entries m) < 2 ^ 64\<rbrakk> \<Longrightarrow>
      unat (cf_entries gen') = length (tbl_entries m)
      \<and> unat (cf_entry_payload_bytes gen') = sum_list (map weight (tbl_entries m))
      \<and> gc_model_inconsistent gen' = gc_model_inconsistent gen \<and> tally h (tbl_entries m) h'"
    and refused: "accumulate m gen h = Inl e \<Longrightarrow> e = Entry_corrupt"
    and tally_nil: "tally h [] h"
    and tally_append: "tally h xs h1 \<Longrightarrow> tally h1 ys h2 \<Longrightarrow> tally h (xs @ ys) h2"
begin

lemma generation_counted:
  assumes run: "census_generation E G options accumulate db i pair_size v h d = (Inr (gen, h'), d')"
    and act: "generation d i (db_current_versions db i) = Some (container db i)"
    and ent: "\<forall>e \<in> set (entries_at d i v). readable e" "length (entries_at d i v) < 2 ^ 64"
  shows "same_disk d d' \<and> generation d i v \<noteq> None \<and> bytes_add_up gen
    \<and> unat (cf_entries gen) = length (entries_at d i v)
    \<and> unat (cf_entry_payload_bytes gen) = sum_list (map weight (entries_at d i v))
    \<and> tally h (entries_at d i v) h'"
proof -
  obtain gen1 d1 where facts: "file_facts E G options (data_path i v) (empty_generation\<lparr>gc_generation := v,
       gc_active := (v = db_current_versions db i)\<rparr>) d = (Inr gen1, d1)"
    using run by (auto simp: census_generation_def split: prod.splits sum.splits)
  obtain s m d2 where seg: "census_segment E db i v d1 = (Inr (s, m), d2)"
    using run facts by (auto simp: census_generation_def split: prod.splits sum.splits)
  obtain gen2 where acc: "accumulate m gen1 h = Inr (gen2, h')" and d: "d' = d2"
    and fin: "finish_generation pair_size
      (gen2\<lparr>cf_segment_size_bytes := seg_size s, cf_segment_free_bytes := seg_free G s\<rparr>) = Inr gen"
    using run facts seg by (auto simp: census_generation_def Let_def split: prod.splits sum.splits)
  note same = file_facts_same[OF facts]
  have act1: "generation d1 i (db_current_versions db i) = Some (container db i)"
    using act generation_cong[OF same_disk_lookup[OF same]] by simp
  note cs = census_segment_Inr[OF seg act1]
  have gen: "generation d i v = Some m" using cs(2) generation_cong[OF same_disk_lookup[OF same]] by simp
  then have m: "tbl_entries m = entries_at d i v" by (simp add: entries_at_def)
  have "\<not> gc_model_inconsistent gen1" using file_facts_flag[OF facts] by (simp add: empty_generation_def)
  then show ?thesis
    using counted[OF acc] ent finish_generation_Inr[OF fin] same_disk_trans[OF same cs(1)] gen d by (simp add: m)
qed

lemma generation_refused:
  assumes run: "census_generation E G options accumulate db i pair_size v h d = (Inl e, d')"
    and calm: "\<forall>n. \<not> fails E n" and ok: "generation_ok E (db_database_id db) d i v"
  shows "e = Entry_corrupt"
proof -
  obtain gen1 d1 where facts: "file_facts E G options (data_path i v) (empty_generation\<lparr>gc_generation := v,
       gc_active := (v = db_current_versions db i)\<rparr>) d = (Inr gen1, d1)"
    using file_facts_calm[OF calm] ok by (fastforce simp: generation_ok_def)
  have "generation_ok E (db_database_id db) d1 i v"
    using ok generation_ok_cong[OF same_disk_lookup[OF file_facts_same[OF facts]]] by blast
  then obtain s m d2 where seg: "census_segment E db i v d1 = (Inr (s, m), d2)"
    using census_segment_calm[OF calm, of db d1 i v] by auto
  show ?thesis
    using run facts seg refused finish_generation_Inl
    by (auto simp: census_generation_def Let_def split: prod.splits sum.splits)
qed

lemma generation_same:
  assumes "census_generation E G options accumulate db i pair_size v h d = (r, d')"
  shows "same_disk d d'"
proof -
  obtain r1 d1 where facts: "file_facts E G options (data_path i v) (empty_generation\<lparr>gc_generation := v,
       gc_active := (v = db_current_versions db i)\<rparr>) d = (r1, d1)" by fastforce
  obtain r2 d2 where seg: "census_segment E db i v d1 = (r2, d2)" by fastforce
  have "d' = d1 \<or> d' = d2"
    using assms facts seg by (auto simp: census_generation_def Let_def split: prod.splits sum.splits)
  then show ?thesis
    using file_facts_same[OF facts] same_disk_trans[OF file_facts_same[OF facts] census_segment_same[OF seg]] by auto
qed

lemma generations_same:
  "census_generations E G options accumulate db i vs w d = (r, d') \<Longrightarrow> same_disk d d'"
proof (induction vs arbitrary: w d)
  case (Cons v vs)
  obtain cls report h where w: "w = (cls, report, h)" by (rule prod_cases3)
  obtain r1 d1 where one: "census_generation E G options accumulate db i (cc_pair_size cls) v h d = (r1, d1)" by fastforce
  have "d' = d1 \<or> (\<exists>w'. census_generations E G options accumulate db i vs w' d1 = (r, d'))"
    using Cons.prems one by (auto simp: w Let_def split: sum.splits prod.splits option.splits)
  then show ?case using generation_same[OF one] Cons.IH same_disk_trans by blast
qed simp

lemma generations_refused:
  assumes "census_generations E G options accumulate db i vs w d = (Inl e, d')"
    and calm: "\<forall>n. \<not> fails E n" and "\<forall>v \<in> set vs. generation_ok E (db_database_id db) d i v"
  shows "e = Entry_corrupt"
  using assms(1,3)
proof (induction vs arbitrary: w d)
  case (Cons v vs)
  obtain cls report h where w: "w = (cls, report, h)" by (rule prod_cases3)
  obtain r1 d1 where one: "census_generation E G options accumulate db i (cc_pair_size cls) v h d = (r1, d1)" by fastforce
  have ok: "\<forall>v \<in> set vs. generation_ok E (db_database_id db) d1 i v"
    using Cons.prems(2) generation_ok_cong[OF same_disk_lookup[OF generation_same[OF one]]] by auto
  show ?case
  proof (cases r1)
    case (Inl e1)
    then show ?thesis
      using Cons.prems generation_refused[OF one[unfolded Inl] calm] one by (simp add: w)
  next
    case (Inr x)
    then show ?thesis
      using Cons.prems(1) one Cons.IH[OF _ ok]
      by (auto simp: w Let_def split: prod.splits option.splits)
  qed
qed simp

lemma generations_counted:
  assumes "census_generations E G options accumulate db i vs (cls, report, h) d = (Inr (cls', report', h'), d')"
    and "generation d i (db_current_versions db i) = Some (container db i)"
    and "\<forall>v \<in> set vs. (\<forall>e \<in> set (entries_at d i v). readable e) \<and> length (entries_at d i v) < 2 ^ 64"
  shows "unat (cf_entries cls') = unat (cf_entries cls) + length (concat (map (entries_at d i) vs))
    \<and> unat (cf_entry_payload_bytes cls')
      = unat (cf_entry_payload_bytes cls) + sum_list (map weight (concat (map (entries_at d i) vs)))
    \<and> unat (cr_entries_examined report') = unat (cr_entries_examined report) + length (concat (map (entries_at d i) vs))
    \<and> tally h (concat (map (entries_at d i) vs)) h'
    \<and> cr_files_examined report' = cr_files_examined report + word_of_nat (length vs)
    \<and> cf_entries report' = cf_entries report \<and> cr_classes report' = cr_classes report
    \<and> cf_entry_payload_bytes report' = cf_entry_payload_bytes report
    \<and> cc_generations cls' = cc_generations cls + word_of_nat (length vs)
    \<and> cc_container_class cls' = cc_container_class cls
    \<and> (\<exists>gens. list_all bytes_add_up gens \<and> length gens = length vs
         \<and> cc_generations_detail cls' = cc_generations_detail cls
             @ (if co_per_generation_detail options then gens else []))"
  using assms
proof (induction vs arbitrary: cls report h d)
  case Nil
  then show ?case by (auto simp: tally_nil)
next
  case (Cons v vs)
  obtain gen h1 d1 where one: "census_generation E G options accumulate db i (cc_pair_size cls) v h d = (Inr (gen, h1), d1)"
    using Cons.prems(1) by (auto split: prod.splits sum.splits)
  obtain examined cls1 where ex: "checked_add (cr_entries_examined report) (cf_entries gen) = Some examined"
    and fold: "fold_into_class (cls\<lparr>cc_generations := cc_generations cls + 1\<rparr>) gen = Some cls1"
    using Cons.prems(1) one by (auto simp: Let_def split: option.splits)
  define cls2 where "cls2 = (if co_per_generation_detail options
    then cls1\<lparr>cc_generations_detail := cc_generations_detail cls1 @ [gen]\<rparr> else cls1)"
  let ?report1 = "report\<lparr>cr_files_examined := cr_files_examined report + 1, cr_entries_examined := examined\<rparr>"
  have rest: "census_generations E G options accumulate db i vs (cls2, ?report1, h1) d1
      = (Inr (cls', report', h'), d')"
    using Cons.prems(1) one ex fold by (simp add: Let_def cls2_def)
  note g = generation_counted[OF one Cons.prems(2)]
  have g: "same_disk d d1" "bytes_add_up gen" "unat (cf_entries gen) = length (entries_at d i v)"
    "unat (cf_entry_payload_bytes gen) = sum_list (map weight (entries_at d i v))" "tally h (entries_at d i v) h1"
    using generation_counted[OF one Cons.prems(2)] Cons.prems(3) by simp_all
  note f = fold_into_class_Some[OF fold]
  have same: "entries_at d1 i = entries_at d i" using entries_at_same[OF g(1)] by auto
  have act: "generation d1 i (db_current_versions db i) = Some (container db i)"
    using Cons.prems(2) generation_cong[OF same_disk_lookup[OF g(1)]] by simp
  have ok: "\<forall>v \<in> set vs. (\<forall>e \<in> set (entries_at d1 i v). readable e) \<and> length (entries_at d1 i v) < 2 ^ 64"
    using Cons.prems(3) by (simp add: same)
  note ih = Cons.IH[OF rest act ok, unfolded same]
  have c2: "cf_entries cls2 = cf_entries cls1" "cf_entry_payload_bytes cls2 = cf_entry_payload_bytes cls1"
    "cc_generations cls2 = cc_generations cls1" "cc_container_class cls2 = cc_container_class cls1"
    "cc_generations_detail cls2 = cc_generations_detail cls1 @ (if co_per_generation_detail options then [gen] else [])"
    by (simp_all add: cls2_def)
  have e: "unat examined = unat (cr_entries_examined report) + length (entries_at d i v)"
    using ex g(3) by (simp add: checked_add_Some_iff)
  obtain gens where gens: "list_all bytes_add_up gens" "length gens = length vs"
    "cc_generations_detail cls' = cc_generations_detail cls2 @ (if co_per_generation_detail options then gens else [])"
    using ih by blast
  have "list_all bytes_add_up (gen # gens) \<and> length (gen # gens) = length (v # vs)
      \<and> cc_generations_detail cls' = cc_generations_detail cls
         @ (if co_per_generation_detail options then gen # gens else [])"
    using gens g(2) by (simp add: c2(5) f(6))
  moreover have "cr_files_examined report' = cr_files_examined report + word_of_nat (length (v # vs))"
    "cf_entries report' = cf_entries report" "cr_classes report' = cr_classes report"
    "cf_entry_payload_bytes report' = cf_entry_payload_bytes report"
    using ih by (simp_all add: ac_simps)
  moreover have "unat (cf_entries cls') = unat (cf_entries cls) + length (concat (map (entries_at d i) (v # vs)))"
    using ih f(1) g(3) by (simp add: c2(1))
  moreover have "unat (cf_entry_payload_bytes cls')
      = unat (cf_entry_payload_bytes cls) + sum_list (map weight (concat (map (entries_at d i) (v # vs))))"
    using ih f(2) g(4) by (simp add: c2(2))
  moreover have "unat (cr_entries_examined report')
      = unat (cr_entries_examined report) + length (concat (map (entries_at d i) (v # vs)))"
    using ih e by simp
  moreover have "tally h (concat (map (entries_at d i) (v # vs))) h'" using ih tally_append[OF g(5)] by simp
  moreover have "cc_generations cls' = cc_generations cls + word_of_nat (length (v # vs))"
    "cc_container_class cls' = cc_container_class cls"
    using ih f(5,7) by (simp_all add: c2(3,4) ac_simps)
  ultimately show ?case by blast
qed

end

section \<open>The two accumulators\<close>

definition payload_length :: "raw_outpoint \<times> utxo_value \<Rightarrow> nat" where
  "payload_length e = uv_actual_size (snd e)"

text \<open>The recorded length fits its field.\<close>

definition length_field :: "raw_outpoint \<times> utxo_value \<Rightarrow> bool" where
  "length_field e \<longleftrightarrow> payload_length e < 2 ^ 16"

definition histogram_of :: "u64 list \<Rightarrow> (raw_outpoint \<times> utxo_value) list \<Rightarrow> u64 list \<Rightarrow> bool" where
  "histogram_of h es h' \<longleftrightarrow> length h' = length h
     \<and> (\<forall>n < length h. h' ! n = h ! n + word_of_nat (length (filter (\<lambda>e. payload_length e = n) es)))"

lemma histogram_of_append: "histogram_of h xs h1 \<Longrightarrow> histogram_of h1 ys h2 \<Longrightarrow> histogram_of h (xs @ ys) h2"
  by (simp add: histogram_of_def)

lemma unat_payload_length: "length_field e \<Longrightarrow> unat (word_of_nat (payload_length e) :: u64) = payload_length e"
  by (simp add: length_field_def unat_small)

lemma accumulate_entries_Inr:
  assumes "accumulate_entries capacity es (payload, unused, h) = Inr (payload', unused', h')"
    and "\<forall>e \<in> set es. length_field e"
  shows "payload' = payload + word_of_nat (sum_list (map payload_length es))
    \<and> (\<forall>e \<in> set es. payload_length e \<le> unat capacity) \<and> histogram_of h es h'"
  using assms
proof (induction es arbitrary: payload unused h)
  case Nil
  then show ?case by (simp add: histogram_of_def)
next
  case (Cons e es)
  let ?sz = "word_of_nat (payload_length e) :: u64"
  have n: "unat ?sz = payload_length e" using Cons.prems(2) by (simp add: unat_payload_length)
  have fits: "payload_length e \<le> unat capacity"
    and rest: "accumulate_entries capacity es (payload + ?sz, unused + (capacity - ?sz),
        h[payload_length e := h ! payload_length e + 1]) = Inr (payload', unused', h')"
    using Cons.prems(1) n
    by (auto simp: Let_def validate_payload_length_def payload_length_def word_le_nat_alt not_less split: if_splits)
  have "histogram_of h [e] (h[payload_length e := h ! payload_length e + 1])"
    by (simp add: histogram_of_def nth_list_update)
  then have "histogram_of h (e # es) h'"
    using Cons.IH[OF rest] Cons.prems(2) histogram_of_append[of h "[e]"] by simp
  then show ?case using Cons.IH[OF rest] Cons.prems(2) fits by simp
qed

lemma accumulate_entries_Inl: "accumulate_entries capacity es acc = Inl e \<Longrightarrow> e = Entry_corrupt"
  by (induction capacity es acc rule: accumulate_entries.induct)
    (auto simp: Let_def validate_payload_length_def split: if_splits)

lemma sum_list_bound: "\<forall>x \<in> set xs. f x \<le> (b :: nat) \<Longrightarrow> sum_list (map f xs) \<le> length xs * b"
  by (induction xs) auto

interpretation full_class: counting "accumulate_full i" length_field payload_length histogram_of for i
proof
  fix m :: "utxo_value flat_map" and gen h gen' h'
  assume run: "accumulate_full i m gen h = Inr (gen', h')" and ok: "\<forall>e \<in> set (tbl_entries m). length_field e"
    and small: "length (tbl_entries m) < 2 ^ 64"
  let ?cap = "word_of_nat (data_capacity (container_sizes ! unat i)) :: u64"
  obtain payload unused object_padding bound
    where acc: "accumulate_entries ?cap (tbl_entries m) (0, 0, h) = Inr (payload, unused, h')"
      and b: "checked_mul (tbl_size m) ?cap = Some bound"
      and new: "cf_entries gen' = tbl_size m" "cf_entry_payload_bytes gen' = payload"
        "gc_model_inconsistent gen' = gc_model_inconsistent gen"
    using run by (auto simp: accumulate_full_def Let_def split: sum.splits option.splits prod.splits)
  have n: "unat (tbl_size m) = length (tbl_entries m)"
    using small by (simp add: tbl_size_def unat_small)
  note a = accumulate_entries_Inr[OF acc ok]
  have "sum_list (map payload_length (tbl_entries m)) \<le> length (tbl_entries m) * unat ?cap"
    using a by (intro sum_list_bound) blast
  also have "\<dots> < 2 ^ 64" using b n by (simp add: checked_mul_Some_iff)
  finally have "unat payload = sum_list (map payload_length (tbl_entries m))"
    using a by (simp add: unat_small)
  then show "unat (cf_entries gen') = length (tbl_entries m)
      \<and> unat (cf_entry_payload_bytes gen') = sum_list (map payload_length (tbl_entries m))
      \<and> gc_model_inconsistent gen' = gc_model_inconsistent gen \<and> histogram_of h (tbl_entries m) h'"
    using n a by (simp add: new)
next
  fix m :: "utxo_value flat_map" and gen h e
  assume "accumulate_full i m gen h = Inl e"
  then show "e = Entry_corrupt"
    by (auto simp: accumulate_full_def Let_def validate_generation_counts_def
        split: sum.splits option.splits prod.splits if_splits dest: accumulate_entries_Inl)
qed (simp_all add: histogram_of_append, simp add: histogram_of_def)

interpretation reference_mode: counting reference_accumulate "\<lambda>_. True" "\<lambda>_. 12" "\<lambda>h es h'. h' = h"
proof
  fix m :: "reference_value flat_map" and gen h gen' h'
  assume run: "reference_accumulate m gen h = Inr (gen', h')" and small: "length (tbl_entries m) < 2 ^ 64"
  obtain payload padding where b: "checked_mul (tbl_size m) 12 = Some payload"
    and new: "cf_entries gen' = tbl_size m" "cf_entry_payload_bytes gen' = payload" "h' = h"
      "gc_model_inconsistent gen' = gc_model_inconsistent gen"
    using run by (auto simp: reference_accumulate_def accumulate_reference_def Let_def size_of_reference_value_def
        split: sum.splits option.splits)
  have "unat (tbl_size m) = length (tbl_entries m)" using small by (simp add: tbl_size_def unat_small)
  then show "unat (cf_entries gen') = length (tbl_entries m)
      \<and> unat (cf_entry_payload_bytes gen') = sum_list (map (\<lambda>_. 12) (tbl_entries m))
      \<and> gc_model_inconsistent gen' = gc_model_inconsistent gen \<and> h' = h"
    using b by (simp add: new checked_mul_Some_iff sum_list_triv)
next
  fix m :: "reference_value flat_map" and gen h e
  assume "reference_accumulate m gen h = Inl e"
  then show "e = Entry_corrupt"
    by (auto simp: reference_accumulate_def accumulate_reference_def Let_def validate_generation_counts_def
        split: sum.splits option.splits if_splits)
qed simp_all

section \<open>The whole store\<close>

lemma entries_at_bag:
  assumes "generation_ok E dbid d i v"
  shows "mset (entries_at d i v) = generation_bag d i v"
  using generation_ok_generation[OF assms] by (auto simp: entries_at_def generation_bag_def tbl_bag_def)

definition class_entries :: "'v database \<Rightarrow> 'v disk \<Rightarrow> u64 \<Rightarrow> (raw_outpoint \<times> 'v) list" where
  "class_entries db d i = concat (map (entries_at d i) (vc_versions (db_catalogs db i)))"

lemma class_entries_bag:
  assumes srv: "serving E db i"
  shows "mset (class_entries db (db_disk db) i) = contents db i"
proof -
  have ok: "\<forall>v \<in> set (vc_versions (db_catalogs db i)). generation_ok E (db_database_id db) (db_disk db) i v"
    using serving_generation_ok[OF srv] by blast
  have "mset (concat (map (entries_at (db_disk db) i) vs)) = (\<Sum>v \<leftarrow> vs. generation_bag (db_disk db) i v)"
    if "set vs \<subseteq> set (vc_versions (db_catalogs db i))" for vs
    using that ok by (induction vs) (auto simp: entries_at_bag)
  then show ?thesis
    using srv by (simp add: class_entries_def contents_def serving_def container_inv_def catalog_inv_def
        sum_list_distinct_conv_sum_set)
qed

lemma class_entries_same: "same_disk d d' \<Longrightarrow> class_entries db d' i = class_entries db d i"
proof -
  assume "same_disk d d'"
  then have "entries_at d' i = entries_at d i" by (intro ext entries_at_same)
  then show ?thesis by (simp add: class_entries_def)
qed

lemma entries_at_class:
  "v \<in> set (vc_versions (db_catalogs db i)) \<Longrightarrow> set (entries_at d i v) \<subseteq> set (class_entries db d i)
     \<and> length (entries_at d i v) \<le> length (class_entries db d i)"
  by (auto simp: class_entries_def length_concat intro!: member_le_sum_list)

text \<open>What the census of one class of full mode says: every figure is the one of its entries.\<close>

definition class_exact :: "census_options \<Rightarrow> utxo_value database \<Rightarrow> u64 \<Rightarrow> class_census \<Rightarrow> bool" where
  "class_exact options db i c \<longleftrightarrow> cc_container_class c = i
     \<and> unat (cf_entries c) = size (contents db i)
     \<and> unat (cf_entry_payload_bytes c) = (\<Sum>e \<in># contents db i. payload_length e)
     \<and> cc_generations c = word_of_nat (length (vc_versions (db_catalogs db i)))
     \<and> cc_payload_histogram c
         = map (\<lambda>n. \<lparr>pb_payload_size = word_of_nat n,
               pb_entries = word_of_nat (size {#e \<in># contents db i. payload_length e = n#})\<rparr>)
             (filter (\<lambda>n. {#e \<in># contents db i. payload_length e = n#} \<noteq> {#})
               [0 ..< data_capacity (container_sizes ! unat i) + 1])
     \<and> list_all bytes_add_up (cc_generations_detail c)
     \<and> (co_per_generation_detail options \<longrightarrow>
          length (cc_generations_detail c) = length (vc_versions (db_catalogs db i)))"

lemma compact_histogram_exact:
  assumes h: "histogram_of (replicate n 0) es h'" and small: "length es < 2 ^ 64"
  shows "compact_histogram h' = map (\<lambda>n. \<lparr>pb_payload_size = word_of_nat n,
      pb_entries = word_of_nat (size {#e \<in># mset es. payload_length e = n#})\<rparr>)
    (filter (\<lambda>n. {#e \<in># mset es. payload_length e = n#} \<noteq> {#}) [0 ..< n])"
proof -
  have len: "length h' = n" using h by (simp add: histogram_of_def)
  have at: "h' ! k = word_of_nat (size {#e \<in># mset es. payload_length e = k#})" if "k < n" for k
    using h that by (simp add: histogram_of_def mset_filter[symmetric] del: mset_filter)
  have zero: "h' ! k \<noteq> 0 \<longleftrightarrow> {#e \<in># mset es. payload_length e = k#} \<noteq> {#}" if "k < n" for k
  proof -
    have "size {#e \<in># mset es. payload_length e = k#} < 2 ^ 64"
      using small size_filter_mset_lesseq[of "\<lambda>e. payload_length e = k" "mset es"] by simp
    from unat_small[OF this] show ?thesis using at[OF that]
      by (metis size_eq_0_iff_empty unat_eq_zero of_nat_0)
  qed
  show ?thesis
    unfolding compact_histogram_def len
    using at zero by (intro map_cong filter_cong) auto
qed

lemma capacity_word:
  assumes "i \<in> set full_indices"
  shows "unat (word_of_nat (data_capacity (container_sizes ! unat i)) + 1 :: u64)
    = data_capacity (container_sizes ! unat i) + 1"
  using assms by (auto simp: full_indices_def container_sizes_def data_capacity_def)

lemma census_class_counts:
  assumes run: "census_class E G options db i report d = (Inr report', d')"
    and srv: "serving E db i" and i: "i \<in> set full_indices" and same: "same_disk (db_disk db) d"
    and small: "size (contents db i) < 2 ^ 64" and width: "\<forall>e \<in># contents db i. length_field e"
  shows "\<exists>c. cr_classes report' = cr_classes report @ [c] \<and> class_exact options db i c
    \<and> unat (cf_entries report') = unat (cf_entries report) + size (contents db i)
    \<and> unat (cf_entry_payload_bytes report')
        = unat (cf_entry_payload_bytes report) + (\<Sum>e \<in># contents db i. payload_length e)
    \<and> unat (cr_entries_examined report') = unat (cr_entries_examined report) + size (contents db i)"
proof -
  let ?cls = "full_class options db i" and ?vs = "vc_versions (db_catalogs db i)"
  let ?h = "replicate (unat (cc_payload_capacity ?cls + 1)) 0"
  obtain cls1 report1 h1 d1 where walk: "census_generations E G options (accumulate_full i) db i ?vs
      (?cls, report, ?h) d = (Inr (cls1, report1, h1), d1)"
    using run by (auto simp: census_class_def Let_def split: prod.splits sum.splits)
  let ?c = "cls1\<lparr>cc_payload_histogram := compact_histogram h1\<rparr>"
  obtain report2 where fold: "fold_into_report report1 ?c = Some report2"
    and report': "report' = report2\<lparr>cr_classes := cr_classes report2 @ [?c]\<rparr>"
    using run walk by (auto simp: census_class_def Let_def split: option.splits)
  let ?es = "class_entries db d i"
  have bag: "mset ?es = contents db i"
    using class_entries_bag[OF srv] class_entries_same[OF same] by simp
  have len: "length ?es = size (contents db i)" using bag by (metis size_mset)
  have sum: "sum_list (map payload_length ?es) = (\<Sum>e \<in># contents db i. payload_length e)"
    unfolding bag[symmetric] by (metis mset_map sum_mset_sum_list)
  have act: "generation d i (db_current_versions db i) = Some (container db i)"
    using serving_container(1)[OF srv] generation_cong[OF same_disk_lookup[OF same]] by simp
  have "\<forall>v \<in> set ?vs. (\<forall>e \<in> set (entries_at d i v). length_field e) \<and> length (entries_at d i v) < 2 ^ 64"
  proof
    fix v assume v: "v \<in> set ?vs"
    have "\<forall>e \<in> set ?es. length_field e" using width unfolding bag[symmetric] by simp
    then show "(\<forall>e \<in> set (entries_at d i v). length_field e) \<and> length (entries_at d i v) < 2 ^ 64"
      using entries_at_class[OF v, of d] small len by auto
  qed
  note w = full_class.generations_counted[OF walk act this, folded class_entries_def]
  have start: "cf_entries ?cls = 0" "cf_entry_payload_bytes ?cls = 0" "cc_generations ?cls = 0"
    "cc_container_class ?cls = i" "cc_generations_detail ?cls = []"
    "cc_payload_capacity ?cls = word_of_nat (data_capacity (container_sizes ! unat i))"
    by (simp_all add: full_class_def empty_class_def Let_def)
  have h: "histogram_of (replicate (data_capacity (container_sizes ! unat i) + 1) 0) ?es h1"
    using w by (simp only: start capacity_word[OF i])
  obtain gens where "list_all bytes_add_up gens" "length gens = length ?vs"
    "cc_generations_detail cls1 = (if co_per_generation_detail options then gens else [])"
    using w by (auto simp: start)
  then have detail: "list_all bytes_add_up (cc_generations_detail cls1)"
    "co_per_generation_detail options \<longrightarrow> length (cc_generations_detail cls1) = length ?vs"
    by simp_all
  have small_es: "length ?es < 2 ^ 64" using small len by simp
  have exact: "class_exact options db i ?c"
    using w detail len sum compact_histogram_exact[OF h small_es] by (simp add: class_exact_def start bag)
  note f = fold_into_report_Some[OF fold]
  have r1: "cf_entries report1 = cf_entries report" "cf_entry_payload_bytes report1 = cf_entry_payload_bytes report"
    "cr_classes report1 = cr_classes report"
    "unat (cr_entries_examined report1) = unat (cr_entries_examined report) + length ?es"
    "unat (cf_entries cls1) = length ?es" "unat (cf_entry_payload_bytes cls1) = sum_list (map payload_length ?es)"
    using w by (simp_all add: start)
  have "cr_classes report' = cr_classes report @ [?c]" using f by (simp add: report' r1)
  moreover have "unat (cf_entries report') = unat (cf_entries report) + size (contents db i)"
    "unat (cf_entry_payload_bytes report')
      = unat (cf_entry_payload_bytes report) + (\<Sum>e \<in># contents db i. payload_length e)"
    "unat (cr_entries_examined report') = unat (cr_entries_examined report) + size (contents db i)"
    using f len sum by (simp_all add: report' r1)
  ultimately show ?thesis using exact by blast
qed

lemma census_class_same: "census_class E G options db i report d = (r, d') \<Longrightarrow> same_disk d d'"
  by (auto simp: census_class_def Let_def split: prod.splits sum.splits option.splits
      dest: full_class.generations_same)

lemma census_class_refused:
  assumes run: "census_class E G options db i report d = (Inl e, d')" and calm: "\<forall>n. \<not> fails E n"
    and srv: "serving E db i" and same: "same_disk (db_disk db) d"
  shows "e = Entry_corrupt"
proof -
  have "\<forall>v \<in> set (vc_versions (db_catalogs db i)). generation_ok E (db_database_id db) d i v"
    using serving_generation_ok[OF srv] generation_ok_cong[OF same_disk_lookup[OF same]] by blast
  then show ?thesis
    using run full_class.generations_refused[OF _ calm]
    by (auto simp: census_class_def Let_def split: prod.splits sum.splits option.splits)
qed

lemma census_classes_same: "census_classes E G options db is report d = (r, d') \<Longrightarrow> same_disk d d'"
proof (induction "is" arbitrary: report d)
  case (Cons i "is")
  obtain r1 d1 where one: "census_class E G options db i report d = (r1, d1)" by fastforce
  show ?case
    using Cons.prems one census_class_same[OF one] Cons.IH same_disk_trans[of d d1 d'] by (auto split: sum.splits)
qed simp

lemma census_classes_refused:
  assumes "census_classes E G options db is report d = (Inl e, d')" and calm: "\<forall>n. \<not> fails E n"
    and "\<forall>i \<in> set is. serving E db i" and "same_disk (db_disk db) d"
  shows "e = Entry_corrupt"
  using assms(1,3,4)
proof (induction "is" arbitrary: report d)
  case (Cons i "is")
  obtain r1 d1 where one: "census_class E G options db i report d = (r1, d1)" by fastforce
  have same: "same_disk (db_disk db) d1"
    using same_disk_trans[OF Cons.prems(3) census_class_same[OF one]] .
  show ?case
  proof (cases r1)
    case (Inl e1)
    then show ?thesis
      using Cons.prems one census_class_refused[OF one[unfolded Inl] calm _ Cons.prems(3)] by simp
  next
    case (Inr report1)
    then show ?thesis using Cons.prems(1,2) one Cons.IH[OF _ _ same] by simp
  qed
qed simp

lemma census_classes_counts:
  assumes "census_classes E G options db is report d = (Inr report', d')"
    and "set is \<subseteq> set full_indices" and "\<forall>i \<in> set is. serving E db i" and "same_disk (db_disk db) d"
    and "\<forall>i \<in> set is. size (contents db i) < 2 ^ 64 \<and> (\<forall>e \<in># contents db i. length_field e)"
  shows "\<exists>cs. cr_classes report' = cr_classes report @ cs \<and> list_all2 (class_exact options db) is cs
    \<and> unat (cf_entries report') = unat (cf_entries report) + size (\<Sum>i \<leftarrow> is. contents db i)
    \<and> unat (cf_entry_payload_bytes report')
        = unat (cf_entry_payload_bytes report) + (\<Sum>e \<in># (\<Sum>i \<leftarrow> is. contents db i). payload_length e)
    \<and> unat (cr_entries_examined report') = unat (cr_entries_examined report) + size (\<Sum>i \<leftarrow> is. contents db i)"
  using assms
proof (induction "is" arbitrary: report d)
  case (Cons i "is")
  obtain report1 d1 where one: "census_class E G options db i report d = (Inr report1, d1)"
    and rest: "census_classes E G options db is report1 d1 = (Inr report', d')"
    using Cons.prems(1) by (auto split: prod.splits sum.splits)
  obtain c where c: "cr_classes report1 = cr_classes report @ [c]" "class_exact options db i c"
    "unat (cf_entries report1) = unat (cf_entries report) + size (contents db i)"
    "unat (cf_entry_payload_bytes report1)
      = unat (cf_entry_payload_bytes report) + (\<Sum>e \<in># contents db i. payload_length e)"
    "unat (cr_entries_examined report1) = unat (cr_entries_examined report) + size (contents db i)"
    using census_class_counts[OF one] Cons.prems(2-5) by auto
  have same: "same_disk (db_disk db) d1"
    using same_disk_trans[OF Cons.prems(4) census_class_same[OF one]] .
  obtain cs where "cr_classes report' = cr_classes report1 @ cs" "list_all2 (class_exact options db) is cs"
    "unat (cf_entries report') = unat (cf_entries report1) + size (\<Sum>i \<leftarrow> is. contents db i)"
    "unat (cf_entry_payload_bytes report')
        = unat (cf_entry_payload_bytes report1) + (\<Sum>e \<in># (\<Sum>i \<leftarrow> is. contents db i). payload_length e)"
    "unat (cr_entries_examined report') = unat (cr_entries_examined report1) + size (\<Sum>i \<leftarrow> is. contents db i)"
    using Cons.IH[OF rest _ _ same] Cons.prems(2,3,5) by auto
  then show ?case using c by (intro exI[of _ "c # cs"]) simp
qed simp

lemma census_spec:
  assumes inv: "store_inv E db" and mode: "db_mode db = Full_mode" and small: "size (stored db) < 2 ^ 64"
    and width: "\<forall>e \<in># stored db. uv_actual_size (snd e) < 2 ^ 16"
    and run: "full_census E G options db = (r, db')"
  shows "db' = db\<lparr>db_disk := db_disk db'\<rparr> \<and> same_disk (db_disk db) (db_disk db')
    \<and> (\<forall>e. r = Inl e \<and> (\<forall>n. \<not> fails E n) \<longrightarrow> e = Entry_corrupt)
    \<and> (\<forall>report. r = Inr report \<longrightarrow>
        unat (cf_entries report) = size (stored db)
        \<and> cr_entries_examined report = cf_entries report
        \<and> unat (cf_entry_payload_bytes report) = (\<Sum>e \<in># stored db. uv_actual_size (snd e))
        \<and> list_all2 (class_exact options db) full_indices (cr_classes report))"
proof -
  obtain r1 d1 where walk: "census_classes E G options db full_indices (empty_report E G options Full_mode) (db_disk db)
      = (r1, d1)" by fastforce
  note same = census_classes_same[OF walk]
  have srv: "\<forall>i \<in> set full_indices. serving E db i"
    using inv mode by (simp add: store_inv_def indices_of_def)
  have stored: "stored db = (\<Sum>i \<leftarrow> full_indices. contents db i)"
    using distinct_indices[of Full_mode]
    by (simp add: stored_def mode indices_of_def sum_list_distinct_conv_sum_set)
  have sub: "contents db i \<subseteq># stored db" if "i \<in> set full_indices" for i
    using that by (simp add: stored_def mode indices_of_def sum.remove[of _ i])
  have ok: "\<forall>i \<in> set full_indices. size (contents db i) < 2 ^ 64 \<and> (\<forall>e \<in># contents db i. length_field e)"
  proof
    fix i assume "i \<in> set full_indices"
    from sub[OF this] show "size (contents db i) < 2 ^ 64 \<and> (\<forall>e \<in># contents db i. length_field e)"
      using small width size_mset_mono[of "contents db i" "stored db"] mset_subset_eqD[of "contents db i" "stored db"]
      by (auto simp: length_field_def payload_length_def)
  qed
  have pl: "payload_length = (\<lambda>e. uv_actual_size (snd e))" by (rule ext) (simp add: payload_length_def)
  show ?thesis
  proof (cases r1)
    case (Inl e)
    then have "r = Inl e" "db' = db\<lparr>db_disk := d1\<rparr>" using run walk by (simp_all add: full_census_def)
    then show ?thesis
      using same census_classes_refused[OF walk[unfolded Inl] _ srv] by simp
  next
    case (Inr report)
    have out: "r = Inr (report\<lparr>cr_duration_ms := elapsed_ms E (db_disk db) d1\<rparr>)" "db' = db\<lparr>db_disk := tick d1\<rparr>"
      using run walk Inr by (simp_all add: full_census_def)
    have zero: "cf_entries (empty_report E G options Full_mode) = 0"
      "cf_entry_payload_bytes (empty_report E G options Full_mode) = 0"
      "cr_entries_examined (empty_report E G options Full_mode) = 0"
      "cr_classes (empty_report E G options Full_mode) = []"
      by (simp_all add: empty_report_def)
    obtain cs where "cr_classes report = cs" "list_all2 (class_exact options db) full_indices cs"
      "unat (cf_entries report) = size (stored db)" "unat (cr_entries_examined report) = size (stored db)"
      "unat (cf_entry_payload_bytes report) = (\<Sum>e \<in># stored db. payload_length e)"
      using census_classes_counts[OF walk[unfolded Inr] subset_refl srv same_disk_refl ok] by (auto simp: zero stored)
    moreover have "same_disk (db_disk db) (tick d1)" using same by (simp add: same_disk_def)
    ultimately show ?thesis by (simp add: out pl word_unat_eq_iff)
  qed
qed

end
