(* ===== verification/Census_Returns.thy ===== *)
theory Census_Returns
  imports Census_Facts
begin

text \<open>
  When a census returns: on version files of at most 64 TiB and 2^32 buckets, at most 2^14 of them
  per class, no sum overflows. Then the property of the census, with an example.
\<close>

section \<open>Figures below a bound\<close>

definition below :: "nat \<Rightarrow> 'a census_figures_scheme \<Rightarrow> bool" where
  "below b f \<longleftrightarrow> unat (cf_entries f) \<le> b \<and> unat (cf_entry_payload_bytes f) \<le> b
     \<and> unat (cf_object_padding_bytes f) \<le> b \<and> unat (cf_segment_size_bytes f) \<le> b
     \<and> unat (cf_segment_free_bytes f) \<le> b \<and> unat (cf_logical_file_bytes f) \<le> b
     \<and> unat (cf_occupied_slot_bytes f) \<le> b \<and> unat (cf_empty_slot_bytes f) \<le> b
     \<and> unat (cf_estimated_group_metadata_bytes f) \<le> b"

lemma summing_below:
  assumes "unat a \<le> x" "unat b \<le> y" "x + y < 2 ^ 64"
  shows "summing (ok, a) b = (ok, a + b)" "unat (a + b) \<le> x + y"
proof -
  have "checked_add a b = Some (a + b)"
    using assms checked_add_None_iff[of a b] checked_add_word[of a b] by (cases "checked_add a b") auto
  then show "summing (ok, a) b = (ok, a + b)" by (simp add: summing_def)
  show "unat (a + b) \<le> x + y"
    using assms by (simp add: unat_word_ariths)
qed

lemma fold_figures_below:
  assumes "below x tot" "below y part" "x + y < 2 ^ 64"
  shows "\<exists>new. fold_figures what tot part = Some new \<and> below (x + y) new"
  using assms by (simp add: fold_figures_def below_def summing_below[where x = x and y = y])

lemma checked_mul_below:
  assumes "unat a * unat b < 2 ^ 64"
  shows "checked_mul a b = Some (a * b)" "unat (a * b) = unat a * unat b"
proof -
  obtain c where c: "checked_mul a b = Some c"
    using assms checked_mul_None_iff[of a b] by (cases "checked_mul a b") auto
  show p: "unat (a * b) = unat a * unat b" using assms by (simp add: unat_word_ariths)
  then show "checked_mul a b = Some (a * b)" using c by (simp add: checked_mul_Some_iff word_unat_eq_iff)
qed

section \<open>Versions of a modest size\<close>

text \<open>
  What the bound asks of a version file of class \<open>i\<close>: the counts and lengths are possible ones, and
  the segment has no more free bytes than bytes.
\<close>

definition modest_version :: "utxo_value gauges \<Rightarrow> utxo_value disk \<Rightarrow> u64 \<Rightarrow> u64 \<Rightarrow> bool" where
  "modest_version G d i v \<longleftrightarrow> (\<exists>s t. lookup_file d (data_path i v) = Some (Segment s) \<and> seg_map s = Some (1, t)
     \<and> length (tbl_entries t) \<le> unat (tbl_buckets t) \<and> unat (tbl_buckets t) \<le> 2 ^ 32
     \<and> (\<forall>e \<in> set (tbl_entries t). payload_length e \<le> data_capacity (container_sizes ! unat i))
     \<and> unat (seg_size s) \<le> 2 ^ 46 \<and> seg_free G s \<le> seg_size s)"

lemma full_class_sizes:
  assumes "i \<in> set full_indices"
  shows "container_sizes ! unat i = 4 + size_type_bits (container_sizes ! unat i) div 8 + data_capacity (container_sizes ! unat i)"
    and "data_capacity (container_sizes ! unat i) < 2 ^ 14" and "unat (entry_size i) \<le> 2 ^ 14"
  using assms by (auto simp: full_indices_def container_sizes_def data_capacity_def size_type_bits_def entry_size_def
      reference_sentinel_index_def)

lemma accumulate_entries_returns:
  assumes "\<forall>e \<in> set es. payload_length e \<le> unat capacity"
  shows "\<exists>r. accumulate_entries capacity es acc = Inr r"
  using assms
proof (induction es arbitrary: acc)
  case (Cons e es)
  obtain payload unused h where acc: "acc = (payload, unused, h)" by (rule prod_cases3)
  let ?sz = "word_of_nat (uv_actual_size (snd e)) :: u64"
  have "unat ?sz \<le> unat capacity"
    using Cons.prems unat_u64_less[of capacity] unat_small[of "payload_length e"] by (simp add: payload_length_def)
  then show ?case
    using Cons by (simp add: acc Let_def validate_payload_length_def word_less_nat_alt not_less)
qed auto

lemma accumulate_full_returns:
  assumes i: "i \<in> set full_indices" and n: "length (tbl_entries t) \<le> unat (tbl_buckets t)"
    and b: "unat (tbl_buckets t) \<le> 2 ^ 32"
    and fit: "\<forall>e \<in> set (tbl_entries t). payload_length e \<le> data_capacity (container_sizes ! unat i)"
  shows "\<exists>gen' h'. accumulate_full i t gen h = Inr (gen', h') \<and> unat (cf_entries gen') \<le> unat (gc_bucket_count gen')
    \<and> unat (gc_bucket_count gen') \<le> 2 ^ 32 \<and> unat (cf_entry_payload_bytes gen') \<le> 2 ^ 46
    \<and> cf_object_padding_bytes gen' = 0 \<and> cf_logical_file_bytes gen' = cf_logical_file_bytes gen"
proof -
  let ?sz = "container_sizes ! unat i" and ?n = "length (tbl_entries t)"
  let ?cap = "word_of_nat (data_capacity ?sz) :: u64"
  have small: "?n \<le> 2 ^ 32" using n b by simp
  have size: "unat (tbl_size t) = ?n" using small by (simp add: tbl_size_def unat_small)
  have cap: "unat ?cap = data_capacity ?sz" using full_class_sizes(2)[OF i] by (simp add: unat_small)
  obtain payload unused h' where acc: "accumulate_entries ?cap (tbl_entries t) (0, 0, h) = Inr (payload, unused, h')"
    using accumulate_entries_returns[of "tbl_entries t" ?cap "(0, 0, h)"] fit cap by auto
  have width: "\<forall>e \<in> set (tbl_entries t). length_field e"
    using fit full_class_sizes(2)[OF i] by (force simp: length_field_def)
  have bound: "?n * data_capacity ?sz \<le> 2 ^ 32 * 2 ^ 14"
    using small full_class_sizes(2)[OF i] by (intro mult_le_mono) simp_all
  have "sum_list (map payload_length (tbl_entries t)) \<le> ?n * data_capacity ?sz"
    using fit by (rule sum_list_bound)
  with bound have "sum_list (map payload_length (tbl_entries t)) \<le> 2 ^ 46" by simp
  then have payload: "unat payload \<le> 2 ^ 46"
    using accumulate_entries_Inr[OF acc width] by (simp add: unat_small)
  have mul: "checked_mul (tbl_size t) ?cap = Some (tbl_size t * ?cap)"
    using bound by (intro checked_mul_below(1)) (simp add: size cap)
  have pad: "?sz - (4 + size_type_bits ?sz div 8 + data_capacity ?sz) = 0"
    using full_class_sizes(1)[OF i] by simp
  have counts: "validate_generation_counts (tbl_size t) (tbl_buckets t) = Inr ()"
    using n size by (simp add: validate_generation_counts_def word_less_nat_alt not_less)
  have zero: "checked_mul (tbl_size t) 0 = Some 0" by (simp add: checked_mul_def)
  show ?thesis
    using acc mul counts zero payload n b size
    by (simp add: accumulate_full_def Let_def pad del: diff_is_0_eq)
qed

lemma group_metadata_below:
  assumes "unat b \<le> 2 ^ 32"
  shows "\<exists>x. group_metadata_model b = Some x \<and> unat x \<le> 2 ^ 36 + 16"
proof -
  have d: "unat (b div 15) \<le> 2 ^ 32" using assms by (simp add: unat_div le_trans[OF div_le_dividend])
  have s: "checked_add (b div 15) 1 = Some (b div 15 + 1)" "unat (b div 15 + 1) = unat (b div 15) + 1"
    using d checked_add_Some_iff[of "b div 15" 1 "b div 15 + 1"] by (simp_all add: unat_word_ariths)
  have "unat (b div 15 + 1) * unat (16 :: u64) \<le> (2 ^ 32 + 1) * 16" using d s(2) by simp
  then show ?thesis
    using s(1) checked_mul_below[of "b div 15 + 1" 16] by (simp add: group_metadata_model_def)
qed

lemma finish_generation_returns:
  assumes n: "unat (cf_entries gen) \<le> unat (gc_bucket_count gen)" and b: "unat (gc_bucket_count gen) \<le> 2 ^ 32"
    and p: "unat pair_size \<le> 2 ^ 14" and rest: "unat (cf_entry_payload_bytes gen) \<le> 2 ^ 46"
      "cf_object_padding_bytes gen = 0" "unat (cf_segment_size_bytes gen) \<le> 2 ^ 46"
      "unat (cf_segment_free_bytes gen) \<le> 2 ^ 46" "unat (cf_logical_file_bytes gen) \<le> 2 ^ 46"
  shows "\<exists>new. finish_generation pair_size gen = Inr new \<and> below (2 ^ 46) new"
proof -
  have "unat (cf_entries gen) * unat pair_size \<le> 2 ^ 32 * 2 ^ 14"
    using n b p by (intro mult_le_mono) simp_all
  then have o: "unat (cf_entries gen) * unat pair_size \<le> 2 ^ 46" by simp
  have sub: "unat (gc_bucket_count gen - cf_entries gen) = unat (gc_bucket_count gen) - unat (cf_entries gen)"
    using n by (simp add: unat_sub word_le_nat_alt)
  have "unat (gc_bucket_count gen - cf_entries gen) * unat pair_size \<le> 2 ^ 32 * 2 ^ 14"
    using b p by (intro mult_le_mono) (simp_all add: sub)
  then have v: "unat (gc_bucket_count gen - cf_entries gen) * unat pair_size \<le> 2 ^ 46" by simp
  obtain metadata where m: "group_metadata_model (gc_bucket_count gen) = Some metadata" "unat metadata \<le> 2 ^ 36 + 16"
    using group_metadata_below[OF b] by blast
  let ?o = "cf_entries gen * pair_size" and ?v = "(gc_bucket_count gen - cf_entries gen) * pair_size"
  have mo: "checked_mul (cf_entries gen) pair_size = Some ?o" "unat ?o \<le> 2 ^ 46"
    using o checked_mul_below[of "cf_entries gen" pair_size] by simp_all
  have mv: "checked_mul (gc_bucket_count gen - cf_entries gen) pair_size = Some ?v" "unat ?v \<le> 2 ^ 46"
    using v checked_mul_below[of "gc_bucket_count gen - cf_entries gen" pair_size] by simp_all
  have s: "summing (True, ?o) ?v = (True, ?o + ?v)" "unat (?o + ?v) \<le> 2 ^ 46 + 2 ^ 46"
    using summing_below[OF mo(2) mv(2)] by simp_all
  have s2: "summing (True, ?o + ?v) metadata = (True, ?o + ?v + metadata)"
    using summing_below(1)[OF s(2) m(2)] by simp
  obtain residual flag where r: "set_residual (cf_segment_size_bytes gen) (cf_segment_free_bytes gen)
      (?o + ?v + metadata) = (residual, flag)" by fastforce
  have counts: "validate_generation_counts (cf_entries gen) (gc_bucket_count gen) = Inr ()"
    using n by (simp add: validate_generation_counts_def word_less_nat_alt not_less)
  show ?thesis
    using n b m(2) mo(2) mv(2) rest
    by (simp add: finish_generation_def counts mo(1) mv(1) m(1) s(1) s2 r below_def)
qed

lemma census_generation_returns:
  assumes calm: "\<forall>n. \<not> fails E n" and ok: "generation_ok E (db_database_id db) d i v"
    and act: "generation d i (db_current_versions db i) = Some (container db i)"
    and i: "i \<in> set full_indices" and modest: "modest_version G d i v"
  shows "\<exists>gen h' d'. census_generation E G options (accumulate_full i) db i (entry_size i) v h d
      = (Inr (gen, h'), d') \<and> below (2 ^ 46) gen"
proof -
  obtain s t where s: "lookup_file d (data_path i v) = Some (Segment s)" "seg_map s = Some (1, t)"
    and n: "length (tbl_entries t) \<le> unat (tbl_buckets t)" "unat (tbl_buckets t) \<le> 2 ^ 32"
    and fit: "\<forall>e \<in> set (tbl_entries t). payload_length e \<le> data_capacity (container_sizes ! unat i)"
    and sz: "unat (seg_size s) \<le> 2 ^ 46" "seg_free G s \<le> seg_size s"
    using modest by (auto simp: modest_version_def)
  let ?gen = "empty_generation\<lparr>gc_generation := v, gc_active := (v = db_current_versions db i)\<rparr>"
  obtain gen1 d1 where facts: "file_facts E G options (data_path i v) ?gen d = (Inr gen1, d1)"
    using file_facts_calm[OF calm s(1)] by blast
  have logical: "cf_logical_file_bytes gen1 = seg_size s"
    using facts s(1) calm by (auto simp: file_facts_def file_size_def split: prod.splits)
  note same = file_facts_same[OF facts]
  have ok1: "generation_ok E (db_database_id db) d1 i v"
    using ok generation_ok_cong[OF same_disk_lookup[OF same]] by blast
  obtain s' m d2 where seg: "census_segment E db i v d1 = (Inr (s', m), d2)"
    using census_segment_calm[OF calm ok1] by auto
  have act1: "generation d1 i (db_current_versions db i) = Some (container db i)"
    using act generation_cong[OF same_disk_lookup[OF same]] by simp
  have m: "m = t"
    using census_segment_Inr(2)[OF seg act1] generation_cong[OF same_disk_lookup[OF same]] s
    by (simp add: generation_def)
  have s': "s' = s"
    using seg s(1) same_disk_lookup[OF same, of "data_path i v"]
    by (auto simp: census_segment_def open_existing_segment_def split: if_splits option.splits disk_file.splits
        prod.splits sum.splits)
  obtain gen2 h' where acc: "accumulate_full i t gen1 h = Inr (gen2, h')"
    and g2: "unat (cf_entries gen2) \<le> unat (gc_bucket_count gen2)" "unat (gc_bucket_count gen2) \<le> 2 ^ 32"
      "unat (cf_entry_payload_bytes gen2) \<le> 2 ^ 46" "cf_object_padding_bytes gen2 = 0"
      "cf_logical_file_bytes gen2 = seg_size s"
    using accumulate_full_returns[OF i n fit, of gen1 h] logical by auto
  have free: "unat (seg_free G s) \<le> 2 ^ 46" using sz by (simp add: word_le_nat_alt)
  obtain gen where "finish_generation (entry_size i)
      (gen2\<lparr>cf_segment_size_bytes := seg_size s, cf_segment_free_bytes := seg_free G s\<rparr>) = Inr gen"
    "below (2 ^ 46) gen"
    using finish_generation_returns[of "gen2\<lparr>cf_segment_size_bytes := seg_size s, cf_segment_free_bytes := seg_free G s\<rparr>"
        "entry_size i"] g2 sz(1) free full_class_sizes(3)[OF i] by auto
  then show ?thesis
    using facts seg acc by (simp add: census_generation_def m s' Let_def)
qed

section \<open>A census that returns\<close>

lemma census_generations_returns:
  assumes calm: "\<forall>n. \<not> fails E n" and i: "i \<in> set full_indices"
    and "\<forall>v \<in> set vs. generation_ok E (db_database_id db) d i v \<and> modest_version G d i v"
    and "generation d i (db_current_versions db i) = Some (container db i)"
    and "cc_pair_size cls = entry_size i" "below x cls" "unat (cr_entries_examined report) \<le> y"
    and "x + length vs * 2 ^ 46 < 2 ^ 64" "y + length vs * 2 ^ 46 < 2 ^ 64"
  shows "\<exists>cls' report' h' d'. census_generations E G options (accumulate_full i) db i vs (cls, report, h) d
      = (Inr (cls', report', h'), d') \<and> below (x + length vs * 2 ^ 46) cls'
    \<and> census_figures.truncate report' = census_figures.truncate report
    \<and> unat (cr_entries_examined report') \<le> y + length vs * 2 ^ 46"
  using assms(3-)
proof (induction vs arbitrary: cls report h d x y)
  case Nil
  then show ?case by simp
next
  case (Cons v vs)
  obtain gen h1 d1 where one: "census_generation E G options (accumulate_full i) db i (entry_size i) v h d = (Inr (gen, h1), d1)"
    and gen: "below (2 ^ 46) gen"
    using census_generation_returns[OF calm _ Cons.prems(2) i] Cons.prems(1) by (metis list.set_intros(1))
  note same = full_class.generation_same[OF one]
  have e: "unat (cf_entries gen) \<le> 2 ^ 46" using gen by (simp add: below_def)
  let ?examined = "cr_entries_examined report + cf_entries gen"
  have "summing (True, cr_entries_examined report) (cf_entries gen) = (True, ?examined)"
    and ex: "unat ?examined \<le> y + 2 ^ 46"
    using summing_below[OF Cons.prems(5) e] Cons.prems(7) by simp_all
  then have add: "checked_add (cr_entries_examined report) (cf_entries gen) = Some ?examined"
    by (simp add: summing_True_iff)
  obtain cls1 where fold: "fold_into_class (cls\<lparr>cc_generations := cc_generations cls + 1\<rparr>) gen = Some cls1"
    and b1: "below (x + 2 ^ 46) cls1"
    using fold_figures_below[of x "cls\<lparr>cc_generations := cc_generations cls + 1\<rparr>" "2 ^ 46" gen] Cons.prems(4,6) gen
    by (auto simp: fold_into_class_def below_def)
  define cls2 where "cls2 = (if co_per_generation_detail options
    then cls1\<lparr>cc_generations_detail := cc_generations_detail cls1 @ [gen]\<rparr> else cls1)"
  let ?report1 = "report\<lparr>cr_files_examined := cr_files_examined report + 1, cr_entries_examined := ?examined\<rparr>"
  have p2: "cc_pair_size cls2 = entry_size i" "below (x + 2 ^ 46) cls2"
    using fold_into_class_Some(4)[OF fold] Cons.prems(3) b1 by (simp_all add: cls2_def below_def)
  have later: "\<forall>v \<in> set vs. generation_ok E (db_database_id db) d1 i v \<and> modest_version G d1 i v"
    using Cons.prems(1) generation_ok_cong[OF same_disk_lookup[OF same]] same_disk_lookup[OF same]
    by (simp add: modest_version_def)
  have act: "generation d1 i (db_current_versions db i) = Some (container db i)"
    using Cons.prems(2) generation_cong[OF same_disk_lookup[OF same]] by simp
  obtain cls' report' h' d' where rest: "census_generations E G options (accumulate_full i) db i vs (cls2, ?report1, h1) d1
      = (Inr (cls', report', h'), d')" "below (x + 2 ^ 46 + length vs * 2 ^ 46) cls'"
    "census_figures.truncate report' = census_figures.truncate ?report1"
    "unat (cr_entries_examined report') \<le> y + 2 ^ 46 + length vs * 2 ^ 46"
    using Cons.IH[OF later act p2, of ?report1 "y + 2 ^ 46" h1] ex Cons.prems(6,7) by auto
  have "census_generations E G options (accumulate_full i) db i (v # vs) (cls, report, h) d
      = (Inr (cls', report', h'), d')"
    using one add fold rest(1) Cons.prems(3) by (simp add: Let_def cls2_def)
  then show ?case using rest(2-) by (auto simp: add.assoc census_figures.truncate_def)
qed

lemma census_class_returns:
  assumes calm: "\<forall>n. \<not> fails E n" and i: "i \<in> set full_indices" and srv: "serving E db i"
    and same: "same_disk (db_disk db) d"
    and modest: "\<forall>v \<in> set (vc_versions (db_catalogs db i)). modest_version G (db_disk db) i v"
    and few: "length (vc_versions (db_catalogs db i)) \<le> 2 ^ 14"
    and start: "below x report" "unat (cr_entries_examined report) \<le> x" "x + 2 ^ 60 < 2 ^ 64"
  shows "\<exists>report' d'. census_class E G options db i report d = (Inr report', d')
    \<and> below (x + 2 ^ 60) report' \<and> unat (cr_entries_examined report') \<le> x + 2 ^ 60"
proof -
  let ?cls = "full_class options db i" and ?vs = "vc_versions (db_catalogs db i)"
  let ?h = "replicate (unat (cc_payload_capacity ?cls + 1)) 0"
  have all: "\<forall>v \<in> set ?vs. generation_ok E (db_database_id db) d i v \<and> modest_version G d i v"
    using serving_generation_ok[OF srv] modest generation_ok_cong[OF same_disk_lookup[OF same]] same_disk_lookup[OF same]
    by (simp add: modest_version_def)
  have act: "generation d i (db_current_versions db i) = Some (container db i)"
    using serving_container(1)[OF srv] generation_cong[OF same_disk_lookup[OF same]] by simp
  have cls: "cc_pair_size ?cls = entry_size i" "below 0 ?cls"
    by (simp_all add: full_class_def empty_class_def below_def Let_def)
  have n: "length ?vs * 2 ^ 46 \<le> 2 ^ 60" using few by simp
  obtain cls1 report1 h1 d1 where walk: "census_generations E G options (accumulate_full i) db i ?vs (?cls, report, ?h) d
      = (Inr (cls1, report1, h1), d1)" and b: "below (0 + length ?vs * 2 ^ 46) cls1"
    and r: "census_figures.truncate report1 = census_figures.truncate report"
    and ex: "unat (cr_entries_examined report1) \<le> x + length ?vs * 2 ^ 46"
    using census_generations_returns[OF calm i all act cls start(2)] n start(3) by fastforce
  let ?c = "cls1\<lparr>cc_payload_histogram := compact_histogram h1\<rparr>"
  have "below x report1" using r start(1) by (simp add: census_figures.truncate_def below_def)
  moreover have "below (2 ^ 60) ?c" using b n by (simp add: below_def le_trans[OF _ n])
  ultimately obtain report2 where fold: "fold_into_report report1 ?c = Some report2" "below (x + 2 ^ 60) report2"
    using fold_figures_below[of x report1 "2 ^ 60" ?c] start(3) by (auto simp: fold_into_report_def)
  have "unat (cr_entries_examined report2) \<le> x + 2 ^ 60"
    using fold_into_report_Some(3)[OF fold(1)] ex n by simp
  then show ?thesis
    using walk fold by (simp add: census_class_def Let_def below_def)
qed

lemma census_classes_returns:
  assumes calm: "\<forall>n. \<not> fails E n" and "set is \<subseteq> set full_indices" and "\<forall>i \<in> set is. serving E db i"
    and "same_disk (db_disk db) d"
    and "\<forall>i \<in> set is. length (vc_versions (db_catalogs db i)) \<le> 2 ^ 14
       \<and> (\<forall>v \<in> set (vc_versions (db_catalogs db i)). modest_version G (db_disk db) i v)"
    and "below x report" "unat (cr_entries_examined report) \<le> x" "x + length is * 2 ^ 60 < 2 ^ 64"
  shows "\<exists>report' d'. census_classes E G options db is report d = (Inr report', d')"
  using assms(2-)
proof (induction "is" arbitrary: report d x)
  case (Cons i "is")
  obtain report1 d1 where one: "census_class E G options db i report d = (Inr report1, d1)"
    "below (x + 2 ^ 60) report1" "unat (cr_entries_examined report1) \<le> x + 2 ^ 60"
    using census_class_returns[OF calm, of i db d G x report options] Cons.prems by auto
  have "same_disk (db_disk db) d1"
    using same_disk_trans[OF Cons.prems(3) census_class_same[OF one(1)]] .
  from Cons.IH[OF _ _ this _ one(2,3)] show ?case using Cons.prems(1,2,4,7) one(1) by simp
qed simp

definition modest_store :: "utxo_value gauges \<Rightarrow> utxo_value database \<Rightarrow> bool" where
  "modest_store G db \<longleftrightarrow> (\<forall>i \<in> set full_indices. length (vc_versions (db_catalogs db i)) \<le> 2 ^ 14
     \<and> (\<forall>v \<in> set (vc_versions (db_catalogs db i)). modest_version G (db_disk db) i v))"

lemma census_returns:
  assumes calm: "\<forall>n. \<not> fails E n" and inv: "store_inv E db" and mode: "db_mode db = Full_mode"
    and modest: "modest_store G db"
  shows "\<exists>report db'. full_census E G options db = (Inr report, db')"
proof -
  have srv: "\<forall>i \<in> set full_indices. serving E db i"
    using inv mode by (simp add: store_inv_def indices_of_def)
  obtain report d where "census_classes E G options db full_indices (empty_report E G options Full_mode) (db_disk db)
      = (Inr report, d)"
    using census_classes_returns[OF calm subset_refl srv same_disk_refl modest[unfolded modest_store_def],
        of 0 "empty_report E G options Full_mode" options]
    by (auto simp: empty_report_def below_def full_indices_def)
  then show ?thesis by (simp add: full_census_def)
qed

section \<open>Property\<close>

text \<open>
  C21: a census of full mode that returns counts exactly what is stored: the entries and the payload
  bytes of the store, and for each class its entries, payload bytes, versions and the histogram of
  the payload lengths that occur; the bytes of every version it details add up, or it says that its
  model does not hold there. It changes nothing. With no failing call its only error is that a file
  is inconsistent or a figure cannot be expressed, and on a store of modest size it returns.
\<close>

theorem census_counts_exactly:
  assumes inv: "store_inv E db" and mode: "db_mode db = Full_mode" and small: "size (stored db) < 2 ^ 64"
    and width: "\<forall>e \<in># stored db. uv_actual_size (snd e) < 2 ^ 16"
    and run: "full_census E G options db = (r, db')"
  shows "db' = db\<lparr>db_disk := db_disk db'\<rparr> \<and> same_disk (db_disk db) (db_disk db')
    \<and> (\<forall>report. r = Inr report \<longrightarrow>
        unat (cf_entries report) = size (stored db)
        \<and> cr_entries_examined report = cf_entries report
        \<and> unat (cf_entry_payload_bytes report) = (\<Sum>e \<in># stored db. uv_actual_size (snd e))
        \<and> list_all2 (class_exact options db) full_indices (cr_classes report))
    \<and> (\<forall>e. r = Inl e \<and> (\<forall>n. \<not> fails E n) \<longrightarrow> e = Entry_corrupt \<and> \<not> modest_store G db)"
  using census_spec[OF assms] census_returns[OF _ inv mode, of G options] run by auto

definition example_gauges :: "'v gauges" where
  "example_gauges = \<lparr>seg_free = \<lambda>_. 4096, st_blocks = \<lambda>_ _. Some 8, statistics_level = 0\<rparr>"

lemma layered_modest: "modest_store example_gauges (layered_store Full_mode example_value)"
proof -
  have "modest_version example_gauges (db_disk (layered_store Full_mode example_value)) i v"
    if i: "i \<in> set full_indices" and v: "v = 0 \<or> v = 1" for i v
    unfolding modest_version_def
    using layered_generation(1)[of i Full_mode v example_value] i v
    by (auto simp: indices_of_def example_segment_def layered_table_def tbl_add_def tbl_empty_def example_gauges_def
        mib_def payload_length_def example_value_def full_indices_def container_sizes_def data_capacity_def)
  then show ?thesis by (simp add: modest_store_def)
qed

lemma layered_stored:
  "stored (layered_store Full_mode a) = {#(old_key, a), (new_key, a)#}"
proof -
  have "contents (layered_store Full_mode a) i
      = (if i = 0 then {#(old_key, a), (new_key, a)#} else {#})" if "i \<in> set full_indices" for i
  proof -
    have i: "i \<in> set (indices_of Full_mode)" using that by (simp add: indices_of_def)
    show ?thesis
      using layered_generation(2)[OF i, of 0 a] layered_generation(2)[OF i, of 1 a]
      by (simp add: contents_def generation_bag_def layered_table_def tbl_bag_def tbl_add_def tbl_empty_def
          indices_of_def full_indices_def)
  qed
  then show ?thesis by (simp add: stored_def indices_of_def full_indices_def)
qed

theorem census_counts_exactly_witness:
  "\<exists>report db'. full_census calm_env example_gauges \<lparr>co_measure_physical_blocks = True,
        co_per_generation_detail = True, co_declared_external_snapshot = False\<rparr>
      (layered_store Full_mode example_value) = (Inr report, db')
    \<and> unat (cf_entries report) = 2 \<and> unat (cf_entry_payload_bytes report) = 4"
proof -
  let ?o = "\<lparr>co_measure_physical_blocks = True, co_per_generation_detail = True, co_declared_external_snapshot = False\<rparr>"
  obtain r db' where run: "full_census calm_env example_gauges ?o (layered_store Full_mode example_value) = (r, db')"
    by fastforce
  have inv: "store_inv calm_env (layered_store Full_mode example_value)" by (rule layered_store_inv)
  have "size (stored (layered_store Full_mode example_value)) < 2 ^ 64"
    "\<forall>e \<in># stored (layered_store Full_mode example_value). uv_actual_size (snd e) < 2 ^ 16"
    by (simp_all add: layered_stored example_value_def)
  note c = census_counts_exactly[OF inv _ this run]
  have "r \<noteq> Inl e" for e using c layered_modest by auto
  then obtain report where "r = Inr report" by (cases r) auto
  then show ?thesis using c run by (simp add: layered_stored example_value_def)
qed

end
