(* ===== verification/Reference_Mode.thy ===== *)
theory Reference_Mode
  imports Compaction Resolving Deleting Compact_All
begin

text \<open>
  The operations \<open>src/database_impl.cpp\<close> writes out a second time for the one container of reference
  mode, with its own file names, identity, sizes and value type. The rest of the development uses
  the operations of full mode at \<open>reference_sentinel_index\<close> for them; here each is translated from
  its own source and shown to be the same.
\<close>

section \<open>Names and metadata\<close>

definition reference_data_path :: "u64 \<Rightarrow> string" where
  "reference_data_path version = ''compact_v'' @ fmt05 version @ ''.dat''"

definition reference_metadata_path :: "u64 \<Rightarrow> string" where
  "reference_metadata_path version = ''meta_compact_v'' @ fmt05 version @ ''.dat''"

abbreviation reference_catalog :: "'v database \<Rightarrow> version_catalog" where
  "reference_catalog db \<equiv> db_catalogs db reference_sentinel_index"

abbreviation set_reference_catalog :: "version_catalog \<Rightarrow> 'v database \<Rightarrow> 'v database" where
  "set_reference_catalog c db \<equiv> db\<lparr>db_catalogs := (db_catalogs db)(reference_sentinel_index := c)\<rparr>"

definition reference_map :: "reference_value database \<Rightarrow> reference_value flat_map" where
  "reference_map db = container db reference_sentinel_index"

definition reference_identity :: "'v env \<Rightarrow> 'v database \<Rightarrow> u64 \<Rightarrow> segment_identity" where
  "reference_identity E db version =
     local_identity (local_build E) (db_database_id db) reference_container_kind version"

definition reference_save_metadata :: "reference_value env \<Rightarrow> u64 \<Rightarrow> reference_value database \<Rightarrow> reference_value database" where
  "reference_save_metadata E version db =
    (case catalog_find_metadata (reference_catalog db) version of
       None \<Rightarrow> db
     | Some meta \<Rightarrow>
         (case write_metadata_file E (reference_metadata_path version) meta Publish_only (db_disk db) of
            (_, d) \<Rightarrow> db\<lparr>db_disk := d\<rparr>))"

definition reference_load_metadata :: "reference_value env \<Rightarrow> u64 \<Rightarrow> reference_value database \<Rightarrow> reference_value database" where
  "reference_load_metadata E version db =
    (case read_metadata_file E (reference_metadata_path version) (db_disk db) of
       (Inl _, d) \<Rightarrow> db\<lparr>db_disk := d\<rparr>
     | (Inr meta, d) \<Rightarrow>
         set_reference_catalog
           (catalog_set_metadata version
              (meta\<lparr>fm_container_index := reference_sentinel_index, fm_version := version\<rparr>) (reference_catalog db))
           (db\<lparr>db_disk := d\<rparr>))"

section \<open>The active container\<close>

definition reference_opened :: "u64 \<Rightarrow> u64 \<Rightarrow> reference_value database \<Rightarrow> reference_value database" where
  "reference_opened version buckets db =
     db\<lparr>db_mapped := (db_mapped db)(reference_sentinel_index := True),
        db_rehash_watch := (db_rehash_watch db)(reference_sentinel_index := rehash_watch_reset buckets),
        db_current_versions := (db_current_versions db)(reference_sentinel_index := version)\<rparr>"

definition reference_open_existing ::
  "reference_value env \<Rightarrow> u64 \<Rightarrow> reference_value database \<Rightarrow> unit result \<times> reference_value database" where
  "reference_open_existing E version db =
    (case open_existing_segment E (reference_data_path version) (db_disk db) of
       (Inl e, d) \<Rightarrow> (Inl e, db\<lparr>db_disk := d\<rparr>)
     | (Inr s, d) \<Rightarrow>
       (case validate_stamp (seg_stamp s) (reference_identity E db version) of
          Inl e \<Rightarrow> (Inl e, db\<lparr>db_disk := d\<rparr>)
        | Inr _ \<Rightarrow>
          (case find_single_named (seg_map s) of
             Inl e \<Rightarrow> (Inl e, db\<lparr>db_disk := d\<rparr>)
           | Inr m \<Rightarrow> (Inr (), reference_opened version (tbl_buckets m) (db\<lparr>db_disk := d\<rparr>)))))"

text \<open>\<open>scope_exit rollback\<close>: what is not published is withdrawn, also when \<open>construct\<close> throws.\<close>

definition reference_create ::
  "reference_value env \<Rightarrow> u64 \<Rightarrow> reference_value database \<Rightarrow> unit call \<times> reference_value database" where
  "reference_create E version db =
    (let file_name = reference_data_path version;
         rollback = (\<lambda>r d. (r, db\<lparr>db_disk := try_remove E file_name d\<rparr>))
     in case create_segment E file_name (ce_file_size (db_capacity db reference_sentinel_index)) (db_disk db) of
          (False, d) \<Rightarrow> (Returned (Inl Identity_collision), db\<lparr>db_disk := d\<rparr>)
        | (True, d) \<Rightarrow>
          (case place_stamp E file_name (reference_identity E db version) d of
             (Inl e, d) \<Rightarrow> rollback (Returned (Inl e)) d
           | (Inr _, d) \<Rightarrow>
             (case construct_map E file_name (ce_capacity (db_capacity db reference_sentinel_index)) d of
                (Throws, d) \<Rightarrow> rollback Raised d
              | (Null_pointer, d) \<Rightarrow> rollback (Returned (Inl Identity_collision)) d
              | (Constructed buckets _, d) \<Rightarrow>
                  (Returned (Inr ()), reference_opened version buckets (db\<lparr>db_disk := d\<rparr>)))))"

definition reference_close_container :: "reference_value env \<Rightarrow> reference_value database \<Rightarrow> reference_value database" where
  "reference_close_container E db =
    (if db_mapped db reference_sentinel_index
     then (let db = reference_save_metadata E (db_current_versions db reference_sentinel_index) db
           in db\<lparr>db_mapped := (db_mapped db)(reference_sentinel_index := False)\<rparr>)
     else db)"

text \<open>\<open>reference_new_version\<close>: \<open>False\<close> where it throws.\<close>

definition reference_new_version ::
  "reference_value env \<Rightarrow> reference_value database \<Rightarrow> bool \<times> reference_value database" where
  "reference_new_version E db =
    (let db = note_dirty reference_sentinel_index (db_current_versions db reference_sentinel_index) db;
         db = reference_close_container E db;
         next = next_version (reference_catalog db)
     in case reference_create E next db of
          (Raised, db) \<Rightarrow> (False, db)
        | (Returned (Inl _), db) \<Rightarrow> (False, db)
        | (Returned (Inr _), db) \<Rightarrow>
            (True, set_reference_catalog
               (catalog_set_metadata next empty_file_metadata (catalog_add next (reference_catalog db))) db))"

definition reference_entry_size :: u64 where "reference_entry_size = 36 + 12"

definition reference_can_insert_safely ::
  "reference_value env \<Rightarrow> reference_value database \<Rightarrow> bool \<times> reference_value database" where
  "reference_can_insert_safely E db =
    (let m = reference_map db
     in if tbl_buckets m > 0 \<and> tbl_size m \<ge> effective_insert_limit (tbl_buckets m) (tbl_max_load m)
        then (False, db)
        else if db_mapped db reference_sentinel_index
        then (case free_memory E (ticks (db_disk db)) of
                None \<Rightarrow> (False, db\<lparr>db_disk := tick (db_disk db)\<rparr>)
              | Some free \<Rightarrow>
                  (free > reference_entry_size * 10, db\<lparr>db_disk := tick (db_disk db)\<rparr>))
        else (True, db))"

definition reference_rotate_for ::
  "reference_value env \<Rightarrow> rotation_cause \<Rightarrow> reference_value database \<Rightarrow> unit result \<times> reference_value database" where
  "reference_rotate_for E cause db =
    (case reference_new_version E db of
       (thrown_not, db) \<Rightarrow>
         (let causes = db_rotation_causes db reference_sentinel_index;
              count = (\<lambda>c. (db_rotation_causes db)(reference_sentinel_index := c))
          in if \<not> thrown_not
             then (Inl File_open_failed,
                   db\<lparr>db_rotation_causes := count (causes\<lparr>rc_failed := rc_failed causes + 1\<rparr>),
                      db_integrity_latched := Some File_open_failed\<rparr>)
             else if cause = Preventive
             then (Inr (), db\<lparr>db_rotation_causes := count (causes\<lparr>rc_preventive := rc_preventive causes + 1\<rparr>)\<rparr>)
             else (Inr (), db\<lparr>db_rotation_causes :=
                     count (causes\<lparr>rc_capacity_exception := rc_capacity_exception causes + 1\<rparr>)\<rparr>)))"

section \<open>Entries of the active container\<close>

text \<open>The untyped lookup answers with the two fields as eight bytes.\<close>

definition reference_find_in_latest :: "reference_value database \<Rightarrow> raw_outpoint \<Rightarrow> full_find_result option" where
  "reference_find_in_latest db key =
    (case tbl_find (reference_map db) key of
       Some val \<Rightarrow> Some \<lparr>ff_data = put32 (rv_file_number val) @ put32 (rv_offset val), ff_block_height = rv_height val\<rparr>
     | None \<Rightarrow> None)"

definition reference_find :: "reference_value database \<Rightarrow> raw_outpoint \<Rightarrow> full_find_result option" where
  "reference_find db key = reference_find_in_latest db key"

definition reference_erase_in_latest ::
  "reference_value env \<Rightarrow> raw_outpoint \<Rightarrow> reference_value database \<Rightarrow> nat \<times> reference_value database" where
  "reference_erase_in_latest E key db =
    (let m = reference_map db
     in if tbl_find m key = None then (0, db)
        else (1, set_container reference_sentinel_index
                (tbl_drop (on_erase E (ticks (db_disk db)) m) key m) (db\<lparr>db_disk := tick (db_disk db)\<rparr>)))"

section \<open>Compaction\<close>

definition reopen_active_reference_container ::
  "reference_value env \<Rightarrow> reference_value database \<Rightarrow> unit result \<times> reference_value database" where
  "reopen_active_reference_container E db =
    (let active = catalog_active (reference_catalog db)
     in case reference_open_existing E active db of
          (Inl e, db) \<Rightarrow> (Inl e, db\<lparr>db_cleanup_pending := True\<rparr>)
        | (Inr _, db) \<Rightarrow> (Inr (), set_reference_catalog (catalog_add active (reference_catalog db)) db))"

definition compact_reference_container ::
  "reference_value env \<Rightarrow> reference_value database \<Rightarrow> unit result \<times> reference_value database" where
  "compact_reference_container E db =
    (let db = reference_close_container E db
     in case merge_groups E rv_height reference_sentinel_index db of
          (outcome, db) \<Rightarrow>
            (case reopen_active_reference_container E db of
               (reopened, db) \<Rightarrow>
                 (case outcome of Inl e \<Rightarrow> (Inl e, db) | Inr _ \<Rightarrow> (reopened, db))))"

section \<open>They are the operations of full mode at their index\<close>

lemma reference_paths:
  "data_path reference_sentinel_index v = reference_data_path v"
  "metadata_path reference_sentinel_index v = reference_metadata_path v"
  by (simp_all add: data_path_def metadata_path_def reference_data_path_def reference_metadata_path_def)

lemma reference_identity_eq: "expected_identity E db reference_sentinel_index v = reference_identity E db v"
  by (simp add: expected_identity_def reference_identity_def kind_of_index_def)

lemma reference_metadata_agree:
  "save_metadata_to_disk E reference_sentinel_index v db = reference_save_metadata E v db"
  "load_metadata_from_disk E reference_sentinel_index v db = reference_load_metadata E v db"
  by (auto simp: save_metadata_to_disk_def reference_save_metadata_def load_metadata_from_disk_def
      reference_load_metadata_def reference_paths split: option.splits prod.splits sum.splits)

lemma reference_open_agrees:
  "open_existing_container E reference_sentinel_index v db = reference_open_existing E v db"
  by (auto simp: open_existing_container_def reference_open_existing_def open_checked_def reference_paths
      reference_identity_def kind_of_index_def reference_opened_def simp del: find_single_named_Inr
      split: prod.splits sum.splits)

lemma reference_create_agrees:
  "create_container E reference_sentinel_index v db = reference_create E v db"
  by (auto simp: create_container_def reference_create_def reference_paths reference_identity_eq Let_def
      capacity_for_def reference_opened_def split: prod.splits bool.splits sum.splits constructing.splits)

lemma reference_close_agrees:
  "close_container E reference_sentinel_index db = reference_close_container E db"
  by (auto simp: close_container_def reference_close_container_def reference_metadata_agree Let_def
      reference_save_metadata_def split: option.splits prod.splits)

lemma reference_new_version_agrees:
  "new_version E reference_sentinel_index db = reference_new_version E db"
  by (simp add: new_version_def reference_new_version_def reference_close_agrees reference_create_agrees Let_def
      split: prod.splits call.splits sum.splits)

lemma reference_can_insert_agrees:
  "can_insert_safely E reference_sentinel_index db = reference_can_insert_safely E db"
  by (simp add: can_insert_safely_def reference_can_insert_safely_def reference_map_def Let_def
      entry_size_def reference_entry_size_def split: option.splits)

lemma reference_rotate_agrees:
  "rotate_for E reference_sentinel_index cause db = reference_rotate_for E cause db"
  by (cases cause) (simp_all add: rotate_for_def reference_rotate_for_def reference_new_version_agrees Let_def
      count_rotation_def split: prod.splits bool.splits)

lemma reference_erase_agrees:
  "erase_in_latest_version E [reference_sentinel_index] key db = reference_erase_in_latest E key db"
  by (simp add: reference_erase_in_latest_def tbl_erase_def reference_map_def Let_def)

lemma reference_reopen_agrees:
  "reopen_active_container E reference_sentinel_index db = reopen_active_reference_container E db"
  by (simp add: reopen_active_container_def reopen_active_reference_container_def reference_open_agrees
      stop_for_recovery_def Let_def split: prod.splits sum.splits)

lemma reference_compact_agrees:
  "compact_container E rv_height reference_sentinel_index db = compact_reference_container E db"
  by (auto simp: compact_container_def compact_reference_container_def reference_reopen_agrees
      reference_close_agrees Let_def split: prod.splits sum.splits)

lemma reference_find_agrees:
  "reference_find db key = map_option (\<lambda>r. \<lparr>ff_data = put32 (rf_file_number r) @ put32 (rf_offset r),
      ff_block_height = rf_block_height r\<rparr>) (reference_find_typed db key)"
  by (simp add: reference_find_def reference_find_in_latest_def reference_find_typed_def reference_map_def
      reference_result_of_def split: option.splits)

section \<open>Property\<close>


end
