(* ===== verification/Telemetry.thy ===== *)
theory Telemetry
  imports Walk_Facts
begin

text \<open>
  The counters of the read path: \<open>src/include/utxoz/statistics.hpp\<close> and \<open>src/statistics.cpp\<close>, built
  with \<open>UTXOZ_STATISTICS_LEVEL\<close> lookup, the recording in \<open>full_find\<close> and the lookup section of
  \<open>get_statistics\<close> (\<open>src/database_impl.cpp\<close>). Several threads may look up at once: each adds to the
  shard it was given, one atomic addition at a time, so a run is a sequence of lookups by threads.
  An average or a rate, a floating-point number in the source, is kept as the two counts it is the
  quotient of; the presentation of the report as JSON is in \<open>Reports\<close>.
\<close>

section \<open>Sharded counters\<close>

definition counter_shard_count :: nat where "counter_shard_count = 64"

type_synonym sharded_counters = "u64 list list"

definition no_counts :: "nat \<Rightarrow> sharded_counters" where
  "no_counts n = replicate counter_shard_count (replicate n 0)"

definition counter_add :: "nat \<Rightarrow> nat \<Rightarrow> u64 \<Rightarrow> sharded_counters \<Rightarrow> sharded_counters" where
  "counter_add shard field amount c = c[shard := (c ! shard)[field := c ! shard ! field + amount]]"

definition counter_sum :: "nat \<Rightarrow> sharded_counters \<Rightarrow> u64" where
  "counter_sum field c = fold (\<lambda>s total. total + s ! field) c 0"

text \<open>The shard of a thread: given out in turn on its first addition, kept from then on.\<close>

record shard_assignment =
  next_index :: u64
  assigned :: "(nat \<times> nat) list"

definition thread_shard_index :: "nat \<Rightarrow> shard_assignment \<Rightarrow> nat \<times> shard_assignment" where
  "thread_shard_index thread a =
    (case map_of (assigned a) thread of
       Some i \<Rightarrow> (i, a)
     | None \<Rightarrow>
         (let i = unat (next_index a) mod counter_shard_count
          in (i, a\<lparr>next_index := next_index a + 1, assigned := (thread, i) # assigned a\<rparr>)))"

section \<open>The counters of the read path\<close>

definition narrow_fields :: nat where "narrow_fields = 8"
definition wide_fields :: nat where "wide_fields = 20"
definition bucket_count :: nat where "bucket_count = 6"

text \<open>The fields of \<open>probe_stats\<close>, of \<open>resolution_stats\<close> and of \<open>lookup_stats\<close>.\<close>

definition p_answered :: nat where "p_answered = 0"
definition p_deferred :: nat where "p_deferred = 1"
definition p_age_total :: nat where "p_age_total = 2"

definition r_resolved :: nat where "r_resolved = 0"
definition r_absent :: nat where "r_absent = 1"
definition r_depth_total :: nat where "r_depth_total = 2"
definition r_files :: nat where "r_files = 3"
definition r_cache_hits :: nat where "r_cache_hits = 4"

definition l_answered_from_active :: nat where "l_answered_from_active = 0"
definition l_resolved_historical :: nat where "l_resolved_historical = 1"
definition l_generations_probed :: nat where "l_generations_probed = 2"
definition l_files_opened :: nat where "l_files_opened = 3"
definition l_cache_hits :: nat where "l_cache_hits = 4"
definition l_version_distance_total :: nat where "l_version_distance_total = 5"
definition l_probe_ordinal_total :: nat where "l_probe_ordinal_total = 6"
definition l_ordinal_bucket :: nat where "l_ordinal_bucket = 7"
definition l_distance_bucket :: nat where "l_distance_bucket = 7 + 6"

lemmas field_numbers = p_answered_def p_deferred_def p_age_total_def r_resolved_def r_absent_def
  r_depth_total_def r_files_def r_cache_hits_def l_answered_from_active_def
  l_resolved_historical_def l_generations_probed_def l_files_opened_def l_cache_hits_def
  l_version_distance_total_def l_probe_ordinal_total_def l_ordinal_bucket_def l_distance_bucket_def
  narrow_fields_def wide_fields_def bucket_count_def

record telemetry =
  tl_assignment :: shard_assignment
  tl_probe :: sharded_counters
  tl_resolution :: sharded_counters
  tl_lookup :: "sharded_counters list"

definition reset_search_stats :: "telemetry \<Rightarrow> telemetry" where
  "reset_search_stats st = st\<lparr>tl_probe := no_counts narrow_fields,
     tl_resolution := no_counts narrow_fields, tl_lookup := replicate container_count (no_counts wide_fields)\<rparr>"

definition probe_add :: "nat \<Rightarrow> nat \<Rightarrow> u64 \<Rightarrow> telemetry \<Rightarrow> telemetry" where
  "probe_add thread field amount st =
    (case thread_shard_index thread (tl_assignment st) of
       (i, a) \<Rightarrow> st\<lparr>tl_assignment := a, tl_probe := counter_add i field amount (tl_probe st)\<rparr>)"

definition resolution_add :: "nat \<Rightarrow> nat \<Rightarrow> u64 \<Rightarrow> telemetry \<Rightarrow> telemetry" where
  "resolution_add thread field amount st =
    (case thread_shard_index thread (tl_assignment st) of
       (i, a) \<Rightarrow> st\<lparr>tl_assignment := a, tl_resolution := counter_add i field amount (tl_resolution st)\<rparr>)"

definition lookup_add :: "nat \<Rightarrow> nat \<Rightarrow> nat \<Rightarrow> u64 \<Rightarrow> telemetry \<Rightarrow> telemetry" where
  "lookup_add index thread field amount st =
    (case thread_shard_index thread (tl_assignment st) of
       (i, a) \<Rightarrow> st\<lparr>tl_assignment := a,
          tl_lookup := (tl_lookup st)[index := counter_add i field amount (tl_lookup st ! index)]\<rparr>)"

definition record_answered :: "nat \<Rightarrow> u32 \<Rightarrow> u32 \<Rightarrow> telemetry \<Rightarrow> telemetry" where
  "record_answered thread access_height creation_height st =
    (let age = if access_height \<ge> creation_height then ucast access_height - ucast creation_height else 0
     in probe_add thread p_age_total age (probe_add thread p_answered 1 st))"

definition record_deferred :: "nat \<Rightarrow> telemetry \<Rightarrow> telemetry" where
  "record_deferred thread = probe_add thread p_deferred 1"

definition record_answered_from_active :: "nat \<Rightarrow> nat \<Rightarrow> telemetry \<Rightarrow> telemetry" where
  "record_answered_from_active index thread = lookup_add index thread l_answered_from_active 1"

text \<open>What a completed resolution hands over for one class: totals and histograms.\<close>

definition bucket_of :: "u64 \<Rightarrow> nat" where
  "bucket_of val = (if val \<le> 4 then (if val = 0 then 0 else unat val - 1) else if val \<le> 8 then 4 else 5)"

definition record_file_opened :: "nat \<Rightarrow> nat \<Rightarrow> u64 \<Rightarrow> u64 \<Rightarrow> telemetry \<Rightarrow> telemetry" where
  "record_file_opened index thread opened hits st =
     lookup_add index thread l_cache_hits hits (lookup_add index thread l_files_opened opened st)"

definition record_generations_probed :: "nat \<Rightarrow> nat \<Rightarrow> u64 \<Rightarrow> telemetry \<Rightarrow> telemetry" where
  "record_generations_probed index thread = lookup_add index thread l_generations_probed"

definition record_resolved_batch ::
  "nat \<Rightarrow> nat \<Rightarrow> u64 \<Rightarrow> u64 \<Rightarrow> u64 \<Rightarrow> u64 list \<Rightarrow> u64 list \<Rightarrow> telemetry \<Rightarrow> telemetry" where
  "record_resolved_batch index thread n ordinal_total distance_total ordinals distances st =
    fold (\<lambda>b st.
        let st = if ordinals ! b \<noteq> 0 then lookup_add index thread (l_ordinal_bucket + b) (ordinals ! b) st else st
        in if distances ! b \<noteq> 0 then lookup_add index thread (l_distance_bucket + b) (distances ! b) st else st)
      [0 ..< bucket_count]
      (lookup_add index thread l_version_distance_total distance_total
        (lookup_add index thread l_probe_ordinal_total ordinal_total
          (lookup_add index thread l_resolved_historical n st)))"

text \<open>And for the whole resolution, in \<open>resolution_stats\<close>.\<close>

definition record_resolution_batch :: "nat \<Rightarrow> u64 \<Rightarrow> u64 \<Rightarrow> telemetry \<Rightarrow> telemetry" where
  "record_resolution_batch thread n depth_total st =
     resolution_add thread r_depth_total depth_total (resolution_add thread r_resolved n st)"

definition record_absent :: "nat \<Rightarrow> u64 \<Rightarrow> telemetry \<Rightarrow> telemetry" where
  "record_absent thread n st = (if n = 0 then st else resolution_add thread r_absent n st)"

definition record_file_visited :: "nat \<Rightarrow> bool \<Rightarrow> telemetry \<Rightarrow> telemetry" where
  "record_file_visited thread cache_hit st =
    (let st = resolution_add thread r_files 1 st
     in if cache_hit then resolution_add thread r_cache_hits 1 st else st)"

section \<open>Summaries\<close>

text \<open>\<open>double(a) / double(b)\<close>, kept as the pair; \<open>0.0\<close> is the first of these.\<close>

type_synonym quotient = "u64 \<times> u64"

definition zero_quotient :: quotient where "zero_quotient = (0, 1)"

definition rate :: "u64 \<Rightarrow> u64 \<Rightarrow> quotient" where
  "rate a b = (if b > 0 then (a, b) else zero_quotient)"

record probe_summary =
  ps_probes :: u64
  ps_answered_from_active :: u64
  ps_deferred :: u64
  ps_active_map_hit_rate :: quotient
  ps_avg_age_answered :: quotient

definition probe_summary_of :: "telemetry \<Rightarrow> probe_summary" where
  "probe_summary_of st =
    (let answered = counter_sum p_answered (tl_probe st); deferred = counter_sum p_deferred (tl_probe st);
         probes = answered + deferred
     in if probes = 0
        then \<lparr>ps_probes = 0, ps_answered_from_active = 0, ps_deferred = 0,
               ps_active_map_hit_rate = zero_quotient, ps_avg_age_answered = zero_quotient\<rparr>
        else \<lparr>ps_probes = probes, ps_answered_from_active = answered, ps_deferred = deferred,
               ps_active_map_hit_rate = (answered, probes),
               ps_avg_age_answered = rate (counter_sum p_age_total (tl_probe st)) answered\<rparr>)"

record resolution_summary =
  rm_resolved :: u64
  rm_absent :: u64
  rm_files_visited :: u64
  rm_cache_hits :: u64
  rm_avg_depth :: quotient
  rm_cache_hit_rate :: quotient

definition resolution_summary_of :: "telemetry \<Rightarrow> resolution_summary" where
  "resolution_summary_of st =
    (let resolved = counter_sum r_resolved (tl_resolution st);
         files = counter_sum r_files (tl_resolution st); hits = counter_sum r_cache_hits (tl_resolution st)
     in \<lparr>rm_resolved = resolved, rm_absent = counter_sum r_absent (tl_resolution st),
         rm_files_visited = files, rm_cache_hits = min hits files,
         rm_avg_depth = rate (counter_sum r_depth_total (tl_resolution st)) resolved,
         rm_cache_hit_rate = rate (min hits files) files\<rparr>)"

record class_lookup_summary =
  cl_container_class :: u64
  cl_active_maps_probed :: u64
  cl_answered_from_active :: u64
  cl_resolved_historical :: u64
  cl_generations_probed :: u64
  cl_files_opened :: u64
  cl_cache_hits :: u64
  cl_avg_probe_ordinal :: quotient
  cl_avg_version_distance :: quotient
  cl_probe_ordinal_histogram :: "u64 list"
  cl_version_distance_histogram :: "u64 list"

definition class_summary_of :: "sharded_counters \<Rightarrow> class_lookup_summary" where
  "class_summary_of c =
    (let opened = counter_sum l_files_opened c; hits = counter_sum l_cache_hits c;
         resolved = counter_sum l_resolved_historical c
     in \<lparr>cl_container_class = 0, cl_active_maps_probed = 0,
         cl_answered_from_active = counter_sum l_answered_from_active c,
         cl_resolved_historical = resolved,
         cl_generations_probed = counter_sum l_generations_probed c, cl_files_opened = opened,
         cl_cache_hits = (if hits > opened then opened else hits),
         cl_avg_probe_ordinal = rate (counter_sum l_probe_ordinal_total c) resolved,
         cl_avg_version_distance = rate (counter_sum l_version_distance_total c) resolved,
         cl_probe_ordinal_histogram = map (\<lambda>b. counter_sum (l_ordinal_bucket + b) c) [0 ..< bucket_count],
         cl_version_distance_histogram = map (\<lambda>b. counter_sum (l_distance_bucket + b) c) [0 ..< bucket_count]\<rparr>)"

text \<open>
  The lookup section of \<open>get_statistics\<close> in full mode: how often each class was asked is derived, from
  the last class backwards.
\<close>

record lookup_telemetry =
  lt_statistics_level :: string
  lt_mode :: storage_mode
  lt_lookups_received :: u64
  lt_deferred :: u64
  lt_absent :: u64
  lt_classes :: "class_lookup_summary list"

definition derive_probed :: "u64 \<Rightarrow> class_lookup_summary list \<Rightarrow> u64 \<times> class_lookup_summary list" where
  "derive_probed deferred classes =
    foldr (\<lambda>c (reached, out).
        let reached = reached + cl_answered_from_active c
        in (reached, c\<lparr>cl_active_maps_probed := reached\<rparr> # out))
      classes (deferred, [])"

definition full_lookup_telemetry :: "telemetry \<Rightarrow> lookup_telemetry" where
  "full_lookup_telemetry st =
    (let probes = probe_summary_of st;
         classes = map (\<lambda>index. (class_summary_of (tl_lookup st ! index))\<lparr>cl_container_class := word_of_nat index\<rparr>)
           [0 ..< container_count]
     in \<lparr>lt_statistics_level = ''lookup'', lt_mode = Full_mode,
         lt_lookups_received = ps_probes probes, lt_deferred = ps_deferred probes,
         lt_absent = rm_absent (resolution_summary_of st),
         lt_classes = snd (derive_probed (ps_deferred probes) classes)\<rparr>)"

text \<open>Reference mode has one class, which every lookup that arrives asks.\<close>

definition reference_class :: u64 where "reference_class = - 1"

definition reference_lookup_telemetry :: "telemetry \<Rightarrow> lookup_telemetry" where
  "reference_lookup_telemetry st =
    (let probes = probe_summary_of st
     in \<lparr>lt_statistics_level = ''lookup'', lt_mode = Reference_mode,
         lt_lookups_received = ps_probes probes, lt_deferred = ps_deferred probes,
         lt_absent = rm_absent (resolution_summary_of st),
         lt_classes = [(class_summary_of (tl_lookup st ! 0))\<lparr>cl_container_class := reference_class,
           cl_active_maps_probed := ps_probes probes\<rparr>]\<rparr>)"

text \<open>Summed from the classes.\<close>

definition sum_of :: "(class_lookup_summary \<Rightarrow> u64) \<Rightarrow> lookup_telemetry \<Rightarrow> u64" where
  "sum_of field t = fold (\<lambda>c tot. tot + field c) (lt_classes t) 0"

definition telemetry_answered_from_active :: "lookup_telemetry \<Rightarrow> u64" where
  "telemetry_answered_from_active = sum_of cl_answered_from_active"
definition telemetry_resolved_historical :: "lookup_telemetry \<Rightarrow> u64" where
  "telemetry_resolved_historical = sum_of cl_resolved_historical"
definition telemetry_generations_probed :: "lookup_telemetry \<Rightarrow> u64" where
  "telemetry_generations_probed = sum_of cl_generations_probed"
definition telemetry_files_opened :: "lookup_telemetry \<Rightarrow> u64" where
  "telemetry_files_opened = sum_of cl_files_opened"
definition telemetry_cache_hits :: "lookup_telemetry \<Rightarrow> u64" where
  "telemetry_cache_hits = sum_of cl_cache_hits"

section \<open>A lookup and what it records\<close>

fun find_recorded ::
  "nat \<Rightarrow> raw_outpoint \<Rightarrow> u32 \<Rightarrow> utxo_value database \<Rightarrow> u64 list \<Rightarrow> telemetry
   \<Rightarrow> full_find_result option \<times> telemetry" where
  "find_recorded thread key height db [] st = (None, record_deferred thread st)"
| "find_recorded thread key height db (i # is) st =
    (case tbl_find (container db i) key of
       Some v \<Rightarrow> (Some (full_result_of v),
          record_answered_from_active (unat i) thread (record_answered thread height (uv_block_height v) st))
     | None \<Rightarrow> find_recorded thread key height db is st)"

definition full_find_recorded ::
  "nat \<Rightarrow> raw_outpoint \<Rightarrow> u32 \<Rightarrow> utxo_value database \<Rightarrow> telemetry \<Rightarrow> full_find_result option \<times> telemetry" where
  "full_find_recorded thread key height db = find_recorded thread key height db full_indices"

definition reference_find_recorded ::
  "nat \<Rightarrow> raw_outpoint \<Rightarrow> u32 \<Rightarrow> reference_value database \<Rightarrow> telemetry \<Rightarrow> reference_find_result option \<times> telemetry" where
  "reference_find_recorded thread key height db st =
    (case tbl_find (container db reference_sentinel_index) key of
       Some v \<Rightarrow> (Some (reference_result_of v),
          record_answered_from_active 0 thread (record_answered thread height (rv_height v) st))
     | None \<Rightarrow> (None, record_deferred thread st))"

text \<open>A run of lookups by any threads.\<close>

fun lookups ::
  "utxo_value database \<Rightarrow> (nat \<times> raw_outpoint \<times> u32) list \<Rightarrow> telemetry \<Rightarrow> full_find_result option list \<times> telemetry" where
  "lookups db [] st = ([], st)"
| "lookups db ((thread, key, height) # calls) st =
    (case full_find_recorded thread key height db st of
       (r, st) \<Rightarrow> (case lookups db calls st of (rs, st) \<Rightarrow> (r # rs, st)))"

section \<open>The sum of the shards\<close>

definition wf_counters :: "nat \<Rightarrow> sharded_counters \<Rightarrow> bool" where
  "wf_counters n c \<longleftrightarrow> length c = counter_shard_count \<and> (\<forall>s \<in> set c. length s = n)"

lemma wf_no_counts: "wf_counters n (no_counts n)"
  by (simp add: wf_counters_def no_counts_def)

lemma counter_sum_sum_list: "counter_sum f c = sum_list (map (\<lambda>s. s ! f) c)"
proof -
  have "fold (\<lambda>s total. total + s ! f) c a = a + sum_list (map (\<lambda>s. s ! f) c)" for a
    by (induction c arbitrary: a) (simp_all add: ac_simps)
  then show ?thesis by (simp add: counter_sum_def)
qed

lemma counter_sum_no_counts: "f < n \<Longrightarrow> counter_sum f (no_counts n) = 0"
  by (simp add: counter_sum_sum_list no_counts_def sum_list_replicate)

lemma sum_list_set: "i < length xs \<Longrightarrow> sum_list (xs[i := x]) = sum_list xs - xs ! i + (x :: u64)"
  by (induction xs arbitrary: i) (auto simp: algebra_simps split: nat.split)

lemma counter_add_wf:
  assumes "wf_counters n c"
  shows "wf_counters n (counter_add i f a c)"
proof (cases "i < length c")
  case True
  then show ?thesis
    using assms by (auto simp: wf_counters_def counter_add_def dest!: set_update_subset_insert[THEN subsetD])
next
  case False
  then show ?thesis using assms by (simp add: counter_add_def list_update_beyond not_less)
qed

lemma counter_sum_add:
  assumes wf: "wf_counters n c" and i: "i < counter_shard_count" and f: "f < n"
  shows "counter_sum g (counter_add i f a c) = (if g = f then counter_sum g c + a else counter_sum g c)"
proof -
  have len: "i < length c" using wf i by (simp add: wf_counters_def)
  then have "length (c ! i) = n" using wf by (simp add: wf_counters_def)
  then have "(c ! i)[f := c ! i ! f + a] ! g = (if g = f then c ! i ! g + a else c ! i ! g)"
    using f by simp
  moreover have "map (\<lambda>s. s ! g) (counter_add i f a c)
      = (map (\<lambda>s. s ! g) c)[i := (c ! i)[f := c ! i ! f + a] ! g]"
    by (simp add: counter_add_def map_update)
  ultimately show ?thesis
    using len by (simp add: counter_sum_sum_list sum_list_set)
qed

text \<open>A thread always has a shard that exists.\<close>

definition wf_assignment :: "shard_assignment \<Rightarrow> bool" where
  "wf_assignment a \<longleftrightarrow> (\<forall>(t, i) \<in> set (assigned a). i < counter_shard_count)"

lemma thread_shard_index_wf:
  assumes "wf_assignment a" "thread_shard_index t a = (i, a')"
  shows "i < counter_shard_count \<and> wf_assignment a'"
  using assms by (auto simp: thread_shard_index_def wf_assignment_def Let_def counter_shard_count_def
      split: option.splits dest!: map_of_SomeD)

definition wf_telemetry :: "telemetry \<Rightarrow> bool" where
  "wf_telemetry st \<longleftrightarrow> wf_assignment (tl_assignment st) \<and> wf_counters narrow_fields (tl_probe st)
     \<and> wf_counters narrow_fields (tl_resolution st) \<and> length (tl_lookup st) = container_count \<and> (\<forall>c \<in> set (tl_lookup st). wf_counters wide_fields c)"

abbreviation probe_total :: "telemetry \<Rightarrow> nat \<Rightarrow> u64" where
  "probe_total st f \<equiv> counter_sum f (tl_probe st)"

abbreviation lookup_total :: "telemetry \<Rightarrow> nat \<Rightarrow> nat \<Rightarrow> u64" where
  "lookup_total st index f \<equiv> counter_sum f (tl_lookup st ! index)"

abbreviation resolution_total :: "telemetry \<Rightarrow> nat \<Rightarrow> u64" where
  "resolution_total st f \<equiv> counter_sum f (tl_resolution st)"

lemma resolution_add_total:
  assumes wf: "wf_telemetry st" and f: "f < narrow_fields"
  shows "wf_telemetry (resolution_add t f a st)"
    and "resolution_total (resolution_add t f a st) g
      = (if g = f then resolution_total st g + a else resolution_total st g)"
    and "tl_lookup (resolution_add t f a st) = tl_lookup st" "tl_probe (resolution_add t f a st) = tl_probe st"
proof -
  obtain i asg where s: "thread_shard_index t (tl_assignment st) = (i, asg)" by fastforce
  have i: "i < counter_shard_count" "wf_assignment asg"
    using thread_shard_index_wf[OF _ s] wf by (simp_all add: wf_telemetry_def)
  show "wf_telemetry (resolution_add t f a st)"
    using wf i by (simp add: wf_telemetry_def resolution_add_def s counter_add_wf)
  show "resolution_total (resolution_add t f a st) g
      = (if g = f then resolution_total st g + a else resolution_total st g)"
    using counter_sum_add[OF _ i(1) f, of "tl_resolution st" g a] wf
    by (simp add: wf_telemetry_def resolution_add_def s)
  show "tl_lookup (resolution_add t f a st) = tl_lookup st" "tl_probe (resolution_add t f a st) = tl_probe st"
    by (simp_all add: resolution_add_def s)
qed

lemma probe_add_total:
  assumes wf: "wf_telemetry st" and f: "f < narrow_fields"
  shows "wf_telemetry (probe_add t f a st)"
    and "probe_total (probe_add t f a st) g = (if g = f then probe_total st g + a else probe_total st g)"
    and "tl_lookup (probe_add t f a st) = tl_lookup st"
proof -
  obtain i asg where s: "thread_shard_index t (tl_assignment st) = (i, asg)" by fastforce
  have i: "i < counter_shard_count" "wf_assignment asg"
    using thread_shard_index_wf[OF _ s] wf by (simp_all add: wf_telemetry_def)
  show "wf_telemetry (probe_add t f a st)"
    using wf i by (simp add: wf_telemetry_def probe_add_def s counter_add_wf)
  show "probe_total (probe_add t f a st) g = (if g = f then probe_total st g + a else probe_total st g)"
    using counter_sum_add[OF _ i(1) f, of "tl_probe st" g a] wf by (simp add: wf_telemetry_def probe_add_def s)
  show "tl_lookup (probe_add t f a st) = tl_lookup st" by (simp add: probe_add_def s)
qed

lemma lookup_add_total:
  assumes wf: "wf_telemetry st" and f: "f < wide_fields" and k: "k < container_count"
  shows "wf_telemetry (lookup_add k t f a st)"
    and "j < container_count \<Longrightarrow> lookup_total (lookup_add k t f a st) j g
      = (if j = k \<and> g = f then lookup_total st j g + a else lookup_total st j g)"
    and "tl_probe (lookup_add k t f a st) = tl_probe st"
    and "tl_resolution (lookup_add k t f a st) = tl_resolution st"
proof -
  obtain i asg where s: "thread_shard_index t (tl_assignment st) = (i, asg)" by fastforce
  have i: "i < counter_shard_count" "wf_assignment asg"
    using thread_shard_index_wf[OF _ s] wf by (simp_all add: wf_telemetry_def)
  have c: "wf_counters wide_fields (tl_lookup st ! k)" using wf k by (simp add: wf_telemetry_def)
  show "wf_telemetry (lookup_add k t f a st)"
    using wf i counter_add_wf[OF c]
    by (auto simp: wf_telemetry_def lookup_add_def s dest!: set_update_subset_insert[THEN subsetD])
  show "lookup_total (lookup_add k t f a st) j g
      = (if j = k \<and> g = f then lookup_total st j g + a else lookup_total st j g)" if "j < container_count"
    using counter_sum_add[OF c i(1) f, of g a] wf k that
    by (cases "k = j") (auto simp: wf_telemetry_def lookup_add_def s)
  show "tl_probe (lookup_add k t f a st) = tl_probe st" "tl_resolution (lookup_add k t f a st) = tl_resolution st"
    by (simp_all add: lookup_add_def s)
qed

section \<open>One lookup\<close>

text \<open>Class \<open>k\<close> is asked when no class before it holds the key, and answers when it does.\<close>

definition asked :: "utxo_value database \<Rightarrow> raw_outpoint \<Rightarrow> nat \<Rightarrow> bool" where
  "asked db key k \<longleftrightarrow> (\<forall>j < k. tbl_find (container db (full_indices ! j)) key = None)"

definition answers :: "utxo_value database \<Rightarrow> raw_outpoint \<Rightarrow> nat \<Rightarrow> bool" where
  "answers db key k \<longleftrightarrow> asked db key k \<and> tbl_find (container db (full_indices ! k)) key \<noteq> None"

lemma find_recorded_cases:
  assumes "find_recorded t key h db is st = (r, st')"
  obtains (deferred) "r = None" "\<forall>i \<in> set is. tbl_find (container db i) key = None" "st' = record_deferred t st"
  | (answered) n v where "n < length is" "\<forall>j < n. tbl_find (container db (is ! j)) key = None"
      "tbl_find (container db (is ! n)) key = Some v" "r = Some (full_result_of v)"
      "st' = record_answered_from_active (unat (is ! n)) t (record_answered t h (uv_block_height v) st)"
proof -
  have "(r = None \<and> (\<forall>i \<in> set is. tbl_find (container db i) key = None) \<and> st' = record_deferred t st)
    \<or> (\<exists>n v. n < length is \<and> (\<forall>j < n. tbl_find (container db (is ! j)) key = None)
        \<and> tbl_find (container db (is ! n)) key = Some v \<and> r = Some (full_result_of v)
        \<and> st' = record_answered_from_active (unat (is ! n)) t (record_answered t h (uv_block_height v) st))"
    using assms
  proof (induction "is")
    case (Cons i "is")
    show ?case
    proof (cases "tbl_find (container db i) key")
      case (Some v)
      then show ?thesis using Cons.prems by (intro disjI2 exI[of _ 0] exI[of _ v]) simp
    next
      case None
      then have "find_recorded t key h db is st = (r, st')" using Cons.prems by simp
      from Cons.IH[OF this] show ?thesis
      proof (elim disjE exE conjE)
        fix n v
        assume "n < length is" "\<forall>j < n. tbl_find (container db (is ! j)) key = None"
          "tbl_find (container db (is ! n)) key = Some v" "r = Some (full_result_of v)"
          "st' = record_answered_from_active (unat (is ! n)) t (record_answered t h (uv_block_height v) st)"
        then show ?thesis
          using None by (intro disjI2 exI[of _ "Suc n"] exI[of _ v]) (auto simp: less_Suc_eq_0_disj)
      qed (use None in auto)
    qed
  qed simp
  then show thesis using deferred answered by blast
qed

lemma full_index_nth:
  assumes "n < container_count"
  shows "unat (full_indices ! n) = n"
proof -
  have "n = 0 \<or> n = 1 \<or> n = 2 \<or> n = 3 \<or> n = 4"
    using assms by (simp add: container_count_def container_sizes_def) arith
  then show ?thesis by (auto simp: full_indices_def)
qed

lemma record_answered_total:
  assumes wf: "wf_telemetry st"
  shows "wf_telemetry (record_answered t h ch st)" "tl_lookup (record_answered t h ch st) = tl_lookup st"
    and "probe_total (record_answered t h ch st) p_answered = probe_total st p_answered + 1"
    and "probe_total (record_answered t h ch st) p_deferred = probe_total st p_deferred"
proof -
  have a: "p_answered < narrow_fields" "p_age_total < narrow_fields"
    and d: "p_answered \<noteq> p_age_total" "p_deferred \<noteq> p_age_total" "p_deferred \<noteq> p_answered"
    by (simp_all add: field_numbers)
  note 1 = probe_add_total[OF wf a(1), where t = t and a = 1]
  note 2 = probe_add_total[OF 1(1) a(2), where t = t]
  show "wf_telemetry (record_answered t h ch st)" "tl_lookup (record_answered t h ch st) = tl_lookup st"
    "probe_total (record_answered t h ch st) p_answered = probe_total st p_answered + 1"
    "probe_total (record_answered t h ch st) p_deferred = probe_total st p_deferred"
    using 1 2 d by (simp_all add: record_answered_def Let_def)
qed

lemma find_recorded_counts:
  assumes run: "full_find_recorded t key h db st = (r, st')" and wf: "wf_telemetry st"
  shows "wf_telemetry st' \<and> r = full_find db key
    \<and> (\<forall>k < container_count. lookup_total st' k l_answered_from_active
        = lookup_total st k l_answered_from_active + (if answers db key k then 1 else 0))
    \<and> probe_total st' p_deferred = probe_total st p_deferred + (if asked db key container_count then 1 else 0)
    \<and> probe_total st' p_answered = probe_total st p_answered + (if asked db key container_count then 0 else 1)"
proof -
  have len: "length full_indices = container_count"
    by (simp add: full_indices_def container_count_def container_sizes_def)
  have f: "p_deferred < narrow_fields" "p_answered \<noteq> p_deferred" "l_answered_from_active < wide_fields"
    by (simp_all add: field_numbers)
  have found: "full_find db key = map_option full_result_of (find_in_latest_version db full_indices key)"
    by (simp add: full_find_def)
  show ?thesis
    using run[unfolded full_find_recorded_def]
  proof (cases rule: find_recorded_cases)
    case deferred
    have none: "tbl_find (container db (full_indices ! j)) key = None" if "j < container_count" for j
      using deferred(2) that nth_mem[of j full_indices] by (simp add: len del: nth_mem)
    have "find_in_latest_version db is key = None" if "set is \<subseteq> set full_indices" for "is"
      using that deferred(2) by (induction "is") auto
    moreover have "\<not> answers db key k" if "k < container_count" for k
      using none[OF that] by (simp add: answers_def)
    moreover have "asked db key container_count" using none by (simp add: asked_def)
    ultimately show ?thesis
      using deferred(1,3) probe_add_total[OF wf f(1), where t = t and a = 1] f(2) by (simp add: found record_deferred_def)
  next
    case (answered n v)
    have n: "n < container_count" using answered(1) by (simp add: len)
    have ans: "answers db key k \<longleftrightarrow> k = n" if "k < container_count" for k
      using answered(2,3) by (cases k n rule: linorder_cases) (auto simp: answers_def asked_def)
    have "\<not> asked db key container_count" using n answered(3) by (auto simp: asked_def)
    moreover have "find_in_latest_version db is key = Some v"
      if "m < length is" "\<forall>j < m. tbl_find (container db (is ! j)) key = None"
        "tbl_find (container db (is ! m)) key = Some v" for "is" m
      using that
    proof (induction "is" arbitrary: m)
      case (Cons i "is")
      then show ?case by (cases m) (auto simp: All_less_Suc2 split: option.split)
    qed simp
    from this[OF answered(1-3)] have "r = full_find db key" using answered(4) by (simp add: found)
    ultimately show ?thesis
      using answered(5) record_answered_total[OF wf, of t h "uv_block_height v"]
        lookup_add_total[OF record_answered_total(1)[OF wf, of t h "uv_block_height v"] f(3) n, where t = t and a = 1] ans
      by (simp add: record_answered_from_active_def full_index_nth[OF n])
  qed
qed

lemma reference_find_recorded_counts:
  assumes run: "reference_find_recorded t key h db st = (r, st')" and wf: "wf_telemetry st"
  shows "wf_telemetry st' \<and> r = reference_find_typed db key
    \<and> probe_total st' p_answered + probe_total st' p_deferred = probe_total st p_answered + probe_total st p_deferred + 1
    \<and> lookup_total st' 0 l_answered_from_active
        = lookup_total st 0 l_answered_from_active + (if r = None then 0 else 1)"
proof -
  have f: "p_deferred < narrow_fields" "p_answered \<noteq> p_deferred" "l_answered_from_active < wide_fields" "0 < container_count"
    by (simp_all add: field_numbers)
  show ?thesis
  proof (cases "tbl_find (container db reference_sentinel_index) key")
    case None
    then show ?thesis
      using run probe_add_total[OF wf f(1), where t = t and a = 1] f(2)
      by (simp add: reference_find_recorded_def reference_find_typed_def record_deferred_def)
  next
    case (Some v)
    note a = record_answered_total[OF wf, of t h "rv_height v"]
    show ?thesis
      using run Some a lookup_add_total[OF a(1) f(3,4), where t = t and a = 1] f(4)
      by (auto simp add: reference_find_recorded_def reference_find_typed_def record_answered_from_active_def)
  qed
qed

section \<open>Runs of lookups\<close>

definition count_calls :: "(raw_outpoint \<Rightarrow> bool) \<Rightarrow> (nat \<times> raw_outpoint \<times> u32) list \<Rightarrow> nat" where
  "count_calls P calls = length (filter (\<lambda>(_, key, _). P key) calls)"

lemma lookups_count:
  assumes "lookups db calls st = (rs, st')" "wf_telemetry st"
  shows "wf_telemetry st' \<and> rs = map (\<lambda>(_, key, _). full_find db key) calls
    \<and> (\<forall>k < container_count. lookup_total st' k l_answered_from_active
        = lookup_total st k l_answered_from_active + word_of_nat (count_calls (\<lambda>key. answers db key k) calls))
    \<and> probe_total st' p_deferred
        = probe_total st p_deferred + word_of_nat (count_calls (\<lambda>key. asked db key container_count) calls)
    \<and> probe_total st' p_answered
        = probe_total st p_answered + word_of_nat (count_calls (\<lambda>key. \<not> asked db key container_count) calls)"
  using assms
proof (induction calls arbitrary: st rs)
  case Nil
  then show ?case by (simp add: count_calls_def)
next
  case (Cons c calls)
  obtain t key h where c: "c = (t, key, h)" by (rule prod_cases3)
  obtain r st1 where one: "full_find_recorded t key h db st = (r, st1)" by fastforce
  obtain rs1 where rest: "lookups db calls st1 = (rs1, st')" "rs = r # rs1"
    using Cons.prems(1) one by (auto simp: c split: prod.splits)
  note a = find_recorded_counts[OF one Cons.prems(2)]
  have "wf_telemetry st1" using a by simp
  from Cons.IH[OF rest(1) this] a show ?case
    by (auto simp: c rest(2) count_calls_def ac_simps)
qed

lemma count_asked:
  "count_calls (\<lambda>key. asked db key k) calls
     = count_calls (\<lambda>key. answers db key k) calls + count_calls (\<lambda>key. asked db key (Suc k)) calls"
proof (induction calls)
  case (Cons c calls)
  then show ?case by (cases c) (auto simp: count_calls_def asked_def answers_def less_Suc_eq)
qed (simp add: count_calls_def)

lemma count_none: "count_calls P calls \<le> length calls"
  by (simp add: count_calls_def)

lemma count_split: "count_calls P calls + count_calls (\<lambda>key. \<not> P key) calls = length calls"
  by (induction calls) (auto simp: count_calls_def)

text \<open>The derivation, from the last class backwards.\<close>

lemma derive_probed_nth:
  assumes "\<forall>k < length classes. cl_answered_from_active (classes ! k) = word_of_nat (f k)"
    and "\<forall>k < length classes. a k = f k + a (Suc k)"
  shows "fst (derive_probed (word_of_nat (a (length classes))) classes) = word_of_nat (a 0)
    \<and> length (snd (derive_probed (word_of_nat (a (length classes))) classes)) = length classes
    \<and> (\<forall>k < length classes. snd (derive_probed (word_of_nat (a (length classes))) classes) ! k
        = (classes ! k)\<lparr>cl_active_maps_probed := word_of_nat (a k)\<rparr>)"
  using assms
proof (induction classes arbitrary: f a)
  case Nil
  then show ?case by (simp add: derive_probed_def)
next
  case (Cons c classes)
  have p: "\<forall>k < length classes. cl_answered_from_active (classes ! k) = word_of_nat (f (Suc k))"
    "\<forall>k < length classes. a (Suc k) = f (Suc k) + a (Suc (Suc k))"
    "cl_answered_from_active c = word_of_nat (f 0)" "a 0 = f 0 + a 1"
    using Cons.prems by (auto simp: All_less_Suc2)
  obtain reached out where d: "derive_probed (word_of_nat (a (Suc (length classes)))) classes = (reached, out)"
    by fastforce
  have ih: "reached = word_of_nat (a 1)" "length out = length classes"
    "\<forall>k < length classes. out ! k = (classes ! k)\<lparr>cl_active_maps_probed := word_of_nat (a (Suc k))\<rparr>"
    using Cons.IH[of "\<lambda>k. f (Suc k)" "\<lambda>k. a (Suc k)", OF p(1,2)] d by simp_all
  have "derive_probed (word_of_nat (a (length (c # classes)))) (c # classes)
      = (word_of_nat (a 0), c\<lparr>cl_active_maps_probed := word_of_nat (a 0)\<rparr> # out)"
    using d ih(1) p(3,4) by (simp add: derive_probed_def Let_def ac_simps)
  then show ?case using ih(2,3) by (simp add: All_less_Suc2)
qed

section \<open>Property\<close>

lemma full_lookup_telemetry_counts:
  assumes run: "lookups db calls (reset_search_stats st) = (rs, st')" and wf: "wf_assignment (tl_assignment st)"
    and small: "length calls < 2 ^ 64"
  shows "rs = map (\<lambda>(_, key, _). full_find db key) calls
    \<and> lt_lookups_received (full_lookup_telemetry st') = word_of_nat (length calls)
    \<and> lt_deferred (full_lookup_telemetry st')
        = word_of_nat (count_calls (\<lambda>key. asked db key container_count) calls)
    \<and> length (lt_classes (full_lookup_telemetry st')) = container_count
    \<and> (\<forall>k < container_count.
        cl_container_class (lt_classes (full_lookup_telemetry st') ! k) = word_of_nat k
        \<and> cl_active_maps_probed (lt_classes (full_lookup_telemetry st') ! k)
            = word_of_nat (count_calls (\<lambda>key. asked db key k) calls)
        \<and> cl_answered_from_active (lt_classes (full_lookup_telemetry st') ! k)
            = word_of_nat (count_calls (\<lambda>key. answers db key k) calls))"
proof -
  let ?none = "\<lambda>key. asked db key container_count"
  have start: "wf_telemetry (reset_search_stats st)"
    using wf by (simp add: wf_telemetry_def reset_search_stats_def wf_no_counts)
  have zero: "probe_total (reset_search_stats st) p_deferred = 0" "probe_total (reset_search_stats st) p_answered = 0"
    "k < container_count \<Longrightarrow> lookup_total (reset_search_stats st) k l_answered_from_active = 0" for k
    using counter_sum_no_counts[of p_deferred narrow_fields] counter_sum_no_counts[of p_answered narrow_fields]
      counter_sum_no_counts[of l_answered_from_active wide_fields]
    by (simp_all add: reset_search_stats_def field_numbers)
  note c = lookups_count[OF run start]
  have deferred: "probe_total st' p_deferred = word_of_nat (count_calls ?none calls)"
    and answered: "probe_total st' p_answered = word_of_nat (count_calls (\<lambda>key. \<not> ?none key) calls)"
    and per: "\<And>k. k < container_count \<Longrightarrow> lookup_total st' k l_answered_from_active
        = word_of_nat (count_calls (\<lambda>key. answers db key k) calls)"
    using c zero by simp_all
  have total: "probe_total st' p_answered + probe_total st' p_deferred = word_of_nat (length calls)"
    using count_split[of ?none calls, symmetric] by (simp add: answered deferred ac_simps)
  have sum: "ps_probes (probe_summary_of st') = word_of_nat (length calls)"
    "ps_deferred (probe_summary_of st') = word_of_nat (count_calls ?none calls)"
  proof -
    have "calls = []" if "word_of_nat (length calls) = (0 :: u64)"
      using unat_small[OF small] that by simp
    then have "count_calls ?none calls = 0" if "word_of_nat (length calls) = (0 :: u64)"
      using that by (simp add: count_calls_def)
    then show "ps_probes (probe_summary_of st') = word_of_nat (length calls)"
      "ps_deferred (probe_summary_of st') = word_of_nat (count_calls ?none calls)"
      using total deferred by (auto simp: probe_summary_of_def Let_def)
  qed
  define classes where "classes = map (\<lambda>k. (class_summary_of (tl_lookup st' ! k))\<lparr>cl_container_class := word_of_nat k\<rparr>)
    [0 ..< container_count]"
  have len: "length classes = container_count" by (simp add: classes_def)
  have at: "classes ! k = (class_summary_of (tl_lookup st' ! k))\<lparr>cl_container_class := word_of_nat k\<rparr>"
    if "k < container_count" for k
    using that by (simp add: classes_def)
  have "\<forall>k < length classes. cl_answered_from_active (classes ! k)
      = word_of_nat (count_calls (\<lambda>key. answers db key k) calls)"
    using per by (simp add: len at class_summary_of_def Let_def)
  moreover have "\<forall>k < length classes. count_calls (\<lambda>key. asked db key k) calls
      = count_calls (\<lambda>key. answers db key k) calls + count_calls (\<lambda>key. asked db key (Suc k)) calls"
    by (intro allI impI count_asked)
  ultimately have d: "length (snd (derive_probed (word_of_nat (count_calls ?none calls)) classes)) = container_count"
    "\<forall>k < container_count. snd (derive_probed (word_of_nat (count_calls ?none calls)) classes) ! k
       = (classes ! k)\<lparr>cl_active_maps_probed := word_of_nat (count_calls (\<lambda>key. asked db key k) calls)\<rparr>"
    using derive_probed_nth[of classes "\<lambda>k. count_calls (\<lambda>key. answers db key k) calls"
        "\<lambda>k. count_calls (\<lambda>key. asked db key k) calls"] by (simp_all add: len)
  have t: "full_lookup_telemetry st' = \<lparr>lt_statistics_level = ''lookup'', lt_mode = Full_mode,
      lt_lookups_received = word_of_nat (length calls),
      lt_deferred = word_of_nat (count_calls ?none calls), lt_absent = rm_absent (resolution_summary_of st'),
      lt_classes = snd (derive_probed (word_of_nat (count_calls ?none calls)) classes)\<rparr>"
    by (simp add: full_lookup_telemetry_def Let_def sum classes_def)
  show ?thesis
    using c d per by (simp add: t at class_summary_of_def Let_def)
qed

text \<open>
  C25: the telemetry of the lookups is exact, although only two kinds of events are counted and each
  thread counts in a shard of its own: however the lookups of any threads follow one another, the
  lookups received and the deferred ones, and for each class how often it answered and how often its
  map was asked, which is only derived, are the numbers a direct count of them would give; and
  recording changes no answer.
\<close>

theorem lookup_telemetry_exact:
  assumes "lookups db calls (reset_search_stats st) = (rs, st')" and "wf_assignment (tl_assignment st)"
    and "length calls < 2 ^ 64"
  shows "rs = map (\<lambda>(_, key, _). full_find db key) calls
    \<and> lt_lookups_received (full_lookup_telemetry st') = word_of_nat (length calls)
    \<and> lt_deferred (full_lookup_telemetry st')
        = word_of_nat (count_calls (\<lambda>key. asked db key container_count) calls)
    \<and> length (lt_classes (full_lookup_telemetry st')) = container_count
    \<and> (\<forall>k < container_count.
        cl_container_class (lt_classes (full_lookup_telemetry st') ! k) = word_of_nat k
        \<and> cl_active_maps_probed (lt_classes (full_lookup_telemetry st') ! k)
            = word_of_nat (count_calls (\<lambda>key. asked db key k) calls)
        \<and> cl_answered_from_active (lt_classes (full_lookup_telemetry st') ! k)
            = word_of_nat (count_calls (\<lambda>key. answers db key k) calls))"
  by (rule full_lookup_telemetry_counts[OF assms])

definition no_telemetry :: telemetry where
  "no_telemetry = \<lparr>tl_assignment = \<lparr>next_index = 0, assigned = []\<rparr>, tl_probe = [], tl_resolution = [], tl_lookup = []\<rparr>"

lemma layered_container:
  "i \<in> set (indices_of m) \<Longrightarrow> container (layered_store m a) i = layered_table m a i 1"
  using layered_generation(2)[of i m 1 a] by (simp add: container_def)

lemma layered_asked:
  "asked (layered_store Full_mode a) new_key k \<longleftrightarrow> k = 0" "asked (layered_store Full_mode a) other_key k"
  if "k \<le> container_count"
proof -
  have "tbl_find (container (layered_store Full_mode a) (full_indices ! j)) key
      = (if j = 0 \<and> key = new_key then Some a else None)" if "j < container_count" for j key
  proof -
    have "j = 0 \<or> j = 1 \<or> j = 2 \<or> j = 3 \<or> j = 4"
      using that by (simp add: container_count_def container_sizes_def) arith
    then have i: "full_indices ! j \<in> set (indices_of Full_mode)" "full_indices ! j = hd (indices_of Full_mode) \<longleftrightarrow> j = 0"
      by (auto simp: indices_of_def full_indices_def)
    show ?thesis
      using layered_container[OF i(1), of a] i(2)
      by (simp add: layered_table_def tbl_find_def tbl_add_def tbl_empty_def)
  qed
  then show "asked (layered_store Full_mode a) new_key k \<longleftrightarrow> k = 0" "asked (layered_store Full_mode a) other_key k"
    using that by (auto simp: asked_def)
qed

theorem lookup_telemetry_exact_witness:
  "\<exists>rs st'. lookups (layered_store Full_mode example_value) [(3, new_key, 9), (5, other_key, 9)]
      (reset_search_stats no_telemetry) = (rs, st')
    \<and> lt_lookups_received (full_lookup_telemetry st') = 2 \<and> lt_deferred (full_lookup_telemetry st') = 1
    \<and> cl_active_maps_probed (lt_classes (full_lookup_telemetry st') ! 0) = 2
    \<and> cl_active_maps_probed (lt_classes (full_lookup_telemetry st') ! 1) = 1"
proof -
  let ?db = "layered_store Full_mode example_value"
  let ?calls = "[(3, new_key, 9), (5, other_key, 9)] :: (nat \<times> raw_outpoint \<times> u32) list"
  obtain rs st' where run: "lookups ?db ?calls (reset_search_stats no_telemetry) = (rs, st')" by fastforce
  have "wf_assignment (tl_assignment no_telemetry)" by (simp add: wf_assignment_def no_telemetry_def)
  moreover have "length ?calls < 2 ^ 64" by simp
  moreover have "count_calls (\<lambda>key. asked ?db key container_count) ?calls = 1"
    "count_calls (\<lambda>key. asked ?db key 0) ?calls = 2" "count_calls (\<lambda>key. asked ?db key 1) ?calls = 1"
    by (simp_all add: count_calls_def layered_asked)
  moreover have "0 < container_count" "1 < container_count" by simp_all
  ultimately show ?thesis
    using lookup_telemetry_exact[OF run] run by simp
qed

end
