(* ===== verification/Resolve_Telemetry.thy ===== *)
theory Resolve_Telemetry
  imports Telemetry Resolving
begin

text \<open>
  What a resolution counts, \<open>full_resolve\<close> and \<open>reference_resolve\<close> of \<open>src/database_impl.cpp\<close> built
  with \<open>UTXOZ_STATISTICS_LEVEL\<close> lookup: a tally kept beside the walk, on the caller's stack, that is
  published to the sharded counters only when the resolution covered every version. Reference mode
  has one class and keeps it in the first slot.
\<close>

section \<open>The tally\<close>

record class_tally =
  ct_files_opened :: u64
  ct_cache_hits :: u64
  ct_generations_probed :: u64
  ct_resolved :: u64
  ct_probe_ordinal_total :: u64
  ct_version_distance_total :: u64
  ct_ordinal_buckets :: "u64 list"
  ct_distance_buckets :: "u64 list"

definition no_class_tally :: class_tally where
  "no_class_tally = \<lparr>ct_files_opened = 0, ct_cache_hits = 0, ct_generations_probed = 0, ct_resolved = 0,
     ct_probe_ordinal_total = 0, ct_version_distance_total = 0,
     ct_ordinal_buckets = replicate bucket_count 0, ct_distance_buckets = replicate bucket_count 0\<rparr>"

definition tally_answered :: "u64 \<Rightarrow> u64 \<Rightarrow> class_tally \<Rightarrow> class_tally" where
  "tally_answered probe_ordinal version_distance c =
    c\<lparr>ct_resolved := ct_resolved c + 1,
      ct_probe_ordinal_total := ct_probe_ordinal_total c + probe_ordinal,
      ct_version_distance_total := ct_version_distance_total c + version_distance,
      ct_ordinal_buckets := (ct_ordinal_buckets c)[bucket_of probe_ordinal
        := ct_ordinal_buckets c ! bucket_of probe_ordinal + 1],
      ct_distance_buckets := (ct_distance_buckets c)[bucket_of version_distance
        := ct_distance_buckets c ! bucket_of version_distance + 1]\<rparr>"

record resolve_tally =
  rt_cache_hits :: u64
  rt_cache_misses :: u64
  rt_resolved :: u64
  rt_version_distance_total :: u64
  rt_files_probed :: u64
  rt_per_class :: "class_tally list"

definition no_resolve_tally :: resolve_tally where
  "no_resolve_tally = \<lparr>rt_cache_hits = 0, rt_cache_misses = 0, rt_resolved = 0,
     rt_version_distance_total = 0, rt_files_probed = 0, rt_per_class = replicate container_count no_class_tally\<rparr>"

definition class_slot :: "u64 \<Rightarrow> nat" where
  "class_slot i = (if i = reference_sentinel_index then 0 else unat i)"

text \<open>A file that was opened, and the keys it answered, at their distance from the active version.\<close>

definition tally_file :: "bool \<Rightarrow> nat \<Rightarrow> u64 \<Rightarrow> resolve_tally \<Rightarrow> resolve_tally" where
  "tally_file cache_hit k pending t =
    (let mine = rt_per_class t ! k
     in t\<lparr>rt_cache_hits := rt_cache_hits t + (if cache_hit then 1 else 0),
          rt_cache_misses := rt_cache_misses t + (if cache_hit then 0 else 1),
          rt_files_probed := rt_files_probed t + 1,
          rt_per_class := (rt_per_class t)[k := mine\<lparr>ct_files_opened := ct_files_opened mine + 1,
            ct_cache_hits := ct_cache_hits mine + (if cache_hit then 1 else 0),
            ct_generations_probed := ct_generations_probed mine + pending\<rparr>]\<rparr>)"

definition tally_hit :: "nat \<Rightarrow> u64 \<Rightarrow> resolve_tally \<Rightarrow> resolve_tally" where
  "tally_hit k distance t =
    t\<lparr>rt_resolved := rt_resolved t + 1, rt_version_distance_total := rt_version_distance_total t + distance,
      rt_per_class := (rt_per_class t)[k := tally_answered (rt_files_probed t) distance (rt_per_class t ! k)]\<rparr>"

section \<open>The tallied walk\<close>

type_synonym 'v tallied = "(lookup_request, raw_outpoint \<times> 'v, 'v) walk \<times> resolve_tally"

definition tallied_visit :: "'v env \<Rightarrow> file_key \<Rightarrow> 'v tallied \<Rightarrow> 'v tallied" where
  "tallied_visit E f = (\<lambda>(w, t).
    (let (i, v) = f; db = wk_db w in
     case get_or_open E i v (db_file_cache db, db_disk db) of
       (None, c, d) \<Rightarrow> (w\<lparr>wk_db := db\<lparr>db_file_cache := c, db_disk := d\<rparr>, wk_complete := False\<rparr>, t)
     | (Some cache_hit, c, d) \<Rightarrow>
         (let w = w\<lparr>wk_db := db\<lparr>db_file_cache := c, db_disk := d\<rparr>\<rparr>;
              t = tally_file cache_hit (class_slot i) (word_of_nat (length (wk_pending w))) t;
              hits = filter (\<lambda>r. tbl_find (file_map (wk_db w) i v) (lr_key r) \<noteq> None) (wk_pending w)
          in (probe_file i v w,
              fold (\<lambda>_. tally_hit (class_slot i) (db_current_versions (wk_db w) i - v)) hits t))))"

definition tallied_step :: "'v env \<Rightarrow> file_key \<Rightarrow> 'v tallied \<Rightarrow> 'v tallied" where
  "tallied_step E f s = (if known_container (fst f) then tallied_visit E f s else s)"

fun tallied_files :: "'v env \<Rightarrow> file_key list \<Rightarrow> 'v tallied \<Rightarrow> 'v tallied" where
  "tallied_files E [] s = s"
| "tallied_files E (f # fs) s = (if wk_pending (fst s) = [] then s else tallied_files E fs (tallied_step E f s))"

definition tallied_walk :: "'v env \<Rightarrow> 'v tallied \<Rightarrow> 'v tallied" where
  "tallied_walk E s =
    (let seen = get_cached_files (db_file_cache (wk_db (fst s)));
         s = tallied_files E (cached_walk (wk_db (fst s))) s
     in tallied_files E (historical_walk seen (wk_db (fst s))) s)"

section \<open>Publication\<close>

definition publish_class :: "nat \<Rightarrow> resolve_tally \<Rightarrow> nat \<Rightarrow> telemetry \<Rightarrow> telemetry" where
  "publish_class thread t index st =
    (let mine = rt_per_class t ! index
     in if ct_files_opened mine = 0 \<and> ct_resolved mine = 0 then st
        else
         (let st = record_file_opened index thread (ct_files_opened mine) (ct_cache_hits mine) st;
              st = record_generations_probed index thread (ct_generations_probed mine) st
          in if ct_resolved mine > 0
             then record_resolved_batch index thread (ct_resolved mine) (ct_probe_ordinal_total mine)
               (ct_version_distance_total mine) (ct_ordinal_buckets mine) (ct_distance_buckets mine) st
             else st))"

definition publish_tally :: "nat \<Rightarrow> resolve_tally \<Rightarrow> telemetry \<Rightarrow> telemetry" where
  "publish_tally thread t st =
    (let st = (record_file_visited thread True ^^ unat (rt_cache_hits t)) st;
         st = (record_file_visited thread False ^^ unat (rt_cache_misses t)) st;
         st = (if rt_resolved t > 0
               then record_resolution_batch thread (rt_resolved t) (rt_version_distance_total t) st else st)
     in fold (publish_class thread t) [0 ..< container_count] st)"

definition resolve_recorded ::
  "nat \<Rightarrow> 'v env \<Rightarrow> ('v \<Rightarrow> 'a) \<Rightarrow> lookup_request list \<Rightarrow> 'v database \<Rightarrow> telemetry
   \<Rightarrow> ('a resolution result \<times> 'v database) \<times> telemetry" where
  "resolve_recorded thread E answer requests db st =
    (if requests = [] then ((Inr \<lparr>rs_found = [], rs_absent = []\<rparr>, db), st)
     else
      (case tallied_walk E (\<lparr>wk_pending = working_set_of lr_key requests, wk_done = [], wk_complete = True, wk_db = db\<rparr>,
              no_resolve_tally) of
         (w, t) \<Rightarrow>
           if \<not> wk_complete w then ((Inl Version_unreadable, wk_db w), st)
           else ((Inr \<lparr>rs_found = map (map_prod id answer) (wk_done w), rs_absent = wk_pending w\<rparr>, wk_db w),
                 record_absent thread (word_of_nat (length (wk_pending w))) (publish_tally thread t st))))"

section \<open>Recording changes no answer\<close>

lemma tallied_step_fst: "fst (tallied_step E f s) = resolve_step E f (fst s)"
  by (auto simp: tallied_step_def resolve_step_def tallied_visit_def visit_file_def Let_def
      split: prod.split option.split)

lemma tallied_files_fst: "fst (tallied_files E fs s) = walk_files (resolve_step E) fs (fst s)"
  by (induction fs arbitrary: s) (simp_all add: tallied_step_fst)

lemma tallied_walk_fst: "fst (tallied_walk E s) = walk_all (resolve_step E) (fst s)"
  by (simp add: tallied_walk_def walk_all_def Let_def tallied_files_fst)

lemma resolve_recorded_answer:
  "fst (resolve_recorded thread E answer requests db st) = resolve_with E answer requests db"
  using tallied_walk_fst[of E "(\<lparr>wk_pending = working_set_of lr_key requests, wk_done = [], wk_complete = True,
    wk_db = db\<rparr>, no_resolve_tally)"]
  by (auto simp: resolve_recorded_def resolve_with_def Let_def split: prod.split)

section \<open>What the tally adds up to\<close>

definition balanced_class :: "class_tally \<Rightarrow> bool" where
  "balanced_class c \<longleftrightarrow> length (ct_ordinal_buckets c) = bucket_count \<and> length (ct_distance_buckets c) = bucket_count
     \<and> sum_list (ct_ordinal_buckets c) = ct_resolved c \<and> sum_list (ct_distance_buckets c) = ct_resolved c"

definition balanced :: "nat \<Rightarrow> resolve_tally \<Rightarrow> bool" where
  "balanced n t \<longleftrightarrow> length (rt_per_class t) = container_count \<and> (\<forall>c \<in> set (rt_per_class t). balanced_class c)
     \<and> rt_resolved t = word_of_nat n
     \<and> sum_list (map ct_resolved (rt_per_class t)) = rt_resolved t
     \<and> rt_files_probed t = rt_cache_hits t + rt_cache_misses t
     \<and> sum_list (map ct_files_opened (rt_per_class t)) = rt_files_probed t
     \<and> sum_list (map ct_cache_hits (rt_per_class t)) = rt_cache_hits t"

lemma bucket_of_less: "bucket_of n < bucket_count"
proof -
  have "unat n \<le> 4" if "n \<le> 4" using that by (simp add: word_le_nat_alt)
  then show ?thesis by (auto simp: bucket_of_def bucket_count_def)
qed

lemma balanced_answered: "balanced_class c \<Longrightarrow> balanced_class (tally_answered ordinal distance c)"
  using bucket_of_less[of ordinal] bucket_of_less[of distance]
  by (simp add: balanced_class_def tally_answered_def sum_list_set)

lemma class_slot_less: "known_container i \<Longrightarrow> class_slot i < container_count"
  by (auto simp: known_container_def class_slot_def full_indices_def)

lemma sum_class_update:
  fixes g :: "class_tally \<Rightarrow> u64"
  assumes "k < length cs"
  shows "sum_list (map g (cs[k := c])) = sum_list (map g cs) - g (cs ! k) + g c"
  using assms by (simp add: map_update sum_list_set)

lemma balanced_no_tally: "balanced 0 no_resolve_tally"
  by (simp add: balanced_def no_resolve_tally_def balanced_class_def no_class_tally_def sum_list_replicate)

lemma balanced_update:
  assumes "\<forall>c \<in> set cs. balanced_class c" "balanced_class c"
  shows "\<forall>c \<in> set (cs[k := c]). balanced_class c"
  using assms set_update_subset_insert[of cs k c] by blast

lemma balanced_file:
  assumes "balanced n t" "k < container_count"
  shows "balanced n (tally_file hit k pending t)"
proof -
  let ?cs = "rt_per_class t"
  have k: "k < length ?cs" using assms by (simp add: balanced_def)
  then have c: "balanced_class (?cs ! k)" using assms(1) by (simp add: balanced_def)
  have all: "\<forall>c \<in> set ?cs. balanced_class c" using assms(1) by (simp add: balanced_def)
  have "\<forall>c \<in> set (rt_per_class (tally_file hit k pending t)). balanced_class c"
  proof -
    let ?c = "(?cs ! k)\<lparr>ct_files_opened := ct_files_opened (?cs ! k) + 1,
      ct_cache_hits := ct_cache_hits (?cs ! k) + (if hit then 1 else 0),
      ct_generations_probed := ct_generations_probed (?cs ! k) + pending\<rparr>"
    have "rt_per_class (tally_file hit k pending t) = ?cs[k := ?c]" by (simp add: tally_file_def Let_def)
    moreover have "balanced_class ?c" using c by (simp add: balanced_class_def)
    ultimately show ?thesis using balanced_update[OF all] by (simp only:)
  qed
  moreover have "length (rt_per_class (tally_file hit k pending t)) = container_count"
    "rt_resolved (tally_file hit k pending t) = word_of_nat n"
    "rt_files_probed (tally_file hit k pending t)
      = rt_cache_hits (tally_file hit k pending t) + rt_cache_misses (tally_file hit k pending t)"
    using assms(1) by (simp_all add: balanced_def tally_file_def Let_def)
  moreover have "sum_list (map ct_resolved (rt_per_class (tally_file hit k pending t))) = rt_resolved t"
    "sum_list (map ct_files_opened (rt_per_class (tally_file hit k pending t))) = rt_files_probed t + 1"
    "sum_list (map ct_cache_hits (rt_per_class (tally_file hit k pending t))) = rt_cache_hits t + (if hit then 1 else 0)"
    using assms(1) k by (simp_all add: balanced_def tally_file_def Let_def sum_class_update)
  ultimately show ?thesis
    by (simp add: balanced_def) (simp add: tally_file_def Let_def)
qed

lemma balanced_hit:
  assumes "balanced n t" "k < container_count"
  shows "balanced (Suc n) (tally_hit k distance t)"
proof -
  let ?cs = "rt_per_class t"
  have k: "k < length ?cs" using assms by (simp add: balanced_def)
  then have c: "balanced_class (?cs ! k)" using assms(1) by (simp add: balanced_def)
  have all: "\<forall>c \<in> set ?cs. balanced_class c" using assms(1) by (simp add: balanced_def)
  let ?t = "tally_hit k distance t"
  have "\<forall>c \<in> set (rt_per_class ?t). balanced_class c"
  proof -
    let ?c = "tally_answered (rt_files_probed t) distance (?cs ! k)"
    have "rt_per_class ?t = ?cs[k := ?c]" by (simp add: tally_hit_def)
    then show ?thesis using balanced_update[OF all balanced_answered[OF c]] by (simp only:)
  qed
  moreover have "length (rt_per_class ?t) = container_count" "rt_resolved ?t = word_of_nat (Suc n)"
    "rt_files_probed ?t = rt_cache_hits ?t + rt_cache_misses ?t"
    using assms(1) by (simp_all add: balanced_def tally_hit_def)
  moreover have "sum_list (map ct_resolved (rt_per_class ?t)) = rt_resolved t + 1"
    "sum_list (map ct_files_opened (rt_per_class ?t)) = rt_files_probed t"
    "sum_list (map ct_cache_hits (rt_per_class ?t)) = rt_cache_hits t"
    using assms(1) k by (simp_all add: balanced_def tally_hit_def sum_class_update tally_answered_def)
  ultimately show ?thesis
    by (simp add: balanced_def) (simp add: tally_hit_def)
qed

lemma balanced_hits:
  "balanced n t \<Longrightarrow> k < container_count \<Longrightarrow> balanced (n + length hits) (fold (\<lambda>_. tally_hit k distance) hits t)"
proof (induction hits arbitrary: n t)
  case (Cons h hits)
  from Cons.IH[OF balanced_hit[OF Cons.prems] Cons.prems(2)] show ?case by simp
qed simp

text \<open>Between the files: every key is pending or answered, and the tally counts the answered ones.\<close>

definition tallies :: "nat \<Rightarrow> 'v tallied \<Rightarrow> bool" where
  "tallies n s \<longleftrightarrow> balanced (length (wk_done (fst s))) (snd s)
     \<and> length (wk_done (fst s)) + length (wk_pending (fst s)) = n"

lemma tallies_step:
  assumes "tallies n s"
  shows "tallies n (tallied_step E f s)"
proof (cases "known_container (fst f)")
  case True
  obtain w t where s: "s = (w, t)" by (cases s)
  obtain i v where f: "f = (i, v)" by (cases f)
  obtain o1 c d where g: "get_or_open E i v (db_file_cache (wk_db w), db_disk (wk_db w)) = (o1, c, d)"
    by (rule prod_cases3)
  show ?thesis
  proof (cases o1)
    case None
    then show ?thesis using assms True g by (simp add: s f tallied_step_def tallied_visit_def tallies_def)
  next
    case (Some hit)
    let ?w = "w\<lparr>wk_db := (wk_db w)\<lparr>db_file_cache := c, db_disk := d\<rparr>\<rparr>" and ?k = "class_slot i"
    let ?hit = "\<lambda>r. tbl_find (file_map (wk_db ?w) i v) (lr_key r) \<noteq> None"
    let ?t = "tally_file hit ?k (word_of_nat (length (wk_pending w))) t"
    have k: "?k < container_count" using class_slot_less True f by simp
    have "balanced (length (wk_done w)) ?t" using assms k by (simp add: s tallies_def balanced_file)
    note b = balanced_hits[OF this k, of "filter ?hit (wk_pending w)" "db_current_versions (wk_db ?w) i - v"]
    have "length (filter ?hit (wk_pending w)) + length (filter (\<lambda>r. \<not> ?hit r) (wk_pending w)) = length (wk_pending w)"
      by (rule sum_length_filter_compl)
    then show ?thesis
      using assms True g Some b
      by (simp add: s f tallied_step_def tallied_visit_def tallies_def Let_def probe_file_def)
  qed
qed (use assms in \<open>simp add: tallied_step_def\<close>)

lemma tallies_files: "tallies n s \<Longrightarrow> tallies n (tallied_files E fs s)"
  by (induction fs arbitrary: s) (simp_all add: tallies_step)

lemma tallies_walk: "tallies n s \<Longrightarrow> tallies n (tallied_walk E s)"
  by (simp add: tallied_walk_def Let_def tallies_files)

section \<open>What publication adds\<close>

text \<open>The change of a telemetry in its lookup counters: by an amount for each class and field.\<close>

definition adds :: "(nat \<Rightarrow> nat \<Rightarrow> u64) \<Rightarrow> telemetry \<Rightarrow> telemetry \<Rightarrow> bool" where
  "adds amount st st' \<longleftrightarrow> wf_telemetry st' \<and> tl_probe st' = tl_probe st \<and> tl_resolution st' = tl_resolution st
     \<and> (\<forall>j < container_count. \<forall>g. lookup_total st' j g = lookup_total st j g + amount j g)"

lemma adds_trans: "adds a st st1 \<Longrightarrow> adds b st1 st2 \<Longrightarrow> adds (\<lambda>j g. a j g + b j g) st st2"
  by (simp add: adds_def ac_simps)

lemma adds_refl: "wf_telemetry st \<Longrightarrow> adds (\<lambda>_ _. 0) st st"
  by (simp add: adds_def)

lemma adds_cong: "adds a st st' \<Longrightarrow> (\<And>j g. j < container_count \<Longrightarrow> a j g = b j g) \<Longrightarrow> adds b st st'"
  by (simp add: adds_def)

lemma lookup_add_adds:
  assumes "wf_telemetry st" "f < wide_fields" "k < container_count"
  shows "adds (\<lambda>j g. if j = k \<and> g = f then a else 0) st (lookup_add k t f a st)"
  using lookup_add_total[OF assms, where t = t and a = a] by (simp add: adds_def)

lemma cond_add_adds:
  assumes "wf_telemetry st" "f < wide_fields" "k < container_count"
  shows "adds (\<lambda>j g. if j = k \<and> g = f then a else 0) st (if a \<noteq> 0 then lookup_add k t f a st else st)"
  using lookup_add_adds[OF assms, where t = t and a = a] adds_refl[OF assms(1)] by (auto elim: adds_cong)

definition bucket_amount :: "nat \<Rightarrow> u64 list \<Rightarrow> u64 list \<Rightarrow> nat list \<Rightarrow> nat \<Rightarrow> nat \<Rightarrow> u64" where
  "bucket_amount k ordinals distances bs j g = (if j \<noteq> k then 0 else
     sum_list (map (\<lambda>b. (if g = l_ordinal_bucket + b then ordinals ! b else 0)
       + (if g = l_distance_bucket + b then distances ! b else 0)) bs))"

lemma buckets_add:
  assumes "wf_telemetry st" "k < container_count" "\<forall>b \<in> set bs. b < bucket_count"
  shows "adds (bucket_amount k ordinals distances bs) st
    (fold (\<lambda>b st.
        let st = if ordinals ! b \<noteq> 0 then lookup_add k t (l_ordinal_bucket + b) (ordinals ! b) st else st
        in if distances ! b \<noteq> 0 then lookup_add k t (l_distance_bucket + b) (distances ! b) st else st) bs st)"
  using assms
proof (induction bs arbitrary: st)
  case Nil
  then show ?case by (simp add: bucket_amount_def adds_def)
next
  case (Cons b bs)
  let ?st1 = "if ordinals ! b \<noteq> 0 then lookup_add k t (l_ordinal_bucket + b) (ordinals ! b) st else st"
  let ?st2 = "if distances ! b \<noteq> 0 then lookup_add k t (l_distance_bucket + b) (distances ! b) ?st1 else ?st1"
  have "b < 6" using Cons.prems(3) by (simp add: bucket_count_def)
  then have f: "l_ordinal_bucket + b < wide_fields" "l_distance_bucket + b < wide_fields"
    by (simp_all add: l_ordinal_bucket_def l_distance_bucket_def wide_fields_def)
  have one: "adds (\<lambda>j g. if j = k \<and> g = l_ordinal_bucket + b then ordinals ! b else 0) st ?st1"
    by (rule cond_add_adds[OF Cons.prems(1) f(1) Cons.prems(2)])
  then have wf1: "wf_telemetry ?st1" unfolding adds_def by blast
  have two: "adds (\<lambda>j g. if j = k \<and> g = l_distance_bucket + b then distances ! b else 0) ?st1 ?st2"
    by (rule cond_add_adds[OF wf1 f(2) Cons.prems(2)])
  then have wf2: "wf_telemetry ?st2" unfolding adds_def by blast
  have rest: "\<forall>b \<in> set bs. b < bucket_count" using Cons.prems(3) by simp
  note sum = adds_trans[OF adds_trans[OF one two] Cons.IH[OF wf2 Cons.prems(2) rest]]
  show ?case
    unfolding fold_simps(2) Let_def
    by (rule adds_cong[OF sum[unfolded Let_def]]) (simp add: bucket_amount_def)
qed

definition batch_amount :: "nat \<Rightarrow> u64 \<Rightarrow> u64 \<Rightarrow> u64 \<Rightarrow> u64 list \<Rightarrow> u64 list \<Rightarrow> nat \<Rightarrow> nat \<Rightarrow> u64" where
  "batch_amount k n ordinal_total distance_total ordinals distances j g =
     (if j = k \<and> g = l_resolved_historical then n else 0)
     + (if j = k \<and> g = l_probe_ordinal_total then ordinal_total else 0)
     + (if j = k \<and> g = l_version_distance_total then distance_total else 0)
     + bucket_amount k ordinals distances [0 ..< bucket_count] j g"

lemma resolved_batch_adds:
  assumes "wf_telemetry st" "k < container_count"
  shows "adds (batch_amount k n ot dt os ds) st (record_resolved_batch k t n ot dt os ds st)"
proof -
  let ?st1 = "lookup_add k t l_resolved_historical n st"
  let ?st2 = "lookup_add k t l_probe_ordinal_total ot ?st1"
  let ?st3 = "lookup_add k t l_version_distance_total dt ?st2"
  have f: "l_resolved_historical < wide_fields" "l_probe_ordinal_total < wide_fields" "l_version_distance_total < wide_fields"
    by (simp_all add: field_numbers)
  note one = lookup_add_adds[OF assms(1) f(1) assms(2), of n t]
  then have w1: "wf_telemetry ?st1" by (simp add: adds_def)
  note two = lookup_add_adds[OF w1 f(2) assms(2), of ot t]
  then have w2: "wf_telemetry ?st2" by (simp add: adds_def)
  note three = lookup_add_adds[OF w2 f(3) assms(2), of dt t]
  then have w3: "wf_telemetry ?st3" by (simp add: adds_def)
  have "\<forall>b \<in> set [0 ..< bucket_count]. b < bucket_count" by simp
  note four = buckets_add[OF w3 assms(2) this, of os ds t]
  show ?thesis
    unfolding record_resolved_batch_def
    by (rule adds_cong[OF adds_trans[OF adds_trans[OF adds_trans[OF one two] three] four]])
      (simp add: batch_amount_def)
qed

definition class_amount :: "resolve_tally \<Rightarrow> nat \<Rightarrow> nat \<Rightarrow> nat \<Rightarrow> u64" where
  "class_amount t k j g =
    (let mine = rt_per_class t ! k
     in if ct_files_opened mine = 0 \<and> ct_resolved mine = 0 then 0
        else (if j = k \<and> g = l_files_opened then ct_files_opened mine else 0)
          + (if j = k \<and> g = l_cache_hits then ct_cache_hits mine else 0)
          + (if j = k \<and> g = l_generations_probed then ct_generations_probed mine else 0)
          + (if ct_resolved mine > 0
             then batch_amount k (ct_resolved mine) (ct_probe_ordinal_total mine) (ct_version_distance_total mine)
               (ct_ordinal_buckets mine) (ct_distance_buckets mine) j g else 0))"

lemma publish_class_adds:
  assumes wf: "wf_telemetry st" and k: "k < container_count"
  shows "adds (class_amount t k) st (publish_class thread t k st)"
proof (cases "ct_files_opened (rt_per_class t ! k) = 0 \<and> ct_resolved (rt_per_class t ! k) = 0")
  case True
  then have "publish_class thread t k st = st" "class_amount t k = (\<lambda>_ _. 0)"
    by (simp_all add: publish_class_def class_amount_def Let_def fun_eq_iff)
  then show ?thesis using adds_refl[OF wf] by simp
next
  case False
  let ?c = "rt_per_class t ! k"
  let ?st1 = "lookup_add k thread l_files_opened (ct_files_opened ?c) st"
  let ?st2 = "lookup_add k thread l_cache_hits (ct_cache_hits ?c) ?st1"
  let ?st3 = "lookup_add k thread l_generations_probed (ct_generations_probed ?c) ?st2"
  let ?batch = "batch_amount k (ct_resolved ?c) (ct_probe_ordinal_total ?c) (ct_version_distance_total ?c)
    (ct_ordinal_buckets ?c) (ct_distance_buckets ?c)"
  let ?st4 = "if ct_resolved ?c > 0 then record_resolved_batch k thread (ct_resolved ?c) (ct_probe_ordinal_total ?c)
    (ct_version_distance_total ?c) (ct_ordinal_buckets ?c) (ct_distance_buckets ?c) ?st3 else ?st3"
  have f: "l_files_opened < wide_fields" "l_cache_hits < wide_fields" "l_generations_probed < wide_fields"
    by (simp_all add: field_numbers)
  note one = lookup_add_adds[OF wf f(1) k, of "ct_files_opened ?c" thread]
  then have w1: "wf_telemetry ?st1" by (simp add: adds_def)
  note two = lookup_add_adds[OF w1 f(2) k, of "ct_cache_hits ?c" thread]
  then have w2: "wf_telemetry ?st2" by (simp add: adds_def)
  note three = lookup_add_adds[OF w2 f(3) k, of "ct_generations_probed ?c" thread]
  then have w3: "wf_telemetry ?st3" by (simp add: adds_def)
  have four: "adds (\<lambda>j g. if ct_resolved ?c > 0 then ?batch j g else 0) ?st3 ?st4"
    using resolved_batch_adds[OF w3 k] adds_refl[OF w3] by simp
  have eq: "publish_class thread t k st = ?st4"
    unfolding publish_class_def Let_def if_not_P[OF False] record_file_opened_def record_generations_probed_def
    by (rule refl)
  show ?thesis
    unfolding eq
    by (rule adds_cong[OF adds_trans[OF adds_trans[OF adds_trans[OF one two] three] four]])
      (simp only: class_amount_def Let_def if_not_P[OF False])
qed

lemma class_amount_other: "j \<noteq> k \<Longrightarrow> class_amount t k j g = 0"
  by (simp add: class_amount_def Let_def batch_amount_def bucket_amount_def)

lemma publish_classes_adds:
  assumes "wf_telemetry st" "\<forall>k \<in> set ks. k < container_count" "distinct ks"
  shows "adds (\<lambda>j g. if j \<in> set ks then class_amount t j j g else 0) st (fold (publish_class thread t) ks st)"
  using assms
proof (induction ks arbitrary: st)
  case Nil
  then show ?case by (simp add: adds_refl)
next
  case (Cons k ks)
  have k: "k < container_count" using Cons.prems(2) by simp
  note one = publish_class_adds[OF Cons.prems(1) k, of t thread]
  then have "wf_telemetry (publish_class thread t k st)" by (simp add: adds_def)
  from Cons.IH[OF this] Cons.prems(2,3)
  have rest: "adds (\<lambda>j g. if j \<in> set ks then class_amount t j j g else 0) (publish_class thread t k st)
      (fold (publish_class thread t) ks (publish_class thread t k st))" by simp
  show ?case
    unfolding fold_simps(2)
    by (rule adds_cong[OF adds_trans[OF one rest]]) (use Cons.prems(3) in \<open>auto intro: class_amount_other\<close>)
qed

text \<open>The fields the property speaks of.\<close>

lemma class_amount_fields:
  "class_amount t k k l_resolved_historical = ct_resolved (rt_per_class t ! k)"
  "class_amount t k k l_files_opened = ct_files_opened (rt_per_class t ! k)"
  by (auto simp: class_amount_def Let_def batch_amount_def bucket_amount_def field_numbers word_gt_0 upt_conv_Cons)

lemma class_amount_histograms:
  assumes "balanced_class (rt_per_class t ! k)"
  shows "sum_list (map (\<lambda>b. class_amount t k k (l_ordinal_bucket + b)) [0 ..< bucket_count]) = ct_resolved (rt_per_class t ! k)"
    and "sum_list (map (\<lambda>b. class_amount t k k (l_distance_bucket + b)) [0 ..< bucket_count]) = ct_resolved (rt_per_class t ! k)"
proof -
  let ?c = "rt_per_class t ! k"
  let ?os = "ct_ordinal_buckets ?c" and ?ds = "ct_distance_buckets ?c"
  have sums: "sum_list (map ((!) ?os) [0 ..< bucket_count]) = ct_resolved ?c"
    "sum_list (map ((!) ?ds) [0 ..< bucket_count]) = ct_resolved ?c"
    using assms map_nth[of ?os] map_nth[of ?ds] by (simp_all add: balanced_class_def)
  have "class_amount t k k (l_ordinal_bucket + b) = (if ct_resolved ?c > 0 then ?os ! b else 0)"
    "class_amount t k k (l_distance_bucket + b) = (if ct_resolved ?c > 0 then ?ds ! b else 0)"
    if "b < bucket_count" for b
  proof -
    have "b = 0 \<or> b = 1 \<or> b = 2 \<or> b = 3 \<or> b = 4 \<or> b = 5" using that by (simp add: bucket_count_def) arith
    then show "class_amount t k k (l_ordinal_bucket + b) = (if ct_resolved ?c > 0 then ?os ! b else 0)"
      "class_amount t k k (l_distance_bucket + b) = (if ct_resolved ?c > 0 then ?ds ! b else 0)"
      by (auto simp: class_amount_def Let_def batch_amount_def bucket_amount_def field_numbers upt_conv_Cons)
  qed
  then have "map (\<lambda>b. class_amount t k k (l_ordinal_bucket + b)) [0 ..< bucket_count]
      = (if ct_resolved ?c > 0 then map ((!) ?os) [0 ..< bucket_count] else replicate bucket_count 0)"
    "map (\<lambda>b. class_amount t k k (l_distance_bucket + b)) [0 ..< bucket_count]
      = (if ct_resolved ?c > 0 then map ((!) ?ds) [0 ..< bucket_count] else replicate bucket_count 0)"
    by (auto intro!: nth_equalityI)
  then show "sum_list (map (\<lambda>b. class_amount t k k (l_ordinal_bucket + b)) [0 ..< bucket_count]) = ct_resolved ?c"
    "sum_list (map (\<lambda>b. class_amount t k k (l_distance_bucket + b)) [0 ..< bucket_count]) = ct_resolved ?c"
    using sums by (simp_all add: word_gt_0 sum_list_replicate)
qed

text \<open>The same for the counters of the resolution as a whole.\<close>

definition raises_by :: "(nat \<Rightarrow> u64) \<Rightarrow> telemetry \<Rightarrow> telemetry \<Rightarrow> bool" where
  "raises_by amount st st' \<longleftrightarrow> wf_telemetry st' \<and> tl_probe st' = tl_probe st \<and> tl_lookup st' = tl_lookup st
     \<and> (\<forall>g. resolution_total st' g = resolution_total st g + amount g)"

lemma raises_trans: "raises_by a st st1 \<Longrightarrow> raises_by b st1 st2 \<Longrightarrow> raises_by (\<lambda>g. a g + b g) st st2"
  by (simp add: raises_by_def ac_simps)

lemma raises_refl: "wf_telemetry st \<Longrightarrow> raises_by (\<lambda>_. 0) st st"
  by (simp add: raises_by_def)

lemma raises_cong: "raises_by a st st' \<Longrightarrow> (\<And>g. a g = b g) \<Longrightarrow> raises_by b st st'"
  by (simp add: raises_by_def)

lemma resolution_add_raises:
  assumes "wf_telemetry st" "f < narrow_fields"
  shows "raises_by (\<lambda>g. if g = f then a else 0) st (resolution_add t f a st)"
  using resolution_add_total[OF assms, where t = t and a = a] by (simp add: raises_by_def)

lemma record_file_visited_raises:
  assumes "wf_telemetry st"
  shows "raises_by (\<lambda>g. (if g = r_files then 1 else 0) + (if hit \<and> g = r_cache_hits then 1 else 0)) st
    (record_file_visited t hit st)"
proof -
  have f: "r_files < narrow_fields" "r_cache_hits < narrow_fields" by (simp_all add: field_numbers)
  note one = resolution_add_raises[OF assms f(1), of 1 t]
  then have wf1: "wf_telemetry (resolution_add t r_files 1 st)" by (simp add: raises_by_def)
  show ?thesis
    using raises_trans[OF one resolution_add_raises[OF wf1 f(2), of 1 t]] one
    by (auto simp: record_file_visited_def Let_def elim!: raises_cong)
qed

lemma visited_files_raise:
  "wf_telemetry st \<Longrightarrow> raises_by (\<lambda>g. (if g = r_files then word_of_nat n else 0)
     + (if hit \<and> g = r_cache_hits then word_of_nat n else 0)) st ((record_file_visited t hit ^^ n) st)"
proof (induction n)
  case (Suc n)
  let ?st1 = "(record_file_visited t hit ^^ n) st"
  note one = Suc.IH[OF Suc.prems]
  then have "wf_telemetry ?st1" by (simp add: raises_by_def)
  from raises_trans[OF one record_file_visited_raises[OF this, of hit t]] show ?case
    by (auto elim!: raises_cong)
qed (simp add: raises_by_def)

definition resolution_amount :: "resolve_tally \<Rightarrow> nat \<Rightarrow> u64" where
  "resolution_amount t g = (if g = r_files then rt_cache_hits t + rt_cache_misses t else 0)
     + (if g = r_cache_hits then rt_cache_hits t else 0) + (if g = r_resolved then rt_resolved t else 0)
     + (if g = r_depth_total \<and> rt_resolved t > 0 then rt_version_distance_total t else 0)"

lemma publish_tally_totals:
  assumes wf: "wf_telemetry st"
  shows "\<exists>st1. raises_by (resolution_amount t) st st1 \<and> adds (\<lambda>j. class_amount t j j) st1 (publish_tally thread t st)"
proof -
  let ?st1 = "(record_file_visited thread True ^^ unat (rt_cache_hits t)) st"
  let ?st2 = "(record_file_visited thread False ^^ unat (rt_cache_misses t)) ?st1"
  let ?st3 = "resolution_add thread r_resolved (rt_resolved t) ?st2"
  let ?st4 = "resolution_add thread r_depth_total (rt_version_distance_total t) ?st3"
  let ?st5 = "if rt_resolved t > 0 then ?st4 else ?st2"
  have f: "r_resolved < narrow_fields" "r_depth_total < narrow_fields" by (simp_all add: field_numbers)
  note one = visited_files_raise[OF wf, of "unat (rt_cache_hits t)" True thread]
  then have w1: "wf_telemetry ?st1" by (simp add: raises_by_def)
  note two = visited_files_raise[OF w1, of "unat (rt_cache_misses t)" False thread]
  then have w2: "wf_telemetry ?st2" by (simp add: raises_by_def)
  note three = resolution_add_raises[OF w2 f(1), of "rt_resolved t" thread]
  then have w3: "wf_telemetry ?st3" by (simp add: raises_by_def)
  note four = resolution_add_raises[OF w3 f(2), of "rt_version_distance_total t" thread]
  have five: "raises_by (resolution_amount t) st ?st5"
  proof (cases "rt_resolved t > 0")
    case True
    show ?thesis
      using raises_trans[OF raises_trans[OF raises_trans[OF one two] three] four] True
      by (auto elim!: raises_cong simp: resolution_amount_def field_numbers)
  next
    case False
    show ?thesis
      using raises_trans[OF one two] False
      by (auto elim!: raises_cong simp: resolution_amount_def field_numbers word_gt_0)
  qed
  then have w5: "wf_telemetry ?st5" by (simp only: raises_by_def)
  have "adds (\<lambda>j g. if j \<in> set [0 ..< container_count] then class_amount t j j g else 0) ?st5
      (fold (publish_class thread t) [0 ..< container_count] ?st5)"
    by (rule publish_classes_adds[OF w5]) simp_all
  then have "adds (\<lambda>j. class_amount t j j) ?st5 (fold (publish_class thread t) [0 ..< container_count] ?st5)"
    by (rule adds_cong) simp
  then show ?thesis
    using five unfolding publish_tally_def Let_def record_resolution_batch_def by blast
qed

section \<open>Property\<close>

definition histogram_total :: "telemetry \<Rightarrow> nat \<Rightarrow> nat \<Rightarrow> u64" where
  "histogram_total st k base = sum_list (map (\<lambda>b. lookup_total st k (base + b)) [0 ..< bucket_count])"

definition classes_total :: "telemetry \<Rightarrow> nat \<Rightarrow> u64" where
  "classes_total st g = sum_list (map (\<lambda>k. lookup_total st k g) [0 ..< container_count])"

lemma sum_list_plus:
  "sum_list (map (\<lambda>x. f x + g x) xs) = sum_list (map f xs) + (sum_list (map g xs) :: u64)"
  by (induction xs) (simp_all add: ac_simps)

lemma adds_histogram:
  assumes "adds a st st'" "k < container_count"
  shows "histogram_total st' k base = histogram_total st k base + sum_list (map (\<lambda>b. a k (base + b)) [0 ..< bucket_count])"
  using assms by (simp add: histogram_total_def adds_def flip: sum_list_plus)

lemma adds_classes:
  assumes "adds a st st'"
  shows "classes_total st' g = classes_total st g + sum_list (map (\<lambda>k. a k g) [0 ..< container_count])"
proof -
  have "map (\<lambda>k. lookup_total st' k g) [0 ..< container_count]
      = map (\<lambda>k. lookup_total st k g + a k g) [0 ..< container_count]"
    using assms by (simp add: adds_def del: upt_Suc)
  then show ?thesis by (simp only: classes_total_def flip: sum_list_plus)
qed

lemma sum_over_classes:
  "length cs = container_count \<Longrightarrow> sum_list (map (\<lambda>k. f (cs ! k)) [0 ..< container_count]) = sum_list (map f cs)"
  by (rule arg_cong[where f = sum_list]) (simp add: list_eq_iff_nth_eq del: upt_Suc)

lemma published:
  assumes b: "balanced n t" and wf: "wf_telemetry st" and st': "st' = record_absent thread m (publish_tally thread t st)"
  shows "wf_telemetry st'" "tl_probe st' = tl_probe st"
    and "resolution_total st' r_resolved = resolution_total st r_resolved + word_of_nat n"
    and "resolution_total st' r_absent = resolution_total st r_absent + m"
    and "classes_total st' l_resolved_historical = classes_total st l_resolved_historical + word_of_nat n"
    and "classes_total st' l_files_opened - classes_total st l_files_opened
      = resolution_total st' r_files - resolution_total st r_files"
    and "k < container_count \<Longrightarrow> histogram_total st' k l_ordinal_bucket - histogram_total st k l_ordinal_bucket
      = lookup_total st' k l_resolved_historical - lookup_total st k l_resolved_historical"
    and "k < container_count \<Longrightarrow> histogram_total st' k l_distance_bucket - histogram_total st k l_distance_bucket
      = lookup_total st' k l_resolved_historical - lookup_total st k l_resolved_historical"
proof -
  obtain st1 where r: "raises_by (resolution_amount t) st st1"
    and a: "adds (\<lambda>j. class_amount t j j) st1 (publish_tally thread t st)"
    using publish_tally_totals[OF wf] by blast
  let ?p = "publish_tally thread t st"
  have "raises_by (\<lambda>g. if g = r_absent then m else 0) ?p st'"
    using resolution_add_raises[of ?p r_absent m thread] a
    by (auto simp: st' record_absent_def field_numbers adds_def raises_by_def)
  then have abs: "wf_telemetry st'" "tl_probe st' = tl_probe ?p" "tl_lookup st' = tl_lookup ?p"
    "resolution_total st' g = resolution_total ?p g + (if g = r_absent then m else 0)" for g
    by (simp_all add: raises_by_def)
  have res: "resolution_total st' g = resolution_total st g + resolution_amount t g + (if g = r_absent then m else 0)" for g
    using r a abs(4) by (simp add: raises_by_def adds_def)
  have same: "tl_lookup st1 = tl_lookup st" using r by (simp add: raises_by_def)
  have t1: "histogram_total st' k base = histogram_total ?p k base" "classes_total st' g = classes_total ?p g"
    "histogram_total st1 k base = histogram_total st k base" "classes_total st1 g = classes_total st g" for k base g
    by (simp_all add: histogram_total_def classes_total_def abs(3) same)
  have len: "length (rt_per_class t) = container_count" using b by (simp add: balanced_def)
  show "wf_telemetry st'" by (rule abs(1))
  show "tl_probe st' = tl_probe st" using r a abs(2) by (simp add: raises_by_def adds_def)
  show "resolution_total st' r_resolved = resolution_total st r_resolved + word_of_nat n"
    using res[of r_resolved] b by (simp add: resolution_amount_def field_numbers balanced_def)
  show "resolution_total st' r_absent = resolution_total st r_absent + m"
    using res[of r_absent] by (simp add: resolution_amount_def field_numbers)
  show "classes_total st' l_resolved_historical = classes_total st l_resolved_historical + word_of_nat n"
    using adds_classes[OF a, of l_resolved_historical] sum_over_classes[OF len, of ct_resolved] b
    by (simp add: t1 class_amount_fields balanced_def del: upt_Suc)
  show "classes_total st' l_files_opened - classes_total st l_files_opened
      = resolution_total st' r_files - resolution_total st r_files"
    using adds_classes[OF a, of l_files_opened, unfolded class_amount_fields] sum_over_classes[OF len, of ct_files_opened]
      b res[of r_files]
    by (simp add: t1 balanced_def resolution_amount_def field_numbers del: upt_Suc)
  assume k: "k < container_count"
  then have c: "balanced_class (rt_per_class t ! k)" using b by (simp add: balanced_def)
  have l: "lookup_total st' k l_resolved_historical = lookup_total st k l_resolved_historical + ct_resolved (rt_per_class t ! k)"
    using a k by (simp add: adds_def abs(3) same class_amount_fields)
  show "histogram_total st' k l_ordinal_bucket - histogram_total st k l_ordinal_bucket
      = lookup_total st' k l_resolved_historical - lookup_total st k l_resolved_historical"
    using adds_histogram[OF a k, of l_ordinal_bucket] class_amount_histograms(1)[OF c] l by (simp add: t1)
  show "histogram_total st' k l_distance_bucket - histogram_total st k l_distance_bucket
      = lookup_total st' k l_resolved_historical - lookup_total st k l_resolved_historical"
    using adds_histogram[OF a k, of l_distance_bucket] class_amount_histograms(2)[OF c] l by (simp add: t1)
qed

lemma resolve_recorded_exact:
  assumes run: "resolve_recorded thread E answer requests db st = ((r, db'), st')" and wf: "wf_telemetry st"
  shows "(r, db') = resolve_with E answer requests db"
    and "r = Inl e \<Longrightarrow> st' = st"
    and "r = Inr res \<Longrightarrow> \<exists>n t. balanced n t \<and> n = length (rs_found res)
      \<and> n + length (rs_absent res) = length (working_set_of lr_key requests)
      \<and> st' = record_absent thread (word_of_nat (length (rs_absent res))) (publish_tally thread t st)"
proof -
  show "(r, db') = resolve_with E answer requests db"
    using resolve_recorded_answer[of thread E answer requests db st] run by simp
  show "st' = st" if "r = Inl e"
    using run that by (auto simp: resolve_recorded_def split: if_splits prod.splits)
  assume r: "r = Inr res"
  show "\<exists>n t. balanced n t \<and> n = length (rs_found res)
      \<and> n + length (rs_absent res) = length (working_set_of lr_key requests)
      \<and> st' = record_absent thread (word_of_nat (length (rs_absent res))) (publish_tally thread t st)"
  proof (cases "requests = []")
    case True
    have "publish_tally thread no_resolve_tally st = st"
      by (simp add: publish_tally_def publish_class_def no_resolve_tally_def no_class_tally_def upt_conv_Cons)
    then show ?thesis
      using run r True balanced_no_tally
      by (auto simp: resolve_recorded_def working_set_of_def record_absent_def intro!: exI[of _ no_resolve_tally])
  next
    case False
    let ?w0 = "\<lparr>wk_pending = working_set_of lr_key requests, wk_done = [], wk_complete = True, wk_db = db\<rparr>"
    obtain w t where w: "tallied_walk E (?w0, no_resolve_tally) = (w, t)" by fastforce
    have "tallies (length (working_set_of lr_key requests)) (?w0, no_resolve_tally)"
      by (simp add: tallies_def balanced_no_tally)
    from tallies_walk[OF this, of E] have "balanced (length (wk_done w)) t"
      "length (wk_done w) + length (wk_pending w) = length (working_set_of lr_key requests)"
      by (simp_all add: w tallies_def)
    then show ?thesis using run r False w by (auto simp: resolve_recorded_def split: if_splits)
  qed
qed

text \<open>
  C26: the telemetry of a resolution is exact: recording changes no answer; a resolution that could
  not read a version leaves every counter as it was, so that a retry is not counted twice; one that
  completes adds the keys it answered and those it proved absent, which are together the distinct
  keys asked for, and the totals of the classes, of both their histograms and of the files they
  opened agree with those of the whole.
\<close>

theorem resolution_telemetry_exact:
  assumes run: "resolve_recorded thread E answer requests db st = ((r, db'), st')" and wf: "wf_telemetry st"
  shows "(r, db') = resolve_with E answer requests db
    \<and> (case r of
         Inl _ \<Rightarrow> st' = st
       | Inr res \<Rightarrow>
           length (rs_found res) + length (rs_absent res) = length (working_set_of lr_key requests)
         \<and> resolution_total st' r_resolved = resolution_total st r_resolved + word_of_nat (length (rs_found res))
         \<and> resolution_total st' r_absent = resolution_total st r_absent + word_of_nat (length (rs_absent res))
         \<and> classes_total st' l_resolved_historical
             = classes_total st l_resolved_historical + word_of_nat (length (rs_found res))
         \<and> classes_total st' l_files_opened - classes_total st l_files_opened
             = resolution_total st' r_files - resolution_total st r_files
         \<and> (\<forall>k < container_count. \<forall>base \<in> {l_ordinal_bucket, l_distance_bucket}.
               histogram_total st' k base - histogram_total st k base
               = lookup_total st' k l_resolved_historical - lookup_total st k l_resolved_historical)
         \<and> tl_probe st' = tl_probe st)"
proof (cases r)
  case (Inl e)
  then show ?thesis using resolve_recorded_exact(1,2)[OF assms] by simp
next
  case (Inr res)
  from resolve_recorded_exact(3)[OF assms this] obtain n t where b: "balanced n t" "n = length (rs_found res)"
    "n + length (rs_absent res) = length (working_set_of lr_key requests)"
    and st': "st' = record_absent thread (word_of_nat (length (rs_absent res))) (publish_tally thread t st)" by blast
  show ?thesis
    using resolve_recorded_exact(1)[OF assms] published[OF b(1) wf st'] b Inr by simp
qed

theorem resolution_telemetry_exact_witness:
  "\<exists>r db' st'. resolve_recorded 3 calm_env full_result_of
        [\<lparr>lr_key = old_key, lr_height = 5\<rparr>, \<lparr>lr_key = other_key, lr_height = 5\<rparr>]
        (layered_store Full_mode example_value) (reset_search_stats no_telemetry) = ((Inr r, db'), st')
     \<and> resolution_total st' r_resolved + resolution_total st' r_absent = 2"
proof -
  let ?rs = "[\<lparr>lr_key = old_key, lr_height = 5\<rparr>, \<lparr>lr_key = other_key, lr_height = 5\<rparr>]"
    and ?st = "reset_search_stats no_telemetry"
  obtain r db' st' where run: "resolve_recorded 3 calm_env full_result_of ?rs (layered_store Full_mode example_value) ?st
      = ((r, db'), st')"
    by (metis prod.collapse)
  have wf: "wf_telemetry ?st"
    by (simp add: wf_telemetry_def reset_search_stats_def no_telemetry_def wf_no_counts wf_assignment_def)
  note exact = resolution_telemetry_exact[OF run wf]
  have res: "resolve_with calm_env full_result_of ?rs (layered_store Full_mode example_value) = (r, db')"
    using exact by simp
  obtain out where out: "r = Inr out" using resolve_with_spec(7)[OF layered_store_inv res] by auto
  have two: "length (rs_found out) + length (rs_absent out) = 2" using exact out by (simp add: working_set_of_def)
  have zero: "resolution_total ?st r_resolved = 0" "resolution_total ?st r_absent = 0"
    using counter_sum_no_counts[of r_resolved narrow_fields] counter_sum_no_counts[of r_absent narrow_fields]
    by (simp_all add: reset_search_stats_def field_numbers)
  have "word_of_nat (length (rs_found out)) + word_of_nat (length (rs_absent out)) = (2 :: u64)"
    using arg_cong[OF two, of "word_of_nat :: nat \<Rightarrow> u64"] by simp
  then have "resolution_total st' r_resolved + resolution_total st' r_absent = 2" using exact out zero by simp
  then show ?thesis using run out by blast
qed

end
