(* ===== verification/Statistics.thy ===== *)
theory Statistics
  imports Containers
begin

text \<open>
  The counters of a session, \<open>container_stats\<close>, \<open>height_range_stats\<close>, \<open>utxo_lifetime_stats\<close> and
  \<open>deferred_stats\<close> of \<open>src/include/utxoz/statistics.hpp\<close>: what \<open>insert_in_index\<close>,
  \<open>erase_in_latest_version\<close> and \<open>apply_deletes\<close> add to them, and \<open>get_sizing_report\<close>, all in
  \<open>src/database_impl.cpp\<close>. They live beside the store: no decision reads them. The running average of
  the ages and the time deletions took, which are floating-point and a clock's, are not modelled.
\<close>

section \<open>Counters\<close>

type_synonym 'k tally = "('k \<times> u64) list"

definition tally_of :: "'k tally \<Rightarrow> 'k \<Rightarrow> u64" where
  "tally_of m k = (case map_of m k of None \<Rightarrow> 0 | Some n \<Rightarrow> n)"

text \<open>\<open>++m[k]\<close> and \<open>m[k] += n\<close>: the entry is made when it is not there.\<close>

definition tally_add :: "'k \<Rightarrow> u64 \<Rightarrow> 'k tally \<Rightarrow> 'k tally" where
  "tally_add k n m = AList.update k (tally_of m k + n) m"

record container_stats =
  st_total_inserts :: u64
  st_total_deletes :: u64
  st_current_size :: u64
  st_failed_deletes :: u64
  st_rehash_count :: u64
  st_value_size_distribution :: "u64 tally"

definition no_container_stats :: container_stats where
  "no_container_stats = \<lparr>st_total_inserts = 0, st_total_deletes = 0, st_current_size = 0,
     st_failed_deletes = 0, st_rehash_count = 0, st_value_size_distribution = []\<rparr>"

record range_data =
  rd_inserts :: "u64 list"
  rd_deletes :: "u64 list"

definition range_size :: u32 where "range_size = 10000"

definition no_range_data :: range_data where
  "no_range_data = \<lparr>rd_inserts = replicate container_count 0, rd_deletes = replicate container_count 0\<rparr>"

definition range_at :: "(u32 \<times> range_data) list \<Rightarrow> u32 \<Rightarrow> range_data" where
  "range_at ranges k = (case map_of ranges k of None \<Rightarrow> no_range_data | Some r \<Rightarrow> r)"

record lifetime_stats =
  lf_age_distribution :: "u32 tally"
  lf_max_age :: u32
  lf_total_spent :: u64

record deferred_stats =
  de_successfully_processed :: u64
  de_failed_to_delete :: u64
  de_processing_runs :: u64

record session_stats =
  ss_containers :: "container_stats list"
  ss_ranges :: "(u32 \<times> range_data) list"
  ss_deletions_by_depth :: "u64 tally"
  ss_lifetime :: lifetime_stats
  ss_deferred :: deferred_stats

definition reset_all_statistics :: session_stats where
  "reset_all_statistics = \<lparr>ss_containers = replicate container_count no_container_stats,
     ss_ranges = [], ss_deletions_by_depth = [],
     ss_lifetime = \<lparr>lf_age_distribution = [], lf_max_age = 0, lf_total_spent = 0\<rparr>,
     ss_deferred = \<lparr>de_successfully_processed = 0, de_failed_to_delete = 0, de_processing_runs = 0\<rparr>\<rparr>"

text \<open>A successful insertion into class \<open>i\<close>; reference mode reports through class 0 and size 8.\<close>

definition count_insert :: "nat \<Rightarrow> u64 \<Rightarrow> u32 \<Rightarrow> bool \<Rightarrow> session_stats \<Rightarrow> session_stats" where
  "count_insert i value_size height rehashed s =
    (let c = ss_containers s ! i; k = height div range_size; r = range_at (ss_ranges s) k
     in s\<lparr>ss_containers := (ss_containers s)[i := c\<lparr>st_total_inserts := st_total_inserts c + 1,
              st_current_size := st_current_size c + 1,
              st_value_size_distribution := tally_add value_size 1 (st_value_size_distribution c),
              st_rehash_count := st_rehash_count c + (if rehashed then 1 else 0)\<rparr>],
          ss_ranges := AList.update k (r\<lparr>rd_inserts := (rd_inserts r)[i := rd_inserts r ! i + 1]\<rparr>) (ss_ranges s)\<rparr>)"

text \<open>
  A deletion in the active version, which knows the height the entry was created at, and one in a
  version below, at its distance. The age is a difference of unsigned numbers.
\<close>

definition count_spent :: "u32 \<Rightarrow> u32 \<Rightarrow> lifetime_stats \<Rightarrow> lifetime_stats" where
  "count_spent height block_height l =
    (let age = height - block_height
     in l\<lparr>lf_age_distribution := tally_add age 1 (lf_age_distribution l),
          lf_max_age := max (lf_max_age l) age, lf_total_spent := lf_total_spent l + 1\<rparr>)"

definition count_delete :: "nat \<Rightarrow> u32 \<Rightarrow> session_stats \<Rightarrow> session_stats" where
  "count_delete i height s =
    (let c = ss_containers s ! i; k = height div range_size; r = range_at (ss_ranges s) k
     in s\<lparr>ss_containers := (ss_containers s)[i := c\<lparr>st_current_size := st_current_size c - 1,
              st_total_deletes := st_total_deletes c + 1\<rparr>],
          ss_ranges := AList.update k (r\<lparr>rd_deletes := (rd_deletes r)[i := rd_deletes r ! i + 1]\<rparr>) (ss_ranges s)\<rparr>)"

definition count_active_delete :: "nat \<Rightarrow> u32 \<Rightarrow> u32 \<Rightarrow> session_stats \<Rightarrow> session_stats" where
  "count_active_delete i height block_height s =
    count_delete i height (s\<lparr>ss_lifetime := count_spent height block_height (ss_lifetime s)\<rparr>)"

definition count_historical_delete :: "nat \<Rightarrow> u64 \<Rightarrow> u64 \<Rightarrow> u32 \<Rightarrow> session_stats \<Rightarrow> session_stats" where
  "count_historical_delete i current_version version height s =
    (let depth = ucast (ucast (current_version - version) :: u32)
     in count_delete i height (s\<lparr>ss_deletions_by_depth := tally_add depth 1 (ss_deletions_by_depth s)\<rparr>))"

text \<open>The end of a deletion batch: what it erased, what it still owes, and whether it finished.\<close>

definition count_batch :: "u64 \<Rightarrow> u64 \<Rightarrow> bool \<Rightarrow> session_stats \<Rightarrow> session_stats" where
  "count_batch erased unresolved complete s =
    (let d = ss_deferred s
     in s\<lparr>ss_deferred := d\<lparr>de_successfully_processed := de_successfully_processed d + erased,
            de_failed_to_delete := de_failed_to_delete d + unresolved,
            de_processing_runs := de_processing_runs d + (if complete then 1 else 0)\<rparr>\<rparr>)"

section \<open>The sizing report\<close>

record container_info =
  ci_container_size :: u64
  ci_file_size_setting :: u64
  ci_file_count :: u64
  ci_current_entries :: u64
  ci_historical_inserts :: u64
  ci_historical_deletes :: u64
  ci_total_wasted_bytes :: u64

record sizing_report =
  sr_containers :: "container_info list"
  sr_global_value_size_histogram :: "u64 tally"

definition wasted_bytes :: "u64 \<Rightarrow> u64 tally \<Rightarrow> u64" where
  "wasted_bytes container_size dist =
     fold (\<lambda>(value_size, n) total.
        if container_size > value_size then total + (container_size - value_size) * n else total) dist 0"

definition merge_tally :: "'k tally \<Rightarrow> 'k tally \<Rightarrow> 'k tally" where
  "merge_tally dist histogram = fold (\<lambda>(k, n). tally_add k n) dist histogram"

definition container_info_of :: "'v database \<Rightarrow> u64 \<Rightarrow> u64 \<Rightarrow> container_stats \<Rightarrow> container_info" where
  "container_info_of db i container_size c =
     \<lparr>ci_container_size = container_size, ci_file_size_setting = ce_file_size (db_capacity db i),
      ci_file_count = word_of_nat (length (vc_versions (db_catalogs db i))),
      ci_current_entries = st_current_size c, ci_historical_inserts = st_total_inserts c,
      ci_historical_deletes = st_total_deletes c,
      ci_total_wasted_bytes = wasted_bytes container_size (st_value_size_distribution c)\<rparr>"

text \<open>In reference mode one container is filled in and the others stay as they are created.\<close>

definition no_container_info :: container_info where
  "no_container_info = \<lparr>ci_container_size = 0, ci_file_size_setting = 0, ci_file_count = 0,
     ci_current_entries = 0, ci_historical_inserts = 0, ci_historical_deletes = 0, ci_total_wasted_bytes = 0\<rparr>"

definition get_sizing_report :: "'v database \<Rightarrow> session_stats \<Rightarrow> sizing_report" where
  "get_sizing_report db s =
    (if db_mode db = Reference_mode
     then (let c = ss_containers s ! 0
           in \<lparr>sr_containers = container_info_of db reference_sentinel_index 12 c
                 # replicate (container_count - 1) no_container_info,
               sr_global_value_size_histogram = merge_tally (st_value_size_distribution c) []\<rparr>)
     else \<lparr>sr_containers = map (\<lambda>i. container_info_of db (word_of_nat i) (word_of_nat (container_sizes ! i))
                (ss_containers s ! i)) [0 ..< container_count],
           sr_global_value_size_histogram =
             fold (\<lambda>i. merge_tally (st_value_size_distribution (ss_containers s ! i))) [0 ..< container_count] []\<rparr>)"

text \<open>
  The counter of entries starts at zero when a store is opened, so the deletion of an entry that an
  earlier session inserted takes it below zero: the report then gives 2^64 - 1 current entries for
  a container the store knows to be empty.
\<close>

lemma current_entries_wraps:
  "ci_current_entries (sr_containers (get_sizing_report (db\<lparr>db_mode := Full_mode\<rparr>)
      (count_delete 0 height reset_all_statistics)) ! 0) = u64_max"
  by (simp add: get_sizing_report_def count_delete_def reset_all_statistics_def Let_def container_info_of_def
      no_container_stats_def upt_conv_Cons)

text \<open>The age of an entry deleted below the height it was created at wraps round and stays the maximum.\<close>

lemma lifetime_age_wraps: "lf_max_age (ss_lifetime (count_active_delete 0 9 10 reset_all_statistics)) = - 1"
  by (simp add: count_active_delete_def count_delete_def count_spent_def reset_all_statistics_def Let_def)

section \<open>Sessions\<close>

datatype session_event =
    Counted_insert nat u64 u32 bool
  | Counted_delete nat u32 u32
  | Counted_delete_below nat u64 u64 u32

fun count_event :: "session_event \<Rightarrow> session_stats \<Rightarrow> session_stats" where
  "count_event (Counted_insert i value_size height rehashed) = count_insert i value_size height rehashed"
| "count_event (Counted_delete i height block_height) = count_active_delete i height block_height"
| "count_event (Counted_delete_below i current_version version height)
     = count_historical_delete i current_version version height"

text \<open>A direct reading of the events.\<close>

fun event_class :: "session_event \<Rightarrow> nat" where
  "event_class (Counted_insert i _ _ _) = i"
| "event_class (Counted_delete i _ _) = i"
| "event_class (Counted_delete_below i _ _ _) = i"

fun inserted_size :: "session_event \<Rightarrow> u64 option" where
  "inserted_size (Counted_insert _ value_size _ _) = Some value_size"
| "inserted_size _ = None"

definition inserts_of :: "nat \<Rightarrow> session_event list \<Rightarrow> u64 list" where
  "inserts_of i es = List.map_filter inserted_size (filter (\<lambda>e. event_class e = i) es)"

definition deletes_of :: "nat \<Rightarrow> session_event list \<Rightarrow> nat" where
  "deletes_of i es = length (filter (\<lambda>e. event_class e = i \<and> inserted_size e = None) es)"

lemma inserts_of_append: "inserts_of i (es @ es') = inserts_of i es @ inserts_of i es'"
  by (simp add: inserts_of_def map_filter_def)

lemma inserts_of_single:
  "inserts_of i [e] = (if event_class e = i then (case inserted_size e of None \<Rightarrow> [] | Some n \<Rightarrow> [n]) else [])"
  by (simp add: inserts_of_def map_filter_simps split: option.split)

lemma deletes_of_append: "deletes_of i (es @ es') = deletes_of i es + deletes_of i es'"
  by (simp add: deletes_of_def)

section \<open>Tallies\<close>

lemma tally_of_add: "tally_of (tally_add k n m) j = (if j = k then tally_of m j + n else tally_of m j)"
  by (simp add: tally_of_def tally_add_def map_of_update_fun)

lemma tally_of_Nil [simp]: "tally_of [] k = 0"
  by (simp add: tally_of_def)

definition waste :: "u64 \<Rightarrow> u64 \<Rightarrow> u64" where
  "waste container_size value_size = (if container_size > value_size then container_size - value_size else 0)"

lemma wasted_bytes_sum: "wasted_bytes cs dist = sum_list (map (\<lambda>(v, n). waste cs v * n) dist)"
proof -
  have "fold (\<lambda>(v, n) total. if cs > v then total + (cs - v) * n else total) dist a
      = a + sum_list (map (\<lambda>(v, n). waste cs v * n) dist)" for a
    by (induction dist arbitrary: a) (auto simp: waste_def)
  from this[of 0] show ?thesis by (simp add: wasted_bytes_def)
qed

lemma wasted_bytes_add: "wasted_bytes cs (tally_add v n m) = wasted_bytes cs m + waste cs v * n"
proof -
  have "sum_list (map (\<lambda>(v, n). waste cs v * n) (AList.update v (tally_of m v + n) m))
      = sum_list (map (\<lambda>(v, n). waste cs v * n) m) + waste cs v * n"
    by (induction m) (auto simp: tally_of_def distrib_left)
  then show ?thesis by (simp add: wasted_bytes_sum tally_add_def)
qed

lemma tally_of_merge:
  assumes "distinct (map fst dist)"
  shows "tally_of (merge_tally dist h) k = tally_of h k + tally_of dist k"
  using assms
proof (induction dist arbitrary: h)
  case (Cons e dist)
  obtain k' n where e: "e = (k', n)" by (cases e)
  have "map_of dist k' = None" using Cons.prems by (simp add: e map_of_eq_None_iff)
  then have "tally_of dist k' = 0" by (simp add: tally_of_def)
  moreover have "tally_of (e # dist) k = (if k = k' then n else tally_of dist k)" by (simp add: e tally_of_def)
  moreover have "merge_tally (e # dist) h = merge_tally dist (tally_add k' n h)" by (simp add: e merge_tally_def)
  ultimately show ?case
    using Cons.IH[of "tally_add k' n h"] Cons.prems by (simp add: e tally_of_add)
qed (simp add: merge_tally_def)

section \<open>What a session has counted\<close>

definition counts :: "u64 list \<Rightarrow> nat \<Rightarrow> container_stats \<Rightarrow> bool" where
  "counts inserts deletes c \<longleftrightarrow> st_total_inserts c = word_of_nat (length inserts)
     \<and> st_total_deletes c = word_of_nat deletes
     \<and> st_current_size c = word_of_nat (length inserts) - word_of_nat deletes
     \<and> distinct (map fst (st_value_size_distribution c))
     \<and> (\<forall>n. tally_of (st_value_size_distribution c) n = word_of_nat (count_list inserts n))
     \<and> (\<forall>cs. wasted_bytes cs (st_value_size_distribution c) = sum_list (map (waste cs) inserts))"

definition counted :: "session_event list \<Rightarrow> session_stats \<Rightarrow> bool" where
  "counted es s \<longleftrightarrow> length (ss_containers s) = container_count
     \<and> (\<forall>i < container_count. counts (inserts_of i es) (deletes_of i es) (ss_containers s ! i))"

lemma distinct_tally_add: "distinct (map fst m) \<Longrightarrow> distinct (map fst (tally_add k n m))"
  by (simp add: tally_add_def distinct_update)

lemma counts_insert:
  "counts inserts deletes c \<Longrightarrow> counts (inserts @ [n]) deletes
     (c\<lparr>st_total_inserts := st_total_inserts c + 1, st_current_size := st_current_size c + 1,
        st_value_size_distribution := tally_add n 1 (st_value_size_distribution c), st_rehash_count := r\<rparr>)"
  by (simp add: counts_def tally_of_add wasted_bytes_add distinct_tally_add)

lemma counts_delete:
  "counts inserts deletes c \<Longrightarrow> counts inserts (deletes + 1)
     (c\<lparr>st_current_size := st_current_size c - 1, st_total_deletes := st_total_deletes c + 1\<rparr>)"
  by (simp add: counts_def)

lemma counted_start: "counted [] reset_all_statistics"
  by (simp add: counted_def counts_def reset_all_statistics_def no_container_stats_def inserts_of_def deletes_of_def
      map_filter_simps wasted_bytes_def)

lemma events_snoc:
  "inserts_of k (es @ [e]) = (if event_class e = k then inserts_of k es
      @ (case inserted_size e of None \<Rightarrow> [] | Some n \<Rightarrow> [n]) else inserts_of k es)"
  "deletes_of k (es @ [e]) = (if event_class e = k \<and> inserted_size e = None then deletes_of k es + 1 else deletes_of k es)"
  by (simp_all add: inserts_of_append inserts_of_single deletes_of_append deletes_of_def)

lemma counted_step:
  assumes "counted es s" "event_class e < container_count"
  shows "counted (es @ [e]) (count_event e s)"
proof (cases e)
  case (Counted_insert i value_size height rehashed)
  let ?c = "ss_containers s ! i"
  define c' where "c' = ?c\<lparr>st_total_inserts := st_total_inserts ?c + 1, st_current_size := st_current_size ?c + 1,
    st_value_size_distribution := tally_add value_size 1 (st_value_size_distribution ?c),
    st_rehash_count := st_rehash_count ?c + (if rehashed then 1 else 0)\<rparr>"
  have "counts (inserts_of i es @ [value_size]) (deletes_of i es) c'"
    unfolding c'_def using assms Counted_insert by (intro counts_insert) (simp add: counted_def)
  moreover have "ss_containers (count_event e s) = (ss_containers s)[i := c']"
    by (simp add: Counted_insert count_insert_def Let_def c'_def)
  ultimately show ?thesis
    using assms Counted_insert by (simp add: counted_def events_snoc nth_list_update)
next
  case (Counted_delete i height block_height)
  then show ?thesis
    using assms counts_delete[of "inserts_of i es" "deletes_of i es" "ss_containers s ! i"]
    by (simp add: counted_def count_active_delete_def count_delete_def Let_def events_snoc nth_list_update)
next
  case (Counted_delete_below i current_version version height)
  then show ?thesis
    using assms counts_delete[of "inserts_of i es" "deletes_of i es" "ss_containers s ! i"]
    by (simp add: counted_def count_historical_delete_def count_delete_def Let_def events_snoc nth_list_update)
qed

lemma counted_run:
  "counted es s \<Longrightarrow> \<forall>e \<in> set es'. event_class e < container_count \<Longrightarrow> counted (es @ es') (fold count_event es' s)"
proof (induction es' arbitrary: es s)
  case (Cons e es')
  then show ?case using counted_step[of es s e] Cons.IH[of "es @ [e]" "count_event e s"] by simp
qed simp

section \<open>Property\<close>

lemma merged_histogram:
  assumes "\<forall>i \<in> set is. distinct (map fst (d i))"
  shows "tally_of (fold (\<lambda>i. merge_tally (d i)) is h) n = tally_of h n + sum_list (map (\<lambda>i. tally_of (d i) n) is)"
  using assms by (induction "is" arbitrary: h) (auto simp: tally_of_merge ac_simps)

text \<open>
  The sizing report of full mode gives what a direct reading of the session would: for each
  class the insertions and deletions of the session and their difference, and the sum over every
  insertion of what the class size exceeds the value by; and over all classes how many values of
  each size were inserted. All of it modulo 2^64.
\<close>

theorem sizing_report_exact:
  assumes "db_mode db = Full_mode" and "\<forall>e \<in> set es. event_class e < container_count"
  shows "length (sr_containers (get_sizing_report db (fold count_event es reset_all_statistics))) = container_count
    \<and> (\<forall>i < container_count.
        (let info = sr_containers (get_sizing_report db (fold count_event es reset_all_statistics)) ! i
         in ci_historical_inserts info = word_of_nat (length (inserts_of i es))
          \<and> ci_historical_deletes info = word_of_nat (deletes_of i es)
          \<and> ci_current_entries info = word_of_nat (length (inserts_of i es)) - word_of_nat (deletes_of i es)
          \<and> ci_total_wasted_bytes info
              = sum_list (map (waste (word_of_nat (container_sizes ! i))) (inserts_of i es))))
    \<and> (\<forall>n. tally_of (sr_global_value_size_histogram (get_sizing_report db (fold count_event es reset_all_statistics))) n
        = sum_list (map (\<lambda>i. word_of_nat (count_list (inserts_of i es) n)) [0 ..< container_count]))"
proof -
  let ?s = "fold count_event es reset_all_statistics"
  have c: "counted es ?s" using counted_run[OF counted_start assms(2)] by simp
  then have at: "counts (inserts_of i es) (deletes_of i es) (ss_containers ?s ! i)" if "i < container_count" for i
    using that by (simp add: counted_def)
  have report: "get_sizing_report db ?s =
    \<lparr>sr_containers = map (\<lambda>i. container_info_of db (word_of_nat i) (word_of_nat (container_sizes ! i))
        (ss_containers ?s ! i)) [0 ..< container_count],
     sr_global_value_size_histogram =
       fold (\<lambda>i. merge_tally (st_value_size_distribution (ss_containers ?s ! i))) [0 ..< container_count] []\<rparr>"
    using assms(1) by (simp only: get_sizing_report_def) simp
  have "\<forall>i \<in> set [0 ..< container_count]. distinct (map fst (st_value_size_distribution (ss_containers ?s ! i)))"
    using at by (simp add: counts_def)
  note h = merged_histogram[OF this, of "[]"]
  have "map (\<lambda>i. tally_of (st_value_size_distribution (ss_containers ?s ! i)) n) [0 ..< container_count]
      = map (\<lambda>i. word_of_nat (count_list (inserts_of i es) n)) [0 ..< container_count]" for n
    using at by (intro map_cong refl) (simp add: counts_def)
  then have "tally_of (sr_global_value_size_histogram (get_sizing_report db ?s)) n
      = sum_list (map (\<lambda>i. word_of_nat (count_list (inserts_of i es) n)) [0 ..< container_count])" for n
    using h[of n] by (simp only: report sizing_report.select_convs tally_of_Nil add_0)
  moreover have "ci_historical_inserts info = word_of_nat (length (inserts_of i es))
          \<and> ci_historical_deletes info = word_of_nat (deletes_of i es)
          \<and> ci_current_entries info = word_of_nat (length (inserts_of i es)) - word_of_nat (deletes_of i es)
          \<and> ci_total_wasted_bytes info
              = sum_list (map (waste (word_of_nat (container_sizes ! i))) (inserts_of i es))"
    if i: "i < container_count" and info: "info = sr_containers (get_sizing_report db ?s) ! i" for i info
  proof -
    have "info = container_info_of db (word_of_nat i) (word_of_nat (container_sizes ! i)) (ss_containers ?s ! i)"
      using i by (simp only: info report sizing_report.select_convs) simp
    then show ?thesis using at[OF i] by (simp add: container_info_of_def counts_def)
  qed
  moreover have "length (sr_containers (get_sizing_report db ?s)) = container_count" by (simp add: report)
  ultimately show ?thesis by (simp only: Let_def) blast
qed

theorem sizing_report_exact_witness:
  "ci_total_wasted_bytes (sr_containers (get_sizing_report full_store
      (fold count_event [Counted_insert 0 40 9 False, Counted_insert 0 20 9 True, Counted_delete 0 9 4]
         reset_all_statistics)) ! 0) = 36"
proof -
  let ?es = "[Counted_insert 0 40 9 False, Counted_insert 0 20 9 True, Counted_delete 0 9 4]"
  have "db_mode (full_store :: utxo_value database) = Full_mode" by (simp add: full_store_def empty_store_def example_db_def)
  moreover have "\<forall>e \<in> set ?es. event_class e < container_count" by simp
  moreover have "inserts_of 0 ?es = [40, 20]" by (simp add: inserts_of_def map_filter_simps)
  moreover have "0 < container_count" by simp
  ultimately show ?thesis
    using sizing_report_exact[of full_store ?es] by (simp add: Let_def waste_def container_sizes_def)
qed

end
