(* ===== verification/Session_Statistics.thy ===== *)
theory Session_Statistics
  imports Statistics Resolve_Telemetry Census_Returns
begin

text \<open>
  \<open>get_statistics\<close> of \<open>src/database_impl.cpp\<close> with \<open>update_fragmentation_stats\<close> and
  \<open>estimate_memory_usage\<close>: everything the store tells about a session in one report. It reads the
  counters of \<open>Statistics\<close> and \<open>Telemetry\<close>, the catalogues and the sizes of the files, and it changes
  nothing stored. A call of the file system that fails raises here.
\<close>

section \<open>Space\<close>

record fragmentation_stats =
  fs_fill_ratios :: "quotient list"
  fs_wasted_space :: "u64 list"

definition no_fragmentation :: fragmentation_stats where
  "no_fragmentation = \<lparr>fs_fill_ratios = replicate container_count zero_quotient,
     fs_wasted_space = replicate container_count 0\<rparr>"

text \<open>The segment a container has mapped: its active version file.\<close>

definition mapped_segment :: "'v database \<Rightarrow> u64 \<Rightarrow> 'v segment option" where
  "mapped_segment db i =
    (if db_mapped db i
     then (case lookup_file (db_disk db) (data_path i (db_current_versions db i)) of
             Some (Segment s) \<Rightarrow> Some s | _ \<Rightarrow> None)
     else None)"

definition wasted_space :: "'v gauges \<Rightarrow> 'v database \<Rightarrow> u64 \<Rightarrow> 'v segment \<Rightarrow> u64 \<times> u64" where
  "wasted_space G db i s =
    (let total_size = seg_size s; free_memory = seg_free G s;
         used_memory = (if total_size \<ge> free_memory then total_size - free_memory else 0);
         ideal_size = tbl_size (container db i) * entry_size i
     in (used_memory, if used_memory > ideal_size then used_memory - ideal_size else 0))"

definition update_fragmentation_stats :: "'v gauges \<Rightarrow> 'v database \<Rightarrow> fragmentation_stats \<Rightarrow> fragmentation_stats" where
  "update_fragmentation_stats G db =
    fold (\<lambda>i f.
      case mapped_segment db i of
        None \<Rightarrow> f
      | Some s \<Rightarrow>
        (case wasted_space G db i s of
           (used, wasted) \<Rightarrow>
             f\<lparr>fs_fill_ratios := (fs_fill_ratios f)[unat i := (used, seg_size s)],
               fs_wasted_space := (fs_wasted_space f)[unat i := wasted]\<rparr>))
      full_indices"

fun add_file_sizes :: "'v env \<Rightarrow> u64 \<Rightarrow> u64 list \<Rightarrow> u64 \<Rightarrow> 'v disk \<Rightarrow> u64 option \<times> 'v disk" where
  "add_file_sizes E i [] acc d = (Some acc, d)"
| "add_file_sizes E i (v # vs) acc d =
    (case path_exists E (data_path i v) d of
       (Inl _, d) \<Rightarrow> (None, d)
     | (Inr False, d) \<Rightarrow> add_file_sizes E i vs acc d
     | (Inr True, d) \<Rightarrow>
       (case file_size E (data_path i v) d of
          (None, d) \<Rightarrow> (None, d)
        | (Some n, d) \<Rightarrow> add_file_sizes E i vs (acc + n) d))"

definition estimate_memory_usage :: "'v env \<Rightarrow> 'v database \<Rightarrow> u64 \<Rightarrow> 'v disk \<Rightarrow> u64 option \<times> 'v disk" where
  "estimate_memory_usage E db i d =
     add_file_sizes E i (catalog_below (db_catalogs db i) (db_current_versions db i))
       (case mapped_segment db i of Some s \<Rightarrow> seg_size s | None \<Rightarrow> 0) d"

fun estimate_all :: "'v env \<Rightarrow> 'v database \<Rightarrow> u64 list \<Rightarrow> 'v disk \<Rightarrow> u64 list option \<times> 'v disk" where
  "estimate_all E db [] d = (Some [], d)"
| "estimate_all E db (i # is) d =
    (case estimate_memory_usage E db i d of
       (None, d) \<Rightarrow> (None, d)
     | (Some n, d) \<Rightarrow>
       (case estimate_all E db is d of
          (None, d) \<Rightarrow> (None, d)
        | (Some ns, d) \<Rightarrow> (Some (n # ns), d)))"

section \<open>The report\<close>

record database_statistics =
  ds_mode :: storage_mode
  ds_lookups :: lookup_telemetry
  ds_total_entries :: u64
  ds_total_inserts :: u64
  ds_total_deletes :: u64
  ds_containers :: "container_stats list"
  ds_cache_hit_rate :: quotient
  ds_cached_files_count :: u64
  ds_cached_files_info :: "(u64 \<times> u64) list"
  ds_deferred :: deferred_stats
  ds_deletions_by_depth :: "u64 tally"
  ds_probes :: probe_summary
  ds_resolution :: resolution_summary
  ds_lifetime :: lifetime_stats
  ds_fragmentation :: fragmentation_stats
  ds_rotations_per_container :: "u64 list"
  ds_rotations_by_cause :: "rotation_causes list"
  ds_memory_usage_per_container :: "u64 list"

text \<open>What every report has; the fields of the containers are filled in afterwards.\<close>

definition common_statistics ::
  "'v database \<Rightarrow> session_stats \<Rightarrow> telemetry \<Rightarrow> lookup_telemetry \<Rightarrow> fragmentation_stats \<Rightarrow> database_statistics" where
  "common_statistics db s st lt f =
    (let cache = db_file_cache db
     in \<lparr>ds_mode = db_mode db, ds_lookups = lt, ds_total_entries = db_entries_count db,
         ds_total_inserts = 0, ds_total_deletes = 0,
         ds_containers = replicate container_count no_container_stats,
         ds_cache_hit_rate = rate (fc_hits cache) (fc_gets cache),
         ds_cached_files_count = word_of_nat (length (fc_cache cache)),
         ds_cached_files_info = map fst (fc_cache cache),
         ds_deferred = ss_deferred s, ds_deletions_by_depth = ss_deletions_by_depth s,
         ds_probes = probe_summary_of st, ds_resolution = resolution_summary_of st,
         ds_lifetime = ss_lifetime s, ds_fragmentation = f,
         ds_rotations_per_container = replicate container_count 0,
         ds_rotations_by_cause = replicate container_count no_rotations,
         ds_memory_usage_per_container = replicate container_count 0\<rparr>)"

definition reference_statistics ::
  "'v gauges \<Rightarrow> 'v database \<Rightarrow> session_stats \<Rightarrow> telemetry \<Rightarrow> fragmentation_stats
   \<Rightarrow> database_statistics \<times> fragmentation_stats" where
  "reference_statistics G db s st f =
    (let f = update_fragmentation_stats G db f;
         r = common_statistics db s st (reference_lookup_telemetry st) f;
         c = ss_containers s ! 0;
         i = reference_sentinel_index
     in (r\<lparr>ds_containers := (ds_containers r)[0 := c],
           ds_total_inserts := st_total_inserts c, ds_total_deletes := st_total_deletes c,
           ds_rotations_per_container := (ds_rotations_per_container r)[0 := db_current_versions db i],
           ds_rotations_by_cause := (ds_rotations_by_cause r)[0 := db_rotation_causes db i],
           ds_memory_usage_per_container := (ds_memory_usage_per_container r)
             [0 := (case mapped_segment db i of Some s \<Rightarrow> seg_size s | None \<Rightarrow> ce_file_size (db_capacity db i))]\<rparr>,
         f))"

definition full_statistics ::
  "'v env \<Rightarrow> 'v gauges \<Rightarrow> 'v database \<Rightarrow> session_stats \<Rightarrow> telemetry \<Rightarrow> fragmentation_stats
   \<Rightarrow> database_statistics option \<times> fragmentation_stats \<times> 'v database" where
  "full_statistics E G db s st f =
    (let f = update_fragmentation_stats G db f;
         r = common_statistics db s st (full_lookup_telemetry st) f
     in case estimate_all E db full_indices (db_disk db) of
          (None, d) \<Rightarrow> (None, f, db\<lparr>db_disk := d\<rparr>)
        | (Some usage, d) \<Rightarrow>
            (Some (r\<lparr>ds_containers := map (\<lambda>i. ss_containers s ! i) [0 ..< container_count],
                 ds_total_inserts := fold (\<lambda>i n. n + st_total_inserts (ss_containers s ! i)) [0 ..< container_count] 0,
                 ds_total_deletes := fold (\<lambda>i n. n + st_total_deletes (ss_containers s ! i)) [0 ..< container_count] 0,
                 ds_rotations_per_container := map (db_current_versions db) full_indices,
                 ds_rotations_by_cause := map (db_rotation_causes db) full_indices,
                 ds_memory_usage_per_container := usage\<rparr>),
             f, db\<lparr>db_disk := d\<rparr>))"

section \<open>A session\<close>

text \<open>What a session reports to its counters: single insertions and deletions, and the ends of batches.\<close>

datatype report_event =
    Counted session_event
  | Batch_ended u64 u64 bool

fun report_step :: "report_event \<Rightarrow> session_stats \<Rightarrow> session_stats" where
  "report_step (Counted e) = count_event e"
| "report_step (Batch_ended erased unresolved complete) = count_batch erased unresolved complete"

fun counted_event :: "report_event \<Rightarrow> session_event option" where
  "counted_event (Counted e) = Some e"
| "counted_event (Batch_ended _ _ _) = None"

fun spent_age :: "report_event \<Rightarrow> u32 option" where
  "spent_age (Counted (Counted_delete i height block_height)) = Some (height - block_height)"
| "spent_age _ = None"

definition counted_events :: "report_event list \<Rightarrow> session_event list" where
  "counted_events es = List.map_filter counted_event es"

definition spent_ages :: "report_event list \<Rightarrow> u32 list" where
  "spent_ages es = List.map_filter spent_age es"

definition batches :: "report_event list \<Rightarrow> (u64 \<times> u64 \<times> bool) list" where
  "batches es = List.map_filter
     (\<lambda>e. case e of Batch_ended a b c \<Rightarrow> Some (a, b, c) | Counted _ \<Rightarrow> None) es"

lemmas readings = counted_events_def spent_ages_def batches_def map_filter_def

lemma count_event_rest:
  "ss_deferred (count_event e s) = ss_deferred s"
  "ss_lifetime (count_insert i n height rehashed s) = ss_lifetime s"
  "ss_lifetime (count_active_delete i height block_height s) = count_spent height block_height (ss_lifetime s)"
  "ss_lifetime (count_historical_delete i current version height s) = ss_lifetime s"
  by (cases e) (simp_all add: count_insert_def count_active_delete_def count_delete_def
      count_historical_delete_def Let_def)

definition lifetime_of :: "u32 list \<Rightarrow> lifetime_stats \<Rightarrow> bool" where
  "lifetime_of ages l \<longleftrightarrow> lf_total_spent l = word_of_nat (length ages)
     \<and> (\<forall>age. tally_of (lf_age_distribution l) age = word_of_nat (count_list ages age))
     \<and> lf_max_age l = Max (set (0 # ages))"

lemma lifetime_spent:
  assumes "lifetime_of ages l"
  shows "lifetime_of (ages @ [height - block_height]) (count_spent height block_height l)"
proof -
  have "Max (insert 0 (insert (height - block_height) (set ages)))
      = max (height - block_height) (Max (insert 0 (set ages)))"
    by (subst insert_commute) (rule Max_insert; simp)
  then show ?thesis
    using assms by (simp add: lifetime_of_def count_spent_def Let_def tally_of_add max.commute)
qed

definition deferred_of :: "(u64 \<times> u64 \<times> bool) list \<Rightarrow> deferred_stats \<Rightarrow> bool" where
  "deferred_of bs d \<longleftrightarrow> de_successfully_processed d = sum_list (map fst bs)
     \<and> de_failed_to_delete d = sum_list (map (fst \<circ> snd) bs)
     \<and> de_processing_runs d = word_of_nat (length (filter (snd \<circ> snd) bs))"

definition reported :: "report_event list \<Rightarrow> session_stats \<Rightarrow> bool" where
  "reported es s \<longleftrightarrow> counted (counted_events es) s \<and> lifetime_of (spent_ages es) (ss_lifetime s)
     \<and> deferred_of (batches es) (ss_deferred s)"

lemma reported_start: "reported [] reset_all_statistics"
  using counted_start
  by (simp add: reported_def readings) (simp add: lifetime_of_def deferred_of_def reset_all_statistics_def)

lemma reported_step:
  assumes "reported es s" "\<forall>c. counted_event e = Some c \<longrightarrow> event_class c < container_count"
  shows "reported (es @ [e]) (report_step e s)"
proof (cases e)
  case (Counted c)
  have "counted (counted_events es @ [c]) (count_event c s)"
    using assms Counted by (intro counted_step) (simp_all add: reported_def)
  moreover have "lifetime_of (spent_ages es @ (case spent_age e of None \<Rightarrow> [] | Some a \<Rightarrow> [a]))
      (ss_lifetime (count_event c s))"
    using assms(1) lifetime_spent by (cases c) (simp_all add: Counted count_event_rest reported_def)
  ultimately show ?thesis
    using assms(1) by (cases "spent_age e") (simp_all add: Counted reported_def readings count_event_rest)
next
  case (Batch_ended a b c)
  then show ?thesis
    using assms(1)
    by (simp add: reported_def readings counted_def count_batch_def Let_def deferred_of_def)
qed

lemma reported_run:
  "reported es s \<Longrightarrow> \<forall>e \<in> set es'. \<forall>c. counted_event e = Some c \<longrightarrow> event_class c < container_count
    \<Longrightarrow> reported (es @ es') (fold report_step es' s)"
proof (induction es' arbitrary: es s)
  case (Cons e es')
  then show ?case using reported_step[of es s e] Cons.IH[of "es @ [e]" "report_step e s"] by simp
qed simp

section \<open>Sums over the classes\<close>

lemma sum_of_classes:
  assumes "\<forall>e \<in> set es. f e < n"
  shows "(\<Sum>i \<leftarrow> [0 ..< n]. length (filter (\<lambda>e. f e = i \<and> P e) es)) = length (filter P es)"
  using assms
proof (induction es)
  case (Cons e es)
  have "(\<Sum>i \<leftarrow> [0 ..< n]. if f e = i \<and> P e then Suc (g i) else g i)
      = (\<Sum>i \<leftarrow> [0 ..< n]. g i) + (if P e then 1 else 0)" for g :: "nat \<Rightarrow> nat"
  proof (cases "P e")
    case True
    have "(\<Sum>i \<leftarrow> [0 ..< n]. if f e = i then Suc (g i) else g i)
        = (\<Sum>i \<leftarrow> [0 ..< n]. g i + (if f e = i then 1 else 0))"
      by (intro arg_cong[where f = sum_list] map_cong) auto
    also have "\<dots> = (\<Sum>i \<leftarrow> [0 ..< n]. g i) + (\<Sum>i \<leftarrow> [0 ..< n]. if f e = i then 1 else 0)"
      by (rule sum_list_addf)
    also have "(\<Sum>i \<leftarrow> [0 ..< n]. if f e = i then 1 else 0) = (1 :: nat)"
      using Cons.prems by (simp add: sum_list_sum_nth sum.delta)
    finally show ?thesis using True by simp
  qed simp
  then show ?case using Cons by (simp add: if_distrib[of length] cong: if_cong)
qed simp

lemma fold_sum_words: "fold (\<lambda>i n. n + f i) xs a = a + sum_list (map f xs)" for a :: "'a::len word"
  by (induction xs arbitrary: a) (simp_all add: ac_simps)

lemma sum_list_words: "sum_list (map (\<lambda>i. word_of_nat (g i)) xs) = word_of_nat (sum_list (map g xs))"
  by (induction xs) simp_all

lemma counted_totals:
  assumes "counted es s" "\<forall>e \<in> set es. event_class e < container_count"
  shows "fold (\<lambda>i n. n + st_total_inserts (ss_containers s ! i)) [0 ..< container_count] 0
      = word_of_nat (length (filter (\<lambda>e. inserted_size e \<noteq> None) es))"
    and "fold (\<lambda>i n. n + st_total_deletes (ss_containers s ! i)) [0 ..< container_count] 0
      = word_of_nat (length (filter (\<lambda>e. inserted_size e = None) es))"
proof -
  have inserts: "length (inserts_of i es) = length (filter (\<lambda>e. event_class e = i \<and> inserted_size e \<noteq> None) es)" for i
    by (simp add: inserts_of_def map_filter_def conj_commute)
  have "map (\<lambda>i. st_total_inserts (ss_containers s ! i)) [0 ..< container_count]
      = map (\<lambda>i. word_of_nat (length (filter (\<lambda>e. event_class e = i \<and> inserted_size e \<noteq> None) es))) [0 ..< container_count]"
    "map (\<lambda>i. st_total_deletes (ss_containers s ! i)) [0 ..< container_count]
      = map (\<lambda>i. word_of_nat (length (filter (\<lambda>e. event_class e = i \<and> inserted_size e = None) es))) [0 ..< container_count]"
    using assms(1) by (auto simp: counted_def counts_def inserts deletes_of_def)
  then show "fold (\<lambda>i n. n + st_total_inserts (ss_containers s ! i)) [0 ..< container_count] 0
      = word_of_nat (length (filter (\<lambda>e. inserted_size e \<noteq> None) es))"
    "fold (\<lambda>i n. n + st_total_deletes (ss_containers s ! i)) [0 ..< container_count] 0
      = word_of_nat (length (filter (\<lambda>e. inserted_size e = None) es))"
    by (simp_all only: fold_sum_words add_0 sum_list_words sum_of_classes[OF assms(2)])
qed

section \<open>The bytes of a container\<close>

definition version_bytes :: "'v disk \<Rightarrow> u64 \<Rightarrow> u64 \<Rightarrow> u64" where
  "version_bytes d i v = (case lookup_file d (data_path i v) of Some (Segment s) \<Rightarrow> seg_size s | _ \<Rightarrow> 0)"

lemma version_bytes_same: "same_disk d d' \<Longrightarrow> version_bytes d' = version_bytes d"
  by (intro ext) (simp add: version_bytes_def same_disk_lookup)

lemma add_file_sizes_calm:
  assumes calm: "\<forall>n. \<not> fails E n"
  shows "\<forall>v \<in> set vs. \<exists>s. lookup_file d (data_path i v) = Some (Segment s)
    \<Longrightarrow> \<exists>d'. add_file_sizes E i vs acc d = (Some (acc + sum_list (map (version_bytes d i) vs)), d') \<and> same_disk d d'"
proof (induction vs arbitrary: acc d)
  case (Cons v vs)
  then obtain s where s: "lookup_file d (data_path i v) = Some (Segment s)" by auto
  have same: "same_disk d (tick (tick d))" by simp
  obtain d' where d': "add_file_sizes E i vs (acc + seg_size s) (tick (tick d))
      = (Some (acc + seg_size s + sum_list (map (version_bytes (tick (tick d)) i) vs)), d')" "same_disk (tick (tick d)) d'"
    using Cons.IH[of "tick (tick d)" "acc + seg_size s"] Cons.prems by (auto simp: same_disk_lookup[OF same])
  have ticked: "version_bytes (tick (tick d)) = version_bytes d" by (rule version_bytes_same[OF same])
  have step: "add_file_sizes E i (v # vs) acc d = add_file_sizes E i vs (acc + seg_size s) (tick (tick d))"
    using calm s by (simp add: path_exists_def file_size_def)
  have "acc + sum_list (map (version_bytes d i) (v # vs)) = acc + seg_size s + sum_list (map (version_bytes d i) vs)"
    using s by (simp add: version_bytes_def add.assoc)
  then have "add_file_sizes E i (v # vs) acc d = (Some (acc + sum_list (map (version_bytes d i) (v # vs))), d')"
    unfolding step d'(1) ticked by (simp only:)
  then show ?case using same_disk_trans[OF same d'(2)] by blast
qed simp

lemma estimate_calm:
  assumes calm: "\<forall>n. \<not> fails E n" and srv: "serving E db i" and same: "same_disk (db_disk db) d"
  shows "\<exists>d'. estimate_memory_usage E db i d
      = (Some (sum_list (map (version_bytes (db_disk db) i) (vc_versions (db_catalogs db i)))), d') \<and> same_disk d d'"
proof -
  let ?c = "db_catalogs db i"
  have inv: "catalog_inv ?c" "vc_versions ?c \<noteq> []" "db_current_versions db i = catalog_active ?c" "db_mapped db i"
    using srv by (simp_all add: serving_def container_inv_def)
  have present: "\<exists>s. lookup_file (db_disk db) (data_path i v) = Some (Segment s)" if "v \<in> set (vc_versions ?c)" for v
    using serving_generation_ok[OF srv that] by (auto simp: generation_ok_def)
  obtain s where s: "lookup_file (db_disk db) (data_path i (catalog_active ?c)) = Some (Segment s)"
    using present catalog_partition[OF inv(1,2)] by blast
  have below: "\<forall>v \<in> set (catalog_below ?c (catalog_active ?c)). \<exists>s. lookup_file d (data_path i v) = Some (Segment s)"
    using present catalog_partition[OF inv(1,2)] by (auto simp: same_disk_lookup[OF same])
  obtain d' where d': "add_file_sizes E i (catalog_below ?c (catalog_active ?c)) (seg_size s) d
      = (Some (seg_size s + sum_list (map (version_bytes (db_disk db) i) (catalog_below ?c (catalog_active ?c)))), d')"
      "same_disk d d'"
    using add_file_sizes_calm[OF calm below] by (auto simp: version_bytes_same[OF same])
  have active: "version_bytes (db_disk db) i (catalog_active ?c) = seg_size s"
    using s by (simp add: version_bytes_def)
  have "catalog_active ?c \<notin> set (catalog_below ?c (catalog_active ?c))"
    by (simp add: catalog_below_set[OF inv(1)])
  then have "distinct (catalog_active ?c # catalog_below ?c (catalog_active ?c))"
    by (simp add: catalog_below_distinct[OF inv(1)])
  moreover have "distinct (vc_versions ?c)" using inv(1) by (simp add: catalog_inv_def)
  moreover have "set (catalog_active ?c # catalog_below ?c (catalog_active ?c)) = set (vc_versions ?c)"
    using catalog_partition[OF inv(1,2)] by simp
  ultimately have "sum_list (map f (catalog_active ?c # catalog_below ?c (catalog_active ?c)))
      = sum_list (map f (vc_versions ?c))" for f :: "u64 \<Rightarrow> u64"
    by (metis sum_list_distinct_conv_sum_set)
  from this[of "version_bytes (db_disk db) i"]
  have "seg_size s + sum_list (map (version_bytes (db_disk db) i) (catalog_below ?c (catalog_active ?c)))
      = sum_list (map (version_bytes (db_disk db) i) (vc_versions ?c))"
    using active by simp
  then show ?thesis
    using d' s inv(3,4) by (simp add: estimate_memory_usage_def mapped_segment_def)
qed

lemma estimate_all_calm:
  assumes calm: "\<forall>n. \<not> fails E n" and "\<forall>i \<in> set is. serving E db i" and "same_disk (db_disk db) d"
  shows "\<exists>d'. estimate_all E db is d
      = (Some (map (\<lambda>i. sum_list (map (version_bytes (db_disk db) i) (vc_versions (db_catalogs db i)))) is), d')
    \<and> same_disk d d'"
  using assms(2,3)
proof (induction "is" arbitrary: d)
  case (Cons i "is")
  obtain d1 where d1: "estimate_memory_usage E db i d
      = (Some (sum_list (map (version_bytes (db_disk db) i) (vc_versions (db_catalogs db i)))), d1)" "same_disk d d1"
    using estimate_calm[OF calm _ Cons.prems(2), of i] Cons.prems(1) by auto
  have same: "same_disk (db_disk db) d1" by (rule same_disk_trans[OF Cons.prems(2) d1(2)])
  then show ?case
    using Cons.IH[OF _ same] Cons.prems(1) d1 same_disk_trans[OF d1(2)] by fastforce
qed simp

section \<open>Property\<close>

lemma statistics_spec:
  assumes inv: "store_inv E db" and mode: "db_mode db = Full_mode" and calm: "\<forall>n. \<not> fails E n"
    and classes: "\<forall>e \<in> set (counted_events es). event_class e < container_count"
  shows "\<exists>r f' d'. full_statistics E G db (fold report_step es reset_all_statistics) st f = (Some r, f', db\<lparr>db_disk := d'\<rparr>)
    \<and> same_disk (db_disk db) d'
    \<and> ds_total_inserts r = word_of_nat (length (filter (\<lambda>e. inserted_size e \<noteq> None) (counted_events es)))
    \<and> ds_total_deletes r = word_of_nat (length (filter (\<lambda>e. inserted_size e = None) (counted_events es)))
    \<and> lifetime_of (spent_ages es) (ds_lifetime r) \<and> deferred_of (batches es) (ds_deferred r)
    \<and> ds_memory_usage_per_container r
        = map (\<lambda>i. \<Sum>v \<leftarrow> vc_versions (db_catalogs db i). version_bytes (db_disk db) i v) full_indices
    \<and> ds_rotations_per_container r = map (db_current_versions db) full_indices
    \<and> ds_lookups r = full_lookup_telemetry st"
proof -
  let ?s = "fold report_step es reset_all_statistics"
  have "\<forall>e \<in> set es. \<forall>c. counted_event e = Some c \<longrightarrow> event_class c < container_count"
    using classes by (auto simp: counted_events_def map_filter_def)
  then have rep: "reported es ?s" using reported_run[OF reported_start] by simp
  then have c: "counted (counted_events es) ?s" by (simp add: reported_def)
  have "\<forall>i \<in> set full_indices. serving E db i" using inv mode by (simp add: store_inv_def indices_of_def)
  then obtain d' where d': "estimate_all E db full_indices (db_disk db)
      = (Some (map (\<lambda>i. \<Sum>v \<leftarrow> vc_versions (db_catalogs db i). version_bytes (db_disk db) i v) full_indices), d')"
      "same_disk (db_disk db) d'"
    using estimate_all_calm[OF calm, of full_indices db "db_disk db"] by auto
  obtain r where run: "full_statistics E G db ?s st f
      = (Some r, update_fragmentation_stats G db f, db\<lparr>db_disk := d'\<rparr>)"
    and r: "ds_total_inserts r = fold (\<lambda>i n. n + st_total_inserts (ss_containers ?s ! i)) [0 ..< container_count] 0"
      "ds_total_deletes r = fold (\<lambda>i n. n + st_total_deletes (ss_containers ?s ! i)) [0 ..< container_count] 0"
      "ds_memory_usage_per_container r
        = map (\<lambda>i. \<Sum>v \<leftarrow> vc_versions (db_catalogs db i). version_bytes (db_disk db) i v) full_indices"
      "ds_rotations_per_container r = map (db_current_versions db) full_indices"
      "ds_lookups r = full_lookup_telemetry st" "ds_lifetime r = ss_lifetime ?s" "ds_deferred r = ss_deferred ?s"
    by (simp add: full_statistics_def Let_def d'(1) common_statistics_def)
  show ?thesis
    using rep d'(2) run r counted_totals[OF c classes] unfolding reported_def
    by (intro exI[of _ r] exI[of _ "update_fragmentation_stats G db f"] exI[of _ d']) (simp only: simp_thms)
qed



end
