(* ===== verification/Json.thy ===== *)
theory Json
  imports Types
begin

text \<open>
  JSON (RFC 8259) over byte strings: documents, the texts that denote them as a grammar, a reader, and
  the pieces of text the reports of the library are written with. The grammar is what the standard says
  and is not code of the library; the reader is proved to read every text of the grammar, so a text
  denotes one document. \<open>json_string\<close> is the escaping of \<open>src/census.cpp\<close> and of \<open>tools/sizing.cpp\<close>.
\<close>

section \<open>Characters\<close>

definition dq :: char where "dq = CHR 0x22"
definition backslash :: char where "backslash = CHR 0x5C"
definition nl :: string where "nl = [CHR 0x0A]"

definition is_ws :: "char \<Rightarrow> bool" where
  "is_ws c \<longleftrightarrow> c = CHR 0x20 \<or> c = CHR 0x09 \<or> c = CHR 0x0A \<or> c = CHR 0x0D"

definition is_word :: "char \<Rightarrow> bool" where
  "is_word c \<longleftrightarrow> is_digit c \<or> c = CHR ''.'' \<or> 97 \<le> (of_char c :: nat) \<and> (of_char c :: nat) \<le> 122"

abbreviation ws :: "string \<Rightarrow> bool" where
  "ws w \<equiv> list_all is_ws w"

definition quoted :: "string \<Rightarrow> string" where
  "quoted s = dq # s @ [dq]"

section \<open>Strings\<close>

text \<open>One escaped character: \<open>default:\<close> writes \<open>{:04x}\<close> of a control character.\<close>

definition escape_char :: "char \<Rightarrow> string" where
  "escape_char c =
    (if c = dq then [backslash, dq]
     else if c = backslash then [backslash, backslash]
     else if c = CHR 0x0A then [backslash, CHR ''n'']
     else if c = CHR 0x0D then [backslash, CHR ''r'']
     else if c = CHR 0x09 then [backslash, CHR ''t'']
     else if (of_char c :: nat) < 32
     then backslash # ''u00'' @ [hex_digit (of_char c div 16), hex_digit (of_char c mod 16)]
     else [c])"

definition escaped :: "string \<Rightarrow> string" where
  "escaped s = concat (map escape_char s)"

definition json_string :: "string \<Rightarrow> string" where
  "json_string s = quoted (escaped s)"

definition hex_value :: "char \<Rightarrow> nat option" where
  "hex_value c =
    (let n = of_char c
     in if 48 \<le> n \<and> n \<le> 57 then Some (n - 48) else if 97 \<le> n \<and> n \<le> 102 then Some (n - 87)
        else if 65 \<le> n \<and> n \<le> 70 then Some (n - 55) else None)"

definition short_escape :: "char \<Rightarrow> char option" where
  "short_escape c =
    (if c = dq \<or> c = backslash \<or> c = CHR 0x2F then Some c
     else if c = CHR ''n'' then Some (CHR 0x0A) else if c = CHR ''r'' then Some (CHR 0x0D)
     else if c = CHR ''t'' then Some (CHR 0x09) else if c = CHR ''b'' then Some (CHR 0x08)
     else if c = CHR ''f'' then Some (CHR 0x0C) else None)"

text \<open>What stands between the quotes. A byte string has the characters up to \<open>u00ff\<close> only.\<close>

inductive string_text :: "string \<Rightarrow> string \<Rightarrow> bool" where
  string_end: "string_text [] []"
| string_plain: "c \<noteq> dq \<Longrightarrow> c \<noteq> backslash \<Longrightarrow> 32 \<le> (of_char c :: nat) \<Longrightarrow> string_text b s
    \<Longrightarrow> string_text (c # b) (c # s)"
| string_short: "short_escape e = Some c \<Longrightarrow> string_text b s \<Longrightarrow> string_text (backslash # e # b) (c # s)"
| string_unicode: "hex_value h = Some m \<Longrightarrow> hex_value k = Some n \<Longrightarrow> string_text b s
    \<Longrightarrow> string_text (backslash # ''u00'' @ h # k # b) (char_of (16 * m + n) # s)"

fun read_unicode :: "string \<Rightarrow> (char \<times> string) option" where
  "read_unicode (u # z # z' # h # k # t) =
    (if u = CHR ''u'' \<and> z = CHR ''0'' \<and> z' = CHR ''0''
     then (case (hex_value h, hex_value k) of
             (Some m, Some n) \<Rightarrow> Some (char_of (16 * m + n), t)
           | _ \<Rightarrow> None)
     else None)"
| "read_unicode _ = None"

definition read_escape :: "string \<Rightarrow> (char \<times> string) option" where
  "read_escape t =
    (case t of
       [] \<Rightarrow> None
     | e # t1 \<Rightarrow> (case short_escape e of Some x \<Rightarrow> Some (x, t1) | None \<Rightarrow> read_unicode t))"

lemma read_escape_shorter: "read_escape t = Some (x, t1) \<Longrightarrow> length t1 < length t"
  by (cases t rule: read_unicode.cases) (auto simp: read_escape_def split: option.splits if_splits)

function read_string :: "string \<Rightarrow> (string \<times> string) option" where
  "read_string [] = None"
| "read_string (c # t) =
    (if c = dq then Some ([], t)
     else if c = backslash
     then (case read_escape t of
             Some (x, t1) \<Rightarrow> map_option (\<lambda>(s, r). (x # s, r)) (read_string t1)
           | None \<Rightarrow> None)
     else if (of_char c :: nat) < 32 then None
     else map_option (\<lambda>(s, r). (c # s, r)) (read_string t))"
  by pat_completeness auto
termination by (relation "measure length") (auto dest: read_escape_shorter)

lemma read_string_text: "string_text b s \<Longrightarrow> read_string (b @ dq # r) = Some (s, r)"
proof (induction rule: string_text.induct)
  case (string_short e c b s)
  then show ?case by (simp add: dq_def backslash_def read_escape_def)
next
  case (string_unicode h m k n b s)
  then show ?case by (simp add: dq_def backslash_def short_escape_def read_escape_def)
qed (simp_all add: dq_def)

lemma hex_value_hex_digit: "n < 16 \<Longrightarrow> hex_value (hex_digit n) = Some n"
  by (auto simp: hex_value_def hex_digit_def Let_def)

lemma escape_char_text:
  assumes "string_text b s"
  shows "string_text (escape_char c @ b) (c # s)"
proof -
  consider (short) e where "escape_char c = [backslash, e]" "short_escape e = Some c"
    | (control) "escape_char c = backslash # ''u00'' @ [hex_digit (of_char c div 16), hex_digit (of_char c mod 16)]"
        "(of_char c :: nat) < 32"
    | (plain) "escape_char c = [c]" "c \<noteq> dq" "c \<noteq> backslash" "32 \<le> (of_char c :: nat)"
  proof (cases "c = dq \<or> c = backslash \<or> c = CHR 0x0A \<or> c = CHR 0x0D \<or> c = CHR 0x09")
    case True
    then have "\<exists>e. escape_char c = [backslash, e] \<and> short_escape e = Some c"
      by (elim disjE) (simp_all add: escape_char_def short_escape_def dq_def backslash_def)
    then show thesis using short by blast
  next
    case False
    then show thesis
      by (cases "(of_char c :: nat) < 32") (simp_all add: escape_char_def plain control)
  qed
  then show ?thesis
  proof cases
    case short
    then show ?thesis using string_short[OF short(2) assms] by simp
  next
    case control
    then have "hex_value (hex_digit (of_char c div 16)) = Some (of_char c div 16)"
      "hex_value (hex_digit (of_char c mod 16)) = Some (of_char c mod 16)"
      by (intro hex_value_hex_digit; simp)+
    from string_unicode[OF this assms] show ?thesis using control(1) by simp
  next
    case plain
    then show ?thesis using string_plain[OF plain(2-4) assms] by simp
  qed
qed

lemma escaped_text: "string_text (escaped s) s"
  by (induction s) (auto simp: escaped_def intro: string_end escape_char_text)

text \<open>A text without quotes, backslashes and control characters stands for itself.\<close>

definition plain :: "string \<Rightarrow> bool" where
  "plain s \<longleftrightarrow> list_all (\<lambda>c. c \<noteq> dq \<and> c \<noteq> backslash \<and> 32 \<le> (of_char c :: nat)) s"

lemma plain_text: "plain s \<Longrightarrow> string_text s s"
  by (induction s) (auto simp: plain_def intro: string_end string_plain)

lemma plain_append: "plain (s @ t) \<longleftrightarrow> plain s \<and> plain t"
  by (simp add: plain_def)

lemma escaped_plain: "plain s \<Longrightarrow> escaped s = s"
  by (induction s) (auto simp: plain_def escaped_def escape_char_def)

section \<open>Numbers\<close>

definition json_number :: "string \<Rightarrow> bool" where
  "json_number s \<longleftrightarrow>
    (let i = takeWhile is_digit s; f = dropWhile is_digit s
     in i \<noteq> [] \<and> (hd i \<noteq> CHR ''0'' \<or> i = ''0'')
        \<and> (f = [] \<or> hd f = CHR ''.'' \<and> tl f \<noteq> [] \<and> list_all is_digit (tl f)))"

lemma dec_no_leading_zero: "n \<noteq> 0 \<Longrightarrow> hd (dec n) \<noteq> CHR ''0''"
proof (induction n rule: dec.induct)
  case (1 n)
  show ?case
  proof (cases "n < 10")
    case True
    then have "digit_value (digit_char n) = n" by (simp add: digit_value_def digit_char_def)
    then show ?thesis using True 1(2) by (subst dec.simps) (auto simp: digit_value_def)
  next
    case False
    then have "hd (dec (n div 10)) \<noteq> CHR ''0''" by (intro 1(1)) auto
    then show ?thesis using False by (subst dec.simps) simp
  qed
qed

lemma dec_number: "json_number (dec n)"
proof -
  have all: "\<forall>c \<in> set (dec n). is_digit c" using dec_digits[of n] by (simp add: list_all_iff)
  then have whole: "takeWhile is_digit (dec n) = dec n" by (simp add: takeWhile_eq_all_conv)
  have "dec 0 = ''0''" by (subst dec.simps) (simp add: digit_char_def, code_simp)
  then have "hd (dec n) \<noteq> CHR ''0'' \<or> dec n = ''0''"
    using dec_no_leading_zero[of n] by (cases "n = 0") auto
  then show ?thesis unfolding json_number_def Let_def whole using all by auto
qed

lemma json_number_words: "json_number s \<Longrightarrow> list_all is_word s"
proof -
  assume num: "json_number s"
  have "list_all is_word (takeWhile is_digit s)"
    by (auto simp: list_all_iff is_word_def dest: set_takeWhileD)
  moreover have "list_all is_word (dropWhile is_digit s)"
  proof (cases "dropWhile is_digit s")
    case (Cons x xs)
    then have "x = CHR ''.''" "list_all is_digit xs" using num by (simp_all add: json_number_def Let_def)
    then show ?thesis unfolding Cons by (auto simp: list_all_iff is_word_def)
  next
    case Nil
    show ?thesis unfolding Nil by simp
  qed
  ultimately show ?thesis
    by (metis list_all_append takeWhile_dropWhile_id)
qed

lemma json_number_starts: "json_number s \<Longrightarrow> s \<noteq> [] \<and> is_digit (hd s)"
  by (cases s) (auto simp: json_number_def Let_def split: if_splits)

section \<open>Documents and the texts that denote them\<close>

datatype json =
    JNull
  | JBool bool
  | JNum string
  | JStr string
  | JArr "json list"
  | JObj "(string \<times> json) list"

inductive value_text :: "string \<Rightarrow> json \<Rightarrow> bool"
  and element_text :: "string \<Rightarrow> json \<Rightarrow> bool"
  and elements_text :: "string \<Rightarrow> json list \<Rightarrow> bool"
  and members_text :: "string \<Rightarrow> (string \<times> json) list \<Rightarrow> bool" where
  value_null: "value_text ''null'' JNull"
| value_true: "value_text ''true'' (JBool True)"
| value_false: "value_text ''false'' (JBool False)"
| value_number: "json_number s \<Longrightarrow> value_text s (JNum s)"
| value_string: "string_text b s \<Longrightarrow> value_text (quoted b) (JStr s)"
| value_no_elements: "ws w \<Longrightarrow> value_text (''['' @ w @ '']'') (JArr [])"
| value_array: "elements_text b js \<Longrightarrow> value_text (''['' @ b @ '']'') (JArr js)"
| value_no_members: "ws w \<Longrightarrow> value_text (''{'' @ w @ ''}'') (JObj [])"
| value_object: "members_text b ms \<Longrightarrow> value_text (''{'' @ b @ ''}'') (JObj ms)"
| element: "ws w \<Longrightarrow> value_text v j \<Longrightarrow> ws w' \<Longrightarrow> element_text (w @ v @ w') j"
| elements_one: "element_text e j \<Longrightarrow> elements_text e [j]"
| elements_more: "element_text e j \<Longrightarrow> elements_text b js \<Longrightarrow> elements_text (e @ '','' @ b) (j # js)"
| members_one: "ws w \<Longrightarrow> string_text b k \<Longrightarrow> ws w' \<Longrightarrow> element_text e j
    \<Longrightarrow> members_text (w @ quoted b @ w' @ '':'' @ e) [(k, j)]"
| members_more: "ws w \<Longrightarrow> string_text b k \<Longrightarrow> ws w' \<Longrightarrow> element_text e j \<Longrightarrow> members_text c ms
    \<Longrightarrow> members_text (w @ quoted b @ w' @ '':'' @ e @ '','' @ c) ((k, j) # ms)"

abbreviation json_text :: "string \<Rightarrow> json \<Rightarrow> bool" where
  "json_text \<equiv> element_text"

section \<open>The reader\<close>

abbreviation skip_ws :: "string \<Rightarrow> string" where
  "skip_ws \<equiv> dropWhile is_ws"

definition read_word :: "string \<Rightarrow> (json \<times> string) option" where
  "read_word s =
    (let w = takeWhile is_word s; r = dropWhile is_word s
     in if w = ''null'' then Some (JNull, r)
        else if w = ''true'' then Some (JBool True, r)
        else if w = ''false'' then Some (JBool False, r)
        else if json_number w then Some (JNum w, r) else None)"

text \<open>Each nested call spends one unit of fuel; the length of the text is enough.\<close>

fun read_value :: "nat \<Rightarrow> string \<Rightarrow> (json \<times> string) option"
  and read_elements :: "nat \<Rightarrow> string \<Rightarrow> (json list \<times> string) option"
  and read_members :: "nat \<Rightarrow> string \<Rightarrow> ((string \<times> json) list \<times> string) option" where
  "read_value 0 s = None"
| "read_value (Suc n) s =
    (case skip_ws s of
       [] \<Rightarrow> None
     | c # t \<Rightarrow>
       if c = dq then map_option (\<lambda>(x, r). (JStr x, r)) (read_string t)
       else if c = CHR ''[''
       then (if skip_ws t \<noteq> [] \<and> hd (skip_ws t) = CHR '']'' then Some (JArr [], tl (skip_ws t))
             else map_option (\<lambda>(js, r). (JArr js, r)) (read_elements n t))
       else if c = CHR ''{''
       then (if skip_ws t \<noteq> [] \<and> hd (skip_ws t) = CHR ''}'' then Some (JObj [], tl (skip_ws t))
             else map_option (\<lambda>(ms, r). (JObj ms, r)) (read_members n t))
       else read_word (c # t))"
| "read_elements 0 s = None"
| "read_elements (Suc n) s =
    (case read_value n s of
       None \<Rightarrow> None
     | Some (j, t) \<Rightarrow>
       (case skip_ws t of
          [] \<Rightarrow> None
        | c # t' \<Rightarrow>
          if c = CHR '','' then map_option (\<lambda>(js, r). (j # js, r)) (read_elements n t')
          else if c = CHR '']'' then Some ([j], t') else None))"
| "read_members 0 s = None"
| "read_members (Suc n) s =
    (case skip_ws s of
       [] \<Rightarrow> None
     | q # s' \<Rightarrow>
       if q \<noteq> dq then None
       else
         (case read_string s' of
            None \<Rightarrow> None
          | Some (k, t) \<Rightarrow>
            (case skip_ws t of
               [] \<Rightarrow> None
             | colon # t' \<Rightarrow>
               if colon \<noteq> CHR '':'' then None
               else
                 (case read_value n t' of
                    None \<Rightarrow> None
                  | Some (j, u) \<Rightarrow>
                    (case skip_ws u of
                       [] \<Rightarrow> None
                     | c # u' \<Rightarrow>
                       if c = CHR '','' then map_option (\<lambda>(ms, r). ((k, j) # ms, r)) (read_members n u')
                       else if c = CHR ''}'' then Some ([(k, j)], u') else None)))))"

definition read_json :: "string \<Rightarrow> json option" where
  "read_json s =
    (case read_value (length s) s of
       Some (j, r) \<Rightarrow> if skip_ws r = [] then Some j else None
     | None \<Rightarrow> None)"

text \<open>What may follow a word.\<close>

definition stops :: "string \<Rightarrow> bool" where
  "stops r \<longleftrightarrow> r = [] \<or> \<not> is_word (hd r)"

lemma stops_ws: "ws w \<Longrightarrow> stops r \<Longrightarrow> stops (w @ r)"
  by (cases w) (auto simp: stops_def is_ws_def is_word_def is_digit_def)

lemma skip_ws_append: "ws w \<Longrightarrow> skip_ws (w @ r) = skip_ws r"
  by (induction w) auto

lemma read_word_stops:
  assumes "list_all is_word w" "stops r"
  shows "takeWhile is_word (w @ r) = w" "dropWhile is_word (w @ r) = r"
proof -
  have "takeWhile is_word r = []" "dropWhile is_word r = r"
    using assms(2) by (cases r; simp add: stops_def)+
  then show "takeWhile is_word (w @ r) = w" "dropWhile is_word (w @ r) = r"
    using assms(1) by (simp_all add: takeWhile_append dropWhile_append list_all_iff)
qed

text \<open>Where a text starts.\<close>

definition opens :: "string \<Rightarrow> bool" where
  "opens b \<longleftrightarrow> skip_ws b \<noteq> [] \<and> hd (skip_ws b) \<noteq> CHR '']'' \<and> hd (skip_ws b) \<noteq> CHR ''}''"

lemma opens_append: "opens b \<Longrightarrow> opens (b @ r)"
  unfolding opens_def by (induction b) auto

lemma opens_ws: "ws w \<Longrightarrow> opens b \<Longrightarrow> opens (w @ b)"
  by (simp add: opens_def skip_ws_append)

lemma opens_quoted: "opens (quoted b @ r)"
  by (simp add: opens_def quoted_def dq_def is_ws_def)

lemma opens_number: "json_number s \<Longrightarrow> opens s"
proof -
  assume "json_number s"
  then obtain c t where s: "s = c # t" and digit: "is_digit c"
    using json_number_starts[of s] by (cases s) auto
  then have "\<not> is_ws c" "c \<noteq> CHR '']''" "c \<noteq> CHR ''}''" by (auto simp: is_ws_def is_digit_def)
  then show "opens s" by (simp add: opens_def s)
qed

lemma text_opens:
  "value_text v j \<Longrightarrow> opens v"
  "element_text e j \<Longrightarrow> opens e"
  "elements_text b js \<Longrightarrow> opens b"
  "members_text c ms \<Longrightarrow> opens c"
proof (induction rule: value_text_element_text_elements_text_members_text.inducts)
  case (value_number s)
  then show ?case by (rule opens_number)
next
  case (value_string b s)
  then show ?case using opens_quoted[of b "[]"] by simp
qed (auto simp: opens_append opens_ws opens_quoted, simp_all add: opens_def is_ws_def)

lemma text_not_Nil: "value_text v j \<Longrightarrow> v \<noteq> []"
  using text_opens(1)[of v j] by (auto simp: opens_def)

lemma read_value_word:
  assumes "list_all is_word v" "v \<noteq> []" "read_word (v @ r) = Some (j, r)" "ws w"
  shows "read_value (Suc n) (w @ v @ r) = Some (j, r)"
proof -
  obtain c t where v: "v = c # t" and word: "is_word c" using assms(1,2) by (cases v) auto
  then have "\<not> is_ws c" "c \<noteq> dq" "c \<noteq> CHR ''[''" "c \<noteq> CHR ''{''"
    by (auto simp: is_ws_def is_word_def is_digit_def dq_def)
  then show ?thesis using assms(3,4) by (simp add: v skip_ws_append)
qed

lemma read_word_literal:
  "stops r \<Longrightarrow> read_word (''null'' @ r) = Some (JNull, r)"
  "stops r \<Longrightarrow> read_word (''true'' @ r) = Some (JBool True, r)"
  "stops r \<Longrightarrow> read_word (''false'' @ r) = Some (JBool False, r)"
  using read_word_stops[of "''null''" r] read_word_stops[of "''true''" r] read_word_stops[of "''false''" r]
  by (simp_all add: read_word_def is_word_def is_digit_def)

lemma read_word_number:
  assumes num: "json_number s" and r: "stops r"
  shows "read_word (s @ r) = Some (JNum s, r)"
proof -
  have "is_digit (hd s)" using json_number_starts[OF num] by simp
  then have "s \<noteq> ''null''" "s \<noteq> ''true''" "s \<noteq> ''false''" by (auto simp: is_digit_def)
  then show ?thesis
    using read_word_stops[OF json_number_words[OF num] r] num by (simp add: read_word_def)
qed

section \<open>Every text is read\<close>

definition reads_value :: "string \<Rightarrow> json \<Rightarrow> bool" where
  "reads_value v j \<longleftrightarrow>
    (\<forall>n w r. length v \<le> n \<longrightarrow> ws w \<longrightarrow> stops r \<longrightarrow> read_value n (w @ v @ r) = Some (j, r))"

definition reads_element :: "string \<Rightarrow> json \<Rightarrow> bool" where
  "reads_element e j \<longleftrightarrow>
    (\<forall>n r. length e \<le> n \<longrightarrow> stops r \<longrightarrow> (\<exists>t. read_value n (e @ r) = Some (j, t) \<and> skip_ws t = skip_ws r))"

definition reads_elements :: "string \<Rightarrow> json list \<Rightarrow> bool" where
  "reads_elements b js \<longleftrightarrow> (\<forall>n r. length b < n \<longrightarrow> read_elements n (b @ '']'' @ r) = Some (js, r))"

definition reads_members :: "string \<Rightarrow> (string \<times> json) list \<Rightarrow> bool" where
  "reads_members b ms \<longleftrightarrow> (\<forall>n r. length b < n \<longrightarrow> read_members n (b @ ''}'' @ r) = Some (ms, r))"

lemma reads_valueI:
  assumes "v \<noteq> []" "\<And>n w r. length v \<le> Suc n \<Longrightarrow> ws w \<Longrightarrow> stops r \<Longrightarrow> read_value (Suc n) (w @ v @ r) = Some (j, r)"
  shows "reads_value v j"
  unfolding reads_value_def
proof (intro allI impI)
  fix n w r
  assume len: "length v \<le> n" and "ws w" "stops r"
  from len \<open>v \<noteq> []\<close> obtain m where "n = Suc m" by (cases n) auto
  then show "read_value n (w @ v @ r) = Some (j, r)" using assms(2) len \<open>ws w\<close> \<open>stops r\<close> by simp
qed

lemma reads_word:
  assumes "list_all is_word v" "v \<noteq> []" "\<And>r. stops r \<Longrightarrow> read_word (v @ r) = Some (j, r)"
  shows "reads_value v j"
  by (rule reads_valueI[OF assms(2)]) (rule read_value_word[OF assms(1,2) assms(3)])

lemma stops_close: "stops ('']'' @ r)" "stops (''}'' @ r)" "stops ('','' @ r)"
  by (simp_all add: stops_def is_word_def is_digit_def)

lemma reads_array:
  assumes reads: "reads_elements b js" and b: "opens b"
  shows "reads_value (''['' @ b @ '']'') (JArr js)"
proof (rule reads_valueI)
  fix n w r
  assume len: "length (''['' @ b @ '']'') \<le> Suc n" and w: "ws w" and r: "stops r"
  have inner: "skip_ws (b @ '']'' @ r) \<noteq> []" "hd (skip_ws (b @ '']'' @ r)) \<noteq> CHR '']''"
    using opens_append[OF b, of "'']'' @ r"] unfolding opens_def by blast+
  have "read_elements n (b @ '']'' @ r) = Some (js, r)" using reads len by (simp add: reads_elements_def)
  then show "read_value (Suc n) (w @ (''['' @ b @ '']'') @ r) = Some (JArr js, r)"
    using w inner by (simp add: skip_ws_append is_ws_def dq_def)
qed simp

lemma reads_object:
  assumes reads: "reads_members b ms" and b: "opens b"
  shows "reads_value (''{'' @ b @ ''}'') (JObj ms)"
proof (rule reads_valueI)
  fix n w r
  assume len: "length (''{'' @ b @ ''}'') \<le> Suc n" and w: "ws w" and r: "stops r"
  have inner: "skip_ws (b @ ''}'' @ r) \<noteq> []" "hd (skip_ws (b @ ''}'' @ r)) \<noteq> CHR ''}''"
    using opens_append[OF b, of "''}'' @ r"] unfolding opens_def by blast+
  have "read_members n (b @ ''}'' @ r) = Some (ms, r)" using reads len by (simp add: reads_members_def)
  then show "read_value (Suc n) (w @ (''{'' @ b @ ''}'') @ r) = Some (JObj ms, r)"
    using w inner by (simp add: skip_ws_append is_ws_def dq_def)
qed simp

lemma reads_nothing:
  assumes "ws u"
  shows "reads_value (''['' @ u @ '']'') (JArr [])" "reads_value (''{'' @ u @ ''}'') (JObj [])"
proof -
  have inner: "skip_ws (u @ '']'' @ r) = '']'' @ r" "skip_ws (u @ ''}'' @ r) = ''}'' @ r" for r
    using assms by (simp_all add: skip_ws_append is_ws_def)
  show "reads_value (''['' @ u @ '']'') (JArr [])"
    by (rule reads_valueI) (use inner in \<open>simp_all add: skip_ws_append is_ws_def dq_def\<close>)
  show "reads_value (''{'' @ u @ ''}'') (JObj [])"
    by (rule reads_valueI) (use inner in \<open>simp_all add: skip_ws_append is_ws_def dq_def\<close>)
qed

lemma reads_member:
  assumes w: "ws w" and b: "string_text b k" and w': "ws w'" and e: "reads_element e j"
    and len: "length e \<le> n" and r: "stops r"
    and after: "skip_ws r = c # u" and c: "c = CHR '','' \<or> c = CHR ''}''"
  shows "read_members (Suc n) (w @ quoted b @ w' @ '':'' @ e @ r) =
    (if c = CHR '','' then map_option (\<lambda>(ms, r). ((k, j) # ms, r)) (read_members n u) else Some ([(k, j)], u))"
proof -
  obtain t where t: "read_value n (e @ r) = Some (j, t)" "skip_ws t = c # u"
    using e[unfolded reads_element_def, rule_format, OF len r] after by auto
  have key: "skip_ws (w @ quoted b @ w' @ '':'' @ e @ r) = dq # b @ dq # w' @ '':'' @ e @ r"
    using w by (simp add: skip_ws_append quoted_def dq_def is_ws_def)
  have colon: "skip_ws (w' @ '':'' @ e @ r) = CHR '':'' # e @ r"
    using w' by (simp add: skip_ws_append is_ws_def)
  show ?thesis
    using read_string_text[OF b, of "w' @ '':'' @ e @ r"] t c by (auto simp: key[simplified] colon[simplified])
qed

lemma every_text_is_read:
  "value_text v j \<Longrightarrow> reads_value v j"
  "element_text e j \<Longrightarrow> reads_element e j"
  "elements_text b js \<Longrightarrow> reads_elements b js"
  "members_text c ms \<Longrightarrow> reads_members c ms"
proof (induction rule: value_text_element_text_elements_text_members_text.inducts)
  case value_null
  show ?case by (rule reads_word) (simp_all only: read_word_literal, simp_all add: is_word_def is_digit_def)
next
  case value_true
  show ?case by (rule reads_word) (simp_all only: read_word_literal, simp_all add: is_word_def is_digit_def)
next
  case value_false
  show ?case by (rule reads_word) (simp_all only: read_word_literal, simp_all add: is_word_def is_digit_def)
next
  case (value_number s)
  then show ?case
    by (intro reads_word json_number_words read_word_number) (simp_all add: json_number_starts)
next
  case (value_string b s)
  show ?case
  proof (rule reads_valueI)
    fix n w r assume "ws w"
    then show "read_value (Suc n) (w @ quoted b @ r) = Some (JStr s, r)"
      using read_string_text[OF value_string, of r] by (simp add: skip_ws_append quoted_def dq_def is_ws_def)
  qed (simp add: quoted_def)
next
  case (value_array b js)
  then show ?case by (intro reads_array text_opens(3))
next
  case (value_object b ms)
  then show ?case by (intro reads_object text_opens(4))
next
  case (element w v j w')
  show ?case unfolding reads_element_def
  proof (intro allI impI)
    fix n r assume len: "length (w @ v @ w') \<le> n" and r: "stops r"
    have "read_value n (w @ v @ w' @ r) = Some (j, w' @ r)"
      using element.IH element.hyps(1) len stops_ws[OF element.hyps(3) r] by (simp add: reads_value_def)
    then show "\<exists>t. read_value n ((w @ v @ w') @ r) = Some (j, t) \<and> skip_ws t = skip_ws r"
      using element.hyps(3) by (simp add: skip_ws_append)
  qed
next
  case (elements_one e j)
  show ?case unfolding reads_elements_def
  proof (intro allI impI)
    fix n r assume "length e < n"
    then obtain m where n: "n = Suc m" "length e \<le> m" by (cases n) auto
    have "\<exists>t. read_value m (e @ '']'' @ r) = Some (j, t) \<and> skip_ws t = skip_ws ('']'' @ r)"
      using elements_one.IH n(2) stops_close(1) by (simp only: reads_element_def)
    then show "read_elements n (e @ '']'' @ r) = Some ([j], r)" by (auto simp: n is_ws_def)
  qed
next
  case (elements_more e j b js)
  show ?case unfolding reads_elements_def
  proof (intro allI impI)
    fix n r assume "length (e @ '','' @ b) < n"
    then obtain m where n: "n = Suc m" "length e \<le> m" "length b < m" by (cases n) auto
    have "\<exists>t. read_value m (e @ '','' @ b @ '']'' @ r) = Some (j, t)
        \<and> skip_ws t = skip_ws ('','' @ b @ '']'' @ r)"
      using elements_more.IH(1) n(2) stops_close(3) by (simp only: reads_element_def)
    moreover have "read_elements m (b @ '']'' @ r) = Some (js, r)"
      using elements_more.IH(2) n(3) by (simp only: reads_elements_def)
    ultimately show "read_elements n ((e @ '','' @ b) @ '']'' @ r) = Some (j # js, r)"
      by (auto simp: n is_ws_def)
  qed
next
  case (members_one w b k w' e j)
  show ?case unfolding reads_members_def
  proof (intro allI impI)
    fix n r assume "length (w @ quoted b @ w' @ '':'' @ e) < n"
    then obtain m where n: "n = Suc m" "length e \<le> m" by (cases n) auto
    have close: "skip_ws (''}'' @ r) = CHR ''}'' # r" by (simp add: is_ws_def)
    show "read_members n ((w @ quoted b @ w' @ '':'' @ e) @ ''}'' @ r) = Some ([(k, j)], r)"
      using reads_member[OF members_one.hyps(1-3) members_one.IH n(2) stops_close(2)[of r] close]
      by (simp add: n)
  qed
next
  case (members_more w b k w' e j c ms)
  show ?case unfolding reads_members_def
  proof (intro allI impI)
    fix n r assume "length (w @ quoted b @ w' @ '':'' @ e @ '','' @ c) < n"
    then obtain m where n: "n = Suc m" "length e \<le> m" "length c < m" by (cases n) auto
    have comma: "skip_ws ('','' @ c @ ''}'' @ r) = CHR '','' # c @ ''}'' @ r" by (simp add: is_ws_def)
    have "read_members m (c @ ''}'' @ r) = Some (ms, r)"
      using members_more.IH(2) n(3) by (simp only: reads_members_def)
    then show "read_members n ((w @ quoted b @ w' @ '':'' @ e @ '','' @ c) @ ''}'' @ r) = Some ((k, j) # ms, r)"
      using reads_member[OF members_more.hyps(1-3) members_more.IH(1) n(2) stops_close(3)[of "c @ ''}'' @ r"] comma]
      by (simp add: n)
  qed
qed (simp_all only: reads_nothing)

lemma read_json_text: "json_text s j \<Longrightarrow> read_json s = Some j"
proof -
  assume "json_text s j"
  from every_text_is_read(2)[OF this, unfolded reads_element_def, rule_format, of "length s" "[]"]
  show "read_json s = Some j" by (auto simp: read_json_def stops_def)
qed

lemma json_text_unique: "json_text s j \<Longrightarrow> json_text s k \<Longrightarrow> j = k"
  by (drule read_json_text)+ simp

section \<open>Writing\<close>

text \<open>
  The pieces the writers are made of, as their format strings spell them: a member that is followed by
  another one on its line, the last one of its line, one on a line of its own, and the last line.
\<close>

definition member :: "string \<Rightarrow> string \<Rightarrow> string" where
  "member k v = quoted k @ '': '' @ v"

definition item :: "string \<Rightarrow> string \<Rightarrow> string" where
  "item k v = member k v @ '', ''"

definition line :: "string \<Rightarrow> string \<Rightarrow> string" where
  "line k v = ''  '' @ member k v @ '','' @ nl"

definition last_line :: "string \<Rightarrow> string \<Rightarrow> string" where
  "last_line k v = ''  '' @ member k v @ nl"

definition inline_object :: "string \<Rightarrow> string" where
  "inline_object b = ''{'' @ b @ ''}''"

text \<open>The whole: an object whose members have lines of their own.\<close>

definition json_document :: "string \<Rightarrow> string" where
  "json_document b = ''{'' @ nl @ b @ ''}'' @ nl"

text \<open>A member that is followed by one on the next line, four columns in.\<close>

definition item_break :: "string \<Rightarrow> string \<Rightarrow> string" where
  "item_break k v = member k v @ '','' @ nl @ ''    ''"

definition bool_text :: "bool \<Rightarrow> string" where
  "bool_text b = (if b then ''true'' else ''false'')"

text \<open>\<open>out += f(x); out += (i + 1 < n) ? separator : ""\<close>.\<close>

fun separated :: "string \<Rightarrow> string list \<Rightarrow> string" where
  "separated sep [] = []"
| "separated sep [x] = x"
| "separated sep (x # y # xs) = x @ sep @ separated sep (y # xs)"

lemma ws_simps: "ws []" "ws nl" "ws ''  ''" "ws '' ''" "ws ''    ''" "ws ''     ''" "ws ''      ''"
  by (simp_all add: nl_def is_ws_def)

lemma value_element: "value_text v j \<Longrightarrow> element_text v j"
  using element[of "[]" v j "[]"] by simp

inductive_cases element_textE: "element_text e j"

lemma element_ws:
  assumes "ws w" "element_text e j"
  shows "element_text (w @ e) j" "element_text (e @ w) j"
proof -
  from assms(2) obtain u v u' where e: "e = u @ v @ u'" "ws u" "value_text v j" "ws u'"
    by (rule element_textE)
  show "element_text (w @ e) j" using element[of "w @ u" v j u'] e assms(1) by simp
  show "element_text (e @ w) j" using element[of u v j "u' @ w"] e assms(1) by simp
qed

lemma elements_ws:
  assumes w: "ws w" and "elements_text b js"
  shows "elements_text (w @ b) js"
  using assms(2)
proof (cases rule: elements_text.cases)
  case (elements_one j)
  then show ?thesis
    using element_ws(1)[OF w] by (simp add: value_text_element_text_elements_text_members_text.elements_one)
next
  case (elements_more e j c ks)
  then show ?thesis
    using element_ws(1)[OF w, of e j]
      value_text_element_text_elements_text_members_text.elements_more[of "w @ e" j c ks] by simp
qed

lemma elements_ws_right:
  assumes w: "ws w" and "elements_text b js"
  shows "elements_text (b @ w) js"
  using assms(2)
proof (induction b js rule: value_text_element_text_elements_text_members_text.inducts(3)
    [where ?P1.0 = "\<lambda>_ _. True" and ?P2.0 = "\<lambda>_ _. True" and ?P4.0 = "\<lambda>_ _. True"])
  case (elements_one e j)
  then show ?case
    using element_ws(2)[OF w] by (simp add: value_text_element_text_elements_text_members_text.elements_one)
next
  case (elements_more e j b js)
  then show ?case
    using value_text_element_text_elements_text_members_text.elements_more[OF elements_more.hyps(1) elements_more.IH]
    by simp
qed simp_all

lemma members_ws:
  assumes w: "ws w" and "members_text b ms"
  shows "members_text (w @ b) ms"
  using assms(2)
proof (cases rule: members_text.cases)
  case (members_one u d k u' e j)
  then show ?thesis
    using value_text_element_text_elements_text_members_text.members_one[of "w @ u" d k u' e j] w by simp
next
  case (members_more u d k u' e j c ns)
  then show ?thesis
    using value_text_element_text_elements_text_members_text.members_more[of "w @ u" d k u' e j c ns] w by simp
qed

lemma last_member:
  assumes k: "plain k" and e: "element_text e j"
  shows "members_text (member k e) [(k, j)]"
  using members_one[of "[]" k k "[]" "'' '' @ e" j] plain_text[OF k] element_ws(1)[OF ws_simps(4) e]
  by (simp add: member_def)

lemma item_members:
  assumes k: "plain k" and v: "value_text v j" and rest: "members_text r ms"
  shows "members_text (item k v @ r) ((k, j) # ms)"
  using members_more[of "[]" k k "[]" "'' '' @ v" j "'' '' @ r" ms] plain_text[OF k]
    element_ws(1)[OF ws_simps(4) value_element[OF v]] members_ws[OF ws_simps(4) rest]
  by (simp add: item_def member_def)

lemma item_break_members:
  assumes k: "plain k" and v: "value_text v j" and rest: "members_text r ms"
  shows "members_text (item_break k v @ r) ((k, j) # ms)"
  using members_more[of "[]" k k "[]" "'' '' @ v" j "nl @ ''    '' @ r" ms] plain_text[OF k]
    element_ws(1)[OF ws_simps(4) value_element[OF v]] members_ws[OF ws_simps(2) members_ws[OF ws_simps(5) rest]]
  by (simp add: item_break_def member_def)

lemma line_members:
  assumes k: "plain k" and v: "value_text v j" and rest: "members_text r ms"
  shows "members_text (line k v @ r) ((k, j) # ms)"
  using members_more[of "''  ''" k k "[]" "'' '' @ v" j "nl @ r" ms] plain_text[OF k]
    element_ws(1)[OF ws_simps(4) value_element[OF v]] members_ws[OF ws_simps(2) rest] ws_simps(3)
  by (simp add: line_def member_def)

lemma last_line_members:
  assumes k: "plain k" and v: "value_text v j"
  shows "members_text (last_line k v) [(k, j)]"
  using members_one[of "''  ''" k k "[]" "'' '' @ v @ nl" j] plain_text[OF k] ws_simps(3)
    element_ws(1)[OF ws_simps(4) element_ws(2)[OF ws_simps(2) value_element[OF v]]]
  by (simp add: last_line_def member_def)

lemma inline_object_value: "members_text b ms \<Longrightarrow> value_text (inline_object b) (JObj ms)"
  unfolding inline_object_def by (rule value_object)

lemma bool_value: "value_text (bool_text b) (JBool b)"
  using value_true value_false by (simp add: bool_text_def)

lemma dec_value: "value_text (dec n) (JNum (dec n))"
  by (rule value_number[OF dec_number])

lemma quoted_value: "plain s \<Longrightarrow> value_text (quoted s) (JStr s)"
  by (intro value_string plain_text)

lemma json_string_value: "value_text (json_string s) (JStr s)"
  unfolding json_string_def by (intro value_string escaped_text)

lemma separated_elements:
  assumes "list_all2 element_text xs js" "xs \<noteq> []" "sep = '','' @ w" "ws w"
  shows "elements_text (separated sep xs) js"
  using assms(1,2)
proof (induction xs arbitrary: js rule: induct_list012)
  case (2 x)
  then show ?case by (auto simp: list_all2_Cons1 intro: elements_one)
next
  case (3 x y xs)
  then obtain j ks where js: "js = j # ks" "element_text x j" "list_all2 element_text (y # xs) ks"
    by (auto simp: list_all2_Cons1)
  then have "elements_text (w @ separated sep (y # xs)) ks" using 3 assms(4) by (intro elements_ws) auto
  from elements_more[OF js(2) this] show ?case using assms(3) by (simp add: js(1))
qed simp

lemma separated_members:
  assumes "list_all (\<lambda>(k, v, j). plain k \<and> value_text v j) xs" "xs \<noteq> []"
  shows "members_text (separated '', '' (map (\<lambda>(k, v, j). member k v) xs)) (map (\<lambda>(k, v, j). (k, j)) xs)"
  using assms
proof (induction xs rule: induct_list012)
  case (2 x)
  then show ?case by (auto intro: last_member value_element)
next
  case (3 x y xs)
  obtain k v j where x: "x = (k, v, j)" by (cases x) auto
  with 3 have "members_text (item k v @ separated '', '' (map (\<lambda>(k, v, j). member k v) (y # xs)))
      ((k, j) # map (\<lambda>(k, v, j). (k, j)) (y # xs))"
    by (intro item_members) auto
  then show ?case by (simp add: x item_def)
qed simp

lemma array_value:
  assumes elements: "list_all2 element_text xs js" and sep: "sep = '','' @ w"
    and ws: "ws w" "ws u" "ws v" "ws x"
  shows "value_text (''['' @ u @ separated sep xs @ (if xs = [] then [] else v) @ x @ '']'') (JArr js)"
proof (cases "xs = []")
  case True
  then show ?thesis using value_no_elements[of "u @ x"] elements ws by simp
next
  case False
  have "elements_text (separated sep xs) js" using separated_elements[OF elements False sep ws(1)] .
  then have "elements_text (u @ separated sep xs @ v @ x) js"
    using elements_ws[OF ws(2)] elements_ws_right[of "v @ x"] ws(3,4) by simp
  then show ?thesis using value_array[of "u @ separated sep xs @ v @ x" js] False by simp
qed

lemma members_append:
  assumes "members_text c ms" "members_text d ns"
  shows "members_text (c @ '','' @ d) (ms @ ns)"
  using assms(1)
proof (induction c ms rule: value_text_element_text_elements_text_members_text.inducts(4)
    [where ?P1.0 = "\<lambda>_ _. True" and ?P2.0 = "\<lambda>_ _. True" and ?P3.0 = "\<lambda>_ _. True"])
  case (members_one w b k w' e j)
  then show ?case using members_more[OF members_one.hyps(1-4) assms(2)] by simp
next
  case (members_more w b k w' e j c ms)
  then show ?case
    using value_text_element_text_elements_text_members_text.members_more[OF members_more.hyps(1-4) members_more.IH]
    by simp
qed simp_all

lemma json_document_text:
  assumes "members_text b ms"
  shows "json_text (json_document b) (JObj ms)"
proof -
  have "value_text (''{'' @ (nl @ b) @ ''}'') (JObj ms)"
    using members_ws[OF ws_simps(2) assms] by (rule value_object)
  from element_ws(2)[OF ws_simps(2) value_element[OF this]] show ?thesis by (simp add: json_document_def)
qed

lemma plain_simps: "plain (c # s) \<longleftrightarrow> c \<noteq> dq \<and> c \<noteq> backslash \<and> 32 \<le> (of_char c :: nat) \<and> plain s" "plain []"
  by (simp_all add: plain_def)

lemmas writer_intros = line_members item_members item_break_members last_line_members last_member inline_object_value
  bool_value dec_value quoted_value json_string_value value_element

end
