(* ===== verification/Reports.thy ===== *)
theory Reports
  imports Json Telemetry Census
begin

text \<open>
  The machine-readable presentations of the three reports: \<open>to_json\<close> of the lookup telemetry
  (\<open>src/statistics_json.cpp\<close>), of the uniqueness report (\<open>src/uniqueness.cpp\<close>) and of the census
  (\<open>src/census.cpp\<close>). Each writer puts a text together piece by piece; the documents beside them say
  what a reader of that text finds, and the theorems that a standard reader finds exactly that. How
  \<open>fmt\<close> writes a floating-point number is a parameter: the digits after the point and the two counts
  the number is the quotient of.
\<close>

section \<open>Names of enumerators\<close>

definition metric_status_text :: "metric_status \<Rightarrow> string" where
  "metric_status_text s = (case s of Measured \<Rightarrow> ''measured'' | Not_applicable \<Rightarrow> ''not_applicable''
     | Unavailable \<Rightarrow> ''unavailable'')"

definition snapshot_consistency_text :: "snapshot_consistency \<Rightarrow> string" where
  "snapshot_consistency_text c = (case c of Live_database_exclusive \<Rightarrow> ''live_database_exclusive''
     | Not_verified \<Rightarrow> ''not_verified'')"

definition allocation_method_text :: "allocation_method \<Rightarrow> string" where
  "allocation_method_text m = (case m of Method_none \<Rightarrow> ''none'' | Posix_st_blocks \<Rightarrow> ''posix_st_blocks''
     | Windows_compressed_size \<Rightarrow> ''windows_compressed_size'')"

definition storage_mode_text :: "storage_mode \<Rightarrow> string" where
  "storage_mode_text m = (case m of Reference_mode \<Rightarrow> ''reference'' | Full_mode \<Rightarrow> ''full'')"

section \<open>Figures\<close>

definition num :: "'a::len word \<Rightarrow> string" where "num w = dec (unat w)"

definition json_num :: "'a::len word \<Rightarrow> json" where "json_num w = JNum (num w)"

lemma num_value: "value_text (num w) (json_num w)"
  unfolding num_def json_num_def by (rule dec_value)

type_synonym float_format = "nat \<Rightarrow> quotient \<Rightarrow> string"

definition schema_version :: nat where "schema_version = 1"

section \<open>The lookup telemetry\<close>

definition bucket_labels :: "string list" where
  "bucket_labels = [''1'', ''2'', ''3'', ''4'', ''5-8'', ''9+'']"

definition histogram_json :: "u64 list \<Rightarrow> string" where
  "histogram_json buckets =
    inline_object (separated '', '' (map (\<lambda>(label, b). member label (num b)) (zip bucket_labels buckets)))"

definition class_label :: "u64 \<Rightarrow> string" where
  "class_label c = (if c = reference_class then quoted ''reference'' else num c)"

definition class_lookup_json :: "float_format \<Rightarrow> class_lookup_summary \<Rightarrow> string" where
  "class_lookup_json fixed c =
    ''    '' @ inline_object
      (item ''container_class'' (class_label (cl_container_class c)) @
       item ''active_maps_probed'' (num (cl_active_maps_probed c)) @
       item ''answered_from_active'' (num (cl_answered_from_active c)) @
       item ''resolved_historical'' (num (cl_resolved_historical c)) @
       item ''generations_probed'' (num (cl_generations_probed c)) @
       item ''files_opened'' (num (cl_files_opened c)) @
       item ''cache_hits'' (num (cl_cache_hits c)) @
       item ''avg_probe_ordinal'' (fixed 4 (cl_avg_probe_ordinal c)) @
       item ''avg_version_distance'' (fixed 4 (cl_avg_version_distance c)) @
       item ''probe_ordinal_histogram'' (histogram_json (cl_probe_ordinal_histogram c)) @
       member ''version_distance_histogram'' (histogram_json (cl_version_distance_histogram c)))"

definition unattributed_note :: string where
  "unattributed_note = ''a lookup arrives with a key and no size, ''
     @ ''and an absent one was refused by every class''"

definition telemetry_json :: "float_format \<Rightarrow> lookup_telemetry \<Rightarrow> string" where
  "telemetry_json fixed t =
    json_document
    (line ''schema_version'' (dec schema_version) @
    line ''statistics_level'' (quoted (lt_statistics_level t)) @
    line ''storage_mode'' (quoted (storage_mode_text (lt_mode t))) @
    line ''unattributed''
      (inline_object
        (item ''lookups_received'' (num (lt_lookups_received t)) @
         item ''deferred'' (num (lt_deferred t)) @
         item ''absent'' (num (lt_absent t)) @
         member ''note'' (quoted unattributed_note))) @
    line ''classes''
      (''['' @ nl @ separated ('','' @ nl) (map (class_lookup_json fixed) (lt_classes t))
        @ (if lt_classes t = [] then [] else nl) @ ''  ]'') @
    last_line ''derived_totals''
      (inline_object
        (item ''answered_from_active'' (num (telemetry_answered_from_active t)) @
         item ''resolved_historical'' (num (telemetry_resolved_historical t)) @
         item ''generations_probed'' (num (telemetry_generations_probed t)) @
         item ''files_opened'' (num (telemetry_files_opened t)) @
         member ''cache_hits'' (num (telemetry_cache_hits t)))))"

text \<open>What it says.\<close>

definition histogram_document :: "u64 list \<Rightarrow> json" where
  "histogram_document buckets = JObj (zip bucket_labels (map json_num buckets))"

definition class_document :: "float_format \<Rightarrow> class_lookup_summary \<Rightarrow> json" where
  "class_document fixed c = JObj
     [(''container_class'', if cl_container_class c = reference_class then JStr ''reference''
                            else json_num (cl_container_class c)),
      (''active_maps_probed'', json_num (cl_active_maps_probed c)),
      (''answered_from_active'', json_num (cl_answered_from_active c)),
      (''resolved_historical'', json_num (cl_resolved_historical c)),
      (''generations_probed'', json_num (cl_generations_probed c)),
      (''files_opened'', json_num (cl_files_opened c)), (''cache_hits'', json_num (cl_cache_hits c)),
      (''avg_probe_ordinal'', JNum (fixed 4 (cl_avg_probe_ordinal c))),
      (''avg_version_distance'', JNum (fixed 4 (cl_avg_version_distance c))),
      (''probe_ordinal_histogram'', histogram_document (cl_probe_ordinal_histogram c)),
      (''version_distance_histogram'', histogram_document (cl_version_distance_histogram c))]"

definition telemetry_document :: "float_format \<Rightarrow> lookup_telemetry \<Rightarrow> json" where
  "telemetry_document fixed t = JObj
     [(''schema_version'', JNum ''1''), (''statistics_level'', JStr (lt_statistics_level t)),
      (''storage_mode'', JStr (storage_mode_text (lt_mode t))),
      (''unattributed'', JObj
         [(''lookups_received'', json_num (lt_lookups_received t)), (''deferred'', json_num (lt_deferred t)),
          (''absent'', json_num (lt_absent t)), (''note'', JStr unattributed_note)]),
      (''classes'', JArr (map (class_document fixed) (lt_classes t))),
      (''derived_totals'', JObj
         [(''answered_from_active'', json_num (sum_list (map cl_answered_from_active (lt_classes t)))),
          (''resolved_historical'', json_num (sum_list (map cl_resolved_historical (lt_classes t)))),
          (''generations_probed'', json_num (sum_list (map cl_generations_probed (lt_classes t)))),
          (''files_opened'', json_num (sum_list (map cl_files_opened (lt_classes t)))),
          (''cache_hits'', json_num (sum_list (map cl_cache_hits (lt_classes t))))])]"

lemma schema_version_text: "dec schema_version = ''1''"
  by (simp add: schema_version_def) code_simp

lemma plain_storage_mode: "plain (storage_mode_text m)"
  by (cases m) (simp_all add: storage_mode_text_def plain_simps dq_def backslash_def)

lemma sum_of_sum_list: "sum_of field t = sum_list (map field (lt_classes t))"
proof -
  have "fold (\<lambda>c tot. tot + field c) cs a = a + sum_list (map field cs)" for cs a
    by (induction cs arbitrary: a) (simp_all add: ac_simps)
  then show ?thesis by (simp add: sum_of_def)
qed

lemma class_label_value:
  "value_text (class_label c) (if c = reference_class then JStr ''reference'' else json_num c)"
  using quoted_value[of "''reference''"]
  by (simp add: class_label_def plain_simps dq_def backslash_def num_value)

lemma plain_bucket_labels: "list_all plain bucket_labels"
  by (simp add: bucket_labels_def plain_simps dq_def backslash_def)

lemma histogram_value: "value_text (histogram_json h) (histogram_document h)"
proof (cases h)
  case Nil
  then show ?thesis
    using value_no_members[of "[]"] by (simp add: histogram_json_def histogram_document_def inline_object_def)
next
  case (Cons b bs)
  let ?xs = "map (\<lambda>(l, b). (l, num b, json_num b)) (zip bucket_labels h)"
  have "list_all (\<lambda>(k, v, j). plain k \<and> value_text v j) ?xs"
    using plain_bucket_labels num_value by (auto simp: list_all_iff dest: set_zip_leftD)
  moreover have "?xs \<noteq> []" by (simp add: Cons bucket_labels_def)
  ultimately have "members_text (separated '', '' (map (\<lambda>(k, v, j). member k v) ?xs)) (map (\<lambda>(k, v, j). (k, j)) ?xs)"
    by (rule separated_members)
  moreover have "map (\<lambda>(k, v, j). member k v) ?xs = map (\<lambda>(label, b). member label (num b)) (zip bucket_labels h)"
    "map (\<lambda>(k, v, j). (k, j)) ?xs = zip bucket_labels (map json_num h)"
    by (simp_all add: case_prod_unfold zip_map2)
  ultimately show ?thesis
    unfolding histogram_json_def histogram_document_def by (intro inline_object_value) (simp only:)
qed

lemma class_lookup_text:
  assumes "\<forall>q. json_number (fixed 4 q)"
  shows "json_text (class_lookup_json fixed c) (class_document fixed c)"
  unfolding class_lookup_json_def class_document_def
  by (intro element_ws(1) writer_intros num_value class_label_value histogram_value value_number
        assms[rule_format] ws_simps)
    (simp_all add: plain_simps dq_def backslash_def)

lemma telemetry_text:
  assumes "\<forall>q. json_number (fixed 4 q)" and level: "plain (lt_statistics_level t)"
  shows "json_text (telemetry_json fixed t) (telemetry_document fixed t)"
proof -
  have classes: "value_text (''['' @ nl @ separated ('','' @ nl) (map (class_lookup_json fixed) (lt_classes t))
        @ (if lt_classes t = [] then [] else nl) @ ''  ]'') (JArr (map (class_document fixed) (lt_classes t)))"
  proof -
    have "list_all2 element_text (map (class_lookup_json fixed) (lt_classes t))
        (map (class_document fixed) (lt_classes t))"
      by (simp add: list_all2_conv_all_nth class_lookup_text[where fixed = fixed, OF assms(1)])
    from array_value[OF this refl ws_simps(2), of nl nl "''  ''"] ws_simps show ?thesis by simp
  qed
  have note_plain: "plain unattributed_note"
    by (simp add: unattributed_note_def plain_simps dq_def backslash_def)
  show ?thesis
    unfolding telemetry_json_def telemetry_document_def telemetry_answered_from_active_def
      telemetry_resolved_historical_def telemetry_generations_probed_def telemetry_files_opened_def
      telemetry_cache_hits_def sum_of_sum_list schema_version_text[symmetric]
    by (intro json_document_text writer_intros num_value classes level note_plain plain_storage_mode)
      (simp_all add: plain_simps dq_def backslash_def)
qed

section \<open>The uniqueness report\<close>

definition hex_of :: "raw_outpoint \<Rightarrow> string" where
  "hex_of key = concat (map hex2 key)"

definition location_json :: "duplicate_location \<Rightarrow> string" where
  "location_json l = inline_object
     (item ''container_class'' (num (dl_container_class l)) @
      item ''generation'' (num (dl_generation l)) @
      member ''active'' (bool_text (dl_active l)))"

definition finding_json :: "duplicate_finding \<Rightarrow> string" where
  "finding_json f = inline_object
     (item ''multiplicity'' (num (df_multiplicity f)) @
      item ''locations_omitted'' (num (df_locations_omitted f)) @
      (case df_outpoint f of Some key \<Rightarrow> item ''outpoint'' (quoted (hex_of key)) | None \<Rightarrow> []) @
      member ''locations'' (''['' @ separated '', '' (map location_json (df_locations f)) @ '']''))"

definition findings_json :: "uniqueness_report \<Rightarrow> string" where
  "findings_json r = separated ('','' @ nl @ ''      '') (map finding_json (ur_findings r))"

definition findings_note :: string where
  "findings_note = ''a bounded sample; keys_with_multiple_copies is ''
     @ ''the count, and report_bytes_estimate is outside memory_budget''"

definition uniqueness_json :: "uniqueness_report \<Rightarrow> string" where
  "uniqueness_json r =
    (let w = ur_walk r in
    json_document
    (line ''report_schema_version'' (dec schema_version) @
    line ''unique'' (bool_text (ur_unique r)) @
    line ''storage_mode'' (quoted (storage_mode_text (ur_storage_mode r))) @
    line ''counts''
      (inline_object
        (item ''physical_entries'' (num (ur_physical_entries r)) @
         item ''distinct_outpoints'' (num (ur_distinct_outpoints r)) @
         item ''duplicate_copies'' (num (ur_duplicate_copies r)) @
         item ''keys_with_multiple_copies'' (num (ur_keys_with_multiple_copies r)) @
         member ''max_copies_for_one_key'' (num (ur_max_copies_for_one_key r)))) @
    line ''findings''
      (inline_object
        (item ''outpoints_included'' (bool_text (ur_outpoints_included r)) @
         item ''reported'' (dec (length (ur_findings r))) @
         item ''omitted'' (num (ur_findings_omitted r)) @
         item_break ''report_bytes_estimate'' (num (ur_report_bytes_estimate r)) @
         item_break ''note'' (quoted findings_note) @
         member ''items''
           (''['' @ (if ur_findings r = [] then [] else nl @ ''      '' @ findings_json r @ nl @ ''    '') @ '']''))) @
    last_line ''walk''
      (inline_object
        (item ''memory_budget'' (num (br_memory_budget w)) @
         item ''record_bytes'' (num (br_record_bytes w)) @
         item ''record_capacity'' (num (br_record_capacity w)) @
         item ''fixed_overhead'' (num (br_fixed_overhead w)) @
         item ''headroom'' (num (br_headroom w)) @
         item ''estimated_peak'' (num (br_estimated_peak w)) @
         item ''planning_passes'' (num (br_planning_passes w)) @
         item ''data_passes'' (num (br_data_passes w)) @
         item ''partitions'' (num (br_partitions w)) @
         item ''entries_examined_total'' (num (br_entries_examined_total w)) @
         item ''generations_visited'' (num (br_generations_visited w)) @
         item ''duration_ms'' (num (br_duration_ms w)) @
         member ''duration_per_pass_ms''
           (''['' @ separated '', '' (map num (br_duration_per_pass_ms w)) @ '']'')))))"

definition location_document :: "duplicate_location \<Rightarrow> json" where
  "location_document l = JObj [(''container_class'', json_num (dl_container_class l)),
     (''generation'', json_num (dl_generation l)), (''active'', JBool (dl_active l))]"

definition finding_document :: "duplicate_finding \<Rightarrow> json" where
  "finding_document f = JObj
     ((''multiplicity'', json_num (df_multiplicity f))
      # (''locations_omitted'', json_num (df_locations_omitted f))
      # (case df_outpoint f of Some key \<Rightarrow> [(''outpoint'', JStr (hex_of key))] | None \<Rightarrow> [])
      @ [(''locations'', JArr (map location_document (df_locations f)))])"

definition uniqueness_document :: "uniqueness_report \<Rightarrow> json" where
  "uniqueness_document r =
    (let w = ur_walk r in JObj
     [(''report_schema_version'', JNum ''1''), (''unique'', JBool (ur_unique r)),
      (''storage_mode'', JStr (storage_mode_text (ur_storage_mode r))),
      (''counts'', JObj
         [(''physical_entries'', json_num (ur_physical_entries r)),
          (''distinct_outpoints'', json_num (ur_distinct_outpoints r)),
          (''duplicate_copies'', json_num (ur_duplicate_copies r)),
          (''keys_with_multiple_copies'', json_num (ur_keys_with_multiple_copies r)),
          (''max_copies_for_one_key'', json_num (ur_max_copies_for_one_key r))]),
      (''findings'', JObj
         [(''outpoints_included'', JBool (ur_outpoints_included r)),
          (''reported'', JNum (dec (length (ur_findings r)))), (''omitted'', json_num (ur_findings_omitted r)),
          (''report_bytes_estimate'', json_num (ur_report_bytes_estimate r)),
          (''note'', JStr findings_note), (''items'', JArr (map finding_document (ur_findings r)))]),
      (''walk'', JObj
         [(''memory_budget'', json_num (br_memory_budget w)), (''record_bytes'', json_num (br_record_bytes w)),
          (''record_capacity'', json_num (br_record_capacity w)),
          (''fixed_overhead'', json_num (br_fixed_overhead w)), (''headroom'', json_num (br_headroom w)),
          (''estimated_peak'', json_num (br_estimated_peak w)),
          (''planning_passes'', json_num (br_planning_passes w)), (''data_passes'', json_num (br_data_passes w)),
          (''partitions'', json_num (br_partitions w)),
          (''entries_examined_total'', json_num (br_entries_examined_total w)),
          (''generations_visited'', json_num (br_generations_visited w)),
          (''duration_ms'', json_num (br_duration_ms w)),
          (''duration_per_pass_ms'', JArr (map json_num (br_duration_per_pass_ms w)))])])"

lemma list_array_value:
  assumes "\<And>x. x \<in> set xs \<Longrightarrow> json_text (f x) (g x)" "sep = '','' @ w" "ws w"
  shows "value_text (''['' @ separated sep (map f xs) @ '']'') (JArr (map g xs))"
proof -
  have "list_all2 element_text (map f xs) (map g xs)"
    using assms(1) by (simp add: list_all2_conv_all_nth)
  from array_value[OF this assms(2,3), of "[]" "[]" "[]"] show ?thesis by simp
qed

lemma plain_hex_of: "plain (hex_of key)"
proof -
  have digit: "hex_digit n \<noteq> dq \<and> hex_digit n \<noteq> backslash \<and> 32 \<le> (of_char (hex_digit n) :: nat)" if "n < 16" for n
  proof -
    have "hex_value (hex_digit n) \<noteq> None" using hex_value_hex_digit[OF that] by simp
    then show ?thesis by (auto simp: hex_value_def Let_def dq_def backslash_def split: if_splits)
  qed
  have "unat b < 16 * 16" for b :: u8 using unsigned_less[of b, where ?'a = nat] by simp
  then have "unat b div 16 < 16" for b :: u8 by (rule less_mult_imp_div_less)
  then have "plain (hex2 b)" for b by (simp add: hex2_def plain_simps digit)
  then show ?thesis by (induction key) (simp_all add: hex_of_def plain_simps plain_append)
qed

lemma location_value: "value_text (location_json l) (location_document l)"
  unfolding location_json_def location_document_def
  by (intro writer_intros num_value) (simp_all add: plain_simps dq_def backslash_def)

lemma finding_value: "value_text (finding_json f) (finding_document f)"
proof -
  have locations: "value_text (''['' @ separated '', '' (map location_json (df_locations f)) @ '']'')
      (JArr (map location_document (df_locations f)))"
    by (rule list_array_value[where w = "'' ''"]) (auto intro: value_element location_value simp: is_ws_def)
  have tail: "members_text
      ((case df_outpoint f of Some key \<Rightarrow> item ''outpoint'' (quoted (hex_of key)) | None \<Rightarrow> []) @
        member ''locations'' (''['' @ separated '', '' (map location_json (df_locations f)) @ '']''))
      ((case df_outpoint f of Some key \<Rightarrow> [(''outpoint'', JStr (hex_of key))] | None \<Rightarrow> [])
        @ [(''locations'', JArr (map location_document (df_locations f)))])"
  proof (cases "df_outpoint f")
    case None
    then show ?thesis using last_member[OF _ value_element[OF locations], of "''locations''"]
      by (simp add: plain_simps dq_def backslash_def)
  next
    case (Some key)
    show ?thesis unfolding Some option.case append_Cons append_Nil
      by (intro writer_intros locations[unfolded append_Cons append_Nil] plain_hex_of)
        (simp_all add: plain_simps dq_def backslash_def)
  qed
  show ?thesis unfolding finding_json_def finding_document_def
    by (intro inline_object_value item_members num_value tail) (simp_all add: plain_simps dq_def backslash_def)
qed

lemma uniqueness_text: "json_text (uniqueness_json r) (uniqueness_document r)"
proof -
  have passes: "value_text (''['' @ separated '', '' (map num (br_duration_per_pass_ms (ur_walk r))) @ '']'')
      (JArr (map json_num (br_duration_per_pass_ms (ur_walk r))))"
    by (rule list_array_value[where w = "'' ''"]) (auto intro: value_element num_value simp: is_ws_def)
  have items: "value_text
      (''['' @ (if ur_findings r = [] then [] else nl @ ''      '' @ findings_json r @ nl @ ''    '') @ '']'')
      (JArr (map finding_document (ur_findings r)))"
  proof (cases "ur_findings r = []")
    case True
    then show ?thesis using value_no_elements[of "[]"] by simp
  next
    case False
    have "list_all2 element_text (map finding_json (ur_findings r)) (map finding_document (ur_findings r))"
      by (simp add: list_all2_conv_all_nth value_element finding_value)
    from array_value[OF this refl, of "nl @ ''      ''" "nl @ ''      ''" nl "''    ''"] ws_simps False
    show ?thesis by (simp add: findings_json_def)
  qed
  have note_plain: "plain findings_note"
    by (simp add: findings_note_def plain_simps dq_def backslash_def)
  show ?thesis
    unfolding uniqueness_json_def uniqueness_document_def Let_def schema_version_text[symmetric]
    by (intro json_document_text writer_intros num_value items passes note_plain plain_storage_mode)
      (simp_all add: plain_simps dq_def backslash_def)
qed

section \<open>The census report\<close>

definition json_optional :: "optional_bytes \<Rightarrow> string" where
  "json_optional v = inline_object
     (item ''status'' (json_string (metric_status_text (ob_status v))) @
      item ''bytes'' (if ob_status v = Measured then num (ob_bytes v) else ''null'') @
      member ''detail'' (json_string (ob_detail v)))"

definition json_bytes :: "bool \<Rightarrow> 'a census_figures_scheme \<Rightarrow> string" where
  "json_bytes include_payload_capacity x =
    item ''exact'' (inline_object
      (item ''entry_payload_bytes'' (num (cf_entry_payload_bytes x)) @
       (if include_payload_capacity
        then item ''unused_payload_capacity'' (json_optional (cf_unused_payload_capacity x)) else []) @
       item ''object_padding_bytes'' (num (cf_object_padding_bytes x)) @
       item ''segment_size_bytes'' (num (cf_segment_size_bytes x)) @
       item ''segment_free_bytes'' (num (cf_segment_free_bytes x)) @
       member ''logical_file_bytes'' (num (cf_logical_file_bytes x)))) @
    item ''modelled'' (inline_object
      (item ''occupied_slot_bytes'' (num (cf_occupied_slot_bytes x)) @
       item ''empty_slot_bytes'' (num (cf_empty_slot_bytes x)) @
       member ''estimated_group_metadata_bytes'' (num (cf_estimated_group_metadata_bytes x)))) @
    item ''residual'' (inline_object
      (member ''unattributed_allocated_bytes'' (json_optional (cf_unattributed_allocated_bytes x)))) @
    member ''platform'' (inline_object
      (member ''physical_allocated_bytes'' (json_optional (cf_physical_allocated_bytes x))))"

definition payload_bucket_json :: "payload_bucket \<Rightarrow> string" where
  "payload_bucket_json b = inline_object
     (item ''payload_size'' (num (pb_payload_size b)) @ member ''entries'' (num (pb_entries b)))"

definition load_factor :: "generation_census \<Rightarrow> quotient" where
  "load_factor g = rate (cf_entries g) (gc_bucket_count g)"

definition generation_json :: "float_format \<Rightarrow> generation_census \<Rightarrow> string" where
  "generation_json fixed g =
    nl @ ''      '' @ inline_object
      (item ''generation'' (num (gc_generation g)) @
       item ''active'' (bool_text (gc_active g)) @
       item ''entries'' (num (cf_entries g)) @
       item ''bucket_count'' (num (gc_bucket_count g)) @
       item ''load_factor'' (fixed 6 (load_factor g)) @
       item ''model_inconsistent'' (bool_text (gc_model_inconsistent g)) @
       json_bytes True g)"

definition payload_histogram_json :: "class_census \<Rightarrow> string" where
  "payload_histogram_json c = inline_object
     (item ''status'' (json_string (metric_status_text (cc_payload_histogram_status c))) @
      member ''buckets''
        (if cc_payload_histogram_status c = Measured
         then ''['' @ separated '', '' (map payload_bucket_json (cc_payload_histogram c)) @ '']''
         else ''null''))"

definition class_census_json :: "float_format \<Rightarrow> class_census \<Rightarrow> string" where
  "class_census_json fixed c =
    ''    '' @ inline_object
      (item ''container_class'' (num (cc_container_class c)) @
       item ''container_size'' (num (cc_container_size c)) @
       item ''payload_capacity'' (num (cc_payload_capacity c)) @
       item ''value_size'' (num (cc_value_size c)) @
       item ''pair_size'' (num (cc_pair_size c)) @
       item ''entries'' (num (cf_entries c)) @
       item ''generations'' (num (cc_generations c)) @
       item ''active_generation'' (num (cc_active_generation c)) @
       json_bytes True c @ '','' @ nl @ ''     '' @
       member ''payload_histogram'' (payload_histogram_json c) @ '','' @ nl @ ''     '' @
       member ''generations_detail''
         (''['' @ separated '','' (map (generation_json fixed) (cc_generations_detail c)) @ '']''))"

definition source_note :: string where
  "source_note = ''declared by the caller; this program cannot verify how a copy was taken''"

definition census_json :: "float_format \<Rightarrow> census_report \<Rightarrow> string" where
  "census_json fixed r =
    json_document
    (line ''report_schema_version'' (dec schema_version) @
    line ''scope'' (json_string ''physical_stored'') @
    line ''storage_mode'' (json_string (storage_mode_text (cr_storage_mode r))) @
    line ''format_identity'' (inline_object
      (item ''geometry_id'' (num (cr_geometry_id r)) @
       item ''map_layout_epoch'' (num (cr_map_layout_epoch r)) @
       item ''hash_epoch'' (num (cr_hash_epoch r)) @
       member ''platform_abi_id'' (num (cr_platform_abi_id r)))) @
    line ''statistics_enabled'' (bool_text (cr_statistics_enabled r)) @
    line ''source'' (inline_object
      (item ''declared_external_snapshot'' (bool_text (cr_declared_external_snapshot r)) @
       item ''consistency'' (json_string (snapshot_consistency_text (cr_consistency r))) @
       member ''note'' (quoted source_note))) @
    line ''walk'' (inline_object
      (item ''duration_ms'' (num (cr_duration_ms r)) @
       item ''files_examined'' (num (cr_files_examined r)) @
       item ''entries_examined'' (num (cr_entries_examined r)) @
       member ''physical_measurement_method''
         (json_string (allocation_method_text (cr_physical_measurement r))))) @
    line ''totals'' (inline_object (item ''entries'' (num (cf_entries r)) @ json_bytes True r)) @
    last_line ''classes''
      (''['' @ nl @ separated ('','' @ nl) (map (class_census_json fixed) (cr_classes r))
        @ (if cr_classes r = [] then [] else nl) @ ''  ]''))"

text \<open>What it says: a figure that was not measured is null, and says why.\<close>

definition optional_document :: "optional_bytes \<Rightarrow> json" where
  "optional_document v = JObj [(''status'', JStr (metric_status_text (ob_status v))),
     (''bytes'', if ob_status v = Measured then json_num (ob_bytes v) else JNull),
     (''detail'', JStr (ob_detail v))]"

definition bytes_members :: "'a census_figures_scheme \<Rightarrow> (string \<times> json) list" where
  "bytes_members x =
     [(''exact'', JObj
        [(''entry_payload_bytes'', json_num (cf_entry_payload_bytes x)),
         (''unused_payload_capacity'', optional_document (cf_unused_payload_capacity x)),
         (''object_padding_bytes'', json_num (cf_object_padding_bytes x)),
         (''segment_size_bytes'', json_num (cf_segment_size_bytes x)),
         (''segment_free_bytes'', json_num (cf_segment_free_bytes x)),
         (''logical_file_bytes'', json_num (cf_logical_file_bytes x))]),
      (''modelled'', JObj
        [(''occupied_slot_bytes'', json_num (cf_occupied_slot_bytes x)),
         (''empty_slot_bytes'', json_num (cf_empty_slot_bytes x)),
         (''estimated_group_metadata_bytes'', json_num (cf_estimated_group_metadata_bytes x))]),
      (''residual'', JObj [(''unattributed_allocated_bytes'', optional_document (cf_unattributed_allocated_bytes x))]),
      (''platform'', JObj [(''physical_allocated_bytes'', optional_document (cf_physical_allocated_bytes x))])]"

definition payload_bucket_document :: "payload_bucket \<Rightarrow> json" where
  "payload_bucket_document b =
     JObj [(''payload_size'', json_num (pb_payload_size b)), (''entries'', json_num (pb_entries b))]"

definition generation_document :: "float_format \<Rightarrow> generation_census \<Rightarrow> json" where
  "generation_document fixed g = JObj
     ((''generation'', json_num (gc_generation g)) # (''active'', JBool (gc_active g))
      # (''entries'', json_num (cf_entries g)) # (''bucket_count'', json_num (gc_bucket_count g))
      # (''load_factor'', JNum (fixed 6 (load_factor g)))
      # (''model_inconsistent'', JBool (gc_model_inconsistent g)) # bytes_members g)"

definition class_census_document :: "float_format \<Rightarrow> class_census \<Rightarrow> json" where
  "class_census_document fixed c = JObj
     ((''container_class'', json_num (cc_container_class c))
      # (''container_size'', json_num (cc_container_size c))
      # (''payload_capacity'', json_num (cc_payload_capacity c))
      # (''value_size'', json_num (cc_value_size c)) # (''pair_size'', json_num (cc_pair_size c))
      # (''entries'', json_num (cf_entries c)) # (''generations'', json_num (cc_generations c))
      # (''active_generation'', json_num (cc_active_generation c))
      # bytes_members c @
      [(''payload_histogram'', JObj
          [(''status'', JStr (metric_status_text (cc_payload_histogram_status c))),
           (''buckets'', if cc_payload_histogram_status c = Measured
                         then JArr (map payload_bucket_document (cc_payload_histogram c)) else JNull)]),
       (''generations_detail'', JArr (map (generation_document fixed) (cc_generations_detail c)))])"

definition census_document :: "float_format \<Rightarrow> census_report \<Rightarrow> json" where
  "census_document fixed r = JObj
     [(''report_schema_version'', JNum ''1''), (''scope'', JStr ''physical_stored''),
      (''storage_mode'', JStr (storage_mode_text (cr_storage_mode r))),
      (''format_identity'', JObj
         [(''geometry_id'', json_num (cr_geometry_id r)), (''map_layout_epoch'', json_num (cr_map_layout_epoch r)),
          (''hash_epoch'', json_num (cr_hash_epoch r)), (''platform_abi_id'', json_num (cr_platform_abi_id r))]),
      (''statistics_enabled'', JBool (cr_statistics_enabled r)),
      (''source'', JObj
         [(''declared_external_snapshot'', JBool (cr_declared_external_snapshot r)),
          (''consistency'', JStr (snapshot_consistency_text (cr_consistency r))), (''note'', JStr source_note)]),
      (''walk'', JObj
         [(''duration_ms'', json_num (cr_duration_ms r)), (''files_examined'', json_num (cr_files_examined r)),
          (''entries_examined'', json_num (cr_entries_examined r)),
          (''physical_measurement_method'', JStr (allocation_method_text (cr_physical_measurement r)))]),
      (''totals'', JObj ((''entries'', json_num (cf_entries r)) # bytes_members r)),
      (''classes'', JArr (map (class_census_document fixed) (cr_classes r)))]"

lemma optional_value: "value_text (json_optional v) (optional_document v)"
proof -
  have "value_text (if ob_status v = Measured then num (ob_bytes v) else ''null'')
      (if ob_status v = Measured then json_num (ob_bytes v) else JNull)"
    using value_null by (simp add: num_value)
  then show ?thesis
    unfolding json_optional_def optional_document_def
    by (intro writer_intros) (simp_all add: plain_simps dq_def backslash_def)
qed

lemma bytes_members_text: "members_text (json_bytes True x) (bytes_members x)"
  unfolding json_bytes_def bytes_members_def if_True
  by (intro writer_intros num_value optional_value) (simp_all add: plain_simps dq_def backslash_def)

lemma payload_bucket_value: "value_text (payload_bucket_json b) (payload_bucket_document b)"
  unfolding payload_bucket_json_def payload_bucket_document_def
  by (intro writer_intros num_value) (simp_all add: plain_simps dq_def backslash_def)

lemma generation_text:
  assumes "\<forall>q. json_number (fixed 6 q)"
  shows "json_text (generation_json fixed g) (generation_document fixed g)"
  unfolding generation_json_def generation_document_def
  by (intro element_ws(1) value_element inline_object_value item_members num_value bool_value value_number
        assms[rule_format] ws_simps bytes_members_text)
    (simp_all add: plain_simps dq_def backslash_def)

lemma payload_histogram_value: "value_text (payload_histogram_json c)
  (JObj [(''status'', JStr (metric_status_text (cc_payload_histogram_status c))),
     (''buckets'', if cc_payload_histogram_status c = Measured
                   then JArr (map payload_bucket_document (cc_payload_histogram c)) else JNull)])"
proof -
  have "value_text (''['' @ separated '', '' (map payload_bucket_json (cc_payload_histogram c)) @ '']'')
      (JArr (map payload_bucket_document (cc_payload_histogram c)))"
    by (rule list_array_value[where w = "'' ''"]) (auto intro: value_element payload_bucket_value simp: is_ws_def)
  then have "value_text
      (if cc_payload_histogram_status c = Measured
       then ''['' @ separated '', '' (map payload_bucket_json (cc_payload_histogram c)) @ '']'' else ''null'')
      (if cc_payload_histogram_status c = Measured
       then JArr (map payload_bucket_document (cc_payload_histogram c)) else JNull)"
    using value_null by simp
  then show ?thesis unfolding payload_histogram_json_def
    by (intro writer_intros) (simp_all add: plain_simps dq_def backslash_def)
qed

lemma two_members:
  assumes "plain k" "value_text v j" "plain k'" "value_text v' j'"
  shows "members_text (nl @ ''     '' @ member k v @ '','' @ nl @ ''     '' @ member k' v') [(k, j), (k', j')]"
proof -
  have ws: "ws (nl @ ''     '')" by (simp add: nl_def is_ws_def)
  have "members_text (member k v @ '','' @ (nl @ ''     '') @ member k' v') ([(k, j)] @ [(k', j')])"
    using assms by (intro members_append members_ws[OF ws] last_member value_element)
  from members_ws[OF ws this] show ?thesis by simp
qed

lemma class_census_text:
  assumes "\<forall>q. json_number (fixed 6 q)"
  shows "json_text (class_census_json fixed c) (class_census_document fixed c)"
proof -
  have generations: "value_text (''['' @ separated '','' (map (generation_json fixed) (cc_generations_detail c)) @ '']'')
      (JArr (map (generation_document fixed) (cc_generations_detail c)))"
    by (rule list_array_value[where w = "[]"]) (auto intro: generation_text[where fixed = fixed, OF assms])
  show ?thesis
    unfolding class_census_json_def class_census_document_def
    by (intro element_ws(1) value_element inline_object_value item_members num_value ws_simps
          members_append bytes_members_text two_members payload_histogram_value generations)
      (simp_all add: plain_simps dq_def backslash_def)
qed

lemma census_text:
  assumes "\<forall>q. json_number (fixed 6 q)"
  shows "json_text (census_json fixed r) (census_document fixed r)"
proof -
  have "list_all2 element_text (map (class_census_json fixed) (cr_classes r))
      (map (class_census_document fixed) (cr_classes r))"
    by (simp add: list_all2_conv_all_nth class_census_text[where fixed = fixed, OF assms])
  from array_value[OF this refl ws_simps(2), of nl nl "''  ''"] ws_simps
  have classes: "value_text (''['' @ nl @ separated ('','' @ nl) (map (class_census_json fixed) (cr_classes r))
        @ (if cr_classes r = [] then [] else nl) @ ''  ]'') (JArr (map (class_census_document fixed) (cr_classes r)))"
    by simp
  have note_plain: "plain source_note"
    by (simp add: source_note_def plain_simps dq_def backslash_def)
  show ?thesis
    unfolding census_json_def census_document_def schema_version_text[symmetric]
    by (intro json_document_text writer_intros num_value classes note_plain bytes_members_text)
      (simp_all add: plain_simps dq_def backslash_def)
qed

section \<open>Every missing figure says why\<close>

definition explained :: "optional_bytes \<Rightarrow> bool" where
  "explained v \<longleftrightarrow> (ob_status v \<noteq> Measured \<longrightarrow> ob_detail v \<noteq> [])"

definition figures_explained :: "'a census_figures_scheme \<Rightarrow> bool" where
  "figures_explained x \<longleftrightarrow> explained (cf_unused_payload_capacity x)
     \<and> explained (cf_unattributed_allocated_bytes x) \<and> explained (cf_physical_allocated_bytes x)"

definition report_explained :: "census_report \<Rightarrow> bool" where
  "report_explained r \<longleftrightarrow> figures_explained r
     \<and> (\<forall>c \<in> set (cr_classes r). figures_explained c \<and> (\<forall>g \<in> set (cc_generations_detail c). figures_explained g))"

lemmas detail_texts = free_exceeds_size_def model_exceeds_allocation_def mode_excludes_def
  part_unmeasured_def no_capacity_to_leave_def fixed_record_def nobody_asked_def stat_failed_def

lemma detail_texts_nonempty:
  "free_exceeds_size \<noteq> []" "model_exceeds_allocation \<noteq> []" "mode_excludes \<noteq> []" "part_unmeasured \<noteq> []"
  "no_capacity_to_leave \<noteq> []" "fixed_record \<noteq> []" "nobody_asked \<noteq> []" "stat_failed \<noteq> []"
  by (simp_all add: detail_texts)

lemma explained_measured: "explained \<lparr>ob_bytes = b, ob_status = Measured, ob_detail = t\<rparr>"
  by (simp add: explained_def)

lemma add_optional_explained: "explained tot \<Longrightarrow> explained (add_optional tot part what)"
  by (auto simp: add_optional_def explained_def detail_texts_nonempty)

lemma set_residual_explained: "set_residual sz free modelled = (residual, flag) \<Longrightarrow> explained residual"
  by (auto simp: set_residual_def explained_def Let_def detail_texts_nonempty split: if_splits)

lemma fold_figures_explained:
  assumes "fold_figures what tot part = Some new" "figures_explained tot"
  shows "figures_explained new"
  using assms
  by (auto simp: fold_figures_def figures_explained_def split_beta Let_def add_optional_explained split: if_splits)

lemma finish_generation_explained:
  assumes "finish_generation pair_size g = Inr g'"
    and "explained (cf_unused_payload_capacity g)" "explained (cf_physical_allocated_bytes g)"
  shows "figures_explained g'"
  using assms
  by (auto simp: finish_generation_def figures_explained_def set_residual_explained
      split: sum.splits option.splits prod.splits bool.splits)

text \<open>What an accumulator leaves behind: its own figure explained, the blocks as they were.\<close>

definition explaining :: "'v accumulator \<Rightarrow> bool" where
  "explaining accumulate \<longleftrightarrow>
    (\<forall>m g h g' h'. accumulate m g h = Inr (g', h') \<longrightarrow> explained (cf_unused_payload_capacity g')
       \<and> cf_physical_allocated_bytes g' = cf_physical_allocated_bytes g)"

lemma explaining_full: "explaining (accumulate_full i)"
  by (auto simp: explaining_def accumulate_full_def Let_def explained_measured
      split: sum.splits option.splits)

lemma explaining_reference: "explaining reference_accumulate"
  by (auto simp: explaining_def reference_accumulate_def accumulate_reference_def Let_def explained_def
      detail_texts_nonempty map_sum_def split: sum.splits option.splits)

lemma census_generation_explained:
  assumes "census_generation E G options accumulate db i pair_size version h d = (Inr (g, h'), d')"
    and "explaining accumulate"
  shows "figures_explained g"
proof -
  obtain g0 d0 s m d1 g1 where facts: "file_facts E G options (data_path i version)
      (empty_generation\<lparr>gc_generation := version, gc_active := (version = db_current_versions db i)\<rparr>) d = (Inr g0, d0)"
    and acc: "accumulate m g0 h = Inr (g1, h')"
    and fin: "finish_generation pair_size (g1\<lparr>cf_segment_size_bytes := seg_size s, cf_segment_free_bytes := seg_free G s\<rparr>) = Inr g"
    using assms(1) by (auto simp: census_generation_def Let_def split: prod.splits sum.splits)
  have "explained (cf_physical_allocated_bytes g0)"
    using facts
    by (auto simp: file_facts_def physical_allocation_of_def not_requested_def explained_def detail_texts_nonempty
        split: prod.splits option.splits if_splits)
  then show ?thesis
    using finish_generation_explained[OF fin] assms(2) acc by (simp add: explaining_def) metis
qed

lemma census_generations_explained:
  assumes "census_generations E G options accumulate db i vs (cls, report, h) d = (Inr (cls', report', h'), d')"
    and "explaining accumulate" "figures_explained cls" "\<forall>g \<in> set (cc_generations_detail cls). figures_explained g"
  shows "figures_explained cls' \<and> (\<forall>g \<in> set (cc_generations_detail cls'). figures_explained g)
    \<and> (report_explained report \<longrightarrow> report_explained report')"
  using assms
proof (induction vs arbitrary: cls report h d)
  case (Cons v vs)
  obtain g h1 d1 where one: "census_generation E G options accumulate db i (cc_pair_size cls) v h d = (Inr (g, h1), d1)"
    using Cons.prems(1) by (auto split: prod.splits sum.splits)
  obtain examined cls1 where "checked_add (cr_entries_examined report) (cf_entries g) = Some examined"
    and fold: "fold_into_class (cls\<lparr>cc_generations := cc_generations cls + 1\<rparr>) g = Some cls1"
    using Cons.prems(1) one by (auto simp: Let_def split: option.splits)
  note walk = this one
  define cls2 where "cls2 = (if co_per_generation_detail options
    then cls1\<lparr>cc_generations_detail := cc_generations_detail cls1 @ [g]\<rparr> else cls1)"
  let ?report1 = "report\<lparr>cr_files_examined := cr_files_examined report + 1, cr_entries_examined := examined\<rparr>"
  have rest: "census_generations E G options accumulate db i vs (cls2, ?report1, h1) d1 = (Inr (cls', report', h'), d')"
    using Cons.prems(1) walk by (simp add: Let_def cls2_def)
  have g: "figures_explained g" by (rule census_generation_explained[OF one Cons.prems(2)])
  have "figures_explained (cls\<lparr>cc_generations := cc_generations cls + 1\<rparr>)"
    using Cons.prems(3) by (simp add: figures_explained_def)
  then have c1: "figures_explained cls1"
    using fold_figures_explained fold by (auto simp: fold_into_class_def)
  have "cc_generations_detail cls1 = cc_generations_detail cls"
    using fold by (auto simp: fold_into_class_def fold_figures_def split_beta Let_def split: if_splits)
  then have c2: "figures_explained cls2" "\<forall>g \<in> set (cc_generations_detail cls2). figures_explained g"
    using c1 g Cons.prems(4) by (auto simp: cls2_def figures_explained_def)
  have "report_explained ?report1 \<longleftrightarrow> report_explained report"
    by (simp add: report_explained_def figures_explained_def)
  then show ?case using Cons.IH[OF rest Cons.prems(2) c2] by simp
qed auto

lemma report_with_class_explained:
  assumes fold: "fold_into_report report cls = Some new" and r: "report_explained report"
    and c: "figures_explained cls" "\<forall>g \<in> set (cc_generations_detail cls). figures_explained g"
  shows "report_explained (new\<lparr>cr_classes := cr_classes new @ [cls]\<rparr>)"
proof -
  have "cr_classes new = cr_classes report"
    using fold by (auto simp: fold_into_report_def fold_figures_def split_beta Let_def split: if_splits)
  moreover have "figures_explained new"
    using fold_figures_explained fold r by (auto simp: fold_into_report_def report_explained_def)
  ultimately show ?thesis
    using r c by (simp add: report_explained_def figures_explained_def ball_Un)
qed

lemmas starting_figures = figures_explained_def explained_def measured_zero_def not_requested_def
  detail_texts_nonempty

lemma class_start_explained: "figures_explained (full_class options db i)"
  "figures_explained (reference_class_census options db)"
  "cc_generations_detail (full_class options db i) = []"
  "cc_generations_detail (reference_class_census options db) = []"
  "report_explained (empty_report E G options mode)"
  by (simp_all add: starting_figures report_explained_def full_class_def reference_class_census_def
      empty_class_def empty_report_def Let_def)

lemma census_class_explained:
  assumes "census_class E G options db i report d = (Inr report', d')" "report_explained report"
  shows "report_explained report'"
proof -
  obtain h0 cls report1 h d1 where walk: "census_generations E G options (accumulate_full i) db i
      (vc_versions (db_catalogs db i)) (full_class options db i, report, h0) d = (Inr (cls, report1, h), d1)"
    and rest: "\<exists>report2. fold_into_report report1 (cls\<lparr>cc_payload_histogram := compact_histogram h\<rparr>) = Some report2
      \<and> report' = report2\<lparr>cr_classes := cr_classes report2 @ [cls\<lparr>cc_payload_histogram := compact_histogram h\<rparr>]\<rparr>"
    using assms(1) by (auto simp: census_class_def Let_def split: prod.splits sum.splits option.splits)
  have "figures_explained cls \<and> (\<forall>g \<in> set (cc_generations_detail cls). figures_explained g)
      \<and> (report_explained report \<longrightarrow> report_explained report1)"
    by (rule census_generations_explained[OF walk explaining_full class_start_explained(1)])
      (simp add: class_start_explained(3))
  then show ?thesis
    using rest report_with_class_explained assms(2)
    by (auto simp: figures_explained_def)
qed

lemma census_classes_explained:
  "census_classes E G options db is report d = (Inr report', d') \<Longrightarrow> report_explained report
    \<Longrightarrow> report_explained report'"
  by (induction "is" arbitrary: report d) (auto split: prod.splits sum.splits dest: census_class_explained)

lemma full_census_explained:
  "full_census E G options db = (Inr report, db') \<Longrightarrow> report_explained report"
  by (auto simp: full_census_def split: prod.splits sum.splits)
    (auto simp: report_explained_def figures_explained_def
      dest!: census_classes_explained[OF _ class_start_explained(5)])

lemma reference_census_explained:
  assumes "reference_census E G options db = (Inr report, db')"
  shows "report_explained report"
proof -
  obtain cls report1 h d1 report2 where walk: "census_generations E G options reference_accumulate db
      reference_sentinel_index (vc_versions (db_catalogs db reference_sentinel_index))
      (reference_class_census options db, empty_report E G options Reference_mode, []) (db_disk db)
      = (Inr (cls, report1, h), d1)"
    and fold: "fold_into_report report1 cls = Some report2"
    and report: "report = report2\<lparr>cr_classes := cr_classes report2 @ [cls],
        cr_duration_ms := elapsed_ms E (db_disk db) d1\<rparr>"
    using assms by (auto simp: reference_census_def split: prod.splits sum.splits option.splits)
  have "figures_explained cls \<and> (\<forall>g \<in> set (cc_generations_detail cls). figures_explained g)
      \<and> report_explained report1"
    using census_generations_explained[OF walk explaining_reference class_start_explained(2)]
    by (simp add: class_start_explained(4,5))
  then have "report_explained (report2\<lparr>cr_classes := cr_classes report2 @ [cls]\<rparr>)"
    using report_with_class_explained[OF fold] by blast
  then show ?thesis by (simp add: report report_explained_def figures_explained_def)
qed

lemma reports_read:
  assumes "\<forall>k > 0. \<forall>q. json_number (fixed k q)" and "plain (lt_statistics_level t)"
  shows "read_json (uniqueness_json u) = Some (uniqueness_document u)
    \<and> read_json (census_json fixed c) = Some (census_document fixed c)
    \<and> read_json (telemetry_json fixed t) = Some (telemetry_document fixed t)"
  using uniqueness_text[of u] census_text[where fixed = fixed, of c]
    telemetry_text[where fixed = fixed, OF _ assms(2)] assms(1)
  by (auto intro!: read_json_text)

text \<open>A quotient to \<open>k\<close> digits, rounded down, as a concrete format.\<close>

definition rounded_down :: float_format where
  "rounded_down k q = dec (unat (fst q) div unat (snd q)) @ ''.'' @
     map (\<lambda>i. digit_char (unat (fst q) * 10 ^ (i + 1) div unat (snd q) mod 10)) [0 ..< k]"

lemma rounded_down_number: "0 < k \<Longrightarrow> json_number (rounded_down k q)"
proof -
  assume k: "0 < k"
  let ?n = "dec (unat (fst q) div unat (snd q))"
  let ?f = "map (\<lambda>i. digit_char (unat (fst q) * 10 ^ (i + 1) div unat (snd q) mod 10)) [0 ..< k]"
  have point: "\<not> is_digit CHR ''.''" by (simp add: is_digit_def)
  have digits: "\<forall>c \<in> set ?n. is_digit c" using dec_digits[of "unat (fst q) div unat (snd q)"] by (simp add: list_all_iff)
  then have split: "takeWhile is_digit (?n @ CHR ''.'' # ?f) = ?n" "dropWhile is_digit (?n @ CHR ''.'' # ?f) = CHR ''.'' # ?f"
    using point by (simp_all add: takeWhile_append dropWhile_append)
  have whole: "takeWhile is_digit ?n = ?n" "dropWhile is_digit ?n = []" using digits by (simp_all add: takeWhile_eq_all_conv)
  have "?n \<noteq> []" "hd ?n \<noteq> CHR ''0'' \<or> ?n = ''0''"
    using dec_number[of "unat (fst q) div unat (snd q)"] unfolding json_number_def Let_def whole by auto
  moreover have "list_all is_digit ?f" using is_digit_char by (simp add: list_all_iff)
  ultimately show "json_number (rounded_down k q)"
    using k split unfolding json_number_def Let_def rounded_down_def by simp
qed

definition example_telemetry :: lookup_telemetry where
  "example_telemetry =
     \<lparr>lt_statistics_level = ''lookup'', lt_mode = Full_mode, lt_lookups_received = 5, lt_deferred = 2,
      lt_absent = 1, lt_classes = [\<lparr>cl_container_class = 0, cl_active_maps_probed = 5, cl_answered_from_active = 3,
        cl_resolved_historical = 1, cl_generations_probed = 2, cl_files_opened = 2, cl_cache_hits = 0,
        cl_avg_probe_ordinal = (2, 1), cl_avg_version_distance = (2, 1),
        cl_probe_ordinal_histogram = [0, 1, 0, 0, 0, 0], cl_version_distance_histogram = [0, 1, 0, 0, 0, 0]\<rparr>]\<rparr>"

end
