(* ===== verification/Sizing.thy ===== *)
theory Sizing
  imports Capacity
begin

text \<open>
  The search of the sizing tool, \<open>src/tools/sizing.cpp\<close>: the bracket around the smallest segment
  that holds a map (\<open>find_minimum\<close>), the margin, and the figures \<open>measure\<close> derives from them up to
  the recommended size. A trial builds a segment of one size with the library of the maps; what it
  answers is a parameter that may change from one attempt to the next, so nothing is assumed of it.
\<close>

section \<open>Trials\<close>

text \<open>A \<open>measurement_failed\<close>, or any other exception.\<close>

datatype measurement_failure = Measurement_failed | Exception_thrown

datatype trial = Builds | Does_not_fit | Trial_failed measurement_failure

type_synonym trials = "nat \<Rightarrow> u64 \<Rightarrow> trial"

type_synonym 'a measured = "measurement_failure + 'a"

section \<open>The bracket\<close>

record bracket =
  br_lower :: u64
  br_upper :: u64

text \<open>
  The first loop, which may never end: a size of one grows by nothing. The second number is the
  count of attempts, which is also how the trial is told from the ones before it.
\<close>

partial_function (option) grow_upper ::
  "trials \<Rightarrow> u64 \<Rightarrow> u64 \<Rightarrow> nat \<Rightarrow> ((u64 \<times> u64) option measured \<times> nat) option" where
  "grow_upper fits lo hi n =
    (case fits n hi of
       Trial_failed e \<Rightarrow> Some (Inl e, n + 1)
     | Builds \<Rightarrow> Some (Inr (Some (lo, hi)), n + 1)
     | Does_not_fit \<Rightarrow>
         (let lo = hi; hi = hi + hi div 2
          in if hi > push_bit 42 1 then Some (Inr None, n + 1) else grow_upper fits lo hi (n + 1)))"

function shrink_lower :: "trials \<Rightarrow> u64 \<Rightarrow> u64 \<Rightarrow> nat \<Rightarrow> (u64 \<times> u64) measured \<times> nat" where
  "shrink_lower fits lo hi n =
    (if lo = 0 then (Inr (lo, hi), n)
     else (case fits n lo of
             Trial_failed e \<Rightarrow> (Inl e, n + 1)
           | Does_not_fit \<Rightarrow> (Inr (lo, hi), n + 1)
           | Builds \<Rightarrow> shrink_lower fits (lo div 2) lo (n + 1)))"
  by pat_completeness auto
termination
  by (relation "measure (\<lambda>(_, lo, _, _). unat lo)") (auto simp: unat_div_distrib unat_gt_0)

lemma bisect_halves:
  fixes lo hi e :: u64
  assumes "hi - lo > max 1 e"
  shows "unat ((lo + (hi - lo) div 2) - lo) < unat (hi - lo)" "unat (hi - (lo + (hi - lo) div 2)) < unat (hi - lo)"
    "unat ((hi - lo) div 2) > 0"
proof -
  define d where "d = hi - lo"
  have "1 < d" using assms by (simp add: d_def)
  then have d: "1 < unat d" by (simp add: word_less_nat_alt)
  have half: "unat (d div 2) = unat d div 2" by (simp add: unat_div_distrib)
  have "unat (d - d div 2) = unat d - unat d div 2"
    using half by (simp add: unat_sub_if' )
  then show "unat ((lo + (hi - lo) div 2) - lo) < unat (hi - lo)"
    "unat (hi - (lo + (hi - lo) div 2)) < unat (hi - lo)" "unat ((hi - lo) div 2) > 0"
    using d half by (simp_all add: d_def algebra_simps)
qed

function bisect :: "trials \<Rightarrow> u64 \<Rightarrow> u64 \<Rightarrow> u64 \<Rightarrow> nat \<Rightarrow> bracket measured \<times> nat" where
  "bisect fits precision lo hi n =
    (if hi - lo > max 1 precision
     then (let mid = lo + (hi - lo) div 2
           in case fits n mid of
                Trial_failed e \<Rightarrow> (Inl e, n + 1)
              | Builds \<Rightarrow> bisect fits precision lo mid (n + 1)
              | Does_not_fit \<Rightarrow> bisect fits precision mid hi (n + 1))
     else (Inr \<lparr>br_lower = lo, br_upper = hi\<rparr>, n))"
  by pat_completeness auto
termination
  by (relation "measure (\<lambda>(_, _, lo, hi, _). unat (hi - lo))") (use bisect_halves(1,2) in auto)

declare shrink_lower.simps [simp del] bisect.simps [simp del]

definition find_minimum ::
  "trials \<Rightarrow> u64 \<Rightarrow> u64 \<Rightarrow> nat \<Rightarrow> (bracket measured \<times> nat) option" where
  "find_minimum fits estimate precision n =
    (case grow_upper fits (estimate div 2) estimate n of
       None \<Rightarrow> None
     | Some (Inl e, n) \<Rightarrow> Some (Inl e, n)
     | Some (Inr None, n) \<Rightarrow> Some (Inr \<lparr>br_lower = 0, br_upper = 0\<rparr>, n)
     | Some (Inr (Some (lo, hi)), n) \<Rightarrow>
         (case shrink_lower fits lo hi n of
            (Inl e, n) \<Rightarrow> Some (Inl e, n)
          | (Inr (lo, hi), n) \<Rightarrow>
              if lo = 0 then Some (Inr \<lparr>br_lower = 0, br_upper = hi\<rparr>, n)
              else Some (bisect fits precision lo hi n)))"

section \<open>The margin and the figures\<close>

definition margin_of :: "u64 \<Rightarrow> u64 \<Rightarrow> u64 measured" where
  "margin_of val percent =
    (if percent = 0 then Inr 0
     else if val > (u64_max - 99) div percent then Inl Measurement_failed
     else Inr ((val * percent + 99) div 100))"

definition step_of :: "u64 \<Rightarrow> nat option" where
  "step_of buckets = find (\<lambda>k. bucket_step k = buckets) [0 ..< 40]"

text \<open>
  \<open>measure\<close> up to the size it goes on with. What the map library says is a parameter: the buckets it
  gives for the capacity asked, the size of a stored pair and of its segment manager.
\<close>

record map_facts =
  mf_bucket_count :: u64
  mf_sizeof_pair :: u64
  mf_sizeof_segment_manager :: u64

record sizing_figures =
  sf_step :: "nat option"
  sf_rotation_threshold :: u64
  sf_slot_bytes :: u64
  sf_metadata_bytes :: u64
  sf_estimated_minimum :: u64
  sf_lower_bound :: u64
  sf_observed_minimum :: u64
  sf_precision :: u64
  sf_attempts :: nat
  sf_measured_overhead :: u64
  sf_margin_bytes :: u64
  sf_recommended :: u64

definition slot_bytes_of :: "map_facts \<Rightarrow> u64" where
  "slot_bytes_of m = mf_bucket_count m * mf_sizeof_pair m"

definition metadata_bytes_of :: "map_facts \<Rightarrow> u64" where
  "metadata_bytes_of m = (mf_bucket_count m div 15 + 1) * 16"

definition estimated_minimum :: "map_facts \<Rightarrow> u64" where
  "estimated_minimum m = slot_bytes_of m + metadata_bytes_of m + (mf_sizeof_segment_manager m + 4096)"

definition measured_overhead :: "map_facts \<Rightarrow> u64 \<Rightarrow> u64" where
  "measured_overhead m observed =
     (if observed > slot_bytes_of m + metadata_bytes_of m
      then observed - slot_bytes_of m - metadata_bytes_of m else 0)"

text \<open>Both ends are tried again, the lower one when there is one.\<close>

definition recheck :: "trials \<Rightarrow> bracket \<Rightarrow> nat \<Rightarrow> unit measured" where
  "recheck fits b n =
    (case fits n (br_upper b) of
       Trial_failed e \<Rightarrow> Inl e
     | upper_builds \<Rightarrow>
         (case (if br_lower b > 0 then fits (n + 1) (br_lower b) else Does_not_fit) of
            Trial_failed e \<Rightarrow> Inl e
          | lower_builds \<Rightarrow>
              if upper_builds \<noteq> Builds then Inl Measurement_failed
              else if lower_builds = Builds then Inl Measurement_failed else Inr ()))"

definition measure_floor ::
  "trials \<Rightarrow> map_facts \<Rightarrow> u64 \<Rightarrow> u64 \<Rightarrow> u64 option \<Rightarrow> sizing_figures measured option" where
  "measure_floor fits m margin_percent precision segment_override =
    (case find_minimum fits (estimated_minimum m) precision 0 of
       None \<Rightarrow> None
     | Some (Inl e, n) \<Rightarrow> Some (Inl e)
     | Some (Inr b, n) \<Rightarrow>
         if br_upper b = 0 then Some (Inl Measurement_failed)
         else (case recheck fits b n of
           Inl e \<Rightarrow> Some (Inl e)
         | Inr _ \<Rightarrow>
             (case margin_of (br_upper b) margin_percent of
                Inl e \<Rightarrow> Some (Inl e)
              | Inr margin \<Rightarrow> Some (Inr
                  \<lparr>sf_step = step_of (mf_bucket_count m),
                   sf_rotation_threshold = max_entries_for (mf_bucket_count m),
                   sf_slot_bytes = slot_bytes_of m, sf_metadata_bytes = metadata_bytes_of m,
                   sf_estimated_minimum = estimated_minimum m,
                   sf_lower_bound = br_lower b, sf_observed_minimum = br_upper b,
                   sf_precision = br_upper b - br_lower b, sf_attempts = n + 2,
                   sf_measured_overhead = measured_overhead m (br_upper b),
                   sf_margin_bytes = margin,
                   sf_recommended = (case segment_override of
                      Some given \<Rightarrow> given | None \<Rightarrow> br_upper b + margin)\<rparr>))))"

section \<open>The loops\<close>

text \<open>What is known of the ends of the bracket: some attempt built the one and not the other.\<close>

definition built_at :: "trials \<Rightarrow> nat \<Rightarrow> u64 \<Rightarrow> bool" where
  "built_at fits n s \<longleftrightarrow> (\<exists>k < n. fits k s = Builds)"

definition refused_at :: "trials \<Rightarrow> nat \<Rightarrow> u64 \<Rightarrow> bool" where
  "refused_at fits n s \<longleftrightarrow> (\<exists>k < n. fits k s = Does_not_fit)"

lemma built_at_mono: "built_at fits n s \<Longrightarrow> n \<le> n' \<Longrightarrow> built_at fits n' s"
  by (auto simp: built_at_def dest: less_le_trans)

lemma refused_at_mono: "refused_at fits n s \<Longrightarrow> n \<le> n' \<Longrightarrow> refused_at fits n' s"
  by (auto simp: refused_at_def dest: less_le_trans)

lemma built_at_Suc: "fits n s = Builds \<Longrightarrow> built_at fits (Suc n) s"
  by (auto simp: built_at_def)

lemma refused_at_Suc: "fits n s = Does_not_fit \<Longrightarrow> refused_at fits (Suc n) s"
  by (auto simp: refused_at_def)

lemma grown:
  fixes hi :: u64
  assumes "2 \<le> unat hi" "unat hi \<le> 2 ^ 63"
  shows "unat (hi + hi div 2) = unat hi + unat hi div 2" "unat hi < unat (hi + hi div 2)"
  using assms by (simp_all add: unat_word_ariths unat_div_distrib)

text \<open>An upper end that was built, with a lower end below it and no larger than \<open>2 ^ 63\<close>.\<close>

definition upper_end :: "trials \<Rightarrow> nat \<Rightarrow> u64 \<Rightarrow> u64 \<Rightarrow> bool" where
  "upper_end fits n lo hi \<longleftrightarrow> built_at fits n hi \<and> unat lo < unat hi \<and> unat hi \<le> 2 ^ 63"

lemma upper_end_mono: "upper_end fits n lo hi \<Longrightarrow> n \<le> n' \<Longrightarrow> upper_end fits n' lo hi"
  by (auto simp: upper_end_def intro: built_at_mono)

lemma grow_upper_returns:
  assumes "2 \<le> unat hi" "unat hi \<le> 2 ^ 63" "unat lo < unat hi"
  shows "\<exists>r n'. grow_upper fits lo hi n = Some (r, n') \<and> n < n'
    \<and> (case r of Inr (Some (lo', hi')) \<Rightarrow> upper_end fits n' lo' hi' | _ \<Rightarrow> True)"
  using assms
proof (induction "2 ^ 64 - unat hi" arbitrary: lo hi n rule: less_induct)
  case less
  show ?case
  proof (cases "fits n hi")
    case Builds
    then show ?thesis using less.prems by (subst grow_upper.simps) (simp add: built_at_Suc upper_end_def)
  next
    case (Trial_failed e)
    then show ?thesis by (subst grow_upper.simps) simp
  next
    case Does_not_fit
    show ?thesis
    proof (cases "hi + hi div 2 > push_bit 42 1")
      case True
      then show ?thesis using Does_not_fit by (subst grow_upper.simps) (simp add: Let_def)
    next
      case False
      note g = grown[OF less.prems(1,2)]
      have b: "2 \<le> unat (hi + hi div 2)" "unat (hi + hi div 2) \<le> 2 ^ 63"
        using g(2) less.prems(1) False by (simp_all add: word_less_nat_alt)
      have "2 ^ 64 - unat (hi + hi div 2) < 2 ^ 64 - unat hi"
        using g(2) unat_u64_less[of "hi + hi div 2"] by linarith
      from less.hyps[OF this b g(2), of "n + 1"] show ?thesis
        using Does_not_fit False by (subst grow_upper.simps) (auto simp: Let_def intro: Suc_lessD)
    qed
  qed
qed

lemma shrink_lower_spec:
  assumes "shrink_lower fits lo hi n = (r, n')" "upper_end fits n lo hi"
  shows "n \<le> n' \<and> (case r of
      Inr (lo', hi') \<Rightarrow> upper_end fits n' lo' hi' \<and> (lo' = 0 \<or> refused_at fits n' lo')
    | _ \<Rightarrow> True)"
  using assms
proof (induction fits lo hi n rule: shrink_lower.induct)
  case (1 fits lo hi n)
  show ?case
  proof (cases "lo = 0 \<or> fits n lo \<noteq> Builds")
    case True
    then show ?thesis
      using "1.prems" upper_end_mono[OF "1.prems"(2), of "Suc n"]
      by (subst (asm) shrink_lower.simps) (auto simp: refused_at_Suc split: trial.splits if_splits)
  next
    case False
    then have run: "shrink_lower fits (lo div 2) lo (n + 1) = (r, n')"
      using "1.prems"(1) by (subst (asm) shrink_lower.simps) simp
    have "0 < unat lo" using False by (simp add: unat_gt_0)
    then have "upper_end fits (n + 1) (lo div 2) lo"
      using False "1.prems"(2) by (simp add: upper_end_def built_at_Suc unat_div_distrib)
    from "1.IH"[OF _ _ run this] False show ?thesis by auto
  qed
qed

lemma bisect_spec:
  assumes "bisect fits precision lo hi n = (r, n')" "upper_end fits n lo hi" "refused_at fits n lo"
  shows "n \<le> n' \<and> (case r of
      Inr b \<Rightarrow> upper_end fits n' (br_lower b) (br_upper b) \<and> refused_at fits n' (br_lower b)
        \<and> br_upper b - br_lower b \<le> max 1 precision
    | _ \<Rightarrow> True)"
  using assms
proof (induction fits precision lo hi n rule: bisect.induct)
  case (1 fits precision lo hi n)
  show ?case
  proof (cases "hi - lo > max 1 precision")
    case False
    then have "bisect fits precision lo hi n = (Inr \<lparr>br_lower = lo, br_upper = hi\<rparr>, n)"
      by (subst bisect.simps) (simp only: if_False)
    moreover have "hi - lo \<le> max 1 precision" using False by (simp only: not_less)
    ultimately show ?thesis using "1.prems" by auto
  next
    case True
    let ?mid = "lo + (hi - lo) div 2"
    have le: "unat lo \<le> unat hi" using "1.prems"(2) by (simp add: upper_end_def)
    have d: "unat (hi - lo) = unat hi - unat lo" using le by (simp add: unat_sub word_le_nat_alt)
    have "unat lo + (unat hi - unat lo) div 2 < 2 ^ 64" using unat_u64_less[of hi] le by linarith
    then have mid: "unat ?mid = unat lo + (unat hi - unat lo) div 2"
      by (simp add: unat_word_ariths unat_div_distrib d)
    have below: "unat ?mid \<le> unat hi" using mid le by linarith
    have half: "0 < (unat hi - unat lo) div 2" using bisect_halves(3)[OF True] d by (simp add: unat_div_distrib)
    show ?thesis
    proof (cases "fits n ?mid")
      case Builds
      then have run: "bisect fits precision lo ?mid (n + 1) = (r, n')"
        using "1.prems"(1) True by (subst (asm) bisect.simps) (simp add: Let_def)
      have "upper_end fits (n + 1) lo ?mid"
        using Builds "1.prems"(2) mid half below order_trans[OF below]
        by (auto simp: upper_end_def built_at_Suc)
      from "1.IH"(1)[OF True refl Builds run this] refused_at_mono[OF "1.prems"(3)] show ?thesis by auto
    next
      case Does_not_fit
      then have run: "bisect fits precision ?mid hi (n + 1) = (r, n')"
        using "1.prems"(1) True by (subst (asm) bisect.simps) (simp add: Let_def)
      have "upper_end fits (n + 1) ?mid hi"
        using upper_end_mono[OF "1.prems"(2), of "n + 1"] mid half by (simp add: upper_end_def)
      from "1.IH"(2)[OF True refl Does_not_fit run this] Does_not_fit show ?thesis
        by (auto simp: refused_at_Suc)
    next
      case (Trial_failed e)
      then show ?thesis
        using "1.prems"(1) True by (subst (asm) bisect.simps) (auto simp: Let_def)
    qed
  qed
qed

lemma find_minimum_spec:
  assumes "2 \<le> unat estimate" "unat estimate \<le> 2 ^ 63"
  shows "\<exists>r n'. find_minimum fits estimate precision n = Some (r, n')
    \<and> (case r of
         Inr b \<Rightarrow> br_upper b = 0 \<and> br_lower b = 0
           \<or> upper_end fits n' (br_lower b) (br_upper b)
             \<and> (br_lower b = 0
                \<or> refused_at fits n' (br_lower b) \<and> br_upper b - br_lower b \<le> max 1 precision)
       | Inl _ \<Rightarrow> True)"
proof -
  have "unat (estimate div 2) < unat estimate" using assms(1) by (simp add: unat_div_distrib)
  from grow_upper_returns[OF assms this] obtain g n1 where
    g: "grow_upper fits (estimate div 2) estimate n = Some (g, n1)"
    "case g of Inr (Some (lo', hi')) \<Rightarrow> upper_end fits n1 lo' hi' | _ \<Rightarrow> True" by blast
  show ?thesis
  proof (cases "\<exists>lo hi. g = Inr (Some (lo, hi))")
    case False
    then show ?thesis using g(1) by (cases g) (auto simp: find_minimum_def split: option.splits)
  next
    case True
    then obtain lo hi where lh: "g = Inr (Some (lo, hi))" by blast
    have up: "upper_end fits n1 lo hi" using g(2) lh by simp
    obtain s n2 where s: "shrink_lower fits lo hi n1 = (s, n2)" by fastforce
    note sp = shrink_lower_spec[OF s up]
    show ?thesis
    proof (cases s)
      case (Inl e)
      then show ?thesis using g(1) s lh by (simp add: find_minimum_def)
    next
      case (Inr b)
      obtain lo2 hi2 where b: "b = (lo2, hi2)" by (cases b)
      show ?thesis
      proof (cases "lo2 = 0")
        case True
        then show ?thesis using g(1) s lh sp Inr b by (simp add: find_minimum_def)
      next
        case False
        obtain r n3 where r: "bisect fits precision lo2 hi2 n2 = (r, n3)" by fastforce
        have "find_minimum fits estimate precision n = Some (r, n3)"
          using g(1) s lh Inr b False r by (simp add: find_minimum_def)
        with bisect_spec[OF r] sp Inr b False show ?thesis by (cases r) auto
      qed
    qed
  qed
qed

section \<open>The margin\<close>

lemma div_bound: "(v > m div p) = (v * p > (m :: nat))" if "0 < p"
  using that by (metis div_less_iff_less_mult not_le)

lemma margin_of_exact:
  "margin_of v p = (if unat p = 0 then Inr 0
     else if 2 ^ 64 \<le> unat v * unat p + 99 then Inl Measurement_failed
     else Inr (word_of_nat ((unat v * unat p + 99) div 100)))"
proof (cases "p = 0")
  case False
  then have p: "0 < unat p" by (simp add: unat_gt_0)
  have "unat (u64_max - 99) = 2 ^ 64 - 100" by simp
  then have "(v > (u64_max - 99) div p) = (2 ^ 64 - 100 < unat v * unat p)"
    using p by (simp add: word_less_nat_alt unat_div_distrib div_bound)
  then have fits: "(v > (u64_max - 99) div p) = (2 ^ 64 \<le> unat v * unat p + 99)" by auto
  have "(v * p + 99) div 100 = word_of_nat ((unat v * unat p + 99) div 100)"
    if "unat v * unat p + 99 < 2 ^ 64"
  proof -
    have "unat (v * p + 99) = unat v * unat p + 99" using that by (simp add: unat_word_ariths)
    then have "unat ((v * p + 99) div 100) = (unat v * unat p + 99) div 100" by (simp add: unat_div_distrib)
    moreover have "(v * p + 99) div 100 = word_of_nat (unat ((v * p + 99) div 100))" by simp
    ultimately show ?thesis by (simp only:)
  qed
  then show ?thesis using False p fits by (simp add: margin_of_def not_le)
qed (simp add: margin_of_def)

section \<open>A threshold is found\<close>

text \<open>When every attempt answers by a threshold, as a map that needs so many bytes would, none fails.\<close>

definition threshold_trials :: "u64 \<Rightarrow> trials" where
  "threshold_trials t n s = (if t \<le> s then Builds else Does_not_fit)"

lemma threshold_built: "built_at (threshold_trials t) n s \<Longrightarrow> t \<le> s"
  by (auto simp: built_at_def threshold_trials_def split: if_splits)

lemma threshold_refused: "refused_at (threshold_trials t) n s \<Longrightarrow> s < t"
  by (auto simp: refused_at_def threshold_trials_def split: if_splits)

lemma grow_upper_threshold:
  assumes "2 \<le> unat hi" "unat hi \<le> 2 ^ 63" "unat t \<le> 2 ^ 41"
  shows "\<exists>lo' hi' n'. grow_upper (threshold_trials t) lo hi n = Some (Inr (Some (lo', hi')), n')"
  using assms
proof (induction "2 ^ 64 - unat hi" arbitrary: lo hi n rule: less_induct)
  case less
  show ?case
  proof (cases "t \<le> hi")
    case True
    then show ?thesis by (subst grow_upper.simps) (simp add: threshold_trials_def)
  next
    case False
    note g = grown[OF less.prems(1,2)]
    have small: "unat hi < 2 ^ 41" using False less.prems(3) by (simp add: word_le_nat_alt)
    have b: "2 \<le> unat (hi + hi div 2)" "unat (hi + hi div 2) \<le> 2 ^ 63"
      using g less.prems(1) small by simp_all
    have "\<not> hi + hi div 2 > push_bit 42 1"
      using g(1) small by (simp add: word_less_nat_alt)
    moreover have "2 ^ 64 - unat (hi + hi div 2) < 2 ^ 64 - unat hi"
      using g(2) unat_u64_less[of "hi + hi div 2"] by linarith
    note less.hyps[OF this b less.prems(3), of hi "n + 1"]
    ultimately show ?thesis
      using False by (subst grow_upper.simps) (simp add: threshold_trials_def Let_def)
  qed
qed

lemma shrink_lower_threshold: "\<exists>lo' hi'. fst (shrink_lower (threshold_trials t) lo hi n) = Inr (lo', hi')"
proof (induction "threshold_trials t" lo hi n rule: shrink_lower.induct)
  case (1 lo hi n)
  then show ?case by (subst shrink_lower.simps) (auto simp: threshold_trials_def)
qed

lemma bisect_threshold: "\<exists>b. fst (bisect (threshold_trials t) precision lo hi n) = Inr b"
proof (induction "threshold_trials t" precision lo hi n rule: bisect.induct)
  case (1 precision lo hi n)
  then show ?case by (subst bisect.simps) (auto simp: threshold_trials_def Let_def)
qed

lemma find_minimum_threshold:
  assumes "2 \<le> unat estimate" "unat estimate \<le> 2 ^ 63" "0 < t" "unat t \<le> 2 ^ 41"
  shows "\<exists>b n'. find_minimum (threshold_trials t) estimate precision n = Some (Inr b, n')
    \<and> br_lower b < t \<and> t \<le> br_upper b
    \<and> (br_lower b = 0 \<or> br_upper b - br_lower b \<le> max 1 precision)"
proof -
  let ?fits = "threshold_trials t"
  obtain lo hi n1 where g: "grow_upper ?fits (estimate div 2) estimate n = Some (Inr (Some (lo, hi)), n1)"
    using grow_upper_threshold[OF assms(1,2,4)] by blast
  have "unat (estimate div 2) < unat estimate" using assms(1) by (simp add: unat_div_distrib)
  from grow_upper_returns[OF assms(1,2) this, of ?fits n] g
  have up: "upper_end ?fits n1 lo hi" by simp
  obtain lo2 hi2 n2 where s: "shrink_lower ?fits lo hi n1 = (Inr (lo2, hi2), n2)"
    using shrink_lower_threshold[of t lo hi n1] by (metis prod.collapse)
  note sp = shrink_lower_spec[OF s up]
  show ?thesis
  proof (cases "lo2 = 0")
    case True
    then show ?thesis
      using g s sp assms(3) threshold_built[of t n2 hi2] by (simp add: find_minimum_def upper_end_def)
  next
    case False
    obtain b n3 where r: "bisect ?fits precision lo2 hi2 n2 = (Inr b, n3)"
      using bisect_threshold[of t precision lo2 hi2 n2] by (metis prod.collapse)
    have "find_minimum ?fits estimate precision n = Some (Inr b, n3)"
      using g s False r by (simp add: find_minimum_def)
    moreover have "upper_end ?fits n3 (br_lower b) (br_upper b)" "refused_at ?fits n3 (br_lower b)"
      "br_upper b - br_lower b \<le> max 1 precision"
      using bisect_spec[OF r] sp False by auto
    ultimately show ?thesis
      using threshold_built[of t n3 "br_upper b"] threshold_refused[of t n3 "br_lower b"]
      by (simp add: upper_end_def)
  qed
qed

section \<open>Property\<close>

definition tried_twice :: "trials \<Rightarrow> trial \<Rightarrow> u64 \<Rightarrow> bool" where
  "tried_twice fits answer s \<longleftrightarrow> (\<exists>k j. k < j \<and> fits k s = answer \<and> fits j s = answer)"

lemma recheck_passes:
  assumes "recheck fits b n = Inr ()"
  shows "fits n (br_upper b) = Builds" "br_lower b = 0 \<or> fits (n + 1) (br_lower b) = Does_not_fit"
  using assms by (auto simp: recheck_def word_gt_0 split: trial.splits if_splits)

lemma measure_floor_spec:
  assumes "2 \<le> unat (estimated_minimum m)" "unat (estimated_minimum m) \<le> 2 ^ 63"
  shows "\<exists>r. measure_floor fits m percent precision None = Some r
    \<and> (case r of Inl _ \<Rightarrow> True | Inr f \<Rightarrow>
         tried_twice fits Builds (sf_observed_minimum f)
         \<and> (sf_lower_bound f = 0 \<or> tried_twice fits Does_not_fit (sf_lower_bound f)
              \<and> sf_precision f \<le> max 1 precision)
         \<and> unat (sf_observed_minimum f) = unat (sf_lower_bound f) + unat (sf_precision f)
         \<and> unat (sf_recommended f) = unat (sf_observed_minimum f)
              + (unat (sf_observed_minimum f) * unat percent + 99) div 100)"
proof -
  obtain r n where find: "find_minimum fits (estimated_minimum m) precision 0 = Some (r, n)"
    and sp: "case r of
         Inr b \<Rightarrow> br_upper b = 0 \<and> br_lower b = 0
           \<or> upper_end fits n (br_lower b) (br_upper b)
             \<and> (br_lower b = 0
                \<or> refused_at fits n (br_lower b) \<and> br_upper b - br_lower b \<le> max 1 precision)
       | Inl _ \<Rightarrow> True"
    using find_minimum_spec[OF assms] by blast
  show ?thesis
  proof (cases r)
    case (Inl e)
    then show ?thesis using find by (simp add: measure_floor_def)
  next
    case (Inr b)
    show ?thesis
    proof (cases "br_upper b = 0 \<or> recheck fits b n \<noteq> Inr () \<or> (\<exists>e. margin_of (br_upper b) percent = Inl e)")
      case True
      then show ?thesis using find Inr by (auto simp: measure_floor_def split: sum.splits)
    next
      case False
      then obtain margin where margin: "margin_of (br_upper b) percent = Inr margin" by (cases "margin_of (br_upper b) percent") auto
      have rc: "recheck fits b n = Inr ()" and nz: "br_upper b \<noteq> 0" using False by auto
      have up: "upper_end fits n (br_lower b) (br_upper b)"
        and low: "br_lower b = 0 \<or> refused_at fits n (br_lower b) \<and> br_upper b - br_lower b \<le> max 1 precision"
        using sp nz Inr by auto
      have twice: "tried_twice fits Builds (br_upper b)"
        using up recheck_passes(1)[OF rc] by (auto simp: upper_end_def built_at_def tried_twice_def)
      have twice': "br_lower b = 0 \<or> tried_twice fits Does_not_fit (br_lower b)"
        using low recheck_passes(2)[OF rc] by (auto simp: refused_at_def tried_twice_def intro: less_SucI)
      have diff: "unat (br_upper b) = unat (br_lower b) + unat (br_upper b - br_lower b)"
        using up by (simp add: upper_end_def unat_sub word_le_nat_alt)
      let ?v = "unat (br_upper b)"
      let ?m = "(?v * unat percent + 99) div 100"
      have "?v * unat percent + 99 < 2 ^ 64 \<or> unat percent = 0" and m: "margin = word_of_nat ?m"
        using margin by (auto simp: margin_of_exact split: if_splits)
      then have "?m < 2 ^ 63" by auto
      then have "unat (br_upper b + margin) = ?v + ?m"
        using up m by (simp add: upper_end_def unat_word_ariths unat_of_nat)
      then show ?thesis
        using find Inr nz rc margin twice twice' low diff by (auto simp: measure_floor_def)
    qed
  qed
qed

text \<open>
  The sizing tool always returns, whatever its trials answer, and what it reports was observed:
  the size it calls the floor was built at two attempts, the size below it was refused at two (or is
  zero) and is within the precision asked, and the recommendation is the floor and its margin,
  rounded up, with no wrap-around. When the trials answer by a threshold the bracket encloses it.
\<close>

theorem measured_floor_verified:
  assumes "2 \<le> unat (estimated_minimum m)" and "unat (estimated_minimum m) \<le> 2 ^ 63"
  shows "(\<exists>r. measure_floor fits m percent precision None = Some r
    \<and> (case r of Inl _ \<Rightarrow> True | Inr f \<Rightarrow>
         tried_twice fits Builds (sf_observed_minimum f)
         \<and> (sf_lower_bound f = 0 \<or> tried_twice fits Does_not_fit (sf_lower_bound f)
              \<and> sf_precision f \<le> max 1 precision)
         \<and> unat (sf_observed_minimum f) = unat (sf_lower_bound f) + unat (sf_precision f)
         \<and> unat (sf_recommended f) = unat (sf_observed_minimum f)
              + (unat (sf_observed_minimum f) * unat percent + 99) div 100))
    \<and> (\<forall>t. 0 < t \<longrightarrow> unat t \<le> 2 ^ 41 \<longrightarrow>
        (\<exists>b n. find_minimum (threshold_trials t) (estimated_minimum m) precision 0 = Some (Inr b, n)
          \<and> br_lower b < t \<and> t \<le> br_upper b
          \<and> (br_lower b = 0 \<or> br_upper b - br_lower b \<le> max 1 precision)))"
  using measure_floor_spec[OF assms] find_minimum_threshold[OF assms] by blast

theorem measured_floor_verified_witness:
  "let m = \<lparr>mf_bucket_count = bucket_step 11, mf_sizeof_pair = 88, mf_sizeof_segment_manager = 512\<rparr>
   in \<exists>b n. find_minimum (threshold_trials 2700000) (estimated_minimum m) 4096 0 = Some (Inr b, n)
     \<and> br_lower b < 2700000 \<and> 2700000 \<le> br_upper b
     \<and> (br_lower b = 0 \<or> br_upper b - br_lower b \<le> 4096)"
proof -
  let ?m = "\<lparr>mf_bucket_count = bucket_step 11, mf_sizeof_pair = 88, mf_sizeof_segment_manager = 512\<rparr>"
  have "estimated_minimum ?m = 2740648"
    by (simp add: estimated_minimum_def slot_bytes_of_def metadata_bytes_of_def bucket_step_def)
  then have "2 \<le> unat (estimated_minimum ?m)" "unat (estimated_minimum ?m) \<le> 2 ^ 63" by simp_all
  from measured_floor_verified[OF this, of "threshold_trials 2700000" 5 4096] show ?thesis
    unfolding Let_def by (elim conjE allE[where x = 2700000]) simp
qed

end
