(* ===== verification/Sizing_Tool.thy ===== *)
theory Sizing_Tool
  imports Sizing Containers
begin

text \<open>
  The rest of the sizing tool, \<open>src/tools/sizing.cpp\<close>: one segment built the way the store builds it,
  the experiments \<open>measure\<close> makes on the recommended size (the physical figures, the fill, the growth),
  the command line and the exit status. What the libraries of the segments and of the maps answer is
  a laboratory, a record of functions that may answer differently at every moment; nothing is assumed
  of it except that the tables it offers are of a size a machine can have.
\<close>

section \<open>The laboratory\<close>

text \<open>A call that may run out of room in the segment, or throw something else.\<close>

datatype 'a library_call = Made 'a | Bad_alloc | Threw

record 'm lab =
  lb_sizeof_segment_manager :: u64
  lb_probe :: "u64 \<Rightarrow> u64 option"
  lb_create :: "nat \<Rightarrow> u64 \<Rightarrow> unit library_call"
  lb_place_stamp :: "nat \<Rightarrow> bool \<Rightarrow> bool"
  lb_construct :: "nat \<Rightarrow> u64 \<Rightarrow> u64 \<Rightarrow> 'm option library_call"
  lb_stamp_reads_back :: "nat \<Rightarrow> bool"
  lb_bucket_count :: "'m \<Rightarrow> u64"
  lb_map_size :: "'m \<Rightarrow> u64"
  lb_emplace :: "nat \<Rightarrow> 'm \<Rightarrow> raw_outpoint \<Rightarrow> 'm library_call"
  lb_rehash :: "nat \<Rightarrow> 'm \<Rightarrow> u64 \<Rightarrow> 'm library_call"
  lb_file_size :: "nat \<Rightarrow> u64 option"
  lb_physical_bytes :: "nat \<Rightarrow> u64 option"

section \<open>One segment\<close>

text \<open>
  \<open>Inr None\<close> is the one answer about capacity. The stamp is placed before the map; \<open>fail_stamp\<close> asks
  for a second one.
\<close>

definition build_like_production :: "'m lab \<Rightarrow> nat \<Rightarrow> u64 \<Rightarrow> u64 \<Rightarrow> bool \<Rightarrow> 'm option measured" where
  "build_like_production lab n sz asked fail_stamp =
    (case lb_create lab n sz of
       Bad_alloc \<Rightarrow> Inr None
     | Threw \<Rightarrow> Inl Measurement_failed
     | Made _ \<Rightarrow>
       if \<not> lb_place_stamp lab n False then Inl Measurement_failed
       else if fail_stamp \<and> \<not> lb_place_stamp lab n True then Inl Measurement_failed
       else (case lb_construct lab n sz asked of
               Bad_alloc \<Rightarrow> Inr None
             | Threw \<Rightarrow> Inl Exception_thrown
             | Made None \<Rightarrow> Inr None
             | Made (Some m) \<Rightarrow>
                 if \<not> lb_stamp_reads_back lab n then Inl Measurement_failed else Inr (Some m)))"

definition fits_at :: "'m lab \<Rightarrow> u64 \<Rightarrow> u64 \<Rightarrow> trials" where
  "fits_at lab asked expected_buckets n sz =
    (case build_like_production lab n sz asked False of
       Inl e \<Rightarrow> Trial_failed e
     | Inr None \<Rightarrow> Does_not_fit
     | Inr (Some m) \<Rightarrow> if lb_bucket_count lab m = expected_buckets then Builds else Does_not_fit)"

section \<open>The experiments\<close>

text \<open>The key number \<open>i\<close>: the number in the first eight bytes of an outpoint of zeros.\<close>

definition numbered_key :: "u64 \<Rightarrow> raw_outpoint" where
  "numbered_key i = put64 i @ replicate (outpoint_size - 8) 0"

text \<open>The loops that insert keys \<open>i, i + 1, \<dots>\<close>, so many of them.\<close>

fun emplace_keys :: "'m lab \<Rightarrow> nat \<Rightarrow> u64 \<Rightarrow> nat \<Rightarrow> 'm \<Rightarrow> 'm option" where
  "emplace_keys lab n i 0 m = Some m"
| "emplace_keys lab n i (Suc k) m =
    (case lb_emplace lab n m (numbered_key i) of
       Made m \<Rightarrow> emplace_keys lab n (i + 1) k m
     | _ \<Rightarrow> None)"

record final_figures =
  ff_logical_size :: u64
  ff_physical_bytes :: "u64 option"
  ff_sparse :: bool

definition measure_final :: "'m lab \<Rightarrow> nat \<Rightarrow> u64 \<Rightarrow> u64 \<Rightarrow> bool \<Rightarrow> final_figures measured" where
  "measure_final lab n recommended asked fail_stamp =
    (case build_like_production lab n recommended asked fail_stamp of
       Inl e \<Rightarrow> Inl e
     | Inr None \<Rightarrow> Inl Measurement_failed
     | Inr (Some m) \<Rightarrow>
       (case lb_file_size lab n of
          None \<Rightarrow> Inl Exception_thrown
        | Some logical_size \<Rightarrow>
            (let physical = lb_physical_bytes lab n
             in Inr \<lparr>ff_logical_size = logical_size, ff_physical_bytes = physical,
                  ff_sparse = (case physical of None \<Rightarrow> False | Some p \<Rightarrow> p < logical_size)\<rparr>)))"

record fill_figures =
  fl_entries_inserted :: u64
  fl_bucket_count_after_fill :: u64
  fl_rehashed_while_filling :: bool
  fl_physical_after_fill :: "u64 option"

text \<open>Asked for and not done is a failed measurement, whatever the exception.\<close>

definition measure_fill :: "'m lab \<Rightarrow> nat \<Rightarrow> u64 \<Rightarrow> u64 \<Rightarrow> u64 \<Rightarrow> fill_figures measured" where
  "measure_fill lab n recommended asked rotation_threshold =
    (case build_like_production lab n recommended asked False of
       Inr (Some m) \<Rightarrow>
         (case emplace_keys lab n 0 (unat rotation_threshold) m of
            None \<Rightarrow> Inl Measurement_failed
          | Some m' \<Rightarrow> Inr \<lparr>fl_entries_inserted = lb_map_size lab m',
              fl_bucket_count_after_fill = lb_bucket_count lab m',
              fl_rehashed_while_filling = (lb_bucket_count lab m' \<noteq> lb_bucket_count lab m),
              fl_physical_after_fill = lb_physical_bytes lab n\<rparr>)
     | _ \<Rightarrow> Inl Measurement_failed)"

definition measure_growth :: "'m lab \<Rightarrow> nat \<Rightarrow> u64 \<Rightarrow> u64 \<Rightarrow> u64 \<Rightarrow> u64 \<Rightarrow> bool measured" where
  "measure_growth lab n recommended asked rotation_threshold next_bucket_count =
    (case build_like_production lab n recommended asked False of
       Inr (Some m) \<Rightarrow>
         (case emplace_keys lab n 0 (unat (min 1000 rotation_threshold)) m of
            None \<Rightarrow> Inl Measurement_failed
          | Some m \<Rightarrow>
            (case lb_rehash lab n m next_bucket_count of
               Made m \<Rightarrow> Inr (lb_bucket_count lab m \<ge> next_bucket_count)
             | Bad_alloc \<Rightarrow> Inr False
             | Threw \<Rightarrow> Inl Measurement_failed))
     | _ \<Rightarrow> Inl Measurement_failed)"

section \<open>A measurement\<close>

record tool_report = sizing_figures +
  tr_class_name :: string
  tr_container_kind :: u32
  tr_sizeof_value :: u64
  tr_sizeof_pair :: u64
  tr_asked :: u64
  tr_bucket_count :: u64
  tr_segment_override :: u64
  tr_final :: final_figures
  tr_fill :: "fill_figures option"
  tr_next_bucket_count :: u64
  tr_next_builds_alone :: bool
  tr_next_coexists_via_rehash :: bool

text \<open>The class as the dispatch of \<open>main\<close> names it: its container, which gives the sizes and the kind.\<close>

record sizing_request =
  sq_class_name :: string
  sq_index :: u64
  sq_asked :: u64
  sq_margin :: u64
  sq_precision :: u64
  sq_fill :: bool
  sq_segment :: "u64 option"
  sq_fail_stamp :: bool

definition sizeof_stored_value :: "u64 \<Rightarrow> u64" where
  "sizeof_stored_value i = (if i = reference_sentinel_index then 12 else word_of_nat (container_sizes ! unat i))"

definition facts_of :: "'m lab \<Rightarrow> u64 \<Rightarrow> u64 \<Rightarrow> map_facts" where
  "facts_of lab i bucket_count = \<lparr>mf_bucket_count = bucket_count, mf_sizeof_pair = entry_size i,
     mf_sizeof_segment_manager = lb_sizeof_segment_manager lab\<rparr>"

definition measure :: "'m lab \<Rightarrow> sizing_request \<Rightarrow> tool_report measured option" where
  "measure lab q =
    (case lb_probe lab (sq_asked q) of
       None \<Rightarrow> Some (Inl Exception_thrown)
     | Some bucket_count \<Rightarrow>
       (case measure_floor (fits_at lab (sq_asked q) bucket_count) (facts_of lab (sq_index q) bucket_count)
               (sq_margin q) (sq_precision q) (sq_segment q) of
          None \<Rightarrow> None
        | Some (Inl e) \<Rightarrow> Some (Inl e)
        | Some (Inr f) \<Rightarrow>
          (let n = sf_attempts f; recommended = sf_recommended f; threshold = sf_rotation_threshold f;
               next = next_bucket_step bucket_count
           in Some
            (case measure_final lab n recommended (sq_asked q) (sq_fail_stamp q) of
               Inl e \<Rightarrow> Inl e
             | Inr final \<Rightarrow>
               (case (if sq_fill q then map_sum id Some (measure_fill lab (n + 1) recommended (sq_asked q) threshold)
                      else Inr None) of
                  Inl e \<Rightarrow> Inl e
                | Inr fill \<Rightarrow>
                  (case fits_at lab next next (n + 2) recommended of
                     Trial_failed e \<Rightarrow> Inl e
                   | alone \<Rightarrow>
                     (case measure_growth lab (n + 3) recommended (sq_asked q) threshold next of
                        Inl e \<Rightarrow> Inl e
                      | Inr coexists \<Rightarrow> Inr (sizing_figures.extend f
                          \<lparr>tr_class_name = sq_class_name q, tr_container_kind = kind_of_index (sq_index q),
                           tr_sizeof_value = sizeof_stored_value (sq_index q),
                           tr_sizeof_pair = entry_size (sq_index q), tr_asked = sq_asked q,
                           tr_bucket_count = bucket_count,
                           tr_segment_override = (case sq_segment q of None \<Rightarrow> 0 | Some g \<Rightarrow> g),
                           tr_final = final, tr_fill = fill, tr_next_bucket_count = next,
                           tr_next_builds_alone = (alone = Builds),
                           tr_next_coexists_via_rehash = coexists\<rparr>))))))))"

section \<open>The command line\<close>

text \<open>\<open>std::from_chars\<close> into a \<open>size_t\<close>, all of the text and nothing but digits.\<close>

definition to_size :: "string \<Rightarrow> u64 option" where
  "to_size s = (if s = [] \<or> \<not> list_all is_digit s \<or> 2 ^ 64 \<le> undec s then None
                else Some (word_of_nat (undec s)))"

record sizing_arguments =
  sa_class :: string
  sa_format :: string
  sa_output :: string
  sa_buckets :: "u64 option"
  sa_step :: "u64 option"
  sa_margin :: u64
  sa_fill :: bool
  sa_fail_stamp :: bool
  sa_segment :: "u64 option"
  sa_precision :: "u64 option"

definition no_sizing_arguments :: sizing_arguments where
  "no_sizing_arguments = \<lparr>sa_class = [], sa_format = ''text'', sa_output = [], sa_buckets = None, sa_step = None,
     sa_margin = 5, sa_fill = False, sa_fail_stamp = False, sa_segment = None, sa_precision = None\<rparr>"

text \<open>The options that take the word after them; \<open>Inl\<close> is an exit status.\<close>

definition valued_option :: "string \<Rightarrow> string \<Rightarrow> sizing_arguments \<Rightarrow> (nat + sizing_arguments) option" where
  "valued_option arg val a =
    (let number = (\<lambda>field. case to_size val of None \<Rightarrow> Inl 2 | Some v \<Rightarrow> Inr (field v))
     in if arg = ''--class'' then Some (Inr (a\<lparr>sa_class := val\<rparr>))
        else if arg = ''--buckets'' then Some (number (\<lambda>v. a\<lparr>sa_buckets := Some v\<rparr>))
        else if arg = ''--step'' then Some (number (\<lambda>v. a\<lparr>sa_step := Some v\<rparr>))
        else if arg = ''--margin'' then Some (number (\<lambda>v. a\<lparr>sa_margin := v\<rparr>))
        else if arg = ''--precision'' then Some (number (\<lambda>v. a\<lparr>sa_precision := Some v\<rparr>))
        else if arg = ''--format'' then Some (Inr (a\<lparr>sa_format := val\<rparr>))
        else if arg = ''--output'' then Some (Inr (a\<lparr>sa_output := val\<rparr>))
        else if arg = ''--work'' then Some (Inr a)
        else if arg = ''--segment'' then Some (number (\<lambda>v. a\<lparr>sa_segment := Some v\<rparr>))
        else None)"

fun parse_sizing :: "string list \<Rightarrow> sizing_arguments \<Rightarrow> nat + sizing_arguments" where
  "parse_sizing [] a = Inr a"
| "parse_sizing [arg] a =
    (if valued_option arg [] a \<noteq> None then Inl 2
     else if arg = ''--fill'' then Inr (a\<lparr>sa_fill := True\<rparr>)
     else if arg = ''--fail-stamp'' then Inr (a\<lparr>sa_fail_stamp := True\<rparr>)
     else if arg = ''--help'' \<or> arg = ''-h'' then Inl 0
     else Inl 2)"
| "parse_sizing (arg # val # args) a =
    (case valued_option arg val a of
       Some (Inl status) \<Rightarrow> Inl status
     | Some (Inr a) \<Rightarrow> parse_sizing args a
     | None \<Rightarrow>
         if arg = ''--fill'' then parse_sizing (val # args) (a\<lparr>sa_fill := True\<rparr>)
         else if arg = ''--fail-stamp'' then parse_sizing (val # args) (a\<lparr>sa_fail_stamp := True\<rparr>)
         else if arg = ''--help'' \<or> arg = ''-h'' then Inl 0
         else Inl 2)"

text \<open>The checks in their order; what passes is the number of buckets.\<close>

definition check_arguments :: "sizing_arguments \<Rightarrow> u64 option" where
  "check_arguments a =
    (if sa_class a = [] then None
     else if sa_format a \<noteq> ''text'' \<and> sa_format a \<noteq> ''json'' then None
     else if sa_buckets a \<noteq> None \<and> sa_step a \<noteq> None then None
     else if (case sa_step a of Some k \<Rightarrow> k > 39 | None \<Rightarrow> False) then None
     else
      (case (case sa_step a of Some k \<Rightarrow> Some (bucket_step (unat k)) | None \<Rightarrow> sa_buckets a) of
         None \<Rightarrow> None
       | Some buckets \<Rightarrow>
           if buckets = 0 then None
           else if sa_precision a = Some 0 then None
           else if sa_segment a = Some 0 then None
           else Some buckets))"

definition class_index :: "string \<Rightarrow> u64 option" where
  "class_index cls =
    (if cls = ''48'' then Some 0 else if cls = ''96'' then Some 1 else if cls = ''128'' then Some 2
     else if cls = ''256'' then Some 3 else if cls = ''10240'' then Some 4
     else if cls = ''reference'' then Some reference_sentinel_index else None)"

definition request_of :: "sizing_arguments \<Rightarrow> u64 \<Rightarrow> u64 \<Rightarrow> sizing_request" where
  "request_of a buckets i =
     \<lparr>sq_class_name = sa_class a, sq_index = i, sq_asked = buckets, sq_margin = sa_margin a,
      sq_precision = (case sa_precision a of Some p \<Rightarrow> p | None \<Rightarrow> max 4096 (buckets * entry_size i div 2048)),
      sq_fill = sa_fill a, sq_segment = sa_segment a, sq_fail_stamp = sa_fail_stamp a\<rparr>"

text \<open>
  \<open>main\<close>: the exit status, with the report that was presented when there is one. A file that is named
  must open and take all of the text; what is written to the standard output is not checked. The
  default of \<open>--work\<close> is asked of the system first, which may raise.
\<close>

definition sizing_main ::
  "(u64 \<Rightarrow> 'm lab) \<Rightarrow> bool \<Rightarrow> (string \<Rightarrow> tool_report \<Rightarrow> bool) \<Rightarrow> string list \<Rightarrow> (nat \<times> tool_report option) option" where
  "sizing_main labs temp_directory file_written args =
    (if \<not> temp_directory then Some (1, None) else case parse_sizing args no_sizing_arguments of
       Inl status \<Rightarrow> Some (status, None)
     | Inr a \<Rightarrow>
       (case check_arguments a of
          None \<Rightarrow> Some (2, None)
        | Some buckets \<Rightarrow>
          (case class_index (sa_class a) of
             None \<Rightarrow> Some (2, None)
           | Some i \<Rightarrow>
             (case measure (labs i) (request_of a buckets i) of
                None \<Rightarrow> None
              | Some (Inl Measurement_failed) \<Rightarrow> Some (3, None)
              | Some (Inl Exception_thrown) \<Rightarrow> Some (1, None)
              | Some (Inr r) \<Rightarrow>
                  if sa_output a = [] \<or> file_written (sa_output a) r then Some (0, Some r)
                  else Some (1, None)))))"

section \<open>What a report rests on\<close>

lemma measure_floor_override:
  "measure_floor fits m percent precision (Some g)
    = map_option (map_sum id (\<lambda>f. f\<lparr>sf_recommended := g\<rparr>)) (measure_floor fits m percent precision None)"
  by (simp add: measure_floor_def split: option.split sum.split)

lemma measure_floor_threshold:
  "measure_floor fits m percent precision over = Some (Inr f)
    \<Longrightarrow> sf_rotation_threshold f = max_entries_for (mf_bucket_count m)"
  by (auto simp: measure_floor_def split: option.splits sum.splits if_splits)

text \<open>The bracket of a report and its recommendation.\<close>

definition floor_observed :: "trials \<Rightarrow> u64 \<Rightarrow> u64 \<Rightarrow> u64 option \<Rightarrow> 'a sizing_figures_scheme \<Rightarrow> bool" where
  "floor_observed fits percent precision segment f \<longleftrightarrow>
     tried_twice fits Builds (sf_observed_minimum f)
     \<and> (sf_lower_bound f = 0 \<or> tried_twice fits Does_not_fit (sf_lower_bound f)
          \<and> sf_precision f \<le> max 1 precision)
     \<and> unat (sf_observed_minimum f) = unat (sf_lower_bound f) + unat (sf_precision f)
     \<and> (case segment of
          Some g \<Rightarrow> sf_recommended f = g
        | None \<Rightarrow> unat (sf_recommended f) = unat (sf_observed_minimum f)
                    + (unat (sf_observed_minimum f) * unat percent + 99) div 100)"

lemma measure_floor_observed:
  assumes "2 \<le> unat (estimated_minimum m)" "unat (estimated_minimum m) \<le> 2 ^ 63"
  shows "\<exists>r. measure_floor fits m percent precision segment = Some r
    \<and> (\<forall>f. r = Inr f \<longrightarrow> floor_observed fits percent precision segment f)"
proof -
  obtain r where r: "measure_floor fits m percent precision None = Some r"
    and spec: "case r of Inl _ \<Rightarrow> True | Inr f \<Rightarrow>
         tried_twice fits Builds (sf_observed_minimum f)
         \<and> (sf_lower_bound f = 0 \<or> tried_twice fits Does_not_fit (sf_lower_bound f)
              \<and> sf_precision f \<le> max 1 precision)
         \<and> unat (sf_observed_minimum f) = unat (sf_lower_bound f) + unat (sf_precision f)
         \<and> unat (sf_recommended f) = unat (sf_observed_minimum f)
              + (unat (sf_observed_minimum f) * unat percent + 99) div 100"
    using measure_floor_spec[OF assms] by blast
  show ?thesis
  proof (cases segment)
    case None
    then show ?thesis using r spec by (auto simp: floor_observed_def)
  next
    case (Some g)
    then show ?thesis using r spec by (cases r) (auto simp: floor_observed_def measure_floor_override)
  qed
qed

definition segment_built :: "'m lab \<Rightarrow> sizing_request \<Rightarrow> u64 \<Rightarrow> bool \<Rightarrow> nat \<Rightarrow> 'm \<Rightarrow> bool" where
  "segment_built lab q sz fail_stamp n m \<longleftrightarrow> build_like_production lab n sz (sq_asked q) fail_stamp = Inr (Some m)"

definition report_observed :: "'m lab \<Rightarrow> sizing_request \<Rightarrow> tool_report \<Rightarrow> bool" where
  "report_observed lab q r \<longleftrightarrow>
     lb_probe lab (sq_asked q) = Some (tr_bucket_count r)
     \<and> floor_observed (fits_at lab (sq_asked q) (tr_bucket_count r)) (sq_margin q) (sq_precision q) (sq_segment q) r
     \<and> (\<exists>n m. segment_built lab q (sf_recommended r) (sq_fail_stamp q) n m)
     \<and> (sq_fill q \<longrightarrow> (\<exists>n m m' fl. segment_built lab q (sf_recommended r) False n m
          \<and> emplace_keys lab n 0 (unat (max_entries_for (tr_bucket_count r))) m = Some m'
          \<and> tr_fill r = Some fl \<and> fl_entries_inserted fl = lb_map_size lab m'
          \<and> fl_rehashed_while_filling fl = (lb_bucket_count lab m' \<noteq> lb_bucket_count lab m)))
     \<and> (tr_next_coexists_via_rehash r \<longrightarrow> (\<exists>n m m' m''. segment_built lab q (sf_recommended r) False n m
          \<and> emplace_keys lab n 0 (unat (min 1000 (max_entries_for (tr_bucket_count r)))) m = Some m'
          \<and> lb_rehash lab n m' (next_bucket_step (tr_bucket_count r)) = Made m''
          \<and> next_bucket_step (tr_bucket_count r) \<le> lb_bucket_count lab m''))"

lemma measure_final_built:
  "measure_final lab n sz asked fail_stamp = Inr ff \<Longrightarrow> \<exists>m. build_like_production lab n sz asked fail_stamp = Inr (Some m)"
  by (auto simp: measure_final_def split: sum.splits option.splits)

lemma measure_fill_done:
  "measure_fill lab n sz asked threshold = Inr fl \<Longrightarrow> \<exists>m m'. build_like_production lab n sz asked False = Inr (Some m)
    \<and> emplace_keys lab n 0 (unat threshold) m = Some m' \<and> fl_entries_inserted fl = lb_map_size lab m'
    \<and> fl_rehashed_while_filling fl = (lb_bucket_count lab m' \<noteq> lb_bucket_count lab m)"
  by (auto simp: measure_fill_def split: sum.splits option.splits)

lemma measure_growth_done:
  "measure_growth lab n sz asked threshold next = Inr True \<Longrightarrow> \<exists>m m' m''. build_like_production lab n sz asked False = Inr (Some m)
    \<and> emplace_keys lab n 0 (unat (min 1000 threshold)) m = Some m' \<and> lb_rehash lab n m' next = Made m''
    \<and> next \<le> lb_bucket_count lab m''"
  by (auto simp: measure_growth_def split: sum.splits option.splits library_call.splits)

text \<open>The tables a laboratory offers are of a size that a machine can have.\<close>

definition plausible_lab :: "u64 \<Rightarrow> 'm lab \<Rightarrow> bool" where
  "plausible_lab i lab \<longleftrightarrow> (\<forall>asked buckets. lb_probe lab asked = Some buckets
     \<longrightarrow> 2 \<le> unat (estimated_minimum (facts_of lab i buckets))
       \<and> unat (estimated_minimum (facts_of lab i buckets)) \<le> 2 ^ 63)"

lemma measure_observed:
  assumes "plausible_lab (sq_index q) lab"
  shows "\<exists>r. measure lab q = Some r \<and> (\<forall>rep. r = Inr rep \<longrightarrow> report_observed lab q rep)"
proof (cases "lb_probe lab (sq_asked q)")
  case None
  then show ?thesis by (simp add: measure_def)
next
  case (Some buckets)
  let ?fits = "fits_at lab (sq_asked q) buckets"
  obtain r where r: "measure_floor ?fits (facts_of lab (sq_index q) buckets) (sq_margin q) (sq_precision q) (sq_segment q) = Some r"
    and obs: "\<forall>f. r = Inr f \<longrightarrow> floor_observed ?fits (sq_margin q) (sq_precision q) (sq_segment q) f"
    using measure_floor_observed[of "facts_of lab (sq_index q) buckets" ?fits "sq_margin q" "sq_precision q" "sq_segment q"]
      assms Some unfolding plausible_lab_def by blast
  show ?thesis
  proof (cases r)
    case (Inl e)
    then show ?thesis using Some r by (simp add: measure_def)
  next
    case (Inr f)
    have threshold: "sf_rotation_threshold f = max_entries_for buckets"
      using measure_floor_threshold[OF r[unfolded Inr]] by (simp add: facts_of_def)
    have total: "\<exists>r. measure lab q = Some r" using Some r Inr by (simp add: measure_def Let_def)
    have "report_observed lab q rep" if run: "measure lab q = Some (Inr rep)" for rep
    proof -
      obtain final fill coexists ff where parts:
        "measure_final lab (sf_attempts f) (sf_recommended f) (sq_asked q) (sq_fail_stamp q) = Inr final"
        "(if sq_fill q then map_sum id Some (measure_fill lab (sf_attempts f + 1) (sf_recommended f) (sq_asked q)
           (max_entries_for buckets)) else Inr None) = Inr fill"
        "measure_growth lab (sf_attempts f + 3) (sf_recommended f) (sq_asked q) (max_entries_for buckets)
           (next_bucket_step buckets) = Inr coexists"
        and rep: "rep = sizing_figures.extend f ff" "tr_bucket_count rep = buckets" "tr_fill rep = fill"
          "tr_next_coexists_via_rehash rep = coexists"
        using run Some r Inr threshold
        by (auto simp: measure_def Let_def sizing_figures.defs split: sum.splits trial.splits)
      have same: "sf_observed_minimum rep = sf_observed_minimum f" "sf_lower_bound rep = sf_lower_bound f"
        "sf_precision rep = sf_precision f" "sf_recommended rep = sf_recommended f"
        by (simp_all add: rep(1) sizing_figures.defs)
      have "floor_observed ?fits (sq_margin q) (sq_precision q) (sq_segment q) rep"
        using obs Inr unfolding floor_observed_def same by blast
      moreover have "\<exists>n m. segment_built lab q (sf_recommended rep) (sq_fail_stamp q) n m"
        using measure_final_built[OF parts(1)] by (auto simp: segment_built_def same)
      moreover have "\<exists>n m m' fl. segment_built lab q (sf_recommended rep) False n m
          \<and> emplace_keys lab n 0 (unat (max_entries_for buckets)) m = Some m'
          \<and> tr_fill rep = Some fl \<and> fl_entries_inserted fl = lb_map_size lab m'
          \<and> fl_rehashed_while_filling fl = (lb_bucket_count lab m' \<noteq> lb_bucket_count lab m)" if asked: "sq_fill q"
      proof -
        obtain fl where fl: "measure_fill lab (sf_attempts f + 1) (sf_recommended f) (sq_asked q)
            (max_entries_for buckets) = Inr fl" "fill = Some fl"
          using parts(2) asked by (auto simp: map_sum_def split: sum.splits)
        from measure_fill_done[OF fl(1)] show ?thesis
          unfolding segment_built_def same rep(3) fl(2) by blast
      qed
      moreover have "\<exists>n m m' m''. segment_built lab q (sf_recommended rep) False n m
          \<and> emplace_keys lab n 0 (unat (min 1000 (max_entries_for buckets))) m = Some m'
          \<and> lb_rehash lab n m' (next_bucket_step buckets) = Made m''
          \<and> next_bucket_step buckets \<le> lb_bucket_count lab m''" if "tr_next_coexists_via_rehash rep"
      proof -
        from parts(3) that have "measure_growth lab (sf_attempts f + 3) (sf_recommended f) (sq_asked q)
            (max_entries_for buckets) (next_bucket_step buckets) = Inr True" by (simp add: rep(4))
        from measure_growth_done[OF this] show ?thesis unfolding segment_built_def same by blast
      qed
      ultimately show ?thesis unfolding report_observed_def rep(2) using Some by blast
    qed
    then show ?thesis using total by auto
  qed
qed

section \<open>Property\<close>

lemma valued_option_status: "valued_option arg val a = Some (Inl status) \<Longrightarrow> status = 2"
  by (auto simp: valued_option_def Let_def split: if_splits option.splits)

lemma parse_sizing_status:
  "parse_sizing args a = Inl status
    \<Longrightarrow> status = 2 \<or> status = 0 \<and> (''--help'' \<in> set args \<or> ''-h'' \<in> set args)"
proof (induction args a rule: parse_sizing.induct)
  case (2 arg a)
  then show ?case by (auto split: if_splits)
next
  case (3 arg val args a)
  show ?case
  proof (cases "valued_option arg val a")
    case None
    then show ?thesis
      using 3 by (cases "arg = ''--fill''"; cases "arg = ''--fail-stamp''"; cases "arg = ''--help'' \<or> arg = ''-h''") auto
  next
    case (Some r)
    then show ?thesis using 3 valued_option_status by (cases r) auto
  qed
qed simp

lemma check_arguments_positive:
  "check_arguments a = Some buckets \<Longrightarrow> buckets \<noteq> 0 \<and> sa_precision a \<noteq> Some 0 \<and> sa_segment a \<noteq> Some 0"
  by (auto simp: check_arguments_def split: if_splits option.splits)

lemma sizing_main_spec:
  assumes "\<forall>cls i. class_index cls = Some i \<longrightarrow> plausible_lab i (labs i)"
  shows "\<exists>status rep. sizing_main labs temp_directory file_written args = Some (status, rep)
    \<and> status \<in> {0, 1, 2, 3} \<and> (rep \<noteq> None \<longrightarrow> status = 0)
    \<and> (status = 0 \<longrightarrow> (case rep of
         None \<Rightarrow> ''--help'' \<in> set args \<or> ''-h'' \<in> set args
       | Some r \<Rightarrow> \<exists>a buckets i. parse_sizing args no_sizing_arguments = Inr a \<and> check_arguments a = Some buckets
           \<and> class_index (sa_class a) = Some i \<and> report_observed (labs i) (request_of a buckets i) r
           \<and> (sa_output a \<noteq> [] \<longrightarrow> file_written (sa_output a) r)))"
proof (cases "parse_sizing args no_sizing_arguments")
  case (Inl status)
  then show ?thesis
    using parse_sizing_status[OF Inl] by (auto simp: sizing_main_def)
next
  case (Inr a)
  show ?thesis
  proof (cases "\<not> temp_directory \<or> check_arguments a = None \<or> class_index (sa_class a) = None")
    case True
    then show ?thesis using Inr by (auto simp: sizing_main_def split: option.split)
  next
    case False
    then obtain buckets i where bi: "check_arguments a = Some buckets" "class_index (sa_class a) = Some i" by auto
    have "plausible_lab (sq_index (request_of a buckets i)) (labs i)"
      using assms bi(2) by (simp add: request_of_def)
    from measure_observed[OF this] obtain r where r: "measure (labs i) (request_of a buckets i) = Some r"
      "\<forall>rep. r = Inr rep \<longrightarrow> report_observed (labs i) (request_of a buckets i) rep" by blast
    show ?thesis
    proof (cases r)
      case (Inl e)
      then show ?thesis using Inr False bi r(1) by (cases e) (simp_all add: sizing_main_def)
    next
      case rep: (Inr rep)
      have obs: "report_observed (labs i) (request_of a buckets i) rep" using r(2) rep by blast
      have "sizing_main labs temp_directory file_written args
          = Some (if sa_output a = [] \<or> file_written (sa_output a) rep then (0, Some rep) else (1, None))"
        using Inr False bi r(1) rep by (simp add: sizing_main_def)
      then show ?thesis
        using Inr bi obs by (cases "sa_output a = [] \<or> file_written (sa_output a) rep") auto
    qed
  qed
qed

text \<open>
  C28: the sizing tool always ends, for all arguments and whatever the libraries answer, with one of
  four statuses, and a report comes with status 0 and rests on what was observed: the size it calls
  the floor built the map at two attempts, the size below it was refused at two (or is zero) and is
  within the precision asked; the recommendation is the floor and its margin rounded up with no
  wrap-around, or the size that was given, and a segment of that size was built; a fill that was
  asked for inserted every key up to the threshold the store rotates at; growth is only reported when
  a populated map grew; and a file that was named took the report. Status 0 without a report is help.
\<close>

theorem sizing_tool_observed:
  assumes "\<forall>cls i. class_index cls = Some i \<longrightarrow> plausible_lab i (labs i)"
  shows "\<exists>status rep. sizing_main labs temp_directory file_written args = Some (status, rep)
    \<and> status \<in> {0, 1, 2, 3} \<and> (rep \<noteq> None \<longrightarrow> status = 0)
    \<and> (status = 0 \<longrightarrow> (case rep of
         None \<Rightarrow> ''--help'' \<in> set args \<or> ''-h'' \<in> set args
       | Some r \<Rightarrow> \<exists>a buckets i. parse_sizing args no_sizing_arguments = Inr a \<and> check_arguments a = Some buckets
           \<and> class_index (sa_class a) = Some i \<and> report_observed (labs i) (request_of a buckets i) r
           \<and> (sa_output a \<noteq> [] \<longrightarrow> file_written (sa_output a) r)))"
  by (rule sizing_main_spec[OF assms])

text \<open>A laboratory with a threshold: a map of \<open>n\<close> buckets needs \<open>n\<close> slots and a page, and cannot grow.\<close>

definition example_lab :: "u64 \<Rightarrow> (u64 \<times> u64) lab" where
  "example_lab i = \<lparr>lb_sizeof_segment_manager = 512, lb_probe = \<lambda>asked. if asked = 959 then Some 959 else None,
     lb_create = \<lambda>_ _. Made (), lb_place_stamp = \<lambda>_ _. True,
     lb_construct = \<lambda>_ sz asked. if asked * entry_size i + 4096 \<le> sz then Made (Some (asked, 0)) else Bad_alloc,
     lb_stamp_reads_back = \<lambda>_. True, lb_bucket_count = fst, lb_map_size = snd,
     lb_emplace = \<lambda>_ m _. Made (fst m, snd m + 1), lb_rehash = \<lambda>_ _ _. Bad_alloc,
     lb_file_size = \<lambda>_. Some 65536, lb_physical_bytes = \<lambda>_. None\<rparr>"

lemma class_index_entry_size:
  "class_index cls = Some i \<Longrightarrow> entry_size i \<in> {84, 132, 164, 292, 10276, 48}"
  by (auto simp: class_index_def entry_size_def container_sizes_def reference_sentinel_index_def split: if_splits)

lemma example_lab_plausible: "class_index cls = Some i \<Longrightarrow> plausible_lab i (example_lab i)"
  using class_index_entry_size[of cls i]
  by (auto simp: plausible_lab_def example_lab_def facts_of_def estimated_minimum_def slot_bytes_of_def
      metadata_bytes_of_def)

lemma example_fits: "fits_at (example_lab 0) 959 959 = threshold_trials 84652"
  by (intro ext) (simp add: fits_at_def build_like_production_def example_lab_def threshold_trials_def
      entry_size_def reference_sentinel_index_def container_sizes_def)

lemma example_emplace: "\<exists>m'. emplace_keys (example_lab i) n k c m = Some m'"
  by (induction c arbitrary: k m) (auto simp: example_lab_def)

lemma example_probe: "lb_probe (example_lab 0) 959 = Some 959"
  by (simp add: example_lab_def)

lemma example_builds: "build_like_production (example_lab 0) n 90498 959 b = Inr (Some (959, 0))"
  by (simp add: build_like_production_def example_lab_def entry_size_def reference_sentinel_index_def
      container_sizes_def)

lemma example_final: "\<exists>ff. measure_final (example_lab 0) n 90498 959 b = Inr ff"
  by (simp add: measure_final_def example_builds) (simp add: example_lab_def Let_def)

lemma example_alone: "fits_at (example_lab 0) asked nx n 90498 \<noteq> Trial_failed e"
  by (simp add: fits_at_def build_like_production_def) (simp add: example_lab_def)

lemma example_growth: "measure_growth (example_lab 0) n 90498 959 t nx = Inr False"
proof -
  obtain m' where m': "emplace_keys (example_lab 0) n 0 (unat (min 1000 t)) (959, 0) = Some m'"
    using example_emplace by blast
  show ?thesis unfolding measure_growth_def example_builds by (simp add: m') (simp add: example_lab_def)
qed

lemma example_measured:
  assumes "sq_index q = 0" "sq_asked q = 959" "sq_margin q = 5" "sq_precision q = 4096" "sq_segment q = None"
    "\<not> sq_fill q"
  shows "\<exists>r. measure (example_lab 0) q = Some (Inr r)"
proof -
  let ?m = "facts_of (example_lab 0) 0 959"
  have est: "estimated_minimum ?m = 86188"
    by (simp add: estimated_minimum_def slot_bytes_of_def metadata_bytes_of_def facts_of_def example_lab_def
        entry_size_def reference_sentinel_index_def container_sizes_def)
  let ?t = "threshold_trials 84652"
  have grow: "grow_upper ?t (86188 div 2) 86188 0 = Some (Inr (Some (43094, 86188)), 1)"
    by (subst grow_upper.simps) (simp add: threshold_trials_def)
  have shrink: "shrink_lower ?t 43094 86188 1 = (Inr (43094, 86188), 2)"
    by (subst shrink_lower.simps) (simp add: threshold_trials_def)
  have bisect: "bisect ?t 4096 43094 86188 2 = (Inr \<lparr>br_lower = 83494, br_upper = 86188\<rparr>, 6)"
    by (simp add: bisect.simps threshold_trials_def)
  have find: "find_minimum ?t 86188 4096 0 = Some (Inr \<lparr>br_lower = 83494, br_upper = 86188\<rparr>, 6)"
    using grow shrink bisect by (simp add: find_minimum_def)
  have "\<exists>f. measure_floor ?t ?m 5 4096 None = Some (Inr f) \<and> sf_recommended f = 90498"
    using find by (simp add: measure_floor_def est recheck_def threshold_trials_def margin_of_def)
  then obtain f where f: "measure_floor ?t ?m 5 4096 None = Some (Inr f)" "sf_recommended f = 90498" by blast
  obtain ff where ff: "measure_final (example_lab 0) (sf_attempts f) 90498 959 (sq_fail_stamp q) = Inr ff"
    using example_final by blast
  show ?thesis
    by (cases "fits_at (example_lab 0) (next_bucket_step 959) (next_bucket_step 959) (sf_attempts f + 2) 90498")
      (simp_all add: measure_def Let_def assms example_probe example_fits f ff example_growth example_alone)
qed

text \<open>One class and the first step of buckets: the tool ends with a report that was observed.\<close>

definition example_arguments :: "string list" where
  "example_arguments = [''--class'', ''48'', ''--buckets'', ''959'']"

lemma example_parsed:
  "parse_sizing example_arguments no_sizing_arguments
    = Inr (no_sizing_arguments\<lparr>sa_class := ''48'', sa_buckets := Some 959\<rparr>)"
  by (simp add: example_arguments_def valued_option_def Let_def to_size_def is_digit_def undec_def
      digit_value_def no_sizing_arguments_def)

lemma sizing_tool_observed_witness:
  "\<exists>r. sizing_main example_lab True (\<lambda>_ _. True) example_arguments = Some (0, Some r)
    \<and> report_observed (example_lab 0)
        (request_of (no_sizing_arguments\<lparr>sa_class := ''48'', sa_buckets := Some 959\<rparr>) 959 0) r"
proof -
  let ?a = "no_sizing_arguments\<lparr>sa_class := ''48'', sa_buckets := Some 959\<rparr>"
  have checked: "check_arguments ?a = Some 959" "class_index (sa_class ?a) = Some 0"
    by (simp_all add: check_arguments_def class_index_def no_sizing_arguments_def)
  have "\<exists>r. measure (example_lab 0) (request_of ?a 959 0) = Some (Inr r)"
    by (rule example_measured) (simp_all add: request_of_def no_sizing_arguments_def entry_size_def
        reference_sentinel_index_def container_sizes_def)
  then obtain r where "measure (example_lab 0) (request_of ?a 959 0) = Some (Inr r)" by blast
  then have run: "sizing_main example_lab True (\<lambda>_ _. True) example_arguments = Some (0, Some r)"
    using checked by (simp add: sizing_main_def example_parsed)
  have "\<forall>cls i. class_index cls = Some i \<longrightarrow> plausible_lab i (example_lab i)"
    using example_lab_plausible by blast
  from sizing_tool_observed[OF this, of True "\<lambda>_ _. True" example_arguments] run checked
  show ?thesis by (auto simp: example_parsed)
qed

end
