(* ===== verification/Sizing_Report.thy ===== *)
theory Sizing_Report
  imports Reports Sizing_Tool
begin

text \<open>
  \<open>print_json\<close> of \<open>src/tools/sizing.cpp\<close>: the report of the sizing tool as text, the document that a
  standard reader finds in it, and the two together. What only appears in the text and not in the
  measurement, the constants of the build and the numbers that the map library and the clock give as
  floating-point numbers, is a parameter.
\<close>

record printed_inputs =
  pi_max_load_factor :: string
  pi_entries_at_max_load :: u64
  pi_estimated_overhead :: u64
  pi_seconds :: string
  pi_build :: build

definition optional_num :: "u64 option \<Rightarrow> string" where
  "optional_num v = (case v of Some n \<Rightarrow> num n | None \<Rightarrow> ''null'')"

definition optional_json_num :: "u64 option \<Rightarrow> json" where
  "optional_json_num v = (case v of Some n \<Rightarrow> json_num n | None \<Rightarrow> JNull)"

text \<open>The fill as the fields of the report hold it when no fill was asked for.\<close>

definition fill_of :: "tool_report \<Rightarrow> fill_figures" where
  "fill_of r = (case tr_fill r of Some fl \<Rightarrow> fl
     | None \<Rightarrow> \<lparr>fl_entries_inserted = 0, fl_bucket_count_after_fill = 0, fl_rehashed_while_filling = False,
                fl_physical_after_fill = None\<rparr>)"

definition coexistence_method :: string where
  "coexistence_method = ''rehash on a populated map inside the recommended segment''"

text \<open>
  A report that is printed has passed the check that its floor built again and the size below it did
  not, so those two fields are constants.
\<close>

definition print_json :: "printed_inputs \<Rightarrow> tool_report \<Rightarrow> string" where
  "print_json p r =
    json_document
    (line ''class'' (json_string (tr_class_name r)) @
    line ''container_kind'' (num (tr_container_kind r)) @
    line ''sizeof_value'' (num (tr_sizeof_value r)) @
    line ''sizeof_pair'' (num (tr_sizeof_pair r)) @
    line ''asked'' (num (tr_asked r)) @
    line ''bucket_count'' (num (tr_bucket_count r)) @
    line ''step'' (case sf_step r of Some k \<Rightarrow> dec k | None \<Rightarrow> ''null'') @
    line ''max_load_factor'' (pi_max_load_factor p) @
    line ''entries_at_max_load'' (num (pi_entries_at_max_load p)) @
    line ''rotation_threshold'' (num (sf_rotation_threshold r)) @
    line ''slot_bytes'' (num (sf_slot_bytes r)) @
    line ''metadata_bytes'' (num (sf_metadata_bytes r)) @
    line ''estimated_overhead'' (num (pi_estimated_overhead p)) @
    line ''estimated_minimum'' (num (sf_estimated_minimum r)) @
    line ''lower_bound'' (num (sf_lower_bound r)) @
    line ''lower_bound_builds'' (bool_text (False)) @
    line ''observed_minimum'' (num (sf_observed_minimum r)) @
    line ''observed_minimum_builds'' (bool_text (True)) @
    line ''precision'' (num (sf_precision r)) @
    line ''attempts'' (dec (sf_attempts r)) @
    line ''measured_overhead'' (num (sf_measured_overhead r)) @
    line ''margin_bytes'' (num (sf_margin_bytes r)) @
    line ''recommended'' (num (sf_recommended r)) @
    line ''segment_override'' (num (tr_segment_override r)) @
    line ''logical_size'' (num (ff_logical_size (tr_final r))) @
    line ''physical_bytes'' (optional_num (ff_physical_bytes (tr_final r))) @
    line ''sparse'' (if ff_physical_bytes (tr_final r) = None then ''null'' else bool_text (ff_sparse (tr_final r))) @
    line ''next_bucket_count'' (num (tr_next_bucket_count r)) @
    line ''next_builds_alone'' (bool_text (tr_next_builds_alone r)) @
    line ''next_coexists_via_rehash'' (bool_text (tr_next_coexists_via_rehash r)) @
    line ''coexistence_method'' (json_string (coexistence_method)) @
    line ''filled'' (bool_text (tr_fill r \<noteq> None)) @
    line ''entries_inserted'' (num (fl_entries_inserted (fill_of r))) @
    line ''bucket_count_after_fill'' (num (fl_bucket_count_after_fill (fill_of r))) @
    line ''rehashed_while_filling'' (bool_text (fl_rehashed_while_filling (fill_of r))) @
    line ''physical_after_fill'' (optional_num (fl_physical_after_fill (fill_of r))) @
    line ''seconds'' (pi_seconds p) @
    line ''platform_abi_id'' (num (platform_abi_id (pi_build p))) @
    line ''data_abi_id'' (num (bd_data_abi_id (pi_build p))) @
    line ''sync_abi_family'' (num (bd_sync_abi_family (pi_build p))) @
    line ''platform_tag'' (num (bd_platform_tag (pi_build p))) @
    line ''sizeof_interprocess_mutex'' (num (bd_mutex_size (pi_build p))) @
    line ''alignof_interprocess_mutex'' (num (bd_mutex_align (pi_build p))) @
    line ''sizeof_segment_manager'' (num (bd_manager_size (pi_build p))) @
    line ''alignof_segment_manager'' (num (bd_manager_align (pi_build p))) @
    last_line ''boost_version'' (num (bd_boost_version (pi_build p))))"

definition sizing_document :: "printed_inputs \<Rightarrow> tool_report \<Rightarrow> json" where
  "sizing_document p r = JObj
     [(''class'', JStr (tr_class_name r)), (''container_kind'', json_num (tr_container_kind r)),
      (''sizeof_value'', json_num (tr_sizeof_value r)), (''sizeof_pair'', json_num (tr_sizeof_pair r)),
      (''asked'', json_num (tr_asked r)), (''bucket_count'', json_num (tr_bucket_count r)),
      (''step'', case sf_step r of Some k \<Rightarrow> JNum (dec k) | None \<Rightarrow> JNull),
      (''max_load_factor'', JNum (pi_max_load_factor p)),
      (''entries_at_max_load'', json_num (pi_entries_at_max_load p)),
      (''rotation_threshold'', json_num (sf_rotation_threshold r)),
      (''slot_bytes'', json_num (sf_slot_bytes r)), (''metadata_bytes'', json_num (sf_metadata_bytes r)),
      (''estimated_overhead'', json_num (pi_estimated_overhead p)),
      (''estimated_minimum'', json_num (sf_estimated_minimum r)),
      (''lower_bound'', json_num (sf_lower_bound r)), (''lower_bound_builds'', JBool (False)),
      (''observed_minimum'', json_num (sf_observed_minimum r)), (''observed_minimum_builds'', JBool (True)),
      (''precision'', json_num (sf_precision r)), (''attempts'', JNum (dec (sf_attempts r))),
      (''measured_overhead'', json_num (sf_measured_overhead r)),
      (''margin_bytes'', json_num (sf_margin_bytes r)), (''recommended'', json_num (sf_recommended r)),
      (''segment_override'', json_num (tr_segment_override r)),
      (''logical_size'', json_num (ff_logical_size (tr_final r))),
      (''physical_bytes'', optional_json_num (ff_physical_bytes (tr_final r))),
      (''sparse'', if ff_physical_bytes (tr_final r) = None then JNull else JBool (ff_sparse (tr_final r))),
      (''next_bucket_count'', json_num (tr_next_bucket_count r)),
      (''next_builds_alone'', JBool (tr_next_builds_alone r)),
      (''next_coexists_via_rehash'', JBool (tr_next_coexists_via_rehash r)),
      (''coexistence_method'', JStr (coexistence_method)), (''filled'', JBool (tr_fill r \<noteq> None)),
      (''entries_inserted'', json_num (fl_entries_inserted (fill_of r))),
      (''bucket_count_after_fill'', json_num (fl_bucket_count_after_fill (fill_of r))),
      (''rehashed_while_filling'', JBool (fl_rehashed_while_filling (fill_of r))),
      (''physical_after_fill'', optional_json_num (fl_physical_after_fill (fill_of r))),
      (''seconds'', JNum (pi_seconds p)), (''platform_abi_id'', json_num (platform_abi_id (pi_build p))),
      (''data_abi_id'', json_num (bd_data_abi_id (pi_build p))),
      (''sync_abi_family'', json_num (bd_sync_abi_family (pi_build p))),
      (''platform_tag'', json_num (bd_platform_tag (pi_build p))),
      (''sizeof_interprocess_mutex'', json_num (bd_mutex_size (pi_build p))),
      (''alignof_interprocess_mutex'', json_num (bd_mutex_align (pi_build p))),
      (''sizeof_segment_manager'', json_num (bd_manager_size (pi_build p))),
      (''alignof_segment_manager'', json_num (bd_manager_align (pi_build p))),
      (''boost_version'', json_num (bd_boost_version (pi_build p)))]"

lemma optional_num_value: "value_text (optional_num v) (optional_json_num v)"
  using value_null num_value by (cases v) (simp_all add: optional_num_def optional_json_num_def)

lemma step_value:
  "value_text (case s of Some k \<Rightarrow> dec k | None \<Rightarrow> ''null'') (case s of Some k \<Rightarrow> JNum (dec k) | None \<Rightarrow> JNull)"
  using value_null dec_value by (cases s) simp_all

lemma sparse_value:
  "value_text (if v = None then ''null'' else bool_text b) (if v = None then JNull else JBool b)"
  using value_null bool_value by simp

lemma print_json_text:
  assumes "json_number (pi_max_load_factor p)" "json_number (pi_seconds p)"
  shows "json_text (print_json p r) (sizing_document p r)"
  unfolding print_json_def sizing_document_def
  by (intro json_document_text writer_intros num_value optional_num_value step_value sparse_value
      value_number assms)
    (simp_all add: plain_simps dq_def backslash_def)

text \<open>What the tool prints is read back as the figures it measured.\<close>

lemma print_json_reads_back:
  assumes "json_number (pi_max_load_factor p)" "json_number (pi_seconds p)"
  shows "read_json (print_json p r) = Some (sizing_document p r)"
  by (rule read_json_text[OF print_json_text[OF assms]])


definition example_printed :: printed_inputs where
  "example_printed = \<lparr>pi_max_load_factor = ''0.875000'', pi_entries_at_max_load = 839, pi_estimated_overhead = 4608,
     pi_seconds = ''0.1'', pi_build = \<lparr>bd_data_abi_id = 1, bd_mutex_size = 40, bd_mutex_align = 8,
       bd_manager_size = 512, bd_manager_align = 16, bd_sync_abi_family = 1, bd_platform_tag = 1,
       bd_boost_version = 108600\<rparr>\<rparr>"


end
