(* ===== verification/Entropy.thy ===== *)
theory Entropy
  imports Opening
begin

text \<open>
  The bytes of identities, \<open>src/detail/system_entropy.hpp\<close>, on Linux: \<open>getentropy\<close> in requests of at
  most 256 bytes, and \<open>/dev/urandom\<close> for what is missing where the call does not exist. What the two
  sources answer is a parameter; what a draw promises is that every byte asked for came from one of
  them, or that it fails.
\<close>

text \<open>One call of \<open>getentropy\<close>: it fills the whole of the buffer, or is not there, or fails.\<close>

datatype entropy_answer = Filled "nat \<Rightarrow> u8" | No_such_call | Entropy_refused

definition entropy_chunk :: "nat \<Rightarrow> nat \<Rightarrow> nat" where
  "entropy_chunk remaining limit = (if remaining < limit then remaining else limit)"

definition getentropy_limit :: nat where "getentropy_limit = 256"

lemma entropy_chunk_bounds:
  assumes "\<not> len \<le> n"
  shows "0 < entropy_chunk (len - n) getentropy_limit" "entropy_chunk (len - n) getentropy_limit \<le> getentropy_limit"
    "n + entropy_chunk (len - n) getentropy_limit \<le> len"
  using assms by (auto simp: entropy_chunk_def getentropy_limit_def)

text \<open>The loop: the bytes drawn so far when it ends, complete or because the call is not there.\<close>

function getentropy_loop :: "(nat \<Rightarrow> nat \<Rightarrow> entropy_answer) \<Rightarrow> nat \<Rightarrow> bytes \<Rightarrow> error_code + bytes" where
  "getentropy_loop getentropy len drawn =
    (if len \<le> length drawn then Inr drawn
     else
      (let chunk = entropy_chunk (len - length drawn) getentropy_limit
       in case getentropy (length drawn) chunk of
            Filled f \<Rightarrow> getentropy_loop getentropy len (drawn @ map f [0 ..< chunk])
          | No_such_call \<Rightarrow> Inr drawn
          | Entropy_refused \<Rightarrow> Inl Entropy_unavailable))"
  by pat_completeness auto
termination
  by (relation "measure (\<lambda>(_, len, drawn). len - length drawn)")
    (auto simp: entropy_chunk_def getentropy_limit_def)

declare getentropy_loop.simps [simp del]

text \<open>
  \<open>device n\<close> is what reading \<open>n\<close> bytes of \<open>/dev/urandom\<close> gives, \<open>None\<close> where it cannot be opened. A
  short read is a failure.
\<close>

definition system_entropy ::
  "(nat \<Rightarrow> nat \<Rightarrow> entropy_answer) \<Rightarrow> (nat \<Rightarrow> bytes) option \<Rightarrow> nat \<Rightarrow> error_code + bytes" where
  "system_entropy getentropy device len =
    (if len = 0 then Inr []
     else case getentropy_loop getentropy len [] of
       Inl e \<Rightarrow> Inl e
     | Inr drawn \<Rightarrow>
         if length drawn = len then Inr drawn
         else (case device of
                 None \<Rightarrow> Inl Entropy_unavailable
               | Some rd \<Rightarrow>
                   (let got = rd (len - length drawn)
                    in if length got = len - length drawn then Inr (drawn @ got)
                       else Inl Entropy_unavailable)))"

text \<open>A byte that \<open>getentropy\<close> put at a position of the buffer.\<close>

definition from_call :: "(nat \<Rightarrow> nat \<Rightarrow> entropy_answer) \<Rightarrow> nat \<Rightarrow> u8 \<Rightarrow> bool" where
  "from_call getentropy i b \<longleftrightarrow> (\<exists>pos chunk f. getentropy pos chunk = Filled f
     \<and> chunk \<le> getentropy_limit \<and> pos \<le> i \<and> i < pos + chunk \<and> b = f (i - pos))"

lemma getentropy_loop_spec:
  assumes "getentropy_loop getentropy len drawn = Inr bs" "length drawn \<le> len"
    and "\<forall>i < length drawn. from_call getentropy i (drawn ! i)"
  shows "length bs \<le> len \<and> (\<forall>i < length bs. from_call getentropy i (bs ! i))"
  using assms
proof (induction getentropy len drawn rule: getentropy_loop.induct)
  case (1 getentropy len drawn)
  let ?chunk = "entropy_chunk (len - length drawn) getentropy_limit"
  show ?case
  proof (cases "len \<le> length drawn")
    case True
    then show ?thesis using "1.prems" by (simp add: getentropy_loop.simps[of _ _ drawn])
  next
    case more: False
    show ?thesis
    proof (cases "getentropy (length drawn) ?chunk")
      case (Filled f)
      have run: "getentropy_loop getentropy len (drawn @ map f [0 ..< ?chunk]) = Inr bs"
        using "1.prems"(1) more Filled by (simp add: getentropy_loop.simps[of _ _ drawn] Let_def)
      have kept: "\<forall>i < length (drawn @ map f [0 ..< ?chunk]).
          from_call getentropy i ((drawn @ map f [0 ..< ?chunk]) ! i)"
      proof (intro allI impI)
        fix i assume i: "i < length (drawn @ map f [0 ..< ?chunk])"
        show "from_call getentropy i ((drawn @ map f [0 ..< ?chunk]) ! i)"
        proof (cases "i < length drawn")
          case True
          then show ?thesis using "1.prems"(3) by (simp add: nth_append)
        next
          case False
          then show ?thesis
            using i Filled unfolding from_call_def
            by (intro exI[of _ "length drawn"] exI[of _ ?chunk] exI[of _ f])
              (auto simp: nth_append entropy_chunk_def)
        qed
      qed
      show ?thesis
        using "1.IH"[OF more refl Filled run _ kept] entropy_chunk_bounds(3)[OF more] by simp
    qed (use "1.prems" more in \<open>simp_all add: getentropy_loop.simps[of _ _ drawn] Let_def\<close>)
  qed
qed

text \<open>
  A draw that succeeds has every byte asked for, each from \<open>getentropy\<close> in requests it accepts, or, from
  some position on, from a complete read of the device.
\<close>

lemma system_entropy_spec:
  assumes "system_entropy getentropy device len = Inr bs"
  shows "length bs = len \<and> (\<exists>drawn rest. bs = drawn @ rest
    \<and> (\<forall>i < length drawn. from_call getentropy i (drawn ! i))
    \<and> (rest = [] \<or> (\<exists>rd. device = Some rd \<and> rest = rd (length rest))))"
proof (cases "len = 0")
  case True
  then show ?thesis using assms by (simp add: system_entropy_def)
next
  case False
  then obtain drawn where loop: "getentropy_loop getentropy len [] = Inr drawn"
    using assms by (auto simp: system_entropy_def split: sum.splits)
  have spec: "length drawn \<le> len" "\<forall>i < length drawn. from_call getentropy i (drawn ! i)"
    using getentropy_loop_spec[OF loop] by simp_all
  show ?thesis
  proof (cases "length drawn = len")
    case True
    then show ?thesis using assms False loop spec by (auto simp: system_entropy_def)
  next
    case missing: False
    then obtain rd where rd: "device = Some rd" "length (rd (len - length drawn)) = len - length drawn"
      "bs = drawn @ rd (len - length drawn)"
      using assms False loop by (auto simp: system_entropy_def Let_def split: option.splits if_splits)
    then show ?thesis using spec by (intro conjI exI[of _ drawn] exI[of _ "rd (len - length drawn)"]) simp_all
  qed
qed

text \<open>With the call there and answering, a draw of any length succeeds without the device.\<close>

lemma getentropy_loop_answers:
  assumes "\<forall>pos chunk. 0 < chunk \<and> chunk \<le> getentropy_limit \<longrightarrow> (\<exists>f. getentropy pos chunk = Filled f)"
    and "length drawn \<le> len"
  shows "\<exists>bs. getentropy_loop getentropy len drawn = Inr bs \<and> length bs = len"
  using assms
proof (induction getentropy len drawn rule: getentropy_loop.induct)
  case (1 getentropy len drawn)
  let ?chunk = "entropy_chunk (len - length drawn) getentropy_limit"
  show ?case
  proof (cases "len \<le> length drawn")
    case True
    then show ?thesis using "1.prems"(2) by (simp add: getentropy_loop.simps[of _ _ drawn])
  next
    case more: False
    then obtain f where f: "getentropy (length drawn) ?chunk = Filled f"
      using "1.prems"(1) entropy_chunk_bounds(1,2)[OF more] by blast
    show ?thesis
      using "1.IH"[OF more refl f "1.prems"(1)] entropy_chunk_bounds(3)[OF more] more f
      by (simp add: getentropy_loop.simps[of _ _ drawn] Let_def)
  qed
qed

lemma system_entropy_answers:
  assumes "\<forall>pos chunk. 0 < chunk \<and> chunk \<le> getentropy_limit \<longrightarrow> (\<exists>f. getentropy pos chunk = Filled f)"
  shows "\<exists>bs. system_entropy getentropy device len = Inr bs \<and> length bs = len"
  using getentropy_loop_answers[OF assms, of "[]" len] by (auto simp: system_entropy_def)

text \<open>The identity of a new store is the draw, all of it.\<close>

lemma drawn_identity: "system_entropy getentropy device 16 = Inr bs \<Longrightarrow> draw_identity bs = bs"
  by (drule system_entropy_spec) (simp add: draw_identity_def)

end
