(* ===== verification/Tools.thy ===== *)
theory Tools
  imports Verify_Progress Interface Reopening Census_Returns "HOL-Library.Sublist"
begin

text \<open>
  The tools \<open>utxoz_verify_unique\<close> and \<open>utxoz_census\<close>, \<open>src/tools/verify_unique.cpp\<close> and
  \<open>src/tools/census.cpp\<close>: their command lines, and the runs that open a directory for inspection, ask
  the library and turn the answer into an exit status. Texts are not modelled; whether the report
  of a verification could be written out is a parameter.
\<close>

section \<open>The command line\<close>

definition exit_unique :: nat where "exit_unique = 0"
definition exit_cannot_tell :: nat where "exit_cannot_tell = 1"
definition exit_duplicates :: nat where "exit_duplicates = 2"

lemmas exits = exit_unique_def exit_cannot_tell_def exit_duplicates_def

text \<open>A decimal count, refused where it does not fit.\<close>

fun parse_digits :: "u64 \<Rightarrow> string \<Rightarrow> u64 option" where
  "parse_digits val [] = Some val"
| "parse_digits val (c # text) =
    (if \<not> is_digit c then None
     else let digit = word_of_nat (digit_value c)
          in if val > (u64_max - digit) div 10 then None
             else parse_digits (val * 10 + digit) text)"

definition parse_count :: "string \<Rightarrow> u64 option" where
  "parse_count text = (if text = [] then None else parse_digits 0 text)"

text \<open>Each option that takes a number, with the field it lands in.\<close>

definition numeric_options :: "(string \<times> (u64 \<Rightarrow> verify_options \<Rightarrow> verify_options)) list" where
  "numeric_options =
    [(''--memory-budget='', \<lambda>n. vo_memory_budget_update (\<lambda>_. n)),
     (''--max-passes='', \<lambda>n. vo_max_data_passes_update (\<lambda>_. n)),
     (''--max-findings='', \<lambda>n. vo_max_findings_update (\<lambda>_. n)),
     (''--max-locations='', \<lambda>n. vo_max_locations_per_finding_update (\<lambda>_. n))]"

definition default_options :: verify_options where
  "default_options = \<lparr>vo_memory_budget = 256 * 1024 * 1024, vo_max_data_passes = 64,
     vo_include_outpoints = False, vo_max_findings = 16, vo_max_locations_per_finding = 16\<rparr>"

record tool_arguments =
  ta_dir :: string
  ta_as_json :: bool
  ta_reference :: bool
  ta_options :: verify_options

definition no_arguments :: tool_arguments where
  "no_arguments = \<lparr>ta_dir = [], ta_as_json = True, ta_reference = False, ta_options = default_options\<rparr>"

definition numeric_argument :: "string \<Rightarrow> verify_options \<Rightarrow> verify_options option" where
  "numeric_argument arg options =
    (case find (\<lambda>(pre, _). prefix pre arg) numeric_options of
       None \<Rightarrow> None
     | Some (pre, field) \<Rightarrow>
         (case parse_count (drop (length pre) arg) of
            None \<Rightarrow> None
          | Some n \<Rightarrow> Some (field n options)))"

fun parse_arguments :: "string list \<Rightarrow> tool_arguments \<Rightarrow> nat + tool_arguments" where
  "parse_arguments [] a = Inr a"
| "parse_arguments (arg # args) a =
    (if arg = ''--json'' then parse_arguments args (a\<lparr>ta_as_json := True\<rparr>)
     else if arg = ''--text'' then parse_arguments args (a\<lparr>ta_as_json := False\<rparr>)
     else if arg = ''--mode=full'' then parse_arguments args (a\<lparr>ta_reference := False\<rparr>)
     else if arg = ''--mode=reference'' then parse_arguments args (a\<lparr>ta_reference := True\<rparr>)
     else if arg = ''--include-outpoints''
       then parse_arguments args (a\<lparr>ta_options := (ta_options a)\<lparr>vo_include_outpoints := True\<rparr>\<rparr>)
     else if arg = ''--help'' \<or> arg = ''-h'' then Inl exit_unique
     else if prefix ''-'' arg
       then (case numeric_argument arg (ta_options a) of
               None \<Rightarrow> Inl exit_cannot_tell
             | Some options \<Rightarrow> parse_arguments args (a\<lparr>ta_options := options\<rparr>))
     else if ta_dir a = [] then parse_arguments args (a\<lparr>ta_dir := arg\<rparr>)
     else Inl exit_cannot_tell)"

section \<open>A run\<close>

text \<open>What the process ends with; an exception nothing catches ends it without a status of its own.\<close>

datatype outcome = Exited nat | Terminated

definition run_tool ::
  "('v disk \<Rightarrow> 'v database call \<times> 'v disk) \<Rightarrow> 'v env \<Rightarrow> verify_options \<Rightarrow> (uniqueness_report \<Rightarrow> bool)
   \<Rightarrow> 'v disk \<Rightarrow> outcome \<times> 'v disk" where
  "run_tool open_it E options written d =
    (case open_it d of
       (Raised, d) \<Rightarrow> (Terminated, d)
     | (Returned (Inl e), d) \<Rightarrow> (Exited exit_cannot_tell, d)
     | (Returned (Inr db), d) \<Rightarrow>
         (case base_verify_unique_outpoints E options (Live db) of
            (report, h) \<Rightarrow>
              (let d = (case base_close E h of Shut d \<Rightarrow> d | Live db \<Rightarrow> db_disk db)
               in case report of
                    Inl e \<Rightarrow> (Exited exit_cannot_tell, d)
                  | Inr report \<Rightarrow>
                      (Exited (if \<not> written report then exit_cannot_tell
                               else if ur_unique report then exit_unique else exit_duplicates), d))))"

text \<open>\<open>main\<close>, with the arguments after the program's name, over the runs of the two modes.\<close>

definition verify_main ::
  "(string \<Rightarrow> bool result) \<Rightarrow> (string \<Rightarrow> verify_options \<Rightarrow> bool \<Rightarrow> outcome)
   \<Rightarrow> (string \<Rightarrow> verify_options \<Rightarrow> bool \<Rightarrow> outcome) \<Rightarrow> string list \<Rightarrow> outcome" where
  "verify_main dir_exists run_full run_reference args =
    (if args = [] then Exited exit_cannot_tell
     else
      (case parse_arguments args no_arguments of
         Inl status \<Rightarrow> Exited status
       | Inr a \<Rightarrow>
           if ta_dir a = [] then Exited exit_cannot_tell
           else (case dir_exists (ta_dir a) of
                   Inr True \<Rightarrow> (if ta_reference a then run_reference else run_full)
                       (ta_dir a) (ta_options a) (ta_as_json a)
                 | _ \<Rightarrow> Exited exit_cannot_tell)))"

text \<open>The tool over the directories of a system, whose entries are those of the mode asked for.\<close>

definition verify_unique_tool ::
  "utxo_value env \<Rightarrow> (string \<Rightarrow> utxo_value disk) \<Rightarrow> reference_value env \<Rightarrow> (string \<Rightarrow> reference_value disk)
   \<Rightarrow> (string \<Rightarrow> bool result) \<Rightarrow> (bool \<Rightarrow> uniqueness_report \<Rightarrow> bool) \<Rightarrow> string list \<Rightarrow> outcome" where
  "verify_unique_tool EF full_disks ER reference_disks dir_exists written =
     verify_main dir_exists
       (\<lambda>dir options as_json. fst (run_tool (full_open_for_inspection EF) EF options (written as_json) (full_disks dir)))
       (\<lambda>dir options as_json. fst (run_tool (reference_open_for_inspection ER) ER options (written as_json)
          (reference_disks dir)))"

section \<open>The census tool\<close>

record census_arguments =
  ca_dir :: string
  ca_as_json :: bool
  ca_reference :: bool
  ca_options :: census_options

definition no_census_arguments :: census_arguments where
  "no_census_arguments = \<lparr>ca_dir = [], ca_as_json = True, ca_reference = False,
     ca_options = \<lparr>co_measure_physical_blocks = True, co_per_generation_detail = True,
       co_declared_external_snapshot = False\<rparr>\<rparr>"

fun parse_census_arguments :: "string list \<Rightarrow> census_arguments \<Rightarrow> nat + census_arguments" where
  "parse_census_arguments [] a = Inr a"
| "parse_census_arguments (arg # args) a =
    (if arg = ''--json'' then parse_census_arguments args (a\<lparr>ca_as_json := True\<rparr>)
     else if arg = ''--text'' then parse_census_arguments args (a\<lparr>ca_as_json := False\<rparr>)
     else if arg = ''--mode=full'' then parse_census_arguments args (a\<lparr>ca_reference := False\<rparr>)
     else if arg = ''--mode=reference'' then parse_census_arguments args (a\<lparr>ca_reference := True\<rparr>)
     else if arg = ''--no-physical-blocks''
       then parse_census_arguments args (a\<lparr>ca_options := (ca_options a)\<lparr>co_measure_physical_blocks := False\<rparr>\<rparr>)
     else if arg = ''--no-generation-detail''
       then parse_census_arguments args (a\<lparr>ca_options := (ca_options a)\<lparr>co_per_generation_detail := False\<rparr>\<rparr>)
     else if arg = ''--snapshot''
       then parse_census_arguments args (a\<lparr>ca_options := (ca_options a)\<lparr>co_declared_external_snapshot := True\<rparr>\<rparr>)
     else if arg = ''--help'' \<or> arg = ''-h'' then Inl 0
     else if prefix ''--'' arg then Inl 1
     else if ca_dir a = [] then parse_census_arguments args (a\<lparr>ca_dir := arg\<rparr>)
     else Inl 1)"

text \<open>A census that fails leaves the handle to its destructor, which closes it as well.\<close>

definition run_census ::
  "('v disk \<Rightarrow> 'v database call \<times> 'v disk) \<Rightarrow> 'v env
   \<Rightarrow> ('v handle \<Rightarrow> census_report result \<times> 'v handle) \<Rightarrow> 'v disk \<Rightarrow> outcome \<times> 'v disk" where
  "run_census open_it E census d =
    (case open_it d of
       (Raised, d) \<Rightarrow> (Terminated, d)
     | (Returned (Inl e), d) \<Rightarrow> (Exited 2, d)
     | (Returned (Inr db), d) \<Rightarrow>
         (case census (Live db) of
            (report, h) \<Rightarrow>
              (case report of Inl e \<Rightarrow> Exited 3 | Inr _ \<Rightarrow> Exited 0,
               case base_close E h of Shut d \<Rightarrow> d | Live db \<Rightarrow> db_disk db)))"

definition census_main ::
  "(string \<Rightarrow> bool result) \<Rightarrow> (string \<Rightarrow> census_options \<Rightarrow> bool \<Rightarrow> outcome)
   \<Rightarrow> (string \<Rightarrow> census_options \<Rightarrow> bool \<Rightarrow> outcome) \<Rightarrow> string list \<Rightarrow> outcome" where
  "census_main dir_exists run_full run_reference args =
    (if args = [] then Exited 1
     else
      (case parse_census_arguments args no_census_arguments of
         Inl status \<Rightarrow> Exited status
       | Inr a \<Rightarrow>
           if ca_dir a = [] then Exited 1
           else (case dir_exists (ca_dir a) of
                   Inr True \<Rightarrow> (if ca_reference a then run_reference else run_full)
                       (ca_dir a) (ca_options a) (ca_as_json a)
                 | _ \<Rightarrow> Exited 1)))"

section \<open>Counts\<close>

abbreviation read_on :: "nat \<Rightarrow> string \<Rightarrow> nat" where
  "read_on \<equiv> foldl (\<lambda>acc c. 10 * acc + digit_value c)"

lemma read_on_ge: "n \<le> read_on n s"
proof (induction s arbitrary: n)
  case (Cons c s)
  have "n \<le> 10 * n + digit_value c" by simp
  also have "\<dots> \<le> read_on n (c # s)" using Cons.IH[of "10 * n + digit_value c"] by simp
  finally show ?case .
qed simp

lemma digit_value_small: "is_digit c \<Longrightarrow> digit_value c < 10"
  unfolding is_digit_def digit_value_def by linarith

lemma digit_room:
  fixes v :: u64
  assumes "n < 10"
  shows "v > (u64_max - word_of_nat n) div 10 \<longleftrightarrow> 2 ^ 64 \<le> 10 * unat v + n"
    and "10 * unat v + n < 2 ^ 64 \<Longrightarrow> unat (v * 10 + word_of_nat n) = 10 * unat v + n"
proof -
  have n: "unat (word_of_nat n :: u64) = n" using assms by (simp add: unat_of_nat)
  have "unat (u64_max - word_of_nat n) = 2 ^ 64 - 1 - n"
    using assms by (simp add: unat_sub n word_le_nat_alt unat_u64_max)
  then have "v > (u64_max - word_of_nat n) div 10 \<longleftrightarrow> (2 ^ 64 - 1 - n) div 10 < unat v"
    by (simp add: word_less_nat_alt unat_div_distrib)
  also have "\<dots> \<longleftrightarrow> 2 ^ 64 - 1 - n < unat v * 10" by (simp add: div_less_iff_less_mult)
  also have "\<dots> \<longleftrightarrow> 2 ^ 64 \<le> 10 * unat v + n" using assms by auto
  finally show "v > (u64_max - word_of_nat n) div 10 \<longleftrightarrow> 2 ^ 64 \<le> 10 * unat v + n" .
  show "unat (v * 10 + word_of_nat n) = 10 * unat v + n" if "10 * unat v + n < 2 ^ 64"
    using that n by (simp add: unat_word_ariths mult.commute)
qed

lemma parse_digits_exact:
  "parse_digits v s = (if list_all is_digit s \<and> read_on (unat v) s < 2 ^ 64
     then Some (word_of_nat (read_on (unat v) s)) else None)"
proof (induction s arbitrary: v)
  case (Cons c s)
  show ?case
  proof (cases "is_digit c")
    case True
    note room = digit_room[OF digit_value_small[OF True], of v]
    have "read_on (unat v) (c # s) \<ge> 10 * unat v + digit_value c" using read_on_ge by simp
    then show ?thesis
      using True room Cons.IH[of "v * 10 + word_of_nat (digit_value c)"]
      by (cases "10 * unat v + digit_value c < 2 ^ 64") (auto simp: Let_def not_less)
  qed simp
qed (use unat_u64_less in simp)

lemma parse_count_exact:
  "parse_count s = (if s \<noteq> [] \<and> list_all is_digit s \<and> undec s < 2 ^ 64
     then Some (word_of_nat (undec s)) else None)"
  by (simp add: parse_count_def parse_digits_exact undec_def)

section \<open>What an inspected store holds\<close>

lemma copies_keys:
  "map sc_key (copies_in i v a t) = map fst (tbl_entries t)" "copies_in i v a (tbl_empty 0 0) = []"
  by (simp_all add: copies_in_def comp_def case_prod_beta tbl_empty_def)

lemma concat_bag:
  "distinct is \<Longrightarrow> (\<And>i. i \<in> set is \<Longrightarrow> mset (map h (f i)) = image_mset k (g i))
   \<Longrightarrow> mset (map h (concat (map f is))) = image_mset k (\<Sum>i \<in> set is. g i)"
  by (induction "is") simp_all

lemma stored_keys_bag:
  assumes "\<forall>i \<in> set (indices_of (db_mode db)). catalog_inv (db_catalogs db i)"
  shows "mset (stored_keys db) = image_mset fst (stored db)"
proof -
  have one: "image_mset sc_key (mset (copies_of_version db i v)) = image_mset fst (generation_bag (db_disk db) i v)" for i v
    by (simp add: copies_keys copies_of_version_def file_map_def generation_bag_def tbl_bag_def
        split: option.split flip: mset_map)
  have "mset (map sc_key (concat (map (copies_of_version db i) (vc_versions (db_catalogs db i)))))
      = image_mset fst (contents db i)" if "i \<in> set (indices_of (db_mode db))" for i
  proof -
    have "distinct (vc_versions (db_catalogs db i))" using assms that by (auto simp: catalog_inv_def)
    moreover have "mset (map sc_key (concat (map (copies_of_version db i) vs)))
        = image_mset fst (\<Sum>v \<in> set vs. generation_bag (db_disk db) i v)" if "distinct vs" for vs
      using that by (induction vs) (simp_all add: one)
    ultimately show ?thesis by (simp add: contents_def)
  qed
  from concat_bag[OF distinct_indices this] show ?thesis
    unfolding stored_keys_def stored_copies_def stored_def .
qed

text \<open>An open for inspection that returns: what the store then holds is what the directory held.\<close>

definition entries_on :: "storage_mode \<Rightarrow> 'v disk \<Rightarrow> (raw_outpoint \<times> 'v) multiset" where
  "entries_on mode d = (\<Sum>i \<in> set (indices_of mode). stored_at (files d) i)"

lemma inspected:
  assumes open_it: "opened E (open_for_inspection E mode) d = (Returned (Inr db), d')"
    and start: "distinct (map fst (files d))" "tables_ok d" "no_records (files d)"
  shows "db_disk db = d'" "mset (stored_keys db) = image_mset fst (entries_on mode d)"
proof -
  obtain u where run: "configure_internal E False mode Inspection ((new_database d)\<lparr>db_capacity := capacities False\<rparr>)
      = (Returned (Inr u), db)" and d': "d' = db_disk db"
    using open_it by (auto simp: opened_def open_for_inspection_def split: prod.splits call.splits sum.splits)
  obtain d1 dbid where open1: "open_containers E Inspection ((new_database d)\<lparr>db_capacity := capacities False,
        db_inspection_only := (Inspection = Inspection), db_lock_held := True, db_mode := mode,
        db_database_id := dbid, db_file_cache := new_file_cache dbid 1, db_entries_count := 0,
        db_disk := d1\<rparr>) = (Returned (Inr u), db)" "length dbid = 16" "idle d1" "tables_ok d1"
    and st: "\<And>i. stored_at (files d1) i = empty_at False d i"
    by (rule configure_serves[OF run start(1,2) disjI2[OF start(3)]], rule that)
  note sp = containers_serve[OF open1]
  have "\<forall>i \<in> set (indices_of (db_mode db)). catalog_inv (db_catalogs db i)"
    using sp(1,9) by (auto simp: up_def listed_def)
  moreover have "stored db = entries_on mode d"
    using sp(1,9) st by (simp add: stored_def entries_on_def empty_at_def)
  ultimately show "mset (stored_keys db) = image_mset fst (entries_on mode d)"
    using stored_keys_bag[of db] by simp
  show "db_disk db = d'" by (simp add: d')
qed

section \<open>The verdict\<close>

definition stored_twice :: "(raw_outpoint \<times> 'v) multiset \<Rightarrow> raw_outpoint \<Rightarrow> bool" where
  "stored_twice M key \<longleftrightarrow> 1 < Multiset.count (image_mset fst M) key"

lemma distinct_not_twice:
  assumes "mset keys = image_mset fst M"
  shows "distinct keys \<longleftrightarrow> (\<forall>key. \<not> stored_twice M key)"
proof -
  have "Multiset.count (mset keys) key = (if key \<in> set keys then 1 else 0) \<longleftrightarrow> \<not> 1 < Multiset.count (mset keys) key" for key
  proof -
    have "key \<in> set keys \<longleftrightarrow> 0 < Multiset.count (mset keys) key" by simp
    then show ?thesis by (simp only: split: if_split) linarith
  qed
  then show ?thesis by (simp add: stored_twice_def distinct_count_atmost_1 flip: assms)
qed

lemma run_tool_verdict:
  assumes run: "run_tool (opened E (open_for_inspection E mode)) E options written d = (Exited status, d')"
    and start: "distinct (map fst (files d))" "tables_ok d" "no_records (files d)"
    and few: "size (entries_on mode d) < 2 ^ 64"
  shows "(status = exit_unique \<longrightarrow> (\<forall>key. \<not> stored_twice (entries_on mode d) key))
    \<and> (status = exit_duplicates \<longrightarrow> (\<exists>key. stored_twice (entries_on mode d) key))
    \<and> status \<in> {exit_unique, exit_cannot_tell, exit_duplicates}"
proof (cases "status = exit_cannot_tell")
  case False
  then obtain db d1 report h where o: "opened E (open_for_inspection E mode) d = (Returned (Inr db), d1)"
    and v: "base_verify_unique_outpoints E options (Live db) = (Inr report, h)"
    and st: "status = (if ur_unique report then exit_unique else exit_duplicates)"
    using run by (auto simp: run_tool_def Let_def split: prod.splits call.splits sum.splits if_splits)
  obtain db' where vv: "verify_unique_outpoints E options db = (Inr report, db')"
    using v by (auto simp: base_verify_unique_outpoints_def through_def split: sum.splits prod.splits)
  note keys = inspected(2)[OF o start]
  have "length (stored_keys db) < 2 ^ 64"
    using arg_cong[OF keys, of size] few by simp
  from verify_counts[OF vv this] have "ur_unique report \<longleftrightarrow> distinct (stored_keys db)"
    by (simp add: summary_of_def count_directly_def)
  then show ?thesis using st distinct_not_twice[OF keys] by (auto simp: exits)
qed (simp add: exits)

text \<open>An inspection makes no container, so nothing in it raises an exception.\<close>

lemma open_indices_inspection: "fst (open_indices E Inspection is db) \<noteq> Raised"
proof (induction "is" arbitrary: db)
  case (Cons i "is")
  have "apfst Returned p \<noteq> (Raised, x)" for p :: "unit result \<times> 'a database" and x by (cases p) simp
  then have "fst (open_index E Inspection i db) \<noteq> Raised"
    by (auto simp: open_index_def Let_def split: prod.splits call.splits sum.splits)
  with Cons.IH show ?case by (auto split: prod.splits call.splits sum.splits)
qed simp

lemma inspection_never_raises: "fst (opened E (open_for_inspection E mode) d) \<noteq> Raised"
proof -
  have "fst (configure_internal E False mode Inspection db) \<noteq> Raised" for db
    using open_indices_inspection
    by (auto simp: configure_internal_def open_containers_def Let_def split: prod.splits sum.splits if_splits)
  then show ?thesis
    by (auto simp: opened_def open_for_inspection_def split: prod.splits call.splits sum.splits)
      (metis fst_conv)
qed

lemma run_tool_exits: "\<exists>status d'. run_tool (opened E (open_for_inspection E mode)) E options written d = (Exited status, d')"
  using inspection_never_raises[of E mode d]
  by (auto simp: run_tool_def Let_def split: prod.splits call.splits sum.splits)

definition sound_directory :: "storage_mode \<Rightarrow> 'v disk \<Rightarrow> bool" where
  "sound_directory mode d \<longleftrightarrow> distinct (map fst (files d)) \<and> tables_ok d \<and> no_records (files d)
     \<and> size (entries_on mode d) < 2 ^ 64"

lemma run_tool_status:
  assumes "sound_directory mode d"
  shows "\<exists>status. fst (run_tool (opened E (open_for_inspection E mode)) E options written d) = Exited status
    \<and> (status = exit_unique \<longrightarrow> (\<forall>key. \<not> stored_twice (entries_on mode d) key))
    \<and> (status = exit_duplicates \<longrightarrow> (\<exists>key. stored_twice (entries_on mode d) key))
    \<and> status \<in> {exit_unique, exit_cannot_tell, exit_duplicates}"
proof -
  obtain status d' where run: "run_tool (opened E (open_for_inspection E mode)) E options written d = (Exited status, d')"
    using run_tool_exits by blast
  from run_tool_verdict[OF run] assms show ?thesis unfolding run sound_directory_def by auto
qed

definition any_twice :: "(string \<Rightarrow> utxo_value disk) \<Rightarrow> (string \<Rightarrow> reference_value disk) \<Rightarrow> tool_arguments \<Rightarrow> bool" where
  "any_twice full_disks reference_disks a =
    (if ta_reference a then (\<exists>key. stored_twice (entries_on Reference_mode (reference_disks (ta_dir a))) key)
     else (\<exists>key. stored_twice (entries_on Full_mode (full_disks (ta_dir a))) key))"

lemma parse_arguments_refusal: "parse_arguments args a = Inl status \<Longrightarrow> status \<in> {exit_unique, exit_cannot_tell}"
proof (induction args arbitrary: a)
  case (Cons arg args)
  from Cons.prems Cons.IH show ?case by (auto split: if_splits option.splits)
qed simp

lemma verify_unique_tool_status:
  assumes "\<forall>dir. sound_directory Full_mode (full_disks dir)" "\<forall>dir. sound_directory Reference_mode (reference_disks dir)"
  shows "\<exists>status. verify_unique_tool EF full_disks ER reference_disks dir_exists written args = Exited status
    \<and> status \<in> {exit_unique, exit_cannot_tell, exit_duplicates}
    \<and> (case parse_arguments args no_arguments of
         Inl _ \<Rightarrow> status \<noteq> exit_duplicates
       | Inr a \<Rightarrow> (status = exit_unique \<longrightarrow> \<not> any_twice full_disks reference_disks a)
           \<and> (status = exit_duplicates \<longrightarrow> any_twice full_disks reference_disks a))"
proof (cases "parse_arguments args no_arguments")
  case (Inl s)
  then show ?thesis
    using parse_arguments_refusal[OF Inl] by (auto simp: verify_unique_tool_def verify_main_def exits)
next
  case (Inr a)
  show ?thesis
  proof (cases "args = [] \<or> ta_dir a = [] \<or> dir_exists (ta_dir a) \<noteq> Inr True")
    case True
    then have "verify_unique_tool EF full_disks ER reference_disks dir_exists written args = Exited exit_cannot_tell"
      using Inr by (auto simp: verify_unique_tool_def verify_main_def split: sum.splits bool.splits)
    then show ?thesis using Inr by (simp add: exits)
  next
    case False
    show ?thesis
      using False Inr run_tool_status[OF spec[OF assms(1), of "ta_dir a"], where E = EF and options = "ta_options a" and written = "written (ta_as_json a)"]
        run_tool_status[OF spec[OF assms(2), of "ta_dir a"], where E = ER and options = "ta_options a" and written = "written (ta_as_json a)"]
      by (auto simp: verify_unique_tool_def verify_main_def any_twice_def full_open_for_inspection_def
          reference_open_for_inspection_def)
  qed
qed

section \<open>An instrument changes nothing\<close>

lemma inspection_keeps:
  assumes "opened E (open_for_inspection E mode) d = (r, d')" "distinct (map fst (files d))" "no_records (files d)"
  shows "keeps_entries (files d) (files d')" "r = Returned (Inr db) \<Longrightarrow> db_disk db = d'"
proof -
  let ?dbn = "(new_database d)\<lparr>db_capacity := capacities False\<rparr>"
  obtain r1 db1 where run: "configure_internal E False mode Inspection ?dbn = (r1, db1)" by fastforce
  have new: "db_disk ?dbn = d" by (simp add: new_database_def)
  obtain d1 where "files d1 = files d" "keeping (files d) d1 (db_disk db1)"
    using configure_keeping[OF run] assms(2,3) by (auto simp: new)
  then have k: "keeps_entries (files d) (files (db_disk db1))"
    using keeping_final[of "files d" d1 "db_disk db1"] by simp
  have "d' = db_disk db1 \<or> d' = db_disk (close_database E db1)"
    using assms(1) run by (auto simp: opened_def open_for_inspection_def split: call.splits sum.splits)
  then show "keeps_entries (files d) (files d')"
    using k keeping_final[OF close_database_keeping[OF k] k] by auto
  show "r = Returned (Inr db) \<Longrightarrow> db_disk db = d'"
    using assms(1) run by (auto simp: opened_def open_for_inspection_def split: call.splits sum.splits)
qed

lemma closed_keeps:
  assumes "keeps_entries s0 (files (db_disk db))"
  shows "keeps_entries s0 (files (case base_close E (Live db) of Shut d \<Rightarrow> d | Live db \<Rightarrow> db_disk db))"
  using keeping_final[OF close_database_keeping[OF assms] assms] by (simp add: base_close_def)

lemma verify_same_disk:
  assumes run: "verify_unique_outpoints E options db = (r, db')" and few: "length (stored_copies db) < 2 ^ 64"
  shows "same_disk (db_disk db) (db_disk db')"
proof (cases "db' = db")
  case False
  let ?b = "vo_memory_budget options"
  let ?opts = "\<lparr>wo_memory_budget = ?b, wo_max_data_passes = vo_max_data_passes options\<rparr>"
  obtain caps bytes where sz: "verify_sizes options = Some (caps, bytes)"
    using run False by (auto simp: verify_unique_outpoints_def split: option.splits)
  let ?out0 = "(empty_uniqueness_report (db_mode db) (vo_include_outpoints options))\<lparr>ur_report_bytes_estimate := bytes\<rparr>"
  obtain m1 m2 where res: "reserve (vo_max_findings options) size_of_sampled_finding (new_budget_meter (?b - headroom_of ?b)) = (True, m1)"
    "reserve caps size_of_duplicate_location m1 = (True, m2)"
    using run sz False by (auto simp: verify_unique_outpoints_def Let_def split: if_splits prod.splits bool.splits)
  obtain x s' m3 d where w: "walk_distinct_keys E ?opts distinct_cb (group_cb options) db (?out0, [], []) m2 (db_disk db) = (x, s', m3, d)"
    by (rule prod_cases4)
  have fin: "db_disk db' = d"
    using run sz res w False by (cases x) (auto simp: verify_unique_outpoints_def Let_def split: if_splits prod.splits)
  have "steady (?b - headroom_of ?b) (new_budget_meter (?b - headroom_of ?b))"
    by (simp add: steady_def meter_inv_def new_budget_meter_def)
  then have st: "steady (wo_memory_budget ?opts - headroom_of (wo_memory_budget ?opts)) m2"
    using steady_reserve[OF steady_reserve[OF _ res(1)] res(2)] by simp
  from walk_spec(1)[OF w same_disk_refl few st] show ?thesis by (simp add: fin)
qed simp

lemma run_tool_keeps:
  assumes run: "run_tool (opened E (open_for_inspection E mode)) E options written d = (r, d')"
    and start: "distinct (map fst (files d))" "no_records (files d)" and few: "size (entries_on mode d) < 2 ^ 64"
    and tables: "tables_ok d"
  shows "keeps_entries (files d) (files d')"
proof -
  obtain ro d1 where o: "opened E (open_for_inspection E mode) d = (ro, d1)" by fastforce
  note k = inspection_keeps[OF o start]
  show ?thesis
  proof (cases "\<exists>db. ro = Returned (Inr db)")
    case False
    then show ?thesis using run o k(1) by (auto simp: run_tool_def split: call.splits sum.splits)
  next
    case True
    then obtain db where db: "ro = Returned (Inr db)" by blast
    obtain report h where v: "base_verify_unique_outpoints E options (Live db) = (report, h)" by fastforce
    have "\<exists>db'. h = Live db' \<and> keeps_entries (files d) (files (db_disk db'))"
    proof (cases "h = Live db")
      case False
      obtain ru db' where vv: "verify_unique_outpoints E options db = (ru, db')" "h = Live db'"
        using v False by (auto simp: base_verify_unique_outpoints_def through_def split: sum.splits prod.splits)
      have "length (stored_copies db) < 2 ^ 64"
        using arg_cong[OF inspected(2)[OF o[unfolded db] start(1) tables start(2)], of size] few
        by (simp add: stored_keys_def)
      then have "same_disk (db_disk db) (db_disk db')" by (rule verify_same_disk[OF vv(1)])
      then show ?thesis using vv(2) k db by (simp add: same_disk_def)
    qed (use k db in simp)
    then obtain db' where h: "h = Live db'" "keeps_entries (files d) (files (db_disk db'))" by blast
    show ?thesis
      using run o db v h(1) closed_keeps[OF h(2), of E] by (auto simp: run_tool_def Let_def split: sum.splits)
  qed
qed

lemma full_db_census_same:
  assumes "full_db_census E G options (Live db) = (r, h)"
  shows "\<exists>db'. h = Live db' \<and> same_disk (db_disk db) (db_disk db')"
proof -
  have "same_disk (db_disk db) (db_disk db')" if "full_census E G options db = (r, db')" for r db'
    using that by (auto simp: full_census_def split: prod.splits sum.splits dest: census_classes_same)
  then show ?thesis
    using assms by (auto simp: full_db_census_def through_def split: sum.splits prod.splits)
qed

lemma run_census_keeps:
  assumes run: "run_census (full_open_for_inspection E) E (full_db_census E G options) d = (r, d')"
    and start: "distinct (map fst (files d))" "no_records (files d)"
  shows "r \<noteq> Terminated" "keeps_entries (files d) (files d')"
proof -
  obtain ro d1 where o: "opened E (open_for_inspection E Full_mode) d = (ro, d1)" by fastforce
  note k = inspection_keeps[OF o start]
  have "r \<noteq> Terminated \<and> keeps_entries (files d) (files d')"
  proof (cases "\<exists>db. ro = Returned (Inr db)")
    case False
    then show ?thesis
      using run o k(1) inspection_never_raises[of E Full_mode d]
      by (auto simp: run_census_def full_open_for_inspection_def split: call.splits sum.splits)
  next
    case True
    then obtain db where db: "ro = Returned (Inr db)" by blast
    obtain report h where c: "full_db_census E G options (Live db) = (report, h)" by fastforce
    from full_db_census_same[OF this] obtain db' where h: "h = Live db'" "same_disk (db_disk db) (db_disk db')" by blast
    have "keeps_entries (files d) (files (db_disk db'))" using h(2) k db by (simp add: same_disk_def)
    from closed_keeps[OF this, of E] show ?thesis
      using run o db c h(1) by (auto simp: run_census_def full_open_for_inspection_def split: sum.splits)
  qed
  then show "r \<noteq> Terminated" "keeps_entries (files d) (files d')" by simp_all
qed

section \<open>Property\<close>


lemma example_entries: "size (entries_on Reference_mode (db_disk example_resting)) = 1"
proof -
  have "entries_on Reference_mode (db_disk example_resting) = contents example_resting reference_sentinel_index"
    using example_at_rest listed_stored[of example_resting reference_sentinel_index]
    by (simp add: entries_on_def indices_of_def at_rest_def example_resting_def)
  then show ?thesis
    by (simp add: example_resting_def contents_def generation_bag_def generation_def resting_store_lookup
        example_segment_def tbl_bag_def tbl_add_def tbl_empty_def)
qed

lemma example_sound: "sound_directory Reference_mode (db_disk example_resting)"
  using example_at_rest by (simp add: sound_directory_def example_entries at_rest_def idle_def)

definition empty_disk :: "'v disk" where
  "empty_disk = db_disk (example_db [] [])"

lemma empty_sound: "sound_directory mode empty_disk"
  by (simp add: sound_directory_def empty_disk_def example_db_def tables_ok_def no_records_def entries_on_def
      stored_at_def generation_bag_def generation_def lookup_file_def)


end
